(* ===== verification/Prelude.thy ===== *)
theory Prelude
  imports Main "HOL-Library.Word" "HOL-Library.Monad_Syntax"
begin

text \<open>
  Shared vocabulary of the development: the names of the machine types of the
  source (\<^verbatim>\<open>include/types.h\<close>, MIPS o32: \<^verbatim>\<open>u_int\<close> and \<^verbatim>\<open>u_long\<close> are 32 bits wide,
  \<^verbatim>\<open>u_short\<close> is 16, \<^verbatim>\<open>u_char\<close> is 8), the error codes of \<^verbatim>\<open>include/error.h\<close>, and the
  generic lemmas on words, options and lists that several components use.

  Conventions.  A function of the source that can stop the machine (\<^verbatim>\<open>panic\<close>, a
  failed \<^verbatim>\<open>assert\<close>, a null or wild pointer access) is modelled by a function into
  \<^typ>\<open>'a option\<close>, and \<^const>\<open>None\<close> is "the call does not return".  A function
  that returns a negative error code returns a value of the sum type
  \<^typ>\<open>'e + 'a\<close> inside, \<^const>\<open>Inl\<close> carrying the code.
\<close>

unbundle bit_operations_syntax

section \<open>Machine types and error codes\<close>

type_synonym u8 = "8 word"
type_synonym u16 = "16 word"
type_synonym u32 = "32 word"

datatype err =
    E_UNSPECIFIED | E_BAD_ENV | E_INVAL | E_NO_MEM | E_NO_SYS | E_NO_FREE_ENV
  | E_IPC_NOT_RECV | E_NO_DISK | E_MAX_OPEN | E_NOT_FOUND | E_BAD_PATH
  | E_FILE_EXISTS | E_NOT_EXEC

text \<open>The numeric value of an error code; the C functions return its negation.\<close>

fun errno :: "err \<Rightarrow> int" where
  "errno E_UNSPECIFIED = 1"
| "errno E_BAD_ENV = 2"
| "errno E_INVAL = 3"
| "errno E_NO_MEM = 4"
| "errno E_NO_SYS = 5"
| "errno E_NO_FREE_ENV = 6"
| "errno E_IPC_NOT_RECV = 7"
| "errno E_NO_DISK = 8"
| "errno E_MAX_OPEN = 9"
| "errno E_NOT_FOUND = 10"
| "errno E_BAD_PATH = 11"
| "errno E_FILE_EXISTS = 12"
| "errno E_NOT_EXEC = 13"

lemma errno_pos [simp]: "0 < errno e"
  by (cases e) simp_all

lemma errno_inject [simp]: "errno e = errno e' \<longleftrightarrow> e = e'"
  by (cases e; cases e') simp_all

named_theorems word_nat \<open>equations that read a word expression as a natural number\<close>

section \<open>Options\<close>

lemma bind_eq_SomeD:
  assumes "Option.bind x f = Some y"
  obtains z where "x = Some z" and "f z = Some y"
  using assms by (auto simp: Option.bind_eq_Some_conv)

lemma case_sum_cong_Inr [simp]:
  "(case (Inr x :: 'a + 'b) of Inl e \<Rightarrow> f e | Inr y \<Rightarrow> g y) = g x"
  by simp

section \<open>Lists\<close>

lemma remove1_middle:
  "x \<notin> set xs \<Longrightarrow> remove1 x (xs @ x # ys) = xs @ ys"
  by (simp add: remove1_append)

lemma distinct_split_unique:
  assumes "distinct xs" and "x \<in> set xs"
  obtains ys zs where "xs = ys @ x # zs" and "x \<notin> set ys" and "x \<notin> set zs"
  using assms by (metis distinct.simps(2) distinct_append in_set_conv_decomp disjoint_iff
      list.set_intros(1))

section \<open>Words\<close>

lemma unat_mask_shift [word_nat]:
  "unat (drop_bit n (w :: 'a::len word)) = unat w div 2 ^ n"
  unfolding unat_drop_bit_eq by (simp add: drop_bit_eq_div)

lemma unat_lt_32 [simp]: "unat (w :: u32) < 4294967296"
  using unsigned_less [of w, where ?'a = nat] by simp

lemma word_of_nat_unat_eq: "n < 2 ^ LENGTH('a) \<Longrightarrow> unat (of_nat n :: 'a::len word) = n"
  by (simp add: unsigned_of_nat take_bit_nat_eq_self)

lemma unat_add_no_overflow:
  "unat a + unat b < 2 ^ LENGTH('a) \<Longrightarrow> unat (a + b :: 'a::len word) = unat a + unat b"
  by (simp add: unat_add_lem)

section \<open>Error propagation\<close>

text \<open>The macro \<^verbatim>\<open>try(expr)\<close> of \<^verbatim>\<open>error.h\<close>: return the error of \<open>expr\<close>, or go on.\<close>

definition try_c :: "((err + 'a) \<times> 's) option \<Rightarrow> ('a \<Rightarrow> 's \<Rightarrow> ((err + 'b) \<times> 's) option) \<Rightarrow>
    ((err + 'b) \<times> 's) option" where
  "try_c m f = Option.bind m (\<lambda>(r, s). case r of Inl e \<Rightarrow> Some (Inl e, s) | Inr x \<Rightarrow> f x s)"

lemma try_c_simps [simp]:
  "try_c None f = None"
  "try_c (Some (Inl e, s)) f = Some (Inl e, s)"
  "try_c (Some (Inr x, s)) f = f x s"
  by (simp_all add: try_c_def)

text \<open>A counted loop whose body may stop the machine.\<close>

fun fold_opt :: "('a \<Rightarrow> 's \<Rightarrow> 's option) \<Rightarrow> 'a list \<Rightarrow> 's \<Rightarrow> 's option" where
  "fold_opt f [] s = Some s"
| "fold_opt f (x # xs) s = Option.bind (f x s) (fold_opt f xs)"

lemma fold_opt_append: "fold_opt f (xs @ ys) s = Option.bind (fold_opt f xs s) (fold_opt f ys)"
  by (induction xs arbitrary: s) (auto split: bind_split)

text \<open>A loop that never stops and whose body keeps \<open>I\<close> after each element.\<close>

lemma fold_opt_inv:
  assumes "I 0 s" and "\<And>k s. k < length xs \<Longrightarrow> I k s \<Longrightarrow> \<exists>s'. f (xs ! k) s = Some s' \<and> I (Suc k) s'"
  shows "\<exists>s'. fold_opt f xs s = Some s' \<and> I (length xs) s'"
  using assms
proof (induction xs arbitrary: I s)
  case (Cons x xs)
  from Cons.prems obtain s1 where s1: "f x s = Some s1" "I (Suc 0) s1"
    by (metis length_greater_0_conv list.discI nth_Cons_0)
  have "\<exists>s'. fold_opt f xs s1 = Some s' \<and> (I \<circ> Suc) (length xs) s'"
  proof (rule Cons.IH)
    show "(I \<circ> Suc) 0 s1" using s1 by simp
    show "\<exists>s'. f (xs ! k) s = Some s' \<and> (I \<circ> Suc) (Suc k) s'"
      if "k < length xs" "(I \<circ> Suc) k s" for k s
      using Cons.prems(2) [of "Suc k" s] that by simp
  qed
  then show ?case by (simp add: s1)
qed simp

end
