(* ===== verification/Queue.thy ===== *)
theory Queue
  imports Prelude
begin

text \<open>
  The intrusive lists and tail queues of \<^verbatim>\<open>include/queue.h\<close>, at the level of the
  pointers the macros assign.  A list head and the link fields of all elements
  form one record; the back link of an element is the address of the cell that
  points to it, so its type is \<open>slot\<close>: the head's first-element cell or the next
  cell of an element.  \<open>list_rep\<close> and \<open>tailq_rep\<close> say which list of elements
  a linked structure holds, and every macro is shown to act on that list as its
  name says, on an element that is in the structure (removal) or outside it
  (insertion).  What the macros do to an element for which this is not so is also
  visible: the store through a null back link is \<^const>\<open>None\<close>, a machine fault.
\<close>

section \<open>Cells and link fields\<close>

datatype 'a slot = Head | NextOf 'a

record 'a list_q =
  lh_first :: "'a option"
  le_next :: "'a \<Rightarrow> 'a option"
  le_prev :: "'a \<Rightarrow> 'a slot option"

record 'a tailq =
  tqh_first :: "'a option"
  tqh_last :: "'a slot option"
  tqe_next :: "'a \<Rightarrow> 'a option"
  tqe_prev :: "'a \<Rightarrow> 'a slot option"

text \<open>A structure in zeroed memory (\<^verbatim>\<open>.bss\<close>): every pointer is null.\<close>

definition list_q_zero :: "'a list_q" where
  "list_q_zero = \<lparr>lh_first = None, le_next = (\<lambda>_. None), le_prev = (\<lambda>_. None)\<rparr>"

definition tailq_zero :: "'a tailq" where
  "tailq_zero = \<lparr>tqh_first = None, tqh_last = None, tqe_next = (\<lambda>_. None),
     tqe_prev = (\<lambda>_. None)\<rparr>"

text \<open>The assignment \<open>*p = v\<close> through a pointer to a cell.\<close>

fun list_put :: "'a slot option \<Rightarrow> 'a option \<Rightarrow> 'a list_q \<Rightarrow> 'a list_q option" where
  "list_put None v q = None"
| "list_put (Some Head) v q = Some (q\<lparr>lh_first := v\<rparr>)"
| "list_put (Some (NextOf a)) v q = Some (q\<lparr>le_next := (le_next q)(a := v)\<rparr>)"

fun tailq_put :: "'a slot option \<Rightarrow> 'a option \<Rightarrow> 'a tailq \<Rightarrow> 'a tailq option" where
  "tailq_put None v q = None"
| "tailq_put (Some Head) v q = Some (q\<lparr>tqh_first := v\<rparr>)"
| "tailq_put (Some (NextOf a)) v q = Some (q\<lparr>tqe_next := (tqe_next q)(a := v)\<rparr>)"

section \<open>The macros\<close>

definition LIST_EMPTY :: "'a list_q \<Rightarrow> bool" where
  "LIST_EMPTY q \<longleftrightarrow> lh_first q = None"

definition LIST_INIT :: "'a list_q \<Rightarrow> 'a list_q" where
  "LIST_INIT q = q\<lparr>lh_first := None\<rparr>"

definition LIST_INSERT_AFTER :: "'a \<Rightarrow> 'a \<Rightarrow> 'a list_q \<Rightarrow> 'a list_q" where
  "LIST_INSERT_AFTER listelm elm q0 =
     (let q1 = q0\<lparr>le_prev := (le_prev q0)(elm := Some (NextOf listelm))\<rparr>;
          q2 = q1\<lparr>le_next := (le_next q1)(elm := le_next q1 listelm)\<rparr>;
          q3 = (case le_next q2 elm of None \<Rightarrow> q2
                | Some n \<Rightarrow> q2\<lparr>le_prev := (le_prev q2)(n := Some (NextOf elm))\<rparr>)
      in q3\<lparr>le_next := (le_next q3)(listelm := Some elm)\<rparr>)"

definition LIST_INSERT_BEFORE :: "'a \<Rightarrow> 'a \<Rightarrow> 'a list_q \<Rightarrow> 'a list_q option" where
  "LIST_INSERT_BEFORE listelm elm q0 =
     (let q1 = q0\<lparr>le_prev := (le_prev q0)(elm := le_prev q0 listelm)\<rparr>;
          q2 = q1\<lparr>le_next := (le_next q1)(elm := Some listelm)\<rparr>
      in do {
        q3 \<leftarrow> list_put (le_prev q2 listelm) (Some elm) q2;
        Some (q3\<lparr>le_prev := (le_prev q3)(listelm := Some (NextOf elm))\<rparr>)
      })"

definition LIST_INSERT_HEAD :: "'a \<Rightarrow> 'a list_q \<Rightarrow> 'a list_q" where
  "LIST_INSERT_HEAD elm q0 =
     (let q1 = q0\<lparr>le_next := (le_next q0)(elm := lh_first q0)\<rparr>;
          q2 = (case lh_first q1 of None \<Rightarrow> q1
                | Some f \<Rightarrow> q1\<lparr>le_prev := (le_prev q1)(f := Some (NextOf elm))\<rparr>);
          q3 = q2\<lparr>lh_first := Some elm\<rparr>
      in q3\<lparr>le_prev := (le_prev q3)(elm := Some Head)\<rparr>)"

definition LIST_REMOVE :: "'a \<Rightarrow> 'a list_q \<Rightarrow> 'a list_q option" where
  "LIST_REMOVE elm q0 =
     (let q1 = (case le_next q0 elm of None \<Rightarrow> q0
                | Some n \<Rightarrow> q0\<lparr>le_prev := (le_prev q0)(n := le_prev q0 elm)\<rparr>)
      in list_put (le_prev q1 elm) (le_next q1 elm) q1)"

definition TAILQ_EMPTY :: "'a tailq \<Rightarrow> bool" where
  "TAILQ_EMPTY q \<longleftrightarrow> tqh_first q = None"

definition TAILQ_INIT :: "'a tailq \<Rightarrow> 'a tailq" where
  "TAILQ_INIT q = q\<lparr>tqh_first := None, tqh_last := Some Head\<rparr>"

definition TAILQ_INSERT_HEAD :: "'a \<Rightarrow> 'a tailq \<Rightarrow> 'a tailq" where
  "TAILQ_INSERT_HEAD elm q0 =
     (let q1 = q0\<lparr>tqe_next := (tqe_next q0)(elm := tqh_first q0)\<rparr>;
          q2 = (case tqh_first q1 of
                  None \<Rightarrow> q1\<lparr>tqh_last := Some (NextOf elm)\<rparr>
                | Some f \<Rightarrow> q1\<lparr>tqe_prev := (tqe_prev q1)(f := Some (NextOf elm))\<rparr>);
          q3 = q2\<lparr>tqh_first := Some elm\<rparr>
      in q3\<lparr>tqe_prev := (tqe_prev q3)(elm := Some Head)\<rparr>)"

definition TAILQ_INSERT_TAIL :: "'a \<Rightarrow> 'a tailq \<Rightarrow> 'a tailq option" where
  "TAILQ_INSERT_TAIL elm q0 =
     (let q1 = q0\<lparr>tqe_next := (tqe_next q0)(elm := None)\<rparr>;
          q2 = q1\<lparr>tqe_prev := (tqe_prev q1)(elm := tqh_last q1)\<rparr>
      in do {
        q3 \<leftarrow> tailq_put (tqh_last q2) (Some elm) q2;
        Some (q3\<lparr>tqh_last := Some (NextOf elm)\<rparr>)
      })"

definition TAILQ_INSERT_AFTER :: "'a \<Rightarrow> 'a \<Rightarrow> 'a tailq \<Rightarrow> 'a tailq" where
  "TAILQ_INSERT_AFTER listelm elm q0 =
     (let q1 = q0\<lparr>tqe_next := (tqe_next q0)(elm := tqe_next q0 listelm)\<rparr>;
          q2 = (case tqe_next q1 elm of
                  None \<Rightarrow> q1\<lparr>tqh_last := Some (NextOf elm)\<rparr>
                | Some n \<Rightarrow> q1\<lparr>tqe_prev := (tqe_prev q1)(n := Some (NextOf elm))\<rparr>);
          q3 = q2\<lparr>tqe_next := (tqe_next q2)(listelm := Some elm)\<rparr>
      in q3\<lparr>tqe_prev := (tqe_prev q3)(elm := Some (NextOf listelm))\<rparr>)"

definition TAILQ_INSERT_BEFORE :: "'a \<Rightarrow> 'a \<Rightarrow> 'a tailq \<Rightarrow> 'a tailq option" where
  "TAILQ_INSERT_BEFORE listelm elm q0 =
     (let q1 = q0\<lparr>tqe_prev := (tqe_prev q0)(elm := tqe_prev q0 listelm)\<rparr>;
          q2 = q1\<lparr>tqe_next := (tqe_next q1)(elm := Some listelm)\<rparr>
      in do {
        q3 \<leftarrow> tailq_put (tqe_prev q2 listelm) (Some elm) q2;
        Some (q3\<lparr>tqe_prev := (tqe_prev q3)(listelm := Some (NextOf elm))\<rparr>)
      })"

definition TAILQ_REMOVE :: "'a \<Rightarrow> 'a tailq \<Rightarrow> 'a tailq option" where
  "TAILQ_REMOVE elm q0 =
     (let q1 = (case tqe_next q0 elm of
                  None \<Rightarrow> q0\<lparr>tqh_last := tqe_prev q0 elm\<rparr>
                | Some n \<Rightarrow> q0\<lparr>tqe_prev := (tqe_prev q0)(n := tqe_prev q0 elm)\<rparr>)
      in tailq_put (tqe_prev q1 elm) (tqe_next q1 elm) q1)"

section \<open>Which list a linked structure holds\<close>

text \<open>
  \<open>lpath n p c x as c' y\<close>: starting at cell \<open>c\<close>, which holds \<open>x\<close>, the next
  links \<open>n\<close> visit exactly \<open>as\<close>, each element's back link \<open>p\<close> being the cell it
  was reached from, and end at cell \<open>c'\<close>, which holds \<open>y\<close>.
\<close>

primrec lpath :: "('a \<Rightarrow> 'a option) \<Rightarrow> ('a \<Rightarrow> 'a slot option) \<Rightarrow> 'a slot \<Rightarrow> 'a option \<Rightarrow>
    'a list \<Rightarrow> 'a slot \<Rightarrow> 'a option \<Rightarrow> bool" where
  "lpath n p c x [] c' y \<longleftrightarrow> c = c' \<and> x = y"
| "lpath n p c x (a # as) c' y \<longleftrightarrow>
     x = Some a \<and> p a = Some c \<and> lpath n p (NextOf a) (n a) as c' y"

definition endslot :: "'a list \<Rightarrow> 'a slot" where
  "endslot xs = (if xs = [] then Head else NextOf (last xs))"

definition list_rep :: "'a list_q \<Rightarrow> 'a list \<Rightarrow> bool" where
  "list_rep q xs \<longleftrightarrow>
     lpath (le_next q) (le_prev q) Head (lh_first q) xs (endslot xs) None \<and> distinct xs"

definition tailq_rep :: "'a tailq \<Rightarrow> 'a list \<Rightarrow> bool" where
  "tailq_rep q xs \<longleftrightarrow>
     lpath (tqe_next q) (tqe_prev q) Head (tqh_first q) xs (endslot xs) None \<and>
     tqh_last q = Some (endslot xs) \<and> distinct xs"

lemma endslot_simps [simp]:
  "endslot [] = Head" "endslot [x] = NextOf x" "endslot (xs @ [x]) = NextOf x"
  "endslot (y # x # xs) = endslot (x # xs)"
  by (simp_all add: endslot_def)

lemma endslot_append_Cons [simp]: "endslot (xs @ y # ys) = endslot (y # ys)"
  by (simp add: endslot_def)

lemma lpath_append:
  "lpath n p c x (as @ bs) c' y \<longleftrightarrow>
     (\<exists>d z. lpath n p c x as d z \<and> lpath n p d z bs c' y)"
  by (induction as arbitrary: c x) auto

lemma lpath_end_cell:
  "lpath n p c x as d z \<Longrightarrow> d = (if as = [] then c else NextOf (last as))"
  by (induction as arbitrary: c x) auto

lemma lpath_frame_next:
  "a \<notin> set as \<Longrightarrow> lpath (n(a := v)) p c x as d z = lpath n p c x as d z"
  by (induction as arbitrary: c x) auto

lemma lpath_frame_prev:
  "a \<notin> set as \<Longrightarrow> lpath n (p(a := v)) c x as d z = lpath n p c x as d z"
  by (induction as arbitrary: c x) auto

text \<open>Changing what the last cell of a path holds changes the end of the path only.\<close>

lemma lpath_redirect:
  assumes "lpath n p c x (as @ [a]) d z" and "a \<notin> set as"
  shows "lpath (n(a := w)) p c x (as @ [a]) d w"
  using assms by (auto simp: lpath_append lpath_frame_next)

lemma lpath_unique:
  "lpath n p c x as d None \<Longrightarrow> lpath n p c x bs e None \<Longrightarrow> as = bs"
proof (induction as arbitrary: bs c x)
  case Nil
  then show ?case by (cases bs) auto
next
  case (Cons a as)
  then show ?case by (cases bs) auto
qed

lemma list_rep_unique: "list_rep q xs \<Longrightarrow> list_rep q ys \<Longrightarrow> xs = ys"
  by (auto simp: list_rep_def dest: lpath_unique)

lemma tailq_rep_unique: "tailq_rep q xs \<Longrightarrow> tailq_rep q ys \<Longrightarrow> xs = ys"
  by (auto simp: tailq_rep_def dest: lpath_unique)

lemma list_rep_distinct: "list_rep q xs \<Longrightarrow> distinct xs"
  by (simp add: list_rep_def)

lemma tailq_rep_distinct: "tailq_rep q xs \<Longrightarrow> distinct xs"
  by (simp add: tailq_rep_def)

lemma list_rep_first:
  "list_rep q xs \<Longrightarrow> lh_first q = (case xs of [] \<Rightarrow> None | x # _ \<Rightarrow> Some x)"
  by (cases xs) (auto simp: list_rep_def)

lemma tailq_rep_first:
  "tailq_rep q xs \<Longrightarrow> tqh_first q = (case xs of [] \<Rightarrow> None | x # _ \<Rightarrow> Some x)"
  by (cases xs) (auto simp: tailq_rep_def)

section \<open>The macros on the represented list\<close>

lemma LIST_INIT_rep: "list_rep (LIST_INIT q) []"
  by (simp add: list_rep_def LIST_INIT_def)

lemma TAILQ_INIT_rep: "tailq_rep (TAILQ_INIT q) []"
  by (simp add: tailq_rep_def TAILQ_INIT_def)

lemma LIST_EMPTY_rep: "list_rep q xs \<Longrightarrow> LIST_EMPTY q \<longleftrightarrow> xs = []"
  by (auto simp: LIST_EMPTY_def dest: list_rep_first split: list.splits)

lemma TAILQ_EMPTY_rep: "tailq_rep q xs \<Longrightarrow> TAILQ_EMPTY q \<longleftrightarrow> xs = []"
  by (auto simp: TAILQ_EMPTY_def dest: tailq_rep_first split: list.splits)

lemma lpath_insert_head:
  assumes "lpath n p Head f xs (endslot xs) None" and "x \<notin> set xs" and "distinct xs"
  shows "lpath (n(x := f))
           ((case f of None \<Rightarrow> p | Some y \<Rightarrow> p(y := Some (NextOf x)))(x := Some Head))
           Head (Some x) (x # xs) (endslot (x # xs)) None"
proof (cases xs)
  case Nil
  with assms show ?thesis by (simp add: endslot_def)
next
  case (Cons y ys)
  with assms show ?thesis
    by (auto simp: endslot_def lpath_frame_next lpath_frame_prev)
qed

lemma LIST_INSERT_HEAD_rep:
  "list_rep q xs \<Longrightarrow> x \<notin> set xs \<Longrightarrow> list_rep (LIST_INSERT_HEAD x q) (x # xs)"
  using lpath_insert_head [of "le_next q" "le_prev q" "lh_first q" xs x]
  by (auto simp: list_rep_def LIST_INSERT_HEAD_def Let_def split: option.splits)

lemma TAILQ_INSERT_HEAD_rep:
  assumes "tailq_rep q xs" and "x \<notin> set xs"
  shows "tailq_rep (TAILQ_INSERT_HEAD x q) (x # xs)"
  using assms lpath_insert_head [of "tqe_next q" "tqe_prev q" "tqh_first q" xs x]
    tailq_rep_first [OF assms(1)]
  by (cases xs)
    (auto simp: tailq_rep_def TAILQ_INSERT_HEAD_def Let_def endslot_def)


text \<open>
  Unlinking: the element in the middle of a path is bypassed by redirecting the cell
  that pointed to it and the back link of its successor.
\<close>

lemma lpath_split_at:
  assumes "lpath n p Head f (as @ x # bs) c' None"
  shows "lpath n p Head f as (endslot as) (Some x)" and "p x = Some (endslot as)"
    and "lpath n p (NextOf x) (n x) bs c' None"
  using assms lpath_end_cell [of n p Head f as]
  by (auto simp: lpath_append endslot_def)

definition back_fix :: "('a \<Rightarrow> 'a option) \<Rightarrow> ('a \<Rightarrow> 'a slot option) \<Rightarrow> 'a \<Rightarrow> ('a \<Rightarrow> 'a slot option)"
where "back_fix n p x = (case n x of None \<Rightarrow> p | Some y \<Rightarrow> p(y := p x))"

lemma lpath_bypass:
  assumes path: "lpath n p Head f (as @ x # bs) (endslot (as @ x # bs)) None"
    and dist: "distinct (as @ x # bs)"
  shows "as = [] \<Longrightarrow> lpath n (back_fix n p x) Head (n x) bs (endslot bs) None"
    and "as = cs @ [c] \<Longrightarrow>
       lpath (n(c := n x)) (back_fix n p x) Head f (as @ bs) (endslot (as @ bs)) None"
proof -
  have tail: "lpath n (back_fix n p x) (endslot as) (n x) bs
      (if bs = [] then endslot as else endslot bs) None"
    using lpath_split_at [OF path] dist
    by (cases bs) (auto simp: back_fix_def lpath_frame_prev endslot_def)
  show "as = [] \<Longrightarrow> lpath n (back_fix n p x) Head (n x) bs (endslot bs) None"
    using tail by (cases bs) auto
  assume as: "as = cs @ [c]"
  have front: "lpath n (back_fix n p x) Head f as (endslot as) (Some x)"
    using lpath_split_at [OF path] dist
    by (cases bs) (auto simp: back_fix_def lpath_frame_prev)
  have "lpath (n(c := n x)) (back_fix n p x) Head f as (endslot as) (n x)"
    using front dist lpath_redirect [of n "back_fix n p x" Head f cs c] by (simp add: as)
  moreover have "lpath (n(c := n x)) (back_fix n p x) (endslot as) (n x) bs
      (endslot (as @ bs)) None"
    using tail dist as by (cases bs) (auto simp: lpath_frame_next endslot_def)
  ultimately show "lpath (n(c := n x)) (back_fix n p x) Head f (as @ bs) (endslot (as @ bs)) None"
    by (auto simp: lpath_append)
qed

lemma back_fix_self:
  assumes "lpath n p Head f (as @ x # bs) c' None" and "distinct (as @ x # bs)"
  shows "back_fix n p x x = Some (endslot as)"
  using lpath_split_at [OF assms(1)] assms(2)
  by (cases bs) (auto simp: back_fix_def)

lemma LIST_REMOVE_rep:
  assumes rep: "list_rep q xs" and "x \<in> set xs"
  shows "\<exists>q'. LIST_REMOVE x q = Some q' \<and> list_rep q' (remove1 x xs)"
proof -
  from rep assms(2) obtain as bs where xs: "xs = as @ x # bs" and x: "x \<notin> set as"
    by (metis split_list_first)
  let ?n = "le_next q" and ?p = "le_prev q" and ?f = "lh_first q"
  have path: "lpath ?n ?p Head ?f (as @ x # bs) (endslot (as @ x # bs)) None"
    and dist: "distinct (as @ x # bs)"
    using rep by (simp_all add: list_rep_def xs)
  have rm: "LIST_REMOVE x q =
      list_put (Some (endslot as)) (?n x) (q\<lparr>le_prev := back_fix ?n ?p x\<rparr>)"
    using back_fix_self [OF path dist]
    by (auto simp: LIST_REMOVE_def back_fix_def Let_def split: option.splits)
  show ?thesis
  proof (cases as rule: rev_cases)
    case Nil
    with lpath_bypass(1) [OF path dist] dist rm xs x show ?thesis
      by (auto simp: list_rep_def remove1_middle)
  next
    case (snoc cs c)
    with lpath_bypass(2) [OF path dist snoc] dist rm xs x show ?thesis
      by (auto simp: list_rep_def remove1_append endslot_def)
  qed
qed

lemma TAILQ_REMOVE_rep:
  assumes rep: "tailq_rep q xs" and "x \<in> set xs"
  shows "\<exists>q'. TAILQ_REMOVE x q = Some q' \<and> tailq_rep q' (remove1 x xs)"
proof -
  from rep assms(2) obtain as bs where xs: "xs = as @ x # bs" and x: "x \<notin> set as"
    by (metis split_list_first)
  let ?n = "tqe_next q" and ?p = "tqe_prev q" and ?f = "tqh_first q"
  let ?last = "if bs = [] then Some (endslot as) else tqh_last q"
  have path: "lpath ?n ?p Head ?f (as @ x # bs) (endslot (as @ x # bs)) None"
    and dist: "distinct (as @ x # bs)" and last: "tqh_last q = Some (endslot xs)"
    using rep by (simp_all add: tailq_rep_def xs)
  have nx: "?n x = None \<longleftrightarrow> bs = []"
    using lpath_split_at(3) [OF path] by (cases bs) auto
  have rm: "TAILQ_REMOVE x q = tailq_put (Some (endslot as)) (?n x)
      (q\<lparr>tqh_last := ?last, tqe_prev := back_fix ?n ?p x\<rparr>)"
    using back_fix_self [OF path dist] lpath_split_at(2) [OF path] nx
    by (cases "?n x") (auto simp: TAILQ_REMOVE_def back_fix_def Let_def)
  have newlast: "?last = Some (endslot (as @ bs))"
    using last by (cases bs) (auto simp: xs endslot_def)
  show ?thesis
  proof (cases as rule: rev_cases)
    case Nil
    with lpath_bypass(1) [OF path dist] dist rm xs x newlast show ?thesis
      by (auto simp: tailq_rep_def remove1_middle)
  next
    case (snoc cs c)
    with lpath_bypass(2) [OF path dist snoc] dist rm xs x newlast show ?thesis
      by (auto simp: tailq_rep_def remove1_append endslot_def)
  qed
qed

text \<open>Linking at the end and beside an element.\<close>

lemma TAILQ_INSERT_TAIL_rep:
  assumes rep: "tailq_rep q xs" and x: "x \<notin> set xs"
  shows "\<exists>q'. TAILQ_INSERT_TAIL x q = Some q' \<and> tailq_rep q' (xs @ [x])"
proof (cases xs rule: rev_cases)
  case Nil
  with rep show ?thesis
    by (auto simp: tailq_rep_def TAILQ_INSERT_TAIL_def Let_def)
next
  case (snoc ys y)
  let ?n = "(tqe_next q)(x := None)" and ?p = "(tqe_prev q)(x := Some (NextOf y))"
  have "lpath ?n ?p Head (tqh_first q) (ys @ [y]) (NextOf y) None"
    using rep x snoc by (simp add: tailq_rep_def lpath_frame_next lpath_frame_prev)
  then have "lpath (?n(y := Some x)) ?p Head (tqh_first q) (ys @ [y]) (NextOf y) (Some x)"
    using rep snoc by (intro lpath_redirect) (auto simp: tailq_rep_def)
  then have "lpath (?n(y := Some x)) ?p Head (tqh_first q) (xs @ [x]) (NextOf x) None"
    using x by (auto simp: lpath_append snoc)
  with rep x snoc show ?thesis
    by (auto simp: tailq_rep_def TAILQ_INSERT_TAIL_def Let_def)
qed

definition link_after_prev :: "('a \<Rightarrow> 'a option) \<Rightarrow> ('a \<Rightarrow> 'a slot option) \<Rightarrow> 'a \<Rightarrow> 'a \<Rightarrow> 'a \<Rightarrow> 'a slot option"
where
  "link_after_prev n p y x =
     (case n y of None \<Rightarrow> p(x := Some (NextOf y))
      | Some z \<Rightarrow> p(x := Some (NextOf y), z := Some (NextOf x)))"

lemma lpath_insert_after:
  assumes path: "lpath n p Head f (as @ y # bs) (endslot (as @ y # bs)) None"
    and dist: "distinct (as @ y # bs)" and x: "x \<notin> set (as @ y # bs)"
  shows "lpath (n(x := n y, y := Some x)) (link_after_prev n p y x) Head f
           (as @ y # x # bs) (endslot (as @ y # x # bs)) None"
proof -
  let ?n' = "n(x := n y, y := Some x)" and ?p' = "link_after_prev n p y x"
  note [simp] = link_after_prev_def
  have ne: "n y \<noteq> Some x" and ny: "n y \<noteq> Some y"
    and na: "\<And>z. n y = Some z \<Longrightarrow> z \<notin> set as"
    using lpath_split_at(3) [OF path] dist x by (cases bs; auto)+
  have front: "lpath ?n' ?p' Head f as (endslot as) (Some y)"
    using lpath_split_at(1) [OF path] dist x na
    by (cases "n y") (auto simp: lpath_frame_next lpath_frame_prev)
  have rear: "lpath ?n' ?p' (NextOf x) (n y) bs (if bs = [] then NextOf x else endslot bs) None"
    using lpath_split_at(3) [OF path] dist x
    by (cases bs) (auto simp: lpath_frame_next lpath_frame_prev endslot_def)
  have links: "?p' y = Some (endslot as)" "?p' x = Some (NextOf y)"
    using lpath_split_at(2) [OF path] x ne ny by (cases "n y"; auto)+
  show ?thesis
    using front rear links x by (cases bs) (auto simp: lpath_append endslot_def)
qed

lemma LIST_INSERT_AFTER_rep:
  assumes rep: "list_rep q (as @ y # bs)" and x: "x \<notin> set (as @ y # bs)"
  shows "list_rep (LIST_INSERT_AFTER y x q) (as @ y # x # bs)"
proof -
  have "LIST_INSERT_AFTER y x q =
      q\<lparr>le_prev := link_after_prev (le_next q) (le_prev q) y x,
        le_next := (le_next q)(x := le_next q y, y := Some x)\<rparr>"
    using x by (auto simp: LIST_INSERT_AFTER_def link_after_prev_def Let_def split: option.splits)
  with lpath_insert_after [of "le_next q" "le_prev q" "lh_first q" as y bs x] rep x
  show ?thesis by (auto simp: list_rep_def)
qed

lemma TAILQ_INSERT_AFTER_rep:
  assumes rep: "tailq_rep q (as @ y # bs)" and x: "x \<notin> set (as @ y # bs)"
  shows "tailq_rep (TAILQ_INSERT_AFTER y x q) (as @ y # x # bs)"
proof -
  let ?n = "tqe_next q" and ?p = "tqe_prev q"
  have path: "lpath ?n ?p Head (tqh_first q) (as @ y # bs) (endslot (as @ y # bs)) None"
    using rep by (simp add: tailq_rep_def)
  have nx: "?n y \<noteq> Some x"
    using lpath_split_at(3) [OF path] x by (cases bs) auto
  have eq: "TAILQ_INSERT_AFTER y x q =
      q\<lparr>tqh_last := (if ?n y = None then Some (NextOf x) else tqh_last q),
        tqe_prev := link_after_prev ?n ?p y x, tqe_next := ?n(x := ?n y, y := Some x)\<rparr>"
    using x nx by (auto simp: TAILQ_INSERT_AFTER_def link_after_prev_def Let_def fun_upd_twist
        split: option.splits)
  have "(if ?n y = None then Some (NextOf x) else tqh_last q) =
      Some (endslot (as @ y # x # bs))"
    using rep lpath_split_at(3) [OF path] by (cases bs) (auto simp: tailq_rep_def endslot_def)
  with eq lpath_insert_after [OF path _ x] rep x show ?thesis
    by (auto simp: tailq_rep_def)
qed

text \<open>Linking before an element stores the new element in the cell that led to it.\<close>

lemma lpath_insert_before:
  assumes path: "lpath n p Head f (as @ y # bs) (endslot (as @ y # bs)) None"
    and dist: "distinct (as @ y # bs)" and x: "x \<notin> set (as @ y # bs)"
  shows "as = [] \<Longrightarrow>
      lpath (n(x := Some y)) (p(x := p y, y := Some (NextOf x))) Head (Some x)
        (x # y # bs) (endslot (y # bs)) None"
    and "as = cs @ [c] \<Longrightarrow>
      lpath (n(x := Some y, c := Some x)) (p(x := p y, y := Some (NextOf x))) Head f
        (as @ x # y # bs) (endslot (y # bs)) None"
proof -
  let ?n = "n(x := Some y)" and ?p = "p(x := p y, y := Some (NextOf x))"
  have rear: "lpath n p (NextOf y) (n y) bs (endslot (y # bs)) None"
    using lpath_split_at(3) [OF path] by simp
  show "as = [] \<Longrightarrow> lpath ?n ?p Head (Some x) (x # y # bs) (endslot (y # bs)) None"
    using rear lpath_split_at(2) [OF path] dist x
    by (auto simp: lpath_frame_next lpath_frame_prev)
  assume as: "as = cs @ [c]"
  have "lpath ?n ?p Head f as (endslot as) (Some y)"
    using lpath_split_at(1) [OF path] dist x by (simp add: lpath_frame_next lpath_frame_prev)
  then have "lpath (?n(c := Some x)) ?p Head f as (endslot as) (Some x)"
    using lpath_redirect [of ?n ?p Head f cs c] dist by (simp add: as)
  then show "lpath (?n(c := Some x)) ?p Head f (as @ x # y # bs) (endslot (y # bs)) None"
    using rear lpath_split_at(2) [OF path] dist x as
    by (auto simp: lpath_append lpath_frame_next lpath_frame_prev)
qed

lemma LIST_INSERT_BEFORE_rep:
  assumes rep: "list_rep q (as @ y # bs)" and x: "x \<notin> set (as @ y # bs)"
  shows "\<exists>q'. LIST_INSERT_BEFORE y x q = Some q' \<and> list_rep q' (as @ x # y # bs)"
proof -
  have path: "lpath (le_next q) (le_prev q) Head (lh_first q) (as @ y # bs)
      (endslot (as @ y # bs)) None" and dist: "distinct (as @ y # bs)"
    using rep by (simp_all add: list_rep_def)
  show ?thesis
  proof (cases as rule: rev_cases)
    case Nil
    with lpath_insert_before(1) [OF path dist x] lpath_split_at(2) [OF path] dist x
    show ?thesis by (auto simp: LIST_INSERT_BEFORE_def list_rep_def Let_def)
  next
    case (snoc cs c)
    with lpath_insert_before(2) [OF path dist x snoc] lpath_split_at(2) [OF path] dist x
    show ?thesis by (auto simp: LIST_INSERT_BEFORE_def list_rep_def Let_def)
  qed
qed

lemma TAILQ_INSERT_BEFORE_rep:
  assumes rep: "tailq_rep q (as @ y # bs)" and x: "x \<notin> set (as @ y # bs)"
  shows "\<exists>q'. TAILQ_INSERT_BEFORE y x q = Some q' \<and> tailq_rep q' (as @ x # y # bs)"
proof -
  have path: "lpath (tqe_next q) (tqe_prev q) Head (tqh_first q) (as @ y # bs)
      (endslot (as @ y # bs)) None" and dist: "distinct (as @ y # bs)"
    using rep by (simp_all add: tailq_rep_def)
  have last: "tqh_last q = Some (endslot (y # bs))"
    using rep by (simp add: tailq_rep_def)
  show ?thesis
  proof (cases as rule: rev_cases)
    case Nil
    with lpath_insert_before(1) [OF path dist x] lpath_split_at(2) [OF path] dist x last
    show ?thesis by (auto simp: TAILQ_INSERT_BEFORE_def tailq_rep_def Let_def)
  next
    case (snoc cs c)
    with lpath_insert_before(2) [OF path dist x snoc] lpath_split_at(2) [OF path] dist x last
    show ?thesis by (auto simp: TAILQ_INSERT_BEFORE_def tailq_rep_def Let_def)
  qed
qed

section \<open>The interface the kernel relies on\<close>

text \<open>
  What the allocators and the scheduler use of the macros: a structure that holds a list
  of distinct elements, a first element, insertion at the head, removal of a member; the
  run queue also inserts at the tail.  Both kinds of list of \<^verbatim>\<open>queue.h\<close> are instances.
\<close>

locale linked_queue =
  fixes rep :: "'q \<Rightarrow> 'a list \<Rightarrow> bool"
    and first :: "'q \<Rightarrow> 'a option"
    and ins_head :: "'a \<Rightarrow> 'q \<Rightarrow> 'q"
    and remove :: "'a \<Rightarrow> 'q \<Rightarrow> 'q option"
  assumes rep_unique: "rep q xs \<Longrightarrow> rep q ys \<Longrightarrow> xs = ys"
    and rep_dist: "rep q xs \<Longrightarrow> distinct xs"
    and first_rep: "rep q xs \<Longrightarrow> first q = (case xs of [] \<Rightarrow> None | x # _ \<Rightarrow> Some x)"
    and ins_head_rep: "rep q xs \<Longrightarrow> x \<notin> set xs \<Longrightarrow> rep (ins_head x q) (x # xs)"
    and remove_rep: "rep q xs \<Longrightarrow> x \<in> set xs \<Longrightarrow>
           \<exists>q'. remove x q = Some q' \<and> rep q' (remove1 x xs)"
begin

lemma first_None: "rep q xs \<Longrightarrow> first q = None \<longleftrightarrow> xs = []"
  by (cases xs) (auto simp: first_rep)

lemma first_Some: "rep q xs \<Longrightarrow> first q = Some x \<Longrightarrow> xs = x # tl xs"
  by (cases xs) (auto simp: first_rep)

lemma pop:
  assumes "rep q (x # xs)"
  shows "first q = Some x" and "\<exists>q'. remove x q = Some q' \<and> rep q' xs"
  using assms remove_rep [OF assms, of x] by (auto simp: first_rep)

lemma removeD: "rep q xs \<Longrightarrow> x \<in> set xs \<Longrightarrow> remove x q = Some q' \<Longrightarrow> rep q' (remove1 x xs)"
  using remove_rep by fastforce

lemma pop_push:
  assumes "rep q (x # xs)"
  shows "\<exists>q'. remove x q = Some q' \<and> rep (ins_head x q') (x # xs)"
  using pop(2) [OF assms] rep_dist [OF assms] ins_head_rep by auto

lemma push_pop:
  assumes "rep q xs" and "x \<notin> set xs"
  shows "first (ins_head x q) = Some x \<and>
    (\<exists>q'. remove x (ins_head x q) = Some q' \<and> rep q' xs)"
  using pop [OF ins_head_rep [OF assms]] by simp

lemma push_all:
  "rep q xs \<Longrightarrow> distinct ys \<Longrightarrow> set ys \<inter> set xs = {} \<Longrightarrow>
     rep (fold ins_head ys q) (rev ys @ xs)"
  by (induction ys arbitrary: q xs) (auto simp: ins_head_rep)

end

locale run_queue = linked_queue rep first ins_head remove
  for rep :: "'q \<Rightarrow> 'a list \<Rightarrow> bool" and first ins_head remove +
  fixes ins_tail :: "'a \<Rightarrow> 'q \<Rightarrow> 'q option"
  assumes ins_tail_rep: "rep q xs \<Longrightarrow> x \<notin> set xs \<Longrightarrow>
           \<exists>q'. ins_tail x q = Some q' \<and> rep q' (xs @ [x])"
begin

lemma move_to_tail:
  assumes "rep q xs" and "x \<in> set xs"
  shows "\<exists>q1 q2. remove x q = Some q1 \<and> ins_tail x q1 = Some q2 \<and> rep q2 (remove1 x xs @ [x])"
proof -
  obtain q1 where q1: "remove x q = Some q1" "rep q1 (remove1 x xs)"
    using remove_rep [OF assms] by blast
  have "x \<notin> set (remove1 x xs)"
    using rep_dist [OF assms(1)] by simp
  with ins_tail_rep [OF q1(2)] q1(1) show ?thesis by blast
qed

lemma ins_tailD: "rep q xs \<Longrightarrow> x \<notin> set xs \<Longrightarrow> ins_tail x q = Some q' \<Longrightarrow> rep q' (xs @ [x])"
  using ins_tail_rep by fastforce

end

interpretation lq: linked_queue list_rep lh_first LIST_INSERT_HEAD LIST_REMOVE
  by unfold_locales
    (auto intro: list_rep_unique list_rep_distinct LIST_INSERT_HEAD_rep LIST_REMOVE_rep
      simp: list_rep_first)

interpretation tq: run_queue tailq_rep tqh_first TAILQ_INSERT_HEAD TAILQ_REMOVE TAILQ_INSERT_TAIL
  by unfold_locales
    (auto intro: tailq_rep_unique tailq_rep_distinct TAILQ_INSERT_HEAD_rep TAILQ_REMOVE_rep
      TAILQ_INSERT_TAIL_rep simp: tailq_rep_first)

end
