(* ===== verification/Mmu.thy ===== *)
theory Mmu
  imports Prelude
begin

text \<open>
  Address arithmetic of \<^verbatim>\<open>include/mmu.h\<close>, \<^verbatim>\<open>include/types.h\<close> and the inline
  helpers of \<^verbatim>\<open>include/pmap.h\<close>: the memory layout, the fields of a virtual
  address, page table entries, and the translations between physical and kernel
  virtual addresses, whose range checks panic.  A \<^verbatim>\<open>struct Page *\<close> is modelled by
  its index in the array \<^verbatim>\<open>pages\<close>.
\<close>

section \<open>Layout and flag constants\<close>

abbreviation (input) BY2PG :: u32 where "BY2PG \<equiv> 4096"
abbreviation (input) PDMAP :: u32 where "PDMAP \<equiv> 4194304"
abbreviation (input) PGSHIFT :: nat where "PGSHIFT \<equiv> 12"
abbreviation (input) PDSHIFT :: nat where "PDSHIFT \<equiv> 22"

abbreviation (input) PTE_G :: u32 where "PTE_G \<equiv> 0x100"
abbreviation (input) PTE_V :: u32 where "PTE_V \<equiv> 0x200"
abbreviation (input) PTE_D :: u32 where "PTE_D \<equiv> 0x400"
abbreviation (input) PTE_N :: u32 where "PTE_N \<equiv> 0x800"
abbreviation (input) PTE_COW :: u32 where "PTE_COW \<equiv> 0x001"
abbreviation (input) PTE_LIBRARY :: u32 where "PTE_LIBRARY \<equiv> 0x004"

abbreviation (input) KSEG1 :: u32 where "KSEG1 \<equiv> 0xA0000000"

text \<open>
  The segments below \<^verbatim>\<open>ULIM\<close>, each \<^verbatim>\<open>PDMAP\<close> or a page below the one before, with
  the values the comment table of the header lists.
\<close>

definition ULIM :: u32 where "ULIM = 0x80000000"
definition UVPT :: u32 where "UVPT = ULIM - PDMAP"
definition UPAGES :: u32 where "UPAGES = UVPT - PDMAP"
definition UENVS :: u32 where "UENVS = UPAGES - PDMAP"
definition UTOP :: u32 where "UTOP = UENVS"
definition UXSTACKTOP :: u32 where "UXSTACKTOP = UTOP"
definition USTACKTOP :: u32 where "USTACKTOP = UTOP - 2 * BY2PG"
definition UTEXT :: u32 where "UTEXT = PDMAP"
definition UCOW :: u32 where "UCOW = UTEXT - BY2PG"
definition UTEMP :: u32 where "UTEMP = UCOW - BY2PG"
definition KSTACKTOP :: u32 where "KSTACKTOP = ULIM + PDMAP"

lemma mmu_layout:
  "ULIM = 0x80000000" "UVPT = 0x7fc00000" "UPAGES = 0x7f800000" "UENVS = 0x7f400000"
  "UTOP = 0x7f400000" "UXSTACKTOP = 0x7f400000" "USTACKTOP = 0x7f3fe000"
  "UTEXT = 0x00400000" "UCOW = 0x003ff000" "UTEMP = 0x003fe000" "KSTACKTOP = 0x80400000"
  by (simp_all add: ULIM_def UVPT_def UPAGES_def UENVS_def UTOP_def UXSTACKTOP_def USTACKTOP_def
      UTEXT_def UCOW_def UTEMP_def KSTACKTOP_def)

section \<open>Fields of addresses and entries\<close>

definition PDX :: "u32 \<Rightarrow> u32" where
  "PDX va = drop_bit 22 va AND 0x03FF"

definition PTX :: "u32 \<Rightarrow> u32" where
  "PTX va = drop_bit 12 va AND 0x03FF"

definition PTE_ADDR :: "u32 \<Rightarrow> u32" where
  "PTE_ADDR pte = pte AND NOT 0xFFF"

definition PPN :: "u32 \<Rightarrow> u32" where
  "PPN va = drop_bit 12 va"

definition VPN :: "u32 \<Rightarrow> u32" where
  "VPN va = drop_bit 12 va"

text \<open>\<^verbatim>\<open>ROUND\<close> and \<^verbatim>\<open>ROUNDDOWN\<close> of \<^verbatim>\<open>types.h\<close>.\<close>

definition ROUND :: "u32 \<Rightarrow> u32 \<Rightarrow> u32" where
  "ROUND a n = (a + n - 1) AND NOT (n - 1)"

definition ROUNDDOWN :: "u32 \<Rightarrow> u32 \<Rightarrow> u32" where
  "ROUNDDOWN a n = a AND NOT (n - 1)"

section \<open>Translations with range checks\<close>

definition PADDR :: "u32 \<Rightarrow> u32 option" where
  "PADDR kva = (if kva < ULIM then None else Some (kva - ULIM))"

definition KADDR :: "u32 \<Rightarrow> u32 \<Rightarrow> u32 option" where
  "KADDR np pa = (if PPN pa \<ge> np then None else Some (pa + ULIM))"

definition TRUP :: "u32 \<Rightarrow> u32" where
  "TRUP p = (if p > ULIM then ULIM else p)"

definition page2ppn :: "nat \<Rightarrow> u32" where
  "page2ppn pp = of_nat pp"

definition page2pa :: "nat \<Rightarrow> u32" where
  "page2pa pp = push_bit 12 (page2ppn pp)"

definition pa2page :: "u32 \<Rightarrow> u32 \<Rightarrow> nat option" where
  "pa2page np pa = (if PPN pa \<ge> np then None else Some (unat (PPN pa)))"

definition page2kva :: "u32 \<Rightarrow> nat \<Rightarrow> u32 option" where
  "page2kva np pp = KADDR np (page2pa pp)"

section \<open>Reading the fields as numbers\<close>

lemma and_mask_10: "x AND 0x3FF = take_bit 10 (x :: u32)"
  by (simp add: take_bit_eq_mask mask_eq_exp_minus_1)

lemma and_not_mask: "x AND NOT (mask n) = push_bit n (drop_bit n (x :: 'a::len word))"
  by (rule bit_eqI) (auto simp: bit_simps)

lemma PTE_ADDR_shift: "PTE_ADDR pte = push_bit 12 (drop_bit 12 pte)"
  using and_not_mask [of pte 12] by (simp add: PTE_ADDR_def mask_eq_exp_minus_1)

lemma unat_PDX [word_nat]: "unat (PDX va) = unat va div 4194304"
proof -
  have "unat (PDX va) = take_bit 10 (unat va div 4194304)"
    by (simp add: PDX_def and_mask_10 unsigned_take_bit_eq word_nat)
  moreover have "unat va div 4194304 < 1024"
    by (rule less_mult_imp_div_less) simp
  ultimately show ?thesis by (simp add: take_bit_eq_mod)
qed

lemma unat_PTX [word_nat]: "unat (PTX va) = unat va div 4096 mod 1024"
proof -
  have "unat (PTX va) = take_bit 10 (unat va div 4096)"
    by (simp add: PTX_def and_mask_10 unsigned_take_bit_eq word_nat)
  then show ?thesis by (simp add: take_bit_eq_mod)
qed

lemma unat_PPN [word_nat]: "unat (PPN va) = unat va div 4096"
  by (simp add: PPN_def word_nat)

lemma unat_VPN [word_nat]: "unat (VPN va) = unat va div 4096"
  by (simp add: VPN_def word_nat)

lemma unat_div_4096_bound: "unat (va :: u32) div 4096 < 1048576"
  by (rule less_mult_imp_div_less) simp

lemma unat_PTE_ADDR [word_nat]: "unat (PTE_ADDR va) = unat va div 4096 * 4096"
  using unat_div_4096_bound [of va]
  by (simp add: PTE_ADDR_shift push_bit_eq_mult unat_word_ariths word_nat)

lemma PDX_bound [simp]: "unat (PDX va) < 1024"
  unfolding unat_PDX by (rule less_mult_imp_div_less) simp

lemma PTX_bound [simp]: "unat (PTX va) < 1024"
  by (simp add: unat_PTX)

text \<open>The page number of an address is its two table indices.\<close>

lemma VPN_split: "unat (VPN va) = unat (PDX va) * 1024 + unat (PTX va)"
proof -
  have "unat va div 4194304 = unat va div 4096 div 1024"
    by (simp flip: div_mult2_eq)
  then show ?thesis by (simp add: word_nat)
qed

lemma same_indices_iff:
  "unat (PDX va) = unat (PDX va') \<and> unat (PTX va) = unat (PTX va') \<longleftrightarrow> VPN va = VPN va'"
proof
  assume "unat (PDX va) = unat (PDX va') \<and> unat (PTX va) = unat (PTX va')"
  then have "unat (VPN va) = unat (VPN va')"
    by (simp only: VPN_split)
  then show "VPN va = VPN va'"
    by (simp only: word_unat_eq_iff)
next
  assume eq: "VPN va = VPN va'"
  then have "unat (PDX va) * 1024 + unat (PTX va) = unat (PDX va') * 1024 + unat (PTX va')"
    by (simp flip: VPN_split)
  then have "unat (PDX va) = unat (PDX va')"
    using PTX_bound [of va] PTX_bound [of va'] by linarith
  moreover have "unat (PTX va) = unat (PTX va')"
    using eq by (metis unat_PTX unat_VPN)
  ultimately show "unat (PDX va) = unat (PDX va') \<and> unat (PTX va) = unat (PTX va')"
    by simp
qed

text \<open>Physical page numbers: 19 bits are enough for the memory below \<^verbatim>\<open>KSEG1\<close>'s alias.\<close>

lemma unat_page2ppn: "pp < 4294967296 \<Longrightarrow> unat (page2ppn pp) = pp"
  by (simp add: page2ppn_def word_of_nat_unat_eq)

lemma unat_page2pa: "pp < 1048576 \<Longrightarrow> unat (page2pa pp) = pp * 4096"
  by (simp add: page2pa_def push_bit_eq_mult unat_word_ariths unat_page2ppn)

lemma PPN_page2pa: "pp < 1048576 \<Longrightarrow> PPN (page2pa pp) = of_nat pp"
  by (simp add: word_unat_eq_iff unat_PPN unat_page2pa word_of_nat_unat_eq)

lemma pa2page_page2pa:
  "pp < unat np \<Longrightarrow> unat np \<le> 1048576 \<Longrightarrow> pa2page np (page2pa pp) = Some pp"
  by (simp add: pa2page_def PPN_page2pa word_le_nat_alt word_of_nat_unat_eq)

lemma unat_page_kva:
  "pp < 524288 \<Longrightarrow> unat (page2pa pp + ULIM) = 2147483648 + pp * 4096"
  by (simp add: unat_word_ariths unat_page2pa ULIM_def)

lemma page2kva_Some:
  "pp < unat np \<Longrightarrow> unat np \<le> 1048576 \<Longrightarrow> page2kva np pp = Some (page2pa pp + ULIM)"
  by (simp add: page2kva_def KADDR_def PPN_page2pa word_le_nat_alt word_of_nat_unat_eq)

text \<open>
  A page table entry built as the code does, \<^verbatim>\<open>page2pa(pp) | perm | PTE_V\<close>, gives back
  the page when \<^verbatim>\<open>perm\<close> has only permission bits.
\<close>

definition mk_pte :: "nat \<Rightarrow> u32 \<Rightarrow> u32" where
  "mk_pte pp perm = page2pa pp OR perm OR PTE_V"

definition perm_ok :: "u32 \<Rightarrow> bool" where
  "perm_ok perm \<longleftrightarrow> perm AND NOT 0xFFF = 0"

definition pte_page :: "u32 \<Rightarrow> nat" where
  "pte_page pte = unat (PPN pte)"

definition pte_perm :: "u32 \<Rightarrow> u32" where
  "pte_perm pte = pte AND 0xFFF"

definition valid :: "u32 \<Rightarrow> bool" where
  "valid pte \<longleftrightarrow> pte AND PTE_V \<noteq> 0"

lemma perm_ok_drop: "perm_ok perm \<Longrightarrow> drop_bit 12 perm = 0"
proof -
  assume "perm_ok perm"
  then have "push_bit 12 (drop_bit 12 perm) = 0"
    using PTE_ADDR_shift [of perm] by (simp add: perm_ok_def PTE_ADDR_def)
  then have "unat (PTE_ADDR perm) = 0"
    by (simp add: PTE_ADDR_shift)
  then show ?thesis
    by (simp add: word_unat_eq_iff word_nat)
qed

lemma valid_mk_pte [simp]: "valid (mk_pte pp perm)"
proof -
  have "bit (mk_pte pp perm AND PTE_V) 9"
    by (simp add: mk_pte_def bit_simps)
  then show ?thesis
    unfolding valid_def by (metis bit_0_eq bot_apply bot_bool_def)
qed

lemma not_valid_0 [simp]: "\<not> valid 0"
  by (simp add: valid_def)

lemma PPN_mk_pte: "pp < 1048576 \<Longrightarrow> perm_ok perm \<Longrightarrow> PPN (mk_pte pp perm) = of_nat pp"
  using PPN_page2pa [of pp]
  by (simp add: mk_pte_def PPN_def perm_ok_drop)

lemma pte_page_mk_pte [simp]: "pp < 1048576 \<Longrightarrow> perm_ok perm \<Longrightarrow> pte_page (mk_pte pp perm) = pp"
  by (simp add: pte_page_def PPN_mk_pte word_of_nat_unat_eq)

lemma pa2page_pte: "pa2page np pte = (if pte_page pte < unat np then Some (pte_page pte) else None)"
  by (auto simp: pa2page_def pte_page_def word_le_nat_alt)

end
