(* ===== verification/Pmap.thy ===== *)
theory Pmap
  imports Queue Mmu
begin

text \<open>
  Physical memory management and two-level page tables: \<^verbatim>\<open>kern/pmap.c\<close>.  The state
  holds the globals of that file: the memory size, the boot-time allocation pointer,
  the array \<^verbatim>\<open>pages\<close> (its reference counts, 16 bits wide as \<^verbatim>\<open>u_short\<close> is, and its
  links, kept in the free list's record), the contents of physical memory page by
  page as 1024 words each, and the TLB as the map from the EntryHi key (page address
  and ASID) to EntryLo.  Kernel data is accessed through \<^verbatim>\<open>kseg0\<close> addresses with
  \<open>kload\<close> and \<open>kstore\<close>; an access outside physical memory or not aligned to a word
  does not return.
\<close>

record pmap_state =
  memsize :: u32
  npage :: u32
  freemem :: u32
  pages :: u32
  pp_ref :: "nat \<Rightarrow> u16"
  page_free_list :: "nat list_q"
  pmem :: "nat \<Rightarrow> nat \<Rightarrow> u32"
  tlb :: "u32 \<Rightarrow> u32 option"

section \<open>Kernel loads and stores\<close>

definition kva_page :: "u32 \<Rightarrow> nat" where
  "kva_page a = (unat a - 2147483648) div 4096"

definition kva_word :: "u32 \<Rightarrow> nat" where
  "kva_word a = unat a mod 4096 div 4"

definition kva_ok :: "('z) pmap_state_scheme \<Rightarrow> u32 \<Rightarrow> bool" where
  "kva_ok s a \<longleftrightarrow> ULIM \<le> a \<and> a < KSEG1 \<and> kva_page a < unat (npage s) \<and> unat a mod 4 = 0"

definition kload :: "('z) pmap_state_scheme \<Rightarrow> u32 \<Rightarrow> u32 option" where
  "kload s a = (if kva_ok s a then Some (pmem s (kva_page a) (kva_word a)) else None)"

definition kstore :: "u32 \<Rightarrow> u32 \<Rightarrow> ('z) pmap_state_scheme \<Rightarrow> ('z) pmap_state_scheme option" where
  "kstore a v s =
     (if kva_ok s a
      then Some (s\<lparr>pmem := (pmem s)(kva_page a := (pmem s (kva_page a))(kva_word a := v))\<rparr>)
      else None)"

text \<open>\<^verbatim>\<open>memset(page2kva(pp), 0, BY2PG)\<close>: every word of the page becomes zero.\<close>

definition zero_page :: "nat \<Rightarrow> ('z) pmap_state_scheme \<Rightarrow> ('z) pmap_state_scheme" where
  "zero_page pp s = s\<lparr>pmem := (pmem s)(pp := (\<lambda>_. 0))\<rparr>"

text \<open>\<^verbatim>\<open>memset((void *)a, 0, n)\<close> on kernel memory: the bytes of each word that lie in
  \<open>[a, a + n)\<close> become zero, the others are kept.\<close>

definition keep_mask :: "nat \<Rightarrow> nat \<Rightarrow> nat \<Rightarrow> u32" where
  "keep_mask lo hi w =
     (let k = (\<lambda>j. if lo \<le> w + j \<and> w + j < hi then 0 else 0xFF :: u32)
      in k 0 OR push_bit 8 (k 1) OR push_bit 16 (k 2) OR push_bit 24 (k 3))"

definition kzero_bytes :: "u32 \<Rightarrow> u32 \<Rightarrow> ('z) pmap_state_scheme \<Rightarrow> ('z) pmap_state_scheme" where
  "kzero_bytes a n s = s\<lparr>pmem := (\<lambda>p w. pmem s p w AND
     keep_mask (unat a) (unat a + unat n) (2147483648 + p * 4096 + w * 4))\<rparr>"

section \<open>Boot: memory size, the early allocator, the page array\<close>

text \<open>The size register of the memory device is read once.\<close>

definition mips_detect_memory :: "u32 \<Rightarrow> ('z) pmap_state_scheme \<Rightarrow> ('z) pmap_state_scheme" where
  "mips_detect_memory dev_mp_memory s =
     s\<lparr>memsize := dev_mp_memory, npage := drop_bit 12 dev_mp_memory\<rparr>"

text \<open>\<open>kend\<close> is the linker's symbol \<^verbatim>\<open>end\<close>.\<close>

definition alloc :: "u32 \<Rightarrow> u32 \<Rightarrow> u32 \<Rightarrow> bool \<Rightarrow> ('z) pmap_state_scheme \<Rightarrow>
    (u32 \<times> ('z) pmap_state_scheme) option" where
  "alloc kend n align clear s =
     (let f0 = (if freemem s = 0 then kend else freemem s);
          alloced_mem = ROUND f0 align;
          f = alloced_mem + n
      in do {
        pa \<leftarrow> PADDR f;
        if pa \<ge> memsize s then None
        else
          (let s1 = s\<lparr>freemem := f\<rparr>;
               s2 = (if clear then kzero_bytes alloced_mem n s1 else s1)
           in Some (alloced_mem, s2))
      })"

text \<open>\<^verbatim>\<open>sizeof(struct Page)\<close> is 12: two link pointers and a half word, padded.\<close>

definition mips_vm_init :: "u32 \<Rightarrow> ('z) pmap_state_scheme \<Rightarrow> ('z) pmap_state_scheme option" where
  "mips_vm_init kend s = do {
     (a, s') \<leftarrow> alloc kend (npage s * 12) BY2PG True s;
     Some (s'\<lparr>pages := a, pp_ref := (\<lambda>_. 0),
       page_free_list := (page_free_list s')\<lparr>le_next := (\<lambda>_. None), le_prev := (\<lambda>_. None)\<rparr>\<rparr>)
   }"

definition page_init :: "('z) pmap_state_scheme \<Rightarrow> ('z) pmap_state_scheme option" where
  "page_init s0 =
     (let s1 = s0\<lparr>page_free_list := LIST_INIT (page_free_list s0),
                  freemem := ROUND (freemem s0) BY2PG\<rparr>
      in do {
        pa \<leftarrow> PADDR (freemem s1);
        let tmp = unat pa div 4096;
        let s2 = fold (\<lambda>i s. s\<lparr>pp_ref := (pp_ref s)(i := 1)\<rparr>) [0..<tmp] s1;
        Some (fold (\<lambda>i s. s\<lparr>pp_ref := (pp_ref s)(i := 0),
                 page_free_list := LIST_INSERT_HEAD i (page_free_list s)\<rparr>)
               [tmp..<unat (npage s2)] s2)
      })"

section \<open>Physical pages\<close>

definition page_alloc :: "('z) pmap_state_scheme \<Rightarrow>
    ((err + nat) \<times> ('z) pmap_state_scheme) option" where
  "page_alloc s =
     (case lh_first (page_free_list s) of
        None \<Rightarrow> Some (Inl E_NO_MEM, s)
      | Some pp \<Rightarrow> do {
          fl \<leftarrow> LIST_REMOVE pp (page_free_list s);
          _ \<leftarrow> page2kva (npage s) pp;
          Some (Inr pp, zero_page pp (s\<lparr>page_free_list := fl\<rparr>))
        })"

definition page_free :: "nat \<Rightarrow> ('z) pmap_state_scheme \<Rightarrow> ('z) pmap_state_scheme option" where
  "page_free pp s =
     (if pp_ref s pp \<noteq> 0 then None
      else Some (s\<lparr>page_free_list := LIST_INSERT_HEAD pp (page_free_list s)\<rparr>))"

definition page_decref :: "nat \<Rightarrow> ('z) pmap_state_scheme \<Rightarrow> ('z) pmap_state_scheme option" where
  "page_decref pp s =
     (if pp_ref s pp = 0 then None
      else
        (let s1 = s\<lparr>pp_ref := (pp_ref s)(pp := pp_ref s pp - 1)\<rparr>
         in if pp_ref s1 pp = 0 then page_free pp s1 else Some s1))"

section \<open>The TLB\<close>

text \<open>\<^verbatim>\<open>tlb_out\<close> of \<^verbatim>\<open>kern/tlb_asm.S\<close> drops the entry with the given EntryHi.\<close>

definition tlb_out :: "u32 \<Rightarrow> ('z) pmap_state_scheme \<Rightarrow> ('z) pmap_state_scheme" where
  "tlb_out entryhi s = s\<lparr>tlb := (tlb s)(entryhi := None)\<rparr>"

definition tlb_invalidate :: "u32 \<Rightarrow> u32 \<Rightarrow> ('z) pmap_state_scheme \<Rightarrow> ('z) pmap_state_scheme" where
  "tlb_invalidate asid va s = tlb_out (PTE_ADDR va OR push_bit 6 asid) s"

section \<open>Page tables\<close>

text \<open>
  The result of \<^verbatim>\<open>pgdir_walk\<close> is the error code, or the kernel address stored in
  \<^verbatim>\<open>*ppte\<close> (\<^const>\<open>None\<close> for \<^verbatim>\<open>NULL\<close>).
\<close>

definition pgdir_walk :: "u32 \<Rightarrow> u32 \<Rightarrow> bool \<Rightarrow> ('z) pmap_state_scheme \<Rightarrow>
    ((err + u32 option) \<times> ('z) pmap_state_scheme) option" where
  "pgdir_walk pgdir va create s =
     (let pgdir_entryp = pgdir + push_bit 2 (PDX va);
          entry = (\<lambda>s. do {
             pde \<leftarrow> kload s pgdir_entryp;
             base \<leftarrow> KADDR (npage s) (push_bit 12 (PPN pde));
             Some (Inr (Some (base + push_bit 2 (PTX va))), s) })
      in do {
        pde \<leftarrow> kload s pgdir_entryp;
        if pde AND PTE_V = 0 then
          (if create then do {
             (r, s1) \<leftarrow> page_alloc s;
             (case r of
                Inl e \<Rightarrow> Some (Inl e, s1)
              | Inr pp \<Rightarrow> do {
                  s2 \<leftarrow> kstore pgdir_entryp (page2pa pp OR PTE_V OR PTE_D) s1;
                  entry (s2\<lparr>pp_ref := (pp_ref s2)(pp := 1)\<rparr>)
                })
           }
           else Some (Inr None, s))
        else entry s
      })"

text \<open>The page mapped at \<^verbatim>\<open>va\<close> with the address of its entry, or \<^verbatim>\<open>NULL\<close>.\<close>

definition page_lookup :: "u32 \<Rightarrow> u32 \<Rightarrow> ('z) pmap_state_scheme \<Rightarrow>
    ((nat \<times> u32) option \<times> ('z) pmap_state_scheme) option" where
  "page_lookup pgdir va s = do {
     (r, s1) \<leftarrow> pgdir_walk pgdir va False s;
     (case r of
        Inr (Some pte) \<Rightarrow> do {
          v \<leftarrow> kload s1 pte;
          if v AND PTE_V = 0 then Some (None, s1)
          else do { pp \<leftarrow> pa2page (npage s1) v; Some (Some (pp, pte), s1) }
        }
      | _ \<Rightarrow> Some (None, s1))
   }"

definition page_remove :: "u32 \<Rightarrow> u32 \<Rightarrow> u32 \<Rightarrow> ('z) pmap_state_scheme \<Rightarrow>
    ('z) pmap_state_scheme option" where
  "page_remove pgdir asid va s = do {
     (r, s1) \<leftarrow> page_lookup pgdir va s;
     (case r of
        None \<Rightarrow> Some s1
      | Some (pp, pte) \<Rightarrow> do {
          s2 \<leftarrow> page_decref pp s1;
          s3 \<leftarrow> kstore pte 0 s2;
          Some (tlb_invalidate asid va s3)
        })
   }"

text \<open>Steps 2 to 4 of \<^verbatim>\<open>page_insert\<close>, reached when the page is not mapped there yet.\<close>

definition page_insert_new :: "u32 \<Rightarrow> u32 \<Rightarrow> nat \<Rightarrow> u32 \<Rightarrow> u32 \<Rightarrow> ('z) pmap_state_scheme \<Rightarrow>
    ((err + unit) \<times> ('z) pmap_state_scheme) option" where
  "page_insert_new pgdir asid pp va perm s = do {
     (r, s1) \<leftarrow> pgdir_walk pgdir va True (tlb_invalidate asid va s);
     (case r of
        Inl e \<Rightarrow> Some (Inl e, s1)
      | Inr None \<Rightarrow> None
      | Inr (Some pte) \<Rightarrow> do {
          s2 \<leftarrow> kstore pte (page2pa pp OR perm OR PTE_V) s1;
          Some (Inr (), s2\<lparr>pp_ref := (pp_ref s2)(pp := pp_ref s2 pp + 1)\<rparr>)
        })
   }"

definition page_insert :: "u32 \<Rightarrow> u32 \<Rightarrow> nat \<Rightarrow> u32 \<Rightarrow> u32 \<Rightarrow> ('z) pmap_state_scheme \<Rightarrow>
    ((err + unit) \<times> ('z) pmap_state_scheme) option" where
  "page_insert pgdir asid pp va perm s = do {
     (r, s1) \<leftarrow> pgdir_walk pgdir va False s;
     (case r of
        Inr (Some pte) \<Rightarrow> do {
          v \<leftarrow> kload s1 pte;
          if v AND PTE_V = 0 then page_insert_new pgdir asid pp va perm s1
          else do {
            old \<leftarrow> pa2page (npage s1) v;
            if old \<noteq> pp then do {
              s2 \<leftarrow> page_remove pgdir asid va s1;
              page_insert_new pgdir asid pp va perm s2
            }
            else do {
              s2 \<leftarrow> kstore pte (page2pa pp OR perm OR PTE_V) (tlb_invalidate asid va s1);
              Some (Inr (), s2)
            }
          }
        }
      | _ \<Rightarrow> page_insert_new pgdir asid pp va perm s1)
   }"

text \<open>\<^verbatim>\<open>va2pa\<close> of \<^verbatim>\<open>include/pmap.h\<close>; \<open>-1\<close> is \<^verbatim>\<open>~0\<close>.\<close>

definition va2pa :: "u32 \<Rightarrow> u32 \<Rightarrow> ('z) pmap_state_scheme \<Rightarrow> u32 option" where
  "va2pa pgdir va s = do {
     pde \<leftarrow> kload s (pgdir + push_bit 2 (PDX va));
     if pde AND PTE_V = 0 then Some (- 1)
     else do {
       p \<leftarrow> KADDR (npage s) (PTE_ADDR pde);
       e \<leftarrow> kload s (p + push_bit 2 (PTX va));
       if e AND PTE_V = 0 then Some (- 1)
       else do { e' \<leftarrow> kload s (p + push_bit 2 (PTX va)); Some (PTE_ADDR e') }
     }
   }"

section \<open>What the page table operations leave alone\<close>

text \<open>
  The components outside the page tables: the sizes, the boot allocator, and the rest of
  the kernel's state, which extends this one.
\<close>

definition same_rest :: "('z) pmap_state_scheme \<Rightarrow> ('z) pmap_state_scheme \<Rightarrow> bool" where
  "same_rest s s' \<longleftrightarrow> memsize s' = memsize s \<and> npage s' = npage s \<and> freemem s' = freemem s \<and>
     pages s' = pages s \<and> pmap_state.more s' = pmap_state.more s"

lemma same_rest_refl [simp]: "same_rest s s"
  by (simp add: same_rest_def)

lemma same_rest_trans: "same_rest s s' \<Longrightarrow> same_rest s' s'' \<Longrightarrow> same_rest s s''"
  by (simp add: same_rest_def)

lemma kstore_rest: "kstore a v s = Some s' \<Longrightarrow> same_rest s s'"
  by (auto simp: kstore_def same_rest_def split: if_splits)

lemma page_alloc_rest: "page_alloc s = Some (r, s') \<Longrightarrow> same_rest s s'"
  by (auto simp: page_alloc_def same_rest_def zero_page_def Option.bind_eq_Some_conv
      split: option.splits)

lemma page_decref_rest: "page_decref pp s = Some s' \<Longrightarrow> same_rest s s'"
  by (auto simp: page_decref_def page_free_def same_rest_def Let_def split: if_splits)

lemma tlb_invalidate_rest [simp]: "same_rest s (tlb_invalidate asid va s)"
  by (simp add: tlb_invalidate_def tlb_out_def same_rest_def)

lemma pp_ref_rest [simp]: "same_rest s (s\<lparr>pp_ref := f\<rparr>)"
  by (simp add: same_rest_def)

lemmas rest_simps = same_rest_def tlb_invalidate_def tlb_out_def
lemmas rest_splits = if_split_asm sum.split_asm option.split_asm prod.split_asm

lemma pgdir_walk_rest: "pgdir_walk pgdir va create s = Some (r, s') \<Longrightarrow> same_rest s s'"
  unfolding pgdir_walk_def Let_def
  by (auto simp: rest_simps elim!: bind_eq_SomeD split: rest_splits
      dest!: page_alloc_rest kstore_rest)

lemma page_lookup_rest: "page_lookup pgdir va s = Some (r, s') \<Longrightarrow> same_rest s s'"
  unfolding page_lookup_def
  by (auto elim!: bind_eq_SomeD split: rest_splits dest!: pgdir_walk_rest)

lemma page_remove_rest: "page_remove pgdir asid va s = Some s' \<Longrightarrow> same_rest s s'"
  unfolding page_remove_def
  by (auto simp: rest_simps elim!: bind_eq_SomeD split: rest_splits
      dest!: page_lookup_rest page_decref_rest kstore_rest)

lemma page_insert_new_rest: "page_insert_new pgdir asid pp va perm s = Some (r, s') \<Longrightarrow> same_rest s s'"
  unfolding page_insert_new_def
  by (auto simp: rest_simps elim!: bind_eq_SomeD split: rest_splits
      dest!: pgdir_walk_rest kstore_rest)

lemma page_insert_rest: "page_insert pgdir asid pp va perm s = Some (r, s') \<Longrightarrow> same_rest s s'"
  unfolding page_insert_def
  by (auto simp: rest_simps elim!: bind_eq_SomeD split: rest_splits
      dest!: pgdir_walk_rest kstore_rest page_remove_rest page_insert_new_rest)

end
