(* ===== verification/Vm_Inv.thy ===== *)
theory Vm_Inv
  imports Pmap
begin

text \<open>
  The invariant of the page tables and of the page allocator, and the effect of the
  operations of \<^verbatim>\<open>kern/pmap.c\<close> on it.  The page directories are a set of \<open>slots\<close>
  \<open>(r, i)\<close>: entry \<open>i\<close> of the directory in physical page \<open>r\<close>.  A directory shared
  between address spaces in its upper part (the kernel copies the template's entries
  there) contributes only the slots it owns.  The map \<open>X\<close> counts the references to a
  page that are not page table entries: the page directories themselves, the pages the
  kernel image and the boot allocator took.
\<close>

section \<open>Reading the tables\<close>

definition pgdir_kva :: "nat \<Rightarrow> u32" where
  "pgdir_kva r = page2pa r + ULIM"

definition tab :: "('z) pmap_state_scheme \<Rightarrow> nat \<Rightarrow> nat \<Rightarrow> nat" where
  "tab s r i = pte_page (pmem s r i)"

text \<open>The entry for table indices \<open>i\<close>, \<open>j\<close> in directory \<open>r\<close>, if it is mapped.\<close>

definition pte_at :: "('z) pmap_state_scheme \<Rightarrow> nat \<Rightarrow> nat \<Rightarrow> nat \<Rightarrow> u32 option" where
  "pte_at s r i j =
     (if valid (pmem s r i) \<and> valid (pmem s (tab s r i) j)
      then Some (pmem s (tab s r i) j) else None)"

definition live :: "(nat \<times> nat) set \<Rightarrow> ('z) pmap_state_scheme \<Rightarrow> (nat \<times> nat) set" where
  "live S s = {(r, i) \<in> S. valid (pmem s r i)}"

definition tables :: "(nat \<times> nat) set \<Rightarrow> ('z) pmap_state_scheme \<Rightarrow> nat set" where
  "tables S s = (\<lambda>(r, i). tab s r i) ` live S s"

definition refs :: "(nat \<times> nat) set \<Rightarrow> ('z) pmap_state_scheme \<Rightarrow> nat \<Rightarrow> (nat \<times> nat \<times> nat) set" where
  "refs S s p = {(r, i, j). (r, i) \<in> S \<and> j < 1024 \<and>
     (\<exists>e. pte_at s r i j = Some e \<and> pte_page e = p)}"

section \<open>The invariant\<close>

definition free_ok :: "nat list \<Rightarrow> ('z) pmap_state_scheme \<Rightarrow> bool" where
  "free_ok xs s \<longleftrightarrow> unat (npage s) \<le> 131072 \<and> list_rep (page_free_list s) xs \<and>
     (\<forall>p \<in> set xs. p < unat (npage s) \<and> pp_ref s p = 0)"

definition slots_ok :: "(nat \<times> nat) set \<Rightarrow> (nat \<Rightarrow> nat) \<Rightarrow> ('z) pmap_state_scheme \<Rightarrow> bool" where
  "slots_ok S X s \<longleftrightarrow> finite S \<and>
     (\<forall>(r, i) \<in> S. r < unat (npage s) \<and> i < 1024 \<and> 0 < X r) \<and>
     (\<forall>(r, i) \<in> live S s. tab s r i < unat (npage s) \<and> X (tab s r i) = 0) \<and>
     inj_on (\<lambda>(r, i). tab s r i) (live S s)"

definition data_ok :: "(nat \<times> nat) set \<Rightarrow> ('z) pmap_state_scheme \<Rightarrow> bool" where
  "data_ok S s \<longleftrightarrow>
     (\<forall>r i j e. (r, i) \<in> S \<longrightarrow> j < 1024 \<longrightarrow> pte_at s r i j = Some e \<longrightarrow>
        pte_page e < unat (npage s) \<and> pte_page e \<notin> tables S s \<and> pte_page e \<notin> fst ` S)"

definition refs_ok :: "(nat \<times> nat) set \<Rightarrow> (nat \<Rightarrow> nat) \<Rightarrow> ('z) pmap_state_scheme \<Rightarrow> bool" where
  "refs_ok S X s \<longleftrightarrow>
     (\<forall>p < unat (npage s). unat (pp_ref s p) =
        card (refs S s p) + (if p \<in> tables S s then 1 else 0) + X p)"

definition vm_inv :: "(nat \<times> nat) set \<Rightarrow> (nat \<Rightarrow> nat) \<Rightarrow> nat list \<Rightarrow> ('z) pmap_state_scheme \<Rightarrow> bool" where
  "vm_inv S X xs s \<longleftrightarrow> free_ok xs s \<and> slots_ok S X s \<and> data_ok S s \<and> refs_ok S X s"

lemmas vm_inv_defs = vm_inv_def free_ok_def slots_ok_def data_ok_def refs_ok_def

section \<open>Kernel accesses to entries\<close>

lemma unat_entry_kva:
  assumes "r < 524288" and "unat i < 1024"
  shows "unat (pgdir_kva r + push_bit 2 i) = 2147483648 + r * 4096 + unat i * 4"
proof -
  have "unat (push_bit 2 i) = unat i * 4"
    using assms(2) by (simp add: push_bit_eq_mult unat_word_ariths)
  with assms show ?thesis
    by (simp add: pgdir_kva_def unat_word_ariths unat_page2pa ULIM_def)
qed

lemma entry_kva:
  assumes "r < unat (npage s)" and "unat (npage s) \<le> 131072" and "unat i < 1024"
  shows "kva_ok s (pgdir_kva r + push_bit 2 i)"
    and "kva_page (pgdir_kva r + push_bit 2 i) = r"
    and "kva_word (pgdir_kva r + push_bit 2 i) = unat i"
proof -
  have u: "unat (pgdir_kva r + push_bit 2 i) = 2147483648 + r * 4096 + unat i * 4"
    using assms by (intro unat_entry_kva) auto
  show p: "kva_page (pgdir_kva r + push_bit 2 i) = r"
    using assms(3) by (simp add: kva_page_def u)
  have "unat (pgdir_kva r + push_bit 2 i) = unat i * 4 + (524288 + r) * 4096"
    by (simp add: u)
  then have "unat (pgdir_kva r + push_bit 2 i) mod 4096 = unat i * 4 mod 4096"
    by (simp only: mod_mult_self1)
  then show "kva_word (pgdir_kva r + push_bit 2 i) = unat i"
    using assms(3) by (simp add: kva_word_def)
  have "unat (pgdir_kva r + push_bit 2 i) = 4 * (536870912 + r * 1024 + unat i)"
    by (simp add: u)
  then have "unat (pgdir_kva r + push_bit 2 i) mod 4 = 0"
    by (simp only: mod_mult_self1_is_0)
  with assms(1) p show "kva_ok s (pgdir_kva r + push_bit 2 i)"
    using assms(2,3) by (simp add: kva_ok_def word_le_nat_alt word_less_nat_alt u ULIM_def)
qed

lemma kload_entry:
  "r < unat (npage s) \<Longrightarrow> unat (npage s) \<le> 131072 \<Longrightarrow> unat i < 1024 \<Longrightarrow>
     kload s (pgdir_kva r + push_bit 2 i) = Some (pmem s r (unat i))"
  by (simp add: kload_def entry_kva)

lemma kstore_entry:
  "r < unat (npage s) \<Longrightarrow> unat (npage s) \<le> 131072 \<Longrightarrow> unat i < 1024 \<Longrightarrow>
     kstore (pgdir_kva r + push_bit 2 i) v s =
       Some (s\<lparr>pmem := (pmem s)(r := (pmem s r)(unat i := v))\<rparr>)"
  by (simp add: kstore_def entry_kva)

lemma KADDR_entry:
  assumes "pte_page e < unat np"
  shows "KADDR np (push_bit 12 (PPN e)) = Some (pgdir_kva (pte_page e))"
    and "KADDR np (PTE_ADDR e) = Some (pgdir_kva (pte_page e))"
proof -
  have a: "push_bit 12 (PPN e) = page2pa (pte_page e)"
    by (simp add: page2pa_def page2ppn_def pte_page_def)
  have "PPN (page2pa (pte_page e)) = PPN e"
    using unat_div_4096_bound [of e]
    by (simp add: PPN_page2pa pte_page_def unat_PPN) (simp flip: unat_PPN)
  with assms a show "KADDR np (push_bit 12 (PPN e)) = Some (pgdir_kva (pte_page e))"
    by (simp add: KADDR_def pgdir_kva_def pte_page_def word_le_nat_alt)
  moreover have "PTE_ADDR e = push_bit 12 (PPN e)"
    by (simp add: PTE_ADDR_shift PPN_def)
  ultimately show "KADDR np (PTE_ADDR e) = Some (pgdir_kva (pte_page e))"
    by simp
qed

lemma mk_pde: "page2pa pp OR PTE_V OR PTE_D = mk_pte pp PTE_D"
  by (simp add: mk_pte_def or.commute or.left_commute or.assoc)

lemma mk_pde': "page2pa pp OR 0x600 = mk_pte pp PTE_D"
  by (simp add: mk_pte_def or.commute or.left_commute or.assoc)

lemma perm_ok_numeral [simp]: "perm_ok 0x400" "perm_ok 0x100" "perm_ok 0"
  by (simp_all add: perm_ok_def)

text \<open>The walk without creation, and the walk that creates, in terms of the tables.\<close>

lemma pgdir_walk_find:
  assumes "r < unat (npage s)" and "unat (npage s) \<le> 131072"
    and "valid (pmem s r (unat (PDX va))) \<Longrightarrow> tab s r (unat (PDX va)) < unat (npage s)"
  shows "pgdir_walk (pgdir_kva r) va False s =
    Some (Inr (if valid (pmem s r (unat (PDX va)))
               then Some (pgdir_kva (tab s r (unat (PDX va))) + push_bit 2 (PTX va)) else None), s)"
  using assms
  by (simp add: pgdir_walk_def kload_entry KADDR_entry tab_def valid_def Let_def)

lemma pgdir_walk_present:
  assumes "r < unat (npage s)" and "unat (npage s) \<le> 131072"
    and "valid (pmem s r (unat (PDX va)))" and "tab s r (unat (PDX va)) < unat (npage s)"
  shows "pgdir_walk (pgdir_kva r) va create s =
    Some (Inr (Some (pgdir_kva (tab s r (unat (PDX va))) + push_bit 2 (PTX va))), s)"
  using assms
  by (simp add: pgdir_walk_def kload_entry KADDR_entry tab_def valid_def Let_def)

section \<open>Consequences of the invariant\<close>

lemma liveD: "(r, i) \<in> live S s \<Longrightarrow> (r, i) \<in> S \<and> valid (pmem s r i)"
  by (simp add: live_def)

lemma tablesI: "(r, i) \<in> live S s \<Longrightarrow> tab s r i \<in> tables S s"
  by (auto simp: tables_def)

lemma slots_okD:
  assumes "slots_ok S X s" and "(r, i) \<in> S"
  shows "r < unat (npage s)" and "i < 1024" and "0 < X r"
  using assms by (auto simp: slots_ok_def)

lemma slots_ok_tab:
  assumes "slots_ok S X s" and "(r, i) \<in> live S s"
  shows "tab s r i < unat (npage s)" and "X (tab s r i) = 0"
  using assms by (auto simp: slots_ok_def)

lemma table_not_root:
  assumes "slots_ok S X s" and "t \<in> tables S s"
  shows "t \<notin> fst ` S" and "t < unat (npage s)" and "X t = 0"
  using assms slots_ok_tab [OF assms(1)] slots_okD(3) [OF assms(1)]
  by (fastforce simp: tables_def)+

lemma tab_eq_iff:
  assumes "slots_ok S X s" and "(r, i) \<in> live S s" and "(r', i') \<in> live S s"
  shows "tab s r i = tab s r' i' \<longleftrightarrow> r = r' \<and> i = i'"
  using assms by (auto simp: slots_ok_def inj_on_def)

lemma finite_refs: "finite S \<Longrightarrow> finite (refs S s p)"
proof -
  assume "finite S"
  then have "finite ((\<lambda>((r, i), j). (r, i, j)) ` (S \<times> {..<1024 :: nat}))" by blast
  moreover have "refs S s p \<subseteq> (\<lambda>((r, i), j). (r, i, j)) ` (S \<times> {..<1024})"
    by (force simp: refs_def)
  ultimately show ?thesis by (rule rev_finite_subset)
qed

lemma free_page_unused:
  assumes inv: "vm_inv S X xs s" and "p \<in> set xs"
  shows "p < unat (npage s)" and "refs S s p = {}" and "p \<notin> tables S s" and "X p = 0"
    and "p \<notin> fst ` S"
proof -
  show p: "p < unat (npage s)"
    using assms by (auto simp: vm_inv_defs)
  have "unat (pp_ref s p) = 0"
    using assms by (auto simp: vm_inv_defs)
  moreover have "unat (pp_ref s p) =
      card (refs S s p) + (if p \<in> tables S s then 1 else 0) + X p"
    using inv p by (simp add: vm_inv_def refs_ok_def)
  ultimately have "card (refs S s p) = 0" and "p \<notin> tables S s" and X: "X p = 0"
    by (auto split: if_splits)
  moreover have "finite S" using inv by (simp add: vm_inv_defs)
  ultimately show "refs S s p = {}" and "p \<notin> tables S s" and "X p = 0"
    using finite_refs [of S s p] by auto
  show "p \<notin> fst ` S"
    using inv X slots_okD(3) [of S X s] by (force simp: vm_inv_def)
qed

lemma slots_ok_cong:
  assumes "slots_ok S X s" and "npage s' = npage s" and l: "live S s' = live S s"
    and t: "\<And>r i. (r, i) \<in> live S s \<Longrightarrow> tab s' r i = tab s r i"
  shows "slots_ok S X s'"
proof -
  have "inj_on (\<lambda>(r, i). tab s' r i) (live S s) = inj_on (\<lambda>(r, i). tab s r i) (live S s)"
    by (rule inj_on_cong) (use t in auto)
  then show ?thesis
    using assms slots_ok_tab [OF assms(1)] by (auto simp: slots_ok_def)
qed

section \<open>Storing one page table entry\<close>

definition points :: "u32 option \<Rightarrow> nat \<Rightarrow> bool" where
  "points e p \<longleftrightarrow> (\<exists>v. e = Some v \<and> pte_page v = p)"

definition entry_of :: "u32 \<Rightarrow> u32 option" where
  "entry_of v = (if valid v then Some v else None)"

lemma points_simps [simp]: "\<not> points None p" "points (Some v) p \<longleftrightarrow> pte_page v = p"
  by (simp_all add: points_def)

lemma refs_points: "(r, i, j) \<in> refs S s p \<longleftrightarrow> (r, i) \<in> S \<and> j < 1024 \<and> points (pte_at s r i j) p"
  by (simp add: refs_def points_def)

lemma store_view:
  assumes slots: "slots_ok S X s" and ri: "(r, i) \<in> live S s"
    and pm: "pmem s' = (pmem s)(tab s r i := (pmem s (tab s r i))(j := v))"
    and S: "(r', i') \<in> S"
  shows "pmem s' r' i' = pmem s r' i'" and "tab s' r' i' = tab s r' i'"
    and "pte_at s' r' i' j' =
      (if (r', i', j') = (r, i, j) then entry_of v else pte_at s r' i' j')"
proof -
  have "tab s r i \<notin> fst ` S"
    by (rule table_not_root(1) [OF slots tablesI [OF ri]])
  then have ne: "tab s r i \<noteq> r'"
    using S by force
  then show pd: "pmem s' r' i' = pmem s r' i'"
    by (simp add: pm)
  then show tb: "tab s' r' i' = tab s r' i'"
    by (simp add: tab_def)
  show "pte_at s' r' i' j' =
      (if (r', i', j') = (r, i, j) then entry_of v else pte_at s r' i' j')"
  proof (cases "valid (pmem s r' i')")
    case True
    then have "(r', i') \<in> live S s" using S by (simp add: live_def)
    then have "tab s r' i' = tab s r i \<longleftrightarrow> r' = r \<and> i' = i"
      using tab_eq_iff [OF slots _ ri] by blast
    then show ?thesis
      using True pd tb ri by (auto simp: pte_at_def pm entry_of_def)
  next
    case False
    then show ?thesis
      using pd ri by (auto simp: pte_at_def live_def)
  qed
qed

lemma store_tables:
  assumes "slots_ok S X s" and "(r, i) \<in> live S s"
    and "pmem s' = (pmem s)(tab s r i := (pmem s (tab s r i))(j := v))"
  shows "live S s' = live S s" and "tables S s' = tables S s"
proof -
  show l: "live S s' = live S s"
    using store_view(1) [OF assms] by (auto simp: live_def)
  show "tables S s' = tables S s"
    unfolding tables_def l
    by (rule image_cong) (use store_view(2) [OF assms] in \<open>auto simp: live_def\<close>)
qed

lemma card_refs_update:
  assumes "finite S" and "(r, i) \<in> S" and "j < 1024"
    and upd: "\<And>r' i' j'. (r', i') \<in> S \<Longrightarrow> pte_at s' r' i' j' =
      (if (r', i', j') = (r, i, j) then new else pte_at s r' i' j')"
  shows "card (refs S s' p) + of_bool (points (pte_at s r i j) p) =
         card (refs S s p) + of_bool (points new p)"
proof -
  let ?x = "(r, i, j)"
  have eq: "refs S s' p = (if points new p then insert ?x (refs S s p - {?x})
      else refs S s p - {?x})"
    using upd assms(2,3) by (auto simp: refs_points split: if_splits)
  have mem: "?x \<in> refs S s p \<longleftrightarrow> points (pte_at s r i j) p"
    using assms(2,3) by (simp add: refs_points)
  have fin: "finite (refs S s p)" using assms(1) by (rule finite_refs)
  show ?thesis
  proof (cases "points (pte_at s r i j) p")
    case True
    then have "card (refs S s p) = Suc (card (refs S s p - {?x}))"
      using fin mem by (metis card.remove)
    then show ?thesis using True fin mem by (auto simp: eq insert_absorb)
  next
    case False
    then have "refs S s p - {?x} = refs S s p" using mem by blast
    then show ?thesis using False fin mem by (simp add: eq)
  qed
qed

text \<open>
  Every way the kernel changes a page table entry (mapping, unmapping, changing the
  permission) is a store of one word of one table together with the change of the
  reference counts that the old and the new entry call for.
\<close>

lemma vm_inv_store:
  assumes inv: "vm_inv S X xs s" and ri: "(r, i) \<in> live S s" and j: "j < 1024"
    and np: "npage s' = npage s"
    and pm: "pmem s' = (pmem s)(tab s r i := (pmem s (tab s r i))(j := v))"
    and free: "free_ok xs' s'"
    and ok: "valid v \<Longrightarrow> pte_page v < unat (npage s) \<and> pte_page v \<notin> tables S s \<and>
       pte_page v \<notin> fst ` S"
    and cnt: "\<And>p. p < unat (npage s) \<Longrightarrow>
       unat (pp_ref s' p) + of_bool (points (pte_at s r i j) p) =
       unat (pp_ref s p) + of_bool (points (entry_of v) p)"
  shows "vm_inv S X xs' s'"
proof -
  have slots: "slots_ok S X s" and data: "data_ok S s" and cntok: "refs_ok S X s"
    using inv by (simp_all add: vm_inv_def)
  note view = store_view [OF slots ri pm] and tbl = store_tables [OF slots ri pm]
  have S: "(r, i) \<in> S" using ri by (simp add: live_def)
  have fin: "finite S" using slots by (simp add: slots_ok_def)
  have "slots_ok S X s'"
    using slots np tbl(1) view(2) by (rule slots_ok_cong) (simp add: live_def)
  moreover have "data_ok S s'"
    unfolding data_ok_def np tbl(2)
  proof (intro allI impI)
    fix r' i' j' e
    assume *: "(r', i') \<in> S" "j' < 1024" "pte_at s' r' i' j' = Some e"
    show "pte_page e < unat (npage s) \<and> pte_page e \<notin> tables S s \<and> pte_page e \<notin> fst ` S"
    proof (cases "(r', i', j') = (r, i, j)")
      case True
      with * view(3) [OF *(1), of j'] ok show ?thesis
        by (simp add: entry_of_def split: if_splits)
    next
      case False
      with * view(3) [OF *(1), of j'] have "pte_at s r' i' j' = Some e"
        by (auto split: if_splits)
      with data * show ?thesis unfolding data_ok_def by blast
    qed
  qed
  moreover have "refs_ok S X s'"
    unfolding refs_ok_def np tbl(2)
  proof (intro allI impI)
    fix p assume p: "p < unat (npage s)"
    show "unat (pp_ref s' p) = card (refs S s' p) + (if p \<in> tables S s then 1 else 0) + X p"
      using card_refs_update [OF fin S j view(3), of p] cnt [OF p] cntok p
      by (auto simp: refs_ok_def split: if_splits)
  qed
  ultimately show ?thesis
    using free by (simp add: vm_inv_def)
qed

section \<open>Allocating and releasing pages\<close>

lemma vm_invD:
  assumes "vm_inv S X xs s"
  shows "unat (npage s) \<le> 131072" and "list_rep (page_free_list s) xs"
    and "slots_ok S X s" and "free_ok xs s" and "data_ok S s" and "refs_ok S X s" and "finite S"
  using assms by (simp_all add: vm_inv_defs)

text \<open>\<^verbatim>\<open>page_alloc\<close> takes the first free page and clears it, or reports that there is none.\<close>

lemma page_alloc_Nil: "free_ok [] s \<Longrightarrow> page_alloc s = Some (Inl E_NO_MEM, s)"
  using list_rep_first [of "page_free_list s" "[]"] by (simp add: page_alloc_def free_ok_def)

lemma page_alloc_Cons:
  assumes "free_ok (p # xs) s"
  shows "\<exists>fl. page_alloc s = Some (Inr p, zero_page p (s\<lparr>page_free_list := fl\<rparr>)) \<and> list_rep fl xs"
proof -
  have rep: "list_rep (page_free_list s) (p # xs)" and "p < unat (npage s)"
    and "unat (npage s) \<le> 131072"
    using assms by (auto simp: free_ok_def)
  then show ?thesis
    using lq.pop [OF rep] by (auto simp: page_alloc_def page2kva_Some)
qed

lemma zero_page_sel [simp]:
  "npage (zero_page p s) = npage s" "pp_ref (zero_page p s) = pp_ref s"
  "page_free_list (zero_page p s) = page_free_list s" "tlb (zero_page p s) = tlb s"
  "pmem (zero_page p s) = (pmem s)(p := (\<lambda>_. 0))"
  by (simp_all add: zero_page_def)

text \<open>Changing a page that is neither a directory nor a table changes no mapping.\<close>

lemma frame_view:
  assumes "p \<notin> fst ` S" and "p \<notin> tables S s"
    and eq: "\<And>q. q \<noteq> p \<Longrightarrow> pmem s' q = pmem s q" and S: "(r, i) \<in> S"
  shows "pmem s' r i = pmem s r i" and "tab s' r i = tab s r i"
    and "pte_at s' r i j = pte_at s r i j"
proof -
  have "r \<noteq> p" using assms(1) S by force
  then show pd: "pmem s' r i = pmem s r i" using eq by simp
  then show tb: "tab s' r i = tab s r i" by (simp add: tab_def)
  show "pte_at s' r i j = pte_at s r i j"
  proof (cases "valid (pmem s r i)")
    case True
    then have "tab s r i \<in> tables S s"
      using S by (auto simp: tables_def live_def)
    then have "tab s r i \<noteq> p" using assms(2) by blast
    then show ?thesis using pd tb eq by (simp add: pte_at_def)
  qed (simp add: pte_at_def pd)
qed

lemma refs_cong:
  "(\<And>r i j. (r, i) \<in> S \<Longrightarrow> pte_at s' r i j = pte_at s r i j) \<Longrightarrow> refs S s' p = refs S s p"
  by (auto simp: refs_points)

lemma tables_cong:
  assumes "\<And>r i. (r, i) \<in> S \<Longrightarrow> pmem s' r i = pmem s r i"
  shows "live S s' = live S s" and "tables S s' = tables S s"
proof -
  show l: "live S s' = live S s" using assms by (auto simp: live_def)
  show "tables S s' = tables S s"
    unfolding tables_def l
    by (rule image_cong) (use assms in \<open>auto simp: live_def tab_def\<close>)
qed

lemma vm_inv_frame:
  assumes inv: "vm_inv S X xs s" and "p \<notin> fst ` S" and "p \<notin> tables S s"
    and "\<And>q. q \<noteq> p \<Longrightarrow> pmem s' q = pmem s q"
    and np: "npage s' = npage s" and free: "free_ok xs' s'"
    and cnt: "\<And>q. q < unat (npage s) \<Longrightarrow> pp_ref s' q = pp_ref s q"
  shows "vm_inv S X xs' s'"
proof -
  note view = frame_view [OF assms(2-4)]
  have "slots_ok S X s'"
    using vm_invD(3) [OF inv] np tables_cong(1) [OF view(1)] view(2)
    by (rule slots_ok_cong) (auto simp: live_def)
  moreover have tb: "tables S s' = tables S s" by (rule tables_cong(2)) (rule view(1))
  have rf: "refs S s' q = refs S s q" for q by (rule refs_cong) (rule view(3))
  have "data_ok S s'"
    using vm_invD(5) [OF inv] view(3) unfolding data_ok_def np tb by metis
  moreover have "refs_ok S X s'"
    using vm_invD(6) [OF inv] cnt unfolding refs_ok_def np tb rf by simp
  ultimately show ?thesis using free by (simp add: vm_inv_def)
qed

lemma page_alloc_inv:
  assumes inv: "vm_inv S X (p # xs) s"
  shows "\<exists>fl. page_alloc s = Some (Inr p, zero_page p (s\<lparr>page_free_list := fl\<rparr>)) \<and>
    vm_inv S X xs (zero_page p (s\<lparr>page_free_list := fl\<rparr>))"
proof -
  obtain fl where fl: "page_alloc s = Some (Inr p, zero_page p (s\<lparr>page_free_list := fl\<rparr>))"
    "list_rep fl xs"
    using page_alloc_Cons [OF vm_invD(4) [OF inv]] by blast
  have "free_ok xs (zero_page p (s\<lparr>page_free_list := fl\<rparr>))"
    using vm_invD(4) [OF inv] fl(2) by (simp add: free_ok_def)
  then have "vm_inv S X xs (zero_page p (s\<lparr>page_free_list := fl\<rparr>))"
    using free_page_unused [OF inv, of p] by (intro vm_inv_frame [OF inv, of p]) auto
  with fl(1) show ?thesis by blast
qed

text \<open>Dropping one reference: the page returns to the free list with its last one.\<close>

lemma page_decref_eq:
  assumes "pp_ref s p \<noteq> 0"
  shows "page_decref p s = Some
    (let s1 = s\<lparr>pp_ref := (pp_ref s)(p := pp_ref s p - 1)\<rparr>
     in if pp_ref s p = 1 then s1\<lparr>page_free_list := LIST_INSERT_HEAD p (page_free_list s)\<rparr> else s1)"
  using assms by (auto simp: page_decref_def page_free_def Let_def)

lemma page_decref_free:
  assumes "free_ok xs s" and ref: "pp_ref s p \<noteq> 0" and "p < unat (npage s)"
  shows "\<exists>s'. page_decref p s = Some s' \<and>
    free_ok (if pp_ref s p = 1 then p # xs else xs) s' \<and>
    pmem s' = pmem s \<and> npage s' = npage s \<and> tlb s' = tlb s \<and>
    pp_ref s' = (pp_ref s)(p := pp_ref s p - 1)"
proof -
  have "p \<notin> set xs" using assms(1,2) by (auto simp: free_ok_def)
  then show ?thesis
    using assms LIST_INSERT_HEAD_rep [of "page_free_list s" xs p]
    by (auto simp: page_decref_eq Let_def free_ok_def)
qed

lemma unat_minus_1: "w \<noteq> 0 \<Longrightarrow> unat (w - 1) = unat (w :: 'a::len word) - 1"
  by (simp add: unat_minus_one)

section \<open>Creating a page table\<close>

text \<open>The first free page, cleared, becomes the table of a directory slot that had none.\<close>

definition link_table :: "nat \<Rightarrow> nat \<Rightarrow> nat \<Rightarrow> nat list_q \<Rightarrow> ('z) pmap_state_scheme \<Rightarrow>
    ('z) pmap_state_scheme" where
  "link_table r i t fl s = s\<lparr>page_free_list := fl,
     pmem := (pmem s)(t := (\<lambda>_. 0), r := (pmem s r)(i := mk_pte t PTE_D)),
     pp_ref := (pp_ref s)(t := 1)\<rparr>"

lemma link_table_sel [simp]:
  "npage (link_table r i t fl s) = npage s" "tlb (link_table r i t fl s) = tlb s"
  "page_free_list (link_table r i t fl s) = fl"
  "pp_ref (link_table r i t fl s) = (pp_ref s)(t := 1)"
  "pmem (link_table r i t fl s) = (pmem s)(t := (\<lambda>_. 0), r := (pmem s r)(i := mk_pte t PTE_D))"
  by (simp_all add: link_table_def)

lemma link_table_view:
  assumes inv: "vm_inv S X (t # xs) s" and ri: "(r, i) \<in> S" "\<not> valid (pmem s r i)"
    and S: "(r', i') \<in> S"
  shows "pmem (link_table r i t fl s) r' i' =
      (if (r', i') = (r, i) then mk_pte t PTE_D else pmem s r' i')"
    and "tab (link_table r i t fl s) r' i' = (if (r', i') = (r, i) then t else tab s r' i')"
    and "pte_at (link_table r i t fl s) r' i' j = pte_at s r' i' j"
proof -
  have t: "t < unat (npage s)" "t \<notin> fst ` S" "t \<notin> tables S s"
    using free_page_unused [OF inv, of t] by auto
  then have "t < 1048576" using vm_invD(1) [OF inv] by simp
  have ne: "r' \<noteq> t" "r \<noteq> t" using t(2) S ri(1) by force+
  show pd: "pmem (link_table r i t fl s) r' i' =
      (if (r', i') = (r, i) then mk_pte t PTE_D else pmem s r' i')"
    using ne by auto
  show tb: "tab (link_table r i t fl s) r' i' = (if (r', i') = (r, i) then t else tab s r' i')"
    unfolding tab_def pd using \<open>t < 1048576\<close> by simp
  show "pte_at (link_table r i t fl s) r' i' j = pte_at s r' i' j"
  proof (cases "(r', i') = (r, i)")
    case True
    then show ?thesis
      using ri(2) tb ne(2) by (auto simp: pte_at_def pd)
  next
    case False
    show ?thesis
    proof (cases "valid (pmem s r' i')")
      case True
      then have "tab s r' i' \<in> tables S s" using S by (auto simp: tables_def live_def)
      then have "tab s r' i' \<noteq> t" "tab s r' i' \<noteq> r"
        using t(3) table_not_root(1) [OF vm_invD(3) [OF inv]] ri(1) by force+
      then show ?thesis using False pd tb by (auto simp: pte_at_def)
    qed (use False pd in \<open>auto simp: pte_at_def\<close>)
  qed
qed

lemma link_table_tables:
  assumes inv: "vm_inv S X (t # xs) s" and ri: "(r, i) \<in> S" "\<not> valid (pmem s r i)"
  shows "live S (link_table r i t fl s) = insert (r, i) (live S s)"
    and "tables S (link_table r i t fl s) = insert t (tables S s)"
proof -
  note view = link_table_view [OF inv ri]
  show l: "live S (link_table r i t fl s) = insert (r, i) (live S s)"
    using view(1) ri(1) by (auto simp: live_def split: if_splits)
  have other: "tab (link_table r i t fl s) r' i' = tab s r' i'" if "(r', i') \<in> live S s" for r' i'
    using that view(2) ri(2) by (auto simp: live_def)
  have "(\<lambda>(r', i'). tab (link_table r i t fl s) r' i') ` live S s = tables S s"
    unfolding tables_def by (rule image_cong) (auto simp: other)
  moreover have "tab (link_table r i t fl s) r i = t" using view(2) ri(1) by simp
  ultimately show "tables S (link_table r i t fl s) = insert t (tables S s)"
    by (simp add: tables_def l)
qed

lemma link_table_inv:
  assumes inv: "vm_inv S X (t # xs) s" and ri: "(r, i) \<in> S" "\<not> valid (pmem s r i)"
    and fl: "list_rep fl xs"
  shows "vm_inv S X xs (link_table r i t fl s)"
proof -
  let ?s = "link_table r i t fl s"
  note view = link_table_view [OF inv ri] and tbl = link_table_tables [OF inv ri]
  have t: "t < unat (npage s)" "refs S s t = {}" "t \<notin> tables S s" "X t = 0" "t \<notin> fst ` S"
    using free_page_unused [OF inv, of t] by auto
  have "distinct (t # xs)" using vm_invD(2) [OF inv] by (simp add: list_rep_def)
  then have free: "free_ok xs ?s"
    using vm_invD(4) [OF inv] fl by (auto simp: free_ok_def)
  have rf: "refs S ?s q = refs S s q" for q by (rule refs_cong) (rule view(3))
  have other: "tab ?s r' i' = tab s r' i'" if "(r', i') \<in> live S s" for r' i'
    using that view(2) ri(2) by (auto simp: live_def)
  have tabr: "tab ?s r i = t" using view(2) ri(1) by simp
  have "inj_on (\<lambda>(r, i). tab ?s r i) (live S s)"
  proof -
    have "inj_on (\<lambda>(r, i). tab s r i) (live S s)"
      using vm_invD(3) [OF inv] by (simp add: slots_ok_def)
    moreover have "inj_on (\<lambda>(r, i). tab ?s r i) (live S s) = inj_on (\<lambda>(r, i). tab s r i) (live S s)"
      by (rule inj_on_cong) (use other in auto)
    ultimately show ?thesis by simp
  qed
  moreover have "tab ?s r i \<notin> (\<lambda>(r, i). tab ?s r i) ` (live S s - {(r, i)})"
    using other t(3) tablesI [of _ _ S s] tabr by fastforce
  ultimately have "inj_on (\<lambda>(r, i). tab ?s r i) (live S ?s)"
    by (simp add: tbl(1))
  then have "slots_ok S X ?s"
    using vm_invD(3) [OF inv] other tabr t by (auto simp: slots_ok_def tbl(1))
  moreover have "data_ok S ?s"
    unfolding data_ok_def tbl(2)
  proof (intro allI impI)
    fix r' i' j e assume *: "(r', i') \<in> S" "j < 1024" "pte_at ?s r' i' j = Some e"
    then have e: "pte_at s r' i' j = Some e" using view(3) by simp
    then have "pte_page e \<noteq> t" using * t(2) by (auto simp: refs_def)
    then show "pte_page e < unat (npage ?s) \<and> pte_page e \<notin> insert t (tables S s) \<and>
        pte_page e \<notin> fst ` S"
      using vm_invD(5) [OF inv] * e by (simp add: data_ok_def)
  qed
  moreover have "refs_ok S X ?s"
    using vm_invD(6) [OF inv] t by (simp add: refs_ok_def tbl(2) rf)
  ultimately show ?thesis using free by (simp add: vm_inv_def)
qed

lemma pgdir_walk_create:
  assumes inv: "vm_inv S X (t # xs) s" and ri: "(r, unat (PDX va)) \<in> S"
    and new: "\<not> valid (pmem s r (unat (PDX va)))"
  shows "\<exists>fl. pgdir_walk (pgdir_kva r) va True s =
      Some (Inr (Some (pgdir_kva t + push_bit 2 (PTX va))), link_table r (unat (PDX va)) t fl s) \<and>
    list_rep fl xs"
proof -
  obtain fl where fl: "page_alloc s = Some (Inr t, zero_page t (s\<lparr>page_free_list := fl\<rparr>))"
    "list_rep fl xs"
    using page_alloc_Cons [OF vm_invD(4) [OF inv]] by blast
  have t: "t < unat (npage s)" "t \<notin> fst ` S"
    using free_page_unused [OF inv, of t] by auto
  have r: "r < unat (npage s)" by (rule slots_okD(1) [OF vm_invD(3) [OF inv] ri])
  have "r \<noteq> t" using t(2) ri by force
  then show ?thesis
    using fl r t(1) vm_invD(1) [OF inv] new
    by (auto simp: pgdir_walk_def kload_entry kstore_entry mk_pde mk_pde' KADDR_entry valid_def
        Let_def link_table_def zero_page_def)
qed

lemma pgdir_walk_no_mem:
  assumes "vm_inv S X [] s" and "(r, unat (PDX va)) \<in> S"
    and "\<not> valid (pmem s r (unat (PDX va)))"
  shows "pgdir_walk (pgdir_kva r) va True s = Some (Inl E_NO_MEM, s)"
  using assms vm_invD [OF assms(1)] slots_okD(1) [OF vm_invD(3) [OF assms(1)] assms(2)]
  by (simp add: pgdir_walk_def kload_entry page_alloc_Nil valid_def Let_def)

end
