(* ===== verification/Vm_Ops.thy ===== *)
theory Vm_Ops
  imports Vm_Inv
begin

text \<open>
  The functional behaviour of the page table operations of \<^verbatim>\<open>kern/pmap.c\<close> under the
  invariant of \<^verbatim>\<open>Vm_Inv\<close>: what each returns on every branch, which mapping it changes
  and that it changes no other, in this or in any other address space, and that the
  invariant (with the reference counts) is kept.
\<close>

section \<open>Mappings\<close>

text \<open>The mapping of a virtual address in the address space with directory page \<open>r\<close>.\<close>

definition mapping :: "('z) pmap_state_scheme \<Rightarrow> nat \<Rightarrow> u32 \<Rightarrow> u32 option" where
  "mapping s r va = pte_at s r (unat (PDX va)) (unat (PTX va))"

definition slot_of :: "nat \<Rightarrow> u32 \<Rightarrow> nat \<times> nat" where
  "slot_of r va = (r, unat (PDX va))"

text \<open>The address of the entry of \<open>va\<close>, when its table exists.\<close>

definition pte_kva :: "('z) pmap_state_scheme \<Rightarrow> nat \<Rightarrow> u32 \<Rightarrow> u32" where
  "pte_kva s r va = pgdir_kva (tab s r (unat (PDX va))) + push_bit 2 (PTX va)"

text \<open>\<open>s'\<close> maps \<open>va\<close> to \<open>new\<close> in \<open>r\<close>, and everything else as \<open>s\<close> does.\<close>

definition remapped :: "(nat \<times> nat) set \<Rightarrow> nat \<Rightarrow> u32 \<Rightarrow> u32 option \<Rightarrow>
    ('z) pmap_state_scheme \<Rightarrow> ('z) pmap_state_scheme \<Rightarrow> bool" where
  "remapped S r va new s s' \<longleftrightarrow>
     (\<forall>r' i' j'. (r', i') \<in> S \<longrightarrow> pte_at s' r' i' j' =
        (if (r', i', j') = (r, unat (PDX va), unat (PTX va)) then new else pte_at s r' i' j'))"

lemma remapped_mapping:
  assumes "remapped S r va new s s'" and "slot_of r' va' \<in> S"
  shows "mapping s' r' va' = (if r' = r \<and> VPN va' = VPN va then new else mapping s r' va')"
  using assms same_indices_iff [of va' va]
  by (auto simp: remapped_def mapping_def slot_of_def)

lemma remapped_trans:
  "remapped S r va x s s1 \<Longrightarrow> remapped S r va new s1 s2 \<Longrightarrow> remapped S r va new s s2"
  by (simp add: remapped_def)

lemma remapped_same:
  "(\<And>r' i' j'. (r', i') \<in> S \<Longrightarrow> pte_at s1 r' i' j' = pte_at s r' i' j') \<Longrightarrow>
     remapped S r va new s1 s2 \<Longrightarrow> remapped S r va new s s2"
  by (simp add: remapped_def)

lemma data_okD:
  assumes "data_ok S s" and "slot_of r va \<in> S" and "mapping s r va = Some e"
  shows "pte_page e < unat (npage s)" and "pte_page e \<notin> tables S s" and "pte_page e \<notin> fst ` S"
  using assms PTX_bound [of va] unfolding data_ok_def mapping_def slot_of_def by blast+

lemma mapping_live: "mapping s r va = Some e \<Longrightarrow> slot_of r va \<in> S \<Longrightarrow> slot_of r va \<in> live S s"
  by (auto simp: mapping_def pte_at_def slot_of_def live_def split: if_splits)

lemma mapped_ref:
  assumes inv: "vm_inv S X xs s" and slot: "slot_of r va \<in> S" and m: "mapping s r va = Some e"
  shows "pp_ref s (pte_page e) \<noteq> 0"
proof -
  have "(r, unat (PDX va), unat (PTX va)) \<in> refs S s (pte_page e)"
    using slot m by (simp add: refs_def mapping_def slot_of_def)
  then have "card (refs S s (pte_page e)) \<noteq> 0"
    using finite_refs [OF vm_invD(7) [OF inv]] by (metis card_eq_0_iff empty_iff)
  then have "unat (pp_ref s (pte_page e)) \<noteq> 0"
    using vm_invD(6) [OF inv] data_okD(1) [OF vm_invD(5) [OF inv] slot m]
    by (simp add: refs_ok_def)
  then show ?thesis by auto
qed

section \<open>Lookup\<close>

lemma walk_slot:
  assumes inv: "vm_inv S X xs s" and slot: "slot_of r va \<in> S"
  shows "r < unat (npage s)" and "unat (npage s) \<le> 131072"
    and "valid (pmem s r (unat (PDX va))) \<Longrightarrow> tab s r (unat (PDX va)) < unat (npage s)"
  using slots_okD(1) [OF vm_invD(3) [OF inv]] slots_ok_tab(1) [OF vm_invD(3) [OF inv]]
    vm_invD(1) [OF inv] slot by (auto simp: slot_of_def live_def)

lemma page_lookup_eq:
  assumes inv: "vm_inv S X xs s" and slot: "slot_of r va \<in> S"
  shows "page_lookup (pgdir_kva r) va s =
    Some (map_option (\<lambda>e. (pte_page e, pte_kva s r va)) (mapping s r va), s)"
proof (cases "valid (pmem s r (unat (PDX va)))")
  case True
  note w = walk_slot [OF inv slot]
  have ld: "kload s (pgdir_kva (tab s r (unat (PDX va))) + push_bit 2 (PTX va)) =
      Some (pmem s (tab s r (unat (PDX va))) (unat (PTX va)))"
    using w True by (simp add: kload_entry)
  show ?thesis
  proof (cases "valid (pmem s (tab s r (unat (PDX va))) (unat (PTX va)))")
    case v: True
    then have m: "mapping s r va = Some (pmem s (tab s r (unat (PDX va))) (unat (PTX va)))"
      using True by (simp add: mapping_def pte_at_def)
    then show ?thesis
      using data_okD(1) [OF vm_invD(5) [OF inv] slot m] v [unfolded valid_def] True ld
      by (simp add: page_lookup_def pgdir_walk_find [OF w] pa2page_pte pte_kva_def)
  next
    case False
    then have m: "mapping s r va = None" by (simp add: mapping_def pte_at_def)
    with False True ld show ?thesis
      by (simp add: page_lookup_def pgdir_walk_find [OF w] valid_def)
  qed
next
  case False
  then have "mapping s r va = None" by (simp add: mapping_def pte_at_def)
  with pgdir_walk_find [OF walk_slot [OF inv slot]] False show ?thesis
    by (simp add: page_lookup_def)
qed

lemma PTE_ADDR_page: "PTE_ADDR e = page2pa (pte_page e)"
  by (simp add: PTE_ADDR_shift page2pa_def page2ppn_def pte_page_def PPN_def)

lemma KADDR_page:
  "p < unat np \<Longrightarrow> unat np \<le> 131072 \<Longrightarrow> KADDR np (page2pa p) = Some (pgdir_kva p)"
  using page2kva_Some [of p np] by (simp add: page2kva_def pgdir_kva_def)

lemma va2pa_eq:
  assumes inv: "vm_inv S X xs s" and slot: "slot_of r va \<in> S"
  shows "va2pa (pgdir_kva r) va s =
    Some (case mapping s r va of None \<Rightarrow> - 1 | Some e \<Rightarrow> page2pa (pte_page e))"
  using walk_slot [OF inv slot]
  by (auto simp: va2pa_def kload_entry KADDR_page mapping_def pte_at_def valid_def tab_def
      PTE_ADDR_page)

section \<open>Removing a mapping\<close>

text \<open>The pages that are neither tables nor directories have the same contents.\<close>

definition data_kept :: "(nat \<times> nat) set \<Rightarrow> ('z) pmap_state_scheme \<Rightarrow> ('z) pmap_state_scheme \<Rightarrow> bool" where
  "data_kept S s s' \<longleftrightarrow> tables S s \<subseteq> tables S s' \<and>
     (\<forall>q. q \<notin> tables S s' \<longrightarrow> q \<notin> fst ` S \<longrightarrow> pmem s' q = pmem s q)"

lemma data_kept_refl [simp]: "data_kept S s s"
  by (simp add: data_kept_def)

lemma data_kept_trans: "data_kept S s s1 \<Longrightarrow> data_kept S s1 s2 \<Longrightarrow> data_kept S s s2"
  by (auto simp: data_kept_def)

lemma data_kept_cong: "pmem s' = pmem s \<Longrightarrow> data_kept S s0 s' = data_kept S s0 s"
  by (simp add: data_kept_def tables_def tab_def live_def)

lemma data_kept_cong1: "pmem s' = pmem s \<Longrightarrow> data_kept S s' s0 = data_kept S s s0"
  by (simp add: data_kept_def tables_def tab_def live_def)

lemma data_kept_store:
  assumes "vm_inv S X xs s" and "slot_of r va \<in> live S s"
    and "pmem s' = (pmem s)(tab s r (unat (PDX va)) :=
      (pmem s (tab s r (unat (PDX va))))(unat (PTX va) := v))"
  shows "data_kept S s s'"
  using store_tables(2) [OF vm_invD(3) [OF assms(1)] assms(2) [unfolded slot_of_def] assms(3)]
    tablesI [of r "unat (PDX va)" S s] assms(2,3)
  by (auto simp: data_kept_def slot_of_def)

definition tlb_key :: "u32 \<Rightarrow> u32 \<Rightarrow> u32" where
  "tlb_key asid va = PTE_ADDR va OR push_bit 6 asid"

lemma tlb_invalidate_sel [simp]:
  "npage (tlb_invalidate asid va s) = npage s" "pp_ref (tlb_invalidate asid va s) = pp_ref s"
  "page_free_list (tlb_invalidate asid va s) = page_free_list s"
  "pmem (tlb_invalidate asid va s) = pmem s"
  "tlb (tlb_invalidate asid va s) = (tlb s)(tlb_key asid va := None)"
  by (simp_all add: tlb_invalidate_def tlb_out_def tlb_key_def)

text \<open>The invariant and the mappings do not depend on the TLB.\<close>

lemma vm_inv_cong:
  assumes "npage s' = npage s" and "pp_ref s' = pp_ref s"
    and "page_free_list s' = page_free_list s" and "pmem s' = pmem s"
  shows "vm_inv S X xs s' = vm_inv S X xs s" and "pte_at s' = pte_at s" and "tab s' = tab s"
    and "tables S s' = tables S s"
proof -
  show t: "tab s' = tab s" by (intro ext) (simp add: tab_def assms)
  show p: "pte_at s' = pte_at s" by (intro ext) (simp add: pte_at_def t assms)
  have l: "live S s' = live S s" by (simp add: live_def assms)
  show tb: "tables S s' = tables S s" by (simp add: tables_def l t)
  show "vm_inv S X xs s' = vm_inv S X xs s"
    by (simp add: vm_inv_defs assms l t p tb refs_def)
qed

lemmas vm_inv_tlb = vm_inv_cong [of "tlb_invalidate asid va s" s for asid va s, simplified]

lemma kstore_pte:
  assumes inv: "vm_inv S X xs s" and slot: "slot_of r va \<in> live S s"
    and "npage s' = npage s" and "pmem s' = pmem s"
  shows "kstore (pte_kva s r va) v s' = Some (s'\<lparr>pmem := (pmem s)(tab s r (unat (PDX va)) :=
      (pmem s (tab s r (unat (PDX va))))(unat (PTX va) := v))\<rparr>)"
  using assms walk_slot [OF inv, of r va]
  by (simp add: pte_kva_def kstore_entry slot_of_def live_def)

lemma remapped_store:
  assumes inv: "vm_inv S X xs s" and slot: "slot_of r va \<in> live S s"
    and pm: "pmem s' = (pmem s)(tab s r (unat (PDX va)) :=
      (pmem s (tab s r (unat (PDX va))))(unat (PTX va) := v))"
  shows "remapped S r va (entry_of v) s s'"
  using store_view(3) [OF vm_invD(3) [OF inv] slot [unfolded slot_of_def] pm]
  by (simp add: remapped_def)

text \<open>
  \<^verbatim>\<open>page_remove\<close> returns, drops one reference of the page mapped there (a page that loses
  its last one becomes the first free page), drops the TLB entry, and unmaps the address.
\<close>

definition freed :: "u32 option \<Rightarrow> ('z) pmap_state_scheme \<Rightarrow> nat list" where
  "freed m s = (case m of None \<Rightarrow> [] | Some e \<Rightarrow> if pp_ref s (pte_page e) = 1 then [pte_page e] else [])"

lemma page_remove_ok:
  assumes inv: "vm_inv S X xs s" and slot: "slot_of r va \<in> S"
  shows "\<exists>s'. page_remove (pgdir_kva r) asid va s = Some s' \<and>
    vm_inv S X (freed (mapping s r va) s @ xs) s' \<and> remapped S r va None s s' \<and>
    npage s' = npage s \<and> tables S s' = tables S s \<and>
    tlb s' = (if mapping s r va = None then tlb s else (tlb s)(tlb_key asid va := None)) \<and>
    pp_ref s' = (case mapping s r va of None \<Rightarrow> pp_ref s
       | Some e \<Rightarrow> (pp_ref s)(pte_page e := pp_ref s (pte_page e) - 1)) \<and>
    (\<forall>(r', i') \<in> S. pmem s' r' i' = pmem s r' i') \<and> data_kept S s s'"
proof (cases "mapping s r va")
  case None
  then show ?thesis
    using inv by (auto simp: page_remove_def page_lookup_eq [OF inv slot] freed_def remapped_def
        mapping_def)
next
  case (Some e)
  let ?p = "pte_page e"
  have live: "slot_of r va \<in> live S s" by (rule mapping_live [OF Some slot])
  have ref: "pp_ref s ?p \<noteq> 0" by (rule mapped_ref [OF inv slot Some])
  have p: "?p < unat (npage s)" by (rule data_okD(1) [OF vm_invD(5) [OF inv] slot Some])
  obtain s2 where s2: "page_decref ?p s = Some s2"
    "free_ok (if pp_ref s ?p = 1 then ?p # xs else xs) s2" "pmem s2 = pmem s"
    "npage s2 = npage s" "tlb s2 = tlb s" "pp_ref s2 = (pp_ref s)(?p := pp_ref s ?p - 1)"
    using page_decref_free [OF vm_invD(4) [OF inv] ref p] by blast
  define s3 where "s3 = s2\<lparr>pmem := (pmem s)(tab s r (unat (PDX va)) :=
      (pmem s (tab s r (unat (PDX va))))(unat (PTX va) := 0))\<rparr>"
  have s3: "kstore (pte_kva s r va) 0 s2 = Some s3"
    unfolding s3_def by (rule kstore_pte [OF inv live s2(4,3)])
  have "vm_inv S X (if pp_ref s ?p = 1 then ?p # xs else xs) s3"
  proof (rule vm_inv_store [OF inv live [unfolded slot_of_def] PTX_bound [of va]])
    show "free_ok (if pp_ref s ?p = 1 then ?p # xs else xs) s3"
      using s2(2) by (simp add: s3_def free_ok_def)
    show "unat (pp_ref s3 q) + of_bool (points (pte_at s r (unat (PDX va)) (unat (PTX va))) q) =
        unat (pp_ref s q) + of_bool (points (entry_of 0) q)" for q
      using Some ref by (auto simp: s3_def s2 mapping_def entry_of_def unat_minus_1 unat_gt_0)
  qed (simp_all add: s3_def s2)
  moreover have "remapped S r va None s s3"
    using remapped_store [OF inv live, of s3 0] by (simp add: s3_def entry_of_def)
  moreover have "tables S s3 = tables S s" "\<forall>(r', i') \<in> S. pmem s3 r' i' = pmem s r' i'"
    using store_tables(2) [OF vm_invD(3) [OF inv] live [unfolded slot_of_def], of s3]
      store_view(1) [OF vm_invD(3) [OF inv] live [unfolded slot_of_def], of s3]
    by (auto simp: s3_def)
  moreover have "data_kept S s s3" by (rule data_kept_store [OF inv live]) (simp add: s3_def)
  moreover have "npage s3 = npage s" "tlb s3 = tlb s"
    "pp_ref s3 = (pp_ref s)(?p := pp_ref s ?p - 1)"
    by (simp_all add: s3_def s2)
  ultimately show ?thesis
    using Some s2(1) s3
    by (intro exI [of _ "tlb_invalidate asid va s3"])
      (auto simp: page_remove_def page_lookup_eq [OF inv slot] freed_def remapped_def vm_inv_tlb
        data_kept_cong [of "tlb_invalidate asid va s3" s3])
qed

text \<open>Every page without references is on the free list.\<close>

definition no_leak :: "nat list \<Rightarrow> ('z) pmap_state_scheme \<Rightarrow> bool" where
  "no_leak xs s \<longleftrightarrow> (\<forall>p < unat (npage s). pp_ref s p = 0 \<longrightarrow> p \<in> set xs)"

lemma page_remove_no_leak:
  assumes "no_leak xs s" and "npage s' = npage s"
    and "pp_ref s' = (case m of None \<Rightarrow> pp_ref s
       | Some e \<Rightarrow> (pp_ref s)(pte_page e := pp_ref s (pte_page e) - 1))"
  shows "no_leak (freed m s @ xs) s'"
proof -
  have one: "w - 1 = 0 \<longleftrightarrow> w = 1" for w :: u16 by auto
  show ?thesis
    using assms by (auto simp: no_leak_def freed_def one split: option.splits)
qed

section \<open>Inserting a mapping\<close>

text \<open>
  A page that may be mapped: not free, not a table or a directory, and with room in its
  16-bit reference count.
\<close>

definition mappable :: "(nat \<times> nat) set \<Rightarrow> nat list \<Rightarrow> nat \<Rightarrow> ('z) pmap_state_scheme \<Rightarrow> bool" where
  "mappable S xs pp s \<longleftrightarrow> pp < unat (npage s) \<and> pp \<notin> set xs \<and> pp \<notin> tables S s \<and>
     pp \<notin> fst ` S \<and> pp_ref s pp \<noteq> 65535"

definition no_room :: "nat \<Rightarrow> u32 \<Rightarrow> nat list \<Rightarrow> ('z) pmap_state_scheme \<Rightarrow> bool" where
  "no_room r va xs s \<longleftrightarrow> xs = [] \<and> \<not> valid (pmem s r (unat (PDX va)))"

lemma unat_plus_1_u16: "w \<noteq> 65535 \<Longrightarrow> unat (w + 1 :: u16) = unat w + 1"
proof -
  assume "w \<noteq> 65535"
  then have "unat w \<noteq> 65535" by (simp add: word_unat_eq_iff)
  moreover have "unat w < 65536" using unsigned_less [of w, where ?'a = nat] by simp
  ultimately show ?thesis by (simp add: unat_word_ariths)
qed

lemma store_new:
  assumes inv: "vm_inv S X xs s" and slot: "slot_of r va \<in> live S s"
    and un: "mapping s r va = None" and pp: "mappable S xs pp s" and perm: "perm_ok perm"
    and s': "s' = s\<lparr>pmem := (pmem s)(tab s r (unat (PDX va)) :=
        (pmem s (tab s r (unat (PDX va))))(unat (PTX va) := mk_pte pp perm)),
      pp_ref := (pp_ref s)(pp := pp_ref s pp + 1)\<rparr>"
  shows "vm_inv S X xs s'" and "remapped S r va (Some (mk_pte pp perm)) s s'"
    and "tables S s' = tables S s"
proof -
  have p: "pte_page (mk_pte pp perm) = pp"
    using pp perm vm_invD(1) [OF inv] by (simp add: mappable_def)
  show "vm_inv S X xs s'"
  proof (rule vm_inv_store [OF inv slot [unfolded slot_of_def] PTX_bound [of va]])
    show "free_ok xs s'" using vm_invD(4) [OF inv] pp by (auto simp: s' free_ok_def mappable_def)
    show "unat (pp_ref s' q) + of_bool (points (pte_at s r (unat (PDX va)) (unat (PTX va))) q) =
        unat (pp_ref s q) + of_bool (points (entry_of (mk_pte pp perm)) q)" for q
      using un pp by (simp add: s' entry_of_def p mapping_def unat_plus_1_u16 mappable_def)
  qed (use pp p in \<open>simp_all add: s' mappable_def\<close>)
  show "remapped S r va (Some (mk_pte pp perm)) s s'"
    using remapped_store [OF inv slot, of s' "mk_pte pp perm"] by (simp add: s' entry_of_def)
  show "tables S s' = tables S s"
    by (rule store_tables(2) [OF vm_invD(3) [OF inv] slot [unfolded slot_of_def]]) (simp add: s')
qed

text \<open>The part of \<^verbatim>\<open>page_insert\<close> after the old mapping is gone, when the table exists.\<close>

definition put_entry :: "nat \<Rightarrow> u32 \<Rightarrow> nat \<Rightarrow> u32 \<Rightarrow> ('z) pmap_state_scheme \<Rightarrow> ('z) pmap_state_scheme" where
  "put_entry r va pp perm s = s\<lparr>pmem := (pmem s)(tab s r (unat (PDX va)) :=
        (pmem s (tab s r (unat (PDX va))))(unat (PTX va) := mk_pte pp perm)),
      pp_ref := (pp_ref s)(pp := pp_ref s pp + 1)\<rparr>"

lemma page_insert_new_eq:
  assumes inv: "vm_inv S X xs s" and slot: "slot_of r va \<in> live S s"
  shows "page_insert_new (pgdir_kva r) asid pp va perm s =
    Some (Inr (), put_entry r va pp perm (tlb_invalidate asid va s))"
proof -
  let ?s = "tlb_invalidate asid va s"
  have inv': "vm_inv S X xs ?s" using inv by (simp add: vm_inv_tlb)
  have slot': "slot_of r va \<in> live S ?s" using slot by (simp add: live_def slot_of_def)
  then have S: "slot_of r va \<in> S" by (auto simp: live_def)
  have "pgdir_walk (pgdir_kva r) va True ?s = Some (Inr (Some (pte_kva ?s r va)), ?s)"
    unfolding pte_kva_def using slot' walk_slot [OF inv' S]
    by (intro pgdir_walk_present) (auto simp: live_def slot_of_def)
  then show ?thesis
    using kstore_pte [OF inv' slot' refl refl, of "mk_pte pp perm"]
    by (simp add: page_insert_new_def mk_pte_def put_entry_def)
qed

lemma page_insert_new_live:
  assumes inv: "vm_inv S X xs s" and slot: "slot_of r va \<in> live S s"
    and un: "mapping s r va = None" and pp: "mappable S xs pp s" and perm: "perm_ok perm"
  shows "\<exists>s'. page_insert_new (pgdir_kva r) asid pp va perm s = Some (Inr (), s') \<and>
    vm_inv S X xs s' \<and> remapped S r va (Some (mk_pte pp perm)) s s' \<and> npage s' = npage s \<and>
    tables S s' = tables S s \<and>
    tlb s' = (tlb s)(tlb_key asid va := None) \<and> pp_ref s' = (pp_ref s)(pp := pp_ref s pp + 1) \<and>
    data_kept S s s' \<and> (no_leak (pp # xs) s \<longrightarrow> no_leak xs s')"
proof -
  let ?s = "tlb_invalidate asid va s"
  have inv': "vm_inv S X xs ?s" using inv by (simp add: vm_inv_tlb)
  have slot': "slot_of r va \<in> live S ?s" using slot by (simp add: live_def slot_of_def)
  have S: "slot_of r va \<in> S" using slot by (auto simp: live_def)
  define s' where "s' = put_entry r va pp perm ?s"
  note s'_def = s'_def [unfolded put_entry_def]
  have un': "mapping ?s r va = None" and pp': "mappable S xs pp ?s"
    using un pp by (simp_all add: mapping_def vm_inv_tlb mappable_def)
  note new = store_new [OF inv' slot' un' pp' perm s'_def]
  have "page_insert_new (pgdir_kva r) asid pp va perm s = Some (Inr (), s')"
    using page_insert_new_eq [OF inv slot] by (simp add: s'_def put_entry_def)
  moreover have "data_kept S ?s s'" by (rule data_kept_store [OF inv' slot']) (simp add: s'_def)
  then have "data_kept S s s'" using data_kept_cong1 [of ?s s] by simp
  moreover have "pp_ref s pp + 1 \<noteq> 0"
    using unat_plus_1_u16 [of "pp_ref s pp"] pp by (auto simp: mappable_def)
  then have "no_leak (pp # xs) s \<longrightarrow> no_leak xs s'" by (auto simp: no_leak_def s'_def)
  ultimately show ?thesis
    using new by (intro exI [of _ s']) (auto simp: s'_def remapped_def vm_inv_tlb)
qed

lemma link_table_tlb:
  "link_table r i t fl (tlb_invalidate asid va s) = tlb_invalidate asid va (link_table r i t fl s)"
  by (simp add: link_table_def tlb_invalidate_def tlb_out_def)

lemma page_insert_new_empty:
  assumes inv: "vm_inv S X (t # xs) s" and slot: "slot_of r va \<in> S"
    and new: "\<not> valid (pmem s r (unat (PDX va)))"
  shows "\<exists>fl. list_rep fl xs \<and> page_insert_new (pgdir_kva r) asid pp va perm s =
    page_insert_new (pgdir_kva r) asid pp va perm (link_table r (unat (PDX va)) t fl s)"
proof -
  let ?s = "tlb_invalidate asid va s"
  have inv': "vm_inv S X (t # xs) ?s" using inv by (simp add: vm_inv_tlb)
  obtain fl where walk: "pgdir_walk (pgdir_kva r) va True ?s =
      Some (Inr (Some (pgdir_kva t + push_bit 2 (PTX va))), link_table r (unat (PDX va)) t fl ?s)"
    and fl: "list_rep fl xs"
    using pgdir_walk_create [OF inv', of r va] slot new by (auto simp: slot_of_def)
  let ?l = "tlb_invalidate asid va (link_table r (unat (PDX va)) t fl s)"
  have ri: "(r, unat (PDX va)) \<in> S" using slot by (simp add: slot_of_def)
  have l: "vm_inv S X xs ?l"
    using link_table_inv [OF inv ri new fl] by (simp add: vm_inv_tlb)
  note view = link_table_view [OF inv ri new ri, of fl]
  have tab: "tab ?l r (unat (PDX va)) = t" using view(2) by (simp add: vm_inv_tlb)
  have "pgdir_walk (pgdir_kva r) va True ?l =
      Some (Inr (Some (pgdir_kva (tab ?l r (unat (PDX va))) + push_bit 2 (PTX va))), ?l)"
    using walk_slot [OF l slot] view(1) by (intro pgdir_walk_present) auto
  then show ?thesis
    using walk fl by (auto simp: page_insert_new_def tab link_table_tlb)
qed

lemma page_insert_new_ok:
  assumes inv: "vm_inv S X xs s" and slot: "slot_of r va \<in> S" and room: "\<not> no_room r va xs s"
    and un: "mapping s r va = None" and pp: "mappable S xs pp s" and perm: "perm_ok perm"
  shows "\<exists>s'. page_insert_new (pgdir_kva r) asid pp va perm s = Some (Inr (), s') \<and>
    vm_inv S X (if valid (pmem s r (unat (PDX va))) then xs else tl xs) s' \<and>
    remapped S r va (Some (mk_pte pp perm)) s s' \<and>
    npage s' = npage s \<and> tlb s' = (tlb s)(tlb_key asid va := None) \<and>
    pp_ref s' pp = pp_ref s pp + 1 \<and> data_kept S s s' \<and>
    (no_leak (pp # xs) s \<longrightarrow> no_leak (if valid (pmem s r (unat (PDX va))) then xs else tl xs) s')"
proof (cases "valid (pmem s r (unat (PDX va)))")
  case True
  then have live: "slot_of r va \<in> live S s" using slot by (simp add: live_def slot_of_def)
  show ?thesis
    using page_insert_new_live [OF inv live un pp perm, of asid] True by auto
next
  case False
  then obtain t ys where xs: "xs = t # ys" using room by (cases xs) (auto simp: no_room_def)
  note inv' = inv [unfolded xs]
  have ri: "(r, unat (PDX va)) \<in> S" using slot by (simp add: slot_of_def)
  obtain fl where fl: "list_rep fl ys" and eq: "page_insert_new (pgdir_kva r) asid pp va perm s =
      page_insert_new (pgdir_kva r) asid pp va perm (link_table r (unat (PDX va)) t fl s)"
    using page_insert_new_empty [OF inv' slot False] by blast
  let ?l = "link_table r (unat (PDX va)) t fl s"
  note view = link_table_view [OF inv' ri False, of _ _ fl]
  have "pp \<noteq> t" using pp by (auto simp: mappable_def xs)
  then have pp': "mappable S ys pp ?l"
    using pp link_table_tables(2) [OF inv' ri False, of fl] by (auto simp: mappable_def xs)
  have un': "mapping ?l r va = None" using view(3) [OF ri] un by (simp add: mapping_def)
  have live: "slot_of r va \<in> live S ?l"
    using slot view(1) [OF ri] by (auto simp: live_def slot_of_def)
  obtain s' where s': "page_insert_new (pgdir_kva r) asid pp va perm ?l = Some (Inr (), s')"
    "vm_inv S X ys s'" "remapped S r va (Some (mk_pte pp perm)) ?l s'" "npage s' = npage ?l"
    "tlb s' = (tlb ?l)(tlb_key asid va := None)" "pp_ref s' = (pp_ref ?l)(pp := pp_ref ?l pp + 1)"
    "data_kept S ?l s'" "no_leak (pp # ys) ?l \<longrightarrow> no_leak ys s'"
    using page_insert_new_live [OF link_table_inv [OF inv' ri False fl] live un' pp' perm] by blast
  have "remapped S r va (Some (mk_pte pp perm)) s s'"
    using view(3) s'(3) by (rule remapped_same)
  moreover have "data_kept S s ?l"
    using link_table_tables(2) [OF inv' ri False, of fl] ri by (auto simp: data_kept_def image_iff)
  then have "data_kept S s s'" using s'(7) by (rule data_kept_trans)
  moreover have "no_leak (pp # xs) s \<longrightarrow> no_leak (pp # ys) ?l" by (auto simp: no_leak_def xs)
  ultimately show ?thesis
    using s' False xs \<open>pp \<noteq> t\<close> by (auto simp: eq)
qed

lemma page_insert_new_no_mem:
  assumes inv: "vm_inv S X xs s" and slot: "slot_of r va \<in> S" and room: "no_room r va xs s"
  shows "page_insert_new (pgdir_kva r) asid pp va perm s = Some (Inl E_NO_MEM, tlb_invalidate asid va s)"
proof -
  have "vm_inv S X [] (tlb_invalidate asid va s)"
    using inv room by (simp add: vm_inv_tlb no_room_def)
  then show ?thesis
    using pgdir_walk_no_mem [of S X "tlb_invalidate asid va s" r va] slot room
    by (simp add: page_insert_new_def slot_of_def no_room_def)
qed

text \<open>How \<^verbatim>\<open>page_insert\<close> goes on after its first walk, by what is mapped at the address.\<close>

lemma page_insert_cases:
  assumes inv: "vm_inv S X xs s" and slot: "slot_of r va \<in> S"
  shows "page_insert (pgdir_kva r) asid pp va perm s =
    (case mapping s r va of
       None \<Rightarrow> page_insert_new (pgdir_kva r) asid pp va perm s
     | Some e \<Rightarrow>
         if pte_page e \<noteq> pp then
           Option.bind (page_remove (pgdir_kva r) asid va s)
             (page_insert_new (pgdir_kva r) asid pp va perm)
         else map_option (Pair (Inr ()))
           (kstore (pte_kva s r va) (mk_pte pp perm) (tlb_invalidate asid va s)))"
proof (cases "valid (pmem s r (unat (PDX va)))")
  case True
  note w = walk_slot [OF inv slot]
  have ld: "kload s (pgdir_kva (tab s r (unat (PDX va))) + push_bit 2 (PTX va)) =
      Some (pmem s (tab s r (unat (PDX va))) (unat (PTX va)))"
    using w True by (simp add: kload_entry)
  show ?thesis
  proof (cases "valid (pmem s (tab s r (unat (PDX va))) (unat (PTX va)))")
    case v: True
    then have m: "mapping s r va = Some (pmem s (tab s r (unat (PDX va))) (unat (PTX va)))"
      using True by (simp add: mapping_def pte_at_def)
    then show ?thesis
      using data_okD(1) [OF vm_invD(5) [OF inv] slot m] v [unfolded valid_def] True ld
      by (simp add: page_insert_def pgdir_walk_find [OF w] pa2page_pte pte_kva_def mk_pte_def
          map_option_case bind_split split: option.splits)
  next
    case False
    then have m: "mapping s r va = None" by (simp add: mapping_def pte_at_def)
    with False True ld show ?thesis
      by (simp add: page_insert_def pgdir_walk_find [OF w] valid_def)
  qed
next
  case False
  then have "mapping s r va = None" by (simp add: mapping_def pte_at_def)
  with pgdir_walk_find [OF walk_slot [OF inv slot]] False show ?thesis
    by (simp add: page_insert_def)
qed

lemma page_insert_same:
  assumes inv: "vm_inv S X xs s" and slot: "slot_of r va \<in> S"
    and m: "mapping s r va = Some e" "pte_page e = pp" and perm: "perm_ok perm"
  shows "\<exists>s'. page_insert (pgdir_kva r) asid pp va perm s = Some (Inr (), s') \<and>
    vm_inv S X xs s' \<and> remapped S r va (Some (mk_pte pp perm)) s s' \<and>
    npage s' = npage s \<and> tlb s' = (tlb s)(tlb_key asid va := None) \<and> pp_ref s' = pp_ref s \<and>
    data_kept S s s' \<and> (no_leak (pp # xs) s \<longrightarrow> no_leak xs s')"
proof -
  let ?s = "tlb_invalidate asid va s" and ?v = "mk_pte pp perm"
  have live: "slot_of r va \<in> live S s" by (rule mapping_live [OF m(1) slot])
  note ok = data_okD [OF vm_invD(5) [OF inv] slot m(1)]
  then have p: "pte_page ?v = pp" using perm vm_invD(1) [OF inv] m(2) by simp
  define s' where "s' = ?s\<lparr>pmem := (pmem s)(tab s r (unat (PDX va)) :=
      (pmem s (tab s r (unat (PDX va))))(unat (PTX va) := ?v))\<rparr>"
  have "kstore (pte_kva s r va) ?v ?s = Some s'"
    unfolding s'_def by (rule kstore_pte [OF inv live]) simp_all
  then have "page_insert (pgdir_kva r) asid pp va perm s = Some (Inr (), s')"
    using m by (simp add: page_insert_cases [OF inv slot])
  moreover have "vm_inv S X xs s'"
  proof (rule vm_inv_store [OF inv live [unfolded slot_of_def] PTX_bound [of va]])
    show "free_ok xs s'" using vm_invD(4) [OF inv] by (simp add: s'_def free_ok_def)
    show "unat (pp_ref s' q) + of_bool (points (pte_at s r (unat (PDX va)) (unat (PTX va))) q) =
        unat (pp_ref s q) + of_bool (points (entry_of ?v) q)" for q
      using m p by (simp add: s'_def entry_of_def mapping_def)
  qed (use ok m p in \<open>simp_all add: s'_def\<close>)
  moreover have "remapped S r va (Some ?v) s s'"
    using remapped_store [OF inv live, of s' ?v] by (simp add: s'_def entry_of_def)
  moreover have "data_kept S s s'" by (rule data_kept_store [OF inv live]) (simp add: s'_def)
  moreover have "no_leak (pp # xs) s \<longrightarrow> no_leak xs s'"
    using mapped_ref [OF inv slot m(1)] m(2) by (auto simp: no_leak_def s'_def)
  ultimately show ?thesis by (intro exI [of _ s']) (simp add: s'_def)
qed

text \<open>
  \<^verbatim>\<open>page_insert\<close> fails only when it needs a new table and no page is free, and then
  changes no mapping; otherwise it maps exactly the given address.
\<close>

lemma page_insert_ok:
  assumes inv: "vm_inv S X xs s" and slot: "slot_of r va \<in> S" and room: "\<not> no_room r va xs s"
    and pp: "mappable S xs pp s" and perm: "perm_ok perm"
  shows "\<exists>s' xs'. page_insert (pgdir_kva r) asid pp va perm s = Some (Inr (), s') \<and>
    vm_inv S X xs' s' \<and> remapped S r va (Some (mk_pte pp perm)) s s' \<and>
    npage s' = npage s \<and> tlb s' = (tlb s)(tlb_key asid va := None) \<and> data_kept S s s' \<and>
    (no_leak (pp # xs) s \<longrightarrow> no_leak xs' s') \<and>
    (mapping s r va = None \<longrightarrow> pp_ref s' pp = pp_ref s pp + 1) \<and>
    (mapping s r va \<noteq> None \<longrightarrow> length xs \<le> length xs')"
proof (cases "mapping s r va")
  case None
  then show ?thesis
    using page_insert_new_ok [OF inv slot room None pp perm, of asid]
    by (auto simp: page_insert_cases [OF inv slot])
next
  case (Some e)
  show ?thesis
  proof (cases "pte_page e = pp")
    case True
    then show ?thesis using page_insert_same [OF inv slot Some True perm, of asid] Some by auto
  next
    case False
    obtain s2 where s2: "page_remove (pgdir_kva r) asid va s = Some s2"
      "vm_inv S X (freed (Some e) s @ xs) s2" "remapped S r va None s s2" "npage s2 = npage s"
      "tables S s2 = tables S s" "tlb s2 = (tlb s)(tlb_key asid va := None)"
      "pp_ref s2 = (pp_ref s)(pte_page e := pp_ref s (pte_page e) - 1)"
      "\<forall>(r', i') \<in> S. pmem s2 r' i' = pmem s r' i'" "data_kept S s s2"
      using page_remove_ok [OF inv slot, of asid] Some by auto
    have pd: "pmem s2 r (unat (PDX va)) = pmem s r (unat (PDX va))"
      using s2(8) slot by (auto simp: slot_of_def)
    have "mappable S (freed (Some e) s @ xs) pp s2"
      using pp False by (auto simp: mappable_def s2 freed_def)
    moreover have v: "valid (pmem s r (unat (PDX va)))"
      using Some by (auto simp: mapping_def pte_at_def split: if_splits)
    then have "\<not> no_room r va (freed (Some e) s @ xs) s2" by (simp add: no_room_def pd)
    moreover have "mapping s2 r va = None"
      using remapped_mapping [OF s2(3) slot] by simp
    moreover define xs' where "xs' = freed (Some e) s @ xs"
    moreover have "(if valid (pmem s2 r (unat (PDX va))) then freed (Some e) s @ xs else tl (freed (Some e) s @ xs)) = xs'"
      using v by (simp add: pd xs'_def)
    ultimately obtain s' where "page_insert_new (pgdir_kva r) asid pp va perm s2 = Some (Inr (), s')"
      "vm_inv S X xs' s'" "remapped S r va (Some (mk_pte pp perm)) s2 s'" "npage s' = npage s2"
      "tlb s' = (tlb s2)(tlb_key asid va := None)" "data_kept S s2 s'"
      "no_leak (pp # freed (Some e) s @ xs) s2 \<longrightarrow> no_leak xs' s'"
      using page_insert_new_ok [OF s2(2) slot _ _ _ perm] by (simp only:) blast
    moreover have "length xs \<le> length xs'" by (simp add: xs'_def)
    moreover have "no_leak (pp # xs) s \<longrightarrow> no_leak (pp # freed (Some e) s @ xs) s2"
      using page_remove_no_leak [of "pp # xs" s s2 "Some e"] s2(4,7) by (auto simp: no_leak_def)
    ultimately show ?thesis
      using False remapped_trans [OF s2(3), of _ s'] Some data_kept_trans [OF s2(9), of s']
      by (auto simp: page_insert_cases [OF inv slot] s2)
  qed
qed

lemma page_insert_no_mem:
  assumes inv: "vm_inv S X xs s" and slot: "slot_of r va \<in> S" and room: "no_room r va xs s"
  shows "page_insert (pgdir_kva r) asid pp va perm s = Some (Inl E_NO_MEM, tlb_invalidate asid va s)"
proof -
  have "mapping s r va = None" using room by (simp add: no_room_def mapping_def pte_at_def)
  then show ?thesis
    by (simp add: page_insert_cases [OF inv slot] page_insert_new_no_mem [OF inv slot room])
qed

end
