(* ===== verification/Elf.thy ===== *)
theory Elf
  imports Mmu
begin

text \<open>
  The ELF loader of \<^verbatim>\<open>lib/elfloader.c\<close> with the header fields of \<^verbatim>\<open>include/elf.h\<close>.  An
  image is the function from offsets to bytes that the pointer \<^verbatim>\<open>binary\<close> gives access
  to; \<^verbatim>\<open>elf_load_seg\<close> takes the mapper callback as an argument, as the code does.
\<close>

section \<open>Reading the headers\<close>

type_synonym image = "nat \<Rightarrow> u8"

definition rd16 :: "image \<Rightarrow> nat \<Rightarrow> u16" where
  "rd16 b o0 = ucast (b o0) OR push_bit 8 (ucast (b (o0 + 1)))"

definition rd32 :: "image \<Rightarrow> nat \<Rightarrow> u32" where
  "rd32 b o0 = ucast (b o0) OR push_bit 8 (ucast (b (o0 + 1))) OR
     push_bit 16 (ucast (b (o0 + 2))) OR push_bit 24 (ucast (b (o0 + 3)))"

record Elf32_Ehdr =
  e_entry :: u32
  e_phoff :: u32
  e_phentsize :: u16
  e_phnum :: u16

record Elf32_Phdr =
  p_type :: u32
  p_offset :: u32
  p_vaddr :: u32
  p_filesz :: u32
  p_memsz :: u32
  p_flags :: u32

text \<open>The fields the loader reads, at their offsets in the two structures.\<close>

definition rd_ehdr :: "image \<Rightarrow> Elf32_Ehdr" where
  "rd_ehdr b = \<lparr>e_entry = rd32 b 24, e_phoff = rd32 b 28, e_phentsize = rd16 b 42,
     e_phnum = rd16 b 44\<rparr>"

definition rd_phdr :: "image \<Rightarrow> nat \<Rightarrow> Elf32_Phdr" where
  "rd_phdr b p = \<lparr>p_type = rd32 b p, p_offset = rd32 b (p + 4), p_vaddr = rd32 b (p + 8),
     p_filesz = rd32 b (p + 16), p_memsz = rd32 b (p + 20), p_flags = rd32 b (p + 24)\<rparr>"

definition elf_from :: "image \<Rightarrow> u32 \<Rightarrow> Elf32_Ehdr option" where
  "elf_from binary sz =
     (if sz \<ge> 52 \<and> binary 0 = 0x7f \<and> binary 1 = 0x45 \<and> binary 2 = 0x4c \<and> binary 3 = 0x46 \<and>
         rd16 binary 16 = 2
      then Some (rd_ehdr binary) else None)"

section \<open>Loading a segment\<close>

text \<open>
  A mapper gets the address, the offset in the page, the permission, the source (an
  offset from \<^verbatim>\<open>bin\<close>, or \<^const>\<open>None\<close> for \<^verbatim>\<open>NULL\<close>) and the length.
\<close>

type_synonym 's mapper = "u32 \<Rightarrow> u32 \<Rightarrow> u32 \<Rightarrow> nat option \<Rightarrow> u32 \<Rightarrow> 's \<Rightarrow> ((err + unit) \<times> 's) option"

text \<open>The loop that copies the content; it returns the final \<^verbatim>\<open>i\<close>.\<close>

partial_function (option) seg_content ::
    "'s mapper \<Rightarrow> u32 \<Rightarrow> u32 \<Rightarrow> u32 \<Rightarrow> u32 \<Rightarrow> 's \<Rightarrow> ((err + u32) \<times> 's) option" where
  "seg_content map_page va perm bin_size i s =
     (if i < bin_size then
        Option.bind (map_page (va + i) 0 perm (Some (unat i)) (min (bin_size - i) BY2PG) s)
          (\<lambda>(r, s'). case r of Inl e \<Rightarrow> Some (Inl e, s')
             | Inr _ \<Rightarrow> seg_content map_page va perm bin_size (i + BY2PG) s')
      else Some (Inr i, s))"

text \<open>The loop that adds zero pages up to \<^verbatim>\<open>sgsize\<close>.\<close>

partial_function (option) seg_zero ::
    "'s mapper \<Rightarrow> u32 \<Rightarrow> u32 \<Rightarrow> u32 \<Rightarrow> u32 \<Rightarrow> u32 \<Rightarrow> 's \<Rightarrow> ((err + unit) \<times> 's) option" where
  "seg_zero map_page va perm bin_size sgsize i s =
     (if i < sgsize then
        Option.bind (map_page (va + i) 0 perm None (min (bin_size - i) BY2PG) s)
          (\<lambda>(r, s'). case r of Inl e \<Rightarrow> Some (Inl e, s')
             | Inr _ \<Rightarrow> seg_zero map_page va perm bin_size sgsize (i + BY2PG) s')
      else Some (Inr (), s))"

definition seg_perm :: "Elf32_Phdr \<Rightarrow> u32" where
  "seg_perm ph = (if p_flags ph AND 2 \<noteq> 0 then PTE_V OR PTE_D else PTE_V)"

definition elf_load_seg :: "Elf32_Phdr \<Rightarrow> 's mapper \<Rightarrow> 's \<Rightarrow> ((err + unit) \<times> 's) option" where
  "elf_load_seg ph map_page s =
     (let va = p_vaddr ph; bin_size = p_filesz ph; sgsize = p_memsz ph; perm = seg_perm ph;
          offset = va - ROUNDDOWN va BY2PG
      in try_c
           (if offset \<noteq> 0
            then map_page va offset perm (Some 0) (min bin_size (BY2PG - offset)) s
            else Some (Inr (), s))
           (\<lambda>_ s. try_c
             (seg_content map_page va perm bin_size
                (if offset \<noteq> 0 then min bin_size (BY2PG - offset) else 0) s)
             (\<lambda>i s. seg_zero map_page va perm bin_size sgsize i s)))"

end
