(* ===== verification/Env.thy ===== *)
theory Env
  imports Vm_Ops Elf
begin

text \<open>
  Environments: \<^verbatim>\<open>kern/env.c\<close> with \<^verbatim>\<open>include/env.h\<close> and \<^verbatim>\<open>include/trap.h\<close>, up to
  \<^verbatim>\<open>env_run\<close>.  The state extends the one
  of \<^verbatim>\<open>kern/pmap.c\<close>.  A \<^verbatim>\<open>struct Env *\<close> is the index in the array \<^verbatim>\<open>envs\<close>; the links of
  the free list and of the run queue are kept in the records of these queues.  The
  trap frame at the top of the kernel stack is a component of the state.  Console
  output of \<^verbatim>\<open>printk\<close> is not part of it.
\<close>

section \<open>Data\<close>

record Trapframe =
  regs :: "nat \<Rightarrow> u32"
  cp0_status :: u32
  tf_hi :: u32
  tf_lo :: u32
  cp0_badvaddr :: u32
  cp0_cause :: u32
  cp0_epc :: u32

record Env =
  env_tf :: Trapframe
  env_id :: u32
  env_asid :: u32
  env_parent_id :: u32
  env_status :: u32
  env_pgdir :: u32
  env_pri :: u32
  env_ipc_value :: u32
  env_ipc_from :: u32
  env_ipc_recving :: u32
  env_ipc_dstva :: u32
  env_ipc_perm :: u32
  env_user_tlb_mod_entry :: u32
  env_runs :: u32

text \<open>
  Devices are reached through \<^verbatim>\<open>KSEG1\<close>.  Their state is the history of the accesses to
  their physical addresses, the latest first; what a read returns is the device's answer
  to that history, a parameter of the functions that read.
\<close>

datatype dev_ev = DevWrite u32 u8 | DevRead u32

type_synonym device = "dev_ev list \<Rightarrow> u32 \<Rightarrow> u8"

record kstate = pmap_state +
  envs :: "nat \<Rightarrow> Env"
  curenv :: "nat option"
  env_free_list :: "nat list_q"
  env_sched_list :: "nat tailq"
  base_pgdir :: u32
  cur_pgdir :: u32
  asid_bitmap :: "nat \<Rightarrow> u32"
  mkenvid_i :: u32
  sched_count :: u32
  kstack_tf :: Trapframe
  dev_hist :: "dev_ev list"

abbreviation (input) NENV :: nat where "NENV \<equiv> 1024"
abbreviation (input) NASID :: nat where "NASID \<equiv> 64"
abbreviation (input) ENV_FREE :: u32 where "ENV_FREE \<equiv> 0"
abbreviation (input) ENV_RUNNABLE :: u32 where "ENV_RUNNABLE \<equiv> 1"
abbreviation (input) ENV_NOT_RUNNABLE :: u32 where "ENV_NOT_RUNNABLE \<equiv> 2"

definition ENVX :: "u32 \<Rightarrow> nat" where
  "ENVX envid = unat (envid AND 0x3FF)"

text \<open>An assignment to fields of \<^verbatim>\<open>envs[e]\<close>.\<close>

definition upd_env :: "nat \<Rightarrow> (Env \<Rightarrow> Env) \<Rightarrow> kstate \<Rightarrow> kstate" where
  "upd_env e f s = s\<lparr>envs := (envs s)(e := f (envs s e))\<rparr>"

text \<open>
  A kernel function either returns to its caller or leaves the kernel through
  \<^verbatim>\<open>env_pop_tf\<close>, running the user code of the current environment.
\<close>

datatype 'a ctl = Ret 'a | Switch

section \<open>Address space identifiers\<close>

definition asid_bit :: "(nat \<Rightarrow> u32) \<Rightarrow> nat \<Rightarrow> bool" where
  "asid_bit bm i \<longleftrightarrow> bm (i div 32) AND push_bit (i mod 32) 1 \<noteq> 0"

fun asid_scan :: "nat list \<Rightarrow> kstate \<Rightarrow> (err + u32) \<times> kstate" where
  "asid_scan [] s = (Inl E_NO_FREE_ENV, s)"
| "asid_scan (i # is) s =
     (if asid_bit (asid_bitmap s) i then asid_scan is s
      else (Inr (of_nat i), s\<lparr>asid_bitmap := (asid_bitmap s)
              (i div 32 := asid_bitmap s (i div 32) OR push_bit (i mod 32) 1)\<rparr>))"

definition asid_alloc :: "kstate \<Rightarrow> (err + u32) \<times> kstate" where
  "asid_alloc s = asid_scan [0..<NASID] s"

definition asid_free :: "u32 \<Rightarrow> kstate \<Rightarrow> kstate" where
  "asid_free i s =
     (let index = unat (drop_bit 5 i); inner = unat (i AND 31)
      in s\<lparr>asid_bitmap := (asid_bitmap s)
             (index := asid_bitmap s index AND NOT (push_bit inner 1))\<rparr>)"

section \<open>Segments and identifiers\<close>

text \<open>The result of \<^verbatim>\<open>page_insert\<close> is ignored.\<close>

definition map_segment :: "u32 \<Rightarrow> u32 \<Rightarrow> u32 \<Rightarrow> u32 \<Rightarrow> u32 \<Rightarrow> u32 \<Rightarrow> ('z) pmap_state_scheme \<Rightarrow>
    ('z) pmap_state_scheme option" where
  "map_segment pgdir asid pa va size0 perm s =
     (if pa mod BY2PG \<noteq> 0 \<or> va mod BY2PG \<noteq> 0 \<or> size0 mod BY2PG \<noteq> 0 then None
      else fold_opt (\<lambda>k s. do {
             pp \<leftarrow> pa2page (npage s) (pa + of_nat k * BY2PG);
             (_, s') \<leftarrow> page_insert pgdir asid pp (va + of_nat k * BY2PG) perm s;
             Some s' }) [0..<unat size0 div 4096] s)"

definition mkenvid :: "nat \<Rightarrow> kstate \<Rightarrow> u32 \<times> kstate" where
  "mkenvid e s =
     (let i = mkenvid_i s + 1 in (push_bit 11 i OR of_nat e, s\<lparr>mkenvid_i := i\<rparr>))"

text \<open>
  \<^verbatim>\<open>*penv\<close> may be \<^verbatim>\<open>NULL\<close> when \<^verbatim>\<open>envid\<close> is 0 and there is no current environment; the
  permission check then reads through \<^verbatim>\<open>curenv\<close>.
\<close>

definition envid2env :: "u32 \<Rightarrow> bool \<Rightarrow> kstate \<Rightarrow> (err + nat option) option" where
  "envid2env envid checkperm s =
     (if envid = 0 then Some (Inr (curenv s))
      else
        (let e = ENVX envid
         in if env_status (envs s e) = ENV_FREE \<or> env_id (envs s e) \<noteq> envid then Some (Inl E_BAD_ENV)
            else if checkperm \<and> Some e \<noteq> curenv s then do {
              c \<leftarrow> curenv s;
              if env_parent_id (envs s e) \<noteq> env_id (envs s c) then Some (Inl E_BAD_ENV)
              else Some (Inr (Some e)) }
            else Some (Inr (Some e))))"

section \<open>Creating environments\<close>

text \<open>
  \<open>envs_kva\<close> is the address of the array \<^verbatim>\<open>envs\<close>; \<^verbatim>\<open>sizeof(struct Env)\<close> is 220 and
  \<^verbatim>\<open>sizeof(struct Page)\<close> is 12.
\<close>

definition env_init :: "u32 \<Rightarrow> kstate \<Rightarrow> kstate option" where
  "env_init envs_kva s0 =
     (let s1 = s0\<lparr>env_free_list := LIST_INIT (env_free_list s0),
                  env_sched_list := TAILQ_INIT (env_sched_list s0)\<rparr>;
          s2 = fold (\<lambda>i s. upd_env i (\<lambda>v. v\<lparr>env_status := ENV_FREE\<rparr>)
                 (s\<lparr>env_free_list := LIST_INSERT_HEAD i (env_free_list s)\<rparr>)) (rev [0..<NENV]) s1
      in do {
        (r, s3) \<leftarrow> page_alloc s2;
        (case r of
           Inl _ \<Rightarrow> None
         | Inr p \<Rightarrow> do {
             let s4 = s3\<lparr>pp_ref := (pp_ref s3)(p := pp_ref s3 p + 1)\<rparr>;
             kva \<leftarrow> page2kva (npage s4) p;
             let s5 = s4\<lparr>base_pgdir := kva\<rparr>;
             pa_pages \<leftarrow> PADDR (pages s5);
             s6 \<leftarrow> map_segment kva 0 pa_pages UPAGES (ROUND (npage s5 * 12) BY2PG) PTE_G s5;
             pa_envs \<leftarrow> PADDR envs_kva;
             map_segment kva 0 pa_envs UENVS (ROUND (1024 * 220) BY2PG) PTE_G s6 })
      })"

text \<open>\<^verbatim>\<open>memcpy\<close> of \<open>n\<close> words between kernel addresses.\<close>

definition kcopy_words :: "u32 \<Rightarrow> u32 \<Rightarrow> nat \<Rightarrow> ('z) pmap_state_scheme \<Rightarrow>
    ('z) pmap_state_scheme option" where
  "kcopy_words dst src n s =
     fold_opt (\<lambda>k s. do { v \<leftarrow> kload s (src + of_nat k * 4); kstore (dst + of_nat k * 4) v s })
       [0..<n] s"

definition env_setup_vm :: "nat \<Rightarrow> kstate \<Rightarrow> ((err + unit) \<times> kstate) option" where
  "env_setup_vm e s = try_c (page_alloc s) (\<lambda>p s1. do {
     let s2 = s1\<lparr>pp_ref := (pp_ref s1)(p := pp_ref s1 p + 1)\<rparr>;
     kva \<leftarrow> page2kva (npage s2) p;
     let s3 = upd_env e (\<lambda>v. v\<lparr>env_pgdir := kva\<rparr>) s2;
     s4 \<leftarrow> kcopy_words (kva + push_bit 2 (PDX UTOP)) (base_pgdir s3 + push_bit 2 (PDX UTOP))
             (unat (PDX UVPT - PDX UTOP)) s3;
     pa \<leftarrow> PADDR kva;
     s5 \<leftarrow> kstore (kva + push_bit 2 (PDX UVPT)) (pa OR PTE_V) s4;
     Some (Inr (), s5) })"

text \<open>
  The result of \<^verbatim>\<open>env_setup_vm\<close> is ignored.  \<^verbatim>\<open>STATUS_IM4 | STATUS_KUp | STATUS_IEp\<close> is
  \<open>0x100c\<close>.
\<close>

definition env_alloc :: "u32 \<Rightarrow> kstate \<Rightarrow> ((err + nat) \<times> kstate) option" where
  "env_alloc parent_id s =
     (case lh_first (env_free_list s) of
        None \<Rightarrow> Some (Inl E_NO_FREE_ENV, s)
      | Some e \<Rightarrow> do {
          (_, s1) \<leftarrow> env_setup_vm e s;
          let s2 = upd_env e (\<lambda>v. v\<lparr>env_user_tlb_mod_entry := 0, env_runs := 0\<rparr>) s1;
          let (id, s3) = mkenvid e s2;
          let s4 = upd_env e (\<lambda>v. v\<lparr>env_id := id\<rparr>) s3;
          (case asid_alloc s4 of
             (Inl _, s5) \<Rightarrow> Some (Inl E_NO_FREE_ENV, s5)
           | (Inr a, s5) \<Rightarrow> do {
               let s6 = upd_env e (\<lambda>v. v\<lparr>env_asid := a, env_parent_id := parent_id,
                   env_tf := (env_tf v)\<lparr>cp0_status := 0x100c,
                     regs := (regs (env_tf v))(29 := USTACKTOP - 4 - 4)\<rparr>\<rparr>) s5;
               fl \<leftarrow> LIST_REMOVE e (env_free_list s6);
               Some (Inr e, s6\<lparr>env_free_list := fl\<rparr>) }) })"

text \<open>
  Bytes of kernel memory, for \<^verbatim>\<open>memcpy\<close> from an image into a page: byte \<open>a mod 4\<close> of the
  word that holds address \<open>a\<close>, the least significant first.
\<close>

definition set_byte :: "u32 \<Rightarrow> nat \<Rightarrow> u8 \<Rightarrow> u32" where
  "set_byte w k b = (w AND NOT (push_bit (8 * k) 0xFF)) OR push_bit (8 * k) (ucast b)"

definition get_byte :: "u32 \<Rightarrow> nat \<Rightarrow> u8" where
  "get_byte w k = ucast (drop_bit (8 * k) w)"

definition kstore_byte :: "u32 \<Rightarrow> u8 \<Rightarrow> ('z) pmap_state_scheme \<Rightarrow> ('z) pmap_state_scheme option" where
  "kstore_byte a b s =
     (let k = unat a mod 4; a' = a AND NOT 3 in do {
        w \<leftarrow> kload s a'; kstore a' (set_byte w k b) s })"

definition kcopy_in :: "u32 \<Rightarrow> image \<Rightarrow> nat \<Rightarrow> ('z) pmap_state_scheme \<Rightarrow>
    ('z) pmap_state_scheme option" where
  "kcopy_in dst src n s = fold_opt (\<lambda>k. kstore_byte (dst + of_nat k) (src k)) [0..<n] s"

text \<open>\<open>bin\<close> is the segment in the image.  A page that could not be allocated leaves \<^verbatim>\<open>p\<close>
  uninitialised: the model stops there.\<close>

definition load_icode_mapper :: "nat \<Rightarrow> image \<Rightarrow> kstate mapper" where
  "load_icode_mapper e bin va offset perm src len s = do {
     (r, s1) \<leftarrow> page_alloc s;
     (case r of
        Inl _ \<Rightarrow> None
      | Inr p \<Rightarrow> do {
          s2 \<leftarrow> (case src of
                   None \<Rightarrow> Some s1
                 | Some o0 \<Rightarrow> do {
                     kva \<leftarrow> page2kva (npage s1) p;
                     kcopy_in (kva + offset) (\<lambda>k. bin (o0 + k)) (unat len) s1 });
          page_insert (env_pgdir (envs s2 e)) (env_asid (envs s2 e)) p va perm s2 }) }"

text \<open>Program headers are read at \<^verbatim>\<open>e_phoff\<close> and every \<^verbatim>\<open>e_phentsize\<close> bytes from there.\<close>

definition load_icode :: "nat \<Rightarrow> image \<Rightarrow> u32 \<Rightarrow> kstate \<Rightarrow> kstate option" where
  "load_icode e binary sz s = do {
     ehdr \<leftarrow> elf_from binary sz;
     s' \<leftarrow> fold_opt (\<lambda>k s.
         (let ph = rd_phdr binary (unat (e_phoff ehdr + of_nat k * ucast (e_phentsize ehdr)))
          in if p_type ph = 1 then do {
               (r, s1) \<leftarrow> elf_load_seg ph
                 (load_icode_mapper e (\<lambda>j. binary (unat (p_offset ph) + j))) s;
               (case r of Inl _ \<Rightarrow> None | Inr _ \<Rightarrow> Some s1) }
             else Some s)) [0..<unat (e_phnum ehdr)] s;
     Some (upd_env e (\<lambda>v. v\<lparr>env_tf := (env_tf v)\<lparr>cp0_epc := e_entry ehdr\<rparr>\<rparr>) s') }"

text \<open>The error of \<^verbatim>\<open>env_alloc\<close> is ignored and would leave \<^verbatim>\<open>e\<close> uninitialised.\<close>

definition env_create :: "image \<Rightarrow> u32 \<Rightarrow> u32 \<Rightarrow> kstate \<Rightarrow> (nat \<times> kstate) option" where
  "env_create binary sz priority s = do {
     (r, s1) \<leftarrow> env_alloc 0 s;
     (case r of
        Inl _ \<Rightarrow> None
      | Inr e \<Rightarrow> do {
          let s2 = upd_env e (\<lambda>v. v\<lparr>env_pri := priority, env_status := ENV_RUNNABLE\<rparr>) s1;
          s3 \<leftarrow> load_icode e binary sz s2;
          Some (e, s3\<lparr>env_sched_list := TAILQ_INSERT_HEAD e (env_sched_list s3)\<rparr>) }) }"

section \<open>Destroying environments\<close>

text \<open>The body of the inner loop of \<^verbatim>\<open>env_free\<close>, then the body of the outer loop.\<close>

definition free_pte :: "u32 \<Rightarrow> u32 \<Rightarrow> u32 \<Rightarrow> nat \<Rightarrow> nat \<Rightarrow> ('z) pmap_state_scheme \<Rightarrow>
    ('z) pmap_state_scheme option" where
  "free_pte pgdir asid pt pdeno pteno s = do {
     v \<leftarrow> kload s (pt + of_nat pteno * 4);
     if v AND PTE_V \<noteq> 0
     then page_remove pgdir asid (push_bit 22 (of_nat pdeno) OR push_bit 12 (of_nat pteno)) s
     else Some s }"

definition free_pde :: "u32 \<Rightarrow> u32 \<Rightarrow> nat \<Rightarrow> ('z) pmap_state_scheme \<Rightarrow>
    ('z) pmap_state_scheme option" where
  "free_pde pgdir asid pdeno s = do {
     pde \<leftarrow> kload s (pgdir + of_nat pdeno * 4);
     if pde AND PTE_V = 0 then Some s
     else do {
       let pa = PTE_ADDR pde;
       pt \<leftarrow> KADDR (npage s) pa;
       s1 \<leftarrow> fold_opt (free_pte pgdir asid pt pdeno) [0..<Suc (unat (PTX (- 1)))] s;
       s2 \<leftarrow> kstore (pgdir + of_nat pdeno * 4) 0 s1;
       pp \<leftarrow> pa2page (npage s2) pa;
       s3 \<leftarrow> page_decref pp s2;
       Some (tlb_invalidate asid (UVPT + push_bit 12 (of_nat pdeno)) s3) } }"

definition env_free :: "nat \<Rightarrow> kstate \<Rightarrow> kstate option" where
  "env_free e s0 = (let pgdir = env_pgdir (envs s0 e); asid = env_asid (envs s0 e) in do {
     s1 \<leftarrow> fold_opt (free_pde pgdir asid) [0..<unat (PDX UTOP)] s0;
     pa \<leftarrow> PADDR pgdir;
     pp \<leftarrow> pa2page (npage s1) pa;
     s2 \<leftarrow> page_decref pp s1;
     let s3 = asid_free asid s2;
     let s4 = tlb_invalidate asid (UVPT + push_bit 12 (PDX UVPT)) s3;
     let s5 = upd_env e (\<lambda>v. v\<lparr>env_status := ENV_FREE\<rparr>) s4;
     let s6 = s5\<lparr>env_free_list := LIST_INSERT_HEAD e (env_free_list s5)\<rparr>;
     q \<leftarrow> TAILQ_REMOVE e (env_sched_list s6);
     Some (s6\<lparr>env_sched_list := q\<rparr>) })"

section \<open>Running environments\<close>

text \<open>The result is the state in which \<^verbatim>\<open>env_pop_tf\<close> leaves the kernel.\<close>

definition env_run :: "nat \<Rightarrow> kstate \<Rightarrow> kstate option" where
  "env_run e s =
     (if env_status (envs s e) \<noteq> ENV_RUNNABLE then None
      else
        (let s1 = (case curenv s of None \<Rightarrow> s
                   | Some c \<Rightarrow> upd_env c (\<lambda>v. v\<lparr>env_tf := kstack_tf s\<rparr>) s);
             s2 = upd_env e (\<lambda>v. v\<lparr>env_runs := env_runs v + 1\<rparr>) (s1\<lparr>curenv := Some e\<rparr>)
         in Some (s2\<lparr>cur_pgdir := env_pgdir (envs s2 e)\<rparr>)))"

section \<open>The lists of environments\<close>

text \<open>
  The invariant of the comment at \<^verbatim>\<open>env_sched_list\<close>, and its counterpart for the free
  list: the run queue holds exactly the runnable environments, the free list exactly the
  free ones.
\<close>

definition env_lists :: "nat list \<Rightarrow> nat list \<Rightarrow> kstate \<Rightarrow> bool" where
  "env_lists fl q s \<longleftrightarrow> list_rep (env_free_list s) fl \<and> tailq_rep (env_sched_list s) q \<and>
     (\<forall>e. e \<in> set fl \<longleftrightarrow> e < NENV \<and> env_status (envs s e) = ENV_FREE) \<and>
     (\<forall>e. e \<in> set q \<longleftrightarrow> e < NENV \<and> env_status (envs s e) = ENV_RUNNABLE) \<and>
     (\<forall>c. curenv s = Some c \<longrightarrow> c < NENV)"

lemma upd_env_sel [simp]:
  "envs (upd_env e f s) = (envs s)(e := f (envs s e))" "curenv (upd_env e f s) = curenv s"
  "env_free_list (upd_env e f s) = env_free_list s"
  "env_sched_list (upd_env e f s) = env_sched_list s"
  "sched_count (upd_env e f s) = sched_count s" "kstack_tf (upd_env e f s) = kstack_tf s"
  "dev_hist (upd_env e f s) = dev_hist s"
  "cur_pgdir (upd_env e f s) = cur_pgdir s" "base_pgdir (upd_env e f s) = base_pgdir s"
  "asid_bitmap (upd_env e f s) = asid_bitmap s" "mkenvid_i (upd_env e f s) = mkenvid_i s"
  "npage (upd_env e f s) = npage s" "pp_ref (upd_env e f s) = pp_ref s"
  "page_free_list (upd_env e f s) = page_free_list s" "pmem (upd_env e f s) = pmem s"
  "tlb (upd_env e f s) = tlb s" "pages (upd_env e f s) = pages s"
  "memsize (upd_env e f s) = memsize s" "freemem (upd_env e f s) = freemem s"
  by (simp_all add: upd_env_def)

lemma env_listsD:
  assumes "env_lists fl q s"
  shows "list_rep (env_free_list s) fl" and "tailq_rep (env_sched_list s) q"
    and "\<And>e. e \<in> set fl \<longleftrightarrow> e < NENV \<and> env_status (envs s e) = ENV_FREE"
    and "\<And>e. e \<in> set q \<longleftrightarrow> e < NENV \<and> env_status (envs s e) = ENV_RUNNABLE"
    and "\<And>c. curenv s = Some c \<Longrightarrow> c < NENV"
  using assms by (simp_all add: env_lists_def)

section \<open>The identifiers\<close>

lemma asid_bit_iff: "asid_bit bm i \<longleftrightarrow> bit (bm (i div 32)) (i mod 32)"
  by (simp only: asid_bit_def bit_iff_and_push_bit_not_eq_0)

text \<open>The bitmap as the set of the identifiers in use.\<close>

definition asids :: "kstate \<Rightarrow> nat set" where
  "asids s = {i. i < NASID \<and> asid_bit (asid_bitmap s) i}"

lemma div_mod_32: "(i :: nat) div 32 = j div 32 \<Longrightarrow> i mod 32 = j mod 32 \<Longrightarrow> i = j"
  by (metis div_mod_decomp)

lemma asids_set:
  assumes "i < NASID"
  shows "asids (s\<lparr>asid_bitmap := (asid_bitmap s)
    (i div 32 := asid_bitmap s (i div 32) OR push_bit (i mod 32) 1)\<rparr>) = insert i (asids s)"
  using assms by (auto simp: asids_def asid_bit_iff bit_simps dest: div_mod_32)

lemma asid_scan_eq:
  "set is \<subseteq> {..<NASID} \<Longrightarrow> asid_scan is s =
     (case filter (\<lambda>i. i \<notin> asids s) is of
        [] \<Rightarrow> (Inl E_NO_FREE_ENV, s)
      | i # _ \<Rightarrow> (Inr (of_nat i), s\<lparr>asid_bitmap := (asid_bitmap s)
           (i div 32 := asid_bitmap s (i div 32) OR push_bit (i mod 32) 1)\<rparr>))"
  by (induction "is") (auto simp: asids_def)

lemma asid_alloc_full: "asids s = {..<NASID} \<Longrightarrow> asid_alloc s = (Inl E_NO_FREE_ENV, s)"
  by (simp add: asid_alloc_def asid_scan_eq atLeast0LessThan filter_empty_conv)

lemma filter_hd_least:
  assumes "filter P [0..<n] = i # is"
  shows "P i" and "i < n" and "\<And>j. j < i \<Longrightarrow> \<not> P j"
proof -
  have "i \<in> set (filter P [0..<n])" using assms by simp
  then show i: "P i" "i < n" by auto
  fix j assume j: "j < i"
  show "\<not> P j"
  proof
    assume "P j"
    then have "j \<in> set (filter P [0..<n])" using j i by simp
    then have "j \<in> set (i # is)" by (simp only: assms)
    moreover have "sorted (i # is)"
      using sorted_wrt_filter [of "(\<le>)" "[0..<n]" P] by (simp add: assms)
    ultimately show False using j by auto
  qed
qed

text \<open>\<^verbatim>\<open>asid_alloc\<close> returns the least identifier not in use, and marks it.\<close>

lemma asid_alloc_free:
  assumes "asids s \<noteq> {..<NASID}"
  obtains i s' where "asid_alloc s = (Inr (of_nat i), s')" and "i < NASID" and "i \<notin> asids s"
    and "\<And>j. j < i \<Longrightarrow> j \<in> asids s" and "asids s' = insert i (asids s)"
    and "s' = s\<lparr>asid_bitmap := asid_bitmap s'\<rparr>"
proof -
  have sub: "asids s \<subseteq> {..<NASID}" by (auto simp: asids_def)
  then have "filter (\<lambda>i. i \<notin> asids s) [0..<NASID] \<noteq> []"
    using assms by (auto simp: filter_empty_conv)
  then obtain i "is" where f: "filter (\<lambda>i. i \<notin> asids s) [0..<NASID] = i # is"
    by (cases "filter (\<lambda>i. i \<notin> asids s) [0..<NASID]") auto
  note i = filter_hd_least [OF f]
  show thesis
  proof (rule that)
    show "asid_alloc s = (Inr (of_nat i), s\<lparr>asid_bitmap := (asid_bitmap s)
        (i div 32 := asid_bitmap s (i div 32) OR push_bit (i mod 32) 1)\<rparr>)"
      by (simp only: asid_alloc_def asid_scan_eq atLeast0LessThan set_upt f list.case order_refl)
  qed (use i asids_set [OF i(2), of s] in auto)
qed

lemma asids_free:
  assumes "i < NASID"
  shows "asids (asid_free (of_nat i) s) = asids s - {i}"
proof -
  have u: "unat (of_nat i :: u32) = i" using assms by (simp add: word_of_nat_unat_eq)
  have "i AND 31 = take_bit 5 i"
    by (simp add: take_bit_eq_mask mask_eq_exp_minus_1)
  then have "unat ((of_nat i :: u32) AND 31) = i mod 32"
    by (simp add: unsigned_and_eq u take_bit_eq_mod)
  moreover have "unat (drop_bit 5 (of_nat i :: u32)) = i div 32"
    by (simp add: word_nat u)
  ultimately show ?thesis
    using assms by (auto simp: asids_def asid_bit_iff asid_free_def Let_def bit_simps dest: div_mod_32)
qed

text \<open>The index of an environment can be read off its identifier, and two identifiers made
  with different counter values differ as long as the counter has not gone around.\<close>

lemma ENVX_mkenvid:
  assumes "e < NENV"
  shows "ENVX (fst (mkenvid e s)) = e"
proof -
  have "take_bit 10 (push_bit 11 (mkenvid_i s + 1) OR of_nat e) = (take_bit 10 (of_nat e) :: u32)"
    by (simp only: take_bit_or take_bit_push_bit) simp
  then show ?thesis
    using assms unsigned_take_bit_eq [of 10 "of_nat e :: u32", where ?'a = nat]
    by (simp only: ENVX_def mkenvid_def Let_def and_mask_10 fst_conv)
      (simp add: word_of_nat_unat_eq take_bit_nat_eq_self)
qed

lemma mkenvid_count:
  assumes "e < NENV"
  shows "unat (fst (mkenvid e s)) div 2048 = unat (mkenvid_i s + 1) mod 2097152"
proof -
  have "drop_bit 11 (of_nat e :: u32) = 0"
    using assms by (simp add: word_unat_eq_iff word_nat word_of_nat_unat_eq)
  moreover have "drop_bit 11 (push_bit 11 w) = take_bit 21 w" for w :: u32
    by (intro bit_word_eqI) (auto simp: bit_simps)
  ultimately have "unat (drop_bit 11 (fst (mkenvid e s))) = unat (take_bit 21 (mkenvid_i s + 1))"
    by (simp add: mkenvid_def Let_def)
  then have "unat (fst (mkenvid e s)) div 2 ^ 11 = take_bit 21 (unat (mkenvid_i s + 1))"
    by (simp only: unat_mask_shift unsigned_take_bit_eq)
  then show ?thesis by (simp add: take_bit_eq_mod)
qed

end
