(* ===== verification/Sched.thy ===== *)
theory Sched
  imports Env
begin

text \<open>
  The scheduler \<^verbatim>\<open>kern/sched.c\<close>, and \<^verbatim>\<open>env_destroy\<close> of \<^verbatim>\<open>kern/env.c\<close>, which calls it.
  The run queue is refined to a list: a call of \<^verbatim>\<open>schedule\<close> rotates it, and repeated
  calls run every runnable environment in turn, each for its number of time slices.
\<close>

section \<open>The code\<close>

text \<open>\<^verbatim>\<open>schedule\<close> of \<^verbatim>\<open>kern/sched.c\<close>; the static variable \<^verbatim>\<open>count\<close> is \<open>sched_count\<close>.\<close>

definition schedule :: "bool \<Rightarrow> kstate \<Rightarrow> kstate option" where
  "schedule yield0 s = do {
     (e, s1) \<leftarrow>
       (if curenv s = None \<or> yield0 \<or> sched_count s = 0 \<or>
           env_status (envs s (the (curenv s))) \<noteq> ENV_RUNNABLE
        then
          (if TAILQ_EMPTY (env_sched_list s) then None
           else do {
             s1 \<leftarrow> (case curenv s of
                None \<Rightarrow> Some s
              | Some e \<Rightarrow>
                  if env_status (envs s e) = ENV_RUNNABLE then do {
                    q1 \<leftarrow> TAILQ_REMOVE e (env_sched_list s);
                    q2 \<leftarrow> TAILQ_INSERT_TAIL e q1;
                    Some (s\<lparr>env_sched_list := q2\<rparr>) }
                  else Some s);
             e \<leftarrow> tqh_first (env_sched_list s1);
             Some (e, s1\<lparr>sched_count := env_pri (envs s1 e)\<rparr>) })
        else do { e \<leftarrow> curenv s; Some (e, s) });
     env_run e (s1\<lparr>sched_count := sched_count s1 - 1\<rparr>) }"

definition env_destroy :: "nat \<Rightarrow> kstate \<Rightarrow> (unit ctl \<times> kstate) option" where
  "env_destroy e s = do {
     s1 \<leftarrow> env_free e s;
     if curenv s1 = Some e then do {
       s2 \<leftarrow> schedule True (s1\<lparr>curenv := None\<rparr>);
       Some (Switch, s2) }
     else Some (Ret (), s1) }"

section \<open>The run queue as a list\<close>

definition next_queue :: "nat option \<Rightarrow> nat list \<Rightarrow> nat list" where
  "next_queue c q = (case c of None \<Rightarrow> q | Some e \<Rightarrow> if e \<in> set q then remove1 e q @ [e] else q)"

text \<open>
  The specification of \<^verbatim>\<open>schedule\<close>: the chosen environment, the queue and the remaining
  slices afterwards, or nothing when there is no environment to run.
\<close>

definition sched_spec :: "bool \<Rightarrow> nat option \<Rightarrow> nat list \<Rightarrow> u32 \<Rightarrow> (nat \<Rightarrow> u32) \<Rightarrow>
    (nat \<times> nat list \<times> u32) option" where
  "sched_spec yield0 c q n pri =
     (if c = None \<or> yield0 \<or> n = 0 \<or> the c \<notin> set q then
        (case next_queue c q of [] \<Rightarrow> None | e # es \<Rightarrow> Some (e, e # es, pri e - 1))
      else Some (the c, q, n - 1))"

text \<open>What \<^verbatim>\<open>env_run\<close> leaves: the caller's context saved, the run counted.\<close>

definition run_envs :: "nat \<Rightarrow> kstate \<Rightarrow> nat \<Rightarrow> Env" where
  "run_envs e s d =
     (let v = (if curenv s = Some d then (envs s d)\<lparr>env_tf := kstack_tf s\<rparr> else envs s d)
      in if d = e then v\<lparr>env_runs := env_runs v + 1\<rparr> else v)"

lemma env_run_eq:
  "env_status (envs s e) = ENV_RUNNABLE \<Longrightarrow> env_run e s =
     Some (s\<lparr>envs := run_envs e s, curenv := Some e, cur_pgdir := env_pgdir (envs s e)\<rparr>)"
  by (auto simp: env_run_def upd_env_def run_envs_def Let_def fun_eq_iff
      intro!: kstate.equality split: option.splits)

lemma run_envs_sel [simp]:
  "env_status (run_envs e s d) = env_status (envs s d)" "env_pri (run_envs e s d) = env_pri (envs s d)"
  "env_pgdir (run_envs e s d) = env_pgdir (envs s d)" "env_asid (run_envs e s d) = env_asid (envs s d)"
  "env_id (run_envs e s d) = env_id (envs s d)"
  "env_parent_id (run_envs e s d) = env_parent_id (envs s d)"
  by (simp_all add: run_envs_def Let_def)

lemma run_envs_frame [simp]:
  "run_envs e (s\<lparr>env_sched_list := q\<rparr>) = run_envs e s"
  "run_envs e (s\<lparr>sched_count := n\<rparr>) = run_envs e s"
  by (auto simp: run_envs_def fun_eq_iff)

lemma next_queue_set [simp]: "distinct q \<Longrightarrow> set (next_queue c q) = set q"
  by (auto simp: next_queue_def split: option.splits)

lemma next_queue_distinct: "distinct q \<Longrightarrow> distinct (next_queue c q)"
  by (auto simp: next_queue_def split: option.splits)

lemma schedule_queue:
  assumes "env_lists fl q s"
  shows "\<exists>qq. tailq_rep qq (next_queue (curenv s) q) \<and>
    (case curenv s of
       None \<Rightarrow> Some s
     | Some e \<Rightarrow>
         if env_status (envs s e) = ENV_RUNNABLE then do {
           q1 \<leftarrow> TAILQ_REMOVE e (env_sched_list s);
           q2 \<leftarrow> TAILQ_INSERT_TAIL e q1;
           Some (s\<lparr>env_sched_list := q2\<rparr>) }
         else Some s) = Some (s\<lparr>env_sched_list := qq\<rparr>)"
proof (cases "curenv s")
  case None
  then show ?thesis
    using env_listsD(2) [OF assms] by (intro exI [of _ "env_sched_list s"]) (simp add: next_queue_def)
next
  case (Some e)
  note e = env_listsD(5) [OF assms Some]
  show ?thesis
  proof (cases "env_status (envs s e) = ENV_RUNNABLE")
    case True
    then have "e \<in> set q" using e env_listsD(4) [OF assms] by simp
    with tq.move_to_tail [OF env_listsD(2) [OF assms]] show ?thesis
      using Some True by (fastforce simp: next_queue_def)
  next
    case False
    then have "e \<notin> set q" using env_listsD(4) [OF assms] by simp
    then show ?thesis
      using Some False env_listsD(2) [OF assms]
      by (intro exI [of _ "env_sched_list s"]) (simp add: next_queue_def)
  qed
qed

text \<open>\<^verbatim>\<open>schedule\<close> implements its specification, and panics exactly when it has no result.\<close>

lemma schedule_refines:
  assumes inv: "env_lists fl q s"
  shows "case sched_spec y (curenv s) q (sched_count s) (\<lambda>e. env_pri (envs s e)) of
      None \<Rightarrow> schedule y s = None
    | Some (e, q', n) \<Rightarrow> \<exists>qq. schedule y s = Some (s\<lparr>env_sched_list := qq, sched_count := n,
        envs := run_envs e s, curenv := Some e, cur_pgdir := env_pgdir (envs s e)\<rparr>) \<and>
        env_lists fl q' (s\<lparr>env_sched_list := qq, sched_count := n,
        envs := run_envs e s, curenv := Some e, cur_pgdir := env_pgdir (envs s e)\<rparr>)"
proof -
  have dist: "distinct q" using env_listsD(2) [OF inv] by (rule tailq_rep_distinct)
  have cur: "the (curenv s) \<in> set q \<longleftrightarrow> env_status (envs s (the (curenv s))) = ENV_RUNNABLE"
    if "curenv s \<noteq> None" using that env_listsD(4,5) [OF inv] by auto
  show ?thesis
  proof (cases "curenv s = None \<or> y \<or> sched_count s = 0 \<or> the (curenv s) \<notin> set q")
    case True
    then have re: "curenv s = None \<or> y \<or> sched_count s = 0 \<or>
        env_status (envs s (the (curenv s))) \<noteq> ENV_RUNNABLE" using cur by auto
    obtain qq where qq: "tailq_rep qq (next_queue (curenv s) q)"
      "(case curenv s of
         None \<Rightarrow> Some s
       | Some e \<Rightarrow>
           if env_status (envs s e) = ENV_RUNNABLE then do {
             q1 \<leftarrow> TAILQ_REMOVE e (env_sched_list s);
             q2 \<leftarrow> TAILQ_INSERT_TAIL e q1;
             Some (s\<lparr>env_sched_list := q2\<rparr>) }
           else Some s) = Some (s\<lparr>env_sched_list := qq\<rparr>)"
      using schedule_queue [OF inv] by blast
    show ?thesis
    proof (cases "next_queue (curenv s) q")
      case Nil
      then have "q = []" using next_queue_set [OF dist, of "curenv s"] by simp
      then show ?thesis
        using True Nil re TAILQ_EMPTY_rep [OF env_listsD(2) [OF inv]]
        by (simp add: sched_spec_def schedule_def)
    next
      case (Cons e es)
      then have "q \<noteq> []" by (auto simp: next_queue_def split: option.splits)
      then have ne: "\<not> TAILQ_EMPTY (env_sched_list s)"
        using TAILQ_EMPTY_rep [OF env_listsD(2) [OF inv]] by simp
      have "e \<in> set q" using next_queue_set [OF dist, of "curenv s"] Cons by auto
      then have e: "e < NENV" "env_status (envs s e) = ENV_RUNNABLE"
        using env_listsD(4) [OF inv] by auto
      have first: "tqh_first qq = Some e" using tailq_rep_first [OF qq(1)] Cons by simp
      have "schedule y s = Some (s\<lparr>env_sched_list := qq, sched_count := env_pri (envs s e) - 1,
        envs := run_envs e s, curenv := Some e, cur_pgdir := env_pgdir (envs s e)\<rparr>)"
        using re ne first e
        by (simp add: schedule_def qq(2) env_run_eq)
      moreover have "env_lists fl (e # es) (s\<lparr>env_sched_list := qq,
        sched_count := env_pri (envs s e) - 1,
        envs := run_envs e s, curenv := Some e, cur_pgdir := env_pgdir (envs s e)\<rparr>)"
        using inv qq(1) e next_queue_set [OF dist, of "curenv s"]
        by (simp add: env_lists_def Cons)
      ultimately show ?thesis
        using True by (auto simp: sched_spec_def Cons)
    qed
  next
    case False
    then obtain e where c: "curenv s = Some e" "e \<in> set q" by auto
    then have e: "e < NENV" "env_status (envs s e) = ENV_RUNNABLE"
      using env_listsD(4) [OF inv] by auto
    have "schedule y s = Some (s\<lparr>env_sched_list := env_sched_list s, sched_count := sched_count s - 1,
        envs := run_envs e s, curenv := Some e, cur_pgdir := env_pgdir (envs s e)\<rparr>)"
      using False c e by (simp add: schedule_def env_run_eq)
    moreover have "env_lists fl q (s\<lparr>env_sched_list := env_sched_list s,
        sched_count := sched_count s - 1,
        envs := run_envs e s, curenv := Some e, cur_pgdir := env_pgdir (envs s e)\<rparr>)"
      using inv e by (simp add: env_lists_def)
    moreover have spec: "sched_spec y (curenv s) q (sched_count s) (\<lambda>e. env_pri (envs s e)) =
        Some (e, q, sched_count s - 1)"
      using False c by (simp add: sched_spec_def)
    ultimately show ?thesis
      unfolding spec option.case prod.case by (intro exI [of _ "env_sched_list s"] conjI)
  qed
qed

section \<open>Repeated scheduling\<close>

fun sched_steps :: "bool \<Rightarrow> nat \<Rightarrow> kstate \<Rightarrow> kstate option" where
  "sched_steps y 0 s = Some s"
| "sched_steps y (Suc k) s = Option.bind (schedule y s) (sched_steps y k)"

lemma sched_steps_add:
  "sched_steps y (j + k) s = Option.bind (sched_steps y j s) (sched_steps y k)"
  by (induction j arbitrary: s) (auto split: bind_split)

lemma schedule_step:
  assumes "env_lists fl q s"
    and "sched_spec y (curenv s) q (sched_count s) (\<lambda>e. env_pri (envs s e)) = Some (e, q', n)"
  shows "\<exists>s'. schedule y s = Some s' \<and> env_lists fl q' s' \<and> curenv s' = Some e \<and> sched_count s' = n"
  using schedule_refines [OF assms(1), of y] assms(2) by fastforce

lemma next_queue_hd: "distinct (e # es) \<Longrightarrow> next_queue (Some e) (e # es) = es @ [e]"
  by (simp add: next_queue_def)

lemma yield_rotates:
  assumes "env_lists fl (e # es) s" and "curenv s = Some e"
  shows "\<exists>s'. schedule True s = Some s' \<and> env_lists fl (es @ [e]) s' \<and> curenv s' = Some (hd (es @ [e]))"
proof -
  have d: "distinct (e # es)" using env_listsD(2) [OF assms(1)] by (rule tailq_rep_distinct)
  obtain d' ds where ds: "es @ [e] = d' # ds" by (cases es) auto
  have "sched_spec True (curenv s) (e # es) (sched_count s) (\<lambda>e. env_pri (envs s e)) =
      Some (d', d' # ds, env_pri (envs s d') - 1)"
    using assms(2) next_queue_hd [OF d] by (simp add: sched_spec_def ds)
  then show ?thesis using schedule_step [OF assms(1)] ds by fastforce
qed

lemma round_robin_lists:
  assumes "env_lists fl q s" and "q \<noteq> []" and "curenv s = Some (hd q)"
  shows "\<exists>s'. sched_steps True k s = Some s' \<and> env_lists fl (rotate k q) s' \<and>
    curenv s' = Some (hd (rotate k q))"
proof (induction k)
  case (Suc k)
  then obtain s1 where s1: "sched_steps True k s = Some s1" "env_lists fl (rotate k q) s1"
    "curenv s1 = Some (hd (rotate k q))" by blast
  obtain e es where q: "rotate k q = e # es" using assms(2) by (cases "rotate k q") auto
  have rot: "rotate (Suc k) q = es @ [e]"
    using q by (simp add: rotate_def)
  obtain s2 where s2: "schedule True s1 = Some s2" "env_lists fl (es @ [e]) s2"
    "curenv s2 = Some (hd (es @ [e]))"
    using yield_rotates [of fl e es s1] s1 q by auto
  have "sched_steps True (k + 1) s = Some s2"
    unfolding sched_steps_add by (simp add: s1 s2(1))
  then show ?case using s2 rot by (metis Suc_eq_plus1)
qed (use assms in simp)

text \<open>A runnable current environment keeps the processor for its remaining slices.\<close>

lemma slices_lists:
  assumes "env_lists fl q s" and "curenv s = Some e" and "e \<in> set q"
    and "k \<le> unat (sched_count s)"
  shows "\<exists>s'. sched_steps False k s = Some s' \<and> env_lists fl q s' \<and> curenv s' = Some e \<and>
    unat (sched_count s') = unat (sched_count s) - k"
  using assms(4)
proof (induction k)
  case (Suc k)
  then obtain s1 where s1: "sched_steps False k s = Some s1" "env_lists fl q s1"
    "curenv s1 = Some e" "unat (sched_count s1) = unat (sched_count s) - k" by auto
  then have n: "sched_count s1 \<noteq> 0" using Suc.prems by auto
  then have "sched_spec False (curenv s1) q (sched_count s1) (\<lambda>e. env_pri (envs s1 e)) =
      Some (e, q, sched_count s1 - 1)"
    using s1 assms(3) by (simp add: sched_spec_def)
  then obtain s2 where s2: "schedule False s1 = Some s2" "env_lists fl q s2" "curenv s2 = Some e"
    "sched_count s2 = sched_count s1 - 1"
    using schedule_step [OF s1(2)] by blast
  have "sched_steps False (k + 1) s = Some s2"
    unfolding sched_steps_add by (simp add: s1 s2(1))
  moreover have "unat (sched_count s2) = unat (sched_count s) - Suc k"
    using s1(4) s2(4) unat_minus_1 [OF n] by simp
  ultimately show ?case using s2 by (metis Suc_eq_plus1)
qed (use assms in simp)

text \<open>Priorities are not changed by scheduling.\<close>

lemma sched_steps_pri:
  "env_lists fl q s \<Longrightarrow> sched_steps y k s = Some s' \<Longrightarrow> env_pri (envs s' d) = env_pri (envs s d)"
proof (induction k arbitrary: s q)
  case (Suc k)
  then obtain s1 where s1: "schedule y s = Some s1" "sched_steps y k s1 = Some s'" by (auto elim!: bind_eq_SomeD)
  then obtain q1 where "env_lists fl q1 s1" "env_pri (envs s1 d) = env_pri (envs s d)"
    using schedule_refines [OF Suc.prems(1), of y] by (fastforce split: option.splits)
  then show ?case using Suc.IH s1(2) by simp
qed simp

text \<open>Whoever runs, the next environment of the queue is scheduled by the tick after the remaining slices.\<close>

lemma tick_next:
  assumes inv: "env_lists fl q s" and "q \<noteq> []"
  shows "\<exists>k s'. k \<le> unat (sched_count s) + 1 \<and> sched_steps False k s = Some s' \<and>
    env_lists fl (next_queue (curenv s) q) s' \<and> curenv s' = Some (hd (next_queue (curenv s) q)) \<and>
    sched_count s' = env_pri (envs s (hd (next_queue (curenv s) q))) - 1"
proof -
  have dist: "distinct q" using env_listsD(2) [OF inv] by (rule tailq_rep_distinct)
  obtain e es where nq: "next_queue (curenv s) q = e # es"
    using next_queue_set [OF dist, of "curenv s"] assms(2) by (cases "next_queue (curenv s) q") auto
  have pick: "\<exists>s'. schedule False t = Some s' \<and> env_lists fl (e # es) s' \<and> curenv s' = Some e \<and>
      sched_count s' = env_pri (envs t e) - 1"
    if "env_lists fl q t" "curenv t = curenv s"
      "curenv s = None \<or> sched_count t = 0 \<or> the (curenv s) \<notin> set q" for t
    using schedule_step [OF that(1), of False e "e # es"] that nq by (auto simp: sched_spec_def)
  show ?thesis
  proof (cases "curenv s = None \<or> the (curenv s) \<notin> set q")
    case True
    then obtain s' where "schedule False s = Some s'" "env_lists fl (e # es) s'" "curenv s' = Some e"
      "sched_count s' = env_pri (envs s e) - 1"
      using pick [OF inv refl] by blast
    then show ?thesis by (intro exI [of _ 1] exI [of _ s']) (simp add: nq)
  next
    case False
    then obtain c where c: "curenv s = Some c" "c \<in> set q" by auto
    obtain t where t: "sched_steps False (unat (sched_count s)) s = Some t" "env_lists fl q t"
      "curenv t = Some c" "unat (sched_count t) = 0"
      using slices_lists [OF inv c order_refl] by auto
    then have "sched_count t = 0" by (simp add: unat_eq_0)
    then obtain s' where s': "schedule False t = Some s'" "env_lists fl (e # es) s'" "curenv s' = Some e"
      "sched_count s' = env_pri (envs t e) - 1"
      using pick [OF t(2)] t(3) c(1) by auto
    have "sched_steps False (unat (sched_count s) + 1) s = Some s'"
      unfolding sched_steps_add by (simp add: t s')
    then show ?thesis
      using s' sched_steps_pri [OF inv t(1)]
      by (intro exI [of _ "unat (sched_count s) + 1"] exI [of _ s']) (simp add: nq)
  qed
qed

text \<open>The ticks an environment keeps the processor for once it is picked: its priority; the priority 0 counts as
  \<open>2 ^ 32\<close>, because the counter is decremented before it is tested.\<close>

definition time_slice :: "kstate \<Rightarrow> nat \<Rightarrow> nat" where
  "time_slice s e = unat (env_pri (envs s e) - 1) + 1"

lemma tick_rotates:
  assumes "env_lists fl q s" and "q \<noteq> []" and "curenv s = Some (hd q)" and "sched_count s = env_pri (envs s (hd q)) - 1"
  shows "k < length q \<Longrightarrow> \<exists>n s'. n \<le> sum_list (map (time_slice s) (take k q)) \<and> sched_steps False n s = Some s' \<and>
    env_lists fl (rotate k q) s' \<and> curenv s' = Some (hd (rotate k q)) \<and>
    sched_count s' = env_pri (envs s (hd (rotate k q))) - 1"
proof (induction k)
  case 0
  show ?case using assms by (intro exI [of _ 0] exI [of _ s]) simp
next
  case (Suc k)
  then obtain n s1 where s1: "n \<le> sum_list (map (time_slice s) (take k q))" "sched_steps False n s = Some s1"
    "env_lists fl (rotate k q) s1" "curenv s1 = Some (hd (rotate k q))" "sched_count s1 = env_pri (envs s (hd (rotate k q))) - 1"
    by auto
  obtain e es where q: "rotate k q = e # es" using assms(2) by (cases "rotate k q") auto
  have e: "e = q ! k" using q Suc.prems hd_rotate_conv_nth [OF assms(2), of k] by simp
  have d: "distinct (e # es)"
    using tailq_rep_distinct [OF env_listsD(2) [OF s1(3)]] by (simp add: q)
  have rot: "rotate (Suc k) q = next_queue (curenv s1) (rotate k q)"
    using next_queue_hd [OF d] s1(4) q by (simp add: rotate_def)
  obtain n' s2 where s2: "n' \<le> unat (sched_count s1) + 1" "sched_steps False n' s1 = Some s2"
    "env_lists fl (rotate (Suc k) q) s2" "curenv s2 = Some (hd (rotate (Suc k) q))"
    "sched_count s2 = env_pri (envs s1 (hd (rotate (Suc k) q))) - 1"
    using tick_next [OF s1(3)] assms(2) rot by (metis rotate_is_Nil_conv)
  have "sched_steps False (n + n') s = Some s2"
    unfolding sched_steps_add using s1 s2 by simp
  moreover have "n + n' \<le> sum_list (map (time_slice s) (take (Suc k) q))"
    using s1(1,5) s2(1) Suc.prems by (simp add: take_Suc_conv_app_nth time_slice_def q e)
  ultimately show ?case
    using s2 sched_steps_pri [OF assms(1) s1(2)] by (intro exI [of _ "n + n'"] exI [of _ s2]) simp
qed

section \<open>A machine with two runnable environments\<close>

text \<open>The globals before \<^verbatim>\<open>mips_init\<close>: the uninitialised data of the kernel is zero.\<close>

definition tf_zero :: Trapframe where
  "tf_zero = \<lparr>regs = (\<lambda>_. 0), cp0_status = 0, tf_hi = 0, tf_lo = 0, cp0_badvaddr = 0,
     cp0_cause = 0, cp0_epc = 0\<rparr>"

definition env_zero :: Env where
  "env_zero = \<lparr>env_tf = tf_zero, env_id = 0, env_asid = 0, env_parent_id = 0, env_status = 0,
     env_pgdir = 0, env_pri = 0, env_ipc_value = 0, env_ipc_from = 0, env_ipc_recving = 0,
     env_ipc_dstva = 0, env_ipc_perm = 0, env_user_tlb_mod_entry = 0, env_runs = 0\<rparr>"

definition kstate_zero :: kstate where
  "kstate_zero = \<lparr>memsize = 0, npage = 0, freemem = 0, pages = 0, pp_ref = (\<lambda>_. 0),
     page_free_list = list_q_zero, pmem = (\<lambda>_ _. 0), tlb = (\<lambda>_. None),
     envs = (\<lambda>_. env_zero), curenv = None, env_free_list = list_q_zero,
     env_sched_list = tailq_zero, base_pgdir = 0, cur_pgdir = 0, asid_bitmap = (\<lambda>_. 0),
     mkenvid_i = 0, sched_count = 0, kstack_tf = tf_zero, dev_hist = []\<rparr>"

definition two_envs :: kstate where
  "two_envs = kstate_zero\<lparr>envs := (\<lambda>e. env_zero\<lparr>env_status := if e < 2 then 1 else 2,
       env_pri := 2\<rparr>),
     env_sched_list := TAILQ_INSERT_HEAD 0 (TAILQ_INSERT_HEAD 1 (TAILQ_INIT tailq_zero)),
     env_free_list := LIST_INIT list_q_zero, curenv := Some 0, sched_count := 1\<rparr>"

lemma two_envs_lists: "env_lists [] [0, 1] two_envs"
proof -
  have "tailq_rep (TAILQ_INSERT_HEAD 0 (TAILQ_INSERT_HEAD 1 (TAILQ_INIT tailq_zero))) [0 :: nat, 1]"
    by (intro TAILQ_INSERT_HEAD_rep TAILQ_INIT_rep) auto
  moreover have "list_rep (LIST_INIT list_q_zero) ([] :: nat list)" by (rule LIST_INIT_rep)
  ultimately show ?thesis
    by (auto simp: env_lists_def two_envs_def kstate_zero_def env_zero_def)
qed

lemma two_envs_sel [simp]:
  "curenv two_envs = Some 0" "sched_count two_envs = 1" "env_pri (envs two_envs e) = 2"
  by (simp_all add: two_envs_def kstate_zero_def)

section \<open>Properties of the scheduler\<close>

text \<open>C3. Scheduler refinement: with the run queue \<open>q\<close> (invariant \<open>env_lists\<close>), \<^verbatim>\<open>schedule\<close>
  panics exactly when a new environment has to be picked and the queue is empty; otherwise
  it makes the environment chosen by the list specification current, leaves the specified
  queue and remaining slices, saves the caller's trap frame in its environment, and keeps
  the invariant.\<close>

theorem schedule_correct:
  assumes "env_lists fl q s"
  shows "case sched_spec y (curenv s) q (sched_count s) (\<lambda>e. env_pri (envs s e)) of
      None \<Rightarrow> schedule y s = None
    | Some (e, q', n) \<Rightarrow> \<exists>s'. schedule y s = Some s' \<and> env_lists fl q' s' \<and> curenv s' = Some e \<and>
        sched_count s' = n \<and> cur_pgdir s' = env_pgdir (envs s e) \<and> pmem s' = pmem s \<and>
        (\<forall>c. curenv s = Some c \<longrightarrow> env_tf (envs s' c) = kstack_tf s) \<and>
        (\<forall>d. d \<noteq> e \<longrightarrow> curenv s \<noteq> Some d \<longrightarrow> envs s' d = envs s d)"
  using schedule_refines [OF assms, of y]
  by (fastforce simp: run_envs_def Let_def split: option.splits)

theorem schedule_correct_witness:
  "\<exists>s'. schedule True two_envs = Some s' \<and> env_lists [] [1, 0] s' \<and> curenv s' = Some 1 \<and>
     sched_count s' = 1"
  using schedule_correct [OF two_envs_lists, of True]
  by (auto simp: sched_spec_def next_queue_def)

text \<open>Round robin: when the current environment is the head of the run queue, after \<open>k\<close>
  yields the \<open>k\<close>-th environment of the queue (cyclically) is the current one.\<close>

theorem yield_round_robin:
  assumes "env_lists fl q s" and "q \<noteq> []" and "curenv s = Some (hd q)"
  shows "\<exists>s'. sched_steps True k s = Some s' \<and> curenv s' = Some (q ! (k mod length q)) \<and>
    env_lists fl (rotate k q) s'"
  using round_robin_lists [OF assms, of k] assms(2) by (auto simp: hd_rotate_conv_nth)

theorem yield_round_robin_witness:
  "\<exists>s'. sched_steps True 3 two_envs = Some s' \<and> curenv s' = Some 1"
  using yield_round_robin [OF two_envs_lists, of 3] by (auto simp flip: numeral_2_eq_2)

text \<open>The post-condition of \<^verbatim>\<open>schedule\<close>: with \<^verbatim>\<open>yield\<close> set, the current environment is
  not scheduled again unless it is the only runnable one.\<close>

theorem yield_runs_another:
  assumes inv: "env_lists fl q s" and "curenv s = Some c" and "d \<in> set q" and "d \<noteq> c"
  shows "\<exists>s' e. schedule True s = Some s' \<and> curenv s' = Some e \<and> e \<noteq> c \<and> e \<in> set q"
proof -
  have "distinct q" using env_listsD(2) [OF inv] by (rule tailq_rep_distinct)
  then have "\<exists>e es. next_queue (curenv s) q = e # es \<and> e \<noteq> c \<and> e \<in> set q"
    using assms by (cases q; cases "tl q") (auto simp: next_queue_def)
  then show ?thesis
    using schedule_step [OF inv, of True] assms(2) by (fastforce simp: sched_spec_def)
qed

theorem yield_runs_another_witness:
  "\<exists>s' e. schedule True two_envs = Some s' \<and> curenv s' = Some e \<and> e \<noteq> 0 \<and> e \<in> set [0, 1]"
  using yield_runs_another [OF two_envs_lists, of 0 1] by simp

text \<open>Time slices: a runnable current environment with \<open>n\<close> slices left is scheduled again
  by each of the next \<open>n\<close> timer interrupts, and the one after that moves it to the tail of
  the queue.\<close>

theorem time_slices:
  assumes inv: "env_lists fl q s" and c: "curenv s = Some e" "e \<in> set q"
  shows "(\<forall>k \<le> unat (sched_count s). \<exists>s'. sched_steps False k s = Some s' \<and> curenv s' = Some e \<and>
      unat (sched_count s') = unat (sched_count s) - k) \<and>
    (\<exists>s'. sched_steps False (Suc (unat (sched_count s))) s = Some s' \<and>
      env_lists fl (remove1 e q @ [e]) s')"
proof (intro conjI)
  show "\<forall>k \<le> unat (sched_count s). \<exists>s'. sched_steps False k s = Some s' \<and> curenv s' = Some e \<and>
      unat (sched_count s') = unat (sched_count s) - k"
    using slices_lists [OF assms] by blast
  obtain t where t: "sched_steps False (unat (sched_count s)) s = Some t" "env_lists fl q t"
    "curenv t = Some e" "unat (sched_count t) = 0"
    using slices_lists [OF inv c order_refl] by auto
  then have n: "sched_count t = 0" by (simp add: unat_eq_0)
  have "next_queue (Some e) q = remove1 e q @ [e]" using c by (simp add: next_queue_def)
  then obtain d ds where ds: "next_queue (Some e) q = d # ds" "remove1 e q @ [e] = d # ds"
    by (cases "remove1 e q") auto
  then obtain s' where "schedule False t = Some s'" "env_lists fl (remove1 e q @ [e]) s'"
    using schedule_step [OF t(2), of False d "d # ds"] t(3) n by (auto simp: sched_spec_def)
  moreover have "sched_steps False (unat (sched_count s) + 1) s = Some s'"
    unfolding sched_steps_add using calculation t by simp
  ultimately show "\<exists>s'. sched_steps False (Suc (unat (sched_count s))) s = Some s' \<and>
      env_lists fl (remove1 e q @ [e]) s'" by auto
qed

theorem time_slices_witness:
  "\<exists>s'. sched_steps False 1 two_envs = Some s' \<and> curenv s' = Some 0"
  using time_slices [OF two_envs_lists, of 0] by force

text \<open>C4. Liveness under timer interrupts alone: every runnable environment is scheduled within one round,
  that is after at most the slices the current environment has left, the tick that ends them, and one slice for
  each environment queued before it, whatever the priorities are.\<close>

theorem every_runnable_runs:
  assumes inv: "env_lists fl q s" and "e \<in> set q"
  shows "\<exists>k s'. k \<le> unat (sched_count s) + 1 + sum_list (map (time_slice s) (takeWhile (\<lambda>d. d \<noteq> e) (next_queue (curenv s) q))) \<and>
    sched_steps False k s = Some s' \<and> curenv s' = Some e"
proof -
  let ?q = "next_queue (curenv s) q"
  have d: "distinct q" using env_listsD(2) [OF inv] by (rule tailq_rep_distinct)
  then have e: "e \<in> set ?q" using assms(2) by simp
  then obtain ys zs where q: "?q = ys @ e # zs" "e \<notin> set ys" using split_list_first by metis
  define i where "i = length ys"
  have tw: "takeWhile (\<lambda>d. d \<noteq> e) ?q = ys" unfolding q(1) using q(2) by (subst takeWhile_append2) auto
  have i: "i < length ?q" "?q ! i = e" "take i ?q = takeWhile (\<lambda>d. d \<noteq> e) ?q"
    unfolding tw by (simp_all add: i_def q(1))
  obtain k t where t: "k \<le> unat (sched_count s) + 1" "sched_steps False k s = Some t" "env_lists fl ?q t"
    "curenv t = Some (hd ?q)" "sched_count t = env_pri (envs s (hd ?q)) - 1"
    using tick_next [OF inv] assms(2) by force
  note pri = sched_steps_pri [OF inv t(2)]
  have ne: "?q \<noteq> []" using i by auto
  obtain n s' where s': "n \<le> sum_list (map (time_slice t) (take i ?q))" "sched_steps False n t = Some s'"
    "curenv s' = Some (hd (rotate i ?q))"
    using tick_rotates [OF t(3) ne t(4) _ i(1)] t(5) pri by auto
  have "hd (rotate i ?q) = e" using i ne by (simp add: hd_rotate_conv_nth)
  moreover have "sched_steps False (k + n) s = Some s'"
    unfolding sched_steps_add using t s' by simp
  moreover have "time_slice t = time_slice s" using pri by (simp add: fun_eq_iff time_slice_def)
  ultimately show ?thesis using s' t(1) i(3) by (intro exI [of _ "k + n"] exI [of _ s']) simp
qed

text \<open>Environment 0 has one slice left; environment 1 is next.\<close>

theorem every_runnable_runs_witness:
  "\<exists>k \<le> 2. \<exists>s'. sched_steps False k two_envs = Some s' \<and> curenv s' = Some 1"
  using every_runnable_runs [OF two_envs_lists, of 1] by (auto simp: next_queue_def numeral_2_eq_2)

end
