(* ===== verification/Vm_Space.thy ===== *)
theory Vm_Space
  imports Env
begin

text \<open>
  Building and tearing down whole address spaces: the loops of \<^verbatim>\<open>env_free\<close>, which unmap
  every page, release every table and finally the directory, and the directory that
  \<^verbatim>\<open>env_setup_vm\<close> creates.  The loop over the entries of a table is an instance of a
  general fact on interfaces that unmap one key at a time.
\<close>

section \<open>Unmapping a range of keys\<close>

text \<open>
  The interface: \<open>look\<close> reads the mapping of a key, \<open>unmap\<close> removes one key of \<open>own\<close> and
  changes no other key.
\<close>

locale unmap_interface =
  fixes inv :: "'st \<Rightarrow> bool"
    and look :: "'st \<Rightarrow> 'k \<Rightarrow> 'v option"
    and own :: "'k set"
    and unmap :: "'k \<Rightarrow> 'st \<Rightarrow> 'st option"
  assumes unmap_ok: "inv s \<Longrightarrow> k \<in> own \<Longrightarrow>
    \<exists>s'. unmap k s = Some s' \<and> inv s' \<and> (\<forall>k'. look s' k' = (if k' = k then None else look s k'))"
begin

lemma unmap_all:
  assumes "inv s" and "set ks \<subseteq> own"
  shows "\<exists>s'. fold_opt unmap ks s = Some s' \<and> inv s' \<and>
    (\<forall>k'. look s' k' = (if k' \<in> set ks then None else look s k'))"
  using assms
proof (induction ks arbitrary: s)
  case (Cons k ks)
  then obtain s1 where s1: "unmap k s = Some s1" "inv s1"
    "\<forall>k'. look s1 k' = (if k' = k then None else look s k')"
    using unmap_ok [of s k] by auto
  obtain s2 where "fold_opt unmap ks s1 = Some s2" "inv s2"
    "\<forall>k'. look s2 k' = (if k' \<in> set ks then None else look s1 k')"
    using Cons.IH [OF s1(2)] Cons.prems by auto
  with s1 show ?case by auto
qed simp

end

section \<open>The loop over the entries of a table\<close>

definition va_of :: "nat \<Rightarrow> nat \<Rightarrow> u32" where
  "va_of i j = push_bit 22 (of_nat i) OR push_bit 12 (of_nat j)"

lemma unat_va_of:
  assumes "i < 1024" and "j < 1024"
  shows "unat (va_of i j) = i * 4194304 + j * 4096"
proof -
  have 1: "unat (push_bit 22 (of_nat i) :: u32) = i * 4194304"
    using assms by (simp add: push_bit_eq_mult unat_word_ariths word_of_nat_unat_eq)
  have 2: "unat (push_bit 12 (of_nat j) :: u32) = j * 4096"
    using assms by (simp add: push_bit_eq_mult unat_word_ariths word_of_nat_unat_eq)
  have "push_bit 22 (of_nat i) AND push_bit 12 (of_nat j) = (0 :: u32)"
  proof (rule bit_word_eqI)
    fix n
    have "take_bit 10 j = j" using assms(2) by (simp add: take_bit_nat_eq_self)
    then have "bit j m \<Longrightarrow> m < 10" for m by (metis bit_take_bit_iff)
    then show "bit (push_bit 22 (of_nat i) AND push_bit 12 (of_nat j) :: u32) n = bit (0 :: u32) n"
      by (fastforce simp: bit_simps)
  qed
  then have "va_of i j = push_bit 22 (of_nat i) + push_bit 12 (of_nat j)"
    by (simp add: va_of_def disjunctive_add_eq_or)
  then show ?thesis
    using assms 1 2 by (simp add: unat_word_ariths)
qed

lemma va_of_indices [simp]:
  assumes "i < 1024" and "j < 1024"
  shows "unat (PDX (va_of i j)) = i" and "unat (PTX (va_of i j)) = j"
  using assms by (simp_all add: word_nat unat_va_of)

definition table_inv :: "(nat \<times> nat) set \<Rightarrow> (nat \<Rightarrow> nat) \<Rightarrow> nat \<Rightarrow> nat \<Rightarrow>
    ('z) pmap_state_scheme \<Rightarrow> ('z) pmap_state_scheme \<Rightarrow> bool" where
  "table_inv S X r i s0 s \<longleftrightarrow> (\<exists>xs. vm_inv S X xs s \<and> no_leak xs s) \<and> (r, i) \<in> live S s \<and>
     same_rest s0 s \<and> (\<forall>(r', i') \<in> S. pmem s r' i' = pmem s0 r' i')"

definition look_in :: "(nat \<times> nat) set \<Rightarrow> ('z) pmap_state_scheme \<Rightarrow> nat \<times> nat \<times> nat \<Rightarrow> u32 option" where
  "look_in S s k = (case k of (r, i, j) \<Rightarrow> if (r, i) \<in> S then pte_at s r i j else None)"

lemma of_nat_mult_4: "(of_nat j :: u32) * 4 = push_bit 2 (of_nat j)"
  by (simp add: push_bit_eq_mult)

lemma kload_entry_nat:
  assumes "r < unat (npage s)" and "unat (npage s) \<le> 131072" and "j < 1024"
  shows "kload s (pgdir_kva r + of_nat j * 4) = Some (pmem s r j)"
    and "kstore (pgdir_kva r + of_nat j * 4) v s = Some (s\<lparr>pmem := (pmem s)(r := (pmem s r)(j := v))\<rparr>)"
proof -
  have u: "unat (of_nat j :: u32) = j" using assms(3) by (simp add: word_of_nat_unat_eq)
  show "kload s (pgdir_kva r + of_nat j * 4) = Some (pmem s r j)"
    using kload_entry [OF assms(1,2), of "of_nat j"] assms(3) by (simp only: of_nat_mult_4 u)
  show "kstore (pgdir_kva r + of_nat j * 4) v s = Some (s\<lparr>pmem := (pmem s)(r := (pmem s r)(j := v))\<rparr>)"
    using kstore_entry [OF assms(1,2), of "of_nat j"] assms(3) by (simp only: of_nat_mult_4 u)
qed

lemma free_pte_ok:
  assumes inv: "table_inv S X r i s0 s" and j: "j < 1024"
  shows "\<exists>s'. free_pte (pgdir_kva r) asid (pgdir_kva (tab s0 r i)) i j s = Some s' \<and>
    table_inv S X r i s0 s' \<and>
    (\<forall>k. look_in S s' k = (if k = (r, i, j) then None else look_in S s k))"
proof -
  obtain xs where vm: "vm_inv S X xs s" "no_leak xs s" using inv by (auto simp: table_inv_def)
  have ri: "(r, i) \<in> live S s" using inv by (simp add: table_inv_def)
  then have S: "(r, i) \<in> S" "valid (pmem s r i)" by (simp_all add: live_def)
  have i: "i < 1024" by (rule slots_okD(2) [OF vm_invD(3) [OF vm(1)] S(1)])
  have tab: "tab s0 r i = tab s r i" using inv S(1) by (auto simp: table_inv_def tab_def)
  have slot: "slot_of r (va_of i j) \<in> S" using S i j by (simp add: slot_of_def)
  obtain s' where s': "page_remove (pgdir_kva r) asid (va_of i j) s = Some s'"
    "vm_inv S X (freed (mapping s r (va_of i j)) s @ xs) s'" "remapped S r (va_of i j) None s s'"
    "npage s' = npage s" "pp_ref s' = (case mapping s r (va_of i j) of None \<Rightarrow> pp_ref s
       | Some e \<Rightarrow> (pp_ref s)(pte_page e := pp_ref s (pte_page e) - 1))"
    "\<forall>(r', i') \<in> S. pmem s' r' i' = pmem s r' i'"
    using page_remove_ok [OF vm(1) slot, of asid] by blast
  have ld: "kload s (pgdir_kva (tab s r i) + of_nat j * 4) = Some (pmem s (tab s r i) j)"
    using kload_entry_nat(1) slots_ok_tab(1) [OF vm_invD(3) [OF vm(1)] ri] vm_invD(1) [OF vm(1)] j
    by blast
  have "free_pte (pgdir_kva r) asid (pgdir_kva (tab s0 r i)) i j s = Some s'"
  proof (cases "valid (pmem s (tab s r i) j)")
    case True
    then show ?thesis using ld s'(1) by (simp add: free_pte_def tab valid_def va_of_def)
  next
    case False
    then have "mapping s r (va_of i j) = None" using i j by (simp add: mapping_def pte_at_def)
    then have "s' = s"
      using s'(1) by (simp add: page_remove_def page_lookup_eq [OF vm(1) slot])
    then show ?thesis using ld False by (simp add: free_pte_def tab valid_def)
  qed
  moreover have "same_rest s0 s'"
    using inv page_remove_rest [OF s'(1)] by (auto simp: table_inv_def intro: same_rest_trans)
  moreover have "(r, i) \<in> live S s'" using S s'(6) by (auto simp: live_def)
  moreover have "no_leak (freed (mapping s r (va_of i j)) s @ xs) s'"
    by (rule page_remove_no_leak [OF vm(2) s'(4,5)])
  moreover have "\<forall>(r', i') \<in> S. pmem s' r' i' = pmem s0 r' i'"
    using s'(6) inv by (fastforce simp: table_inv_def)
  ultimately have "table_inv S X r i s0 s'"
    using s'(2) by (auto simp: table_inv_def)
  moreover have "look_in S s' k = (if k = (r, i, j) then None else look_in S s k)" for k
    using s'(3) i j S(1) by (cases k) (auto simp: look_in_def remapped_def)
  ultimately show ?thesis
    using \<open>free_pte (pgdir_kva r) asid (pgdir_kva (tab s0 r i)) i j s = Some s'\<close> by blast
qed

interpretation entries: unmap_interface "table_inv S X r i s0" "look_in S" "{(r, i, j) | j. j < 1024}"
    "\<lambda>(_, _, j). free_pte (pgdir_kva r) asid (pgdir_kva (tab s0 r i)) i j"
  for S X r i s0 asid
  by unfold_locales (use free_pte_ok in fastforce)

lemma fold_opt_map: "fold_opt f (map g xs) s = fold_opt (f \<circ> g) xs s"
  by (induction xs arbitrary: s) (auto split: bind_split)

lemma free_table_entries:
  assumes "table_inv S X r i s0 s0"
  shows "\<exists>s'. fold_opt (free_pte (pgdir_kva r) asid (pgdir_kva (tab s0 r i)) i) [0..<1024] s0 = Some s' \<and>
    table_inv S X r i s0 s' \<and>
    (\<forall>k. look_in S s' k = (if fst k = r \<and> fst (snd k) = i \<and> snd (snd k) < 1024 then None else look_in S s0 k))"
proof -
  let ?ks = "map (\<lambda>j. (r, i, j)) [0..<1024]"
  have "fold_opt (\<lambda>(_, _, j). free_pte (pgdir_kva r) asid (pgdir_kva (tab s0 r i)) i j) ?ks s0 =
      fold_opt (free_pte (pgdir_kva r) asid (pgdir_kva (tab s0 r i)) i) [0..<1024] s0"
    by (simp only: fold_opt_map comp_def prod.case)
  moreover have "k \<in> set ?ks \<longleftrightarrow> fst k = r \<and> fst (snd k) = i \<and> snd (snd k) < 1024" for k
    by (cases k) auto
  moreover have "set ?ks \<subseteq> {(r, i, j) | j. j < 1024}" by auto
  ultimately show ?thesis
    using entries.unmap_all [OF assms, of ?ks asid] by simp
qed

section \<open>Releasing a table\<close>

text \<open>A table without entries goes back to the free list when its slot is cleared.\<close>

definition unlink_table :: "nat \<Rightarrow> nat \<Rightarrow> ('z) pmap_state_scheme \<Rightarrow> ('z) pmap_state_scheme" where
  "unlink_table r i s = s\<lparr>pmem := (pmem s)(r := (pmem s r)(i := 0)),
     pp_ref := (pp_ref s)(tab s r i := 0),
     page_free_list := LIST_INSERT_HEAD (tab s r i) (page_free_list s)\<rparr>"

lemma unlink_table_sel [simp]:
  "npage (unlink_table r i s) = npage s" "tlb (unlink_table r i s) = tlb s"
  "pmem (unlink_table r i s) = (pmem s)(r := (pmem s r)(i := 0))"
  "pp_ref (unlink_table r i s) = (pp_ref s)(tab s r i := 0)"
  "page_free_list (unlink_table r i s) = LIST_INSERT_HEAD (tab s r i) (page_free_list s)"
  by (simp_all add: unlink_table_def)

lemma table_ref:
  assumes inv: "vm_inv S X xs s" and ri: "(r, i) \<in> live S s"
  shows "pp_ref s (tab s r i) = 1" and "refs S s (tab s r i) = {}" and "tab s r i \<notin> set xs"
proof -
  have t: "tab s r i \<in> tables S s" by (rule tablesI [OF ri])
  show none: "refs S s (tab s r i) = {}"
    using vm_invD(5) [OF inv] t by (fastforce simp: refs_def data_ok_def)
  have "unat (pp_ref s (tab s r i)) = 1"
    using vm_invD(6) [OF inv] t none table_not_root(2,3) [OF vm_invD(3) [OF inv] t]
    by (simp add: refs_ok_def)
  then show "pp_ref s (tab s r i) = 1" by (simp add: word_unat_eq_iff)
  show "tab s r i \<notin> set xs"
    using free_page_unused(3) [OF inv] t by blast
qed

lemma unlink_table_view:
  assumes inv: "vm_inv S X xs s" and ri: "(r, i) \<in> live S s" and S: "(r', i') \<in> S"
    and empty: "\<forall>j < 1024. pte_at s r i j = None"
  shows "pmem (unlink_table r i s) r' i' = (if (r', i') = (r, i) then 0 else pmem s r' i')"
    and "(r', i') \<noteq> (r, i) \<Longrightarrow> tab (unlink_table r i s) r' i' = tab s r' i'"
    and "j < 1024 \<Longrightarrow> pte_at (unlink_table r i s) r' i' j = pte_at s r' i' j"
proof -
  show pd: "pmem (unlink_table r i s) r' i' = (if (r', i') = (r, i) then 0 else pmem s r' i')"
    by auto
  show tb: "tab (unlink_table r i s) r' i' = tab s r' i'" if "(r', i') \<noteq> (r, i)"
    using that pd by (auto simp: tab_def)
  assume j: "j < 1024"
  show "pte_at (unlink_table r i s) r' i' j = pte_at s r' i' j"
  proof (cases "(r', i') = (r, i)")
    case True
    then show ?thesis using pd empty j by (auto simp: pte_at_def)
  next
    case False
    have "tab s r' i' \<noteq> r" if "valid (pmem s r' i')"
      using table_not_root(1) [OF vm_invD(3) [OF inv] tablesI, of r' i'] that S ri
      by (force simp: live_def)
    then show ?thesis using False pd tb [OF False] by (auto simp: pte_at_def)
  qed
qed

lemma unlink_table_tables:
  assumes inv: "vm_inv S X xs s" and ri: "(r, i) \<in> live S s"
    and empty: "\<forall>j < 1024. pte_at s r i j = None"
  shows "live S (unlink_table r i s) = live S s - {(r, i)}"
    and "tables S (unlink_table r i s) = tables S s - {tab s r i}"
proof -
  show l: "live S (unlink_table r i s) = live S s - {(r, i)}"
    using unlink_table_view(1) [OF inv ri _ empty] by (auto simp: live_def split: if_splits)
  have "(\<lambda>(r', i'). tab (unlink_table r i s) r' i') ` (live S s - {(r, i)}) =
      (\<lambda>(r', i'). tab s r' i') ` (live S s - {(r, i)})"
  proof (rule image_cong [OF refl])
    fix x assume "x \<in> live S s - {(r, i)}"
    then show "(case x of (r', i') \<Rightarrow> tab (unlink_table r i s) r' i') = (case x of (r', i') \<Rightarrow> tab s r' i')"
      using unlink_table_view(2) [OF inv ri _ empty] by (cases x) (auto simp: live_def)
  qed
  also have "\<dots> = tables S s - {tab s r i}"
    using tab_eq_iff [OF vm_invD(3) [OF inv] _ ri] by (auto simp: tables_def)
  finally show "tables S (unlink_table r i s) = tables S s - {tab s r i}"
    by (simp add: tables_def l)
qed

lemma unlink_table_inv:
  assumes inv: "vm_inv S X xs s" and ri: "(r, i) \<in> live S s"
    and empty: "\<forall>j < 1024. pte_at s r i j = None"
  shows "vm_inv S X (tab s r i # xs) (unlink_table r i s)"
proof -
  let ?s = "unlink_table r i s" and ?t = "tab s r i"
  note view = unlink_table_view [OF inv ri _ empty] and tbl = unlink_table_tables [OF inv ri empty]
  have t: "?t < unat (npage s)" "X ?t = 0" using slots_ok_tab [OF vm_invD(3) [OF inv] ri] by auto
  have rf: "refs S ?s p = refs S s p" for p using view(3) by (auto simp: refs_points)
  have "free_ok (?t # xs) ?s"
    using vm_invD(4) [OF inv] table_ref(3) [OF inv ri] t(1) LIST_INSERT_HEAD_rep
    by (auto simp: free_ok_def)
  moreover have "slots_ok S X ?s"
  proof -
    have "inj_on (\<lambda>(r, i). tab ?s r i) (live S ?s) = inj_on (\<lambda>(r, i). tab s r i) (live S ?s)"
      unfolding tbl(1) by (rule inj_on_cong) (use view(2) in \<open>auto dest: liveD\<close>)
    also have "\<dots>" using vm_invD(3) [OF inv] by (auto simp: slots_ok_def tbl(1) intro: inj_on_subset)
    finally have "inj_on (\<lambda>(r, i). tab ?s r i) (live S ?s)" .
    moreover have "tab ?s r' i' = tab s r' i'" if "(r', i') \<in> live S ?s" for r' i'
      using that view(2) unfolding tbl(1) by (auto dest: liveD)
    moreover have "(r', i') \<in> live S s" if "(r', i') \<in> live S ?s" for r' i'
      using that tbl(1) by auto
    ultimately show ?thesis
      using vm_invD(3) [OF inv] slots_ok_tab [OF vm_invD(3) [OF inv]]
      by (auto simp: slots_ok_def)
  qed
  moreover have "data_ok S ?s"
    using vm_invD(5) [OF inv] view(3) unfolding data_ok_def tbl(2) unlink_table_sel(1)
    by (metis DiffD1)
  moreover have "refs_ok S X ?s"
    using vm_invD(6) [OF inv] table_ref(2) [OF inv ri] t by (simp add: refs_ok_def tbl(2) rf)
  ultimately show ?thesis by (simp add: vm_inv_def)
qed

text \<open>The body of the outer loop of \<^verbatim>\<open>env_free\<close>.\<close>

lemma unlink_table_no_leak: "no_leak xs s \<Longrightarrow> no_leak (tab s r i # xs) (unlink_table r i s)"
  by (auto simp: no_leak_def)

lemma unlink_code:
  assumes inv: "vm_inv S X xs s" and ri: "(r, i) \<in> live S s"
  shows "do { s2 \<leftarrow> kstore (pgdir_kva r + of_nat i * 4) 0 s;
      pp \<leftarrow> pa2page (npage s2) (PTE_ADDR (pmem s r i));
      s3 \<leftarrow> page_decref pp s2;
      Some (tlb_invalidate asid va s3) } = Some (tlb_invalidate asid va (unlink_table r i s))"
proof -
  have S: "(r, i) \<in> S" using ri by (simp add: live_def)
  note slot = slots_okD [OF vm_invD(3) [OF inv] S]
  have t: "tab s r i < unat (npage s)" by (rule slots_ok_tab(1) [OF vm_invD(3) [OF inv] ri])
  have "pa2page (npage s) (PTE_ADDR (pmem s r i)) = Some (tab s r i)"
    using t vm_invD(1) [OF inv] by (simp add: PTE_ADDR_page pa2page_page2pa tab_def)
  then show ?thesis
    using kload_entry_nat(2) [OF slot(1) vm_invD(1) [OF inv] slot(2), of 0] table_ref(1) [OF inv ri]
    by (simp add: page_decref_def page_free_def unlink_table_def Let_def)
qed

lemma PTX_all: "unat (PTX (- 1)) = 1023"
  by (simp add: unat_PTX unsigned_minus_1_eq_mask mask_eq_exp_minus_1)

lemma free_pde_ok:
  assumes inv: "vm_inv S X xs s" and leak: "no_leak xs s" and S: "(r, i) \<in> S"
  shows "\<exists>s' xs'. free_pde (pgdir_kva r) asid i s = Some s' \<and> vm_inv S X xs' s' \<and>
    no_leak xs' s' \<and> same_rest s s' \<and> \<not> valid (pmem s' r i) \<and>
    (\<forall>(r', i') \<in> S. (r', i') \<noteq> (r, i) \<longrightarrow> pmem s' r' i' = pmem s r' i') \<and>
    (\<forall>(r', i') \<in> S. \<forall>j < 1024. pte_at s' r' i' j =
       (if (r', i') = (r, i) then None else pte_at s r' i' j))"
proof -
  note slot = slots_okD [OF vm_invD(3) [OF inv] S]
  have ld: "kload s (pgdir_kva r + of_nat i * 4) = Some (pmem s r i)"
    by (rule kload_entry_nat(1) [OF slot(1) vm_invD(1) [OF inv] slot(2)])
  show ?thesis
  proof (cases "valid (pmem s r i)")
    case False
    then have "free_pde (pgdir_kva r) asid i s = Some s"
      using ld by (simp add: free_pde_def valid_def)
    then show ?thesis
      using inv leak False by (auto simp: pte_at_def intro!: exI [of _ s])
  next
    case True
    then have ri: "(r, i) \<in> live S s" using S by (simp add: live_def)
    have ti: "table_inv S X r i s s" using inv leak ri by (auto simp: table_inv_def)
    obtain s1 where s1: "fold_opt (free_pte (pgdir_kva r) asid (pgdir_kva (tab s r i)) i) [0..<1024] s
        = Some s1" "table_inv S X r i s s1" "\<forall>k. look_in S s1 k = (if fst k = r \<and>
        fst (snd k) = i \<and> snd (snd k) < 1024 then None else look_in S s k)"
      using free_table_entries [OF ti, of asid] by blast
    obtain ys where ys: "vm_inv S X ys s1" "no_leak ys s1" and ri1: "(r, i) \<in> live S s1"
      and rest: "same_rest s s1" and pd: "\<forall>(r', i') \<in> S. pmem s1 r' i' = pmem s r' i'"
      using s1(2) by (auto simp: table_inv_def)
    have empty: "\<forall>j < 1024. pte_at s1 r i j = None"
    proof (intro allI impI)
      fix j :: nat assume "j < 1024"
      then show "pte_at s1 r i j = None"
        using s1(3) [rule_format, of "(r, i, j)"] S by (simp add: look_in_def)
    qed
    let ?s' = "tlb_invalidate asid (UVPT + push_bit 12 (of_nat i)) (unlink_table r i s1)"
    note view = unlink_table_view [OF ys(1) ri1 _ empty]
    have "free_pde (pgdir_kva r) asid i s = Some ?s'"
    proof -
      have "KADDR (npage s) (PTE_ADDR (pmem s r i)) = Some (pgdir_kva (tab s r i))"
        using slots_ok_tab(1) [OF vm_invD(3) [OF inv] ri] by (simp add: KADDR_entry tab_def)
      moreover have "pmem s1 r i = pmem s r i" using pd S by auto
      ultimately show ?thesis
        using ld True unlink_code [OF ys(1) ri1, of asid "UVPT + push_bit 12 (of_nat i)"] s1(1)
        by (simp add: free_pde_def valid_def PTX_all del: upt_Suc)
    qed
    moreover have "vm_inv S X (tab s1 r i # ys) ?s'"
      using unlink_table_inv [OF ys(1) ri1 empty] by (simp add: vm_inv_tlb)
    moreover have "no_leak (tab s1 r i # ys) ?s'"
      using unlink_table_no_leak [OF ys(2)] by (simp add: no_leak_def)
    moreover have "same_rest s ?s'"
      using rest by (simp add: rest_simps unlink_table_def)
    moreover have "\<not> valid (pmem ?s' r i)" by simp
    moreover have "\<forall>(r', i') \<in> S. (r', i') \<noteq> (r, i) \<longrightarrow> pmem ?s' r' i' = pmem s r' i'"
      using view(1) pd by auto
    moreover have "\<forall>(r', i') \<in> S. \<forall>j < 1024. pte_at ?s' r' i' j =
        (if (r', i') = (r, i) then None else pte_at s r' i' j)"
    proof -
      have "pte_at s1 r' i' j = pte_at s r' i' j" if "(r', i') \<in> S" "(r', i') \<noteq> (r, i)" for r' i' j
        using s1(3) [rule_format, of "(r', i', j)"] that by (auto simp: look_in_def)
      then show ?thesis using view(3) empty by (auto simp: vm_inv_tlb)
    qed
    ultimately show ?thesis by blast
  qed
qed

section \<open>Releasing a directory\<close>

definition space_inv :: "(nat \<times> nat) set \<Rightarrow> (nat \<Rightarrow> nat) \<Rightarrow> ('z) pmap_state_scheme \<Rightarrow> bool" where
  "space_inv S X s \<longleftrightarrow> (\<exists>xs. vm_inv S X xs s \<and> no_leak xs s)"

text \<open>\<open>s'\<close> has the mappings of \<open>s\<close> in every directory but \<open>r\<close>.\<close>

definition others_kept :: "(nat \<times> nat) set \<Rightarrow> nat \<Rightarrow> ('z) pmap_state_scheme \<Rightarrow>
    ('z) pmap_state_scheme \<Rightarrow> bool" where
  "others_kept S r s s' \<longleftrightarrow> (\<forall>(r', i) \<in> S. r' \<noteq> r \<longrightarrow> (\<forall>j < 1024. pte_at s' r' i j = pte_at s r' i j))"

lemma free_all_tables:
  assumes inv: "space_inv S X s" and own: "\<And>i. i < n \<Longrightarrow> (r, i) \<in> S"
  shows "\<exists>s'. fold_opt (free_pde (pgdir_kva r) asid) [0..<n] s = Some s' \<and> space_inv S X s' \<and>
    same_rest s s' \<and> (\<forall>i < n. \<not> valid (pmem s' r i)) \<and> others_kept S r s s'"
proof -
  let ?I = "\<lambda>k s'. space_inv S X s' \<and> same_rest s s' \<and> (\<forall>i < k. \<not> valid (pmem s' r i)) \<and>
    others_kept S r s s'"
  have "\<exists>s'. fold_opt (free_pde (pgdir_kva r) asid) [0..<n] s = Some s' \<and> ?I (length [0..<n]) s'"
  proof (rule fold_opt_inv [where I = ?I])
    show "?I 0 s" using inv by (simp add: others_kept_def)
    fix k s1 assume k: "k < length [0..<n]" and I: "?I k s1"
    then have S: "(r, k) \<in> S" using own by simp
    obtain xs where xs: "vm_inv S X xs s1" "no_leak xs s1" using I by (auto simp: space_inv_def)
    obtain s2 ys where s2: "free_pde (pgdir_kva r) asid k s1 = Some s2" "vm_inv S X ys s2"
      "no_leak ys s2" "same_rest s1 s2" "\<not> valid (pmem s2 r k)"
      "\<forall>(r', i') \<in> S. (r', i') \<noteq> (r, k) \<longrightarrow> pmem s2 r' i' = pmem s1 r' i'"
      "\<forall>(r', i') \<in> S. \<forall>j < 1024. pte_at s2 r' i' j =
         (if (r', i') = (r, k) then None else pte_at s1 r' i' j)"
      using free_pde_ok [OF xs S, of asid] by blast
    have "\<not> valid (pmem s2 r i)" if "i < Suc k" for i
    proof (cases "i = k")
      case False
      then have "i < k" using that by simp
      moreover have "pmem s2 r i = pmem s1 r i"
        using s2(6) own [of i] \<open>i < k\<close> k False by auto
      ultimately show ?thesis using I by simp
    qed (use s2(5) in simp)
    moreover have "others_kept S r s s2"
    proof -
      have "pte_at s2 r' i' j = pte_at s r' i' j" if "(r', i') \<in> S" "r' \<noteq> r" "j < 1024" for r' i' j
      proof -
        have "pte_at s2 r' i' j = pte_at s1 r' i' j" using s2(7) that by auto
        also have "\<dots> = pte_at s r' i' j" using I that unfolding others_kept_def by auto
        finally show ?thesis .
      qed
      then show ?thesis by (auto simp: others_kept_def)
    qed
    moreover have "space_inv S X s2" using s2(2,3) by (auto simp: space_inv_def)
    moreover have "same_rest s s2" using I s2(4) by (blast intro: same_rest_trans)
    ultimately show "\<exists>s'. free_pde (pgdir_kva r) asid ([0..<n] ! k) s1 = Some s' \<and> ?I (Suc k) s'"
      using s2(1) k by auto
  qed
  then show ?thesis by simp
qed

lemma drop_root_views:
  assumes "\<And>i. (r, i) \<in> S \<Longrightarrow> \<not> valid (pmem s r i)"
  shows "live {x \<in> S. fst x \<noteq> r} s = live S s" and "tables {x \<in> S. fst x \<noteq> r} s = tables S s"
    and "refs {x \<in> S. fst x \<noteq> r} s p = refs S s p"
proof -
  show l: "live {x \<in> S. fst x \<noteq> r} s = live S s" using assms by (auto simp: live_def)
  show "tables {x \<in> S. fst x \<noteq> r} s = tables S s" by (simp add: tables_def l)
  show "refs {x \<in> S. fst x \<noteq> r} s p = refs S s p"
    using assms by (auto simp: refs_def pte_at_def split: if_splits)
qed

lemma drop_root_inv:
  assumes inv: "vm_inv S X xs s" and leak: "no_leak xs s" and r: "r \<in> fst ` S" "X r = 1"
    and empty: "\<And>i. (r, i) \<in> S \<Longrightarrow> \<not> valid (pmem s r i)"
  shows "\<exists>s'. page_decref r s = Some s' \<and> same_rest s s' \<and> pmem s' = pmem s \<and> tlb s' = tlb s \<and>
    vm_inv {x \<in> S. fst x \<noteq> r} (X(r := 0)) (r # xs) s' \<and> no_leak (r # xs) s'"
proof -
  let ?S = "{x \<in> S. fst x \<noteq> r}"
  note v = drop_root_views [OF empty]
  have np: "r < unat (npage s)" using r(1) slots_okD(1) [OF vm_invD(3) [OF inv]] by force
  have rt: "r \<notin> tables S s" using table_not_root(1) [OF vm_invD(3) [OF inv]] r(1) by blast
  have none: "refs S s r = {}"
  proof -
    have "(a, b, c) \<notin> refs S s r" for a b c
      using vm_invD(5) [OF inv] r(1) unfolding data_ok_def refs_points points_def by blast
    then show ?thesis by auto
  qed
  then have "unat (pp_ref s r) = 1"
    using vm_invD(6) [OF inv] np rt r(2) by (simp add: refs_ok_def)
  then have one: "pp_ref s r = 1" by (simp add: word_unat_eq_iff)
  then have "r \<notin> set xs" using vm_invD(4) [OF inv] by (auto simp: free_ok_def)
  obtain s' where s': "page_decref r s = Some s'" "free_ok (r # xs) s'" "pmem s' = pmem s"
    "npage s' = npage s" "tlb s' = tlb s" "pp_ref s' = (pp_ref s)(r := 0)"
    using page_decref_free [OF vm_invD(4) [OF inv], of r] one np by auto
  have t: "tab s' = tab s" "pte_at s' = pte_at s"
    by (auto simp: tab_def pte_at_def s' fun_eq_iff)
  have l: "live ?S s' = live S s" using v(1) by (simp add: live_def s')
  have tb: "tables ?S s' = tables S s" using v(2) l by (simp add: tables_def t)
  have rf: "refs ?S s' p = refs S s p" for p using v(3) by (simp add: refs_def t)
  have "slots_ok ?S (X(r := 0)) s'"
    using vm_invD(3) [OF inv] by (auto simp: slots_ok_def l t s')
  moreover have "data_ok ?S s'"
    using vm_invD(5) [OF inv] unfolding data_ok_def tb t s'(4) by fastforce
  moreover have "refs_ok ?S (X(r := 0)) s'"
    using vm_invD(6) [OF inv] rt none by (simp add: refs_ok_def tb rf s')
  moreover have "no_leak (r # xs) s'" using leak by (auto simp: no_leak_def s')
  ultimately show ?thesis
    using s' page_decref_rest [OF s'(1)] by (auto simp: vm_inv_def)
qed

section \<open>The state after boot\<close>

text \<open>With no table linked, the invariant is about the free list and the counts only.\<close>

lemma vm_inv_no_tables:
  assumes "free_ok xs s" and "finite S" and "\<forall>(r, i) \<in> S. r < unat (npage s) \<and> i < 1024 \<and> 0 < X r"
    and empty: "live S s = {}" and "\<forall>p < unat (npage s). unat (pp_ref s p) = X p"
  shows "vm_inv S X xs s"
proof -
  have "pte_at s r i j = None" if "(r, i) \<in> S" for r i j
    using empty that by (auto simp: live_def pte_at_def)
  then have "refs S s p = {}" and "data_ok S s" for p
    by (auto simp: refs_def data_ok_def)
  moreover have "tables S s = {}" by (simp add: tables_def empty)
  ultimately show ?thesis
    using assms by (simp add: vm_inv_def slots_ok_def refs_ok_def)
qed

lemma page_init_loops:
  "fold (\<lambda>i s. s\<lparr>pp_ref := (pp_ref s)(i := 1)\<rparr>) xs s =
     s\<lparr>pp_ref := (\<lambda>p. if p \<in> set xs then 1 else pp_ref s p)\<rparr>"
  "fold (\<lambda>i s. s\<lparr>pp_ref := (pp_ref s)(i := 0),
       page_free_list := LIST_INSERT_HEAD i (page_free_list s)\<rparr>) xs s =
     s\<lparr>pp_ref := (\<lambda>p. if p \<in> set xs then 0 else pp_ref s p),
       page_free_list := fold LIST_INSERT_HEAD xs (page_free_list s)\<rparr>"
  by (induction xs arbitrary: s) (auto intro!: pmap_state.equality)

lemma page_init_inv:
  assumes np: "unat (npage s) \<le> 131072" and pa: "PADDR (ROUND (freemem s) BY2PG) = Some pa"
    and fit: "unat pa div 4096 \<le> unat (npage s)"
  shows "\<exists>s'. page_init s = Some s' \<and> npage s' = npage s \<and>
    vm_inv {} (\<lambda>p. if p < unat pa div 4096 then 1 else 0) (rev [unat pa div 4096..<unat (npage s)]) s' \<and>
    no_leak (rev [unat pa div 4096..<unat (npage s)]) s'"
proof -
  let ?t = "unat pa div 4096" and ?n = "unat (npage s)"
  define s' where "s' = s\<lparr>page_free_list := fold LIST_INSERT_HEAD [?t..<?n] (LIST_INIT (page_free_list s)),
      freemem := ROUND (freemem s) BY2PG,
      pp_ref := (\<lambda>p. if p \<in> {?t..<?n} then 0 else if p < ?t then 1 else pp_ref s p)\<rparr>"
  have "page_init s = Some s'"
    using pa by (simp add: page_init_def page_init_loops Let_def s'_def cong: if_cong)
  moreover have "list_rep (page_free_list s') (rev [?t..<?n])"
    using lq.push_all [OF LIST_INIT_rep, of "[?t..<?n]" "page_free_list s"] by (simp add: s'_def)
  then have "free_ok (rev [?t..<?n]) s'" using np by (auto simp: free_ok_def s'_def)
  then have "vm_inv {} (\<lambda>p. if p < ?t then 1 else 0) (rev [?t..<?n]) s'"
    by (rule vm_inv_no_tables) (auto simp: live_def s'_def)
  moreover have "no_leak (rev [?t..<?n]) s'" using fit by (auto simp: no_leak_def s'_def)
  moreover have "npage s' = npage s" by (simp add: s'_def)
  ultimately show ?thesis by blast
qed

lemma fold_opt_rest:
  assumes "\<And>x s s'. f x s = Some s' \<Longrightarrow> same_rest s s'" and "fold_opt f xs s = Some s'"
  shows "same_rest s s'"
  using assms(2)
proof (induction xs arbitrary: s)
  case (Cons x xs)
  from Cons.prems obtain s1 where s1: "f x s = Some s1" "fold_opt f xs s1 = Some s'"
    by (auto elim!: bind_eq_SomeD)
  show ?case by (rule same_rest_trans [OF assms(1) [OF s1(1)] Cons.IH [OF s1(2)]])
qed simp

lemma free_pte_rest: "free_pte pgdir asid pt i j s = Some s' \<Longrightarrow> same_rest s s'"
  by (auto simp: free_pte_def elim!: bind_eq_SomeD split: if_splits dest!: page_remove_rest)

lemma free_ptes_rest: "fold_opt (free_pte pgdir asid pt i) js s = Some s' \<Longrightarrow> same_rest s s'"
  by (rule fold_opt_rest) (rule free_pte_rest)

lemma free_pde_rest: "free_pde pgdir asid i s = Some s' \<Longrightarrow> same_rest s s'"
  unfolding free_pde_def Let_def
  by (auto simp: rest_simps elim!: bind_eq_SomeD split: if_splits
      dest!: free_ptes_rest kstore_rest page_decref_rest)

lemma free_pdes_rest: "fold_opt (free_pde pgdir asid) js s = Some s' \<Longrightarrow> same_rest s s'"
  by (rule fold_opt_rest) (rule free_pde_rest)

end
