(* ===== verification/Env_Inv.thy ===== *)
theory Env_Inv
  imports Sched Vm_Space
begin

text \<open>
  The invariant of the kernel's environments: every allocated environment has its own
  page directory and address space identifier, the page tables satisfy the invariant of
  \<^verbatim>\<open>Vm_Inv\<close>, and no page is lost.  \<^verbatim>\<open>env_setup_vm\<close> and \<^verbatim>\<open>env_alloc\<close> extend it by one
  environment, \<^verbatim>\<open>env_free\<close> takes one away and returns all its memory.
\<close>

section \<open>The invariant\<close>

text \<open>
  \<open>R\<close> are the directories of environments, which own their entries below \<^verbatim>\<open>UTOP\<close>; the
  template directory \<open>b\<close> owns the entries of \<^verbatim>\<open>UENVS\<close> and \<^verbatim>\<open>UPAGES\<close>, which the others copy.
\<close>

definition dir_slots :: "nat set \<Rightarrow> nat \<Rightarrow> (nat \<times> nat) set" where
  "dir_slots R b = R \<times> {..<509} \<union> {b} \<times> {509, 510}"

definition dir_refs :: "nat set \<Rightarrow> nat \<Rightarrow> (nat \<Rightarrow> nat) \<Rightarrow> nat \<Rightarrow> nat" where
  "dir_refs R b K p = K p + (if p \<in> insert b R then 1 else 0)"

text \<open>
  \<open>A\<close> are the allocated environments, \<open>rt e\<close> is the directory of \<open>e\<close>, and \<open>K\<close> counts the
  references the boot code holds.
\<close>

definition kern_inv :: "nat set \<Rightarrow> (nat \<Rightarrow> nat) \<Rightarrow> nat \<Rightarrow> (nat \<Rightarrow> nat) \<Rightarrow> kstate \<Rightarrow> bool" where
  "kern_inv A rt b K s \<longleftrightarrow> A \<subseteq> {..<NENV} \<and> inj_on rt A \<and> b \<notin> rt ` A \<and>
     (\<forall>p \<in> insert b (rt ` A). K p = 0) \<and>
     (\<forall>e \<in> A. env_pgdir (envs s e) = pgdir_kva (rt e) \<and> unat (env_asid (envs s e)) \<in> asids s) \<and>
     inj_on (\<lambda>e. env_asid (envs s e)) A \<and>
     base_pgdir s = pgdir_kva b \<and>
     space_inv (dir_slots (rt ` A) b) (dir_refs (rt ` A) b K) s"

lemma PDX_layout [simp]: "unat (PDX UTOP) = 509" "unat (PDX UVPT) = 511"
  "PDX UTOP = 509" "PDX UVPT = 511"
  by (simp_all add: word_unat_eq_iff unat_PDX mmu_layout)

lemma PDX_user: "va < UTOP \<Longrightarrow> unat (PDX va) < 509"
  by (simp add: unat_PDX word_less_nat_alt mmu_layout)

lemma dir_slots_fst: "fst ` dir_slots R b = insert b R"
proof -
  have "{..<509 :: nat} \<noteq> {}" by (simp add: lessThan_empty_iff)
  then show ?thesis by (simp add: dir_slots_def image_Un fst_image_times)
qed

lemma dir_slots_drop: "r \<noteq> b \<Longrightarrow> {x \<in> dir_slots R b. fst x \<noteq> r} = dir_slots (R - {r}) b"
  by (auto simp: dir_slots_def)

lemma kstate_rest:
  fixes s s' :: kstate
  assumes "same_rest s s'"
  shows "envs s' = envs s" "curenv s' = curenv s" "env_free_list s' = env_free_list s"
    "env_sched_list s' = env_sched_list s" "base_pgdir s' = base_pgdir s"
    "cur_pgdir s' = cur_pgdir s" "asid_bitmap s' = asid_bitmap s" "mkenvid_i s' = mkenvid_i s"
    "sched_count s' = sched_count s" "kstack_tf s' = kstack_tf s" "asids s' = asids s"
    "dev_hist s' = dev_hist s"
  using assms by (cases s; cases s'; simp add: same_rest_def asids_def)+

lemma pgdir_kva_inject:
  assumes "r < 524288" and "r' < 524288" and "pgdir_kva r = pgdir_kva r'"
  shows "r = r'"
proof -
  have "unat (pgdir_kva r) = unat (pgdir_kva r')" using assms(3) by simp
  then show ?thesis using assms(1,2) by (simp add: pgdir_kva_def unat_page_kva)
qed

lemma pgdir_page:
  assumes "r < unat np" and "unat np \<le> 131072"
  shows "PADDR (pgdir_kva r) = Some (page2pa r)" and "pa2page np (page2pa r) = Some r"
proof -
  have "unat (pgdir_kva r) = 2147483648 + r * 4096"
    using assms by (simp add: pgdir_kva_def unat_page_kva)
  then show "PADDR (pgdir_kva r) = Some (page2pa r)"
    by (simp add: PADDR_def word_less_nat_alt ULIM_def) (simp add: pgdir_kva_def ULIM_def)
  show "pa2page np (page2pa r) = Some r" using assms by (simp add: pa2page_page2pa)
qed

text \<open>The invariant does not depend on the fields a function outside the list changes.\<close>

lemma space_inv_cong:
  assumes "npage s' = npage s" and "pp_ref s' = pp_ref s"
    and "page_free_list s' = page_free_list s" and "pmem s' = pmem s"
  shows "space_inv S X s' = space_inv S X s"
  by (simp add: space_inv_def vm_inv_cong(1) [OF assms] no_leak_def assms)

section \<open>Freeing an environment\<close>

lemma env_free_space:
  assumes inv: "kern_inv A rt b K s" and e: "e \<in> A"
  shows "\<exists>s2. do { s1 \<leftarrow> fold_opt (free_pde (env_pgdir (envs s e)) (env_asid (envs s e))) [0..<unat (PDX UTOP)] s;
      pa \<leftarrow> PADDR (env_pgdir (envs s e)); pp \<leftarrow> pa2page (npage s1) pa; page_decref pp s1 } = Some s2 \<and>
    space_inv (dir_slots (rt ` (A - {e})) b) (dir_refs (rt ` (A - {e})) b K) s2 \<and> same_rest s s2 \<and>
    others_kept (dir_slots (rt ` A) b) (rt e) s s2"
proof -
  let ?S = "dir_slots (rt ` A) b" and ?X = "dir_refs (rt ` A) b K" and ?r = "rt e"
  have sp: "space_inv ?S ?X s" and dir: "env_pgdir (envs s e) = pgdir_kva ?r"
    and inj: "inj_on rt A" and b: "b \<notin> rt ` A" and K: "K ?r = 0"
    using inv e by (auto simp: kern_inv_def)
  have own: "(?r, i) \<in> ?S" if "i < 509" for i using e that by (simp add: dir_slots_def)
  obtain s1 where s1: "fold_opt (free_pde (pgdir_kva ?r) (env_asid (envs s e))) [0..<509] s = Some s1"
    "space_inv ?S ?X s1" "same_rest s s1" "\<forall>i < 509. \<not> valid (pmem s1 ?r i)"
    "others_kept ?S ?r s s1"
    using free_all_tables [OF sp own, of 509] by blast
  obtain xs where xs: "vm_inv ?S ?X xs s1" "no_leak xs s1" using s1(2) by (auto simp: space_inv_def)
  have root: "?r \<in> fst ` ?S" using e by (simp add: dir_slots_fst)
  have np: "?r < unat (npage s1)" "unat (npage s1) \<le> 131072"
    using slots_okD(1) [OF vm_invD(3) [OF xs(1)] own [of 0]] vm_invD(1) [OF xs(1)] by auto
  have X1: "?X ?r = 1" using e K by (simp add: dir_refs_def)
  have "?r \<noteq> b" using b e by blast
  then have empty: "\<not> valid (pmem s1 ?r i)" if "(?r, i) \<in> ?S" for i
    using s1(4) that by (auto simp: dir_slots_def)
  obtain s2 where s2: "page_decref ?r s1 = Some s2" "same_rest s1 s2" "pmem s2 = pmem s1"
    "vm_inv {x \<in> ?S. fst x \<noteq> ?r} (?X(?r := 0)) (?r # xs) s2" "no_leak (?r # xs) s2"
    using drop_root_inv [OF xs root X1 empty] by blast
  have S: "{x \<in> ?S. fst x \<noteq> ?r} = dir_slots (rt ` (A - {e})) b"
    using dir_slots_drop [OF \<open>?r \<noteq> b\<close>] inj e by (simp add: inj_on_image_set_diff)
  have X: "?X(?r := 0) = dir_refs (rt ` (A - {e})) b K"
    using \<open>?r \<noteq> b\<close> K inj e by (auto simp: dir_refs_def fun_eq_iff inj_on_image_set_diff)
  have "pte_at s2 = pte_at s1" by (auto simp: pte_at_def tab_def s2(3) fun_eq_iff)
  then have "others_kept ?S ?r s s2" using s1(5) by (simp add: others_kept_def)
  moreover have "space_inv (dir_slots (rt ` (A - {e})) b) (dir_refs (rt ` (A - {e})) b K) s2"
    using s2(4,5) unfolding S X space_inv_def by blast
  ultimately show ?thesis
    using s1(1,3) s2(1,2) pgdir_page [OF np] by (auto simp: dir intro: same_rest_trans)
qed

lemma env_free_ok:
  assumes inv: "kern_inv A rt b K s" and lists: "env_lists fl q s" and e: "e \<in> A" "e \<in> set q"
  shows "\<exists>s'. env_free e s = Some s' \<and> kern_inv (A - {e}) rt b K s' \<and>
    env_lists (e # fl) (remove1 e q) s' \<and> asids s' = asids s - {unat (env_asid (envs s e))} \<and>
    others_kept (dir_slots (rt ` A) b) (rt e) s s' \<and> curenv s' = curenv s \<and>
    envs s' = (envs s)(e := (envs s e)\<lparr>env_status := ENV_FREE\<rparr>)"
proof -
  let ?pg = "env_pgdir (envs s e)" and ?as = "env_asid (envs s e)"
  obtain s2 where code: "do { s1 \<leftarrow> fold_opt (free_pde ?pg ?as) [0..<unat (PDX UTOP)] s;
      pa \<leftarrow> PADDR ?pg; pp \<leftarrow> pa2page (npage s1) pa; page_decref pp s1 } = Some s2"
    and sp: "space_inv (dir_slots (rt ` (A - {e})) b) (dir_refs (rt ` (A - {e})) b K) s2"
    and rest: "same_rest s s2" and oth: "others_kept (dir_slots (rt ` A) b) (rt e) s s2"
    using env_free_space [OF inv e(1)] by blast
  note r = kstate_rest [OF rest]
  obtain qq where qq: "TAILQ_REMOVE e (env_sched_list s) = Some qq" "tailq_rep qq (remove1 e q)"
    using TAILQ_REMOVE_rep [OF env_listsD(2) [OF lists] e(2)] by blast
  define s' where "s' = (upd_env e (\<lambda>v. v\<lparr>env_status := ENV_FREE\<rparr>) (tlb_invalidate ?as
      (UVPT + push_bit 12 (PDX UVPT)) (asid_free ?as s2)))\<lparr>
      env_free_list := LIST_INSERT_HEAD e (env_free_list s), env_sched_list := qq\<rparr>"
  have run: "env_free e s = Some s'"
    using code qq(1) r
    by (auto simp: env_free_def s'_def Let_def Option.bind_eq_Some_conv asid_free_def
        tlb_invalidate_def tlb_out_def)
  have sel: "pmem s' = pmem s2" "npage s' = npage s2" "pp_ref s' = pp_ref s2"
    "page_free_list s' = page_free_list s2" "envs s' = (envs s)(e := (envs s e)\<lparr>env_status := ENV_FREE\<rparr>)"
    "curenv s' = curenv s" "base_pgdir s' = base_pgdir s" "env_sched_list s' = qq"
    "env_free_list s' = LIST_INSERT_HEAD e (env_free_list s)"
    by (simp_all add: s'_def asid_free_def tlb_invalidate_def tlb_out_def Let_def r)
  have as: "unat ?as \<in> asids s" using inv e by (auto simp: kern_inv_def)
  then have lt: "unat ?as < NASID" by (simp add: asids_def)
  have asids: "asids s' = asids s - {unat ?as}"
  proof -
    have "asids s' = asids (asid_free ?as s2)"
      by (simp add: s'_def asids_def tlb_invalidate_def tlb_out_def)
    also have "\<dots> = asids s2 - {unat ?as}"
      using asids_free [OF lt, of s2] by simp
    finally show ?thesis by (simp add: r)
  qed
  have kern: "kern_inv (A - {e}) rt b K s'"
  proof -
    have "unat (env_asid (envs s d)) \<noteq> unat ?as" if "d \<in> A - {e}" for d
      using inv e that by (auto simp: kern_inv_def inj_on_def word_unat_eq_iff)
    moreover have as': "(\<lambda>d. env_asid (envs s' d)) = (\<lambda>d. env_asid (envs s d))"
      by (auto simp: sel)
    moreover have "inj_on (\<lambda>d. env_asid (envs s' d)) (A - {e})"
      using inv unfolding as' by (auto simp: kern_inv_def intro: inj_on_subset)
    ultimately show ?thesis
      using inv sp space_inv_cong [of s' s2] sel
      by (auto simp: kern_inv_def asids intro: inj_on_subset)
  qed
  have st: "env_status (envs s e) = ENV_RUNNABLE" "e < NENV"
    using env_listsD(4) [OF lists] e(2) by auto
  then have "e \<notin> set fl" using env_listsD(3) [OF lists] by auto
  then have "list_rep (env_free_list s') (e # fl)"
    using LIST_INSERT_HEAD_rep env_listsD(1) [OF lists] sel by auto
  moreover have "set (remove1 e q) = set q - {e}"
    using tailq_rep_distinct [OF env_listsD(2) [OF lists]] by simp
  ultimately have "env_lists (e # fl) (remove1 e q) s'"
    using lists qq(2) st by (auto simp: env_lists_def sel)
  moreover have "others_kept (dir_slots (rt ` A) b) (rt e) s s'"
    using oth vm_inv_cong(2) [OF sel(2,3,4,1)] by (simp add: others_kept_def)
  ultimately show ?thesis using run kern asids sel by auto
qed

section \<open>Creating an address space\<close>

text \<open>A cleared free page becomes a directory whose entries below \<^verbatim>\<open>UTOP\<close> are empty.\<close>

lemma add_root_inv:
  assumes inv: "vm_inv S X (p # xs) s" and np: "npage s' = npage s"
    and pm: "\<And>q. q \<noteq> p \<Longrightarrow> pmem s' q = pmem s q" and zero: "\<And>i. i < n \<Longrightarrow> \<not> valid (pmem s' p i)"
    and ref: "pp_ref s' = (pp_ref s)(p := 1)" and free: "list_rep (page_free_list s') xs"
    and n: "n \<le> 1024"
  shows "vm_inv (S \<union> {p} \<times> {..<n}) (X(p := 1)) xs s'"
proof -
  let ?S = "S \<union> {p} \<times> {..<n}"
  have p: "p < unat (npage s)" "refs S s p = {}" "p \<notin> tables S s" "X p = 0" "p \<notin> fst ` S"
    using free_page_unused [OF inv, of p] by auto
  note view = frame_view [OF p(5,3) pm]
  have l: "live ?S s' = live S s"
    using view(1) zero by (auto simp: live_def)
  have "(\<lambda>(r, i). tab s' r i) ` live S s = (\<lambda>(r, i). tab s r i) ` live S s"
    by (rule image_cong) (use view(2) in \<open>auto simp: live_def\<close>)
  then have tb: "tables ?S s' = tables S s" by (simp add: tables_def l)
  have rf: "refs ?S s' q = refs S s q" for q
  proof -
    have "pte_at s' p i j = None" if "i < n" for i j using zero that by (simp add: pte_at_def)
    then show ?thesis using view(3) by (auto simp: refs_points)
  qed
  have dist: "p \<notin> set xs" using vm_invD(2) [OF inv] by (simp add: list_rep_def)
  have "free_ok xs s'"
    using vm_invD(4) [OF inv] free dist by (auto simp: free_ok_def np ref)
  moreover have "slots_ok ?S (X(p := 1)) s'"
  proof -
    have other: "tab s' r i = tab s r i" "tab s r i \<noteq> p" if "(r, i) \<in> live S s" for r i
      using that view(2) p(3) tablesI [OF that] by (auto simp: live_def)
    have "inj_on (\<lambda>(r, i). tab s' r i) (live S s) = inj_on (\<lambda>(r, i). tab s r i) (live S s)"
      by (rule inj_on_cong) (use other in auto)
    then show ?thesis
      using vm_invD(3) [OF inv] p n other slots_ok_tab [OF vm_invD(3) [OF inv]]
      by (auto simp: slots_ok_def l np dest: tablesI)
  qed
  moreover have "data_ok ?S s'"
    unfolding data_ok_def tb np
  proof (intro allI impI)
    fix r i j e assume *: "(r, i) \<in> ?S" "j < 1024" "pte_at s' r i j = Some e"
    then have S: "(r, i) \<in> S" using zero by (auto simp: pte_at_def split: if_splits)
    then have e: "pte_at s r i j = Some e" using * view(3) by simp
    then have "pte_page e \<noteq> p" using S * p(2) by (auto simp: refs_def)
    moreover have "fst ` ?S \<subseteq> insert p (fst ` S)" by auto
    ultimately show "pte_page e < unat (npage s) \<and> pte_page e \<notin> tables S s \<and> pte_page e \<notin> fst ` ?S"
      using vm_invD(5) [OF inv] S * e unfolding data_ok_def by blast
  qed
  moreover have "refs_ok ?S (X(p := 1)) s'"
    using vm_invD(6) [OF inv] p by (simp add: refs_ok_def tb rf np ref)
  ultimately show ?thesis by (simp add: vm_inv_def)
qed

lemma add_root_kept:
  assumes inv: "vm_inv S X (p # xs) s" and "\<And>q. q \<noteq> p \<Longrightarrow> pmem s' q = pmem s q"
  shows "\<forall>(r, i) \<in> S. \<forall>j. pte_at s' r i j = pte_at s r i j"
  using frame_view(3) [OF _ _ assms(2)] free_page_unused [OF inv, of p] by fastforce

definition new_dir :: "nat \<Rightarrow> nat \<Rightarrow> ('z) pmap_state_scheme \<Rightarrow> nat \<Rightarrow> u32" where
  "new_dir p b s = (\<lambda>_. 0)(509 := pmem s b 509, 510 := pmem s b 510, 511 := page2pa p OR PTE_V)"

lemma page_alloc_split:
  assumes "free_ok (p # xs) s"
  obtains s1 where "page_alloc s = Some (Inr p, s1)" and "same_rest s s1" and "pp_ref s1 = pp_ref s"
    and "pmem s1 = (pmem s)(p := (\<lambda>_. 0))" and "list_rep (page_free_list s1) xs" and "tlb s1 = tlb s"
  using page_alloc_Cons [OF assms] page_alloc_rest [of s] by fastforce

lemma pgdir_kva_word: "pgdir_kva p + of_nat i * 4 + of_nat k * 4 = pgdir_kva p + of_nat (i + k) * 4"
  by (simp add: algebra_simps)

lemma kcopy_two:
  assumes b: "b < unat (npage s)" and p: "p < unat (npage s)" and np: "unat (npage s) \<le> 131072"
    and "p \<noteq> b"
  shows "kcopy_words (pgdir_kva p + 2036) (pgdir_kva b + 2036) 2 s =
    Some (s\<lparr>pmem := (pmem s)(p := (pmem s p)(509 := pmem s b 509, 510 := pmem s b 510))\<rparr>)"
proof -
  have e: "pgdir_kva r + 2036 + of_nat k * 4 = pgdir_kva r + of_nat (509 + k) * 4" for r k
    by (simp add: algebra_simps)
  have st: "kstore (pgdir_kva p + of_nat j * 4) v s' =
      Some (s'\<lparr>pmem := (pmem s')(p := (pmem s' p)(j := v))\<rparr>)"
    if "j < 1024" "npage s' = npage s" for j v and s' :: "('a) pmap_state_scheme"
    using kload_entry_nat(2) [of p s' j v] that p np by simp
  have ld: "kload s' (pgdir_kva b + of_nat j * 4) = Some (pmem s' b j)"
    if "j < 1024" "npage s' = npage s" for j and s' :: "('a) pmap_state_scheme"
    using kload_entry_nat(1) [of b s' j] that b np by simp
  have "[0..<2] = [0, 1 :: nat]" by (simp add: upt_rec)
  then show ?thesis
    unfolding kcopy_words_def e using \<open>p \<noteq> b\<close>
    by (simp add: st [of 509, simplified] st [of 510, simplified] ld [of 509, simplified]
        ld [of 510, simplified])
qed

lemma env_setup_vm_ok:
  fixes s :: kstate
  assumes inv: "vm_inv S X (p # xs) s" and base: "base_pgdir s = pgdir_kva b"
    and b: "b < unat (npage s)" "b \<noteq> p"
  shows "\<exists>s'. env_setup_vm e s = Some (Inr (), s') \<and>
    pmem s' = (pmem s)(p := new_dir p b s) \<and> pp_ref s' = (pp_ref s)(p := 1) \<and>
    list_rep (page_free_list s') xs \<and> npage s' = npage s \<and> tlb s' = tlb s \<and>
    envs s' = (envs s)(e := (envs s e)\<lparr>env_pgdir := pgdir_kva p\<rparr>) \<and> curenv s' = curenv s \<and>
    env_free_list s' = env_free_list s \<and> env_sched_list s' = env_sched_list s \<and>
    base_pgdir s' = base_pgdir s \<and> asids s' = asids s \<and> kstack_tf s' = kstack_tf s \<and>
    mkenvid_i s' = mkenvid_i s"
proof -
  obtain s1 where s1: "page_alloc s = Some (Inr p, s1)" "same_rest s s1" "pp_ref s1 = pp_ref s"
    "pmem s1 = (pmem s)(p := (\<lambda>_. 0))" "list_rep (page_free_list s1) xs" "tlb s1 = tlb s"
    by (rule page_alloc_split [OF vm_invD(4) [OF inv]])
  note r = kstate_rest [OF s1(2)]
  have np: "npage s1 = npage s" using s1(2) by (simp add: same_rest_def)
  have p: "p < unat (npage s)" using free_page_unused(1) [OF inv, of p] by simp
  have p0: "pp_ref s p = 0" using vm_invD(4) [OF inv] by (simp add: free_ok_def)
  have le: "unat (npage s) \<le> 131072" by (rule vm_invD(1) [OF inv])
  define s3 where "s3 = upd_env e (\<lambda>v. v\<lparr>env_pgdir := pgdir_kva p\<rparr>) (s1\<lparr>pp_ref := (pp_ref s1)(p := 1)\<rparr>)"
  have c: "kcopy_words (pgdir_kva p + 2036) (pgdir_kva b + 2036) 2 s3 =
      Some (s3\<lparr>pmem := (pmem s3)(p := (pmem s3 p)(509 := pmem s3 b 509, 510 := pmem s3 b 510))\<rparr>)"
    (is "_ = Some ?s4")
    by (rule kcopy_two) (use p b np le in \<open>auto simp: s3_def\<close>)
  have st: "kstore (pgdir_kva p + 2044) (page2pa p OR PTE_V) ?s4 =
      Some (?s4\<lparr>pmem := (pmem ?s4)(p := (pmem ?s4 p)(511 := page2pa p OR PTE_V))\<rparr>)"
    using kload_entry_nat(2) [of p ?s4 511 "page2pa p OR PTE_V"] p np le by (simp add: s3_def)
  have "env_setup_vm e s =
      Some (Inr (), ?s4\<lparr>pmem := (pmem ?s4)(p := (pmem ?s4 p)(511 := page2pa p OR PTE_V))\<rparr>)"
    using s1(1) p le b(1) p0 s1(3) c st pgdir_page(1) [OF p le]
    by (simp add: env_setup_vm_def np page2kva_Some pgdir_kva_def [symmetric] s3_def base r(5)
        del: fun_upd_apply)
  then show ?thesis
    using s1 r np b by (auto simp: s3_def new_dir_def asids_def fun_eq_iff)
qed

lemma dir_insert:
  assumes "K p = 0" and "p \<notin> insert b R"
  shows "dir_slots (insert p R) b = dir_slots R b \<union> {p} \<times> {..<509}"
    and "dir_refs (insert p R) b K = (dir_refs R b K)(p := 1)"
  using assms by (auto simp: dir_slots_def dir_refs_def fun_eq_iff)

lemma space_inv_first:
  assumes "space_inv S X s" and "lh_first (page_free_list s) = Some p"
  obtains xs where "vm_inv S X (p # xs) s" and "no_leak (p # xs) s"
proof -
  obtain ys where ys: "vm_inv S X ys s" "no_leak ys s" using assms(1) by (auto simp: space_inv_def)
  have "ys = p # tl ys" by (rule lq.first_Some [OF vm_invD(2) [OF ys(1)] assms(2)])
  then show thesis using ys that by metis
qed

text \<open>The address space of a new environment, before it gets its identifiers.\<close>

lemma env_setup_vm_inv:
  assumes inv: "kern_inv A rt b K s" and e: "e \<notin> A" "e < NENV"
    and free: "lh_first (page_free_list s) = Some p"
  shows "\<exists>s'. env_setup_vm e s = Some (Inr (), s') \<and>
    space_inv (dir_slots (insert p (rt ` A)) b) (dir_refs (insert p (rt ` A)) b K) s' \<and>
    K p = 0 \<and> p \<notin> insert b (rt ` A) \<and>
    envs s' = (envs s)(e := (envs s e)\<lparr>env_pgdir := pgdir_kva p\<rparr>) \<and> curenv s' = curenv s \<and>
    env_free_list s' = env_free_list s \<and> env_sched_list s' = env_sched_list s \<and>
    base_pgdir s' = base_pgdir s \<and> asids s' = asids s \<and> kstack_tf s' = kstack_tf s \<and>
    mkenvid_i s' = mkenvid_i s \<and>
    pmem s' p = new_dir p b s \<and>
    (\<forall>(r, i) \<in> dir_slots (rt ` A) b. \<forall>j. pte_at s' r i j = pte_at s r i j)"
proof -
  let ?S = "dir_slots (rt ` A) b" and ?X = "dir_refs (rt ` A) b K"
  have sp: "space_inv ?S ?X s" and base: "base_pgdir s = pgdir_kva b"
    using inv by (auto simp: kern_inv_def)
  obtain xs where xs: "vm_inv ?S ?X (p # xs) s" "no_leak (p # xs) s"
    by (rule space_inv_first [OF sp free])
  have un: "?X p = 0" "p \<notin> fst ` ?S" using free_page_unused [OF xs(1), of p] by auto
  then have p: "K p = 0" "p \<notin> insert b (rt ` A)" by (auto simp: dir_refs_def dir_slots_fst)
  have "(b, 509) \<in> ?S" by (simp add: dir_slots_def)
  then have b: "b < unat (npage s)" "b \<noteq> p"
    using slots_okD(1) [OF vm_invD(3) [OF xs(1)]] p(2) by auto
  obtain s' where s': "env_setup_vm e s = Some (Inr (), s')"
    "pmem s' = (pmem s)(p := new_dir p b s)" "pp_ref s' = (pp_ref s)(p := 1)"
    "list_rep (page_free_list s') xs" "npage s' = npage s"
    "envs s' = (envs s)(e := (envs s e)\<lparr>env_pgdir := pgdir_kva p\<rparr>)" "curenv s' = curenv s"
    "env_free_list s' = env_free_list s" "env_sched_list s' = env_sched_list s"
    "base_pgdir s' = base_pgdir s" "asids s' = asids s" "kstack_tf s' = kstack_tf s"
    "mkenvid_i s' = mkenvid_i s"
    using env_setup_vm_ok [OF xs(1) base b, of e] by blast
  have "vm_inv (?S \<union> {p} \<times> {..<509}) (?X(p := 1)) xs s'"
    by (rule add_root_inv [OF xs(1) s'(5) _ _ s'(3,4)]) (auto simp: s'(2) new_dir_def)
  moreover have "no_leak xs s'" using xs(2) by (auto simp: no_leak_def s'(3,5))
  ultimately have "space_inv (dir_slots (insert p (rt ` A)) b) (dir_refs (insert p (rt ` A)) b K) s'"
    using dir_insert [of K p b "rt ` A"] p by (auto simp: space_inv_def)
  moreover have "\<forall>(r, i) \<in> ?S. \<forall>j. pte_at s' r i j = pte_at s r i j"
    by (rule add_root_kept [OF xs(1)]) (simp add: s'(2))
  ultimately show ?thesis using s' p by (intro exI [of _ s']) auto
qed

lemma env_alloc_ok:
  assumes inv: "kern_inv A rt b K s" and e: "e \<notin> A" "e < NENV"
    and fl: "list_rep (env_free_list s) (e # fl)"
    and free: "lh_first (page_free_list s) = Some p" and asid: "asids s \<noteq> {..<NASID}"
  shows "\<exists>s'. env_alloc parent s = Some (Inr e, s') \<and> kern_inv (insert e A) (rt(e := p)) b K s' \<and>
    list_rep (env_free_list s') fl \<and> env_sched_list s' = env_sched_list s \<and>
    curenv s' = curenv s \<and> kstack_tf s' = kstack_tf s \<and>
    (\<forall>d. d \<noteq> e \<longrightarrow> envs s' d = envs s d) \<and> env_status (envs s' e) = env_status (envs s e) \<and>
    env_parent_id (envs s' e) = parent \<and> env_id (envs s' e) = fst (mkenvid e s) \<and>
    pmem s' p = new_dir p b s \<and>
    (\<forall>(r, i) \<in> dir_slots (rt ` A) b. \<forall>j. pte_at s' r i j = pte_at s r i j) \<and>
    asids s' = insert (unat (env_asid (envs s' e))) (asids s) \<and> mkenvid_i s' = mkenvid_i s + 1"
proof -
  obtain s1 where s1: "env_setup_vm e s = Some (Inr (), s1)"
    "space_inv (dir_slots (insert p (rt ` A)) b) (dir_refs (insert p (rt ` A)) b K) s1"
    "K p = 0" "p \<notin> insert b (rt ` A)"
    "envs s1 = (envs s)(e := (envs s e)\<lparr>env_pgdir := pgdir_kva p\<rparr>)" "curenv s1 = curenv s"
    "env_free_list s1 = env_free_list s" "env_sched_list s1 = env_sched_list s"
    "base_pgdir s1 = base_pgdir s" "asids s1 = asids s" "kstack_tf s1 = kstack_tf s"
    "mkenvid_i s1 = mkenvid_i s" "pmem s1 p = new_dir p b s"
    "\<forall>(r, i) \<in> dir_slots (rt ` A) b. \<forall>j. pte_at s1 r i j = pte_at s r i j"
    using env_setup_vm_inv [OF inv e free] by blast
  define s2 where "s2 = upd_env e (\<lambda>v. v\<lparr>env_user_tlb_mod_entry := 0, env_runs := 0\<rparr>) s1"
  define id s3 where "id = fst (mkenvid e s2)" and "s3 = snd (mkenvid e s2)"
  define s4 where "s4 = upd_env e (\<lambda>v. v\<lparr>env_id := id\<rparr>) s3"
  have as4: "asids s4 = asids s"
    using s1(10) by (simp add: s4_def s3_def s2_def mkenvid_def Let_def asids_def)
  obtain a s5 where s5: "asid_alloc s4 = (Inr (of_nat a), s5)" "a < NASID" "a \<notin> asids s"
    "asids s5 = insert a (asids s)" "s5 = s4\<lparr>asid_bitmap := asid_bitmap s5\<rparr>"
    using asid_alloc_free [of s4] asid unfolding as4 by metis
  obtain q where q: "LIST_REMOVE e (env_free_list s) = Some q" "list_rep q fl"
    using lq.pop(2) [OF fl] by blast
  have first: "lh_first (env_free_list s) = Some e" by (rule lq.pop(1) [OF fl])
  define s' where "s' = (upd_env e (\<lambda>v. v\<lparr>env_asid := of_nat a, env_parent_id := parent,
       env_tf := (env_tf v)\<lparr>cp0_status := 0x100c,
         regs := (regs (env_tf v))(29 := USTACKTOP - 4 - 4)\<rparr>\<rparr>) s5)\<lparr>env_free_list := q\<rparr>"
  have fl5: "env_free_list s5 = env_free_list s"
    by (subst s5(5)) (simp add: s4_def s3_def s2_def mkenvid_def Let_def s1)
  have run: "env_alloc parent s = Some (Inr e, s')"
    using s1(1) s5(1) first q(1) fl5
    by (simp add: env_alloc_def s2_def [symmetric] id_def s3_def s4_def s'_def split_beta)
  have sel: "pmem s' = pmem s1" "npage s' = npage s1" "pp_ref s' = pp_ref s1"
    "page_free_list s' = page_free_list s1" "curenv s' = curenv s" "kstack_tf s' = kstack_tf s"
    "base_pgdir s' = base_pgdir s" "env_sched_list s' = env_sched_list s" "asids s' = insert a (asids s)"
    "env_free_list s' = q"
    "\<And>d. d \<noteq> e \<Longrightarrow> envs s' d = envs s d" "env_status (envs s' e) = env_status (envs s e)"
    "env_parent_id (envs s' e) = parent" "env_id (envs s' e) = fst (mkenvid e s)"
    "env_pgdir (envs s' e) = pgdir_kva p" "env_asid (envs s' e) = of_nat a" "mkenvid_i s' = mkenvid_i s + 1"
    using s5(4) unfolding s'_def
    by (subst s5(5), simp add: s4_def s3_def s2_def id_def mkenvid_def Let_def s1 asids_def)+
  have sp: "space_inv (dir_slots (insert p (rt ` A)) b) (dir_refs (insert p (rt ` A)) b K) s'"
    using s1(2) space_inv_cong [OF sel(2,3,4,1)] by simp
  have ae: "unat (env_asid (envs s' e)) = a" using s5(2) by (simp add: sel word_of_nat_unat_eq)
  have im: "(rt(e := p)) ` insert e A = insert p (rt ` A)" using e(1) by auto
  have "kern_inv (insert e A) (rt(e := p)) b K s'"
    unfolding kern_inv_def im
  proof (intro conjI)
    show "insert e A \<subseteq> {..<NENV}" using inv e by (auto simp: kern_inv_def)
    show "inj_on (rt(e := p)) (insert e A)"
      using inv s1(4) e by (auto simp: kern_inv_def inj_on_def)
    show "b \<notin> insert p (rt ` A)" using inv s1(4) by (auto simp: kern_inv_def)
    show "\<forall>q \<in> insert b (insert p (rt ` A)). K q = 0" using inv s1(3) by (auto simp: kern_inv_def)
    show "\<forall>d \<in> insert e A. env_pgdir (envs s' d) = pgdir_kva ((rt(e := p)) d) \<and>
        unat (env_asid (envs s' d)) \<in> asids s'"
    proof
      fix d assume "d \<in> insert e A"
      then show "env_pgdir (envs s' d) = pgdir_kva ((rt(e := p)) d) \<and>
          unat (env_asid (envs s' d)) \<in> asids s'"
        using inv ae by (cases "d = e") (auto simp: sel(9,11,15) kern_inv_def)
    qed
    have ne: "env_asid (envs s' d) \<noteq> env_asid (envs s' e)" if "d \<in> A" for d
    proof -
      have "unat (env_asid (envs s d)) \<in> asids s" "d \<noteq> e" using inv that e by (auto simp: kern_inv_def)
      then show ?thesis using ae s5(3) sel(11) by force
    qed
    have "env_asid (envs s' e) \<notin> (\<lambda>d. env_asid (envs s' d)) ` (A - {e})"
    proof
      assume "env_asid (envs s' e) \<in> (\<lambda>d. env_asid (envs s' d)) ` (A - {e})"
      then obtain d where "d \<in> A" "env_asid (envs s' e) = env_asid (envs s' d)" by auto
      then show False using ne [of d] by simp
    qed
    moreover have "inj_on (\<lambda>d. env_asid (envs s' d)) A = inj_on (\<lambda>d. env_asid (envs s d)) A"
      by (rule inj_on_cong) (use sel(11) e in metis)
    ultimately show "inj_on (\<lambda>d. env_asid (envs s' d)) (insert e A)"
      using inv e by (auto simp: kern_inv_def)
    show "base_pgdir s' = pgdir_kva b" using inv sel by (simp add: kern_inv_def)
  qed (rule sp)
  moreover have "\<forall>(r, i) \<in> dir_slots (rt ` A) b. \<forall>j. pte_at s' r i j = pte_at s r i j"
    using s1(14) vm_inv_cong(2) [OF sel(2,3,4,1)] by simp
  ultimately show ?thesis
    using run q sel s1(13) ae by auto
qed

end
