(* ===== verification/Tlbex.thy ===== *)
theory Tlbex
  imports Env_Inv
begin

text \<open>
  The TLB exceptions: \<^verbatim>\<open>kern/tlbex.c\<close>, the refill entry of \<^verbatim>\<open>kern/tlb_asm.S\<close>, and the
  accesses the kernel makes to user addresses, which go through the same refill.  A load
  or store at an address below \<^verbatim>\<open>ULIM\<close> uses the entry that \<^verbatim>\<open>_do_tlb_refill\<close> finds in the
  current directory; one that is not aligned does not return, and neither does a store
  through an entry without \<^verbatim>\<open>PTE_D\<close>, which would raise a nested TLB Mod exception.
\<close>

section \<open>The code\<close>

definition passive_alloc :: "u32 \<Rightarrow> u32 \<Rightarrow> u32 \<Rightarrow> ('z) pmap_state_scheme \<Rightarrow>
    ('z) pmap_state_scheme option" where
  "passive_alloc va pgdir asid s =
     (if va < UTEMP then None
      else if USTACKTOP \<le> va \<and> va < USTACKTOP + BY2PG then None
      else if UENVS \<le> va \<and> va < UPAGES then None
      else if UPAGES \<le> va \<and> va < UVPT then None
      else if ULIM \<le> va then None
      else do {
        (r, s1) \<leftarrow> page_alloc s;
        (case r of
           Inl _ \<Rightarrow> None
         | Inr p \<Rightarrow> do {
             (r', s2) \<leftarrow> page_insert pgdir asid p (PTE_ADDR va) PTE_D s1;
             (case r' of Inl _ \<Rightarrow> None | Inr _ \<Rightarrow> Some s2) }) })"

text \<open>\<^verbatim>\<open>_do_tlb_refill\<close>: the entry found, and the state.\<close>

partial_function (option) do_tlb_refill_c :: "u32 \<Rightarrow> u32 \<Rightarrow> kstate \<Rightarrow> (u32 \<times> kstate) option" where
  "do_tlb_refill_c va asid s =
     Option.bind (page_lookup (cur_pgdir s) va s) (\<lambda>(r, s1).
       (case r of
          None \<Rightarrow> Option.bind (passive_alloc va (cur_pgdir s1) asid s1) (\<lambda>s2. do_tlb_refill_c va asid s2)
        | Some (_, pte) \<Rightarrow> Option.bind (kload s1 pte) (\<lambda>v. Some (v, s1))))"

text \<open>The assembly entry writes the entry into the TLB under the faulting address.\<close>

definition do_tlb_refill :: "u32 \<Rightarrow> u32 \<Rightarrow> kstate \<Rightarrow> (u32 \<times> kstate) option" where
  "do_tlb_refill va asid s = do {
     (pte, s1) \<leftarrow> do_tlb_refill_c va asid s;
     Some (pte, s1\<lparr>tlb := (tlb s1)(tlb_key asid va := Some pte)\<rparr>) }"

definition cur_asid :: "kstate \<Rightarrow> u32 option" where
  "cur_asid s = map_option (\<lambda>c. env_asid (envs s c)) (curenv s)"

definition read_word :: "u32 \<Rightarrow> kstate \<Rightarrow> (u32 \<times> kstate) option" where
  "read_word va s =
     (if unat va mod 4 \<noteq> 0 then None
      else if va \<ge> ULIM then do { v \<leftarrow> kload s va; Some (v, s) }
      else do {
        asid \<leftarrow> cur_asid s;
        (pte, s1) \<leftarrow> do_tlb_refill va asid s;
        pp \<leftarrow> pa2page (npage s1) pte;
        Some (pmem s1 pp (unat va mod 4096 div 4), s1) })"

definition write_word :: "u32 \<Rightarrow> u32 \<Rightarrow> kstate \<Rightarrow> kstate option" where
  "write_word va v s =
     (if unat va mod 4 \<noteq> 0 then None
      else if va \<ge> ULIM then kstore va v s
      else do {
        asid \<leftarrow> cur_asid s;
        (pte, s1) \<leftarrow> do_tlb_refill va asid s;
        pp \<leftarrow> pa2page (npage s1) pte;
        if pte AND PTE_D = 0 then None
        else Some (s1\<lparr>pmem := (pmem s1)(pp := (pmem s1 pp)(unat va mod 4096 div 4 := v))\<rparr>) })"

text \<open>A trap frame in memory: 32 registers, then the six special registers.\<close>

definition tf_words :: "Trapframe \<Rightarrow> u32 list" where
  "tf_words tf = map (regs tf) [0..<32] @
     [cp0_status tf, tf_hi tf, tf_lo tf, cp0_badvaddr tf, cp0_cause tf, cp0_epc tf]"

definition tf_of_words :: "u32 list \<Rightarrow> Trapframe" where
  "tf_of_words ws = \<lparr>regs = (\<lambda>i. if i < 32 then ws ! i else 0), cp0_status = ws ! 32,
     tf_hi = ws ! 33, tf_lo = ws ! 34, cp0_badvaddr = ws ! 35, cp0_cause = ws ! 36,
     cp0_epc = ws ! 37\<rparr>"

fun write_words :: "u32 \<Rightarrow> u32 list \<Rightarrow> kstate \<Rightarrow> kstate option" where
  "write_words va [] s = Some s"
| "write_words va (w # ws) s = Option.bind (write_word va w s) (write_words (va + 4) ws)"

fun read_words :: "u32 \<Rightarrow> nat \<Rightarrow> kstate \<Rightarrow> (u32 list \<times> kstate) option" where
  "read_words va 0 s = Some ([], s)"
| "read_words va (Suc n) s = do {
     (w, s1) \<leftarrow> read_word va s;
     (ws, s2) \<leftarrow> read_words (va + 4) n s1;
     Some (w # ws, s2) }"

text \<open>
  \<^verbatim>\<open>do_tlb_mod\<close> works on the trap frame at the top of the kernel stack;
  \<^verbatim>\<open>sizeof(struct Trapframe)\<close> is 152.
\<close>

definition set_reg :: "nat \<Rightarrow> u32 \<Rightarrow> Trapframe \<Rightarrow> Trapframe" where
  "set_reg i v tf = tf\<lparr>regs := (regs tf)(i := v)\<rparr>"

definition do_tlb_mod :: "kstate \<Rightarrow> kstate option" where
  "do_tlb_mod s =
     (let tmp_tf = kstack_tf s;
          sp0 = regs tmp_tf 29;
          sp1 = (if sp0 < USTACKTOP \<or> sp0 \<ge> UXSTACKTOP then UXSTACKTOP else sp0) - 152
      in do {
        s1 \<leftarrow> write_words sp1 (tf_words tmp_tf) (s\<lparr>kstack_tf := set_reg 29 sp1 tmp_tf\<rparr>);
        c \<leftarrow> curenv s1;
        let entry = env_user_tlb_mod_entry (envs s1 c);
        if entry \<noteq> 0 then
          Some (s1\<lparr>kstack_tf := (set_reg 29 (sp1 - 4) (set_reg 4 sp1 (kstack_tf s1)))\<lparr>cp0_epc := entry\<rparr>\<rparr>)
        else None })"

section \<open>The refill loop\<close>

lemma tf_words_round_trip:
  "length (tf_words tf) = 38"
  "(\<And>i. 32 \<le> i \<Longrightarrow> regs tf i = 0) \<Longrightarrow> tf_of_words (tf_words tf) = tf"
  by (auto simp: tf_words_def tf_of_words_def nth_append intro!: Trapframe.equality)

text \<open>The addresses for which a page is allocated on first use.\<close>

definition passive_ok :: "u32 \<Rightarrow> bool" where
  "passive_ok va \<longleftrightarrow> UTEMP \<le> va \<and> va < UTOP \<and> \<not> (USTACKTOP \<le> va \<and> va < USTACKTOP + BY2PG)"

lemma passive_ok_range:
  "passive_ok va \<Longrightarrow> passive_alloc va pgdir asid s = do {
     (r, s1) \<leftarrow> page_alloc s;
     (case r of
        Inl _ \<Rightarrow> None
      | Inr p \<Rightarrow> do {
          (r', s2) \<leftarrow> page_insert pgdir asid p (PTE_ADDR va) PTE_D s1;
          (case r' of Inl _ \<Rightarrow> None | Inr _ \<Rightarrow> Some s2) }) }"
  by (auto simp: passive_ok_def passive_alloc_def mmu_layout word_le_nat_alt word_less_nat_alt)

lemma PTE_ADDR_indices [simp]: "PDX (PTE_ADDR va) = PDX va" "PTX (PTE_ADDR va) = PTX va"
  "VPN (PTE_ADDR va) = VPN va"
proof -
  have *: "PPN (PTE_ADDR va) = PPN va"
    by (simp add: word_unat_eq_iff unat_PPN unat_PTE_ADDR)
  have "VPN (PTE_ADDR va) = VPN va" using * by (simp add: VPN_def PPN_def)
  then show "PDX (PTE_ADDR va) = PDX va" "PTX (PTE_ADDR va) = PTX va" "VPN (PTE_ADDR va) = VPN va"
    using same_indices_iff [of "PTE_ADDR va" va] by (auto simp: word_unat_eq_iff)
qed

lemma kload_pte:
  assumes inv: "vm_inv S X xs s" and slot: "slot_of r va \<in> S" and m: "mapping s r va = Some e"
  shows "kload s (pte_kva s r va) = Some e"
proof -
  have v: "valid (pmem s r (unat (PDX va)))" "e = pmem s (tab s r (unat (PDX va))) (unat (PTX va))"
    using m by (auto simp: mapping_def pte_at_def split: if_splits)
  then show ?thesis
    using walk_slot [OF inv slot] by (simp add: pte_kva_def kload_entry)
qed

lemma remapped_page [simp]: "remapped S r (PTE_ADDR va) new = remapped S r va new"
  by (simp add: remapped_def fun_eq_iff)

lemma tlb_key_page [simp]: "tlb_key asid (PTE_ADDR va) = tlb_key asid va"
  by (simp add: tlb_key_def PTE_ADDR_def and.assoc)

text \<open>A page freshly taken from the free list may be mapped.\<close>

lemma alloc_mappable:
  assumes "vm_inv S X (p # xs) s" and "page_alloc s = Some (Inr p, s1)"
    and "pp_ref s1 = pp_ref s" and "npage s1 = npage s" and "pmem s1 = (pmem s)(p := (\<lambda>_. 0))"
  shows "mappable S xs p s1"
proof -
  note p = free_page_unused [OF assms(1), of p]
  have "pmem s1 r i = pmem s r i" if "(r, i) \<in> S" for r i
    using frame_view(1) [OF p(5,3) _ that, of s1] assms(5) by auto
  then have "tables S s1 = tables S s" by (rule tables_cong(2))
  moreover have "p \<notin> set xs" using vm_invD(2) [OF assms(1)] by (simp add: list_rep_def)
  moreover have "pp_ref s p = 0" using vm_invD(4) [OF assms(1)] by (simp add: free_ok_def)
  ultimately show ?thesis using p assms by (simp add: mappable_def)
qed

lemma alloc_insert_ok:
  assumes inv: "vm_inv S X (p # xs) s" and slot: "slot_of r va \<in> S"
    and room: "\<not> no_room r va xs s" and perm: "perm_ok perm"
  shows "\<exists>s1 s' ys. page_alloc s = Some (Inr p, s1) \<and> same_rest s s1 \<and>
    page_insert (pgdir_kva r) asid p va perm s1 = Some (Inr (), s') \<and> same_rest s s' \<and>
    vm_inv S X ys s' \<and> remapped S r va (Some (mk_pte p perm)) s s' \<and> pmem s' p = (\<lambda>_. 0) \<and>
    tlb s' = (tlb s)(tlb_key asid va := None) \<and> (no_leak (p # xs) s \<longrightarrow> no_leak ys s') \<and>
    (mapping s r va = None \<longrightarrow> pp_ref s' p = 1) \<and>
    (\<forall>q. q \<notin> tables S s' \<longrightarrow> q \<notin> fst ` S \<longrightarrow> q \<noteq> p \<longrightarrow> pmem s' q = pmem s q) \<and>
    (mapping s r va \<noteq> None \<longrightarrow> length xs \<le> length ys)"
proof -
  obtain s1 where s1: "page_alloc s = Some (Inr p, s1)" "same_rest s s1" "pp_ref s1 = pp_ref s"
    "pmem s1 = (pmem s)(p := (\<lambda>_. 0))" "list_rep (page_free_list s1) xs" "tlb s1 = tlb s"
    by (rule page_alloc_split [OF vm_invD(4) [OF inv]])
  have np: "npage s1 = npage s" using s1(2) by (simp add: same_rest_def)
  have inv1: "vm_inv S X xs s1" using page_alloc_inv [OF inv] s1(1) by auto
  note p = free_page_unused [OF inv, of p]
  have mp: "mappable S xs p s1" by (rule alloc_mappable [OF inv s1(1,3) np s1(4)])
  have view: "pmem s1 r' i = pmem s r' i" "pte_at s1 r' i j = pte_at s r' i j"
    if "(r', i) \<in> S" for r' i j
    using frame_view [OF p(5,3) _ that, of s1] s1(4) by auto
  have "\<not> no_room r va xs s1"
    using room view(1) slot by (auto simp: no_room_def slot_of_def)
  then obtain s' ys where s': "page_insert (pgdir_kva r) asid p va perm s1 = Some (Inr (), s')"
    "vm_inv S X ys s'" "remapped S r va (Some (mk_pte p perm)) s1 s'"
    "tlb s' = (tlb s1)(tlb_key asid va := None)" "data_kept S s1 s'"
    "no_leak (p # xs) s1 \<longrightarrow> no_leak ys s'" "mapping s1 r va = None \<longrightarrow> pp_ref s' p = pp_ref s1 p + 1"
    "mapping s1 r va \<noteq> None \<longrightarrow> length xs \<le> length ys"
    using page_insert_ok [OF inv1 slot _ mp perm] by blast
  have m: "mapping s' r va = Some (mk_pte p perm)" using remapped_mapping [OF s'(3) slot] by simp
  have "p < 1048576" using p(1) vm_invD(1) [OF inv] by simp
  then have "p \<notin> tables S s'"
    using data_okD(2) [OF vm_invD(5) [OF s'(2)] slot m] perm by simp
  then have "pmem s' p = (\<lambda>_. 0)" using s'(5) p(5) s1(4) by (simp add: data_kept_def)
  moreover have "remapped S r va (Some (mk_pte p perm)) s s'"
    by (rule remapped_same [OF _ s'(3)]) (use view(2) in auto)
  moreover have "no_leak (p # xs) s1 = no_leak (p # xs) s" by (simp add: no_leak_def np s1(3))
  moreover have "mapping s1 r va = mapping s r va"
    using view(2) slot by (simp add: mapping_def slot_of_def)
  moreover have "pp_ref s1 p = 0" using vm_invD(4) [OF inv] s1(3) by (simp add: free_ok_def)
  moreover have "\<forall>q. q \<notin> tables S s' \<longrightarrow> q \<notin> fst ` S \<longrightarrow> q \<noteq> p \<longrightarrow> pmem s' q = pmem s q"
    using s'(5) by (simp add: data_kept_def s1(4))
  ultimately show ?thesis
    using s1(1,2,6) s' page_insert_rest [OF s'(1)] by (auto intro: same_rest_trans)
qed

lemma refill_hit:
  assumes inv: "vm_inv S X xs s" and slot: "slot_of r va \<in> S" and m: "mapping s r va = Some e"
    and "cur_pgdir s = pgdir_kva r"
  shows "do_tlb_refill_c va asid s = Some (e, s)"
  using assms kload_pte [OF inv slot m]
  by (subst do_tlb_refill_c.simps) (simp add: page_lookup_eq [OF inv slot])

lemma refill_miss:
  fixes s :: kstate
  assumes inv: "vm_inv S X (p # xs) s" and slot: "slot_of r va \<in> S" and m: "mapping s r va = None"
    and cur: "cur_pgdir s = pgdir_kva r" and ok: "passive_ok va" and room: "\<not> no_room r va xs s"
  shows "\<exists>s' ys. do_tlb_refill_c va asid s = Some (mk_pte p PTE_D, s') \<and> vm_inv S X ys s' \<and>
    remapped S r va (Some (mk_pte p PTE_D)) s s' \<and> pmem s' p = (\<lambda>_. 0) \<and> same_rest s s' \<and>
    tlb s' = (tlb s)(tlb_key asid va := None)"
proof -
  have slot': "slot_of r (PTE_ADDR va) \<in> S" and room': "\<not> no_room r (PTE_ADDR va) xs s"
    using slot room by (simp_all add: slot_of_def no_room_def)
  obtain s1 s' ys where s': "page_alloc s = Some (Inr p, s1)"
    "page_insert (pgdir_kva r) asid p (PTE_ADDR va) PTE_D s1 = Some (Inr (), s')" "same_rest s s'"
    "vm_inv S X ys s'" "remapped S r va (Some (mk_pte p PTE_D)) s s'" "pmem s' p = (\<lambda>_. 0)"
    "tlb s' = (tlb s)(tlb_key asid va := None)"
    using alloc_insert_ok [OF inv slot' room', of PTE_D asid] by auto
  have cur': "cur_pgdir s' = pgdir_kva r" using kstate_rest(6) [OF s'(3)] cur by simp
  have m': "mapping s' r va = Some (mk_pte p PTE_D)" using remapped_mapping [OF s'(5) slot] by simp
  have "passive_alloc va (pgdir_kva r) asid s = Some s'"
    using s'(1,2) by (simp add: passive_ok_range [OF ok])
  then have "do_tlb_refill_c va asid s = do_tlb_refill_c va asid s'"
    using m cur by (subst do_tlb_refill_c.simps) (simp add: page_lookup_eq [OF inv slot])
  then show ?thesis
    using refill_hit [OF s'(4) slot m' cur'] s' by auto
qed

end
