(* ===== verification/Syscall.thy ===== *)
theory Syscall
  imports Tlbex
begin

text \<open>
  The system calls: \<^verbatim>\<open>kern/syscall_all.c\<close> with the call numbers of \<^verbatim>\<open>include/syscall.h\<close>.
  A handler returns its value or error code, or leaves the kernel through the
  scheduler.  The console functions of \<^verbatim>\<open>kern/console.c\<close> access the console device.
\<close>

type_synonym sysret = "((err + u32) ctl \<times> kstate) option"

section \<open>Console and devices\<close>

definition dev_put :: "u32 \<Rightarrow> u8 \<Rightarrow> kstate \<Rightarrow> kstate" where
  "dev_put a b s = s\<lparr>dev_hist := DevWrite a b # dev_hist s\<rparr>"

definition dev_get :: "device \<Rightarrow> u32 \<Rightarrow> kstate \<Rightarrow> u8 \<times> kstate" where
  "dev_get d a s = (d (dev_hist s) a, s\<lparr>dev_hist := DevRead a # dev_hist s\<rparr>)"

definition printcharc :: "u8 \<Rightarrow> kstate \<Rightarrow> kstate" where
  "printcharc ch s = dev_put 0x10000000 ch s"

definition scancharc :: "device \<Rightarrow> kstate \<Rightarrow> u8 \<times> kstate" where
  "scancharc d s = dev_get d 0x10000000 s"

text \<open>
  The uncached window \<^verbatim>\<open>KSEG1\<close>, byte by byte: it ends at \<open>0xC0000000\<close>, where the mapped
  segment begins and an access panics; below the end of memory it reaches the physical pages,
  above it the devices.  A word access of \<^verbatim>\<open>memcpy\<close> is recorded as the accesses to its bytes.
\<close>

definition kseg1_put :: "u32 \<Rightarrow> u8 \<Rightarrow> kstate \<Rightarrow> kstate option" where
  "kseg1_put a b s =
     (if a < KSEG1 \<or> a \<ge> 0xC0000000 then None
      else if unat (a - KSEG1) div 4096 < unat (npage s) then kstore_byte (a - KSEG1 + ULIM) b s
      else Some (dev_put (a - KSEG1) b s))"

definition kseg1_get :: "device \<Rightarrow> u32 \<Rightarrow> kstate \<Rightarrow> (u8 \<times> kstate) option" where
  "kseg1_get d a s =
     (if a < KSEG1 \<or> a \<ge> 0xC0000000 then None
      else if unat (a - KSEG1) div 4096 < unat (npage s) then do {
        w \<leftarrow> kload s ((a - KSEG1 + ULIM) AND NOT 3);
        Some (get_byte w (unat a mod 4), s) }
      else Some (dev_get d (a - KSEG1) s))"

text \<open>Bytes at user addresses.\<close>

definition read_byte :: "u32 \<Rightarrow> kstate \<Rightarrow> (u8 \<times> kstate) option" where
  "read_byte va s = do {
     (w, s1) \<leftarrow> read_word (va AND NOT 3) s;
     Some (get_byte w (unat va mod 4), s1) }"

definition write_byte :: "u32 \<Rightarrow> u8 \<Rightarrow> kstate \<Rightarrow> kstate option" where
  "write_byte va b s = do {
     (w, s1) \<leftarrow> read_word (va AND NOT 3) s;
     write_word (va AND NOT 3) (set_byte w (unat va mod 4) b) s1 }"

definition sys_putchar :: "u32 \<Rightarrow> kstate \<Rightarrow> sysret" where
  "sys_putchar c s = Some (Ret (Inr 0), printcharc (ucast c) s)"

definition sys_print_cons :: "u32 \<Rightarrow> u32 \<Rightarrow> kstate \<Rightarrow> sysret" where
  "sys_print_cons p num s =
     (if p + num > UTOP \<or> p \<ge> UTOP \<or> p > p + num then Some (Ret (Inl E_INVAL), s)
      else do {
        s' \<leftarrow> fold_opt (\<lambda>i s. do { (b, s1) \<leftarrow> read_byte (p + of_nat i) s; Some (printcharc b s1) })
               [0..<unat num] s;
        Some (Ret (Inr 0), s') })"

section \<open>Processes\<close>

definition sys_getenvid :: "kstate \<Rightarrow> sysret" where
  "sys_getenvid s = do { c \<leftarrow> curenv s; Some (Ret (Inr (env_id (envs s c))), s) }"

definition sys_yield :: "kstate \<Rightarrow> sysret" where
  "sys_yield s = do { s' \<leftarrow> schedule True s; Some (Switch, s') }"

text \<open>
  \<^verbatim>\<open>try(envid2env(envid, &e, 1))\<close> followed by the rest of a handler, which uses \<^verbatim>\<open>e\<close> (and
  faults on a null pointer).
\<close>

definition with_env :: "u32 \<Rightarrow> bool \<Rightarrow> kstate \<Rightarrow> (nat \<Rightarrow> sysret) \<Rightarrow> sysret" where
  "with_env envid checkperm s f = do {
     r \<leftarrow> envid2env envid checkperm s;
     (case r of Inl er \<Rightarrow> Some (Ret (Inl er), s) | Inr p \<Rightarrow> Option.bind p f) }"

definition sys_env_destroy :: "u32 \<Rightarrow> kstate \<Rightarrow> sysret" where
  "sys_env_destroy envid s = with_env envid True s (\<lambda>e. do {
     (c, s1) \<leftarrow> env_destroy e s;
     (case c of Ret _ \<Rightarrow> Some (Ret (Inr 0), s1) | Switch \<Rightarrow> Some (Switch, s1)) })"

definition sys_set_tlb_mod_entry :: "u32 \<Rightarrow> u32 \<Rightarrow> kstate \<Rightarrow> sysret" where
  "sys_set_tlb_mod_entry envid func s = with_env envid True s (\<lambda>e.
     Some (Ret (Inr 0), upd_env e (\<lambda>v. v\<lparr>env_user_tlb_mod_entry := func\<rparr>) s))"

section \<open>Address checks\<close>

definition is_illegal_va :: "u32 \<Rightarrow> bool" where
  "is_illegal_va va \<longleftrightarrow> va < UTEMP \<or> va \<ge> UTOP"

definition is_illegal_va_range :: "u32 \<Rightarrow> u32 \<Rightarrow> bool" where
  "is_illegal_va_range va len =
     (if len = 0 then False else va + len < va \<or> va < UTEMP \<or> va + len > UTOP)"

definition is_illegal_pa_range :: "u32 \<Rightarrow> u32 \<Rightarrow> bool" where
  "is_illegal_pa_range pa len =
     (if len = 0 then False
      else if pa \<ge> 0x10000000 \<and> pa + len \<le> 0x10000020 then False
      else if pa \<ge> 0x13000000 \<and> pa + len \<le> 0x13004200 then False
      else if pa \<ge> 0x15000000 \<and> pa + len \<le> 0x15000200 then False
      else True)"

section \<open>Memory\<close>

definition ret_unit :: "((err + unit) \<times> kstate) option \<Rightarrow> sysret" where
  "ret_unit m = do { (r, s) \<leftarrow> m; Some (Ret (case r of Inl e \<Rightarrow> Inl e | Inr _ \<Rightarrow> Inr 0), s) }"

definition sys_mem_alloc :: "u32 \<Rightarrow> u32 \<Rightarrow> u32 \<Rightarrow> kstate \<Rightarrow> sysret" where
  "sys_mem_alloc envid va perm s =
     (if is_illegal_va va then Some (Ret (Inl E_INVAL), s)
      else with_env envid True s (\<lambda>e.
        ret_unit (try_c (page_alloc s) (\<lambda>pp s1.
          page_insert (env_pgdir (envs s1 e)) (env_asid (envs s1 e)) pp va perm s1))))"

definition sys_mem_map :: "u32 \<Rightarrow> u32 \<Rightarrow> u32 \<Rightarrow> u32 \<Rightarrow> u32 \<Rightarrow> kstate \<Rightarrow> sysret" where
  "sys_mem_map srcid srcva dstid dstva perm s =
     (if is_illegal_va srcva \<or> is_illegal_va dstva then Some (Ret (Inl E_INVAL), s)
      else with_env srcid True s (\<lambda>src. with_env dstid True s (\<lambda>dst. do {
        (r, s1) \<leftarrow> page_lookup (env_pgdir (envs s src)) srcva s;
        (case r of
           None \<Rightarrow> Some (Ret (Inl E_INVAL), s1)
         | Some (pp, _) \<Rightarrow> ret_unit
             (page_insert (env_pgdir (envs s1 dst)) (env_asid (envs s1 dst)) pp dstva perm s1)) })))"

definition sys_mem_unmap :: "u32 \<Rightarrow> u32 \<Rightarrow> kstate \<Rightarrow> sysret" where
  "sys_mem_unmap envid va s =
     (if is_illegal_va va then Some (Ret (Inl E_INVAL), s)
      else with_env envid True s (\<lambda>e. do {
        s1 \<leftarrow> page_remove (env_pgdir (envs s e)) (env_asid (envs s e)) va s;
        Some (Ret (Inr 0), s1) }))"

section \<open>Creating and changing environments\<close>

definition sys_exofork :: "kstate \<Rightarrow> sysret" where
  "sys_exofork s = do {
     c \<leftarrow> curenv s;
     (r, s1) \<leftarrow> env_alloc (env_id (envs s c)) s;
     (case r of
        Inl er \<Rightarrow> Some (Ret (Inl er), s1)
      | Inr e \<Rightarrow>
          (let s2 = upd_env e (\<lambda>v. v\<lparr>env_tf := set_reg 2 0 (kstack_tf s1)\<rparr>) s1;
               s3 = upd_env e (\<lambda>v. v\<lparr>env_status := ENV_NOT_RUNNABLE,
                 env_pri := env_pri (envs s2 c)\<rparr>) s2
           in Some (Ret (Inr (env_id (envs s3 e))), s3))) }"

definition sys_set_env_status :: "u32 \<Rightarrow> u32 \<Rightarrow> kstate \<Rightarrow> sysret" where
  "sys_set_env_status envid status s =
     (if status \<noteq> ENV_RUNNABLE \<and> status \<noteq> ENV_NOT_RUNNABLE then Some (Ret (Inl E_INVAL), s)
      else with_env envid True s (\<lambda>e. do {
        s1 \<leftarrow> (if env_status (envs s e) = ENV_RUNNABLE \<and> status = ENV_NOT_RUNNABLE then do {
                 q \<leftarrow> TAILQ_REMOVE e (env_sched_list s); Some (s\<lparr>env_sched_list := q\<rparr>) }
               else Some s);
        s2 \<leftarrow> (if env_status (envs s1 e) = ENV_NOT_RUNNABLE \<and> status = ENV_RUNNABLE then do {
                 q \<leftarrow> TAILQ_INSERT_TAIL e (env_sched_list s1); Some (s1\<lparr>env_sched_list := q\<rparr>) }
               else Some s1);
        Some (Ret (Inr 0), upd_env e (\<lambda>v. v\<lparr>env_status := status\<rparr>) s2) }))"

definition sys_set_trapframe :: "u32 \<Rightarrow> u32 \<Rightarrow> kstate \<Rightarrow> sysret" where
  "sys_set_trapframe envid tf s =
     (if is_illegal_va_range tf 152 then Some (Ret (Inl E_INVAL), s)
      else with_env envid True s (\<lambda>e. do {
        (ws, s1) \<leftarrow> read_words tf 38 s;
        if Some e = curenv s1
        then Some (Ret (Inr (ws ! 2)), s1\<lparr>kstack_tf := tf_of_words ws\<rparr>)
        else Some (Ret (Inr 0), upd_env e (\<lambda>v. v\<lparr>env_tf := tf_of_words ws\<rparr>) s1) }))"

definition sys_panic :: "u32 \<Rightarrow> kstate \<Rightarrow> sysret" where
  "sys_panic msg s = None"

section \<open>Interprocess communication\<close>

definition sys_ipc_recv :: "u32 \<Rightarrow> kstate \<Rightarrow> sysret" where
  "sys_ipc_recv dstva s =
     (if dstva \<noteq> 0 \<and> is_illegal_va dstva then Some (Ret (Inl E_INVAL), s)
      else do {
        c \<leftarrow> curenv s;
        let s1 = upd_env c (\<lambda>v. v\<lparr>env_ipc_recving := 1, env_ipc_dstva := dstva,
                   env_status := ENV_NOT_RUNNABLE\<rparr>) s;
        q \<leftarrow> TAILQ_REMOVE c (env_sched_list s1);
        let s2 = s1\<lparr>env_sched_list := q, kstack_tf := set_reg 2 0 (kstack_tf s1)\<rparr>;
        s3 \<leftarrow> schedule True s2;
        Some (Switch, s3) })"

text \<open>
  The error of \<^verbatim>\<open>envid2env\<close> is ignored and would leave \<^verbatim>\<open>e\<close> uninitialised: the model stops
  there.
\<close>

definition sys_ipc_try_send :: "u32 \<Rightarrow> u32 \<Rightarrow> u32 \<Rightarrow> u32 \<Rightarrow> kstate \<Rightarrow> ((err + unit) \<times> kstate) option" where
  "sys_ipc_try_send envid val srcva perm s =
     (if srcva \<noteq> 0 \<and> is_illegal_va srcva then Some (Inl E_INVAL, s)
      else do {
        r \<leftarrow> envid2env envid False s;
        (case r of
           Inl _ \<Rightarrow> None
         | Inr p \<Rightarrow> do {
             e \<leftarrow> p;
             if env_ipc_recving (envs s e) = 0 then Some (Inl E_IPC_NOT_RECV, s)
             else do {
               c \<leftarrow> curenv s;
               let s1 = upd_env e (\<lambda>v. v\<lparr>env_ipc_value := val, env_ipc_from := env_id (envs s c),
                          env_ipc_perm := PTE_V OR perm, env_ipc_recving := 0,
                          env_status := ENV_RUNNABLE\<rparr>) s;
               q \<leftarrow> TAILQ_INSERT_TAIL e (env_sched_list s1);
               let s2 = s1\<lparr>env_sched_list := q\<rparr>;
               if srcva \<noteq> 0 then do {
                 (lk, s3) \<leftarrow> page_lookup (env_pgdir (envs s2 c)) srcva s2;
                 (case lk of
                    None \<Rightarrow> Some (Inl E_INVAL, s3)
                  | Some (pp, _) \<Rightarrow> try_c
                      (page_insert (env_pgdir (envs s3 e)) (env_asid (envs s3 e)) pp
                         (env_ipc_dstva (envs s3 e)) perm s3)
                      (\<lambda>_ s4. Some (Inr (), s4))) }
               else Some (Inr (), s2) } }) })"

text \<open>
  The broadcast reads the identifiers and parents of all environments through the user's
  pointer \<^verbatim>\<open>tenvs\<close>; \<open>tenvs i\<close> is the pair it reads for entry \<open>i\<close>.  The array \<^verbatim>\<open>sons\<close> has 20
  elements, and writing past it stops the model.
\<close>

definition sons_of :: "(nat \<Rightarrow> u32 \<times> u32) \<Rightarrow> u32 \<Rightarrow> u32 list" where
  "sons_of tenvs parent = [fst (tenvs i). i \<leftarrow> [0..<NENV], snd (tenvs i) = parent]"

function (sequential) bcast_targets :: "(nat \<Rightarrow> u32 \<times> u32) \<Rightarrow> kstate \<Rightarrow> nat \<Rightarrow> u32 list \<Rightarrow> u32 list option" where
  "bcast_targets tenvs s i sons =
     (if length sons > 20 then None
      else if i < length sons then
        (case envid2env (sons ! i) False s of
           Some (Inr (Some e)) \<Rightarrow>
             bcast_targets tenvs s (Suc i) (sons @ sons_of tenvs (env_id (envs s e)))
         | _ \<Rightarrow> None)
      else Some sons)"
  by pat_completeness auto
termination
  by (relation "measure (\<lambda>(_, _, i, _). 21 - i)") auto

fun bcast_ready :: "u32 list \<Rightarrow> kstate \<Rightarrow> (err + unit) option" where
  "bcast_ready [] s = Some (Inr ())"
| "bcast_ready (x # xs) s =
     (case envid2env x False s of
        Some (Inr (Some e)) \<Rightarrow>
          if env_ipc_recving (envs s e) = 0 then Some (Inl E_IPC_NOT_RECV) else bcast_ready xs s
      | _ \<Rightarrow> None)"

fun bcast_send :: "u32 list \<Rightarrow> u32 \<Rightarrow> u32 \<Rightarrow> u32 \<Rightarrow> kstate \<Rightarrow> ((err + unit) \<times> kstate) option" where
  "bcast_send [] val srcva perm s = Some (Inr (), s)"
| "bcast_send (x # xs) val srcva perm s =
     try_c (sys_ipc_try_send x val srcva perm s) (\<lambda>_. bcast_send xs val srcva perm)"

definition sys_ipc_try_broadcast :: "(nat \<Rightarrow> u32 \<times> u32) \<Rightarrow> u32 \<Rightarrow> u32 \<Rightarrow> u32 \<Rightarrow> kstate \<Rightarrow> sysret" where
  "sys_ipc_try_broadcast tenvs val srcva perm s = do {
     c \<leftarrow> curenv s;
     let sons = sons_of tenvs (env_id (envs s c));
     if sons = [] then Some (Ret (Inr 0), s)
     else do {
       ts \<leftarrow> bcast_targets tenvs s 0 sons;
       r \<leftarrow> bcast_ready ts s;
       (case r of
          Inl er \<Rightarrow> Some (Ret (Inl er), s)
        | Inr _ \<Rightarrow> ret_unit (bcast_send ts val srcva perm s)) } }"

section \<open>Devices\<close>

text \<open>The busy wait for a character may never end.\<close>

partial_function (option) sys_cgetc :: "device \<Rightarrow> kstate \<Rightarrow> sysret" where
  "sys_cgetc d s = (case scancharc d s of (ch, s1) \<Rightarrow>
     if ch = 0 then sys_cgetc d s1 else Some (Ret (Inr (scast ch)), s1))"

definition sys_write_dev :: "u32 \<Rightarrow> u32 \<Rightarrow> u32 \<Rightarrow> kstate \<Rightarrow> sysret" where
  "sys_write_dev va pa len s =
     (if is_illegal_va_range va len \<or> is_illegal_pa_range pa len then Some (Ret (Inl E_INVAL), s)
      else do {
        s' \<leftarrow> fold_opt (\<lambda>i s. do { (b, s1) \<leftarrow> read_byte (va + of_nat i) s;
                 kseg1_put ((KSEG1 OR pa) + of_nat i) b s1 }) [0..<unat len] s;
        Some (Ret (Inr 0), s') })"

definition sys_read_dev :: "device \<Rightarrow> u32 \<Rightarrow> u32 \<Rightarrow> u32 \<Rightarrow> kstate \<Rightarrow> sysret" where
  "sys_read_dev d va pa len s =
     (if is_illegal_va_range va len \<or> is_illegal_pa_range pa len then Some (Ret (Inl E_INVAL), s)
      else do {
        s' \<leftarrow> fold_opt (\<lambda>i s. do { (b, s1) \<leftarrow> kseg1_get d ((KSEG1 OR pa) + of_nat i) s;
                 write_byte (va + of_nat i) b s1 }) [0..<unat len] s;
        Some (Ret (Inr 0), s') })"

section \<open>Dispatch\<close>

definition ret_word :: "err + u32 \<Rightarrow> u32" where
  "ret_word r = (case r of Inl e \<Rightarrow> - of_int (errno e) | Inr v \<Rightarrow> v)"

text \<open>\<^verbatim>\<open>syscall_table\<close>; \<open>tenvs\<close> reads the array behind the first argument of a broadcast.\<close>

definition syscall_table :: "device \<Rightarrow> (u32 \<Rightarrow> nat \<Rightarrow> u32 \<times> u32) \<Rightarrow> nat \<Rightarrow>
    u32 \<Rightarrow> u32 \<Rightarrow> u32 \<Rightarrow> u32 \<Rightarrow> u32 \<Rightarrow> kstate \<Rightarrow> sysret" where
  "syscall_table d tenvs no a1 a2 a3 a4 a5 s =
     (if no = 0 then sys_putchar a1 s
      else if no = 1 then sys_print_cons a1 a2 s
      else if no = 2 then sys_getenvid s
      else if no = 3 then sys_yield s
      else if no = 4 then sys_env_destroy a1 s
      else if no = 5 then sys_set_tlb_mod_entry a1 a2 s
      else if no = 6 then sys_mem_alloc a1 a2 a3 s
      else if no = 7 then sys_mem_map a1 a2 a3 a4 a5 s
      else if no = 8 then sys_mem_unmap a1 a2 s
      else if no = 9 then sys_exofork s
      else if no = 10 then sys_set_env_status a1 a2 s
      else if no = 11 then sys_set_trapframe a1 a2 s
      else if no = 12 then sys_panic a1 s
      else if no = 13 then ret_unit (sys_ipc_try_send a1 a2 a3 a4 s)
      else if no = 14 then sys_ipc_recv a1 s
      else if no = 15 then sys_cgetc d s
      else if no = 16 then sys_write_dev a1 a2 a3 s
      else if no = 17 then sys_read_dev d a1 a2 a3 s
      else sys_ipc_try_broadcast (tenvs a1) a2 a3 a4 s)"

definition do_syscall :: "device \<Rightarrow> (u32 \<Rightarrow> nat \<Rightarrow> u32 \<times> u32) \<Rightarrow> kstate \<Rightarrow> (unit ctl \<times> kstate) option" where
  "do_syscall d tenvs s =
     (let tf = kstack_tf s; sysno = sint (regs tf 4)
      in if sysno < 0 \<or> sysno \<ge> 19
         then Some (Ret (), s\<lparr>kstack_tf := set_reg 2 (ret_word (Inl E_NO_SYS)) tf\<rparr>)
         else do {
           let s1 = s\<lparr>kstack_tf := tf\<lparr>cp0_epc := cp0_epc tf + 4\<rparr>\<rparr>;
           (arg4, s2) \<leftarrow> read_word (regs tf 29 + 16) s1;
           (arg5, s3) \<leftarrow> read_word (regs tf 29 + 20) s2;
           (c, s4) \<leftarrow> syscall_table d tenvs (nat sysno) (regs tf 5) (regs tf 6) (regs tf 7) arg4 arg5 s3;
           (case c of
              Switch \<Rightarrow> Some (Switch, s4)
            | Ret r \<Rightarrow> Some (Ret (), s4\<lparr>kstack_tf := set_reg 2 (ret_word r) (kstack_tf s4)\<rparr>)) })"

end
