(* ===== verification/Kernel_Props.thy ===== *)
theory Kernel_Props
  imports Syscall
begin

text \<open>
  The correctness properties of the kernel's memory management and environments
  (\<^verbatim>\<open>kern/pmap.c\<close>, \<^verbatim>\<open>kern/env.c\<close>, \<^verbatim>\<open>kern/tlbex.c\<close>), each at a small concrete machine: 16
  pages of memory, one environment with an empty address space, two free environments.
\<close>

section \<open>A small machine\<close>

definition small_env :: "nat \<Rightarrow> Env" where
  "small_env e = env_zero\<lparr>env_status := (if e = 0 then 1 else if e \<le> 2 then 0 else 2),
     env_id := (if e = 0 then 0x800 else 0), env_pgdir := pgdir_kva 1, env_pri := 1\<rparr>"

definition small :: kstate where
  "small = kstate_zero\<lparr>npage := 16, pp_ref := (\<lambda>p. if p \<le> 2 then 1 else 0),
     page_free_list := fold LIST_INSERT_HEAD [3..<16] (LIST_INIT list_q_zero),
     pmem := (\<lambda>p i. if p = 1 \<and> i = 511 then page2pa 1 OR PTE_V else 0),
     envs := small_env, curenv := Some 0,
     env_free_list := LIST_INSERT_HEAD 1 (LIST_INSERT_HEAD 2 (LIST_INIT list_q_zero)),
     env_sched_list := TAILQ_INSERT_HEAD 0 (TAILQ_INIT tailq_zero),
     base_pgdir := pgdir_kva 2, cur_pgdir := pgdir_kva 1,
     asid_bitmap := (\<lambda>i. if i = 0 then 1 else 0), sched_count := 1\<rparr>"

lemma small_sel [simp]:
  "npage small = 16" "pp_ref small p = (if p \<le> 2 then 1 else 0)" "envs small = small_env"
  "pmem small p i = (if p = 1 \<and> i = 511 then page2pa 1 OR PTE_V else 0)" "curenv small = Some 0"
  "base_pgdir small = pgdir_kva 2" "cur_pgdir small = pgdir_kva 1" "tlb small = (\<lambda>_. None)"
  "kstack_tf small = tf_zero" "mkenvid_i small = 0" "dev_hist small = []" "sched_count small = 1"
  by (simp_all add: small_def kstate_zero_def)

lemma small_env_sel [simp]:
  "env_pgdir (small_env e) = pgdir_kva 1" "env_asid (small_env e) = 0"
  "env_status (small_env 0) = 1" "env_id (small_env 0) = 0x800"
  by (simp_all add: small_env_def env_zero_def)

lemma small_free: "list_rep (page_free_list small) (rev [3..<16])"
  using lq.push_all [OF LIST_INIT_rep, of "[3..<16]" "list_q_zero"] by (simp add: small_def)

lemma small_free_list: "rev [3..<16] = [15, 14, 13, 12, 11, 10, 9, 8, 7, 6, 5, 4, 3 :: nat]"
  by (simp add: upt_rec)

lemma small_lists: "env_lists [1, 2] [0] small"
proof -
  have "list_rep (LIST_INSERT_HEAD 1 (LIST_INSERT_HEAD 2 (LIST_INIT list_q_zero))) [1 :: nat, 2]"
    by (intro LIST_INSERT_HEAD_rep LIST_INIT_rep) auto
  moreover have "tailq_rep (TAILQ_INSERT_HEAD 0 (TAILQ_INIT tailq_zero)) [0 :: nat]"
    by (intro TAILQ_INSERT_HEAD_rep TAILQ_INIT_rep) auto
  ultimately show ?thesis
    by (auto simp: env_lists_def small_def kstate_zero_def small_env_def)
qed

abbreviation (input) small_S :: "(nat \<times> nat) set" where "small_S \<equiv> dir_slots {1} 2"
abbreviation (input) small_K :: "nat \<Rightarrow> nat" where "small_K \<equiv> (\<lambda>p. if p = 0 then 1 else 0)"
abbreviation (input) small_X :: "nat \<Rightarrow> nat" where "small_X \<equiv> dir_refs {1} 2 small_K"

lemma small_vm: "vm_inv small_S small_X (rev [3..<16]) small"
proof (rule vm_inv_no_tables)
  show "free_ok (rev [3..<16]) small" using small_free by (auto simp: free_ok_def)
  show "finite small_S" by (simp add: dir_slots_def)
  show "\<forall>(r, i) \<in> small_S. r < unat (npage small) \<and> i < 1024 \<and> 0 < small_X r"
    by (auto simp: dir_slots_def dir_refs_def)
  show "live small_S small = {}" by (auto simp: live_def dir_slots_def)
  show "\<forall>p < unat (npage small). unat (pp_ref small p) = small_X p"
    by (auto simp: dir_refs_def)
qed

lemma small_no_leak: "no_leak (rev [3..<16]) small"
proof -
  have "set (rev [3..<16]) = {3..<16 :: nat}" by (simp only: set_rev set_upt)
  then show ?thesis by (simp only: no_leak_def) auto
qed

lemma small_kern: "kern_inv {0} (\<lambda>_. 1) 2 small_K small"
proof -
  have "0 \<in> asids small" by (simp add: asids_def asid_bit_def small_def)
  moreover have "space_inv small_S small_X small"
    using small_vm small_no_leak by (auto simp: space_inv_def)
  ultimately show ?thesis by (simp add: kern_inv_def)
qed

lemma small_mapping: "slot_of r va \<in> small_S \<Longrightarrow> mapping small r va = None"
  by (auto simp: mapping_def pte_at_def slot_of_def dir_slots_def)

lemma small_slot: "slot_of 1 0x400000 \<in> small_S"
  by (simp add: slot_of_def dir_slots_def unat_PDX)

lemma small_room: "\<not> no_room r va (rev [3..<16]) small"
  by (simp add: no_room_def)

section \<open>Page tables\<close>

text \<open>C1. \<^verbatim>\<open>page_insert\<close> on every branch: in an address space that satisfies the invariant it
  returns; it fails with \<^verbatim>\<open>-E_NO_MEM\<close> exactly when a table is missing and no page is free,
  and then changes no mapping; otherwise the address maps to the page with the given
  permission and no other address of any address space changes.  The invariant (reference
  counts, free list, disjointness of tables and data) is kept and the TLB entry is dropped.\<close>

theorem page_insert_correct:
  assumes "vm_inv S X xs s" and "slot_of r va \<in> S" and "mappable S xs pp s" and "perm_ok perm"
  shows "\<exists>s' xs'. page_insert (pgdir_kva r) asid pp va perm s =
      Some (if no_room r va xs s then Inl E_NO_MEM else Inr (), s') \<and> vm_inv S X xs' s' \<and>
    (\<forall>r' va'. slot_of r' va' \<in> S \<longrightarrow> mapping s' r' va' =
       (if \<not> no_room r va xs s \<and> r' = r \<and> VPN va' = VPN va then Some (mk_pte pp perm)
        else mapping s r' va')) \<and>
    tlb s' = (tlb s)(tlb_key asid va := None)"
proof (cases "no_room r va xs s")
  case True
  then show ?thesis
    using page_insert_no_mem [OF assms(1,2) True, of asid pp perm] assms(1)
    by (intro exI [of _ "tlb_invalidate asid va s"] exI [of _ xs])
      (simp add: vm_inv_tlb mapping_def)
next
  case False
  then show ?thesis
    using page_insert_ok [OF assms(1,2) False assms(3,4), of asid] remapped_mapping by fastforce
qed

lemma small_mappable: "mappable small_S (rev [3..<16]) 0 small"
proof -
  have "tables small_S small = {}" by (auto simp: tables_def live_def dir_slots_def)
  then show ?thesis by (simp add: mappable_def dir_slots_fst)
qed

theorem page_insert_correct_witness:
  "\<exists>s'. page_insert (pgdir_kva 1) 0 0 0x400000 PTE_D small = Some (Inr (), s') \<and>
     mapping s' 1 0x400000 = Some (mk_pte 0 PTE_D)"
  using page_insert_correct [OF small_vm small_slot small_mappable, of PTE_D 0] small_room small_slot
  by fastforce

text \<open>C2. \<^verbatim>\<open>page_remove\<close> returns, unmaps exactly the given address, drops one reference of the
  page that was mapped (a page without references becomes the first free page), and keeps
  the invariant.\<close>

theorem page_remove_correct:
  assumes "vm_inv S X xs s" and "slot_of r va \<in> S"
  shows "\<exists>s'. page_remove (pgdir_kva r) asid va s = Some s' \<and>
    (\<forall>r' va'. slot_of r' va' \<in> S \<longrightarrow> mapping s' r' va' =
       (if r' = r \<and> VPN va' = VPN va then None else mapping s r' va')) \<and>
    (case mapping s r va of
       None \<Rightarrow> vm_inv S X xs s'
     | Some e \<Rightarrow> pp_ref s' (pte_page e) = pp_ref s (pte_page e) - 1 \<and> tlb s' (tlb_key asid va) = None \<and>
         vm_inv S X (if pp_ref s (pte_page e) = 1 then pte_page e # xs else xs) s')"
proof -
  obtain s' where s': "page_remove (pgdir_kva r) asid va s = Some s'"
    "vm_inv S X (freed (mapping s r va) s @ xs) s'" "remapped S r va None s s'"
    "tlb s' = (if mapping s r va = None then tlb s else (tlb s)(tlb_key asid va := None))"
    "pp_ref s' = (case mapping s r va of None \<Rightarrow> pp_ref s
       | Some e \<Rightarrow> (pp_ref s)(pte_page e := pp_ref s (pte_page e) - 1))"
    using page_remove_ok [OF assms, of asid] by blast
  then show ?thesis
    using remapped_mapping [OF s'(3)]
    by (intro exI [of _ s']) (auto simp: freed_def split: option.splits)
qed

theorem page_remove_correct_witness:
  "\<exists>s'. page_remove (pgdir_kva 1) 0 0x400000 small = Some s' \<and> mapping s' 1 0x400000 = None"
  using page_remove_correct [OF small_vm small_slot, of 0] small_slot by fastforce

text \<open>Insert and look up: after a successful \<^verbatim>\<open>page_insert\<close>, \<^verbatim>\<open>page_lookup\<close> finds the page at
  that address, and \<^verbatim>\<open>va2pa\<close> its physical address.\<close>

theorem page_lookup_after_insert:
  assumes "vm_inv S X xs s" and slot: "slot_of r va \<in> S" and pp: "mappable S xs pp s"
    and perm: "perm_ok perm" and ins: "page_insert (pgdir_kva r) asid pp va perm s = Some (Inr (), s')"
  shows "(\<exists>pte. page_lookup (pgdir_kva r) va s' = Some (Some (pp, pte), s') \<and>
      kload s' pte = Some (mk_pte pp perm)) \<and>
    va2pa (pgdir_kva r) va s' = Some (page2pa pp)"
proof -
  have room: "\<not> no_room r va xs s"
    using page_insert_no_mem [OF assms(1,2)] ins by fastforce
  obtain xs' where inv: "vm_inv S X xs' s'" and re: "remapped S r va (Some (mk_pte pp perm)) s s'"
    using page_insert_ok [OF assms(1,2) room pp perm, of asid] ins by auto
  have m: "mapping s' r va = Some (mk_pte pp perm)" using remapped_mapping [OF re slot] by simp
  have "pp < 1048576" using pp vm_invD(1) [OF assms(1)] by (simp add: mappable_def)
  then show ?thesis
    using page_lookup_eq [OF inv slot] va2pa_eq [OF inv slot] kload_pte [OF inv slot m] m perm by simp
qed

theorem page_lookup_after_insert_witness:
  "\<exists>s'. page_insert (pgdir_kva 1) 0 0 0x400000 PTE_D small = Some (Inr (), s') \<and>
     va2pa (pgdir_kva 1) 0x400000 s' = Some (page2pa 0)"
proof -
  obtain s' where s': "page_insert (pgdir_kva 1) 0 0 0x400000 PTE_D small = Some (Inr (), s')"
    using page_insert_ok [OF small_vm small_slot small_room small_mappable, of PTE_D 0] by auto
  then show ?thesis
    using page_lookup_after_insert [OF small_vm small_slot small_mappable _ s'] by simp
qed

section \<open>The TLB\<close>

text \<open>The cached entries of an address space are those of its tables.\<close>

definition tlb_coherent :: "(nat \<times> nat) set \<Rightarrow> nat \<Rightarrow> u32 \<Rightarrow> ('z) pmap_state_scheme \<Rightarrow> bool" where
  "tlb_coherent S r asid s \<longleftrightarrow> (\<forall>va pte. slot_of r va \<in> S \<longrightarrow> tlb s (tlb_key asid va) = Some pte \<longrightarrow>
     mapping s r va = Some pte)"

lemma tlb_key_VPN: "VPN va = VPN va' \<Longrightarrow> tlb_key asid va = tlb_key asid va'"
  by (simp add: tlb_key_def PTE_ADDR_shift VPN_def)

lemma tlb_key_inject:
  assumes "unat asid < 64" and "unat asid' < 64" and eq: "tlb_key asid va = tlb_key asid' va'"
  shows "asid = asid'" and "VPN va = VPN va'"
proof -
  have small: "drop_bit 12 (push_bit 6 a) = 0" and low: "take_bit 12 (push_bit 6 a) = push_bit 6 a"
    if "unat a < 64" for a :: u32
  proof -
    have "unat (push_bit 6 a) = unat a * 64"
      using that by (simp add: push_bit_eq_mult unat_word_ariths)
    then have "unat (push_bit 6 a) < 4096" using that by simp
    then show "drop_bit 12 (push_bit 6 a) = 0" and "take_bit 12 (push_bit 6 a) = push_bit 6 a"
      by (simp_all add: word_unat_eq_iff word_nat unsigned_take_bit_eq take_bit_nat_eq_self)
  qed
  have d: "drop_bit 12 (tlb_key a v) = VPN v" and t: "take_bit 12 (tlb_key a v) = push_bit 6 a"
    if "unat a < 64" for a v
  proof -
    have "drop_bit 12 (push_bit 12 (drop_bit 12 v)) = drop_bit 12 v"
      by (rule bit_word_eqI) (auto simp: bit_simps dest: bit_imp_le_length)
    then show "drop_bit 12 (tlb_key a v) = VPN v"
      using small [OF that] by (simp add: tlb_key_def PTE_ADDR_shift VPN_def)
    have "take_bit 12 (push_bit 12 (drop_bit 12 v)) = 0"
      by (rule bit_word_eqI) (auto simp: bit_simps)
    then show "take_bit 12 (tlb_key a v) = push_bit 6 a"
      using low [OF that] by (simp only: tlb_key_def PTE_ADDR_shift take_bit_or) simp
  qed
  show "VPN va = VPN va'" using d [OF assms(1), of va] d [OF assms(2), of va'] eq by simp
  have "push_bit 6 asid = push_bit 6 asid'" using t [OF assms(1), of va] t [OF assms(2), of va'] eq by simp
  then have "unat asid * 64 = unat asid' * 64"
    using assms(1,2) by (simp add: push_bit_eq_mult word_unat_eq_iff unat_word_ariths)
  then show "asid = asid'" by (simp add: word_unat_eq_iff)
qed

lemma tlb_coherent_remapped:
  assumes "tlb_coherent S r' asid' s" and re: "remapped S r va new s s'"
    and key: "tlb s' (tlb_key asid va) = None" and mono: "\<And>k. tlb s' k = None \<or> tlb s' k = tlb s k"
    and own: "r' = r \<Longrightarrow> asid' = asid"
  shows "tlb_coherent S r' asid' s'"
  unfolding tlb_coherent_def
proof (intro allI impI)
  fix va' pte assume slot: "slot_of r' va' \<in> S" and t: "tlb s' (tlb_key asid' va') = Some pte"
  have "\<not> (r' = r \<and> VPN va' = VPN va)"
  proof
    assume *: "r' = r \<and> VPN va' = VPN va"
    then have "tlb_key asid' va' = tlb_key asid va" using own tlb_key_VPN [of va' va asid] by simp
    then show False using t key by simp
  qed
  moreover have "tlb s (tlb_key asid' va') = Some pte" using t mono [of "tlb_key asid' va'"] by auto
  ultimately show "mapping s' r' va' = Some pte"
    using assms(1) slot remapped_mapping [OF re slot] by (auto simp: tlb_coherent_def)
qed

text \<open>No stale TLB entries: a TLB that agrees with the page tables of an address space still
  does after \<^verbatim>\<open>page_insert\<close> and \<^verbatim>\<open>page_remove\<close> in any address space.\<close>

theorem tlb_stays_coherent:
  assumes inv: "vm_inv S X xs s" and slot: "slot_of r va \<in> S" and pp: "mappable S xs pp s"
    and perm: "perm_ok perm" and coh: "tlb_coherent S r' asid' s" and own: "r' = r \<Longrightarrow> asid' = asid"
  shows "(\<exists>res s1. page_insert (pgdir_kva r) asid pp va perm s = Some (res, s1) \<and> tlb_coherent S r' asid' s1) \<and>
    (\<exists>s2. page_remove (pgdir_kva r) asid va s = Some s2 \<and> tlb_coherent S r' asid' s2)"
proof
  show "\<exists>res s1. page_insert (pgdir_kva r) asid pp va perm s = Some (res, s1) \<and> tlb_coherent S r' asid' s1"
  proof (cases "no_room r va xs s")
    case True
    have "tlb_coherent S r' asid' (tlb_invalidate asid va s)"
      using coh by (auto simp: tlb_coherent_def mapping_def vm_inv_tlb split: if_splits)
    then show ?thesis using page_insert_no_mem [OF inv slot True, of asid pp perm] by blast
  next
    case False
    obtain s1 where s1: "page_insert (pgdir_kva r) asid pp va perm s = Some (Inr (), s1)"
      "remapped S r va (Some (mk_pte pp perm)) s s1" "tlb s1 = (tlb s)(tlb_key asid va := None)"
      using page_insert_ok [OF inv slot False pp perm, of asid] by blast
    have "tlb_coherent S r' asid' s1"
      by (rule tlb_coherent_remapped [OF coh s1(2) _ _ own]) (auto simp: s1(3))
    then show ?thesis using s1(1) by blast
  qed
  obtain s2 where s2: "page_remove (pgdir_kva r) asid va s = Some s2" "remapped S r va None s s2"
    "tlb s2 = (if mapping s r va = None then tlb s else (tlb s)(tlb_key asid va := None))"
    using page_remove_ok [OF inv slot, of asid] by blast
  have "tlb_coherent S r' asid' s2"
  proof (cases "mapping s r va")
    case None
    then have "s2 = s" using s2(1) by (simp add: page_remove_def page_lookup_eq [OF inv slot])
    then show ?thesis using coh by simp
  next
    case (Some e)
    show ?thesis by (rule tlb_coherent_remapped [OF coh s2(2) _ _ own]) (auto simp: s2(3) Some)
  qed
  then show "\<exists>s2. page_remove (pgdir_kva r) asid va s = Some s2 \<and> tlb_coherent S r' asid' s2"
    using s2(1) by blast
qed

theorem tlb_stays_coherent_witness:
  "\<exists>s2. page_remove (pgdir_kva 1) 0 0x400000 small = Some s2 \<and> tlb_coherent small_S 1 0 s2"
proof -
  have "tlb_coherent small_S 1 0 small" by (simp add: tlb_coherent_def)
  then show ?thesis
    using tlb_stays_coherent [OF small_vm small_slot small_mappable, of 0 1 0 0] by simp
qed

text \<open>What the TLB holds matters neither to the invariant nor to the mappings.\<close>

lemma vm_inv_tlb_upd: "vm_inv S X xs (s\<lparr>tlb := t\<rparr>) = vm_inv S X xs s"
  by (simp add: vm_inv_defs tables_def live_def tab_def pte_at_def refs_def)

lemma mapping_tlb_upd: "mapping (s\<lparr>tlb := t\<rparr>) = mapping s"
  by (intro ext) (simp add: mapping_def pte_at_def tab_def)



section \<open>Boot\<close>

text \<open>\<^verbatim>\<open>page_init\<close> returns when the boot allocator stayed inside memory, and establishes the
  invariant: the pages above \<^verbatim>\<open>freemem\<close> are exactly the free ones, in descending order and
  without references, the pages below it have one reference.\<close>

theorem page_init_correct:
  assumes "unat (npage s) \<le> 131072" and "PADDR (ROUND (freemem s) BY2PG) = Some pa"
    and "unat pa div 4096 \<le> unat (npage s)"
  shows "\<exists>s'. page_init s = Some s' \<and>
    vm_inv {} (\<lambda>p. if p < unat pa div 4096 then 1 else 0) (rev [unat pa div 4096..<unat (npage s)]) s' \<and>
    no_leak (rev [unat pa div 4096..<unat (npage s)]) s'"
  using page_init_inv [OF assms] by blast

theorem page_init_correct_witness:
  "\<exists>s'. page_init (kstate_zero\<lparr>npage := 16, freemem := 0x80002010\<rparr>) = Some s' \<and>
     no_leak (rev [3..<16]) s'"
  using page_init_correct [of "kstate_zero\<lparr>npage := 16, freemem := 0x80002010\<rparr>" "0x3000"]
  by (simp add: PADDR_def ROUND_def ULIM_def) blast

section \<open>Environments\<close>

text \<open>C10. \<^verbatim>\<open>env_alloc\<close> with a free environment, a free page and a free ASID: it returns the first
  free environment with its own empty address space below \<^verbatim>\<open>UTOP\<close>, the template's entries
  above it, an ASID nobody else has and an identifier that encodes its index; the mappings
  of all other environments and the kernel invariant are kept.\<close>

theorem env_alloc_correct:
  assumes inv: "kern_inv A rt b K s" and e: "e \<notin> A" "e < NENV"
    and fl: "list_rep (env_free_list s) (e # fl)"
    and free: "lh_first (page_free_list s) = Some p" and asid: "asids s \<noteq> {..<NASID}"
  shows "\<exists>s'. env_alloc parent s = Some (Inr e, s') \<and> kern_inv (insert e A) (rt(e := p)) b K s' \<and>
    list_rep (env_free_list s') fl \<and> ENVX (env_id (envs s' e)) = e \<and>
    env_parent_id (envs s' e) = parent \<and> env_asid (envs s' e) \<notin> (\<lambda>d. env_asid (envs s' d)) ` A \<and>
    (\<forall>va < UTOP. mapping s' p va = None) \<and>
    pmem s' p 509 = pmem s b 509 \<and> pmem s' p 510 = pmem s b 510 \<and>
    (\<forall>d \<in> A. \<forall>va < UTOP. mapping s' (rt d) va = mapping s (rt d) va)"
proof -
  obtain s' where s': "env_alloc parent s = Some (Inr e, s')" "kern_inv (insert e A) (rt(e := p)) b K s'"
    "list_rep (env_free_list s') fl" "env_parent_id (envs s' e) = parent"
    "env_id (envs s' e) = fst (mkenvid e s)" "pmem s' p = new_dir p b s"
    "\<forall>(r, i) \<in> dir_slots (rt ` A) b. \<forall>j. pte_at s' r i j = pte_at s r i j"
    using env_alloc_ok [OF assms, of parent] by blast
  have "mapping s' p va = None" if "va < UTOP" for va
    using PDX_user [OF that] s'(6) by (simp add: mapping_def pte_at_def new_dir_def)
  moreover have "mapping s' (rt d) va = mapping s (rt d) va" if "d \<in> A" "va < UTOP" for d va
    using PDX_user [OF that(2)] that(1) s'(7) by (auto simp: mapping_def dir_slots_def)
  moreover have "env_asid (envs s' e) \<notin> (\<lambda>d. env_asid (envs s' d)) ` A"
    using s'(2) e(1) by (auto simp: kern_inv_def inj_on_def)
  ultimately show ?thesis
    using s' ENVX_mkenvid [OF e(2), of s] by (auto simp: new_dir_def)
qed

theorem env_alloc_correct_witness:
  "\<exists>s'. env_alloc 0x800 small = Some (Inr 1, s') \<and> ENVX (env_id (envs s' 1)) = 1"
proof -
  have "list_rep (env_free_list small) [1, 2]" by (rule env_listsD(1) [OF small_lists])
  moreover have "lh_first (page_free_list small) = Some 15"
    using list_rep_first [OF small_free] by (simp add: upt_rec)
  moreover have "1 \<notin> asids small" by (simp add: asids_def asid_bit_def small_def)
  then have "asids small \<noteq> {..<NASID}"
    by (metis lessThan_iff one_less_numeral_iff semiring_norm(76))
  ultimately show ?thesis
    using env_alloc_correct [OF small_kern, of 1 "[2]" 15 "0x800"] by auto
qed

text \<open>C13. \<^verbatim>\<open>env_free\<close> on a runnable environment returns, and gives back everything it held: the
  kernel invariant holds without it (so every page without references is on the free list
  and every reference count is the number of remaining references), its ASID is free, it is
  the first free environment and no longer in the run queue; the mappings of all other
  environments are unchanged.\<close>

theorem env_free_correct:
  assumes "kern_inv A rt b K s" and "env_lists fl q s" and "e \<in> A" and "e \<in> set q"
  shows "\<exists>s'. env_free e s = Some s' \<and> kern_inv (A - {e}) rt b K s' \<and>
    env_lists (e # fl) (remove1 e q) s' \<and> unat (env_asid (envs s e)) \<notin> asids s' \<and>
    (\<forall>d \<in> A - {e}. \<forall>va < UTOP. mapping s' (rt d) va = mapping s (rt d) va)"
proof -
  obtain s' where s': "env_free e s = Some s'" "kern_inv (A - {e}) rt b K s'"
    "env_lists (e # fl) (remove1 e q) s'" "asids s' = asids s - {unat (env_asid (envs s e))}"
    "others_kept (dir_slots (rt ` A) b) (rt e) s s'"
    using env_free_ok [OF assms] by blast
  have "mapping s' (rt d) va = mapping s (rt d) va" if "d \<in> A - {e}" "va < UTOP" for d va
  proof -
    have "unat (PDX va) < 509" by (rule PDX_user [OF that(2)])
    moreover have "rt d \<noteq> rt e" using assms(1,3) that(1) by (auto simp: kern_inv_def inj_on_def)
    ultimately show ?thesis
      using s'(5) that(1) PTX_bound [of va] by (auto simp: others_kept_def dir_slots_def mapping_def)
  qed
  then show ?thesis using s' by auto
qed

theorem env_free_correct_witness:
  "\<exists>s'. env_free 0 small = Some s' \<and> kern_inv {} (\<lambda>_. 1) 2 small_K s' \<and> env_lists [0, 1, 2] [] s'"
  using env_free_correct [OF small_kern small_lists, of 0] by auto

text \<open>A crash in \<^verbatim>\<open>env_free\<close>: an environment that was never in the run queue (as the child
  that \<^verbatim>\<open>sys_exofork\<close> makes before it is first made runnable) is removed from the queue all
  the same, through null link fields: the call does not return.\<close>

theorem env_free_never_queued:
  assumes "tqe_prev (env_sched_list s) e = None" and "tqe_next (env_sched_list s) e = None"
  shows "env_free e s = None"
proof -
  have "TAILQ_REMOVE e (env_sched_list s) = None"
    using assms by (simp add: TAILQ_REMOVE_def Let_def)
  moreover have "TAILQ_REMOVE e (env_sched_list s) \<noteq> None" if "env_free e s \<noteq> None"
  proof -
    from that obtain s' where run: "env_free e s = Some s'" by blast
    obtain s1 pp s2 q where "fold_opt (free_pde (env_pgdir (envs s e)) (env_asid (envs s e))) [0..<unat (PDX UTOP)] s = Some s1"
      and d: "page_decref pp s1 = Some s2" and q: "TAILQ_REMOVE e (env_sched_list s2) = Some q"
      using run by (auto simp: env_free_def Let_def asid_free_def tlb_invalidate_def tlb_out_def
          Option.bind_eq_Some_conv simp del: PDX_layout)
    then have "same_rest s s2"
      using free_pdes_rest page_decref_rest by (blast intro: same_rest_trans)
    then show ?thesis using q kstate_rest(4) by fastforce
  qed
  ultimately show ?thesis by blast
qed

theorem env_free_never_queued_witness: "env_free 1 small = None"
  by (rule env_free_never_queued) (simp_all add: small_def TAILQ_INSERT_HEAD_def TAILQ_INIT_def
      tailq_zero_def Let_def)

text \<open>The page tables are writable from user mode: the comment of \<^verbatim>\<open>env_setup_vm\<close> maps them
  read-only at \<^verbatim>\<open>UVPT\<close>, but a table that \<^verbatim>\<open>pgdir_walk\<close> creates is linked with \<^verbatim>\<open>PTE_D\<close>, and
  through the directory's entry for itself that is the permission of the table's own page in
  the window at \<^verbatim>\<open>UVPT\<close>.\<close>

theorem page_tables_user_writable:
  assumes inv: "vm_inv S X (t # xs) s" and slot: "slot_of r va \<in> S" and "va < UTOP"
    and self: "pmem s r 511 = page2pa r OR PTE_V" and new: "\<not> valid (pmem s r (unat (PDX va)))"
  shows "\<exists>kva s' e. pgdir_walk (pgdir_kva r) va True s = Some (Inr (Some kva), s') \<and>
    mapping s' r (UVPT + push_bit 12 (PDX va)) = Some e \<and>
    pte_page e = tab s' r (unat (PDX va)) \<and> e AND PTE_D \<noteq> 0"
proof -
  let ?i = "unat (PDX va)"
  have i: "?i < 509" by (rule PDX_user [OF assms(3)])
  have ri: "(r, ?i) \<in> S" using slot by (simp add: slot_of_def)
  obtain fl where walk: "pgdir_walk (pgdir_kva r) va True s =
      Some (Inr (Some (pgdir_kva t + push_bit 2 (PTX va))), link_table r ?i t fl s)"
    using pgdir_walk_create [OF inv ri new] by blast
  have t: "t < unat (npage s)" "t \<notin> fst ` S" using free_page_unused [OF inv, of t] by auto
  have r: "r < unat (npage s)" "r \<noteq> t" using slots_okD(1) [OF vm_invD(3) [OF inv] ri] t(2) ri by force+
  have lt: "r < 1048576" "t < 1048576" using r(1) t(1) vm_invD(1) [OF inv] by auto
  have va: "UVPT + push_bit 12 (PDX va) = va_of 511 ?i"
  proof -
    have "unat (UVPT + push_bit 12 (PDX va)) = unat (va_of 511 ?i)"
      using i unat_va_of [of 511 ?i] by (simp add: unat_word_ariths push_bit_eq_mult mmu_layout)
    then show ?thesis by (simp only: word_unat_eq_iff)
  qed
  have self': "page2pa r OR PTE_V = mk_pte r 0" by (simp add: mk_pte_def)
  have tab: "tab (link_table r ?i t fl s) r 511 = r"
    using r(2) i self self' lt(1) by (simp add: tab_def)
  have "mapping (link_table r ?i t fl s) r (va_of 511 ?i) = Some (mk_pte t PTE_D)"
    using r(2) i self self' by (simp add: mapping_def pte_at_def tab)
  moreover have "pte_page (mk_pte t PTE_D) = tab (link_table r ?i t fl s) r ?i"
    using r(2) by (simp add: tab_def)
  moreover have "mk_pte t PTE_D AND PTE_D \<noteq> 0"
  proof -
    have "bit (mk_pte t PTE_D AND PTE_D) 10" by (simp add: mk_pte_def bit_simps)
    then show ?thesis by (metis bit_0_eq bot_apply bot_bool_def)
  qed
  ultimately show ?thesis unfolding va using walk by blast
qed

theorem page_tables_user_writable_witness:
  "\<exists>kva s' e. pgdir_walk (pgdir_kva 1) 0x400000 True small = Some (Inr (Some kva), s') \<and>
     mapping s' 1 (UVPT + push_bit 12 (PDX 0x400000)) = Some e \<and> e AND PTE_D \<noteq> 0"
  using page_tables_user_writable [OF small_vm [unfolded small_free_list] small_slot]
  by (fastforce simp: mmu_layout unat_PDX)

section \<open>Identifiers\<close>

text \<open>Environment identifiers: the index is in the low bits, so \<^verbatim>\<open>ENVX\<close> finds the environment
  again, and two identifiers are equal only if the index is the same and the two counter
  values agree modulo \<open>2 ^ 21\<close>.\<close>

theorem mkenvid_unique:
  assumes "e < NENV" and "e' < NENV"
  shows "ENVX (fst (mkenvid e s)) = e \<and>
    (fst (mkenvid e s) = fst (mkenvid e' s') \<longrightarrow> e = e' \<and>
       unat (mkenvid_i s + 1) mod 2 ^ 21 = unat (mkenvid_i s' + 1) mod 2 ^ 21)"
  using ENVX_mkenvid [OF assms(1), of s] ENVX_mkenvid [OF assms(2), of s']
    mkenvid_count [OF assms(1), of s] mkenvid_count [OF assms(2), of s'] by auto

theorem mkenvid_unique_witness: "ENVX (fst (mkenvid 5 small)) = 5"
  using mkenvid_unique [of 5 5 small small] by simp

text \<open>ASIDs: \<^verbatim>\<open>asid_alloc\<close> fails exactly when all 64 are in use; otherwise it returns the least
  one not in use and marks it, and \<^verbatim>\<open>asid_free\<close> of it restores the set in use.\<close>

theorem asid_alloc_correct:
  "case asid_alloc s of
     (Inl er, s') \<Rightarrow> er = E_NO_FREE_ENV \<and> s' = s \<and> asids s = {..<NASID}
   | (Inr a, s') \<Rightarrow> unat a < NASID \<and> unat a \<notin> asids s \<and> {..<unat a} \<subseteq> asids s \<and>
       asids s' = insert (unat a) (asids s) \<and> asids (asid_free a s') = asids s"
proof (cases "asids s = {..<NASID}")
  case True
  then show ?thesis using asid_alloc_full by simp
next
  case False
  then obtain i s' where i: "asid_alloc s = (Inr (of_nat i), s')" "i < NASID" "i \<notin> asids s"
    "\<And>j. j < i \<Longrightarrow> j \<in> asids s" "asids s' = insert i (asids s)"
    by (rule asid_alloc_free) blast
  have "unat (of_nat i :: u32) = i" using i(2) by (simp add: word_of_nat_unat_eq)
  then show ?thesis using i asids_free [OF i(2), of s'] by auto
qed

end
