(* ===== verification/Syscall_Props.thy ===== *)
theory Syscall_Props
  imports Kernel_Props
begin

text \<open>
  The correctness properties of the system calls: permission checks, memory calls, process
  creation, the run queue invariant, and interprocess communication.
\<close>

section \<open>Naming environments\<close>

text \<open>Which environments a system call with \<^verbatim>\<open>checkperm\<close> may name.\<close>

definition may_name :: "kstate \<Rightarrow> nat \<Rightarrow> u32 \<Rightarrow> nat \<Rightarrow> bool" where
  "may_name s c envid e \<longleftrightarrow>
     (if envid = 0 then e = c
      else e = ENVX envid \<and> env_status (envs s e) \<noteq> ENV_FREE \<and> env_id (envs s e) = envid \<and>
        (e = c \<or> env_parent_id (envs s e) = env_id (envs s c)))"

lemma envid2env_eq:
  assumes "curenv s = Some c"
  shows "envid2env envid True s =
    (if \<exists>e. may_name s c envid e then Some (Inr (Some (if envid = 0 then c else ENVX envid)))
     else Some (Inl E_BAD_ENV))"
  using assms by (auto simp: envid2env_def may_name_def Let_def)

lemma may_name_unique: "may_name s c envid e \<Longrightarrow> e = (if envid = 0 then c else ENVX envid)"
  by (auto simp: may_name_def split: if_splits)

lemma with_env_ok:
  assumes "curenv s = Some c" and "may_name s c envid e"
  shows "with_env envid True s f = f e"
  using envid2env_eq [OF assms(1), of envid] assms(2) may_name_unique [OF assms(2)]
  by (auto simp: with_env_def)

lemma with_env_bad:
  assumes "curenv s = Some c" and "\<nexists>e. may_name s c envid e"
  shows "with_env envid True s f = Some (Ret (Inl E_BAD_ENV), s)"
  using envid2env_eq [OF assms(1), of envid] assms(2) by (simp add: with_env_def)

text \<open>The living environments carry identifiers that lead to their place in the table.  \<^verbatim>\<open>mkenvid\<close> sees to that.\<close>

definition ids_ok :: "kstate \<Rightarrow> bool" where
  "ids_ok s \<longleftrightarrow> (\<forall>e < NENV. env_status (envs s e) \<noteq> ENV_FREE \<longrightarrow> ENVX (env_id (envs s e)) = e)"

lemma env_alloc_ids:
  assumes "ids_ok s" and "kern_inv A rt b K s" and "e \<notin> A" and e: "e < NENV" and "list_rep (env_free_list s) (e # fl)"
    and "lh_first (page_free_list s) = Some p" and "asids s \<noteq> {..<NASID}"
  shows "\<exists>s'. env_alloc parent s = Some (Inr e, s') \<and> ids_ok s'"
proof -
  obtain s' where s': "env_alloc parent s = Some (Inr e, s')" "\<forall>d. d \<noteq> e \<longrightarrow> envs s' d = envs s d"
    "env_id (envs s' e) = fst (mkenvid e s)"
    using env_alloc_ok [OF assms(2-7), of parent] by blast
  have "ENVX (env_id (envs s' d)) = d" if "d < NENV" "env_status (envs s' d) \<noteq> ENV_FREE" for d
    using s'(2,3) assms(1) that ENVX_mkenvid [OF e, of s] by (cases "d = e") (auto simp: ids_ok_def)
  then show ?thesis using s'(1) by (auto simp: ids_ok_def)
qed

text \<open>The living environment with a given identifier, by a search through the whole table.\<close>

definition env_search :: "u32 \<Rightarrow> kstate \<Rightarrow> nat option" where
  "env_search envid s = find (\<lambda>e. env_status (envs s e) \<noteq> ENV_FREE \<and> env_id (envs s e) = envid) [0..<NENV]"

lemma env_search_index:
  assumes "ids_ok s"
  shows "env_search envid s = (let e = ENVX envid in
    if env_status (envs s e) \<noteq> ENV_FREE \<and> env_id (envs s e) = envid then Some e else None)"
proof (cases "env_search envid s")
  case None
  have "ENVX envid < NENV" using take_bit_nat_less_exp [of 10 "unat envid"] by (simp add: ENVX_def and_mask_10 unsigned_take_bit_eq)
  then show ?thesis using None by (auto simp: env_search_def find_None_iff Let_def)
next
  case (Some e)
  then have "e < NENV" "env_status (envs s e) \<noteq> ENV_FREE" "env_id (envs s e) = envid"
    by (auto simp: env_search_def find_Some_iff)
  then show ?thesis using Some assms by (auto simp: ids_ok_def Let_def)
qed

text \<open>C14. \<^verbatim>\<open>envid2env\<close> indexes the table with the low bits of the identifier and finds exactly what a search of
  the whole table finds: the living environment that carries the identifier now, and \<^verbatim>\<open>-E_BAD_ENV\<close> when there is
  none, as for the identifier of an environment that has been freed or whose place has been given to
  another.  This holds with and without the permission check; with it, an environment that is neither the caller
  nor an immediate child is refused.  The identifier 0 names the caller.\<close>

theorem envid2env_correct:
  assumes "ids_ok s" and "curenv s = Some c"
  shows "envid2env envid checkperm s = Some (if envid = 0 then Inr (Some c) else
    case env_search envid s of
      None \<Rightarrow> Inl E_BAD_ENV
    | Some e \<Rightarrow> if checkperm \<and> e \<noteq> c \<and> env_parent_id (envs s e) \<noteq> env_id (envs s c) then Inl E_BAD_ENV else Inr (Some e))"
  using assms(2) by (auto simp: envid2env_def env_search_index [OF assms(1)] Let_def)


theorem envid2env_correct_witness:
  "envid2env 0x800 False (small\<lparr>envs := (\<lambda>e. if e = 0 then small_env 0 else env_zero)\<rparr>) = Some (Inr (Some 0)) \<and>
   envid2env 0x1000 False (small\<lparr>envs := (\<lambda>e. if e = 0 then small_env 0 else env_zero)\<rparr>) = Some (Inl E_BAD_ENV)"
proof -
  let ?s = "small\<lparr>envs := (\<lambda>e. if e = 0 then small_env 0 else env_zero)\<rparr>"
  have i: "ids_ok ?s" by (simp add: ids_ok_def ENVX_def env_zero_def)
  have "env_search 0x800 ?s = Some 0" "env_search 0x1000 ?s = None"
    by (simp_all only: env_search_index [OF i]) (simp_all add: ENVX_def Let_def)
  then show ?thesis
    using envid2env_correct [OF i, of 0 "0x800" False] envid2env_correct [OF i, of 0 "0x1000" False] by simp
qed

section \<open>Memory calls\<close>

lemma legal_va: "\<not> is_illegal_va va \<Longrightarrow> va < UTOP"
  by (simp add: is_illegal_va_def not_le)

lemma env_slot:
  "e \<in> A \<Longrightarrow> va < UTOP \<Longrightarrow> slot_of (rt e) va \<in> dir_slots (rt ` A) b"
  using PDX_user [of va] by (auto simp: slot_of_def dir_slots_def)

lemma kern_invD:
  assumes "kern_inv A rt b K s"
  shows "space_inv (dir_slots (rt ` A) b) (dir_refs (rt ` A) b K) s" and "inj_on rt A"
    and "\<And>e. e \<in> A \<Longrightarrow> env_pgdir (envs s e) = pgdir_kva (rt e)"
  using assms by (auto simp: kern_inv_def)

lemma kern_inv_rest:
  assumes "kern_inv A rt b K s" and "same_rest s s'"
    and "space_inv (dir_slots (rt ` A) b) (dir_refs (rt ` A) b K) s'"
  shows "kern_inv A rt b K s'"
  using assms kstate_rest [OF assms(2)] by (simp add: kern_inv_def)

text \<open>The mappings of the environments, as a system call may change them.\<close>

definition spaces_upd :: "nat set \<Rightarrow> (nat \<Rightarrow> nat) \<Rightarrow> nat \<Rightarrow> u32 \<Rightarrow> u32 option \<Rightarrow> kstate \<Rightarrow> kstate \<Rightarrow> bool" where
  "spaces_upd A rt e va new s s' \<longleftrightarrow> (\<forall>d \<in> A. \<forall>va' < UTOP. mapping s' (rt d) va' =
     (if d = e \<and> VPN va' = VPN va then new else mapping s (rt d) va'))"

lemma spaces_remapped:
  assumes "remapped (dir_slots (rt ` A) b) (rt e) va new s s'" and "inj_on rt A" and "e \<in> A"
  shows "spaces_upd A rt e va new s s'"
  unfolding spaces_upd_def
proof (intro ballI allI impI)
  fix d va' assume d: "d \<in> A" and va': "va' < UTOP"
  have "rt d = rt e \<longleftrightarrow> d = e" using assms(2,3) d by (auto simp: inj_on_def)
  then show "mapping s' (rt d) va' = (if d = e \<and> VPN va' = VPN va then new else mapping s (rt d) va')"
    using remapped_mapping [OF assms(1) env_slot [OF d va']] by simp
qed

lemma sys_mem_alloc_ok:
  assumes inv: "kern_inv A rt b K s" and cur: "curenv s = Some c" and name: "may_name s c envid e"
    and e: "e \<in> A" and va: "\<not> is_illegal_va va" and perm: "perm_ok perm"
    and free: "list_rep (page_free_list s) (p # xs)" and room: "\<not> no_room (rt e) va xs s"
  shows "\<exists>s'. sys_mem_alloc envid va perm s = Some (Ret (Inr 0), s') \<and> kern_inv A rt b K s' \<and>
    spaces_upd A rt e va (Some (mk_pte p perm)) s s' \<and> pmem s' p = (\<lambda>_. 0) \<and>
    same_rest s s' \<and> (mapping s (rt e) va = None \<longrightarrow> pp_ref s' p = 1) \<and>
    (\<forall>q. q \<notin> tables (dir_slots (rt ` A) b) s' \<longrightarrow> q \<notin> fst ` dir_slots (rt ` A) b \<longrightarrow> q \<noteq> p \<longrightarrow> pmem s' q = pmem s q)"
proof -
  let ?S = "dir_slots (rt ` A) b" and ?X = "dir_refs (rt ` A) b K"
  note k = kern_invD [OF inv]
  have first: "lh_first (page_free_list s) = Some p" by (rule lq.pop(1) [OF free])
  obtain ys where ys: "vm_inv ?S ?X (p # ys) s" "no_leak (p # ys) s"
    by (rule space_inv_first [OF k(1) first])
  then have "ys = xs" using list_rep_unique [OF free vm_invD(2) [OF ys(1)]] by simp
  with ys have vm: "vm_inv ?S ?X (p # xs) s" and leak: "no_leak (p # xs) s" by simp_all
  have slot: "slot_of (rt e) va \<in> ?S" by (rule env_slot [OF e legal_va [OF va]])
  obtain s1 s' zs where s': "page_alloc s = Some (Inr p, s1)" "same_rest s s1"
    "page_insert (pgdir_kva (rt e)) (env_asid (envs s e)) p va perm s1 = Some (Inr (), s')"
    "same_rest s s'" "vm_inv ?S ?X zs s'" "remapped ?S (rt e) va (Some (mk_pte p perm)) s s'"
    "pmem s' p = (\<lambda>_. 0)" "no_leak zs s'" "mapping s (rt e) va = None \<longrightarrow> pp_ref s' p = 1"
    "\<forall>q. q \<notin> tables ?S s' \<longrightarrow> q \<notin> fst ` ?S \<longrightarrow> q \<noteq> p \<longrightarrow> pmem s' q = pmem s q"
    using alloc_insert_ok [OF vm slot room perm, of "env_asid (envs s e)"] leak
    by (elim exE conjE) (rule that, assumption+, erule (1) HOL.mp, assumption+)
  have "sys_mem_alloc envid va perm s = Some (Ret (Inr 0), s')"
    using va s'(1,3) k(3) [OF e] kstate_rest(1) [OF s'(2)]
    by (simp add: sys_mem_alloc_def with_env_ok [OF cur name] ret_unit_def)
  moreover have "kern_inv A rt b K s'"
    using kern_inv_rest [OF inv s'(4)] s'(5,8) by (auto simp: space_inv_def)
  ultimately show ?thesis using spaces_remapped [OF s'(6) k(2) e] s'(4,7,9,10)
    by (intro exI conjI)
qed

lemma small_may_name: "may_name small 0 0 0"
  by (simp add: may_name_def)

lemma small_names: "{d. \<exists>envid. may_name small 0 envid d} \<subseteq> {0}"
  by (auto simp: may_name_def small_env_def env_zero_def split: if_splits)

lemma legal_400000: "\<not> is_illegal_va 0x400000"
  by (simp add: is_illegal_va_def mmu_layout)

lemma mapped_mappable:
  assumes inv: "vm_inv S X xs s" and slot: "slot_of r va \<in> S" and m: "mapping s r va = Some e"
    and "pp_ref s (pte_page e) \<noteq> 65535"
  shows "mappable S xs (pte_page e) s"
  using data_okD [OF vm_invD(5) [OF inv] slot m] mapped_ref [OF inv slot m] vm_invD(4) [OF inv] assms(4)
  by (auto simp: mappable_def free_ok_def)

lemma kern_vm:
  assumes "kern_inv A rt b K s"
  obtains xs where "vm_inv (dir_slots (rt ` A) b) (dir_refs (rt ` A) b K) xs s" and "no_leak xs s"
    and "list_rep (page_free_list s) xs"
  using kern_invD(1) [OF assms] vm_invD(2) unfolding space_inv_def by blast

text \<open>Mapping a page that is mapped somewhere already, in another place.\<close>

lemma share_page:
  assumes inv: "kern_inv A rt b K s" and d: "d \<in> A" "dstva < UTOP" and c: "c \<in> A" "srcva < UTOP"
    and m: "mapping s (rt c) srcva = Some pte" and ref: "pp_ref s (pte_page pte) \<noteq> 65535"
    and room: "\<And>xs. list_rep (page_free_list s) xs \<Longrightarrow> \<not> no_room (rt d) dstva xs s"
    and perm: "perm_ok perm"
  shows "\<exists>s'. page_insert (env_pgdir (envs s d)) asid (pte_page pte) dstva perm s = Some (Inr (), s') \<and>
    kern_inv A rt b K s' \<and> spaces_upd A rt d dstva (Some (mk_pte (pte_page pte) perm)) s s' \<and> same_rest s s' \<and>
    data_kept (dir_slots (rt ` A) b) s s' \<and>
    (mapping s (rt d) dstva = None \<longrightarrow> pp_ref s' (pte_page pte) = pp_ref s (pte_page pte) + 1)"
proof -
  let ?S = "dir_slots (rt ` A) b" and ?X = "dir_refs (rt ` A) b K"
  note k = kern_invD [OF inv]
  obtain xs where xs: "vm_inv ?S ?X xs s" "no_leak xs s" "list_rep (page_free_list s) xs"
    by (rule kern_vm [OF inv])
  note slots = env_slot [OF d, of rt b] env_slot [OF c, of rt b]
  have mp: "mappable ?S xs (pte_page pte) s" by (rule mapped_mappable [OF xs(1) slots(2) m ref])
  have leak: "no_leak (pte_page pte # xs) s" using xs(2) by (auto simp: no_leak_def)
  obtain s' ys where s': "page_insert (pgdir_kva (rt d)) asid (pte_page pte) dstva perm s = Some (Inr (), s')"
    "vm_inv ?S ?X ys s'" "remapped ?S (rt d) dstva (Some (mk_pte (pte_page pte) perm)) s s'" "no_leak ys s'"
    "data_kept ?S s s'" "mapping s (rt d) dstva = None \<longrightarrow> pp_ref s' (pte_page pte) = pp_ref s (pte_page pte) + 1"
    using page_insert_ok [OF xs(1) slots(1) room [OF xs(3)] mp perm, of asid] leak 
    by (elim exE conjE) (rule that, assumption+, erule (1) HOL.mp, assumption+)
  have rest: "same_rest s s'" by (rule page_insert_rest [OF s'(1)])
  have "kern_inv A rt b K s'"
    using kern_inv_rest [OF inv rest] s'(2,4) by (auto simp: space_inv_def)
  then show ?thesis
    using s'(1,5,6) k(3) [OF d(1)] spaces_remapped [OF s'(3) k(2) d(1)] rest by auto
qed

text \<open>The refusals of \<^verbatim>\<open>sys_mem_map\<close>.\<close>

lemma map_refused:
  assumes cur: "curenv s = Some c"
  shows "is_illegal_va srcva \<or> is_illegal_va va \<Longrightarrow> sys_mem_map srcid srcva envid va perm s = Some (Ret (Inl E_INVAL), s)"
    and "\<not> is_illegal_va srcva \<Longrightarrow> \<not> is_illegal_va va \<Longrightarrow> (\<nexists>e. may_name s c srcid e) \<or> (\<nexists>e. may_name s c envid e) \<Longrightarrow>
      sys_mem_map srcid srcva envid va perm s = Some (Ret (Inl E_BAD_ENV), s)"
proof -
  have two: "with_env srcid True s (\<lambda>src. with_env envid True s (f src)) = Some (Ret (Inl E_BAD_ENV), s)"
    if "(\<nexists>e. may_name s c srcid e) \<or> (\<nexists>e. may_name s c envid e)" for f
    using that with_env_bad [OF cur] with_env_ok [OF cur, of srcid] by metis
  show "is_illegal_va srcva \<or> is_illegal_va va \<Longrightarrow> sys_mem_map srcid srcva envid va perm s = Some (Ret (Inl E_INVAL), s)"
    by (simp add: sys_mem_map_def)
  show "\<not> is_illegal_va srcva \<Longrightarrow> \<not> is_illegal_va va \<Longrightarrow> (\<nexists>e. may_name s c srcid e) \<or> (\<nexists>e. may_name s c envid e) \<Longrightarrow>
      sys_mem_map srcid srcva envid va perm s = Some (Ret (Inl E_BAD_ENV), s)"
    by (simp add: sys_mem_map_def two)
qed

text \<open>No environment's mappings have changed.\<close>

definition spaces_same :: "nat set \<Rightarrow> (nat \<Rightarrow> nat) \<Rightarrow> kstate \<Rightarrow> kstate \<Rightarrow> bool" where
  "spaces_same A rt s s' \<longleftrightarrow> (\<forall>d \<in> A. \<forall>va < UTOP. mapping s' (rt d) va = mapping s (rt d) va)"

text \<open>C6. \<^verbatim>\<open>sys_mem_map\<close> on every branch.  An illegal address, whichever it is, gives \<^verbatim>\<open>-E_INVAL\<close>; an identifier that
  names neither the caller nor a living child gives \<^verbatim>\<open>-E_BAD_ENV\<close>; an unmapped source gives \<^verbatim>\<open>-E_INVAL\<close>; these
  change nothing.  When a table is missing and no page is free it gives \<^verbatim>\<open>-E_NO_MEM\<close> and no mapping changes.
  Otherwise it returns 0, the destination maps the same page as the source with the given permission, and no other
  mapping changes.  The kernel invariant is kept throughout.\<close>

theorem sys_mem_map_correct:
  assumes inv: "kern_inv A rt b K s" and cur: "curenv s = Some c" and names: "{d. \<exists>envid. may_name s c envid d} \<subseteq> A"
    and perm: "perm_ok perm" and ref: "\<And>p. pp_ref s p \<noteq> 65535" and free: "list_rep (page_free_list s) xs"
  shows "\<exists>r s'. sys_mem_map srcid srcva dstid dstva perm s = Some (Ret r, s') \<and> kern_inv A rt b K s' \<and>
    (if is_illegal_va srcva \<or> is_illegal_va dstva then r = Inl E_INVAL \<and> s' = s
     else if (\<nexists>d. may_name s c srcid d) \<or> (\<nexists>d. may_name s c dstid d) then r = Inl E_BAD_ENV \<and> s' = s
     else \<exists>src dst. may_name s c srcid src \<and> may_name s c dstid dst \<and>
       (case mapping s (rt src) srcva of
          None \<Rightarrow> r = Inl E_INVAL \<and> s' = s
        | Some pte \<Rightarrow> if no_room (rt dst) dstva xs s then r = Inl E_NO_MEM \<and> spaces_same A rt s s'
            else r = Inr 0 \<and> spaces_upd A rt dst dstva (Some (mk_pte (pte_page pte) perm)) s s'))"
proof -
  have A: "d \<in> A" if "may_name s c envid d" for envid d using names that by blast
  consider "is_illegal_va srcva \<or> is_illegal_va dstva"
    | "\<not> (is_illegal_va srcva \<or> is_illegal_va dstva)" "(\<nexists>d. may_name s c srcid d) \<or> (\<nexists>d. may_name s c dstid d)"
    | src dst where "\<not> is_illegal_va srcva" "\<not> is_illegal_va dstva" "may_name s c srcid src" "may_name s c dstid dst" by blast
  then show ?thesis
  proof cases
    case 1
    then show ?thesis using map_refused(1) [OF cur 1] inv by auto
  next
    case 2
    then show ?thesis using map_refused(2) [OF cur _ _ 2(2)] inv by auto
  next
    case (3 src dst)
    note srcA = A [OF 3(3)] and dstA = A [OF 3(4)]
    note we = with_env_ok [OF cur 3(3)] with_env_ok [OF cur 3(4)]
    obtain ys where vm: "vm_inv (dir_slots (rt ` A) b) (dir_refs (rt ` A) b K) ys s" and ll: "no_leak ys s" "list_rep (page_free_list s) ys"
      by (rule kern_vm [OF inv])
    have ys: "ys = xs" by (rule list_rep_unique [OF ll(2) free])
    have slot: "slot_of (rt dst) dstva \<in> dir_slots (rt ` A) b" by (rule env_slot [OF dstA legal_va [OF 3(2)]])
    have look: "page_lookup (env_pgdir (envs s src)) srcva s =
        Some (map_option (\<lambda>e. (pte_page e, pte_kva s (rt src) srcva)) (mapping s (rt src) srcva), s)"
      using page_lookup_eq [OF vm env_slot [OF srcA legal_va [OF 3(1)]]] kern_invD(3) [OF inv srcA] by simp
    have fin: ?thesis if run: "sys_mem_map srcid srcva dstid dstva perm s = Some (Ret r, s')" "kern_inv A rt b K s'"
      and C: "case mapping s (rt src) srcva of
          None \<Rightarrow> r = Inl E_INVAL \<and> s' = s
        | Some pte \<Rightarrow> if no_room (rt dst) dstva xs s then r = Inl E_NO_MEM \<and> spaces_same A rt s s'
            else r = Inr 0 \<and> spaces_upd A rt dst dstva (Some (mk_pte (pte_page pte) perm)) s s'" for r s'
    proof -
      have n: "\<not> (is_illegal_va srcva \<or> is_illegal_va dstva)" "\<not> ((\<nexists>d. may_name s c srcid d) \<or> (\<nexists>d. may_name s c dstid d))"
        using 3 by blast+
      show ?thesis
        by (rule exI [of _ r], rule exI [of _ s'], unfold if_not_P [OF n(1)] if_not_P [OF n(2)]) (use run 3(3,4) C in blast)
    qed
    show ?thesis
    proof (cases "mapping s (rt src) srcva")
      case None
      then have "sys_mem_map srcid srcva dstid dstva perm s = Some (Ret (Inl E_INVAL), s)"
        using 3 look by (simp add: sys_mem_map_def we)
      then show ?thesis using inv None by (intro fin) auto
    next
      case (Some pte)
      show ?thesis
      proof (cases "no_room (rt dst) dstva xs s")
        case True
        let ?s' = "tlb_invalidate (env_asid (envs s dst)) dstva s"
        have "sys_mem_map srcid srcva dstid dstva perm s = Some (Ret (Inl E_NO_MEM), ?s')"
          using 3 look Some page_insert_no_mem [OF vm slot True [folded ys], of "env_asid (envs s dst)" "pte_page pte" perm]
            kern_invD(3) [OF inv dstA]
          by (simp add: sys_mem_map_def we ret_unit_def)
        moreover have "kern_inv A rt b K ?s'"
          using kern_inv_rest [OF inv tlb_invalidate_rest] vm ll(1)
          by (auto simp: space_inv_def tlb_invalidate_def tlb_out_def no_leak_def vm_inv_tlb_upd)
        moreover have "spaces_same A rt s ?s'" by (simp add: spaces_same_def tlb_invalidate_def tlb_out_def mapping_tlb_upd)
        ultimately show ?thesis using Some True by (intro fin) auto
      next
        case False
        then have room: "\<not> no_room (rt dst) dstva zs s" if "list_rep (page_free_list s) zs" for zs
          using list_rep_unique [OF that free] by simp
        obtain s' where s': "page_insert (env_pgdir (envs s dst)) (env_asid (envs s dst)) (pte_page pte) dstva perm s = Some (Inr (), s')"
          "kern_inv A rt b K s'" "spaces_upd A rt dst dstva (Some (mk_pte (pte_page pte) perm)) s s'"
          using share_page [OF inv dstA legal_va [OF 3(2)] srcA legal_va [OF 3(1)] Some ref room perm, of "env_asid (envs s dst)"] by blast
        then have "sys_mem_map srcid srcva dstid dstva perm s = Some (Ret (Inr 0), s')"
          using 3 look Some by (simp add: sys_mem_map_def we ret_unit_def)
        then show ?thesis using Some False s' by (intro fin) auto
      qed
    qed
  qed
qed


theorem sys_mem_map_correct_witness:
  "\<exists>r s'. sys_mem_map 0 0x400000 0x800 0x500000 PTE_D small = Some (Ret r, s') \<and> r = Inl E_INVAL \<and> s' = small"
proof -
  have c: "curenv small = Some 0" and perm: "perm_ok PTE_D" and ref: "\<And>p. pp_ref small p \<noteq> 65535" by (simp_all add: perm_ok_def)
  have n: "\<exists>d. may_name small 0 0x800 d" "\<exists>d. may_name small 0 0 d"
    using small_may_name by (auto simp: may_name_def ENVX_def)
  have v: "\<not> (is_illegal_va 0x400000 \<or> is_illegal_va 0x500000)" by (simp add: is_illegal_va_def mmu_layout)
  have m: "mapping small 1 0x400000 = None" by (rule small_mapping [OF small_slot])
  have b: "\<not> ((\<nexists>d. may_name small 0 0 d) \<or> (\<nexists>d. may_name small 0 0x800 d))" using n by blast
  show ?thesis
    using sys_mem_map_correct [OF small_kern c small_names perm ref small_free,
        where srcid = 0 and srcva = "0x400000" and dstid = "0x800" and dstva = "0x500000"]
    unfolding if_not_P [OF v] if_not_P [OF b] m by (elim exE conjE) auto
qed

text \<open>The last free page is taken for the data and a table is missing: the page is lost.\<close>

lemma alloc_leak:
  assumes vm: "vm_inv S X (p # xs) s" and slot: "slot_of r va \<in> S" and room: "no_room r va xs s"
  shows "\<exists>s1 s'. page_alloc s = Some (Inr p, s1) \<and> same_rest s s1 \<and> page_insert (pgdir_kva r) asid p va perm s1 = Some (Inl E_NO_MEM, s') \<and>
    vm_inv S X [] s' \<and> pp_ref s' p = 0 \<and> (\<forall>r' va'. slot_of r' va' \<in> S \<longrightarrow> mapping s' r' va' = mapping s r' va')"
proof -
  have xs: "xs = []" using room by (simp add: no_room_def)
  obtain s1 where s1: "page_alloc s = Some (Inr p, s1)" "same_rest s s1" "pp_ref s1 = pp_ref s"
    "pmem s1 = (pmem s)(p := (\<lambda>_. 0))" "list_rep (page_free_list s1) xs" "tlb s1 = tlb s"
    by (rule page_alloc_split [OF vm_invD(4) [OF vm]])
  note p = free_page_unused [OF vm list.set_intros(1)]
  have inv1: "vm_inv S X [] s1" using page_alloc_inv [OF vm] s1(1) xs by auto
  have view: "pmem s1 r' i = pmem s r' i" "pte_at s1 r' i j = pte_at s r' i j"
    if "(r', i) \<in> S" for r' i j
    using frame_view [OF p(5,3) _ that, of s1] s1(4) by auto
  have room1: "no_room r va [] s1" using room view(1) slot by (simp add: no_room_def slot_of_def)
  let ?s' = "tlb_invalidate asid va s1"
  have "page_insert (pgdir_kva r) asid p va perm s1 = Some (Inl E_NO_MEM, ?s')"
    by (rule page_insert_no_mem [OF inv1 slot room1])
  moreover have "vm_inv S X [] ?s'" using inv1 by (simp add: vm_inv_tlb)
  moreover have "pp_ref ?s' p = 0"
    using vm_invD(4) [OF vm] by (simp add: free_ok_def tlb_invalidate_def tlb_out_def s1(3))
  moreover have "mapping ?s' r' va' = mapping s r' va'" if "slot_of r' va' \<in> S" for r' va'
    using view(2) that by (simp add: tlb_invalidate_def tlb_out_def mapping_tlb_upd) (simp add: mapping_def slot_of_def)
  ultimately show ?thesis using s1(1,2) by blast
qed

text \<open>C7. \<^verbatim>\<open>sys_mem_alloc\<close> on every branch.  An illegal address gives \<^verbatim>\<open>-E_INVAL\<close>, an identifier that names
  neither the caller nor a living child \<^verbatim>\<open>-E_BAD_ENV\<close>, no free page \<^verbatim>\<open>-E_NO_MEM\<close>; these change nothing.  When
  the only free page is taken and a table is missing it gives \<^verbatim>\<open>-E_NO_MEM\<close> without changing a mapping, but the
  page is lost: neither free nor referenced.  Otherwise it returns 0, the address maps to the first free page with the
  given permission, the page is filled with zeros, no other address of any environment changes, and the kernel
  invariant is kept.\<close>

theorem sys_mem_alloc_correct:
  assumes inv: "kern_inv A rt b K s" and cur: "curenv s = Some c" and names: "{d. \<exists>envid. may_name s c envid d} \<subseteq> A"
    and perm: "perm_ok perm" and free: "list_rep (page_free_list s) xs"
  shows "\<exists>r s'. sys_mem_alloc envid va perm s = Some (Ret r, s') \<and>
    (if is_illegal_va va then r = Inl E_INVAL \<and> s' = s
     else if \<nexists>d. may_name s c envid d then r = Inl E_BAD_ENV \<and> s' = s
     else \<exists>e. may_name s c envid e \<and>
       (case xs of
          [] \<Rightarrow> r = Inl E_NO_MEM \<and> s' = s
        | p # ys \<Rightarrow>
            if no_room (rt e) va ys s
            then r = Inl E_NO_MEM \<and> spaces_same A rt s s' \<and> list_rep (page_free_list s') [] \<and> pp_ref s' p = 0
            else r = Inr 0 \<and> kern_inv A rt b K s' \<and> spaces_upd A rt e va (Some (mk_pte p perm)) s s' \<and> pmem s' p = (\<lambda>_. 0)))"
proof -
  have A: "d \<in> A" if "may_name s c envid d" for envid d using names that by blast
  consider "is_illegal_va va" | "\<not> is_illegal_va va" "\<nexists>d. may_name s c envid d"
    | e where "\<not> is_illegal_va va" "may_name s c envid e" by blast
  then show ?thesis
  proof cases
    case 1
    then show ?thesis by (simp add: sys_mem_alloc_def)
  next
    case 2
    then show ?thesis using with_env_bad [OF cur 2(2)] by (simp add: sys_mem_alloc_def)
  next
    case (3 e)
    note eA = A [OF 3(2)] and we = with_env_ok [OF cur 3(2)]
    obtain zs where vm: "vm_inv (dir_slots (rt ` A) b) (dir_refs (rt ` A) b K) zs s" and ll: "list_rep (page_free_list s) zs"
      by (rule kern_vm [OF inv])
    have zs: "zs = xs" by (rule list_rep_unique [OF ll free])
    have slot: "slot_of (rt e) va \<in> dir_slots (rt ` A) b" by (rule env_slot [OF eA legal_va [OF 3(1)]])
    have fin: ?thesis if run: "sys_mem_alloc envid va perm s = Some (Ret r, s')"
      and C: "case xs of
          [] \<Rightarrow> r = Inl E_NO_MEM \<and> s' = s
        | p # ys \<Rightarrow>
            if no_room (rt e) va ys s
            then r = Inl E_NO_MEM \<and> spaces_same A rt s s' \<and> list_rep (page_free_list s') [] \<and> pp_ref s' p = 0
            else r = Inr 0 \<and> kern_inv A rt b K s' \<and> spaces_upd A rt e va (Some (mk_pte p perm)) s s' \<and> pmem s' p = (\<lambda>_. 0)" for r s'
    proof -
      have n: "\<not> (\<nexists>d. may_name s c envid d)" using 3 by blast
      show ?thesis
        by (rule exI [of _ r], rule exI [of _ s'], unfold if_not_P [OF 3(1)] if_not_P [OF n]) (use run 3(2) C in blast)
    qed
    show ?thesis
    proof (cases xs)
      case Nil
      have "lh_first (page_free_list s) = None" using lq.first_None [OF free] Nil by simp
      then have "page_alloc s = Some (Inl E_NO_MEM, s)" by (simp add: page_alloc_def)
      then have "sys_mem_alloc envid va perm s = Some (Ret (Inl E_NO_MEM), s)"
        using 3(1) by (simp add: sys_mem_alloc_def we ret_unit_def)
      then show ?thesis using Nil by (intro fin) auto
    next
      case (Cons p ys)
      show ?thesis
      proof (cases "no_room (rt e) va ys s")
        case True
        obtain s1 s' where s': "page_alloc s = Some (Inr p, s1)" "same_rest s s1"
          "page_insert (pgdir_kva (rt e)) (env_asid (envs s e)) p va perm s1 = Some (Inl E_NO_MEM, s')"
          "vm_inv (dir_slots (rt ` A) b) (dir_refs (rt ` A) b K) [] s'" "pp_ref s' p = 0"
          "\<forall>r' va'. slot_of r' va' \<in> dir_slots (rt ` A) b \<longrightarrow> mapping s' r' va' = mapping s r' va'"
          using alloc_leak [OF vm [unfolded zs Cons] slot True, of "env_asid (envs s e)" perm] by blast
        have "sys_mem_alloc envid va perm s = Some (Ret (Inl E_NO_MEM), s')"
          using 3(1) s'(1,3) kern_invD(3) [OF inv eA] kstate_rest(1) [OF s'(2)] by (simp add: sys_mem_alloc_def we ret_unit_def)
        moreover have "spaces_same A rt s s'" unfolding spaces_same_def by (intro ballI allI impI) (simp add: s'(6) env_slot)
        ultimately show ?thesis using Cons True s'(5) vm_invD(2) [OF s'(4)] by (intro fin) auto
      next
        case False
        obtain s' where "sys_mem_alloc envid va perm s = Some (Ret (Inr 0), s')" "kern_inv A rt b K s'"
          "spaces_upd A rt e va (Some (mk_pte p perm)) s s'" "pmem s' p = (\<lambda>_. 0)"
          using sys_mem_alloc_ok [OF inv cur 3(2) eA 3(1) perm free [unfolded Cons] False] by blast
        then show ?thesis using Cons False by (intro fin) auto
      qed
    qed
  qed
qed

theorem sys_mem_alloc_correct_witness:
  "\<exists>s'. sys_mem_alloc 0 0x400000 PTE_D small = Some (Ret (Inr 0), s') \<and>
     kern_inv {0} (\<lambda>_. 1) 2 small_K s' \<and> pmem s' 15 = (\<lambda>_. 0)"
proof -
  have c: "curenv small = Some 0" and perm: "perm_ok PTE_D" by (simp_all add: perm_ok_def)
  have b: "\<not> (\<nexists>d. may_name small 0 0 d)" using small_may_name by blast
  have r: "\<not> no_room 1 0x400000 [14, 13, 12, 11, 10, 9, 8, 7, 6, 5, 4, 3] small" by (simp add: no_room_def)
  show ?thesis
    using sys_mem_alloc_correct [OF small_kern c small_names perm small_free [unfolded small_free_list], where envid = 0 and va = "0x400000"]
    unfolding if_not_P [OF legal_400000] if_not_P [OF b] list.case if_not_P [OF r] by blast
qed

text \<open>\<^verbatim>\<open>sys_mem_unmap\<close> at a legal address of an environment the caller may name returns 0, and
  unmaps that address and no other; the kernel invariant is kept, so a page that lost its
  last reference is free again.\<close>

theorem sys_mem_unmap_correct:
  assumes inv: "kern_inv A rt b K s" and cur: "curenv s = Some c" and name: "may_name s c envid e"
    and e: "e \<in> A" and va: "\<not> is_illegal_va va"
  shows "\<exists>s'. sys_mem_unmap envid va s = Some (Ret (Inr 0), s') \<and> kern_inv A rt b K s' \<and>
    spaces_upd A rt e va None s s' \<and> same_rest s s' \<and> data_kept (dir_slots (rt ` A) b) s s'"
proof -
  let ?S = "dir_slots (rt ` A) b" and ?X = "dir_refs (rt ` A) b K"
  note k = kern_invD [OF inv]
  obtain xs where xs: "vm_inv ?S ?X xs s" "no_leak xs s" by (rule kern_vm [OF inv])
  obtain s' where s': "page_remove (pgdir_kva (rt e)) (env_asid (envs s e)) va s = Some s'"
    "vm_inv ?S ?X (freed (mapping s (rt e) va) s @ xs) s'" "remapped ?S (rt e) va None s s'"
    "npage s' = npage s" "pp_ref s' = (case mapping s (rt e) va of None \<Rightarrow> pp_ref s
       | Some e \<Rightarrow> (pp_ref s)(pte_page e := pp_ref s (pte_page e) - 1))" "data_kept ?S s s'"
    using page_remove_ok [OF xs(1) env_slot [OF e legal_va [OF va]], of "env_asid (envs s e)"] by blast
  have "kern_inv A rt b K s'"
    using kern_inv_rest [OF inv page_remove_rest [OF s'(1)]] s'(2) page_remove_no_leak [OF xs(2) s'(4,5)]
    by (auto simp: space_inv_def)
  then show ?thesis
    using s'(1,6) va page_remove_rest [OF s'(1)] k(3) [OF e] spaces_remapped [OF s'(3) k(2) e]
    by (auto simp: sys_mem_unmap_def with_env_ok [OF cur name])
qed

theorem sys_mem_unmap_correct_witness:
  "\<exists>s'. sys_mem_unmap 0 0x400000 small = Some (Ret (Inr 0), s') \<and> kern_inv {0} (\<lambda>_. 1) 2 small_K s'"
  using sys_mem_unmap_correct [OF small_kern _ small_may_name _ legal_400000] by auto

text \<open>C15. Refused memory calls change nothing.  An address outside \<open>[UTEMP, UTOP)\<close>, whichever argument
  it is, gives \<^verbatim>\<open>-E_INVAL\<close>; at legal addresses an identifier that names neither the caller nor
  a living child of it gives \<^verbatim>\<open>-E_BAD_ENV\<close>.  In both cases the state is exactly the one before
  the call.\<close>

theorem sys_mem_refused:
  assumes cur: "curenv s = Some c"
  shows "(is_illegal_va va \<longrightarrow> sys_mem_alloc envid va perm s = Some (Ret (Inl E_INVAL), s) \<and>
      sys_mem_unmap envid va s = Some (Ret (Inl E_INVAL), s)) \<and>
    (is_illegal_va srcva \<or> is_illegal_va va \<longrightarrow>
      sys_mem_map srcid srcva envid va perm s = Some (Ret (Inl E_INVAL), s)) \<and>
    (\<not> is_illegal_va va \<and> (\<nexists>e. may_name s c envid e) \<longrightarrow>
      sys_mem_alloc envid va perm s = Some (Ret (Inl E_BAD_ENV), s) \<and>
      sys_mem_unmap envid va s = Some (Ret (Inl E_BAD_ENV), s)) \<and>
    (\<not> is_illegal_va srcva \<and> \<not> is_illegal_va va \<and>
      ((\<nexists>e. may_name s c srcid e) \<or> (\<nexists>e. may_name s c envid e)) \<longrightarrow>
      sys_mem_map srcid srcva envid va perm s = Some (Ret (Inl E_BAD_ENV), s))"
proof -
  have two: "with_env srcid True s (\<lambda>src. with_env envid True s (f src)) = Some (Ret (Inl E_BAD_ENV), s)"
    if "(\<nexists>e. may_name s c srcid e) \<or> (\<nexists>e. may_name s c envid e)" for f
    using that with_env_bad [OF cur] with_env_ok [OF cur, of srcid] by metis
  then show ?thesis
    using with_env_bad [OF cur, of envid]
    by (simp add: sys_mem_alloc_def sys_mem_unmap_def sys_mem_map_def)
qed

theorem sys_mem_refused_witness:
  "sys_mem_map 0 0x400000 0 0x80000000 PTE_D small = Some (Ret (Inl E_INVAL), small) \<and>
   sys_mem_alloc 0x801 0x400000 PTE_D small = Some (Ret (Inl E_BAD_ENV), small)"
proof -
  have i: "is_illegal_va 0x80000000" by (simp add: is_illegal_va_def mmu_layout)
  have n: "\<nexists>d. may_name small 0 0x801 d"
    by (simp add: may_name_def ENVX_def small_env_def env_zero_def)
  show ?thesis
    using sys_mem_refused [of small 0 "0x80000000" 0 PTE_D "0x400000" 0] i
      sys_mem_refused [of small 0 "0x400000" "0x801" PTE_D] n legal_400000 by simp
qed

section \<open>Creating processes\<close>

lemma env_lists_exofork:
  assumes "env_lists (e # fl) q s" and "list_rep (env_free_list s') fl"
    and "env_sched_list s' = env_sched_list s" and "curenv s' = curenv s"
    and "\<And>d. d \<noteq> e \<Longrightarrow> envs s' d = envs s d" and "env_status (envs s' e) = ENV_NOT_RUNNABLE"
  shows "env_lists fl q s'"
proof -
  have e: "e < NENV" "env_status (envs s e) = ENV_FREE" "e \<notin> set fl"
    using env_listsD(3) [OF assms(1), of e] list_rep_distinct [OF env_listsD(1) [OF assms(1)]] by auto
  have "d \<in> set fl \<longleftrightarrow> d < NENV \<and> env_status (envs s' d) = ENV_FREE" for d
    using env_listsD(3) [OF assms(1), of d] e assms(5,6) by (cases "d = e") auto
  moreover have "d \<in> set q \<longleftrightarrow> d < NENV \<and> env_status (envs s' d) = ENV_RUNNABLE" for d
    using env_listsD(4) [OF assms(1), of d] e assms(5,6) by (cases "d = e") auto
  ultimately show ?thesis
    using assms env_listsD(2,5) [OF assms(1)] by (simp add: env_lists_def)
qed

text \<open>C8. \<^verbatim>\<open>sys_exofork\<close> with a free environment, page and ASID: it returns the identifier of a new
  child of the caller, whose context is the caller's with 0 as result, which is not runnable,
  has the caller's priority and an empty user address space; the kernel invariant and the
  lists of environments are kept.\<close>

theorem sys_exofork_correct:
  assumes inv: "kern_inv A rt b K s" and lists: "env_lists (e # fl) q s" and cur: "curenv s = Some c"
    and A: "e \<notin> A" "c \<in> A"
    and free: "lh_first (page_free_list s) = Some p" and asid: "asids s \<noteq> {..<NASID}"
  shows "\<exists>s' id. sys_exofork s = Some (Ret (Inr id), s') \<and> ENVX id = e \<and> env_id (envs s' e) = id \<and>
    env_parent_id (envs s' e) = env_id (envs s c) \<and> env_tf (envs s' e) = set_reg 2 0 (kstack_tf s) \<and>
    env_pri (envs s' e) = env_pri (envs s c) \<and> env_lists fl q s' \<and>
    kern_inv (insert e A) (rt(e := p)) b K s' \<and> (\<forall>va < UTOP. mapping s' p va = None)"
proof -
  have e: "e < NENV" using env_listsD(3) [OF lists, of e] by simp
  obtain s1 where s1: "env_alloc (env_id (envs s c)) s = Some (Inr e, s1)"
    "kern_inv (insert e A) (rt(e := p)) b K s1" "list_rep (env_free_list s1) fl"
    "env_sched_list s1 = env_sched_list s" "curenv s1 = curenv s" "kstack_tf s1 = kstack_tf s"
    "\<forall>d. d \<noteq> e \<longrightarrow> envs s1 d = envs s d" "env_parent_id (envs s1 e) = env_id (envs s c)"
    "env_id (envs s1 e) = fst (mkenvid e s)" "pmem s1 p = new_dir p b s"
    using env_alloc_ok [OF inv A(1) e env_listsD(1) [OF lists] free asid] by blast
  have ce: "c \<noteq> e" using A by auto
  define s' where "s' = upd_env e (\<lambda>v. v\<lparr>env_tf := set_reg 2 0 (kstack_tf s),
      env_status := ENV_NOT_RUNNABLE, env_pri := env_pri (envs s c)\<rparr>) s1"
  have "sys_exofork s = Some (Ret (Inr (fst (mkenvid e s))), s')"
    using s1(1,6,7,9) cur ce by (simp add: sys_exofork_def s'_def upd_env_def Let_def)
  moreover have "env_lists fl q s'"
    by (rule env_lists_exofork [OF lists]) (use s1(3-7) in \<open>auto simp: s'_def\<close>)
  moreover have "kern_inv (insert e A) (rt(e := p)) b K s'"
  proof -
    have "(\<lambda>d. env_asid (envs s' d)) = (\<lambda>d. env_asid (envs s1 d))" by (auto simp: s'_def)
    moreover have "env_pgdir (envs s' d) = env_pgdir (envs s1 d)"
      "env_asid (envs s' d) = env_asid (envs s1 d)" for d by (auto simp: s'_def)
    moreover have "asids s' = asids s1" by (simp add: s'_def asids_def)
    ultimately show ?thesis
      using s1(2) space_inv_cong [of s' s1] by (simp add: kern_inv_def s'_def)
  qed
  moreover have "mapping s' p va = None" if "va < UTOP" for va
    using PDX_user [OF that] s1(10) by (simp add: mapping_def pte_at_def new_dir_def s'_def)
  ultimately show ?thesis
    using s1(8,9) ENVX_mkenvid [OF e, of s] by (auto simp: s'_def)
qed

theorem sys_exofork_correct_witness:
  "\<exists>s' id. sys_exofork small = Some (Ret (Inr id), s') \<and> ENVX id = 1 \<and> env_lists [2] [0] s'"
proof -
  have "lh_first (page_free_list small) = Some 15"
    using list_rep_first [OF small_free] by (simp add: upt_rec)
  moreover have "1 \<notin> asids small" by (simp add: asids_def asid_bit_def small_def)
  then have "asids small \<noteq> {..<NASID}"
    by (metis lessThan_iff one_less_numeral_iff semiring_norm(76))
  ultimately show ?thesis
    using sys_exofork_correct [OF small_kern small_lists] by fastforce
qed

section \<open>The run queue under status changes\<close>

text \<open>Blocking a runnable environment and waking a blocked one, whatever else of it changes.\<close>

lemma lists_block:
  assumes lists: "env_lists fl q s" and e: "e \<in> set q" and f: "env_status (f (envs s e)) = ENV_NOT_RUNNABLE"
  shows "\<exists>qq. TAILQ_REMOVE e (env_sched_list s) = Some qq \<and>
    env_lists fl (remove1 e q) (upd_env e f (s\<lparr>env_sched_list := qq\<rparr>))"
proof -
  note L = env_listsD [OF lists]
  obtain qq where "TAILQ_REMOVE e (env_sched_list s) = Some qq" "tailq_rep qq (remove1 e q)"
    using TAILQ_REMOVE_rep [OF L(2) e] by blast
  moreover have "distinct q" by (rule tailq_rep_distinct [OF L(2)])
  ultimately show ?thesis using L e f by (auto simp: env_lists_def)
qed

lemma lists_wake:
  assumes lists: "env_lists fl q s" and e: "e < NENV" "env_status (envs s e) = ENV_NOT_RUNNABLE"
    and f: "env_status (f (envs s e)) = ENV_RUNNABLE"
  shows "\<exists>qq. TAILQ_INSERT_TAIL e (env_sched_list s) = Some qq \<and>
    env_lists fl (q @ [e]) (upd_env e f (s\<lparr>env_sched_list := qq\<rparr>))"
proof -
  note L = env_listsD [OF lists]
  have "e \<notin> set q" using L(4) [of e] e by simp
  then obtain qq where "TAILQ_INSERT_TAIL e (env_sched_list s) = Some qq" "tailq_rep qq (q @ [e])"
    using TAILQ_INSERT_TAIL_rep [OF L(2)] by blast
  then show ?thesis using L e f by (auto simp: env_lists_def)
qed

lemma lists_same:
  "env_lists fl q s \<Longrightarrow> env_status (f (envs s e)) = env_status (envs s e) \<Longrightarrow> env_lists fl q (upd_env e f s)"
  by (auto simp: env_lists_def)

text \<open>\<^verbatim>\<open>sys_set_env_status\<close> keeps the invariant of the run queue: for an environment the caller
  may name it returns 0, sets the status, and the queue loses or gains exactly that
  environment (at its tail); a status that is neither \<^verbatim>\<open>ENV_RUNNABLE\<close> nor \<^verbatim>\<open>ENV_NOT_RUNNABLE\<close>
  gives \<^verbatim>\<open>-E_INVAL\<close>.\<close>

theorem sys_set_env_status_correct:
  assumes lists: "env_lists fl q s" and cur: "curenv s = Some c" and name: "may_name s c envid e"
    and e: "e < NENV" "env_status (envs s e) \<in> {ENV_RUNNABLE, ENV_NOT_RUNNABLE}"
  shows "if status \<in> {ENV_RUNNABLE, ENV_NOT_RUNNABLE} then
      (\<exists>s'. sys_set_env_status envid status s = Some (Ret (Inr 0), s') \<and> env_status (envs s' e) = status \<and>
        env_lists fl (if status = env_status (envs s e) then q
          else if status = ENV_NOT_RUNNABLE then remove1 e q else q @ [e]) s')
    else sys_set_env_status envid status s = Some (Ret (Inl E_INVAL), s)"
proof (cases "status \<in> {ENV_RUNNABLE, ENV_NOT_RUNNABLE}")
  case True
  let ?f = "\<lambda>v. v\<lparr>env_status := status\<rparr>"
  have in_q: "e \<in> set q \<longleftrightarrow> env_status (envs s e) = ENV_RUNNABLE"
    using env_listsD(4) [OF lists, of e] e by simp
  note code = sys_set_env_status_def with_env_ok [OF cur name]
  consider "status = env_status (envs s e)"
    | "status = ENV_NOT_RUNNABLE" "env_status (envs s e) = ENV_RUNNABLE"
    | "status = ENV_RUNNABLE" "env_status (envs s e) = ENV_NOT_RUNNABLE"
    using True e(2) by auto
  then show ?thesis
  proof cases
    case 1
    then show ?thesis using True lists_same [OF lists, of ?f e] by (auto simp: code)
  next
    case 2
    then show ?thesis using lists_block [OF lists, of e ?f] in_q by (auto simp: code)
  next
    case 3
    then show ?thesis using lists_wake [OF lists, of e ?f] e by (auto simp: code)
  qed
qed (simp add: sys_set_env_status_def)

theorem sys_set_env_status_correct_witness:
  "\<exists>s'. sys_set_env_status 0 ENV_NOT_RUNNABLE small = Some (Ret (Inr 0), s') \<and> env_lists [1, 2] [] s'"
  using sys_set_env_status_correct [OF small_lists _ small_may_name, of ENV_NOT_RUNNABLE] by auto

section \<open>Interprocess communication\<close>

lemma ipc_recv_ok:
  assumes lists: "env_lists fl q s" and cur: "curenv s = Some c" and c: "c \<in> set q"
    and va: "dstva = 0 \<or> \<not> is_illegal_va dstva" and rest: "remove1 c q = d # ds"
  shows "\<exists>s'. sys_ipc_recv dstva s = Some (Switch, s') \<and> curenv s' = Some d \<and>
    env_lists fl (d # ds) s' \<and> env_tf (envs s' c) = set_reg 2 0 (kstack_tf s) \<and>
    env_status (envs s' c) = ENV_NOT_RUNNABLE \<and> env_ipc_recving (envs s' c) = 1 \<and>
    env_ipc_dstva (envs s' c) = dstva \<and> pmem s' = pmem s"
proof -
  let ?f = "\<lambda>v. v\<lparr>env_ipc_recving := 1, env_ipc_dstva := dstva, env_status := ENV_NOT_RUNNABLE\<rparr>"
  obtain qq where qq: "TAILQ_REMOVE c (env_sched_list s) = Some qq"
    "env_lists fl (remove1 c q) (upd_env c ?f (s\<lparr>env_sched_list := qq\<rparr>))"
    using lists_block [OF lists c, of ?f] by auto
  define s2 where "s2 = (upd_env c ?f s)\<lparr>env_sched_list := qq, kstack_tf := set_reg 2 0 (kstack_tf s)\<rparr>"
  have l2: "env_lists fl (d # ds) s2"
    using qq(2) rest by (simp add: env_lists_def s2_def)
  have cur2: "curenv s2 = Some c" using cur by (simp add: s2_def)
  have dist: "distinct q" by (rule tailq_rep_distinct [OF env_listsD(2) [OF lists]])
  then have "c \<notin> set (d # ds)" unfolding rest [symmetric] by simp
  then have spec: "sched_spec True (curenv s2) (d # ds) (sched_count s2) (\<lambda>e. env_pri (envs s2 e)) =
      Some (d, d # ds, env_pri (envs s2 d) - 1)" and "d \<noteq> c"
    by (auto simp: sched_spec_def next_queue_def cur2)
  obtain s' where s': "schedule True s2 = Some s'" "env_lists fl (d # ds) s'" "curenv s' = Some d"
    "envs s' = run_envs d s2" "pmem s' = pmem s2"
    using schedule_refines [OF l2, of True] unfolding spec by auto
  have "sys_ipc_recv dstva s = Some (Switch, s')"
    using va cur qq(1) s'(1) by (auto simp: sys_ipc_recv_def s2_def)
  moreover have "envs s' c = (envs s2 c)\<lparr>env_tf := kstack_tf s2\<rparr>"
    using \<open>d \<noteq> c\<close> cur2 by (simp add: s'(4) run_envs_def Let_def)
  ultimately show ?thesis using s' by (simp add: s2_def)
qed

text \<open>\<^verbatim>\<open>sys_ipc_recv\<close>: at a legal (or null) address, with another environment runnable, the
  caller is blocked and out of the run queue, marked as receiving, and will find 0 as its
  result; the next environment of the queue runs.\<close>

theorem sys_ipc_recv_correct:
  assumes "env_lists fl q s" and "curenv s = Some c" and "c \<in> set q"
    and "dstva = 0 \<or> \<not> is_illegal_va dstva" and "remove1 c q \<noteq> []"
  shows "\<exists>s'. sys_ipc_recv dstva s = Some (Switch, s') \<and> curenv s' = Some (hd (remove1 c q)) \<and>
    env_lists fl (remove1 c q) s' \<and> regs (env_tf (envs s' c)) 2 = 0 \<and>
    env_status (envs s' c) = ENV_NOT_RUNNABLE \<and> env_ipc_recving (envs s' c) = 1 \<and>
    env_ipc_dstva (envs s' c) = dstva"
proof -
  obtain d ds where "remove1 c q = d # ds" using assms(5) by (cases "remove1 c q") auto
  then show ?thesis using ipc_recv_ok [OF assms(1-4)] by (fastforce simp: set_reg_def)
qed

theorem sys_ipc_recv_correct_witness:
  "\<exists>s'. sys_ipc_recv 0 two_envs = Some (Switch, s') \<and> curenv s' = Some 1 \<and>
     env_status (envs s' 0) = ENV_NOT_RUNNABLE"
  using sys_ipc_recv_correct [OF two_envs_lists, of 0 0] by auto

text \<open>The receiver's fields after a send.\<close>

definition delivered :: "u32 \<Rightarrow> u32 \<Rightarrow> u32 \<Rightarrow> Env \<Rightarrow> Env" where
  "delivered val from perm v = v\<lparr>env_ipc_value := val, env_ipc_from := from,
     env_ipc_perm := PTE_V OR perm, env_ipc_recving := 0, env_status := ENV_RUNNABLE\<rparr>"

lemma delivered_lam:
  "(\<lambda>v. v\<lparr>env_ipc_value := val, env_ipc_from := from, env_ipc_perm := PTE_V OR perm,
     env_ipc_recving := 0, env_status := ENV_RUNNABLE\<rparr>) = delivered val from perm"
  by (simp add: delivered_def fun_eq_iff)

lemma upd_env_sched:
  "(upd_env e f s)\<lparr>env_sched_list := qq\<rparr> = upd_env e f (s\<lparr>env_sched_list := qq\<rparr>)"
  by (simp add: upd_env_def)

lemma ipc_send_eq:
  assumes lists: "env_lists fl q s" and cur: "curenv s = Some c"
    and tgt: "envid2env envid False s = Some (Inr (Some e))" "e < NENV"
    and recv: "env_ipc_recving (envs s e) \<noteq> 0" "env_status (envs s e) = ENV_NOT_RUNNABLE"
    and va: "srcva = 0 \<or> \<not> is_illegal_va srcva"
  shows "\<exists>qq. sys_ipc_try_send envid val srcva perm s =
      (let s2 = upd_env e (delivered val (env_id (envs s c)) perm) (s\<lparr>env_sched_list := qq\<rparr>)
       in if srcva \<noteq> 0 then do {
            (lk, s3) \<leftarrow> page_lookup (env_pgdir (envs s2 c)) srcva s2;
            (case lk of
               None \<Rightarrow> Some (Inl E_INVAL, s3)
             | Some (pp, _) \<Rightarrow> try_c
                 (page_insert (env_pgdir (envs s3 e)) (env_asid (envs s3 e)) pp
                    (env_ipc_dstva (envs s3 e)) perm s3)
                 (\<lambda>_ s4. Some (Inr (), s4))) }
          else Some (Inr (), s2)) \<and>
    env_lists fl (q @ [e]) (upd_env e (delivered val (env_id (envs s c)) perm) (s\<lparr>env_sched_list := qq\<rparr>))"
proof -
  obtain qq where qq: "TAILQ_INSERT_TAIL e (env_sched_list s) = Some qq"
    "env_lists fl (q @ [e]) (upd_env e (delivered val (env_id (envs s c)) perm) (s\<lparr>env_sched_list := qq\<rparr>))"
    using lists_wake [OF lists tgt(2) recv(2), of "delivered val (env_id (envs s c)) perm"]
    by (auto simp: delivered_def)
  then show ?thesis
    using va cur tgt(1) recv(1)
    by (intro exI [of _ qq])
      (auto simp: sys_ipc_try_send_def delivered_lam upd_env_sched Let_def)
qed

lemma kern_inv_upd_env:
  assumes "kern_inv A rt b K s" and "env_pgdir (f (envs s e)) = env_pgdir (envs s e)"
    and "env_asid (f (envs s e)) = env_asid (envs s e)"
  shows "kern_inv A rt b K (upd_env e f (s\<lparr>env_sched_list := qq\<rparr>))"
proof -
  let ?s = "upd_env e f (s\<lparr>env_sched_list := qq\<rparr>)"
  have "env_pgdir (envs ?s d) = env_pgdir (envs s d)" "env_asid (envs ?s d) = env_asid (envs s d)" for d
    using assms by auto
  moreover from this have "(\<lambda>d. env_asid (envs ?s d)) = (\<lambda>d. env_asid (envs s d))" by blast
  moreover have "asids ?s = asids s" by (simp add: asids_def)
  ultimately show ?thesis
    using assms(1) space_inv_cong [of ?s s] by (simp add: kern_inv_def)
qed

lemma delivered_keeps [simp]:
  "env_pgdir (delivered val from perm v) = env_pgdir v" "env_asid (delivered val from perm v) = env_asid v"
  "env_ipc_dstva (delivered val from perm v) = env_ipc_dstva v"
  "env_tf (delivered val from perm v) = env_tf v"
  by (simp_all add: delivered_def)

lemma mapping_cong: "pmem s' = pmem s \<Longrightarrow> mapping s' = mapping s"
  by (simp add: mapping_def pte_at_def tab_def fun_eq_iff)

lemma mapping_upd_env [simp]: "mapping (upd_env e f (s\<lparr>env_sched_list := qq\<rparr>)) = mapping s"
  by (rule mapping_cong) simp

text \<open>\<^verbatim>\<open>sys_ipc_try_send\<close> to a blocked receiver with no page: it returns 0, the receiver has
  the value and the sender's identifier, is no longer receiving, and is runnable at the tail
  of the run queue; the kernel invariant is kept and no memory changes.\<close>

theorem sys_ipc_send_value:
  assumes inv: "kern_inv A rt b K s" and lists: "env_lists fl q s" and cur: "curenv s = Some c"
    and tgt: "envid2env envid False s = Some (Inr (Some e))" "e < NENV"
    and recv: "env_ipc_recving (envs s e) \<noteq> 0" "env_status (envs s e) = ENV_NOT_RUNNABLE"
  shows "\<exists>s'. sys_ipc_try_send envid val 0 perm s = Some (Inr (), s') \<and>
    envs s' e = delivered val (env_id (envs s c)) perm (envs s e) \<and>
    env_lists fl (q @ [e]) s' \<and> kern_inv A rt b K s' \<and> pmem s' = pmem s"
  using ipc_send_eq [OF lists cur tgt recv, of 0 val perm]
    kern_inv_upd_env [OF inv, of "delivered val (env_id (envs s c)) perm" e]
  by auto

text \<open>A machine in which environment 3 waits for a message.\<close>

definition waiting :: kstate where
  "waiting = upd_env 3 (\<lambda>v. v\<lparr>env_ipc_recving := 1, env_ipc_dstva := 0x500000, env_id := 0x1003\<rparr>) small"

lemma waiting_sel [simp]:
  "curenv waiting = Some 0" "env_ipc_recving (envs waiting 3) = 1" "env_status (envs waiting 3) = 2"
  "env_id (envs waiting 0) = 0x800" "env_id (envs waiting 3) = 0x1003"
  by (simp_all add: waiting_def small_env_def)

lemma waiting_target: "envid2env 0x1003 False waiting = Some (Inr (Some 3))"
  by (simp add: envid2env_def ENVX_def Let_def)

lemma waiting_inv: "kern_inv {0} (\<lambda>_. 1) 2 small_K waiting" "env_lists [1, 2] [0] waiting"
proof -
  have "small\<lparr>env_sched_list := env_sched_list small\<rparr> = small" by simp
  then show "kern_inv {0} (\<lambda>_. 1) 2 small_K waiting"
    using kern_inv_upd_env [OF small_kern, of "\<lambda>v. v\<lparr>env_ipc_recving := 1, env_ipc_dstva := 0x500000,
        env_id := 0x1003\<rparr>" 3 "env_sched_list small"] by (simp add: waiting_def)
  show "env_lists [1, 2] [0] waiting"
    unfolding waiting_def by (rule lists_same [OF small_lists]) simp
qed

theorem sys_ipc_send_value_witness:
  "\<exists>s'. sys_ipc_try_send 0x1003 42 0 0 waiting = Some (Inr (), s') \<and> env_ipc_value (envs s' 3) = 42 \<and>
     env_ipc_from (envs s' 3) = 0x800 \<and> env_lists [1, 2] [0, 3] s'"
  using sys_ipc_send_value [OF waiting_inv(1) waiting_inv(2) _ waiting_target, of 0 42 0]
  by (auto simp: delivered_def)

text \<open>C5. \<^verbatim>\<open>sys_ipc_try_send\<close> with a page: when the sender's address is mapped, the receiver gets
  the same page at the address it asked for, with the given permission, besides the value;
  no other mapping changes and the invariants are kept.\<close>

theorem sys_ipc_send_page:
  assumes inv: "kern_inv A rt b K s" and lists: "env_lists fl q s" and cur: "curenv s = Some c"
    and tgt: "envid2env envid False s = Some (Inr (Some e))" "e \<in> A" and c: "c \<in> A"
    and recv: "env_ipc_recving (envs s e) \<noteq> 0" "env_status (envs s e) = ENV_NOT_RUNNABLE"
    and src: "srcva \<noteq> 0" "\<not> is_illegal_va srcva" and m: "mapping s (rt c) srcva = Some pte"
    and dst: "env_ipc_dstva (envs s e) < UTOP" and perm: "perm_ok perm"
    and ref: "pp_ref s (pte_page pte) \<noteq> 65535"
    and room: "\<And>xs. list_rep (page_free_list s) xs \<Longrightarrow> \<not> no_room (rt e) (env_ipc_dstva (envs s e)) xs s"
  shows "\<exists>s'. sys_ipc_try_send envid val srcva perm s = Some (Inr (), s') \<and>
    envs s' e = delivered val (env_id (envs s c)) perm (envs s e) \<and> env_lists fl (q @ [e]) s' \<and>
    kern_inv A rt b K s' \<and>
    spaces_upd A rt e (env_ipc_dstva (envs s e)) (Some (mk_pte (pte_page pte) perm)) s s'"
proof -
  let ?f = "delivered val (env_id (envs s c)) perm" and ?dst = "env_ipc_dstva (envs s e)"
  have e: "e < NENV" using inv tgt(2) by (auto simp: kern_inv_def)
  obtain qq where qq: "sys_ipc_try_send envid val srcva perm s =
      (let s2 = upd_env e ?f (s\<lparr>env_sched_list := qq\<rparr>)
       in if srcva \<noteq> 0 then do {
            (lk, s3) \<leftarrow> page_lookup (env_pgdir (envs s2 c)) srcva s2;
            (case lk of
               None \<Rightarrow> Some (Inl E_INVAL, s3)
             | Some (pp, _) \<Rightarrow> try_c
                 (page_insert (env_pgdir (envs s3 e)) (env_asid (envs s3 e)) pp
                    (env_ipc_dstva (envs s3 e)) perm s3)
                 (\<lambda>_ s4. Some (Inr (), s4))) }
          else Some (Inr (), s2))" and l2: "env_lists fl (q @ [e]) (upd_env e ?f (s\<lparr>env_sched_list := qq\<rparr>))"
    using ipc_send_eq [OF lists cur tgt(1) e recv, of srcva val perm] src(2) by blast
  define s2 where "s2 = upd_env e ?f (s\<lparr>env_sched_list := qq\<rparr>)"
  have k2: "kern_inv A rt b K s2" unfolding s2_def by (rule kern_inv_upd_env [OF inv]) simp_all
  have m2: "mapping s2 = mapping s" by (simp add: s2_def)
  obtain xs where vm: "vm_inv (dir_slots (rt ` A) b) (dir_refs (rt ` A) b K) xs s2" by (rule kern_vm [OF k2])
  have look: "page_lookup (env_pgdir (envs s2 c)) srcva s2 = Some (Some (pte_page pte, pte_kva s2 (rt c) srcva), s2)"
    using page_lookup_eq [OF vm env_slot [OF c legal_va [OF src(2)]]] kern_invD(3) [OF k2 c] m m2 by simp
  obtain s' where s': "page_insert (env_pgdir (envs s2 e)) (env_asid (envs s2 e)) (pte_page pte) ?dst perm s2 =
      Some (Inr (), s')" "kern_inv A rt b K s'"
    "spaces_upd A rt e ?dst (Some (mk_pte (pte_page pte) perm)) s2 s'" "same_rest s2 s'"
    using share_page [OF k2 tgt(2) dst c legal_va [OF src(2)], of pte perm] m m2 ref room perm
    by (auto simp: s2_def no_room_def)
  have "sys_ipc_try_send envid val srcva perm s = Some (Inr (), s')"
    using qq look s'(1) src(1) by (simp add: s2_def [symmetric] Let_def) (simp add: s2_def)
  moreover have "env_lists fl (q @ [e]) s'"
    using l2 kstate_rest [OF s'(4)] by (simp add: env_lists_def s2_def [symmetric])
  moreover have "envs s' e = ?f (envs s e)" using kstate_rest(1) [OF s'(4)] by (simp add: s2_def)
  ultimately show ?thesis using s'(2,3) m2 by (auto simp: spaces_upd_def)
qed

text \<open>The small machine with a page at \<open>0x400000\<close> of environment 0; then with environment 0 waiting
  for a message itself.\<close>

lemma small_page:
  "\<exists>s. same_rest small s \<and> kern_inv {0} (\<lambda>_. 1) 2 small_K s \<and>
     mapping s 1 0x400000 = Some (mk_pte 15 PTE_D) \<and> pp_ref s 15 = 1 \<and> pmem s 15 = (\<lambda>_. 0)"
proof -
  obtain s1 s2 ys where s2: "same_rest small s2" "vm_inv small_S small_X ys s2" "no_leak ys s2"
    "remapped small_S 1 0x400000 (Some (mk_pte 15 PTE_D)) small s2" "pp_ref s2 15 = 1" "pmem s2 15 = (\<lambda>_. 0)"
    using alloc_insert_ok [OF small_vm [unfolded small_free_list] small_slot, of PTE_D 0] small_no_leak
      small_mapping [OF small_slot] by (auto simp: no_room_def small_free_list)
  have "kern_inv {0} (\<lambda>_. 1) 2 small_K s2"
    using kern_inv_rest [OF small_kern s2(1)] s2(2,3) by (auto simp: space_inv_def)
  then show ?thesis using s2 remapped_mapping [OF s2(4) small_slot] by auto
qed

lemma small_page_waiting:
  "\<exists>s. kern_inv {0} (\<lambda>_. 1) 2 small_K s \<and> env_lists [1, 2] [] s \<and> curenv s = Some 0 \<and>
     env_id (envs s 0) = 0x800 \<and> env_ipc_recving (envs s 0) = 1 \<and> env_status (envs s 0) = ENV_NOT_RUNNABLE \<and>
     env_ipc_dstva (envs s 0) = 0x401000 \<and> mapping s 1 0x400000 = Some (mk_pte 15 PTE_D) \<and> pp_ref s 15 = 1"
proof -
  obtain s2 where s2: "same_rest small s2" "kern_inv {0} (\<lambda>_. 1) 2 small_K s2"
    "mapping s2 1 0x400000 = Some (mk_pte 15 PTE_D)" "pp_ref s2 15 = 1"
    using small_page by blast
  note r = kstate_rest [OF s2(1)]
  let ?f = "\<lambda>v. v\<lparr>env_status := ENV_NOT_RUNNABLE, env_ipc_recving := 1, env_ipc_dstva := 0x401000\<rparr>"
  have "env_lists [1, 2] [0] s2" using small_lists r by (simp add: env_lists_def)
  then obtain qq where "env_lists [1, 2] [] (upd_env 0 ?f (s2\<lparr>env_sched_list := qq\<rparr>))"
    using lists_block [of "[1, 2]" "[0]" s2 0 ?f] by auto
  then show ?thesis
    using kern_inv_upd_env [OF s2(2), of ?f 0 qq] s2(3,4) r
    by (intro exI [of _ "upd_env 0 ?f (s2\<lparr>env_sched_list := qq\<rparr>)"]) simp
qed

theorem sys_ipc_send_page_witness:
  "\<exists>s s'. sys_ipc_try_send 0 7 0x400000 PTE_D s = Some (Inr (), s') \<and>
     mapping s' 1 0x401000 = Some (mk_pte 15 PTE_D) \<and> mapping s' 1 0x400000 = Some (mk_pte 15 PTE_D)"
proof -
  obtain s where s: "kern_inv {0} (\<lambda>_. 1) 2 small_K s" "env_lists [1, 2] [] s" "curenv s = Some 0"
    "env_ipc_recving (envs s 0) = 1" "env_status (envs s 0) = ENV_NOT_RUNNABLE"
    "env_ipc_dstva (envs s 0) = 0x401000" "mapping s 1 0x400000 = Some (mk_pte 15 PTE_D)" "pp_ref s 15 = 1"
    using small_page_waiting by blast
  have tgt: "envid2env 0 False s = Some (Inr (Some 0))" using s(3) by (simp add: envid2env_def)
  have idx: "PDX 0x401000 = PDX 0x400000" "VPN 0x401000 \<noteq> VPN 0x400000"
    by (simp_all add: word_unat_eq_iff unat_PDX unat_VPN)
  have "\<not> no_room 1 0x401000 xs s" for xs
    using s(7) idx(1) by (auto simp: no_room_def mapping_def pte_at_def split: if_splits)
  then obtain s' where s': "sys_ipc_try_send 0 7 0x400000 PTE_D s = Some (Inr (), s')"
    "spaces_upd {0} (\<lambda>_. 1) 0 0x401000 (Some (mk_pte 15 PTE_D)) s s'"
    using sys_ipc_send_page [OF s(1,2,3) tgt _ _ _ s(5) _ legal_400000 s(7), of PTE_D 7] s
    by (auto simp: mmu_layout)
  have "0x401000 < UTOP" "0x400000 < UTOP" by (simp_all add: mmu_layout)
  then show ?thesis using s' s(7) idx(2) by (fastforce simp: spaces_upd_def)
qed

text \<open>A failing send wakes the receiver: when the sender's address is not mapped,
  \<^verbatim>\<open>sys_ipc_try_send\<close> returns \<^verbatim>\<open>-E_INVAL\<close>, but the receiver is already runnable, no longer
  receiving, and holds the value of the message that was reported as not sent.\<close>

theorem sys_ipc_send_unmapped:
  assumes inv: "kern_inv A rt b K s" and lists: "env_lists fl q s" and cur: "curenv s = Some c"
    and tgt: "envid2env envid False s = Some (Inr (Some e))" "e < NENV" and c: "c \<in> A"
    and recv: "env_ipc_recving (envs s e) \<noteq> 0" "env_status (envs s e) = ENV_NOT_RUNNABLE"
    and src: "srcva \<noteq> 0" "\<not> is_illegal_va srcva" and m: "mapping s (rt c) srcva = None"
  shows "\<exists>s'. sys_ipc_try_send envid val srcva perm s = Some (Inl E_INVAL, s') \<and>
    envs s' e = delivered val (env_id (envs s c)) perm (envs s e) \<and> env_lists fl (q @ [e]) s'"
proof -
  let ?f = "delivered val (env_id (envs s c)) perm"
  have "kern_inv A rt b K (upd_env e ?f (s\<lparr>env_sched_list := qq\<rparr>))" for qq
    by (rule kern_inv_upd_env [OF inv]) simp_all
  note k2 = this
  have look: "page_lookup (env_pgdir (envs (upd_env e ?f (s\<lparr>env_sched_list := qq\<rparr>)) c)) srcva
      (upd_env e ?f (s\<lparr>env_sched_list := qq\<rparr>)) = Some (None, upd_env e ?f (s\<lparr>env_sched_list := qq\<rparr>))" for qq
  proof (rule kern_vm [OF k2 [of qq]])
    fix xs assume vm: "vm_inv (dir_slots (rt ` A) b) (dir_refs (rt ` A) b K) xs
      (upd_env e ?f (s\<lparr>env_sched_list := qq\<rparr>))"
    show ?thesis
      using page_lookup_eq [OF vm env_slot [OF c legal_va [OF src(2)]]] kern_invD(3) [OF k2 [of qq] c] m by simp
  qed
  show ?thesis
    using ipc_send_eq [OF lists cur tgt recv, of srcva val perm] src look by (auto simp: Let_def)
qed

theorem sys_ipc_send_unmapped_witness:
  "\<exists>s'. sys_ipc_try_send 0x1003 42 0x400000 0 waiting = Some (Inl E_INVAL, s') \<and>
     env_status (envs s' 3) = ENV_RUNNABLE \<and> env_ipc_value (envs s' 3) = 42"
proof -
  have "mapping waiting 1 0x400000 = None"
    using small_mapping [OF small_slot] mapping_cong [of waiting small] by (simp add: waiting_def)
  then show ?thesis
    using sys_ipc_send_unmapped [OF waiting_inv(1) waiting_inv(2) _ waiting_target, of 0 "0x400000" 42 0] legal_400000
    by (auto simp: delivered_def)
qed

end
