(* ===== verification/Dev_Props.thy ===== *)
theory Dev_Props
  imports Syscall_Props
begin

text \<open>
  The device system calls: what \<^verbatim>\<open>sys_write_dev\<close> sends to a device, and a pair of arguments
  its range check lets through.
\<close>

section \<open>Reading user memory\<close>

definition user_byte :: "kstate \<Rightarrow> nat \<Rightarrow> u32 \<Rightarrow> u8" where
  "user_byte s r va = (case mapping s r va of None \<Rightarrow> 0
     | Some e \<Rightarrow> get_byte (pmem s (pte_page e) (unat va mod 4096 div 4)) (unat va mod 4))"

text \<open>The word that holds an address; the simplifier writes \<open>NOT 3\<close> as \<open>- 4\<close>.\<close>

lemma and_not_3: "va AND - 4 = push_bit 2 (drop_bit 2 (va :: u32))"
  using and_not_mask [of va 2] by (simp add: mask_eq_exp_minus_1)

lemma unat_and_not_3 [word_nat]: "unat (va AND - 4) = unat (va :: u32) div 4 * 4"
proof -
  have "unat va div 4 * 4 < 4294967296" using unat_lt_32 [of va] by linarith
  then show ?thesis unfolding and_not_3 by (simp add: push_bit_eq_mult unat_word_ariths word_nat)
qed

lemma word_aligned:
  "unat (va AND - 4 :: u32) mod 4 = 0"
  "unat (va AND - 4 :: u32) mod 4096 div 4 = unat va mod 4096 div 4"
  "VPN (va AND - 4) = VPN va"
proof -
  show "unat (va AND - 4 :: u32) mod 4 = 0" by (simp add: word_nat)
  show "unat (va AND - 4 :: u32) mod 4096 div 4 = unat va mod 4096 div 4"
    using mod_mult_mult2 [of "unat va div 4" 4 1024] mod_mult2_eq [of "unat va" 4 1024]
    by (simp add: unat_and_not_3)
  have "unat va div 4 * 4 div 4096 = unat va div 4096"
    using div_mult2_eq [of "unat va" 4 1024] div_mult2_eq [of "unat va div 4 * 4" 4 1024] by simp
  then show "VPN (va AND - 4) = VPN va" by (simp add: word_unat_eq_iff unat_VPN unat_and_not_3)
qed

lemma mapping_word: "mapping s r (va AND - 4) = mapping s r va"
  "slot_of r (va AND - 4) = slot_of r va"
  using word_aligned(3) [of va] same_indices_iff [of "va AND - 4" va]
  by (auto simp: mapping_def slot_of_def word_unat_eq_iff)

lemma read_byte_mapped:
  assumes inv: "vm_inv S X xs s" and slot: "slot_of r va \<in> S" and m: "mapping s r va = Some e"
    and cur: "cur_pgdir s = pgdir_kva r" "curenv s = Some c" and va: "va < ULIM"
  shows "\<exists>t. read_byte va s = Some (user_byte s r va, s\<lparr>tlb := t\<rparr>)"
proof -
  have "va AND - 4 < ULIM"
    using va unat_and_not_3 [of va] by (simp add: word_less_nat_alt mmu_layout)
  moreover have "do_tlb_refill_c (va AND - 4) (env_asid (envs s c)) s = Some (e, s)"
    using refill_hit [OF inv _ _ cur(1), of "va AND - 4"] slot m by (simp add: mapping_word)
  moreover have "pa2page (npage s) e = Some (pte_page e)"
    using data_okD(1) [OF vm_invD(5) [OF inv] slot m] by (simp add: pa2page_pte)
  ultimately show ?thesis
    using m cur by (auto simp: read_byte_def read_word_def do_tlb_refill_def cur_asid_def
        user_byte_def word_aligned)
qed

section \<open>Writing to a device\<close>

text \<open>The events of a copy of \<open>n\<close> bytes to a device, the latest first.\<close>

definition dev_writes :: "u32 \<Rightarrow> (nat \<Rightarrow> u8) \<Rightarrow> nat \<Rightarrow> dev_ev list" where
  "dev_writes pa f n = rev (map (\<lambda>i. DevWrite (pa + of_nat i) (f i)) [0..<n])"

lemma dev_writes_simps [simp]:
  "dev_writes pa f 0 = []"
  "dev_writes pa f (Suc n) = DevWrite (pa + of_nat n) (f n) # dev_writes pa f n"
  by (simp_all add: dev_writes_def)

lemma kseg1_address:
  assumes "(pa :: u32) < 0x20000000"
  shows "KSEG1 OR pa = KSEG1 + pa"
proof -
  have m: "pa AND mask 29 = pa"
    using assms by (simp add: take_bit_eq_mask [symmetric] word_less_nat_alt word_unat_eq_iff
        unsigned_take_bit_eq take_bit_nat_eq_self)
  have "(mask 29 :: u32) AND KSEG1 = 0" by (simp add: mask_eq_exp_minus_1)
  moreover have "pa AND KSEG1 = pa AND (mask 29 AND KSEG1)" unfolding and.assoc [symmetric] m ..
  ultimately have "pa AND KSEG1 = 0" by (simp only: and_zero_eq)
  then show ?thesis by (simp add: disjunctive_add_eq_or and.commute)
qed

lemma va_range:
  assumes "\<not> is_illegal_va_range va len" and "len \<noteq> 0"
  shows "0x3fe000 \<le> unat va" and "unat va + unat len \<le> 0x7f400000"
proof -
  have *: "va \<le> va + len" "UTEMP \<le> va" "va + len \<le> UTOP"
    using assms by (auto simp: is_illegal_va_range_def not_le not_less split: if_splits)
  show "0x3fe000 \<le> unat va" using *(2) by (simp add: word_le_nat_alt mmu_layout)
  have "unat (va + len) = unat va + unat len"
    using *(1) by (simp add: no_olen_add_nat unat_word_ariths)
  then show "unat va + unat len \<le> 0x7f400000" using *(3) by (simp add: word_le_nat_alt mmu_layout)
qed

lemma device_window:
  assumes "\<not> is_illegal_va_range va len" and "\<not> is_illegal_pa_range pa len" and "len \<noteq> 0"
    and "pa < 0x20000000"
  shows "0x10000000 \<le> unat pa" and "unat pa + unat len \<le> 0x15000200"
proof -
  have "unat len \<le> 0x7F400000" using va_range(2) [OF assms(1,3)] by simp
  then have "unat (pa + len) = unat pa + unat len"
    using assms(4) by (simp add: unat_word_ariths word_less_nat_alt)
  then show "0x10000000 \<le> unat pa" and "unat pa + unat len \<le> 0x15000200"
    using assms(2,3) by (auto simp: is_illegal_pa_range_def word_le_nat_alt split: if_splits)
qed

lemma kseg1_put_device:
  assumes "0x10000000 \<le> unat pa + i" and "unat pa + i < 0x15000200" and "pa < 0x20000000"
    and "unat (npage s) \<le> 0x10000"
  shows "kseg1_put ((KSEG1 OR pa) + of_nat i) b s = Some (dev_put (pa + of_nat i) b s)"
proof -
  have u: "unat (pa + of_nat i) = unat pa + i"
    using assms(2) by (simp add: unat_word_ariths unsigned_of_nat take_bit_nat_eq_self)
  define q where "q = pa + of_nat i"
  have uq: "unat q = unat pa + i" unfolding q_def by (rule u)
  have a: "(KSEG1 OR pa) + of_nat i = KSEG1 + q" unfolding kseg1_address [OF assms(3)] q_def by simp
  have "unat (KSEG1 + q) = 0xA0000000 + unat q"
    using uq assms(2) by (simp add: unat_word_ariths)
  moreover have "unat (npage s) \<le> unat q div 4096"
  proof -
    have "0x10000000 div 4096 \<le> unat q div 4096" using uq assms(1) by (intro div_le_mono) simp
    then show ?thesis using assms(4) by simp
  qed
  ultimately show ?thesis
    unfolding a q_def [symmetric] using uq assms(2)
    by (simp add: kseg1_put_def word_less_nat_alt word_le_nat_alt)
qed

lemma write_dev_step:
  assumes inv: "vm_inv S X xs s" and slot: "slot_of r va \<in> S" and m: "mapping s r va \<noteq> None"
    and cur: "cur_pgdir s = pgdir_kva r" "curenv s = Some c" and va: "va < ULIM"
    and dev: "0x10000000 \<le> unat pa + i" "unat pa + i < 0x15000200" "pa < 0x20000000"
      "unat (npage s) \<le> 0x10000"
  shows "\<exists>t'. do { (b, s1) \<leftarrow> read_byte va (s\<lparr>tlb := t, dev_hist := h\<rparr>);
      kseg1_put ((KSEG1 OR pa) + of_nat i) b s1 } =
    Some (s\<lparr>tlb := t', dev_hist := DevWrite (pa + of_nat i) (user_byte s r va) # h\<rparr>)"
proof -
  let ?s = "s\<lparr>tlb := t, dev_hist := h\<rparr>"
  note same = vm_inv_cong [of ?s s, simplified]
  have map: "mapping ?s r va = mapping s r va" by (simp add: mapping_def same(2))
  obtain e where e: "mapping s r va = Some e" using m by auto
  obtain t' where "read_byte va ?s = Some (user_byte ?s r va, ?s\<lparr>tlb := t'\<rparr>)"
    using read_byte_mapped [of S X xs ?s r va e c] same(1) inv slot e map cur va by auto
  moreover have "user_byte ?s r va = user_byte s r va" by (simp add: user_byte_def map split: option.splits)
  ultimately show ?thesis
    using kseg1_put_device [OF dev(1-3), of "?s\<lparr>tlb := t'\<rparr>"] dev(4) by (auto simp: dev_put_def)
qed

text \<open>\<^verbatim>\<open>sys_write_dev\<close> from a legal, mapped user range to a device address, with memory ending below
  the devices: a range outside the three device windows gives \<^verbatim>\<open>-E_INVAL\<close> and nothing is
  written; inside one it returns 0 and the device sees exactly the bytes of the user range, each
  once, in order, at consecutive addresses.  Apart from the TLB nothing else changes.\<close>

theorem sys_write_dev_correct:
  assumes inv: "kern_inv A rt b K s" and cur: "curenv s = Some c" "c \<in> A" "cur_pgdir s = pgdir_kva (rt c)"
    and mem: "unat (npage s) \<le> 0x10000" and pa: "pa < 0x20000000"
    and va: "\<not> is_illegal_va_range va len"
    and mapped: "\<forall>i < unat len. mapping s (rt c) (va + of_nat i) \<noteq> None"
  shows "if is_illegal_pa_range pa len then sys_write_dev va pa len s = Some (Ret (Inl E_INVAL), s)
    else \<exists>t. sys_write_dev va pa len s = Some (Ret (Inr 0), s\<lparr>tlb := t,
      dev_hist := dev_writes pa (\<lambda>i. user_byte s (rt c) (va + of_nat i)) (unat len) @ dev_hist s\<rparr>)"
proof (cases "is_illegal_pa_range pa len")
  case False
  let ?f = "\<lambda>i s. do { (b, s1) \<leftarrow> read_byte (va + of_nat i) s; kseg1_put ((KSEG1 OR pa) + of_nat i) b s1 }"
  let ?w = "\<lambda>k. dev_writes pa (\<lambda>i. user_byte s (rt c) (va + of_nat i)) k @ dev_hist s"
  let ?I = "\<lambda>k s'. \<exists>t. s' = s\<lparr>tlb := t, dev_hist := ?w k\<rparr>"
  obtain xs where vm: "vm_inv (dir_slots (rt ` A) b) (dir_refs (rt ` A) b K) xs s"
    by (rule kern_vm [OF inv])
  have "\<exists>s'. fold_opt ?f [0..<unat len] s = Some s' \<and> ?I (length [0..<unat len]) s'"
  proof (rule fold_opt_inv)
    show "?I 0 s" by (intro exI [of _ "tlb s"]) simp
    fix k s' assume "k < length [0..<unat len]" and I: "?I k s'"
    then have k: "k < unat len" and len: "len \<noteq> 0" by auto
    note r = va_range [OF va len] and w = device_window [OF va False len pa]
    have "unat (va + of_nat k) = unat va + k"
      using r k by (simp add: unat_word_ariths unsigned_of_nat take_bit_nat_eq_self)
    then have u: "va + of_nat k < UTOP" "va + of_nat k < ULIM"
      using r k by (simp_all add: word_less_nat_alt mmu_layout)
    obtain t where s': "s' = s\<lparr>tlb := t, dev_hist := ?w k\<rparr>" using I by auto
    have "\<exists>t'. ?f k s' = Some (s\<lparr>tlb := t', dev_hist := ?w (Suc k)\<rparr>)"
      unfolding s' using write_dev_step [OF vm env_slot [OF cur(2) u(1)] _ cur(3,1) u(2), of pa k]
        mapped k w pa mem by simp
    then show "\<exists>s''. ?f ([0..<unat len] ! k) s' = Some s'' \<and> ?I (Suc k) s''" using k by auto
  qed
  then show ?thesis using False va by (auto simp: sys_write_dev_def)
qed (use va in \<open>simp add: sys_write_dev_def\<close>)

theorem sys_write_dev_correct_witness:
  "\<exists>s t. sys_write_dev 0x400000 0x10000000 1 s =
     Some (Ret (Inr 0), s\<lparr>tlb := t, dev_hist := [DevWrite 0x10000000 0]\<rparr>)"
proof -
  obtain s where s: "same_rest small s" "kern_inv {0} (\<lambda>_. 1) 2 small_K s"
    "mapping s 1 0x400000 = Some (mk_pte 15 PTE_D)" "pmem s 15 = (\<lambda>_. 0)"
    using small_page by blast
  have h: "dev_hist s = []" "npage s = 16"
    using kstate_rest(12) [OF s(1)] s(1) by (simp_all add: same_rest_def)
  have "user_byte s 1 0x400000 = 0" using s(3,4) by (simp add: user_byte_def get_byte_def pte_page_mk_pte)
  moreover have "\<not> is_illegal_va_range 0x400000 1" by (simp add: is_illegal_va_range_def mmu_layout)
  ultimately show ?thesis
    using sys_write_dev_correct [OF s(2), of 0 "0x10000000" "0x400000" 1] kstate_rest(2,6) [OF s(1)] s(3) h
    by (auto simp: is_illegal_pa_range_def dev_writes_def)
qed

section \<open>A range that wraps around\<close>

lemma fold_opt_stops:
  "x \<in> set xs \<Longrightarrow> (\<And>s. f x s = None) \<Longrightarrow> fold_opt f xs s = None"
  by (induction xs arbitrary: s) (auto split: bind_split)

text \<open>The range check of the device calls adds without a check for overflow: \<open>0xA0000000\<close> with
  length \<open>0x70000010\<close> passes as part of the console window, and the copy runs through physical
  memory and out of the uncached segment, where the machine stops.  Any user program can make
  this call.\<close>

theorem write_dev_wraps:
  "\<not> is_illegal_pa_range 0xA0000000 0x70000010 \<and> sys_write_dev 0x400000 0xA0000000 0x70000010 s = None"
proof -
  let ?f = "\<lambda>i s. do { (b, s1) \<leftarrow> read_byte (0x400000 + of_nat i) s;
    kseg1_put ((KSEG1 OR 0xA0000000) + of_nat i) b s1 }"
  have "?f 0x20000000 t = None" for t
    by (cases "read_byte (0x400000 + of_nat 0x20000000) t") (auto simp: kseg1_put_def)
  moreover have "0x20000000 \<in> set [0..<unat (0x70000010 :: u32)]"
    unfolding set_upt by simp
  ultimately have "fold_opt ?f [0..<unat (0x70000010 :: u32)] s = None" by (rule fold_opt_stops [rotated])
  moreover have "\<not> is_illegal_va_range 0x400000 0x70000010" "\<not> is_illegal_pa_range 0xA0000000 0x70000010"
    by (simp_all add: is_illegal_va_range_def is_illegal_pa_range_def mmu_layout)
  ultimately show ?thesis unfolding sys_write_dev_def by (simp only: bind.simps if_False simp_thms)
qed

end
