(* ===== verification/Load.thy ===== *)
theory Load
  imports Dev_Props
begin

text \<open>
  Loading a program: what \<^verbatim>\<open>elf_load_seg\<close> (\<^verbatim>\<open>lib/elfloader.c\<close>) with the kernel's mapper,
  \<^verbatim>\<open>load_icode\<close> and \<^verbatim>\<open>env_create\<close> (\<^verbatim>\<open>kern/env.c\<close>) leave in the memory of the new environment, byte by
  byte as the environment reads it.
\<close>

section \<open>Bytes of a page\<close>

lemma page_iff: "a div 4096 = q \<longleftrightarrow> q * 4096 \<le> a \<and> a < q * 4096 + 4096" for a q :: nat
  using div_times_less_eq_dividend [of a 4096] dividend_less_div_times [of 4096 a] by (auto intro: div_nat_eqI)

definition page_byte :: "(nat \<Rightarrow> u32) \<Rightarrow> nat \<Rightarrow> u8" where
  "page_byte m k = get_byte (m (k div 4)) (k mod 4)"

lemma get_set_byte:
  assumes "j < 4" and "k < 4"
  shows "get_byte (set_byte w k b) j = (if j = k then b else get_byte w j)"
proof (rule bit_word_eqI)
  fix n assume n: "n < LENGTH(8)"
  have ff: "(0xFF :: u32) = mask 8" by (simp add: mask_eq_exp_minus_1)
  have "8 * j + n < 32" "8 * k \<le> 8 * j + n \<Longrightarrow> 8 * j + n - 8 * k < 8 \<Longrightarrow> j = k" using assms n by auto
  then show "bit (get_byte (set_byte w k b) j) n = bit (if j = k then b else get_byte w j) n"
    unfolding get_byte_def set_byte_def ff using n assms by (auto simp: bit_simps dest: bit_imp_le_length)
qed

lemma kstore_byte_page:
  assumes p: "p < unat (npage s)" "unat (npage s) \<le> 131072" and k: "k < 4096"
  shows "kstore_byte (pgdir_kva p + of_nat k) b s = Some (s\<lparr>pmem := (pmem s)(p := (pmem s p)
    (k div 4 := set_byte (pmem s p (k div 4)) (k mod 4) b))\<rparr>)"
proof -
  have base: "unat (pgdir_kva p) = 2147483648 + p * 4096" using p by (simp add: pgdir_kva_def unat_page_kva)
  then have u: "unat (pgdir_kva p + of_nat k) = k + (536870912 + p * 1024) * 4"
    using p k by (simp add: unat_word_ariths word_of_nat_unat_eq)
  then have "unat (pgdir_kva p + of_nat k) mod 4 = k mod 4" by (simp only: mod_mult_self1)
  moreover have "(pgdir_kva p + of_nat k) AND NOT 3 = pgdir_kva p + of_nat (k div 4) * 4"
  proof -
    have "unat ((pgdir_kva p + of_nat k) AND NOT 3) = (k + (536870912 + p * 1024) * 4) div 4 * 4"
      using unat_and_not_3 [of "pgdir_kva p + of_nat k"] u by simp
    then have "unat ((pgdir_kva p + of_nat k) AND NOT 3) = 2147483648 + p * 4096 + (k div 4) * 4"
      by (simp only: div_mult_self1) simp
    moreover have "unat (pgdir_kva p + of_nat (k div 4) * 4) = 2147483648 + p * 4096 + (k div 4) * 4"
      using base p k by (simp add: unat_word_ariths word_of_nat_unat_eq)
    ultimately show ?thesis by (simp add: word_unat_eq_iff)
  qed
  ultimately show ?thesis
    using kload_entry_nat [OF p, of "k div 4"] k by (simp add: kstore_byte_def Let_def)
qed

text \<open>Copying into a page the kernel holds.\<close>

lemma kcopy_in_page:
  assumes p: "p < unat (npage s)" "unat (npage s) \<le> 131072" and fit: "off + n \<le> 4096"
  shows "\<exists>g. kcopy_in (pgdir_kva p + of_nat off) src n s = Some (s\<lparr>pmem := (pmem s)(p := g)\<rparr>) \<and>
    (\<forall>k < 4096. page_byte g k = (if off \<le> k \<and> k < off + n then src (k - off) else page_byte (pmem s p) k))"
proof -
  let ?I = "\<lambda>m s'. \<exists>g. s' = s\<lparr>pmem := (pmem s)(p := g)\<rparr> \<and>
    (\<forall>k < 4096. page_byte g k = (if off \<le> k \<and> k < off + m then src (k - off) else page_byte (pmem s p) k))"
  have "\<exists>s'. fold_opt (\<lambda>k. kstore_byte (pgdir_kva p + of_nat off + of_nat k) (src k)) [0..<n] s = Some s' \<and>
      ?I (length [0..<n]) s'"
  proof (rule fold_opt_inv [where I = ?I])
    show "?I 0 s" by (intro exI [of _ "pmem s p"]) auto
    fix m s' assume m: "m < length [0..<n]" and "?I m s'"
    then obtain g where s': "s' = s\<lparr>pmem := (pmem s)(p := g)\<rparr>" and g: "\<And>k. k < 4096 \<Longrightarrow> page_byte g k =
        (if off \<le> k \<and> k < off + m then src (k - off) else page_byte (pmem s p) k)" by auto
    let ?a = "off + m"
    let ?g = "g(?a div 4 := set_byte (g (?a div 4)) (?a mod 4) (src m))"
    have "kstore_byte (pgdir_kva p + of_nat ?a) (src m) s' = Some (s\<lparr>pmem := (pmem s)(p := ?g)\<rparr>)"
      using kstore_byte_page [of p s' ?a "src m"] p m fit by (simp add: s')
    moreover have "page_byte ?g k = (if k = ?a then src m else page_byte g k)" for k
      using get_set_byte [of "k mod 4" "?a mod 4" "g (?a div 4)" "src m"] div_mult_mod_eq [of k 4] div_mult_mod_eq [of ?a 4]
      by (cases "k div 4 = ?a div 4") (auto simp: page_byte_def)
    ultimately show "\<exists>s''. kstore_byte (pgdir_kva p + of_nat off + of_nat ([0..<n] ! m)) (src ([0..<n] ! m)) s' = Some s'' \<and>
        ?I (Suc m) s''"
      using m g by (auto simp: add.assoc intro!: exI [of _ ?g])
  qed
  then show ?thesis by (auto simp: kcopy_in_def)
qed

section \<open>One page\<close>

text \<open>What a process finds at an address: the byte and the flags of the page.\<close>

definition user_view :: "kstate \<Rightarrow> nat \<Rightarrow> nat \<Rightarrow> (u8 \<times> u32) option" where
  "user_view s r a = map_option (\<lambda>e. (page_byte (pmem s (pte_page e)) (a mod 4096), e AND 0xFFF)) (mapping s r (of_nat a))"

definition has_free :: "nat \<Rightarrow> kstate \<Rightarrow> bool" where
  "has_free n s \<longleftrightarrow> (\<exists>xs. list_rep (page_free_list s) xs \<and> n \<le> length xs)"

text \<open>Environment \<open>e\<close> gets the bytes \<open>f\<close> at the addresses from \<open>x\<close> to \<open>y\<close>, and nobody else notices.
  A page takes at most one more for its table.\<close>

definition loaded :: "nat set \<Rightarrow> (nat \<Rightarrow> nat) \<Rightarrow> nat \<Rightarrow> (nat \<Rightarrow> nat) \<Rightarrow> nat \<Rightarrow> u32 \<Rightarrow> (nat \<Rightarrow> u8) \<Rightarrow> nat \<Rightarrow> nat \<Rightarrow>
    kstate \<Rightarrow> kstate \<Rightarrow> bool" where
  "loaded A rt b K e fl f x y s s' \<longleftrightarrow> kern_inv A rt b K s' \<and> same_rest s s' \<and>
     (\<forall>n. has_free (n + 2 * ((y - x) div 4096)) s \<longrightarrow> has_free n s') \<and>
     (\<forall>d \<in> A. \<forall>a < unat UTOP. user_view s' (rt d) a =
        (if d = e \<and> x \<le> a \<and> a < y then Some (f a, fl) else user_view s (rt d) a))"

lemma mk_pte_flags: "pp < 1048576 \<Longrightarrow> perm_ok perm \<Longrightarrow> mk_pte pp perm AND 0xFFF = perm OR PTE_V"
proof -
  assume "perm_ok perm"
  then have "take_bit 12 perm = perm" by (simp add: take_bit_eq_self_iff_drop_bit_eq_0 perm_ok_drop)
  moreover have "take_bit 12 (page2pa pp) = 0" by (rule bit_word_eqI) (auto simp: page2pa_def bit_simps)
  moreover have "take_bit 12 (PTE_V :: u32) = PTE_V" by simp
  moreover have "(0xFFF :: u32) = mask 12" by (simp add: mask_eq_exp_minus_1)
  ultimately show ?thesis
    unfolding mk_pte_def by (simp only: take_bit_eq_mask [symmetric] take_bit_or or.left_neutral)
qed

lemma load_page:
  assumes inv: "kern_inv A rt b K s" and e: "e \<in> A" and va: "va < UTOP" and un: "mapping s (rt e) va = None"
    and free: "list_rep (page_free_list s) (p # t # xs)" and perm: "perm_ok perm"
    and fit: "src \<noteq> None \<longrightarrow> unat offset + unat len \<le> 4096"
    and f_def: "\<And>a. f a = (case src of None \<Rightarrow> 0 | Some o0 \<Rightarrow>
      if unat offset \<le> a mod 4096 \<and> a mod 4096 < unat offset + unat len then bin (o0 + (a mod 4096 - unat offset)) else 0)"
  shows "\<exists>s'. load_icode_mapper e bin va offset perm src len s = Some (Inr (), s') \<and>
    loaded A rt b K e (perm OR PTE_V) f (unat va div 4096 * 4096) (unat va div 4096 * 4096 + 4096) s s'"
proof -
  let ?S = "dir_slots (rt ` A) b" and ?X = "dir_refs (rt ` A) b K"
  note k = kern_invD [OF inv]
  obtain ys where ys: "vm_inv ?S ?X ys s" "no_leak ys s" "list_rep (page_free_list s) ys" by (rule kern_vm [OF inv])
  have "ys = p # t # xs" by (rule list_rep_unique [OF ys(3) free])
  with ys have vm: "vm_inv ?S ?X (p # t # xs) s" and leak: "no_leak (p # t # xs) s" by simp_all
  have slot: "slot_of (rt e) va \<in> ?S" by (rule env_slot [OF e va])
  note p = free_page_unused [OF vm list.set_intros(1)]
  have np: "unat (npage s) \<le> 131072" by (rule vm_invD(1) [OF vm])
  obtain s1 where s1: "page_alloc s = Some (Inr p, s1)" "same_rest s s1" "pp_ref s1 = pp_ref s"
    "pmem s1 = (pmem s)(p := (\<lambda>_. 0))" "list_rep (page_free_list s1) (t # xs)" "tlb s1 = tlb s"
    by (rule page_alloc_split [OF vm_invD(4) [OF vm]])
  have n1: "npage s1 = npage s" using s1(2) by (simp add: same_rest_def)
  have inv1: "vm_inv ?S ?X (t # xs) s1" using page_alloc_inv [OF vm] s1(1) by auto
  have mp1: "mappable ?S (t # xs) p s1" by (rule alloc_mappable [OF vm s1(1,3) n1 s1(4)])
  have "\<exists>g. (case src of None \<Rightarrow> Some s1 | Some o0 \<Rightarrow> do { kva \<leftarrow> page2kva (npage s1) p;
        kcopy_in (kva + offset) (\<lambda>k. bin (o0 + k)) (unat len) s1 }) = Some (s1\<lparr>pmem := (pmem s)(p := g)\<rparr>) \<and>
      (\<forall>a. page_byte g (a mod 4096) = f a)"
  proof (cases src)
    case None
    then show ?thesis using s1(4) by (intro exI [of _ "\<lambda>_. 0"]) (simp add: f_def page_byte_def get_byte_def)
  next
    case (Some o0)
    have kva: "page2kva (npage s1) p = Some (pgdir_kva p)" using p(1) np by (simp add: n1 page2kva_Some pgdir_kva_def)
    obtain g where g: "kcopy_in (pgdir_kva p + of_nat (unat offset)) (\<lambda>k. bin (o0 + k)) (unat len) s1 = Some (s1\<lparr>pmem := (pmem s1)(p := g)\<rparr>)"
      "\<forall>k < 4096. page_byte g k = (if unat offset \<le> k \<and> k < unat offset + unat len then bin (o0 + (k - unat offset))
         else page_byte (pmem s1 p) k)"
      using kcopy_in_page [of p s1 "unat offset" "unat len" "\<lambda>k. bin (o0 + k)"] p(1) np fit Some by (auto simp: n1)
    have "page_byte g (a mod 4096) = f a" for a
      using g(2) by (simp add: f_def Some s1(4) page_byte_def get_byte_def)
    then show ?thesis using g(1) by (intro exI [of _ g]) (simp add: Some kva s1(4))
  qed
  then obtain g where g: "load_icode_mapper e bin va offset perm src len s =
      page_insert (env_pgdir (envs s e)) (env_asid (envs s e)) p va perm (s1\<lparr>pmem := (pmem s)(p := g)\<rparr>)"
    "\<And>a. page_byte g (a mod 4096) = f a"
    using s1(1) kstate_rest(1) [OF s1(2)] by (auto simp: load_icode_mapper_def)
  define s2 where "s2 = s1\<lparr>pmem := (pmem s)(p := g)\<rparr>"
  have n2: "npage s2 = npage s" and eq2: "\<And>q. q \<noteq> p \<Longrightarrow> pmem s2 q = pmem s q" by (simp_all add: s2_def n1)
  note view = frame_view [OF p(5,3) eq2]
  have t2: "tables ?S s2 = tables ?S s" by (rule tables_cong(2)) (rule view(1))
  have inv2: "vm_inv ?S ?X (t # xs) s2"
  proof (rule vm_inv_frame [OF inv1 p(5)])
    show "p \<notin> tables ?S s1" using mp1 by (simp add: mappable_def)
    show "free_ok (t # xs) s2" using vm_invD(4) [OF inv1] by (simp add: s2_def free_ok_def)
  qed (simp_all add: s2_def s1(4))
  have mp2: "mappable ?S (t # xs) p s2" using mp1 p(3) by (simp add: mappable_def t2) (simp add: s2_def)
  have un2: "mapping s2 (rt e) va = None" using un view(3) slot by (simp add: mapping_def slot_of_def)
  have "\<not> no_room (rt e) va (t # xs) s2" by (simp add: no_room_def)
  then obtain s' where s': "page_insert (pgdir_kva (rt e)) (env_asid (envs s e)) p va perm s2 = Some (Inr (), s')"
    "vm_inv ?S ?X (if valid (pmem s2 (rt e) (unat (PDX va))) then t # xs else xs) s'"
    "remapped ?S (rt e) va (Some (mk_pte p perm)) s2 s'" "data_kept ?S s2 s'"
    "no_leak (p # t # xs) s2 \<longrightarrow> no_leak (if valid (pmem s2 (rt e) (unat (PDX va))) then t # xs else xs) s'"
    using page_insert_new_ok [OF inv2 slot _ un2 mp2 perm, of "env_asid (envs s e)"]
    unfolding page_insert_cases [OF inv2 slot] un2 list.sel option.case by blast
  let ?ys = "if valid (pmem s2 (rt e) (unat (PDX va))) then t # xs else xs"
  have run: "load_icode_mapper e bin va offset perm src len s = Some (Inr (), s')"
    using g(1) s'(1) k(3) [OF e] by (simp add: s2_def)
  have rest: "same_rest s s'"
  proof -
    have "same_rest s1 s2" by (simp add: s2_def same_rest_def)
    then show ?thesis using s1(2) page_insert_rest [OF s'(1)] same_rest_trans by blast
  qed
  have "no_leak ?ys s'" using s'(5) leak by (auto simp: no_leak_def s2_def n1 s1(3))
  then have ki: "kern_inv A rt b K s'"
    using kern_inv_rest [OF inv rest] s'(2) by (auto simp: space_inv_def)
  have fr: "has_free n s'" if fr: "has_free (n + 2) s" for n
  proof -
    obtain zs where zs: "list_rep (page_free_list s) zs" "n + 2 \<le> length zs" using fr unfolding has_free_def by blast
    have "n + 2 \<le> length (p # t # xs)" using zs(2) list_rep_unique [OF zs(1) free] by simp
    then show ?thesis using vm_invD(2) [OF s'(2)] by (auto simp: has_free_def intro!: exI [of _ ?ys])
  qed
  have m': "mapping s' (rt d) a = (if d = e \<and> VPN a = VPN va then Some (mk_pte p perm) else mapping s (rt d) a)"
    if "d \<in> A" "a < UTOP" for d a
  proof -
    have "mapping s2 (rt d) a = mapping s (rt d) a"
      using view(3) env_slot [OF that, of rt b] by (simp add: mapping_def slot_of_def)
    then show ?thesis using spaces_remapped [OF s'(3) k(2) e] that by (simp add: spaces_upd_def)
  qed
  have kept: "pmem s' (pte_page v) = pmem s2 (pte_page v)" if "mapping s' (rt d) a = Some v" "d \<in> A" "a < UTOP" for d a v
    using data_okD(2,3) [OF vm_invD(5) [OF s'(2)] env_slot [OF that(2,3)] that(1)] s'(4) by (simp add: data_kept_def)
  have pb: "p < 1048576" using p(1) np by simp
  have "user_view s' (rt d) a = (if d = e \<and> unat va div 4096 * 4096 \<le> a \<and> a < unat va div 4096 * 4096 + 4096
      then Some (f a, perm OR PTE_V) else user_view s (rt d) a)" if d: "d \<in> A" and a: "a < unat UTOP" for d a
  proof -
    have "a < 2 ^ 32" using less_trans [OF a unat_lt_32 [of UTOP]] by simp
    then have ua: "unat (of_nat a :: u32) = a" by (simp add: word_of_nat_unat_eq)
    then have lt: "(of_nat a :: u32) < UTOP" using a by (simp add: word_less_nat_alt)
    have iff: "VPN (of_nat a) = VPN va \<longleftrightarrow> unat va div 4096 * 4096 \<le> a \<and> a < unat va div 4096 * 4096 + 4096"
      by (simp add: word_unat_eq_iff unat_VPN ua) (rule page_iff)
    note m = m' [OF d lt]
    show ?thesis
    proof (cases "d = e \<and> VPN (of_nat a) = VPN va")
      case True
      then have "mapping s' (rt d) (of_nat a) = Some (mk_pte p perm)" using m by simp
      with kept [OF this d lt] True iff show ?thesis
        using g(2) [of a] pb perm by (simp add: user_view_def s2_def mk_pte_flags)
    next
      case False
      then have m: "mapping s' (rt d) (of_nat a) = mapping s (rt d) (of_nat a)" using m by metis
      have "pmem s' (pte_page v) = pmem s (pte_page v)" if v: "mapping s (rt d) (of_nat a) = Some v" for v
      proof -
        have "(rt d, unat (PDX (of_nat a)), unat (PTX (of_nat a))) \<in> refs ?S s (pte_page v)"
          using v env_slot [OF d lt, of rt b] by (simp add: refs_points mapping_def slot_of_def points_def)
        then have "pte_page v \<noteq> p" using p(2) by auto
        then show ?thesis using kept [OF _ d lt] m v eq2 by simp
      qed
      then show ?thesis using False iff m by (cases "mapping s (rt d) (of_nat a)") (auto simp: user_view_def)
    qed
  qed
  then have "loaded A rt b K e (perm OR PTE_V) f (unat va div 4096 * 4096) (unat va div 4096 * 4096 + 4096) s s'"
    using ki rest fr by (simp add: loaded_def)
  with run show ?thesis by blast
qed

section \<open>One segment\<close>

lemma loaded_refl: "kern_inv A rt b K s \<Longrightarrow> loaded A rt b K e fl f x x s s"
  by (auto simp: loaded_def)

lemma loaded_cong: "(\<And>a. x \<le> a \<Longrightarrow> a < y \<Longrightarrow> f a = g a) \<Longrightarrow> loaded A rt b K e fl f x y s s' = loaded A rt b K e fl g x y s s'"
  by (auto simp: loaded_def)

lemma loadedD:
  assumes "loaded A rt b K e fl f x y s s'"
  shows "kern_inv A rt b K s'" "same_rest s s'" "has_free (n + 2 * ((y - x) div 4096)) s \<Longrightarrow> has_free n s'"
    and "d \<in> A \<Longrightarrow> a < unat UTOP \<Longrightarrow> user_view s' (rt d) a =
      (if d = e \<and> x \<le> a \<and> a < y then Some (f a, fl) else user_view s (rt d) a)"
  using assms by (auto simp: loaded_def)

lemma loaded_trans:
  assumes "loaded A rt b K e fl f x y s s1" and "loaded A rt b K e fl f y z s1 s2"
    and "x \<le> y" and "y \<le> z" and "(y - x) mod 4096 = 0"
  shows "loaded A rt b K e fl f x z s s2"
proof -
  have "(z - x) div 4096 = (y - x) div 4096 + (z - y) div 4096"
  proof -
    obtain q where "y - x = 4096 * q" using assms(5) by (auto elim: dvdE)
    moreover from this have "z - x = (z - y) + 4096 * q" using assms(3,4) by linarith
    ultimately show ?thesis by simp
  qed
  then have "has_free n s2" if "has_free (n + 2 * ((z - x) div 4096)) s" for n
    using that loadedD(3) [OF assms(1), of "n + 2 * ((z - y) div 4096)"] loadedD(3) [OF assms(2), of n]
    by (simp add: algebra_simps)
  then show ?thesis
    using loadedD(1,4) [OF assms(2)] loadedD(4) [OF assms(1)] assms(3,4)
      same_rest_trans [OF loadedD(2) [OF assms(1)] loadedD(2) [OF assms(2)]]
    by (auto simp: loaded_def)
qed

lemma user_view_None: "user_view s r (unat va) = None \<longleftrightarrow> mapping s r va = None"
  by (simp add: user_view_def)

lemma has_free_2:
  assumes "has_free 2 s"
  obtains p t xs where "list_rep (page_free_list s) (p # t # xs)"
proof -
  obtain xs where xs: "list_rep (page_free_list s) xs" "2 \<le> length xs" using assms by (auto simp: has_free_def)
  then obtain p t ys where "xs = p # t # ys" by (auto simp: numeral_2_eq_2 Suc_le_length_iff)
  with xs(1) that show thesis by blast
qed

text \<open>The mapper at a page of the segment.\<close>

lemma load_page_at:
  assumes inv: "kern_inv A rt b K s" and e: "e \<in> A" and perm: "perm_ok perm"
    and x: "x = unat va div 4096 * 4096" and va: "va < UTOP" "user_view s (rt e) (unat va) = None" and free: "has_free 2 s"
    and fit: "src \<noteq> None \<longrightarrow> unat offset + unat len \<le> 4096"
    and f: "\<And>a. x \<le> a \<Longrightarrow> a < x + 4096 \<Longrightarrow> f a = (case src of None \<Rightarrow> 0 | Some o0 \<Rightarrow>
      if x + unat offset \<le> a \<and> a < x + unat offset + unat len then bin (o0 + (a - (x + unat offset))) else 0)"
  shows "\<exists>s'. load_icode_mapper e bin va offset perm src len s = Some (Inr (), s') \<and>
    loaded A rt b K e (perm OR PTE_V) f x (x + 4096) s s'"
proof -
  obtain p t xs where fl: "list_rep (page_free_list s) (p # t # xs)" by (rule has_free_2 [OF free])
  let ?h = "\<lambda>a. case src of None \<Rightarrow> 0 | Some o0 \<Rightarrow> if unat offset \<le> a mod 4096 \<and> a mod 4096 < unat offset + unat len
      then bin (o0 + (a mod 4096 - unat offset)) else 0"
  obtain s' where s': "load_icode_mapper e bin va offset perm src len s = Some (Inr (), s')"
    "loaded A rt b K e (perm OR PTE_V) ?h x (x + 4096) s s'"
    using load_page [OF inv e va(1) va(2) [unfolded user_view_None] fl perm fit refl, of bin] unfolding x by blast
  have "?h a = f a" if "x \<le> a" "a < x + 4096" for a
  proof -
    have "a div 4096 = unat va div 4096" by (rule div_nat_eqI) (use that x in simp_all)
    then have "a mod 4096 = a - x" using minus_div_mult_eq_mod [of a 4096] by (simp add: x)
    then show ?thesis using f [OF that] that(1) by (auto split: option.splits)
  qed
  then show ?thesis using s'(1) loaded_cong [of x "x + 4096" ?h f] s'(2) by simp
qed

text \<open>The two loops, from an offset at which a page starts.\<close>

lemma seg_content_ok:
  assumes "kern_inv A rt b K s" and e: "e \<in> A" and perm: "perm_ok perm"
    and "(unat va + unat i) mod 4096 = 0" and "unat va + unat i + n * 4096 \<le> unat UTOP"
    and "n = (unat bin_size - unat i + 4095) div 4096"
    and "\<And>a. unat va + unat i \<le> a \<Longrightarrow> a < unat va + unat i + n * 4096 \<Longrightarrow> user_view s (rt e) a = None"
    and "has_free (m + 2 * n) s"
    and f: "\<And>a. unat va \<le> a \<Longrightarrow> f a = (if a < unat va + unat bin_size then bin (a - unat va) else 0)"
  shows "\<exists>i' s'. seg_content (load_icode_mapper e bin) va perm bin_size i s = Some (Inr i', s') \<and> unat i' = unat i + n * 4096 \<and>
    loaded A rt b K e (perm OR PTE_V) f (unat va + unat i) (unat va + unat i') s s'"
  using assms(1,4-8)
proof (induction n arbitrary: i s)
  case 0
  then have "unat bin_size \<le> unat i" by (simp add: div_eq_0_iff)
  then have "\<not> i < bin_size" by (simp add: word_less_nat_alt)
  then show ?case
    using loaded_refl [OF "0.prems"(1)] by (subst seg_content.simps) auto
next
  case (Suc n)
  have lt: "unat i < unat bin_size" using Suc.prems(4) by (cases "unat i < unat bin_size") simp_all
  then have lt': "i < bin_size" by (simp add: word_less_nat_alt)
  let ?x = "unat va + unat i"
  have top: "?x + 4096 \<le> unat UTOP" using Suc.prems(3) by simp
  have U: "unat UTOP = 0x7f400000" by (simp add: mmu_layout)
  have x: "unat (va + i) = ?x" using top U by (simp add: unat_word_ariths)
  have i4: "unat (i + BY2PG) = unat i + 4096" using top U by (simp add: unat_word_ariths)
  have len: "unat (min (bin_size - i) BY2PG) = min (unat bin_size - unat i) 4096"
    using lt by (simp add: min_def word_le_nat_alt unat_sub word_less_nat_alt)
  obtain s1 where s1: "load_icode_mapper e bin (va + i) 0 perm (Some (unat i)) (min (bin_size - i) BY2PG) s = Some (Inr (), s1)"
    "loaded A rt b K e (perm OR PTE_V) f ?x (?x + 4096) s s1"
  proof -
    have "\<exists>s'. load_icode_mapper e bin (va + i) 0 perm (Some (unat i)) (min (bin_size - i) BY2PG) s = Some (Inr (), s') \<and>
      loaded A rt b K e (perm OR PTE_V) f ?x (?x + 4096) s s'"
    proof (rule load_page_at [OF Suc.prems(1) e perm])
      show "?x = unat (va + i) div 4096 * 4096" using Suc.prems(2) x by (simp add: mod_0_imp_dvd)
      show "va + i < UTOP" using top x by (simp add: word_less_nat_alt)
      show "user_view s (rt e) (unat (va + i)) = None" using Suc.prems(5) [of ?x] x by simp
      show "has_free 2 s" using Suc.prems(6) by (auto simp: has_free_def)
      show "Some (unat i) \<noteq> None \<longrightarrow> unat (0 :: u32) + unat (min (bin_size - i) BY2PG) \<le> 4096" by (simp add: len)
      fix a assume "?x \<le> a" "a < ?x + 4096"
      then show "f a = (case Some (unat i) of None \<Rightarrow> 0 | Some o0 \<Rightarrow>
        if ?x + unat (0 :: u32) \<le> a \<and> a < ?x + unat (0 :: u32) + unat (min (bin_size - i) BY2PG)
        then bin (o0 + (a - (?x + unat (0 :: u32)))) else 0)"
        using f [of a] lt by (auto simp: len)
    qed
    then show thesis using that by blast
  qed
  note l1 = loadedD [OF s1(2)]
  have "\<exists>i' s'. seg_content (load_icode_mapper e bin) va perm bin_size (i + BY2PG) s1 = Some (Inr i', s') \<and>
    unat i' = unat (i + BY2PG) + n * 4096 \<and> loaded A rt b K e (perm OR PTE_V) f (unat va + unat (i + BY2PG)) (unat va + unat i') s1 s'"
  proof (rule Suc.IH [OF l1(1)])
    have "?x + 4096 = ?x + 1 * 4096" by simp
    then show "(unat va + unat (i + BY2PG)) mod 4096 = 0" using Suc.prems(2) by (simp add: i4 add.assoc [symmetric])
    show "unat va + unat (i + BY2PG) + n * 4096 \<le> unat UTOP" using Suc.prems(3) by (simp add: i4)
    show "n = (unat bin_size - unat (i + BY2PG) + 4095) div 4096" using Suc.prems(4) unfolding i4 by linarith
    show "has_free (m + 2 * n) s1" using l1(3) [of "m + 2 * n"] Suc.prems(6) by (simp add: algebra_simps)
    fix a assume a: "unat va + unat (i + BY2PG) \<le> a" "a < unat va + unat (i + BY2PG) + n * 4096"
    then have "a < unat UTOP" using Suc.prems(3) by (simp add: i4)
    then show "user_view s1 (rt e) a = None" using l1(4) [OF e, of a] Suc.prems(5) [of a] a by (simp add: i4)
  qed
  then obtain i' s' where s': "seg_content (load_icode_mapper e bin) va perm bin_size (i + BY2PG) s1 = Some (Inr i', s')"
    "unat i' = unat i + Suc n * 4096" "loaded A rt b K e (perm OR PTE_V) f (?x + 4096) (unat va + unat i') s1 s'"
    by (auto simp: i4 add.assoc)
  have "loaded A rt b K e (perm OR PTE_V) f ?x (unat va + unat i') s s'"
    by (rule loaded_trans [OF s1(2) s'(3)]) (simp_all add: s'(2))
  then show ?case using s' s1(1) lt' by (subst seg_content.simps) simp
qed

lemma seg_zero_ok:
  assumes "kern_inv A rt b K s" and e: "e \<in> A" and perm: "perm_ok perm"
    and "x = (unat va + unat i) div 4096 * 4096" and "x + n * 4096 \<le> unat UTOP"
    and "n = (unat sgsize - unat i + 4095) div 4096"
    and "\<And>a. x \<le> a \<Longrightarrow> a < x + n * 4096 \<Longrightarrow> user_view s (rt e) a = None"
    and "has_free (m + 2 * n) s"
    and f: "\<And>a. x \<le> a \<Longrightarrow> f a = 0"
  shows "\<exists>s'. seg_zero (load_icode_mapper e bin) va perm bin_size sgsize i s = Some (Inr (), s') \<and>
    loaded A rt b K e (perm OR PTE_V) f x (x + n * 4096) s s'"
  using assms(1,4-9)
proof (induction n arbitrary: i s x)
  case 0
  then have "unat sgsize \<le> unat i" by (simp add: div_eq_0_iff)
  then have "\<not> i < sgsize" by (simp add: word_less_nat_alt)
  then show ?case using loaded_refl [OF "0.prems"(1)] by (subst seg_zero.simps) auto
next
  case (Suc n)
  have lt: "unat i < unat sgsize" using Suc.prems(4) by (cases "unat i < unat sgsize") simp_all
  then have lt': "i < sgsize" by (simp add: word_less_nat_alt)
  have top: "x + 4096 \<le> unat UTOP" using Suc.prems(3) by simp
  have U: "unat UTOP = 0x7f400000" by (simp add: mmu_layout)
  have in_x: "x \<le> unat va + unat i" "unat va + unat i < x + 4096" using Suc.prems(2) by simp_all
  have va: "unat (va + i) = unat va + unat i" using in_x top U by (simp add: unat_word_ariths)
  have i4: "unat (i + BY2PG) = unat i + 4096" using in_x top U by (simp add: unat_word_ariths)
  have "\<exists>s'. load_icode_mapper e bin (va + i) 0 perm None (min (bin_size - i) BY2PG) s = Some (Inr (), s') \<and>
    loaded A rt b K e (perm OR PTE_V) f x (x + 4096) s s'"
  proof (rule load_page_at [OF Suc.prems(1) e perm])
    show "x = unat (va + i) div 4096 * 4096" using Suc.prems(2) va by simp
    show "va + i < UTOP" using in_x top va by (simp add: word_less_nat_alt)
    show "user_view s (rt e) (unat (va + i)) = None" using Suc.prems(5) [of "unat va + unat i"] in_x va by simp
    show "has_free 2 s" using Suc.prems(6) by (auto simp: has_free_def)
  qed (use Suc.prems(7) in simp_all)
  then obtain s1 where s1: "load_icode_mapper e bin (va + i) 0 perm None (min (bin_size - i) BY2PG) s = Some (Inr (), s1)"
    "loaded A rt b K e (perm OR PTE_V) f x (x + 4096) s s1" by blast
  note l1 = loadedD [OF s1(2)]
  have "\<exists>s'. seg_zero (load_icode_mapper e bin) va perm bin_size sgsize (i + BY2PG) s1 = Some (Inr (), s') \<and>
    loaded A rt b K e (perm OR PTE_V) f (x + 4096) (x + 4096 + n * 4096) s1 s'"
  proof (rule Suc.IH [OF l1(1)])
    show "x + 4096 = (unat va + unat (i + BY2PG)) div 4096 * 4096"
      using div_add_self2 [of 4096 "unat va + unat i"] by (simp only: Suc.prems(2) i4 add.assoc [symmetric]) simp
    show "x + 4096 + n * 4096 \<le> unat UTOP" using Suc.prems(3) by simp
    show "n = (unat sgsize - unat (i + BY2PG) + 4095) div 4096" using Suc.prems(4) unfolding i4 by linarith
    show "has_free (m + 2 * n) s1" using l1(3) [of "m + 2 * n"] Suc.prems(6) by (simp add: algebra_simps)
    show "f a = 0" if "x + 4096 \<le> a" for a using Suc.prems(7) [of a] that by simp
    fix a assume a: "x + 4096 \<le> a" "a < x + 4096 + n * 4096"
    then have "a < unat UTOP" using Suc.prems(3) by simp
    then show "user_view s1 (rt e) a = None" using l1(4) [OF e, of a] Suc.prems(5) [of a] a by simp
  qed
  then obtain s' where s': "seg_zero (load_icode_mapper e bin) va perm bin_size sgsize (i + BY2PG) s1 = Some (Inr (), s')"
    "loaded A rt b K e (perm OR PTE_V) f (x + 4096) (x + Suc n * 4096) s1 s'"
    by (auto simp: algebra_simps)
  have "loaded A rt b K e (perm OR PTE_V) f x (x + Suc n * 4096) s s'"
    by (rule loaded_trans [OF s1(2) s'(2)]) simp_all
  then show ?case using s' s1(1) lt' by (subst seg_zero.simps) simp
qed

lemma round_pages:
  fixes u w :: nat
  assumes "u \<le> w"
  shows "(u + 4095) div 4096 + (w - (u + 4095) div 4096 * 4096 + 4095) div 4096 = (w + 4095) div 4096"
proof -
  define n where "n = (u + 4095) div 4096"
  have n: "n * 4096 \<le> u + 4095" by (simp add: n_def)
  have "n + (w - n * 4096 + 4095) div 4096 = (w + 4095) div 4096"
  proof (cases "n * 4096 \<le> w")
    case True
    then obtain r where "w = n * 4096 + r" using le_Suc_ex by blast
    then show ?thesis by (simp add: add.assoc)
  next
    case False
    then have "(w + 4095) div 4096 = n" using page_iff [of "w + 4095" n] n assms by linarith
    then show ?thesis using False by simp
  qed
  then show ?thesis by (simp add: n_def)
qed

lemma seg_loops_ok:
  assumes inv: "kern_inv A rt b K s" and e: "e \<in> A" and perm: "perm_ok perm"
    and al: "(unat va + unat i) mod 4096 = 0" and sz: "unat i \<le> unat bin_size" "unat bin_size \<le> unat sgsize"
    and y: "y = (unat va + unat sgsize + 4095) div 4096 * 4096" "unat va + unat sgsize \<le> unat UTOP"
    and un: "\<And>a. unat va + unat i \<le> a \<Longrightarrow> a < y \<Longrightarrow> user_view s (rt e) a = None"
    and free: "has_free (m + 2 * ((y - (unat va + unat i)) div 4096)) s"
    and f: "\<And>a. unat va \<le> a \<Longrightarrow> f a = (if a < unat va + unat bin_size then bin (a - unat va) else 0)"
  shows "\<exists>s'. try_c (seg_content (load_icode_mapper e bin) va perm bin_size i s)
      (\<lambda>i s. seg_zero (load_icode_mapper e bin) va perm bin_size sgsize i s) = Some (Inr (), s') \<and>
    loaded A rt b K e (perm OR PTE_V) f (unat va + unat i) y s s'"
proof -
  let ?x = "unat va + unat i"
  define n where "n = (unat bin_size - unat i + 4095) div 4096"
  define k where "k = (unat sgsize - unat i - n * 4096 + 4095) div 4096"
  obtain q where q: "?x = 4096 * q" using al by (auto elim: dvdE)
  have "unat va + unat sgsize + 4095 = 4096 * q + (unat sgsize - unat i + 4095)" using q sz by linarith
  then have "y = (4096 * q + (unat sgsize - unat i + 4095)) div 4096 * 4096" using y(1) by (simp only:)
  then have "y = 4096 * q + (unat sgsize - unat i + 4095) div 4096 * 4096" by (simp only: div_mult_self4) simp
  moreover have "n + k = (unat sgsize - unat i + 4095) div 4096"
    using round_pages [of "unat bin_size - unat i" "unat sgsize - unat i"] sz by (simp add: n_def k_def)
  ultimately have yk: "y = ?x + n * 4096 + k * 4096" using q by (simp add: algebra_simps)
  have U: "unat UTOP = 521216 * 4096" by (simp add: mmu_layout)
  then have "unat va + unat sgsize + 4095 \<le> 521216 * 4096 + 4095" using y(2) by simp
  from div_le_mono [OF this, of 4096] have top: "y \<le> unat UTOP" using y(1) U by simp
  have len: "(y - ?x) div 4096 = n + k" by (simp add: yk)
  have free': "has_free (m + 2 * k + 2 * n) s" using free unfolding len by (simp add: algebra_simps)
  obtain i' s1 where s1: "seg_content (load_icode_mapper e bin) va perm bin_size i s = Some (Inr i', s1)"
    "unat i' = unat i + n * 4096" "loaded A rt b K e (perm OR PTE_V) f ?x (unat va + unat i') s s1"
    using seg_content_ok [OF inv e perm al _ n_def un _ f, where m = "m + 2 * k"] top free'
    by (auto simp: yk)
  note l1 = loadedD [OF s1(3)]
  have al': "(unat va + unat i') mod 4096 = 0" using al by (simp add: s1(2) add.assoc [symmetric])
  have past: "unat va + unat bin_size \<le> unat va + unat i'"
  proof -
    have "unat bin_size - unat i + 4095 < n * 4096 + 4096" using page_iff [of "unat bin_size - unat i + 4095" n] by (simp add: n_def)
    then show ?thesis using s1(2) by linarith
  qed
  obtain s' where s': "seg_zero (load_icode_mapper e bin) va perm bin_size sgsize i' s1 = Some (Inr (), s')"
    "loaded A rt b K e (perm OR PTE_V) f (unat va + unat i') (unat va + unat i' + k * 4096) s1 s'"
  proof -
    have "\<exists>s'. seg_zero (load_icode_mapper e bin) va perm bin_size sgsize i' s1 = Some (Inr (), s') \<and>
      loaded A rt b K e (perm OR PTE_V) f (unat va + unat i') (unat va + unat i' + k * 4096) s1 s'"
    proof (rule seg_zero_ok [OF l1(1) e perm])
      show "unat va + unat i' = (unat va + unat i') div 4096 * 4096" using al' by (simp add: mod_0_imp_dvd)
      show "unat va + unat i' + k * 4096 \<le> unat UTOP" using top by (simp add: yk s1(2))
      show "k = (unat sgsize - unat i' + 4095) div 4096" by (simp add: k_def s1(2))
      show "has_free (m + 2 * k) s1" using l1(3) [of "m + 2 * k"] free' by (simp add: s1(2))
      show "f a = 0" if "unat va + unat i' \<le> a" for a using f [of a] that past by simp
      fix a assume a: "unat va + unat i' \<le> a" "a < unat va + unat i' + k * 4096"
      then have "a < y" using yk s1(2) by simp
      then show "user_view s1 (rt e) a = None" using l1(4) [OF e, of a] un [of a] a top s1(2) by simp
    qed
    then show thesis using that by blast
  qed
  have "loaded A rt b K e (perm OR PTE_V) f ?x (unat va + unat i' + k * 4096) s s'"
    by (rule loaded_trans [OF s1(3) s'(2)]) (simp_all add: s1(2))
  then show ?thesis using s1 s'(1) by (simp add: yk add.assoc)
qed

text \<open>The bytes of a segment, and the segments the loader copies as it should: inside the user space,
  and when the segment starts inside a page and its content ends in the same page, nothing may follow.\<close>

definition seg_byte :: "image \<Rightarrow> Elf32_Phdr \<Rightarrow> nat \<Rightarrow> u8" where
  "seg_byte bin ph a = (if unat (p_vaddr ph) \<le> a \<and> a < unat (p_vaddr ph) + unat (p_filesz ph)
     then bin (a - unat (p_vaddr ph)) else 0)"

definition seg_from :: "Elf32_Phdr \<Rightarrow> nat" where
  "seg_from ph = unat (p_vaddr ph) div 4096 * 4096"

definition seg_to :: "Elf32_Phdr \<Rightarrow> nat" where
  "seg_to ph = (unat (p_vaddr ph) + unat (p_memsz ph) + 4095) div 4096 * 4096"

definition seg_ok :: "Elf32_Phdr \<Rightarrow> bool" where
  "seg_ok ph \<longleftrightarrow> p_filesz ph \<le> p_memsz ph \<and> 0 < p_memsz ph \<and>
     unat (p_vaddr ph) + unat (p_memsz ph) \<le> unat UTOP \<and>
     (unat (p_vaddr ph) mod 4096 \<noteq> 0 \<longrightarrow> p_filesz ph = p_memsz ph \<or>
        4096 \<le> unat (p_vaddr ph) mod 4096 + unat (p_filesz ph))"

lemma seg_perm_ok [simp]: "perm_ok (seg_perm ph)" "seg_perm ph OR PTE_V = seg_perm ph"
  by (simp_all add: seg_perm_def perm_ok_def)

lemma seg_to_le:
  assumes "seg_ok ph"
  shows "seg_to ph \<le> unat UTOP"
proof -
  have U: "unat UTOP = 521216 * 4096" by (simp add: mmu_layout)
  have "unat (p_vaddr ph) + unat (p_memsz ph) + 4095 \<le> 521216 * 4096 + 4095" using assms U by (simp add: seg_ok_def)
  from div_le_mono [OF this, of 4096] show ?thesis by (simp add: seg_to_def U)
qed

lemma elf_load_seg_ok:
  assumes inv: "kern_inv A rt b K s" and e: "e \<in> A" and ok: "seg_ok ph"
    and un: "\<And>a. seg_from ph \<le> a \<Longrightarrow> a < seg_to ph \<Longrightarrow> user_view s (rt e) a = None"
    and free: "has_free (m + 2 * ((seg_to ph - seg_from ph) div 4096)) s"
  shows "\<exists>s'. elf_load_seg ph (load_icode_mapper e bin) s = Some (Inr (), s') \<and>
    loaded A rt b K e (seg_perm ph) (seg_byte bin ph) (seg_from ph) (seg_to ph) s s'"
proof -
  let ?v = "p_vaddr ph" and ?B = "p_filesz ph" and ?M = "p_memsz ph" and ?x = "seg_from ph" and ?y = "seg_to ph"
  let ?off = "?v - ROUNDDOWN ?v BY2PG"
  have sz: "unat ?B \<le> unat ?M" "0 < unat ?M" "unat ?v + unat ?M \<le> unat UTOP"
    using ok by (auto simp: seg_ok_def word_le_nat_alt word_less_nat_alt)
  have off: "unat ?off = unat ?v mod 4096"
  proof -
    have "unat (ROUNDDOWN ?v BY2PG) = unat ?v div 4096 * 4096"
      using unat_PTE_ADDR [of ?v] by (simp add: ROUNDDOWN_def PTE_ADDR_def)
    then show ?thesis by (simp add: unat_sub word_le_nat_alt minus_div_mult_eq_mod)
  qed
  have x: "?x + unat ?v mod 4096 = unat ?v" by (simp add: seg_from_def)
  have f: "seg_byte bin ph a = (if a < unat ?v + unat ?B then bin (a - unat ?v) else 0)" if "unat ?v \<le> a" for a
    using that by (simp add: seg_byte_def)
  show ?thesis
  proof (cases "unat ?v mod 4096 = 0")
    case True
    then have "?off = 0" using off by (simp add: unat_eq_zero)
    moreover have "?x = unat ?v + unat (0 :: u32)" using x True by simp
    ultimately show ?thesis
      using seg_loops_ok [OF inv e seg_perm_ok(1), where va = ?v and i = 0 and bin_size = ?B and sgsize = ?M and
          y = ?y and m = m and f = "seg_byte bin ph" and bin = bin and ph1 = ph] True sz un free f
      by (simp add: elf_load_seg_def Let_def seg_to_def)
  next
    case False
    let ?o = "unat ?v mod 4096" and ?i = "min ?B (BY2PG - ?off)"
    have o: "0 < ?o" "?o < 4096" using False by simp_all
    have "unat (BY2PG - ?off) = 4096 - ?o" using off o by (simp add: unat_sub word_le_nat_alt)
    then have i: "unat ?i = min (unat ?B) (4096 - ?o)" by (simp add: min_def word_le_nat_alt)
    have nz: "?off \<noteq> 0" using off o by (auto simp: unat_eq_zero)
    have y: "?y = (?x + (?o + unat ?M + 4095)) div 4096 * 4096" using x by (simp add: seg_to_def add.assoc [symmetric])
    have y1: "?x + 4096 \<le> ?y"
    proof -
      have "?x + 4096 \<le> ?x + (?o + unat ?M + 4095)" using sz o by simp
      from div_le_mono [OF this, of 4096] show ?thesis unfolding y by (simp add: seg_from_def)
    qed
    have len: "(?y - ?x) div 4096 = 1 + (?y - (?x + 4096)) div 4096"
      using y1 by (simp add: seg_from_def seg_to_def flip: diff_mult_distrib)
    have lt: "unat ?v < unat UTOP" using sz by simp
    have "\<exists>s'. load_icode_mapper e bin ?v ?off (seg_perm ph) (Some 0) ?i s = Some (Inr (), s') \<and>
      loaded A rt b K e (seg_perm ph OR PTE_V) (seg_byte bin ph) ?x (?x + 4096) s s'"
    proof (rule load_page_at [OF inv e seg_perm_ok(1)])
      show "?x = unat ?v div 4096 * 4096" by (simp add: seg_from_def)
      show "?v < UTOP" using lt by (simp add: word_less_nat_alt)
      have "?x \<le> unat ?v" "unat ?v < ?y" using x y1 o by linarith+
      then show "user_view s (rt e) (unat ?v) = None" by (rule un)
      show "has_free 2 s" using free unfolding len by (auto simp: has_free_def)
      show "Some 0 \<noteq> None \<longrightarrow> unat ?off + unat ?i \<le> 4096" using o by (simp add: off i)
      fix a assume "?x \<le> a" "a < ?x + 4096"
      then show "seg_byte bin ph a = (case Some 0 of None \<Rightarrow> 0 | Some o0 \<Rightarrow>
        if ?x + unat ?off \<le> a \<and> a < ?x + unat ?off + unat ?i then bin (o0 + (a - (?x + unat ?off))) else 0)"
        using x o by (auto simp: seg_byte_def off i)
    qed
    then obtain s1 where s1: "load_icode_mapper e bin ?v ?off (seg_perm ph) (Some 0) ?i s = Some (Inr (), s1)"
      "loaded A rt b K e (seg_perm ph) (seg_byte bin ph) ?x (?x + 4096) s s1" by auto
    note l1 = loadedD [OF s1(2)]
    have code: "elf_load_seg ph (load_icode_mapper e bin) s = try_c (seg_content (load_icode_mapper e bin) ?v (seg_perm ph) ?B ?i s1)
        (\<lambda>i s. seg_zero (load_icode_mapper e bin) ?v (seg_perm ph) ?B ?M i s)"
      using s1(1) nz by (simp add: elf_load_seg_def Let_def)
    show ?thesis
    proof (cases "4096 \<le> ?o + unat ?B")
      case True
      then have "unat ?v + unat ?i = ?x + 4096" using x o by (simp add: i)
      moreover have "user_view s1 (rt e) a = None" if "?x + 4096 \<le> a" "a < ?y" for a
        using l1(4) [OF e, of a] un [of a] that seg_to_le [OF ok] by simp
      moreover have "has_free (m + 2 * ((?y - (?x + 4096)) div 4096)) s1"
        using l1(3) [of "m + 2 * ((?y - (?x + 4096)) div 4096)"] free unfolding len by simp
      moreover have "(?x + 4096) mod 4096 = 0" "unat ?i \<le> unat ?B" by (simp_all add: seg_from_def i)
      ultimately obtain s' where s': "try_c (seg_content (load_icode_mapper e bin) ?v (seg_perm ph) ?B ?i s1)
          (\<lambda>i s. seg_zero (load_icode_mapper e bin) ?v (seg_perm ph) ?B ?M i s) = Some (Inr (), s')"
        "loaded A rt b K e (seg_perm ph) (seg_byte bin ph) (?x + 4096) ?y s1 s'"
        using seg_loops_ok [OF l1(1) e seg_perm_ok(1), where va = ?v and i = ?i and bin_size = ?B and sgsize = ?M and
          y = ?y and m = m and f = "seg_byte bin ph" and bin = bin and ph1 = ph] sz f
        by (auto simp: seg_to_def)
      have "loaded A rt b K e (seg_perm ph) (seg_byte bin ph) ?x ?y s s'"
        by (rule loaded_trans [OF s1(2) s'(2)]) (use y1 in simp_all)
      then show ?thesis using code s'(1) by simp
    next
      case False
      then have "?B = ?M" and i: "?i = ?B" using ok \<open>unat ?v mod 4096 \<noteq> 0\<close> i by (auto simp: seg_ok_def word_unat_eq_iff)
      then have "elf_load_seg ph (load_icode_mapper e bin) s = Some (Inr (), s1)"
        unfolding code i by (subst seg_content.simps, simp, subst seg_zero.simps, simp)
      moreover have "?y = ?x + 4096"
      proof -
        have "(?x + (?o + unat ?M + 4095)) div 4096 = unat ?v div 4096 + 1"
        proof (rule div_nat_eqI)
          have "4096 * (unat ?v div 4096) = ?x" by (simp add: seg_from_def)
          then show "4096 * (unat ?v div 4096 + 1) \<le> ?x + (?o + unat ?M + 4095)"
            "?x + (?o + unat ?M + 4095) < 4096 * Suc (unat ?v div 4096 + 1)"
            using \<open>?B = ?M\<close> False sz(2) by (simp_all only: mult_Suc_right add_mult_distrib2 not_le)
        qed
        then show ?thesis unfolding y by (simp add: seg_from_def)
      qed
      ultimately show ?thesis using s1(2) by auto
    qed
  qed
qed

section \<open>A program\<close>

definition phdr :: "image \<Rightarrow> Elf32_Ehdr \<Rightarrow> nat \<Rightarrow> Elf32_Phdr" where
  "phdr binary ehdr k = rd_phdr binary (unat (e_phoff ehdr + of_nat k * ucast (e_phentsize ehdr)))"

definition segments :: "image \<Rightarrow> Elf32_Ehdr \<Rightarrow> Elf32_Phdr list" where
  "segments binary ehdr = filter (\<lambda>ph. p_type ph = 1) (map (phdr binary ehdr) [0..<unat (e_phnum ehdr)])"

text \<open>What a process loaded from an image finds at an address.\<close>

definition image_view :: "image \<Rightarrow> Elf32_Phdr list \<Rightarrow> nat \<Rightarrow> (u8 \<times> u32) option" where
  "image_view binary segs a = map_option (\<lambda>ph. (seg_byte (\<lambda>j. binary (unat (p_offset ph) + j)) ph a, seg_perm ph))
     (find (\<lambda>ph. seg_from ph \<le> a \<and> a < seg_to ph) segs)"

definition segs_ok :: "Elf32_Phdr list \<Rightarrow> bool" where
  "segs_ok segs \<longleftrightarrow> (\<forall>ph \<in> set segs. seg_ok ph) \<and> sorted_wrt (\<lambda>p q. seg_to p \<le> seg_from q \<or> seg_to q \<le> seg_from p) segs"

definition seg_pages :: "Elf32_Phdr list \<Rightarrow> nat" where
  "seg_pages segs = sum_list (map (\<lambda>ph. (seg_to ph - seg_from ph) div 4096) segs)"

lemma load_segs_ok:
  assumes "kern_inv A rt b K s" and e: "e \<in> A" and "segs_ok (filter (\<lambda>ph. p_type ph = 1) phs)"
    and "\<forall>ph a. ph \<in> set phs \<and> p_type ph = 1 \<and> seg_from ph \<le> a \<and> a < seg_to ph \<longrightarrow> user_view s (rt e) a = None"
    and "has_free (m + 2 * seg_pages (filter (\<lambda>ph. p_type ph = 1) phs)) s"
  shows "\<exists>s'. fold_opt (\<lambda>ph s. if p_type ph = 1 then do {
        (r, s1) \<leftarrow> elf_load_seg ph (load_icode_mapper e (\<lambda>j. binary (unat (p_offset ph) + j))) s;
        (case r of Inl _ \<Rightarrow> None | Inr _ \<Rightarrow> Some s1) } else Some s) phs s = Some s' \<and>
    kern_inv A rt b K s' \<and> same_rest s s' \<and> has_free m s' \<and>
    (\<forall>d \<in> A. \<forall>a < unat UTOP. user_view s' (rt d) a = (if d = e then
       case image_view binary (filter (\<lambda>ph. p_type ph = 1) phs) a of Some v \<Rightarrow> Some v | None \<Rightarrow> user_view s (rt d) a
     else user_view s (rt d) a))"
  using assms(1,3-5)
proof (induction phs arbitrary: s)
  case Nil
  then show ?case by (auto simp: image_view_def seg_pages_def)
next
  case (Cons ph phs)
  show ?case
  proof (cases "p_type ph = 1")
    case False
    have "segs_ok (filter (\<lambda>ph. p_type ph = 1) phs)" "has_free (m + 2 * seg_pages (filter (\<lambda>ph. p_type ph = 1) phs)) s"
      using Cons.prems(2,4) False by simp_all
    moreover have "\<forall>q a. q \<in> set phs \<and> p_type q = 1 \<and> seg_from q \<le> a \<and> a < seg_to q \<longrightarrow> user_view s (rt e) a = None"
      using Cons.prems(3) by auto
    moreover have fl: "filter (\<lambda>ph. p_type ph = 1) (ph # phs) = filter (\<lambda>ph. p_type ph = 1) phs" using False by simp
    ultimately show ?thesis using Cons.IH [OF Cons.prems(1)] False unfolding fl by (simp split del: if_split)
  next
    case True
    let ?segs = "filter (\<lambda>ph. p_type ph = 1) phs" and ?bin = "\<lambda>j. binary (unat (p_offset ph) + j)"
    have ok: "seg_ok ph" "segs_ok ?segs" using Cons.prems(2) True by (auto simp: segs_ok_def)
    have apart: "seg_to ph \<le> seg_from q \<or> seg_to q \<le> seg_from ph" if "q \<in> set phs" "p_type q = 1" for q
      using Cons.prems(2) True that by (auto simp: segs_ok_def)
    obtain s1 where s1: "elf_load_seg ph (load_icode_mapper e ?bin) s = Some (Inr (), s1)"
      "loaded A rt b K e (seg_perm ph) (seg_byte ?bin ph) (seg_from ph) (seg_to ph) s s1"
      using elf_load_seg_ok [OF Cons.prems(1) e ok(1), of "m + 2 * seg_pages ?segs" ?bin] Cons.prems(3) Cons.prems(4) True
      by (auto simp: seg_pages_def algebra_simps)
    note l1 = loadedD [OF s1(2)]
    have "user_view s1 (rt e) a = None" if "q \<in> set phs" "p_type q = 1" "seg_from q \<le> a" "a < seg_to q" for q a
      using l1(4) [OF e, of a] that Cons.prems(3) apart [of q] seg_to_le [of q] ok(2) by (auto simp: segs_ok_def)
    then have un1: "\<forall>q a. q \<in> set phs \<and> p_type q = 1 \<and> seg_from q \<le> a \<and> a < seg_to q \<longrightarrow> user_view s1 (rt e) a = None"
      by blast
    have fr: "has_free (m + 2 * seg_pages ?segs) s1"
      using l1(3) [of "m + 2 * seg_pages ?segs"] Cons.prems(4) True by (simp add: seg_pages_def algebra_simps)
    obtain s' where s': "fold_opt (\<lambda>ph s. if p_type ph = 1 then do {
        (r, s1) \<leftarrow> elf_load_seg ph (load_icode_mapper e (\<lambda>j. binary (unat (p_offset ph) + j))) s;
        (case r of Inl _ \<Rightarrow> None | Inr _ \<Rightarrow> Some s1) } else Some s) phs s1 = Some s'" "kern_inv A rt b K s'" "same_rest s1 s'"
      "has_free m s'" "\<And>d a. d \<in> A \<Longrightarrow> a < unat UTOP \<Longrightarrow> user_view s' (rt d) a = (if d = e then
         case image_view binary ?segs a of Some v \<Rightarrow> Some v | None \<Rightarrow> user_view s1 (rt d) a else user_view s1 (rt d) a)"
      using Cons.IH [OF l1(1) ok(2) un1 fr] by blast
    have "image_view binary (ph # ?segs) a = (if seg_from ph \<le> a \<and> a < seg_to ph
        then Some (seg_byte ?bin ph a, seg_perm ph) else image_view binary ?segs a)" for a
      by (simp add: image_view_def)
    moreover have "image_view binary ?segs a = None" if "seg_from ph \<le> a" "a < seg_to ph" for a
    proof -
      have "\<not> (seg_from q \<le> a \<and> a < seg_to q)" if "q \<in> set phs" "p_type q = 1" for q
        using apart [OF that] \<open>seg_from ph \<le> a\<close> \<open>a < seg_to ph\<close> by linarith
      then show ?thesis by (auto simp: image_view_def find_None_iff)
    qed
    ultimately show ?thesis
      using s1(1) s' l1(4) True same_rest_trans [OF l1(2) s'(3)]
      by (intro exI [of _ s']) (auto split: option.splits)
  qed
qed

lemma load_icode_ok:
  assumes inv: "kern_inv A rt b K s" and e: "e \<in> A" and elf: "elf_from binary sz = Some ehdr"
    and ok: "segs_ok (segments binary ehdr)" and un: "\<And>a. a < unat UTOP \<Longrightarrow> user_view s (rt e) a = None"
    and free: "has_free (m + 2 * seg_pages (segments binary ehdr)) s"
  shows "\<exists>s1. load_icode e binary sz s = Some (upd_env e (\<lambda>v. v\<lparr>env_tf := (env_tf v)\<lparr>cp0_epc := e_entry ehdr\<rparr>\<rparr>) s1) \<and>
    kern_inv A rt b K s1 \<and> same_rest s s1 \<and> has_free m s1 \<and>
    (\<forall>d \<in> A. \<forall>a < unat UTOP. user_view s1 (rt d) a =
       (if d = e then image_view binary (segments binary ehdr) a else user_view s (rt d) a))"
proof -
  have ph: "user_view s (rt e) a = None" if "ph \<in> set (map (phdr binary ehdr) [0..<unat (e_phnum ehdr)])" "p_type ph = 1"
    "a < seg_to ph" for ph a
  proof -
    have "seg_ok ph" using ok that(1,2) by (auto simp: segs_ok_def segments_def)
    then show ?thesis using un [of a] that(3) seg_to_le [of ph] by simp
  qed
  then have "\<forall>ph a. ph \<in> set (map (phdr binary ehdr) [0..<unat (e_phnum ehdr)]) \<and> p_type ph = 1 \<and> seg_from ph \<le> a \<and>
      a < seg_to ph \<longrightarrow> user_view s (rt e) a = None" by blast
  from load_segs_ok [OF inv e ok [unfolded segments_def] this free [unfolded segments_def], where binary = binary]
  obtain s1 where "fold_opt (\<lambda>ph s. if p_type ph = 1 then do {
        (r, s1) \<leftarrow> elf_load_seg ph (load_icode_mapper e (\<lambda>j. binary (unat (p_offset ph) + j))) s;
        (case r of Inl _ \<Rightarrow> None | Inr _ \<Rightarrow> Some s1) } else Some s) (map (phdr binary ehdr) [0..<unat (e_phnum ehdr)]) s = Some s1"
    "kern_inv A rt b K s1" "same_rest s s1" "has_free m s1"
    "\<forall>d \<in> A. \<forall>a < unat UTOP. user_view s1 (rt d) a = (if d = e then
         case image_view binary (segments binary ehdr) a of Some v \<Rightarrow> Some v | None \<Rightarrow> user_view s (rt d) a else user_view s (rt d) a)"
    unfolding segments_def [symmetric] by blast
  then show ?thesis
    using un elf e by (intro exI [of _ s1]) (auto simp: load_icode_def fold_opt_map phdr_def [abs_def] comp_def Let_def split: option.splits)
qed

section \<open>A new environment\<close>

text \<open>What \<^verbatim>\<open>env_alloc\<close> does to memory is what \<^verbatim>\<open>env_setup_vm\<close> does.\<close>

lemma asid_alloc_mem: "asid_alloc s = (r, s') \<Longrightarrow> pmem s' = pmem s \<and> page_free_list s' = page_free_list s"
proof -
  have "asid_scan is s = (r, s') \<Longrightarrow> pmem s' = pmem s \<and> page_free_list s' = page_free_list s" for "is"
    by (induction "is" s rule: asid_scan.induct) (auto split: if_splits)
  then show "asid_alloc s = (r, s') \<Longrightarrow> pmem s' = pmem s \<and> page_free_list s' = page_free_list s"
    by (simp add: asid_alloc_def)
qed

lemma mkenvid_mem: "mkenvid e s = (i, s') \<Longrightarrow> pmem s' = pmem s \<and> page_free_list s' = page_free_list s"
  by (auto simp: mkenvid_def Let_def)

lemma env_alloc_mem:
  assumes "env_alloc parent s = Some (Inr e, s')"
  shows "\<exists>r s1. env_setup_vm e s = Some (r, s1) \<and> pmem s' = pmem s1 \<and> page_free_list s' = page_free_list s1"
  using assms
  by (auto simp: env_alloc_def elim!: bind_eq_SomeD dest!: asid_alloc_mem mkenvid_mem split: option.splits prod.splits sum.splits)

lemma user_view_cong: "pmem s' = pmem s \<Longrightarrow> user_view s' = user_view s"
  by (intro ext) (simp add: user_view_def mapping_cong [of s' s])

lemma env_alloc_view:
  assumes inv: "kern_inv A rt b K s" and e: "e \<notin> A" and al: "env_alloc parent s = Some (Inr e, s')"
    and free: "list_rep (page_free_list s) (p # xs)"
  shows "list_rep (page_free_list s') xs" and "a < unat UTOP \<Longrightarrow> user_view s' p a = None"
    and "d \<in> A \<Longrightarrow> a < unat UTOP \<Longrightarrow> user_view s' (rt d) a = user_view s (rt d) a"
proof -
  let ?S = "dir_slots (rt ` A) b" and ?X = "dir_refs (rt ` A) b K"
  obtain ys where ys: "vm_inv ?S ?X ys s" "list_rep (page_free_list s) ys" by (rule kern_vm [OF inv])
  have vm: "vm_inv ?S ?X (p # xs) s" using ys list_rep_unique [OF free ys(2)] by simp
  have "(b, 509) \<in> ?S" by (simp add: dir_slots_def)
  then have b: "b < unat (npage s)" "b \<noteq> p"
    using slots_okD(1) [OF vm_invD(3) [OF vm]] free_page_unused(5) [OF vm list.set_intros(1)] by (auto simp: dir_slots_fst)
  have base: "base_pgdir s = pgdir_kva b" using inv by (simp add: kern_inv_def)
  obtain s1 where s1: "env_setup_vm e s = Some (Inr (), s1)" "pmem s1 = (pmem s)(p := new_dir p b s)"
    "list_rep (page_free_list s1) xs" using env_setup_vm_ok [OF vm base b, of e] by blast
  have s': "pmem s' = (pmem s)(p := new_dir p b s)" "page_free_list s' = page_free_list s1"
    using env_alloc_mem [OF al] s1(1,2) by auto
  show "list_rep (page_free_list s') xs" by (simp add: s' s1(3))
  have word: "unat (of_nat a :: u32) = a" "(of_nat a :: u32) < UTOP" if "a < unat UTOP" for a
  proof -
    show u: "unat (of_nat a :: u32) = a" using less_trans [OF that unat_lt_32] by (simp add: word_of_nat_unat_eq)
    show "(of_nat a :: u32) < UTOP" using that u by (simp add: word_less_nat_alt)
  qed
  show "user_view s' p a = None" if "a < unat UTOP"
    using PDX_user [OF word(2) [OF that]] by (simp add: user_view_def mapping_def pte_at_def s'(1) new_dir_def)
  note p = free_page_unused [OF vm list.set_intros(1)]
  note view = frame_view [OF p(5,3), of s'] 
  show "user_view s' (rt d) a = user_view s (rt d) a" if d: "d \<in> A" and a: "a < unat UTOP"
  proof -
    note slot = env_slot [OF d word(2) [OF a], of rt b]
    have m: "mapping s' (rt d) (of_nat a) = mapping s (rt d) (of_nat a)"
      using view(3) slot by (simp add: mapping_def slot_of_def s'(1))
    have "pte_page v \<noteq> p" if v: "mapping s (rt d) (of_nat a) = Some v" for v
    proof -
      have "(rt d, unat (PDX (of_nat a)), unat (PTX (of_nat a))) \<in> refs ?S s (pte_page v)"
        using v slot by (simp add: refs_points mapping_def slot_of_def points_def)
      then show ?thesis using p(2) by auto
    qed
    then show ?thesis by (cases "mapping s (rt d) (of_nat a)") (auto simp: user_view_def m s'(1))
  qed
qed

text \<open>The program in a new environment \<open>e\<close> whose directory is page \<open>p\<close>.\<close>

lemma env_create_ok:
  assumes inv: "kern_inv A rt b K s" and lists: "env_lists (e # fl) q s" and e: "e \<notin> A"
    and free: "list_rep (page_free_list s) (p # xs)" and asid: "asids s \<noteq> {..<NASID}"
    and elf: "elf_from binary sz = Some ehdr" and ok: "segs_ok (segments binary ehdr)"
    and room: "m + 2 * seg_pages (segments binary ehdr) \<le> length xs"
  shows "\<exists>s'. env_create binary sz pri s = Some (e, s') \<and> kern_inv (insert e A) (rt(e := p)) b K s' \<and>
    env_lists fl (e # q) s' \<and> has_free m s' \<and> curenv s' = curenv s \<and>
    (\<forall>d. d \<noteq> e \<longrightarrow> envs s' d = envs s d) \<and> env_id (envs s' e) = fst (mkenvid e s) \<and> env_pri (envs s' e) = pri \<and>
    cp0_epc (env_tf (envs s' e)) = e_entry ehdr \<and>
    (\<forall>a < unat UTOP. user_view s' p a = image_view binary (segments binary ehdr) a) \<and>
    (\<forall>d \<in> A. \<forall>a < unat UTOP. user_view s' (rt d) a = user_view s (rt d) a) \<and>
    asids s' = insert (unat (env_asid (envs s' e))) (asids s) \<and> mkenvid_i s' = mkenvid_i s + 1"
proof -
  note ls = env_listsD [OF lists]
  have eN: "e < NENV" using ls(3) [of e] by simp
  have first: "lh_first (page_free_list s) = Some p" by (rule lq.pop(1) [OF free])
  let ?rt = "rt(e := p)" and ?A = "insert e A"
  obtain s1 where s1: "env_alloc 0 s = Some (Inr e, s1)" "kern_inv ?A ?rt b K s1" "list_rep (env_free_list s1) fl"
    "env_sched_list s1 = env_sched_list s" "curenv s1 = curenv s" "\<forall>d. d \<noteq> e \<longrightarrow> envs s1 d = envs s d"
    "env_status (envs s1 e) = env_status (envs s e)" "env_id (envs s1 e) = fst (mkenvid e s)"
    "asids s1 = insert (unat (env_asid (envs s1 e))) (asids s)" "mkenvid_i s1 = mkenvid_i s + 1"
    using env_alloc_ok [OF inv e eN ls(1) first asid, of 0] by blast
  note v1 = env_alloc_view [OF inv e s1(1) free]
  define s2 where "s2 = upd_env e (\<lambda>v. v\<lparr>env_pri := pri, env_status := ENV_RUNNABLE\<rparr>) s1"
  have inv2: "kern_inv ?A ?rt b K s2"
    using kern_inv_upd_env [OF s1(2), of "\<lambda>v. v\<lparr>env_pri := pri, env_status := ENV_RUNNABLE\<rparr>" e "env_sched_list s1"]
    by (simp add: s2_def)
  have view2: "user_view s2 = user_view s1" by (rule user_view_cong) (simp add: s2_def)
  have un: "user_view s2 (?rt e) a = None" if "a < unat UTOP" for a using v1(2) [OF that] by (simp add: view2)
  have fr: "has_free (m + 2 * seg_pages (segments binary ehdr)) s2"
    using v1(1) room by (auto simp: has_free_def s2_def)
  obtain s3 where s3: "load_icode e binary sz s2 = Some (upd_env e (\<lambda>v. v\<lparr>env_tf := (env_tf v)\<lparr>cp0_epc := e_entry ehdr\<rparr>\<rparr>) s3)"
    "kern_inv ?A ?rt b K s3" "same_rest s2 s3" "has_free m s3" "\<And>d a. d \<in> ?A \<Longrightarrow> a < unat UTOP \<Longrightarrow> user_view s3 (?rt d) a =
       (if d = e then image_view binary (segments binary ehdr) a else user_view s2 (?rt d) a)"
    using load_icode_ok [OF inv2 insertI1 elf ok un fr] by blast
  note r = kstate_rest [OF s3(3)]
  define s' where "s' = (upd_env e (\<lambda>v. v\<lparr>env_tf := (env_tf v)\<lparr>cp0_epc := e_entry ehdr\<rparr>\<rparr>) s3)
      \<lparr>env_sched_list := TAILQ_INSERT_HEAD e (env_sched_list s3)\<rparr>"
  have run: "env_create binary sz pri s = Some (e, s')"
    using s1(1) s3(1) by (simp add: env_create_def s2_def [symmetric] s'_def)
  have q: "e \<notin> set q" using ls(3) [of e] ls(4) [of e] by auto
  have "env_lists fl (e # q) s'"
    unfolding env_lists_def
  proof (intro conjI allI impI)
    show "list_rep (env_free_list s') fl" using s1(3) r by (simp add: s'_def s2_def)
    show "tailq_rep (env_sched_list s') (e # q)"
      using TAILQ_INSERT_HEAD_rep [OF ls(2) q] r s1(4) by (simp add: s'_def s2_def)
    have dist: "e \<notin> set fl" using ls(1) by (simp add: list_rep_def)
    show "d \<in> set fl \<longleftrightarrow> d < NENV \<and> env_status (envs s' d) = ENV_FREE" for d
      using ls(3) [of d] s1(6) r dist by (auto simp: s'_def s2_def)
    show "d \<in> set (e # q) \<longleftrightarrow> d < NENV \<and> env_status (envs s' d) = ENV_RUNNABLE" for d
      using ls(4) [of d] s1(6) r eN by (auto simp: s'_def s2_def)
    show "c < NENV" if "curenv s' = Some c" for c using ls(5) [of c] that r s1(5) by (simp add: s'_def s2_def)
  qed
  moreover have "kern_inv ?A ?rt b K s'"
    using kern_inv_upd_env [OF s3(2), of "\<lambda>v. v\<lparr>env_tf := (env_tf v)\<lparr>cp0_epc := e_entry ehdr\<rparr>\<rparr>" e
        "TAILQ_INSERT_HEAD e (env_sched_list s3)"] by (simp add: s'_def upd_env_sched)
  moreover have view': "user_view s' = user_view s3" by (rule user_view_cong) (simp add: s'_def)
  moreover have "user_view s' (rt d) a = user_view s (rt d) a" if "d \<in> A" "a < unat UTOP" for d a
  proof -
    have "d \<noteq> e" using that e by auto
    then show ?thesis using s3(5) [of d a] v1(3) [OF that] that by (simp add: view' view2)
  qed
  ultimately show ?thesis
    using run s3(4) s3(5) [of e] r s1 by (intro exI [of _ s']) (auto simp: s'_def s2_def has_free_def asids_def)
qed

section \<open>The properties\<close>

text \<open>C11. \<^verbatim>\<open>env_create\<close> with a program whose segments lie in the user space on different pages, and enough
  free pages: the first free environment becomes runnable at the head of the run queue with the entry point of
  the program, and at every user address finds exactly what the program says: the bytes of the segment, zeros
  behind them and in the rest of their pages, with the segment's permission, and nothing elsewhere.  The
  kernel invariant is kept and no other environment finds anything changed.\<close>

theorem env_create_correct:
  assumes "kern_inv A rt b K s" and "env_lists (e # fl) q s" and "e \<notin> A"
    and "list_rep (page_free_list s) (p # xs)" and "asids s \<noteq> {..<NASID}"
    and "elf_from binary sz = Some ehdr" and "segs_ok (segments binary ehdr)"
    and "2 * seg_pages (segments binary ehdr) \<le> length xs"
  shows "\<exists>s'. env_create binary sz pri s = Some (e, s') \<and> kern_inv (insert e A) (rt(e := p)) b K s' \<and>
    env_lists fl (e # q) s' \<and> env_pri (envs s' e) = pri \<and> cp0_epc (env_tf (envs s' e)) = e_entry ehdr \<and>
    (\<forall>a < unat UTOP. user_view s' p a = image_view binary (segments binary ehdr) a) \<and>
    (\<forall>d \<in> A. \<forall>a < unat UTOP. user_view s' (rt d) a = user_view s (rt d) a)"
  using env_create_ok [OF assms(1-7), of 0 pri] assms(8) by auto

text \<open>A program of one segment: four bytes at \<open>0x400010\<close>, in a page that is filled up with zeros.\<close>

definition demo_elf :: image where
  "demo_elf i = (let L = [0x7f, 0x45, 0x4c, 0x46, 0, 0, 0, 0, 0, 0, 0, 0, 0, 0, 0, 0, 2, 0, 0, 0, 0, 0, 0, 0,
       0x10, 0, 0x40, 0, 52, 0, 0, 0, 0, 0, 0, 0, 0, 0, 0, 0, 0, 0, 32, 0, 1, 0, 0, 0, 0, 0, 0, 0,
       1, 0, 0, 0, 84, 0, 0, 0, 0x10, 0, 0x40, 0, 0, 0, 0, 0, 4, 0, 0, 0, 4, 0, 0, 0, 7, 0, 0, 0, 0, 0, 0, 0,
       0xde, 0xad, 0xbe, 0xef]
     in if i < length L then L ! i else 0)"

definition demo_ehdr :: Elf32_Ehdr where
  "demo_ehdr = \<lparr>e_entry = 0x400010, e_phoff = 52, e_phentsize = 32, e_phnum = 1\<rparr>"

definition demo_phdr :: Elf32_Phdr where
  "demo_phdr = \<lparr>p_type = 1, p_offset = 84, p_vaddr = 0x400010, p_filesz = 4, p_memsz = 4, p_flags = 7\<rparr>"

lemma demo_elf_from: "elf_from demo_elf 88 = Some demo_ehdr"
  by (simp add: elf_from_def rd_ehdr_def rd16_def rd32_def demo_elf_def demo_ehdr_def)

lemma demo_segments: "segments demo_elf demo_ehdr = [demo_phdr]"
  by (simp add: segments_def phdr_def rd_phdr_def rd32_def demo_elf_def demo_ehdr_def demo_phdr_def)

lemma demo_segs_ok: "segs_ok [demo_phdr]" "seg_pages [demo_phdr] = 1"
  by (simp_all add: segs_ok_def seg_ok_def seg_pages_def demo_phdr_def seg_from_def seg_to_def mmu_layout)

theorem env_create_correct_witness:
  "\<exists>s'. env_create demo_elf 88 1 small = Some (1, s') \<and> user_view s' 15 0x400011 = Some (0xad, PTE_V OR PTE_D) \<and>
     user_view s' 15 0x500000 = None"
proof -
  have 1: "1 \<notin> asids small" by (simp add: asids_def asid_bit_def small_def)
  then have asid: "asids small \<noteq> {..<NASID}" by (metis lessThan_iff one_less_numeral_iff semiring_norm(76))
  have fr: "list_rep (page_free_list small) (15 # [14, 13, 12, 11, 10, 9, 8, 7, 6, 5, 4, 3])"
    using small_free [unfolded small_free_list] by simp
  have "image_view demo_elf [demo_phdr] 0x400011 = Some (0xad, PTE_V OR PTE_D)" "image_view demo_elf [demo_phdr] 0x500000 = None"
    by (simp_all add: image_view_def seg_from_def seg_to_def seg_byte_def seg_perm_def demo_phdr_def demo_elf_def)
  moreover have e: "1 \<notin> {0 :: nat}" by simp
  ultimately show ?thesis
    using env_create_correct [OF small_kern small_lists e fr asid demo_elf_from, of 1]
    by (auto simp: demo_segments demo_segs_ok mmu_layout)
qed

text \<open>A zero page put over a page that is mapped: it takes one free page, and nothing else changes in the
  space of the environment.\<close>

lemma reload_page:
  assumes inv: "kern_inv A rt b K s" and e: "e \<in> A" and va: "va < UTOP" and m: "mapping s (rt e) va \<noteq> None"
    and free: "has_free (Suc n) s" and perm: "perm_ok perm" and x: "x = unat va div 4096 * 4096"
  shows "\<exists>s'. load_icode_mapper e bin va offset perm None len s = Some (Inr (), s') \<and> kern_inv A rt b K s' \<and> has_free n s' \<and>
    (\<forall>a < unat UTOP. user_view s' (rt e) a =
       (if x \<le> a \<and> a < x + 4096 then Some (0, perm OR PTE_V) else user_view s (rt e) a))"
proof -
  let ?S = "dir_slots (rt ` A) b" and ?X = "dir_refs (rt ` A) b K"
  obtain ys where ys: "vm_inv ?S ?X ys s" "no_leak ys s" "list_rep (page_free_list s) ys" by (rule kern_vm [OF inv])
  obtain zs where zs: "list_rep (page_free_list s) zs" "Suc n \<le> length zs" using free unfolding has_free_def by blast
  have "ys = zs" by (rule list_rep_unique [OF ys(3) zs(1)])
  then obtain p xs where pxs: "ys = p # xs" "n \<le> length xs" using zs(2) by (cases ys) auto
  with ys have vm: "vm_inv ?S ?X (p # xs) s" and leak: "no_leak (p # xs) s" by simp_all
  have slot: "slot_of (rt e) va \<in> ?S" by (rule env_slot [OF e va])
  have "valid (pmem s (rt e) (unat (PDX va)))" using m by (auto simp: mapping_def pte_at_def split: if_splits)
  then have room: "\<not> no_room (rt e) va xs s" by (simp add: no_room_def)
  obtain s1 s' ws where s': "page_alloc s = Some (Inr p, s1)" "same_rest s s1"
    "page_insert (pgdir_kva (rt e)) (env_asid (envs s e)) p va perm s1 = Some (Inr (), s')" "same_rest s s'"
    "vm_inv ?S ?X ws s'" "remapped ?S (rt e) va (Some (mk_pte p perm)) s s'" "pmem s' p = (\<lambda>_. 0)"
    "no_leak ws s'" "\<And>q. q \<notin> tables ?S s' \<Longrightarrow> q \<notin> fst ` ?S \<Longrightarrow> q \<noteq> p \<Longrightarrow> pmem s' q = pmem s q" "length xs \<le> length ws"
    using alloc_insert_ok [OF vm slot room perm, of "env_asid (envs s e)"] leak m by blast
  have run: "load_icode_mapper e bin va offset perm None len s = Some (Inr (), s')"
    using s'(1,3) kstate_rest(1) [OF s'(2)] kern_invD(3) [OF inv e] by (simp add: load_icode_mapper_def)
  have ki: "kern_inv A rt b K s'" using kern_inv_rest [OF inv s'(4)] s'(5,8) by (auto simp: space_inv_def)
  have "has_free n s'" using vm_invD(2) [OF s'(5)] s'(10) pxs(2) by (auto simp: has_free_def intro!: exI [of _ ws])
  moreover have "user_view s' (rt e) a = (if x \<le> a \<and> a < x + 4096 then Some (0, perm OR PTE_V) else user_view s (rt e) a)"
    if a: "a < unat UTOP" for a
  proof -
    have u: "unat (of_nat a :: u32) = a" using less_trans [OF a unat_lt_32] by (simp add: word_of_nat_unat_eq)
    then have lt: "(of_nat a :: u32) < UTOP" using a by (simp add: word_less_nat_alt)
    have iff: "VPN (of_nat a) = VPN va \<longleftrightarrow> x \<le> a \<and> a < x + 4096"
      unfolding x by (simp add: word_unat_eq_iff unat_VPN u) (rule page_iff)
    have m': "mapping s' (rt e) (of_nat a) = (if x \<le> a \<and> a < x + 4096 then Some (mk_pte p perm) else mapping s (rt e) (of_nat a))"
      using spaces_remapped [OF s'(6) kern_invD(2) [OF inv] e] e lt iff by (simp add: spaces_upd_def)
    show ?thesis
    proof (cases "x \<le> a \<and> a < x + 4096")
      case True
      moreover have "p < 1048576" using free_page_unused(1) [OF vm list.set_intros(1)] vm_invD(1) [OF vm] by simp
      ultimately show ?thesis using m' perm by (simp add: user_view_def s'(7) mk_pte_flags page_byte_def get_byte_def)
    next
      case False
      have "pmem s' (pte_page v) = pmem s (pte_page v)" if v: "mapping s (rt e) (of_nat a) = Some v" for v
      proof (rule s'(9))
        have v': "mapping s' (rt e) (of_nat a) = Some v" using m' v False by (simp only: if_False)
        show "pte_page v \<notin> tables ?S s'" "pte_page v \<notin> fst ` ?S"
          using data_okD(2,3) [OF vm_invD(5) [OF s'(5)] env_slot [OF e lt] v'] by auto
        have "(rt e, unat (PDX (of_nat a)), unat (PTX (of_nat a))) \<in> refs ?S s (pte_page v)"
          using v env_slot [OF e lt, of rt b] by (simp add: refs_points mapping_def slot_of_def points_def)
        then show "pte_page v \<noteq> p" using free_page_unused(2) [OF vm list.set_intros(1)] by auto
      qed
      then show ?thesis using m' False by (cases "mapping s (rt e) (of_nat a)") (auto simp: user_view_def)
    qed
  qed
  ultimately show ?thesis using run ki by blast
qed

lemma pages_Suc:
  fixes u w :: nat
  assumes "u < w"
  shows "(w - u + 4095) div 4096 = Suc ((w - (u + 4096) + 4095) div 4096)"
proof (cases "u + 4096 \<le> w")
  case True
  then have "w - u + 4095 = (w - (u + 4096) + 4095) + 4096" by simp
  then show ?thesis by (simp only: div_add_self2)
next
  case False
  then have "(w - u + 4095) div 4096 = 1" by (intro div_nat_eqI) (use assms in simp_all)
  then show ?thesis using False by simp
qed

text \<open>C39. A segment that starts inside a page, whose content ends in that page and which has more memory than
  content loses its content: \<^verbatim>\<open>elf_load_seg\<close> copies it, then starts the zero pages at the end of the content
  instead of the next page, so the first of them replaces the page with the content, and it returns 0.  The
  process finds nothing but zeros, in as many pages as the memory behind the content takes.\<close>

theorem elf_content_lost:
  assumes inv: "kern_inv A rt b K s" and e: "e \<in> A"
    and o0: "0 < unat (p_vaddr ph) mod 4096" and content: "unat (p_vaddr ph) mod 4096 + unat (p_filesz ph) < 4096"
    and bss: "p_filesz ph < p_memsz ph" and user: "unat (p_vaddr ph) + unat (p_memsz ph) \<le> unat UTOP"
    and n: "n = (unat (p_memsz ph) - unat (p_filesz ph) + 4095) div 4096"
    and un: "\<forall>a. seg_from ph \<le> a \<and> a < seg_from ph + n * 4096 \<longrightarrow> user_view s (rt e) a = None"
    and free: "has_free (2 * n + 1) s"
  shows "\<exists>s'. elf_load_seg ph (load_icode_mapper e bin) s = Some (Inr (), s') \<and> kern_inv A rt b K s' \<and> 1 \<le> n \<and>
    (\<forall>a < unat UTOP. user_view s' (rt e) a =
       (if seg_from ph \<le> a \<and> a < seg_from ph + n * 4096 then Some (0, seg_perm ph) else user_view s (rt e) a))"
proof -
  let ?v = "p_vaddr ph" and ?B = "p_filesz ph" and ?M = "p_memsz ph" and ?o = "unat (p_vaddr ph) mod 4096" and ?x = "seg_from ph"
  let ?off = "?v - ROUNDDOWN ?v BY2PG" and ?i = "min (p_filesz ph) (BY2PG - (p_vaddr ph - ROUNDDOWN (p_vaddr ph) BY2PG))"
  have lt: "unat ?B < unat ?M" using bss by (simp add: word_less_nat_alt)
  have x: "?x + ?o = unat ?v" by (simp add: seg_from_def)
  have U: "unat UTOP = 521216 * 4096" by (simp add: mmu_layout)
  have "unat (ROUNDDOWN ?v BY2PG) = unat ?v div 4096 * 4096"
    using unat_PTE_ADDR [of ?v] by (simp add: ROUNDDOWN_def PTE_ADDR_def)
  then have off: "unat ?off = ?o" by (simp add: unat_sub word_le_nat_alt minus_div_mult_eq_mod)
  then have nz: "?off \<noteq> 0" using o0 by (auto simp: unat_eq_zero)
  have "unat (BY2PG - ?off) = 4096 - ?o" using off content by (simp add: unat_sub word_le_nat_alt)
  moreover have "unat ?B \<le> 4096 - ?o" using content by simp
  ultimately have i: "?i = ?B" by (simp add: min_def word_le_nat_alt)
  obtain k where k: "n = Suc k" "k = (unat ?M - (unat ?B + 4096) + 4095) div 4096"
  proof
    show "n = Suc ((unat ?M - (unat ?B + 4096) + 4095) div 4096)" by (simp only: n pages_Suc [OF lt])
  qed simp
  have last: "?x + n * 4096 \<le> unat UTOP"
  proof -
    have "n * 4096 \<le> unat ?M - unat ?B + 4095" using n by simp
    then have "?x + n * 4096 < 521216 * 4096 + 4096" using user x U lt by linarith
    then have "unat ?v div 4096 + n < 521216 + 1" unfolding seg_from_def by linarith
    then show ?thesis unfolding seg_from_def U by simp
  qed
  have va: "?v < UTOP" using user lt by (simp add: word_less_nat_alt)
  obtain s1 where s1: "load_icode_mapper e bin ?v ?off (seg_perm ph) (Some 0) ?B s = Some (Inr (), s1)"
    "loaded A rt b K e (seg_perm ph OR PTE_V) (seg_byte bin ph) ?x (?x + 4096) s s1"
  proof -
    have "\<exists>s'. load_icode_mapper e bin ?v ?off (seg_perm ph) (Some 0) ?B s = Some (Inr (), s') \<and>
      loaded A rt b K e (seg_perm ph OR PTE_V) (seg_byte bin ph) ?x (?x + 4096) s s'"
    proof (rule load_page_at [OF inv e seg_perm_ok(1) _ va])
      show "?x = unat ?v div 4096 * 4096" by (simp add: seg_from_def)
      show "user_view s (rt e) (unat ?v) = None" using un x content k(1) by simp
      show "has_free 2 s" using free k(1) by (auto simp: has_free_def)
      show "Some 0 \<noteq> None \<longrightarrow> unat ?off + unat ?B \<le> 4096" using content by (simp add: off)
      show "seg_byte bin ph a = (case Some 0 of None \<Rightarrow> 0 | Some o0 \<Rightarrow>
        if ?x + unat ?off \<le> a \<and> a < ?x + unat ?off + unat ?B then bin (o0 + (a - (?x + unat ?off))) else 0)" for a
        using x by (auto simp: seg_byte_def off)
    qed
    then show thesis using that by blast
  qed
  note l1 = loadedD [OF s1(2)]
  have v1: "user_view s1 (rt e) a = (if ?x \<le> a \<and> a < ?x + 4096 then Some (seg_byte bin ph a, seg_perm ph) else user_view s (rt e) a)"
    if "a < unat UTOP" for a using l1(4) [OF e that] by simp
  have in_page: "?x \<le> unat ?v + unat ?B" "unat ?v + unat ?B < ?x + 4096" using x content by linarith+
  have u: "unat (?v + ?B) = unat ?v + unat ?B" using user lt U by (simp add: unat_word_ariths)
  have lt': "?v + ?B < UTOP" using user lt by (simp add: word_less_nat_alt u)
  have page: "?x = unat (?v + ?B) div 4096 * 4096"
    using in_page page_iff [of "unat ?v + unat ?B" "unat ?v div 4096"] by (simp add: u seg_from_def)
  have "user_view s1 (rt e) (unat (?v + ?B)) \<noteq> None" using v1 [of "unat ?v + unat ?B"] in_page user lt u by simp
  then have m: "mapping s1 (rt e) (?v + ?B) \<noteq> None" by (simp add: user_view_def)
  have fr: "has_free (Suc (2 * k)) s1" using l1(3) [of "Suc (2 * k)"] free k(1) by simp
  obtain s2 where s2: "load_icode_mapper e bin (?v + ?B) 0 (seg_perm ph) None (min (?B - ?B) BY2PG) s1 = Some (Inr (), s2)"
    "kern_inv A rt b K s2" "has_free (2 * k) s2"
    and v2: "\<And>a. a < unat UTOP \<Longrightarrow> user_view s2 (rt e) a = (if ?x \<le> a \<and> a < ?x + 4096 then Some (0, seg_perm ph) else user_view s1 (rt e) a)"
    using reload_page [OF l1(1) e lt' m fr seg_perm_ok(1) page, where bin = bin and offset = 0 and ph1 = ph and
        len = "min (?B - ?B) BY2PG"] by auto
  have B4: "unat (?B + BY2PG) = unat ?B + 4096" using in_page lt' U u page by (simp add: unat_word_ariths word_less_nat_alt)
  have "\<exists>s'. seg_zero (load_icode_mapper e bin) ?v (seg_perm ph) ?B ?M (?B + BY2PG) s2 = Some (Inr (), s') \<and>
    loaded A rt b K e (seg_perm ph OR PTE_V) (\<lambda>_. 0) (?x + 4096) (?x + 4096 + k * 4096) s2 s'"
  proof (rule seg_zero_ok [OF s2(2) e seg_perm_ok(1), where m = 0])
    show "?x + 4096 = (unat ?v + unat (?B + BY2PG)) div 4096 * 4096"
      using page div_add_self2 [of 4096 "unat ?v + unat ?B"] by (simp only: B4 u add.assoc [symmetric]) simp
    show "?x + 4096 + k * 4096 \<le> unat UTOP" using last k(1) by simp
    show "k = (unat ?M - unat (?B + BY2PG) + 4095) div 4096" using k(2) by (simp add: B4)
    show "has_free (0 + 2 * k) s2" using s2(3) by simp
    fix a assume a: "?x + 4096 \<le> a" "a < ?x + 4096 + k * 4096"
    then have "a < unat UTOP" using last k(1) by simp
    then show "user_view s2 (rt e) a = None" using v2 v1 un a k(1) by simp
  qed simp
  then obtain s' where s': "seg_zero (load_icode_mapper e bin) ?v (seg_perm ph) ?B ?M (?B + BY2PG) s2 = Some (Inr (), s')"
    "loaded A rt b K e (seg_perm ph) (\<lambda>_. 0) (?x + 4096) (?x + n * 4096) s2 s'" using k(1) by (auto simp: add.assoc)
  have "elf_load_seg ph (load_icode_mapper e bin) s = seg_zero (load_icode_mapper e bin) ?v (seg_perm ph) ?B ?M ?B s1"
    using s1(1) nz i by (simp add: elf_load_seg_def Let_def seg_content.simps [of _ _ _ ?B ?B])
  also have "\<dots> = Some (Inr (), s')" using s2(1) s'(1) bss by (simp add: seg_zero.simps [of _ _ _ _ _ ?B])
  finally have run: "elf_load_seg ph (load_icode_mapper e bin) s = Some (Inr (), s')" .
  have "user_view s' (rt e) a = (if ?x \<le> a \<and> a < ?x + n * 4096 then Some (0, seg_perm ph) else user_view s (rt e) a)"
    if a: "a < unat UTOP" for a
    using loadedD(4) [OF s'(2) e a] v2 [OF a] v1 [OF a] k(1) by simp
  then show ?thesis using run loadedD(1) [OF s'(2)] k(1) by auto
qed

theorem elf_content_lost_witness:
  "\<exists>s'. elf_load_seg (demo_phdr\<lparr>p_memsz := 6000\<rparr>) (load_icode_mapper 0 (\<lambda>_. 0xff)) small = Some (Inr (), s') \<and>
     user_view s' 1 0x400010 = Some (0, PTE_V OR PTE_D) \<and> user_view s' 1 0x401000 = Some (0, PTE_V OR PTE_D)"
proof -
  let ?ph = "demo_phdr\<lparr>p_memsz := 6000\<rparr>"
  have free: "has_free (2 * 2 + 1) small" using small_free [unfolded small_free_list] by (auto simp: has_free_def)
  have "user_view small 1 a = None" if "seg_from ?ph \<le> a" "a < seg_from ?ph + 2 * 4096" for a
  proof -
    have a: "0x400000 \<le> a" "a < 0x402000" using that by (simp_all add: seg_from_def demo_phdr_def)
    then have "unat (of_nat a :: u32) = a" by (simp add: unsigned_of_nat take_bit_nat_eq_self)
    moreover have "a div 4194304 = 1" using a by simp
    ultimately have "mapping small 1 (of_nat a) = None"
      by (intro small_mapping) (simp add: slot_of_def dir_slots_def unat_PDX)
    then show ?thesis by (simp add: user_view_def)
  qed
  then have un: "\<forall>a. seg_from ?ph \<le> a \<and> a < seg_from ?ph + 2 * 4096 \<longrightarrow> user_view small 1 a = None" by blast
  have ph: "0 < unat (p_vaddr ?ph) mod 4096" "unat (p_vaddr ?ph) mod 4096 + unat (p_filesz ?ph) < 4096"
    "p_filesz ?ph < p_memsz ?ph" "unat (p_vaddr ?ph) + unat (p_memsz ?ph) \<le> unat UTOP"
    "2 = (unat (p_memsz ?ph) - unat (p_filesz ?ph) + 4095) div 4096"
    by (simp_all add: demo_phdr_def mmu_layout)
  obtain s' where run: "elf_load_seg ?ph (load_icode_mapper 0 (\<lambda>_. 0xff)) small = Some (Inr (), s')"
    and view: "\<forall>a < unat UTOP. user_view s' 1 a = (if seg_from ?ph \<le> a \<and> a < seg_from ?ph + 2 * 4096
       then Some (0, seg_perm ?ph) else user_view small 1 a)"
    using elf_content_lost [OF small_kern insertI1 ph un free, where bin = "\<lambda>_. 0xff"] by blast
  have "seg_from ?ph = 0x400000" "seg_perm ?ph = PTE_V OR PTE_D" by (simp_all add: demo_phdr_def seg_from_def seg_perm_def)
  then have "user_view s' 1 a = Some (0, PTE_V OR PTE_D)" if "0x400000 \<le> a" "a < 0x402000" for a
    using view that by (simp add: mmu_layout)
  then show ?thesis using run by simp
qed

end
