(* ===== verification/Boot.thy ===== *)
theory Boot
  imports Load
begin

text \<open>
  The boot sequence of \<^verbatim>\<open>init/init.c\<close>: it leaves the kernel invariant, the arrays the user may read mapped
  read-only, and the two first programs loaded and runnable.
\<close>

section \<open>Mapping the kernel's arrays\<close>

text \<open>The reference count of a page the kernel holds follows from what is mapped.\<close>

lemma keep_ref:
  assumes inv: "vm_inv S X xs s" "vm_inv S X xs' s'" and np: "npage s' = npage s" and q: "q < unat (npage s)" "0 < X q"
    and same: "\<And>r i j. (r, i) \<in> S \<Longrightarrow> j < 1024 \<Longrightarrow> points (pte_at s' r i j) q = points (pte_at s r i j) q"
  shows "pp_ref s' q = pp_ref s q"
proof -
  have "q \<notin> tables S s" "q \<notin> tables S s'"
    using slots_ok_tab [OF vm_invD(3) [OF inv(1)]] slots_ok_tab [OF vm_invD(3) [OF inv(2)]] q(2)
    by (force simp: tables_def)+
  moreover have "refs S s' q = refs S s q" using same by (auto simp: refs_points)
  ultimately have "unat (pp_ref s' q) = unat (pp_ref s q)"
    using vm_invD(6) [OF inv(1)] vm_invD(6) [OF inv(2)] q(1) by (simp add: refs_ok_def np)
  then show ?thesis by (simp add: word_unat_eq_iff)
qed

lemma kept_not_free:
  assumes inv: "vm_inv S X xs s" and q: "q < unat (npage s)" "0 < X q"
  shows "q \<notin> set xs" and "q \<notin> tables S s"
proof -
  have "0 < unat (pp_ref s q)" using vm_invD(6) [OF inv] q by (simp add: refs_ok_def)
  then show "q \<notin> set xs" using vm_invD(4) [OF inv] by (auto simp: free_ok_def)
  show "q \<notin> tables S s" using slots_ok_tab [OF vm_invD(3) [OF inv]] q(2) by (force simp: tables_def)
qed

lemma map_segment_ok:
  fixes s :: "('z) pmap_state_scheme"
  assumes inv: "vm_inv S X xs s" and leak: "no_leak xs s" and perm: "perm_ok perm" and slot: "(r, D) \<in> S"
    and va: "unat va = (D * 1024 + J) * 4096" "J + n \<le> 1024" "D < 512" and sz: "unat sz = n * 4096" and pa: "pa = page2pa P"
    and fit: "P + n \<le> unat (npage s)"
    and pages: "\<And>k. k < n \<Longrightarrow> 0 < X (P + k) \<and> P + k \<notin> fst ` S \<and> pp_ref s (P + k) \<noteq> 65535"
    and un: "\<And>j. j < 1024 \<Longrightarrow> pte_at s r D j = None" and room: "xs \<noteq> []"
  shows "\<exists>s' xs'. map_segment (pgdir_kva r) asid pa va sz perm s = Some s' \<and> vm_inv S X xs' s' \<and> no_leak xs' s' \<and>
    length xs \<le> length xs' + 1 \<and> same_rest s s' \<and>
    (\<forall>r' i j. (r', i) \<in> S \<longrightarrow> j < 1024 \<longrightarrow> pte_at s' r' i j =
       (if r' = r \<and> i = D \<and> J \<le> j \<and> j < J + n then Some (mk_pte (P + (j - J)) perm) else pte_at s r' i j)) \<and>
    (\<forall>q < unat (npage s). 0 < X q \<longrightarrow> q \<notin> {P..<P + n} \<longrightarrow> pp_ref s' q = pp_ref s q)"
proof -
  let ?f = "\<lambda>k s. do { pp \<leftarrow> pa2page (npage s) (pa + of_nat k * BY2PG);
      (_, s') \<leftarrow> page_insert (pgdir_kva r) asid pp (va + of_nat k * BY2PG) perm s; Some s' }"
  let ?M = "\<lambda>k s'. \<forall>r' i j. (r', i) \<in> S \<longrightarrow> j < 1024 \<longrightarrow> pte_at s' r' i j =
      (if r' = r \<and> i = D \<and> J \<le> j \<and> j < J + k then Some (mk_pte (P + (j - J)) perm) else pte_at s r' i j)"
  let ?I = "\<lambda>k s'. same_rest s s' \<and> ?M k s' \<and> (\<exists>xs'. vm_inv S X xs' s' \<and> no_leak xs' s' \<and>
      length xs \<le> length xs' + of_bool (valid (pmem s' r D)))"
  have np: "unat (npage s) \<le> 131072" by (rule vm_invD(1) [OF inv])
  have keep: "pp_ref s' q = pp_ref s q" if I: "?I k s'" and k: "k \<le> n" and q: "q < unat (npage s)" "0 < X q" "q \<notin> {P..<P + k}" for k s' q
  proof -
    obtain xs' where xs': "vm_inv S X xs' s'" using I by blast
    have n': "npage s' = npage s" using I by (simp add: same_rest_def)
    have M: "?M k s'" using I by blast
    have pt: "pte_page (mk_pte (P + (j - J)) perm) = P + (j - J)" if "J \<le> j" "j < J + k" for j
    proof (rule pte_page_mk_pte [OF _ perm])
      have "j - J < n" using that k by linarith
      then show "P + (j - J) < 1048576" using fit np by linarith
    qed
    show ?thesis
    proof (rule keep_ref [OF inv xs' n' q(1,2)])
      fix r' i j :: nat assume S: "(r', i) \<in> S" "j < 1024"
      show "points (pte_at s' r' i j) q = points (pte_at s r' i j) q"
        using M S pt [of j] un [of j] q(3) by (auto simp: points_def)
    qed
  qed
  have "\<exists>s'. fold_opt ?f [0..<n] s = Some s' \<and> ?I (length [0..<n]) s'"
  proof (rule fold_opt_inv [where I = ?I])
    show "?I 0 s" using inv leak by auto
    fix k s1 assume "k < length [0..<n]" and I: "?I k s1"
    then have k: "k < n" by simp
    obtain ys where ys: "vm_inv S X ys s1" "no_leak ys s1" "length xs \<le> length ys + of_bool (valid (pmem s1 r D))" using I by blast
    have n1: "npage s1 = npage s" using I by (simp add: same_rest_def)
    have pg: "P + k < unat (npage s)" "0 < X (P + k)" "P + k \<notin> fst ` S" "pp_ref s (P + k) \<noteq> 65535"
      using pages [OF k] fit k by auto
    have "pa + of_nat k * BY2PG = page2pa (P + k)"
    proof -
      have "P < 1048576" "P + k < 1048576" using pg np by simp_all
      then show ?thesis by (simp add: pa page2pa_def page2ppn_def push_bit_eq_mult algebra_simps)
    qed
    then have pp: "pa2page (npage s1) (pa + of_nat k * BY2PG) = Some (P + k)"
      using pa2page_page2pa [of "P + k" "npage s"] pg np by (simp add: n1)
    let ?va = "va + of_nat k * BY2PG"
    have uk: "unat (of_nat k * BY2PG) = k * 4096" using k va(2) by (simp add: unat_word_ariths word_of_nat_unat_eq)
    have sum: "unat va + k * 4096 = (D * 1024 + (J + k)) * 4096" using va(1) by (simp only: add_mult_distrib add.assoc)
    have "D * 1024 + (J + k) < 524288" using va(2,3) k by linarith
    then have "unat va + unat (of_nat k * BY2PG) < 2 ^ LENGTH(32)" unfolding uk sum by simp
    then have u: "unat ?va = (D * 1024 + (J + k)) * 4096"
      using unat_add_no_overflow [of va "of_nat k * BY2PG"] unfolding uk sum by blast
    have D: "unat (PDX ?va) = D"
    proof -
      have "(D * 1024 + (J + k)) * 4096 div 4194304 = D" by (rule div_nat_eqI) (use k va(2) in simp_all)
      then show ?thesis by (simp add: unat_PDX u)
    qed
    have J: "unat (PTX ?va) = J + k" using k va(2) by (simp add: unat_PTX u)
    have slot': "slot_of r ?va \<in> S" using slot by (simp add: slot_of_def D)
    have M: "?M k s1" using I by blast
    then have m: "mapping s1 r ?va = None" using slot k va(2) un [of "J + k"] by (simp add: mapping_def D J)
    have "\<not> no_room r ?va ys s1" using ys(3) room by (cases "valid (pmem s1 r D)") (auto simp: no_room_def D)
    moreover have "mappable S ys (P + k) s1"
      using kept_not_free [OF ys(1), of "P + k"] pg keep [OF I less_imp_le [OF k], of "P + k"] by (simp add: mappable_def n1)
    ultimately obtain s2 where s2: "page_insert_new (pgdir_kva r) asid (P + k) ?va perm s1 = Some (Inr (), s2)"
      "vm_inv S X (if valid (pmem s1 r D) then ys else tl ys) s2" "remapped S r ?va (Some (mk_pte (P + k) perm)) s1 s2"
      "no_leak ((P + k) # ys) s1 \<longrightarrow> no_leak (if valid (pmem s1 r D) then ys else tl ys) s2"
      using page_insert_new_ok [OF ys(1) slot' _ m _ perm, of "P + k" asid] unfolding D by blast
    let ?ys = "if valid (pmem s1 r D) then ys else tl ys"
    have run: "page_insert (pgdir_kva r) asid (P + k) ?va perm s1 = Some (Inr (), s2)"
      using s2(1) by (simp add: page_insert_cases [OF ys(1) slot'] m)
    have M2: "?M (Suc k) s2"
    proof (intro allI impI)
      fix r' i j :: nat assume S: "(r', i) \<in> S" "j < 1024"
      have "pte_at s2 r' i j = (if (r', i, j) = (r, D, J + k) then Some (mk_pte (P + k) perm) else pte_at s1 r' i j)"
        using s2(3) S(1) by (simp add: remapped_def D J)
      then show "pte_at s2 r' i j = (if r' = r \<and> i = D \<and> J \<le> j \<and> j < J + Suc k
          then Some (mk_pte (P + (j - J)) perm) else pte_at s r' i j)"
        using M S by auto
    qed
    have "pte_at s2 r D (J + k) \<noteq> None" using M2 slot k va(2) by simp
    then have "valid (pmem s2 r D)" by (auto simp: pte_at_def split: if_splits)
    moreover have "length xs \<le> length ?ys + 1" using ys(3) by (cases "valid (pmem s1 r D)") auto
    moreover have "no_leak ?ys s2" using s2(4) ys(2) by (auto simp: no_leak_def)
    moreover have "same_rest s s2" using I page_insert_rest [OF run] same_rest_trans by blast
    ultimately have "?I (Suc k) s2" using s2(2) M2 by (intro conjI exI [of _ ?ys]) auto
    then show "\<exists>s'. ?f ([0..<n] ! k) s1 = Some s' \<and> ?I (Suc k) s'" using k pp run by (intro exI [of _ s2]) simp
  qed
  then obtain s' where s': "fold_opt ?f [0..<n] s = Some s'" "?I n s'" by auto
  have "unat pa mod 4096 = 0" using fit np by (simp add: pa unat_page2pa)
  then have "pa mod BY2PG = 0 \<and> va mod BY2PG = 0 \<and> sz mod BY2PG = 0" using va(1) sz by (simp add: word_unat_eq_iff unat_mod)
  then have "map_segment (pgdir_kva r) asid pa va sz perm s = Some s'"
    using s'(1) sz by (simp add: map_segment_def)
  moreover have "\<forall>q < unat (npage s). 0 < X q \<longrightarrow> q \<notin> {P..<P + n} \<longrightarrow> pp_ref s' q = pp_ref s q"
    using keep [OF s'(2) order_refl] by blast
  moreover obtain xs' where "vm_inv S X xs' s'" "no_leak xs' s'" "length xs \<le> length xs' + 1"
    using s'(2) by (cases "valid (pmem s' r D)") auto
  ultimately show ?thesis using s'(2) by blast
qed

section \<open>The environments\<close>

lemma env_init_loop:
  "fold (\<lambda>i s. upd_env i (\<lambda>v. v\<lparr>env_status := ENV_FREE\<rparr>) (s\<lparr>env_free_list := LIST_INSERT_HEAD i (env_free_list s)\<rparr>)) xs s =
    s\<lparr>env_free_list := fold LIST_INSERT_HEAD xs (env_free_list s),
      envs := (\<lambda>e. if e \<in> set xs then (envs s e)\<lparr>env_status := ENV_FREE\<rparr> else envs s e)\<rparr>"
  by (induction xs arbitrary: s) (auto simp: upd_env_def intro!: kstate.equality)

lemma env_init_ok:
  fixes s :: kstate
  assumes inv: "vm_inv {} X (p # xs) s" and leak: "no_leak (p # xs) s" and X: "\<And>q. q < t \<Longrightarrow> X q = 1" and len: "2 \<le> length xs"
    and P: "pages s = pgdir_kva P" "unat (ROUND (npage s * 12) BY2PG) = n * 4096" "P + n \<le> t" "t \<le> unat (npage s)" "0 < n" "n \<le> 1024"
    and Q: "envs_kva = pgdir_kva Q" "Q + 55 \<le> P" and zero: "asid_bitmap s = (\<lambda>_. 0)" "curenv s = None"
  shows "\<exists>s'. env_init envs_kva s = Some s' \<and> kern_inv {} rt p X s' \<and> env_lists [0..<NENV] [] s' \<and>
    has_free (length xs - 2) s' \<and> asids s' = {} \<and> curenv s' = None \<and> mkenvid_i s' = mkenvid_i s \<and>
    (\<forall>k < n. pte_at s' p 510 k = Some (mk_pte (P + k) PTE_G)) \<and> (\<forall>k < 55. pte_at s' p 509 k = Some (mk_pte (Q + k) PTE_G))"
proof -
  let ?S = "dir_slots {} p" and ?X = "dir_refs {} p X"
  let ?e = "\<lambda>e. if e \<in> {..<NENV} then (envs s e)\<lparr>env_status := ENV_FREE\<rparr> else envs s e"
  define s2 where "s2 = s\<lparr>env_free_list := fold LIST_INSERT_HEAD (rev [0..<NENV]) (LIST_INIT (env_free_list s)),
      env_sched_list := TAILQ_INIT (env_sched_list s), envs := ?e\<rparr>"
  have loop: "fold (\<lambda>i s. upd_env i (\<lambda>v. v\<lparr>env_status := ENV_FREE\<rparr>) (s\<lparr>env_free_list := LIST_INSERT_HEAD i (env_free_list s)\<rparr>))
      (rev [0..<NENV]) (s\<lparr>env_free_list := LIST_INIT (env_free_list s), env_sched_list := TAILQ_INIT (env_sched_list s)\<rparr>) = s2"
  proof -
    have "set (rev [0..<NENV]) = {..<NENV}" by (simp only: set_rev set_upt lessThan_atLeast0)
    then show ?thesis unfolding env_init_loop s2_def by (intro kstate.equality) (simp_all cong: if_cong)
  qed
  note p = free_page_unused [OF inv list.set_intros(1)]
  have np: "unat (npage s) \<le> 131072" by (rule vm_invD(1) [OF inv])
  have ref: "unat (pp_ref s q) = X q" if "q < unat (npage s)" for q
  proof -
    have "refs {} s q = {}" "tables {} s = {}" by (auto simp: refs_def tables_def live_def)
    then show ?thesis using vm_invD(6) [OF inv] that by (simp add: refs_ok_def)
  qed
  have p0: "pp_ref s p = 0" using ref [OF p(1)] p(4) by (simp add: unat_eq_zero)
  have "free_ok (p # xs) s2" using vm_invD(4) [OF inv] by (simp add: free_ok_def s2_def)
  then obtain s3 where s3: "page_alloc s2 = Some (Inr p, s3)" "same_rest s2 s3" "pp_ref s3 = pp_ref s2"
    "pmem s3 = (pmem s2)(p := (\<lambda>_. 0))" "list_rep (page_free_list s3) xs" by (rule page_alloc_split)
  note r3 = kstate_rest [OF s3(2)]
  have n3: "npage s3 = npage s" "pages s3 = pages s" using s3(2) by (simp_all add: same_rest_def s2_def)
  define s5 where "s5 = s3\<lparr>pp_ref := (pp_ref s3)(p := 1), base_pgdir := pgdir_kva p\<rparr>"
  have r5: "pp_ref s5 = (pp_ref s)(p := 1)" "npage s5 = npage s" "pages s5 = pages s"
    by (simp_all add: s5_def s3(3) n3 s2_def)
  have fo: "free_ok xs s5"
    using vm_invD(4) [OF inv] vm_invD(2) [OF inv] s3(5) by (auto simp: free_ok_def r5) (simp_all add: s5_def list_rep_def)
  have pz: "\<not> valid (pmem s5 p i)" for i by (simp add: s5_def s3(4))
  have vm5: "vm_inv ?S ?X xs s5"
  proof (rule vm_inv_no_tables [OF fo])
    show "finite ?S" by (simp add: dir_slots_def)
    show "\<forall>(r, i) \<in> ?S. r < unat (npage s5) \<and> i < 1024 \<and> 0 < ?X r" using p(1) by (auto simp: dir_slots_def dir_refs_def r5)
    show "live ?S s5 = {}" using pz by (auto simp: live_def dir_slots_def)
    show "\<forall>q < unat (npage s5). unat (pp_ref s5 q) = ?X q" using ref p(4) by (auto simp: r5 dir_refs_def)
  qed
  have leak5: "no_leak xs s5" using leak by (auto simp: no_leak_def r5)
  have Xt: "0 < ?X q \<and> q \<notin> fst ` ?S \<and> pp_ref s5 q \<noteq> 65535" if "q < t" for q
  proof -
    have "q \<noteq> p" using X [OF that] p(4) by auto
    moreover have "unat (pp_ref s q) = 1" using ref [of q] X [OF that] that P(4) by simp
    ultimately show ?thesis using X [OF that] by (auto simp: dir_refs_def dir_slots_fst r5)
  qed
  have slots: "(p, 510) \<in> ?S" "(p, 509) \<in> ?S" by (simp_all add: dir_slots_def)
  have un5: "pte_at s5 p i j = None" for i j using pz by (simp add: pte_at_def)
  have up: "unat UPAGES = (510 * 1024 + 0) * 4096" "unat UENVS = (509 * 1024 + 0) * 4096" by (simp_all add: mmu_layout)
  have "\<exists>s6 ys. map_segment (pgdir_kva p) 0 (page2pa P) UPAGES (ROUND (npage s * 12) BY2PG) PTE_G s5 = Some s6 \<and> vm_inv ?S ?X ys s6 \<and>
    no_leak ys s6 \<and> length xs \<le> length ys + 1 \<and> same_rest s5 s6 \<and>
    (\<forall>r' i j. (r', i) \<in> ?S \<longrightarrow> j < 1024 \<longrightarrow> pte_at s6 r' i j =
       (if r' = p \<and> i = 510 \<and> 0 \<le> j \<and> j < 0 + n then Some (mk_pte (P + (j - 0)) PTE_G) else pte_at s5 r' i j)) \<and>
    (\<forall>q < unat (npage s5). 0 < ?X q \<longrightarrow> q \<notin> {P..<P + n} \<longrightarrow> pp_ref s6 q = pp_ref s5 q)"
    by (rule map_segment_ok [OF vm5 leak5 _ slots(1) up(1) _ _ P(2) refl])
      (use P r5 Xt un5 len in \<open>auto simp: perm_ok_def\<close>)
  then obtain s6 ys where s6: "map_segment (pgdir_kva p) 0 (page2pa P) UPAGES (ROUND (npage s * 12) BY2PG) PTE_G s5 = Some s6"
    "vm_inv ?S ?X ys s6" "no_leak ys s6" "length xs \<le> length ys + 1" "same_rest s5 s6"
    and m6: "\<And>r' i j. (r', i) \<in> ?S \<Longrightarrow> j < 1024 \<Longrightarrow> pte_at s6 r' i j =
       (if r' = p \<and> i = 510 \<and> j < n then Some (mk_pte (P + j) PTE_G) else pte_at s5 r' i j)"
    and k6: "\<And>q. q < unat (npage s) \<Longrightarrow> 0 < ?X q \<Longrightarrow> q \<notin> {P..<P + n} \<Longrightarrow> pp_ref s6 q = pp_ref s5 q"
    by (auto simp: r5)
  have n6: "npage s6 = npage s" using s6(5) by (simp add: same_rest_def r5)
  have "\<exists>s7 zs. map_segment (pgdir_kva p) 0 (page2pa Q) UENVS (ROUND (1024 * 220) BY2PG) PTE_G s6 = Some s7 \<and> vm_inv ?S ?X zs s7 \<and>
    no_leak zs s7 \<and> length ys \<le> length zs + 1 \<and> same_rest s6 s7 \<and>
    (\<forall>r' i j. (r', i) \<in> ?S \<longrightarrow> j < 1024 \<longrightarrow> pte_at s7 r' i j =
       (if r' = p \<and> i = 509 \<and> 0 \<le> j \<and> j < 0 + 55 then Some (mk_pte (Q + (j - 0)) PTE_G) else pte_at s6 r' i j)) \<and>
    (\<forall>q < unat (npage s6). 0 < ?X q \<longrightarrow> q \<notin> {Q..<Q + 55} \<longrightarrow> pp_ref s7 q = pp_ref s6 q)"
  proof (rule map_segment_ok [OF s6(2,3) _ slots(2) up(2)])
    show "unat (ROUND (1024 * 220) BY2PG) = 55 * 4096" by (simp add: ROUND_def)
    show "pte_at s6 p 509 j = None" if "j < 1024" for j using m6 [OF slots(2) that] by (simp add: un5)
    show "ys \<noteq> []" using s6(4) len by auto
    show "0 < ?X (Q + k) \<and> Q + k \<notin> fst ` ?S \<and> pp_ref s6 (Q + k) \<noteq> 65535" if "k < 55" for k
      using Xt [of "Q + k"] k6 [of "Q + k"] P Q that by auto
  qed (use P Q in \<open>auto simp: perm_ok_def n6\<close>)
  then obtain s7 zs where s7: "map_segment (pgdir_kva p) 0 (page2pa Q) UENVS (ROUND (1024 * 220) BY2PG) PTE_G s6 = Some s7"
    "vm_inv ?S ?X zs s7" "no_leak zs s7" "length ys \<le> length zs + 1" "same_rest s6 s7"
    and m7: "\<And>r' i j. (r', i) \<in> ?S \<Longrightarrow> j < 1024 \<Longrightarrow> pte_at s7 r' i j =
       (if r' = p \<and> i = 509 \<and> j < 55 then Some (mk_pte (Q + j) PTE_G) else pte_at s6 r' i j)"
    by auto
  have pad: "PADDR (pages s) = Some (page2pa P)" "PADDR envs_kva = Some (page2pa Q)"
    using pgdir_page(1) [OF _ np, of P] pgdir_page(1) [OF _ np, of Q] P Q by auto
  have kva: "page2kva (npage s) p = Some (pgdir_kva p)" using p(1) np by (simp add: page2kva_Some pgdir_kva_def)
  have run: "env_init envs_kva s = Some s7"
    using s3(1,3) s6(1) s7(1) p0 kva pad n3
    by (simp add: env_init_def loop [unfolded Let_def] Let_def s5_def s2_def)
  have r7: "same_rest s5 s7" by (rule same_rest_trans [OF s6(5) s7(5)])
  note rr = kstate_rest [OF r7]
  have lists: "env_lists [0..<NENV] [] s7"
  proof -
    have "list_rep (fold LIST_INSERT_HEAD (rev [0..<NENV]) (LIST_INIT (env_free_list s))) (rev (rev [0..<NENV]) @ [])"
      by (rule lq.push_all [OF LIST_INIT_rep]) simp_all
    then show ?thesis
      using rr r3 zero(2) TAILQ_INIT_rep [of "env_sched_list s"] by (simp add: env_lists_def s5_def s2_def)
  qed
  have "kern_inv {} rt p X s7"
    using s7(2,3) rr p(4) by (auto simp: kern_inv_def space_inv_def s5_def)
  moreover have "has_free (length xs - 2) s7"
    using vm_invD(2) [OF s7(2)] s6(4) s7(4) unfolding has_free_def by (intro exI [of _ zs]) linarith
  moreover have "asids s7 = {}" using rr r3 zero(1) by (simp add: asids_def asid_bit_def s5_def s2_def)
  moreover have "curenv s7 = None" "mkenvid_i s7 = mkenvid_i s" using rr r3 zero(2) by (simp_all add: s5_def s2_def)
  moreover have "pte_at s7 p 510 k = Some (mk_pte (P + k) PTE_G)" if "k < n" for k
    using m7 [OF slots(1), of k] m6 [OF slots(1), of k] that P(6) by simp
  moreover have "pte_at s7 p 509 k = Some (mk_pte (Q + k) PTE_G)" if "k < 55" for k
    using m7 [OF slots(2), of k] that by simp
  ultimately show ?thesis using run lists by blast
qed

section \<open>\<^verbatim>\<open>mips_init\<close>\<close>

text \<open>
  The two calls of \<^verbatim>\<open>ENV_CREATE\<close> pass the images the build links into the kernel, with priority 1. The diagnostics
  before the calls and the endless loop behind them are left out.
\<close>

definition mips_init :: "u32 \<Rightarrow> u32 \<Rightarrow> u32 \<Rightarrow> image \<Rightarrow> u32 \<Rightarrow> image \<Rightarrow> u32 \<Rightarrow> kstate \<Rightarrow> kstate option" where
  "mips_init dev_mp_memory kend envs_kva user_icode icode_size fs_serv serv_size s = do {
     let s1 = mips_detect_memory dev_mp_memory s;
     s2 \<leftarrow> mips_vm_init kend s1;
     s3 \<leftarrow> page_init s2;
     s4 \<leftarrow> env_init envs_kva s3;
     (_, s5) \<leftarrow> env_create user_icode icode_size 1 s4;
     (_, s6) \<leftarrow> env_create fs_serv serv_size 1 s5;
     Some s6 }"

lemma unat_ROUND_page:
  assumes "unat x + 4095 < 4294967296"
  shows "unat (ROUND x BY2PG) = (unat x + 4095) div 4096 * 4096"
proof -
  have "ROUND x BY2PG = PTE_ADDR (x + 4095)" by (simp add: ROUND_def PTE_ADDR_def add.commute)
  moreover have "unat (x + 4095) = unat x + 4095" using assms by (simp add: unat_word_ariths)
  ultimately show ?thesis by (simp add: unat_PTE_ADDR)
qed

lemma page_init_rest:
  "page_init s = Some s' \<Longrightarrow> s' = s\<lparr>page_free_list := page_free_list s', freemem := freemem s', pp_ref := pp_ref s'\<rparr>"
  by (auto simp: page_init_def page_init_loops Let_def elim!: bind_eq_SomeD intro!: pmap_state.equality)

text \<open>The arrays allocated behind the kernel.\<close>

lemma mips_vm_init_ok:
  assumes zero: "freemem s = 0" and k: "unat kend = 2147483648 + d" and P: "P = (d + 4095) div 4096"
    and np: "unat (npage s) \<le> 131072" and fit: "P * 4096 + unat (npage s) * 12 < unat (memsize s)" "unat (memsize s) \<le> 536870912"
  shows "\<exists>s'. mips_vm_init kend s = Some s' \<and> pages s' = pgdir_kva P \<and> npage s' = npage s \<and>
    unat (freemem s') = 2147483648 + (P * 4096 + unat (npage s) * 12) \<and>
    s' = s\<lparr>freemem := freemem s', pmem := pmem s', pages := pages s', pp_ref := pp_ref s', page_free_list := page_free_list s'\<rparr>"
proof -
  let ?n = "npage s * 12"
  have n: "unat ?n = unat (npage s) * 12" using np by (simp add: unat_word_ariths)
  have P4: "P * 4096 < 2147483648" using fit by linarith
  have "d \<le> P * 4096" unfolding P by linarith
  moreover have P2: "P < 524288" using P4 by linarith
  ultimately have top: "unat kend + 4095 < 4294967296" unfolding k by linarith
  have "(2147483648 + d + 4095) div 4096 = 524288 + P" unfolding P by simp
  then have r: "unat (ROUND kend BY2PG) = 2147483648 + P * 4096"
    using unat_ROUND_page [of kend] top by (simp add: k)
  have kva: "ROUND kend BY2PG = pgdir_kva P"
    using P2 by (simp add: word_unat_eq_iff r pgdir_kva_def unat_page_kva)
  have u: "unat (ROUND kend BY2PG + ?n) = 2147483648 + (P * 4096 + unat (npage s) * 12)"
    using fit np by (simp add: unat_word_ariths r n)
  then have pa: "PADDR (ROUND kend BY2PG + ?n) = Some (ROUND kend BY2PG + ?n - ULIM)"
    by (simp add: PADDR_def word_less_nat_alt ULIM_def)
  have "unat (ROUND kend BY2PG + ?n - ULIM) = P * 4096 + unat (npage s) * 12"
    using u by (subst unat_sub_if') (simp add: ULIM_def)
  then have "\<not> memsize s \<le> ROUND kend BY2PG + ?n - ULIM" using fit(1) by (simp add: word_le_nat_alt)
  then show ?thesis
    using u pa zero by (auto simp: mips_vm_init_def alloc_def kzero_bytes_def kva Let_def intro!: pmap_state.equality)
qed

lemma has_free_cons:
  assumes "has_free (Suc n) s"
  obtains p xs where "list_rep (page_free_list s) (p # xs)" "n \<le> length xs"
proof -
  obtain ys where ys: "list_rep (page_free_list s) ys" "Suc n \<le> length ys" using assms unfolding has_free_def by blast
  then show ?thesis using that by (cases ys) auto
qed

text \<open>C12. Boot: with memory of at most 512 MiB (the window \<^verbatim>\<open>KSEG0\<close>), a page array of at most 4 MiB behind the kernel, the array of
  environments inside the kernel on whole pages, and enough free pages behind, \<^verbatim>\<open>mips_init\<close> does not panic. It
  leaves the kernel invariant, the two programs as environments 0 and 1 with the ids \<open>0x800\<close> and \<open>0x1001\<close> (the
  file server is the second, as the comment demands), both on the run queue and with memory exactly as their
  images say, and all others free.\<close>

theorem boot_correct:
  assumes mem: "unat dev_mem \<le> 536870912" and np: "np = unat dev_mem div 4096"
    and kend: "unat kend = 2147483648 + d" and P: "P = (d + 4095) div 4096" and t: "t = P + (np * 12 + 4095) div 4096"
    and arr: "np * 12 \<le> 4194304" and Q: "envs_kva = pgdir_kva Q" "Q + 55 \<le> P"
    and elf: "elf_from icode sz = Some ehdr" "segs_ok (segments icode ehdr)"
    and elf': "elf_from serv sz' = Some ehdr'" "segs_ok (segments serv ehdr')"
    and room: "t + 5 + 2 * (seg_pages (segments icode ehdr) + seg_pages (segments serv ehdr')) \<le> np"
  shows "\<exists>s' rt b. mips_init dev_mem kend envs_kva icode sz serv sz' (kstate_zero\<lparr>pmem := m\<rparr>) = Some s' \<and>
    kern_inv {0, 1} rt b (\<lambda>q. if q < t then 1 else 0) s' \<and> env_lists [2..<NENV] [1, 0] s' \<and> curenv s' = None \<and>
    env_id (envs s' 0) = 0x800 \<and> env_id (envs s' 1) = 0x1001 \<and>
    (\<forall>a < unat UTOP. user_view s' (rt 0) a = image_view icode (segments icode ehdr) a) \<and>
    (\<forall>a < unat UTOP. user_view s' (rt 1) a = image_view serv (segments serv ehdr') a)"
proof -
  let ?K = "\<lambda>q. if q < t then 1 else (0 :: nat)"
  let ?p0 = "seg_pages (segments icode ehdr)" and ?p1 = "seg_pages (segments serv ehdr')"
  define s1 where "s1 = mips_detect_memory dev_mem (kstate_zero\<lparr>pmem := m\<rparr>)"
  have s1: "memsize s1 = dev_mem" "unat (npage s1) = np" "freemem s1 = 0"
    by (simp_all add: s1_def mips_detect_memory_def kstate_zero_def np drop_bit_eq_div unat_div)
  have np2: "np \<le> 131072" using mem unfolding np by linarith
  have "np * 12 \<le> (np * 12 + 4095) div 4096 * 4096" by linarith
  then have "t * 4096 \<ge> P * 4096 + np * 12" by (simp add: t add_mult_distrib)
  moreover have "(t + 1) * 4096 \<le> np * 4096" using room by simp
  moreover have "np * 4096 \<le> unat dev_mem" unfolding np by simp
  ultimately have fit: "P * 4096 + np * 12 + 4096 \<le> unat dev_mem" by (simp add: add_mult_distrib)
  then have fit': "P * 4096 + np * 12 < unat dev_mem" by linarith
  obtain s2 where s2: "mips_vm_init kend s1 = Some s2" "pages s2 = pgdir_kva P" "npage s2 = npage s1"
    "unat (freemem s2) = 2147483648 + (P * 4096 + np * 12)" 
    and e2: "s2 = s1\<lparr>freemem := freemem s2, pmem := pmem s2, pages := pages s2, pp_ref := pp_ref s2, page_free_list := page_free_list s2\<rparr>"
    using mips_vm_init_ok [OF s1(3) kend P] np2 fit' mem unfolding s1 by blast
  have "(2147483648 + (P * 4096 + np * 12) + 4095) div 4096 = 524288 + t" unfolding t by simp
  moreover have "unat (freemem s2) + 4095 < 4294967296" using s2(4) fit mem by linarith
  ultimately have f: "unat (ROUND (freemem s2) BY2PG) = 2147483648 + t * 4096"
    using unat_ROUND_page [of "freemem s2"] by (simp add: s2(4))
  have t2: "t < 524288" using room np2 by linarith
  have kt: "ROUND (freemem s2) BY2PG = pgdir_kva t" using t2 by (simp add: word_unat_eq_iff f pgdir_kva_def unat_page_kva)
  have tn: "t < unat (npage s2)" "unat (npage s2) \<le> 131072" using room np2 by (simp_all add: s2(3) s1)
  have pt: "unat (page2pa t) div 4096 = t" using t2 by (simp add: unat_page2pa)
  obtain s3 where s3: "page_init s2 = Some s3" "npage s3 = npage s2" "vm_inv {} ?K (rev [t..<np]) s3" "no_leak (rev [t..<np]) s3"
    using page_init_inv [of s2 "page2pa t"] pgdir_page(1) [OF tn] tn unfolding kt pt s2(3) s1 by auto
  have e3: "s3 = s2\<lparr>page_free_list := page_free_list s3, freemem := freemem s3, pp_ref := pp_ref s3\<rparr>"
    by (rule page_init_rest [OF s3(1)])
  have z3: "pages s3 = pgdir_kva P" "asid_bitmap s3 = (\<lambda>_. 0)" "curenv s3 = None" "mkenvid_i s3 = 0"
    by (subst e3, subst e2, simp add: s1_def s2(2) mips_detect_memory_def kstate_zero_def)+
  have fl: "rev [t..<np] = (np - 1) # rev [t..<np - 1]"
    using room by (cases np) auto
  have n3: "unat (npage s3) = np" by (simp add: s3(2) s2(3) s1)
  let ?n = "(np * 12 + 4095) div 4096"
  have "unat (npage s3 * 12) = np * 12" using np2 by (simp add: unat_word_ariths n3)
  then have ar: "unat (ROUND (npage s3 * 12) BY2PG) = ?n * 4096"
    using unat_ROUND_page [of "npage s3 * 12"] arr by simp
  have n: "0 < ?n" "?n \<le> 1024" using arr room by (simp, linarith)+
  obtain s4 where s4: "env_init envs_kva s3 = Some s4" "kern_inv {} (\<lambda>_. 0) (np - 1) ?K s4" "env_lists [0..<NENV] [] s4"
    "has_free (np - 1 - t - 2) s4" "asids s4 = {}" "curenv s4 = None" "mkenvid_i s4 = 0"
  proof -
    have len: "2 \<le> length (rev [t..<np - 1])" "length (rev [t..<np - 1]) = np - 1 - t" using room by simp_all
    have K: "?K q = 1" if "q < t" for q using that by simp
    have "P + ?n \<le> t" "t \<le> unat (npage s3)" using t room by (simp_all add: n3)
    from env_init_ok [OF s3(3,4) [unfolded fl] K len(1) z3(1) ar this n Q z3(2,3), of "\<lambda>_. 0"]
    show thesis unfolding len(2) z3(4) using that by blast
  qed
  define fl2 where "fl2 = [2..<NENV]"
  have "[0..<NENV] = 0 # [Suc 0..<NENV]" "[Suc 0..<NENV] = Suc 0 # [Suc (Suc 0)..<NENV]" by (rule upt_conv_Cons, simp)+
  then have N: "[0..<NENV] = 0 # 1 # fl2" unfolding fl2_def numeral_2_eq_2 One_nat_def by (simp only:)
  have "Suc (Suc (2 * ?p1) + 2 * ?p0) \<le> np - 1 - t - 2" using room by simp
  then have "has_free (Suc (Suc (2 * ?p1) + 2 * ?p0)) s4" using s4(4) unfolding has_free_def by (meson le_trans)
  then obtain r0 xs0 where r0: "list_rep (page_free_list s4) (r0 # xs0)" "Suc (2 * ?p1) + 2 * ?p0 \<le> length xs0"
    by (rule has_free_cons)
  have a4: "asids s4 \<noteq> {..<NASID}"
  proof
    assume a: "asids s4 = {..<NASID}"
    have "0 \<in> asids s4" unfolding a by simp
    then show False unfolding s4(5) by simp
  qed
  obtain s5 where s5: "env_create icode sz 1 s4 = Some (0, s5)" "kern_inv {0} ((\<lambda>_. 0)(0 := r0)) (np - 1) ?K s5"
    "env_lists (1 # fl2) [0] s5" "has_free (Suc (2 * ?p1)) s5" "curenv s5 = None"
    "env_id (envs s5 0) = fst (mkenvid 0 s4)" "\<forall>a < unat UTOP. user_view s5 r0 a = image_view icode (segments icode ehdr) a"
    "asids s5 = {unat (env_asid (envs s5 0))}" "mkenvid_i s5 = 1"
    using env_create_ok [OF s4(2) s4(3) [unfolded N] _ r0(1) a4 elf r0(2), where pri = 1] s4 by auto
  obtain r1 xs1 where r1: "list_rep (page_free_list s5) (r1 # xs1)" "0 + 2 * ?p1 \<le> length xs1"
    by (rule has_free_cons [OF s5(4)]) simp
  have a5: "asids s5 \<noteq> {..<NASID}" 
  proof
    assume a: "asids s5 = {..<NASID}"
    have "0 \<in> asids s5" "1 \<in> asids s5" unfolding a by simp_all
    then show False unfolding s5(8) by simp
  qed
  have e1: "(1 :: nat) \<notin> {0}" by simp
  obtain s6 where s6: "env_create serv sz' 1 s5 = Some (1, s6)" "kern_inv {1, 0} (((\<lambda>_. 0)(0 := r0))(1 := r1)) (np - 1) ?K s6"
    "env_lists fl2 [1, 0] s6" "curenv s6 = None" "env_id (envs s6 1) = fst (mkenvid 1 s5)" "\<forall>d. d \<noteq> 1 \<longrightarrow> envs s6 d = envs s5 d"
    "\<forall>a < unat UTOP. user_view s6 r1 a = image_view serv (segments serv ehdr') a" "\<forall>a < unat UTOP. user_view s6 r0 a = user_view s5 r0 a"
    using env_create_ok [OF s5(2,3) e1 r1(1) a5 elf' r1(2), where pri = 1] s5(5) by auto
  have run: "mips_init dev_mem kend envs_kva icode sz serv sz' (kstate_zero\<lparr>pmem := m\<rparr>) = Some s6"
    using s2(1) s3(1) s4(1) s5(1) s6(1) by (simp add: mips_init_def Let_def s1_def)
  show ?thesis unfolding fl2_def [symmetric]
    by (rule exI [of _ s6], rule exI [of _ "((\<lambda>_. 0)(0 := r0))(1 := r1)"], rule exI [of _ "np - 1"])
      (use run s6 s5 s4(7) in \<open>simp add: insert_commute mkenvid_def Let_def\<close>)
qed

text \<open>A machine with 64 MiB whose kernel ends at \<open>0x80050000\<close>, and a program of one segment twice.\<close>

theorem boot_correct_witness:
  "\<exists>s' (rt :: nat \<Rightarrow> nat). mips_init 0x4000000 0x80050000 0x80010000 demo_elf 88 demo_elf 88 kstate_zero = Some s' \<and>
     env_id (envs s' 1) = 0x1001 \<and> user_view s' (rt 1) 0x400011 = Some (0xad, PTE_V OR PTE_D)"
proof -
  have k: "kstate_zero\<lparr>pmem := \<lambda>_ _. 0\<rparr> = kstate_zero" by (simp add: kstate_zero_def)
  have v: "image_view demo_elf [demo_phdr] 0x400011 = Some (0xad, PTE_V OR PTE_D)"
    by (simp add: image_view_def seg_from_def seg_to_def seg_byte_def seg_perm_def demo_phdr_def demo_elf_def)
  have q: "(0x80010000 :: u32) = pgdir_kva 16" by (simp add: pgdir_kva_def page2pa_def page2ppn_def ULIM_def)
  have so: "segs_ok (segments demo_elf demo_ehdr)" "seg_pages (segments demo_elf demo_ehdr) = 1"
    by (simp_all only: demo_segments demo_segs_ok)
  obtain s' and rt :: "nat \<Rightarrow> nat" where s': "mips_init 0x4000000 0x80050000 0x80010000 demo_elf 88 demo_elf 88 (kstate_zero\<lparr>pmem := \<lambda>_ _. 0\<rparr>) = Some s'"
    "env_id (envs s' 1) = 0x1001" "\<forall>a < unat UTOP. user_view s' (rt 1) a = image_view demo_elf (segments demo_elf demo_ehdr) a"
    using boot_correct [of "0x4000000" "16384" "0x80050000" "0x50000" 80 128 "0x80010000" 16 demo_elf 88 demo_ehdr demo_elf 88 demo_ehdr
        "\<lambda>_ _. 0", OF _ _ _ _ _ _ q _ demo_elf_from so(1) demo_elf_from so(1)] so(2)
    by (auto simp del: upt_rec_numeral)
  moreover have "user_view s' (rt 1) 0x400011 = Some (0xad, PTE_V OR PTE_D)"
    using s'(3) v by (simp add: demo_segments mmu_layout)
  ultimately show ?thesis unfolding k by blast
qed

end
