(* ===== verification/Bytes.thy ===== *)
theory Bytes
  imports Prelude
begin

text \<open>
  Memory as a function from addresses to bytes: little-endian words, and ranges of consecutive
  bytes in memory and in disk images.
\<close>

section \<open>Words in memory\<close>

definition word_at :: "(u32 \<Rightarrow> u8) \<Rightarrow> u32 \<Rightarrow> u32" where
  "word_at m va = ucast (m va) OR push_bit 8 (ucast (m (va + 1))) OR
     push_bit 16 (ucast (m (va + 2))) OR push_bit 24 (ucast (m (va + 3)))"

definition put_word :: "u32 \<Rightarrow> u32 \<Rightarrow> (u32 \<Rightarrow> u8) \<Rightarrow> u32 \<Rightarrow> u8" where
  "put_word va v m = m(va := ucast v, va + 1 := ucast (drop_bit 8 v),
     va + 2 := ucast (drop_bit 16 v), va + 3 := ucast (drop_bit 24 v))"

lemma word_at_eq:
  assumes "m' va = m va" and "m' (va + 1) = m (va + 1)" and "m' (va + 2) = m (va + 2)"
    and "m' (va + 3) = m (va + 3)"
  shows "word_at m' va = word_at m va"
  using assms by (simp add: word_at_def)

lemma word_at_put [simp]: "word_at (put_word va v m) va = v"
proof (rule bit_word_eqI)
  fix n assume "n < LENGTH(32)"
  then consider "n < 8" | "8 \<le> n" "n < 16" | "16 \<le> n" "n < 24" | "24 \<le> n" "n < 32" by fastforce
  then show "bit (word_at (put_word va v m) va) n = bit v n"
    by cases (auto simp: word_at_def put_word_def bit_simps)
qed

text \<open>Aligned words do not overlap.\<close>

lemma aligned_apart:
  assumes "unat a mod 4 = 0" and "unat b mod 4 = 0" and "a \<noteq> (b :: u32)" and "i < 4" and "j < 4"
  shows "a + of_nat i \<noteq> b + of_nat j"
proof
  assume e: "a + of_nat i = b + of_nat j"
  have plus: "unat (c + of_nat k) = unat c + k" if "unat c mod 4 = 0" "k < 4" for c :: u32 and k
  proof -
    have "unat c + k < 4294967296" using that unat_lt_32 [of c] by presburger
    then show ?thesis using that by (simp add: unat_word_ariths unsigned_of_nat take_bit_nat_eq_self)
  qed
  have "unat a + i = unat b + j" using arg_cong [OF e, of unat] plus assms by simp
  then have "unat a = unat b" using assms by presburger
  then show False using assms(3) by (simp add: word_unat_eq_iff)
qed

lemma word_at_put_other [simp]:
  assumes "unat a mod 4 = 0" and "unat b mod 4 = 0" and "a \<noteq> b"
  shows "word_at (put_word a v m) b = word_at m b"
proof -
  have "b + of_nat j \<noteq> a + of_nat i" if "i < 4" "j < 4" for i j
    using aligned_apart [OF assms that] by metis
  from this [of 0 0] this [of 0 1] this [of 0 2] this [of 0 3] this [of 1 0] this [of 1 1] this [of 1 2]
    this [of 1 3] this [of 2 0] this [of 2 1] this [of 2 2] this [of 2 3] this [of 3 0] this [of 3 1]
    this [of 3 2] this [of 3 3]
  show ?thesis by (intro word_at_eq) (simp_all add: put_word_def)
qed

section \<open>Ranges\<close>

definition mem_upd :: "u32 \<Rightarrow> nat \<Rightarrow> (nat \<Rightarrow> u8) \<Rightarrow> (u32 \<Rightarrow> u8) \<Rightarrow> u32 \<Rightarrow> u8" where
  "mem_upd dst n g m = (\<lambda>a. if unat (a - dst) < n then g (unat (a - dst)) else m a)"

definition img_upd :: "nat \<Rightarrow> nat \<Rightarrow> (nat \<Rightarrow> u8) \<Rightarrow> (nat \<Rightarrow> u8) \<Rightarrow> nat \<Rightarrow> u8" where
  "img_upd p n g m = (\<lambda>a. if p \<le> a \<and> a < p + n then g (a - p) else m a)"

lemma upd_0 [simp]: "mem_upd dst 0 g m = m" "img_upd p 0 g m' = m'"
  by (auto simp: mem_upd_def img_upd_def fun_eq_iff)

lemma mem_upd_Suc:
  assumes "n < 4294967296"
  shows "(mem_upd dst n g m)(dst + of_nat n := g n) = mem_upd dst (Suc n) g m"
proof
  fix a :: u32
  have "unat (of_nat n :: u32) = n" using assms by (simp add: word_of_nat_unat_eq)
  moreover have "a = dst + of_nat n \<longleftrightarrow> unat (a - dst) = n"
    using calculation by (metis add_diff_cancel_left' diff_add_cancel add.commute word_unat_eq_iff)
  ultimately show "((mem_upd dst n g m)(dst + of_nat n := g n)) a = mem_upd dst (Suc n) g m a"
    by (auto simp: mem_upd_def less_Suc_eq)
qed

text \<open>Two adjacent ranges are one.\<close>

lemma mem_upd_append:
  assumes "n + k \<le> 4294967296" and "k > 0"
  shows "mem_upd (dst + of_nat n) k (\<lambda>i. g (n + i)) (mem_upd dst n g m) = mem_upd dst (n + k) g m"
proof
  fix a :: u32
  have n: "unat (of_nat n :: u32) = n" using assms by (simp add: word_of_nat_unat_eq)
  define x where "x = a - dst"
  have d: "a - (dst + of_nat n) = x - of_nat n" by (simp add: x_def)
  show "mem_upd (dst + of_nat n) k (\<lambda>i. g (n + i)) (mem_upd dst n g m) a = mem_upd dst (n + k) g m a"
  proof (cases "n \<le> unat x")
    case True
    then have "unat (x - of_nat n) = unat x - n" by (simp add: unat_sub word_le_nat_alt n)
    then show ?thesis using True by (auto simp: mem_upd_def d x_def [symmetric])
  next
    case False
    then have "unat (x - of_nat n) = unat x + 4294967296 - n"
      using n by (simp add: unat_sub_if_size word_size)
    then show ?thesis using False assms by (auto simp: mem_upd_def d x_def [symmetric])
  qed
qed

lemma img_upd_append:
  "img_upd (p + n) k (\<lambda>i. g (n + i)) (img_upd p n g m) = img_upd p (n + k) g m"
  by (rule ext) (auto simp: img_upd_def)

end
