(* ===== verification/Format.thy ===== *)
theory Format
  imports Bytes
begin

text \<open>
  The formatter \<^verbatim>\<open>tools/fsformat.c\<close>, which builds the disk image of the native file system on the host.
  The state is the array \<^verbatim>\<open>disk\<close> (data and type of each block), the next free block and the superblock.
  A \<^verbatim>\<open>struct File *\<close> points to the root directory in the superblock or into the data of a block.  A host
  of the same byte order as the target (little endian) needs no reversal of words; the other case is
  a parameter of the last step.  Access outside \<^verbatim>\<open>disk\<close>, a failed assertion and \<^verbatim>\<open>exit\<close> are \<^const>\<open>None\<close>.

  The host's files are a value: a regular file with its bytes, a directory with its entries, and
  files and directories that cannot be opened.  \<^verbatim>\<open>read\<close> of a regular file gives as many bytes as asked
  for while there are so many.
\<close>

section \<open>State\<close>

abbreviation (input) NBLOCK :: nat where "NBLOCK \<equiv> 1024"

datatype block_type = BLOCK_FREE | BLOCK_BOOT | BLOCK_BMAP | BLOCK_SUPER | BLOCK_DATA | BLOCK_FILE | BLOCK_INDEX

record fmt =
  ddata :: "nat \<Rightarrow> u32 \<Rightarrow> u8"
  dtype :: "nat \<Rightarrow> block_type"
  nextbno :: nat
  fsuper :: "u32 \<Rightarrow> u8"

datatype fptr = Root | At nat u32

datatype host = Reg "u8 list" | Unreadable | Dir "(u8 list \<times> host) list" | Closed

text \<open>The initial contents of the static variables.\<close>

definition fmt0 :: fmt where
  "fmt0 = \<lparr>ddata = (\<lambda>_ _. 0), dtype = (\<lambda>_. BLOCK_FREE), nextbno = 0, fsuper = (\<lambda>_. 0)\<rparr>"

text \<open>Words and bytes of a \<^verbatim>\<open>struct File\<close>: \<^verbatim>\<open>f_name\<close> at 0, \<^verbatim>\<open>f_size\<close> at 128, \<^verbatim>\<open>f_type\<close> at 132,
  \<^verbatim>\<open>f_direct\<close> at 136, \<^verbatim>\<open>f_indirect\<close> at 176.  \<^verbatim>\<open>s_root\<close> is at 8 in the superblock.\<close>

fun file_mem :: "fptr \<Rightarrow> fmt \<Rightarrow> u32 \<Rightarrow> u8" where
  "file_mem Root s = fsuper s"
| "file_mem (At b _) s = ddata s b"

fun file_off :: "fptr \<Rightarrow> u32" where
  "file_off Root = 8"
| "file_off (At _ off) = off"

fun set_mem :: "fptr \<Rightarrow> (u32 \<Rightarrow> u8) \<Rightarrow> fmt \<Rightarrow> fmt" where
  "set_mem Root m s = s\<lparr>fsuper := m\<rparr>"
| "set_mem (At b _) m s = s\<lparr>ddata := (ddata s)(b := m)\<rparr>"

definition fget :: "fptr \<Rightarrow> u32 \<Rightarrow> fmt \<Rightarrow> u32" where
  "fget f k s = word_at (file_mem f s) (file_off f + k)"

definition fput :: "fptr \<Rightarrow> u32 \<Rightarrow> u32 \<Rightarrow> fmt \<Rightarrow> fmt" where
  "fput f k v s = set_mem f (put_word (file_off f + k) v (file_mem f s)) s"

text \<open>\<^verbatim>\<open>strcpy\<close> to the name; behind the data of the block lies its type.\<close>

definition fput_name :: "fptr \<Rightarrow> u8 list \<Rightarrow> fmt \<Rightarrow> fmt option" where
  "fput_name f bs s =
     (if unat (file_off f) + length bs < 4096
      then Some (set_mem f (mem_upd (file_off f) (Suc (length bs)) (\<lambda>i. (bs @ [0]) ! i) (file_mem f s)) s)
      else None)"

abbreviation (input) fo_size :: u32 where "fo_size \<equiv> 128"
abbreviation (input) fo_type :: u32 where "fo_type \<equiv> 132"
abbreviation (input) fo_direct :: "nat \<Rightarrow> u32" where "fo_direct i \<equiv> 136 + of_nat i * 4"
abbreviation (input) fo_indirect :: u32 where "fo_indirect \<equiv> 176"

section \<open>Byte order\<close>

text \<open>\<^verbatim>\<open>reverse\<close> on the word at an offset of the block, run on a little-endian host.\<close>

definition reverse_u :: "u32 \<Rightarrow> (u32 \<Rightarrow> u8) \<Rightarrow> u32 \<Rightarrow> u8" where
  "reverse_u p x = (let y = word_at x p in x(p + 3 := ucast (y AND 0xFF), p + 2 := ucast (drop_bit 8 y AND 0xFF),
     p + 1 := ucast (drop_bit 16 y AND 0xFF), p := ucast (drop_bit 24 y AND 0xFF)))"

definition reverse_file :: "u32 \<Rightarrow> (u32 \<Rightarrow> u8) \<Rightarrow> u32 \<Rightarrow> u8" where
  "reverse_file ff m = reverse_u (ff + fo_indirect)
     (fold (\<lambda>i. reverse_u (ff + fo_direct i)) [0..<10] (reverse_u (ff + fo_type) (reverse_u (ff + fo_size) m)))"

fun reverse_files :: "nat list \<Rightarrow> (u32 \<Rightarrow> u8) \<Rightarrow> u32 \<Rightarrow> u8" where
  "reverse_files [] m = m"
| "reverse_files (i # is) m =
     (if m (of_nat i * 256) = 0 then m else reverse_files is (reverse_file (of_nat i * 256) m))"

definition reverse_block :: "block_type \<Rightarrow> (u32 \<Rightarrow> u8) \<Rightarrow> u32 \<Rightarrow> u8" where
  "reverse_block t m = (case t of
     BLOCK_SUPER \<Rightarrow> reverse_file 8 (reverse_u 4 (reverse_u 0 m))
   | BLOCK_FILE \<Rightarrow> reverse_files [0..<16] m
   | BLOCK_INDEX \<Rightarrow> fold (\<lambda>i. reverse_u (of_nat i * 4)) [0..<1024] m
   | BLOCK_BMAP \<Rightarrow> fold (\<lambda>i. reverse_u (of_nat i * 4)) [0..<1024] m
   | _ \<Rightarrow> m)"

section \<open>Blocks\<close>

abbreviation (input) nbitblock :: nat where "nbitblock \<equiv> (NBLOCK + 32768 - 1) div 32768"

definition init_disk :: "fmt \<Rightarrow> fmt" where
  "init_disk s = (let
     s1 = s\<lparr>dtype := (dtype s)(0 := BLOCK_BOOT), nextbno := 2 + nbitblock\<rparr>;
     s2 = fold (\<lambda>i s. s\<lparr>dtype := (dtype s)(2 + i := BLOCK_BMAP)\<rparr>) [0..<nbitblock] s1;
     s3 = fold (\<lambda>i s. s\<lparr>ddata := (ddata s)(2 + i := mem_upd 0 4096 (\<lambda>_. 0xff) (ddata s (2 + i)))\<rparr>) [0..<nbitblock] s2;
     s4 = (if NBLOCK \<noteq> nbitblock * 32768 then
             let diff = NBLOCK mod 32768 div 8; b = 2 + (nbitblock - 1) in
             s3\<lparr>ddata := (ddata s3)(b := mem_upd (of_nat diff) (4096 - diff) (\<lambda>_. 0) (ddata s3 b))\<rparr>
           else s3);
     s5 = s4\<lparr>dtype := (dtype s4)(1 := BLOCK_SUPER),
       fsuper := put_word 4 (of_nat NBLOCK) (put_word 0 0x68286097 (fsuper s4))\<rparr>;
     s6 = fput Root fo_type 1 s5
   in set_mem Root (mem_upd 8 2 (\<lambda>i. [0x2f, 0] ! i) (fsuper s6)) s6)"

definition next_block :: "block_type \<Rightarrow> fmt \<Rightarrow> (nat \<times> fmt) option" where
  "next_block t s = (if nextbno s < NBLOCK
     then Some (nextbno s, s\<lparr>dtype := (dtype s)(nextbno s := t), nextbno := nextbno s + 1\<rparr>) else None)"

definition flush_bit :: "nat \<Rightarrow> fmt \<Rightarrow> fmt" where
  "flush_bit i s = (let b = 2 + i div 32768; p = of_nat (i mod 32768 div 32 * 4) in
     s\<lparr>ddata := (ddata s)(b := put_word p (word_at (ddata s b) p AND NOT (push_bit (i mod 32) 1)) (ddata s b))\<rparr>)"

definition flush_bitmap :: "fmt \<Rightarrow> fmt" where
  "flush_bitmap s = fold flush_bit [0..<nextbno s] s"

text \<open>The image file: the superblock is copied to block 1, then every block is written.\<close>

definition finish_fs :: "bool \<Rightarrow> fmt \<Rightarrow> nat \<Rightarrow> u8" where
  "finish_fs rev_endian s = (let
     s1 = s\<lparr>ddata := (ddata s)(1 := mem_upd 0 264 (\<lambda>i. fsuper s (of_nat i)) (ddata s 1))\<rparr>
   in (\<lambda>p. let b = p div 4096; m = ddata s1 b in
       (if rev_endian then reverse_block (dtype s1 b) m else m) (of_nat (p mod 4096))))"

section \<open>Files\<close>

definition save_block_link :: "fptr \<Rightarrow> nat \<Rightarrow> nat \<Rightarrow> fmt \<Rightarrow> fmt option" where
  "save_block_link f nblk bno s =
     (if \<not> nblk < 1024 then None
      else if nblk < 10 then Some (fput f (fo_direct nblk) (of_nat bno) s)
      else do {
        s1 \<leftarrow> (if fget f fo_indirect s = 0
               then do { (b, s1) \<leftarrow> next_block BLOCK_INDEX s; Some (fput f fo_indirect (of_nat b) s1) }
               else Some s);
        let b = unat (fget f fo_indirect s1);
        if b < NBLOCK then Some (s1\<lparr>ddata := (ddata s1)(b := put_word (of_nat nblk * 4) (of_nat bno) (ddata s1 b))\<rparr>)
        else None })"

definition make_link_block :: "fptr \<Rightarrow> nat \<Rightarrow> fmt \<Rightarrow> (nat \<times> fmt) option" where
  "make_link_block dirf nblk s = do {
     (bno, s1) \<leftarrow> next_block BLOCK_FILE s;
     s2 \<leftarrow> save_block_link dirf nblk bno s1;
     Some (bno, fput dirf fo_size (fget dirf fo_size s2 + 4096) s2) }"

text \<open>The block of a directory with index \<open>i\<close>, and the search for a file with an empty name.\<close>

definition dir_bno :: "fptr \<Rightarrow> nat \<Rightarrow> fmt \<Rightarrow> nat option" where
  "dir_bno dirf i s =
     (if i < 10 then Some (unat (fget dirf (fo_direct i) s))
      else let b = unat (fget dirf fo_indirect s) in
        if b < NBLOCK then Some (unat (word_at (ddata s b) (of_nat i * 4))) else None)"

fun find_slot :: "fptr \<Rightarrow> nat list \<Rightarrow> fmt \<Rightarrow> fptr option option" where
  "find_slot dirf [] s = Some None"
| "find_slot dirf (i # is) s = do {
     bno \<leftarrow> dir_bno dirf i s;
     if bno < NBLOCK then
       (case find (\<lambda>j. ddata s bno (of_nat j * 256) = 0) [0..<16] of
          Some j \<Rightarrow> Some (Some (At bno (of_nat j * 256)))
        | None \<Rightarrow> find_slot dirf is s)
     else None }"

text \<open>The block taken for a new directory block is never 0; if it were, \<^verbatim>\<open>create_file\<close> would return \<^verbatim>\<open>NULL\<close> and its
  callers, which do not test it, would store through that pointer.\<close>

definition create_file :: "fptr \<Rightarrow> fmt \<Rightarrow> (fptr \<times> fmt) option" where
  "create_file dirf s = do {
     let nblk = unat (fget dirf fo_size s div 4096);
     r \<leftarrow> find_slot dirf [0..<nblk] s;
     (case r of
        Some f \<Rightarrow> Some (f, s)
      | None \<Rightarrow> do { (b, s1) \<leftarrow> make_link_block dirf nblk s; if b = 0 then None else Some (At b 0, s1) }) }"

text \<open>\<^verbatim>\<open>strrchr\<close>, and \<^verbatim>\<open>basename\<close> of the host's library.\<close>

definition after_slash :: "u8 list \<Rightarrow> u8 list" where
  "after_slash path = rev (takeWhile (\<lambda>b. b \<noteq> 0x2f) (rev path))"

definition basename :: "u8 list \<Rightarrow> u8 list" where
  "basename path = (let p = rev (dropWhile (\<lambda>b. b = 0x2f) (rev path)) in
     if path = [] then [0x2e] else if p = [] then [0x2f] else after_slash p)"

text \<open>The loop of \<^verbatim>\<open>write_file\<close> on the rest of the contents; a block is filled before it is taken.\<close>

function copy_blocks :: "fptr \<Rightarrow> nat \<Rightarrow> u8 list \<Rightarrow> fmt \<Rightarrow> fmt option" where
  "copy_blocks f iblk bs s =
     (if bs = [] then Some s
      else if \<not> nextbno s < NBLOCK then None
      else do {
        let n = nextbno s;
        let s1 = s\<lparr>ddata := (ddata s)(n := mem_upd 0 (length (take 4096 bs)) (\<lambda>i. bs ! i) (ddata s n))\<rparr>;
        (bno, s2) \<leftarrow> next_block BLOCK_DATA s1;
        s3 \<leftarrow> save_block_link f iblk bno s2;
        copy_blocks f (iblk + 1) (drop 4096 bs) s3 })"
  by auto
termination by (relation "measure (\<lambda>(_, _, bs, _). length bs)") auto

declare copy_blocks.simps [simp del]

text \<open>When the file cannot be opened \<^verbatim>\<open>lseek\<close> gives -1 for its size and \<^verbatim>\<open>read\<close> ends the loop.\<close>

definition write_file :: "fptr \<Rightarrow> u8 list \<Rightarrow> host \<Rightarrow> fmt \<Rightarrow> fmt option" where
  "write_file dirf path h s = do {
     (target, s1) \<leftarrow> create_file dirf s;
     s2 \<leftarrow> fput_name target (after_slash path) s1;
     let s3 = fput target fo_size (case h of Reg bs \<Rightarrow> of_nat (length bs) | _ \<Rightarrow> - 1) s2;
     let s4 = fput target fo_type 0 s3;
     copy_blocks target 0 (case h of Reg bs \<Rightarrow> bs | _ \<Rightarrow> []) s4 }"

text \<open>\<^verbatim>\<open>strncpy\<close> of at most 127 bytes, padded with zeros; the last byte of the name is left as it is.\<close>

definition dir_name :: "fptr \<Rightarrow> u8 list \<Rightarrow> fmt \<Rightarrow> fmt option" where
  "dir_name f name s = (let s1 = set_mem f (mem_upd (file_off f) 127
       (\<lambda>i. if i < length name then name ! i else 0) (file_mem f s)) s in
     if file_mem f s1 (file_off f + 127) \<noteq> 0 then None else Some s1)"

fun write_directory :: "fptr \<Rightarrow> u8 list \<Rightarrow> host \<Rightarrow> fmt \<Rightarrow> fmt option"
  and write_entries :: "fptr \<Rightarrow> u8 list \<Rightarrow> (u8 list \<times> host) list \<Rightarrow> fmt \<Rightarrow> fmt option" where
  "write_directory dirf path (Dir es) s = do {
     (pdir, s1) \<leftarrow> create_file dirf s;
     s2 \<leftarrow> dir_name pdir (basename path) s1;
     write_entries pdir path es (fput pdir fo_type 1 s2) }"
| "write_directory dirf path Closed s = Some s"
| "write_directory dirf path (Reg _) s = Some s"
| "write_directory dirf path Unreadable s = Some s"
| "write_entries pdir path [] s = Some s"
| "write_entries pdir path ((d_name, h) # es) s = do {
     s1 \<leftarrow> (if d_name = [0x2e] \<or> d_name = [0x2e, 0x2e] then Some s
            else case h of
              Dir _ \<Rightarrow> write_directory pdir (path @ 0x2f # d_name) h s
            | Closed \<Rightarrow> write_directory pdir (path @ 0x2f # d_name) h s
            | _ \<Rightarrow> write_file pdir (path @ 0x2f # d_name) h s);
     write_entries pdir path es s1 }"

text \<open>\<^verbatim>\<open>main\<close>: the arguments with what the host has under these names; the image.\<close>

definition write_arg :: "u8 list \<times> host \<Rightarrow> fmt \<Rightarrow> fmt option" where
  "write_arg a s = (case a of (name, h) \<Rightarrow> (case h of
     Dir _ \<Rightarrow> write_directory Root name h s | Closed \<Rightarrow> write_directory Root name h s | _ \<Rightarrow> write_file Root name h s))"

definition fsformat :: "bool \<Rightarrow> (u8 list \<times> host) list \<Rightarrow> (nat \<Rightarrow> u8) option" where
  "fsformat rev_endian args =
     (if args = [] then None
      else do {
        s \<leftarrow> fold_opt write_arg args (init_disk fmt0);
        Some (finish_fs rev_endian (flush_bitmap s)) })"

end
