(* ===== verification/Fs_Mem.thy ===== *)
theory Fs_Mem
  imports Syscall Bytes
begin

text \<open>
  What the file system server sees of the machine: its memory byte by byte, the flags of its
  pages (read through \<^verbatim>\<open>vpt\<close> and \<^verbatim>\<open>vpd\<close>), the memory system calls it makes on its own address
  space, and the disk it reaches through \<^verbatim>\<open>sys_read_dev\<close> and \<^verbatim>\<open>sys_write_dev\<close>, with the driver
  \<^verbatim>\<open>fs/ide.c\<close>.

  The kernel and the disk are not part of the server: whether the kernel has a page left for
  the \<open>n\<close>-th allocation (\<open>oom\<close>) and what the disk does when an operation is started (\<open>dk_op\<close>)
  are components of the state that no function changes.  \<open>disk_ok\<close> says what the code relies
  on of the disk: an operation copies one sector between its buffer and the image.

  A C string is the list of its bytes before the terminating zero.  An access to a page that is
  not mapped is \<^const>\<open>None\<close>: there the kernel would add a zero page behind the server's back or
  stop it, and nothing below relies on that.
\<close>

section \<open>State\<close>

type_synonym image_set = "u32 \<Rightarrow> nat \<Rightarrow> u8"
type_synonym sector = "nat \<Rightarrow> u8"
type_synonym disk_op = "u32 \<Rightarrow> u32 \<Rightarrow> u32 \<Rightarrow> sector \<Rightarrow> image_set \<Rightarrow> u32 \<times> sector \<times> image_set"

record fsst =
  umem :: "u32 \<Rightarrow> u8"
  uperm :: "nat \<Rightarrow> u32"
  oom :: "nat \<Rightarrow> bool"
  nalloc :: nat
  dk_op :: disk_op
  dk_id :: u32
  dk_off :: u32
  dk_buf :: sector
  dk_status :: u32
  disks :: image_set

abbreviation (input) PTE_DIRTY :: u32 where "PTE_DIRTY \<equiv> 0x0002"

definition upage :: "u32 \<Rightarrow> nat" where
  "upage va = unat va div 4096"

definition va_is_mapped :: "u32 \<Rightarrow> ('z) fsst_scheme \<Rightarrow> bool" where
  "va_is_mapped va s \<longleftrightarrow> uperm s (upage va) AND PTE_V \<noteq> 0"

definition va_is_dirty :: "u32 \<Rightarrow> ('z) fsst_scheme \<Rightarrow> bool" where
  "va_is_dirty va s \<longleftrightarrow> uperm s (upage va) AND PTE_DIRTY \<noteq> 0"

section \<open>Loads and stores\<close>

definition writable :: "u32 \<Rightarrow> ('z) fsst_scheme \<Rightarrow> bool" where
  "writable va s \<longleftrightarrow> va_is_mapped va s \<and> uperm s (upage va) AND PTE_D \<noteq> 0"

definition uld :: "u32 \<Rightarrow> ('z) fsst_scheme \<Rightarrow> u8 option" where
  "uld va s = (if va_is_mapped va s then Some (umem s va) else None)"

definition ust :: "u32 \<Rightarrow> u8 \<Rightarrow> ('z) fsst_scheme \<Rightarrow> ('z) fsst_scheme option" where
  "ust va b s = (if writable va s then Some (s\<lparr>umem := (umem s)(va := b)\<rparr>) else None)"

definition uldw :: "u32 \<Rightarrow> ('z) fsst_scheme \<Rightarrow> u32 option" where
  "uldw va s = (if unat va mod 4 = 0 \<and> va_is_mapped va s then Some (word_at (umem s) va) else None)"

definition ustw :: "u32 \<Rightarrow> u32 \<Rightarrow> ('z) fsst_scheme \<Rightarrow> ('z) fsst_scheme option" where
  "ustw va v s =
     (if unat va mod 4 = 0 \<and> writable va s then Some (s\<lparr>umem := put_word va v (umem s)\<rparr>) else None)"

text \<open>\<^verbatim>\<open>memcpy\<close> and \<^verbatim>\<open>memset\<close> within the server's memory, byte by byte.\<close>

definition ucopy :: "u32 \<Rightarrow> u32 \<Rightarrow> nat \<Rightarrow> ('z) fsst_scheme \<Rightarrow> ('z) fsst_scheme option" where
  "ucopy dst src n = fold_opt (\<lambda>i s. do { b \<leftarrow> uld (src + of_nat i) s; ust (dst + of_nat i) b s }) [0..<n]"

definition ufill :: "u32 \<Rightarrow> u8 \<Rightarrow> nat \<Rightarrow> ('z) fsst_scheme \<Rightarrow> ('z) fsst_scheme option" where
  "ufill dst b n = fold_opt (\<lambda>i. ust (dst + of_nat i) b) [0..<n]"

definition ust_list :: "u32 \<Rightarrow> u8 list \<Rightarrow> ('z) fsst_scheme \<Rightarrow> ('z) fsst_scheme option" where
  "ust_list dst bs = fold_opt (\<lambda>i. ust (dst + of_nat i) (bs ! i)) [0..<length bs]"

definition uld_list :: "u32 \<Rightarrow> nat \<Rightarrow> ('z) fsst_scheme \<Rightarrow> u8 list option" where
  "uld_list src n s = those (map (\<lambda>i. uld (src + of_nat i) s) [0..<n])"

section \<open>Memory system calls\<close>

text \<open>\<^verbatim>\<open>syscall_mem_alloc(0, va, perm)\<close>: a zero page, unless the address is illegal or memory is
  exhausted.\<close>

definition syscall_mem_alloc :: "u32 \<Rightarrow> u32 \<Rightarrow> ('z) fsst_scheme \<Rightarrow> (err + unit) \<times> ('z) fsst_scheme" where
  "syscall_mem_alloc va perm s =
     (if is_illegal_va va then (Inl E_INVAL, s)
      else if oom s (nalloc s) then (Inl E_NO_MEM, s\<lparr>nalloc := nalloc s + 1\<rparr>)
      else (Inr (), s\<lparr>nalloc := nalloc s + 1, uperm := (uperm s)(upage va := perm OR PTE_V),
              umem := (\<lambda>a. if upage a = upage va then 0 else umem s a)\<rparr>))"

text \<open>\<^verbatim>\<open>syscall_mem_map(0, va, 0, va, perm)\<close>, the only form the server uses to change a page of
  its cache: the page stays, its permission is replaced.\<close>

definition syscall_mem_map_self :: "u32 \<Rightarrow> u32 \<Rightarrow> ('z) fsst_scheme \<Rightarrow> (err + unit) \<times> ('z) fsst_scheme" where
  "syscall_mem_map_self va perm s =
     (if is_illegal_va va \<or> \<not> va_is_mapped va s then (Inl E_INVAL, s)
      else (Inr (), s\<lparr>uperm := (uperm s)(upage va := perm OR PTE_V)\<rparr>))"

definition syscall_mem_unmap :: "u32 \<Rightarrow> ('z) fsst_scheme \<Rightarrow> (err + unit) \<times> ('z) fsst_scheme" where
  "syscall_mem_unmap va s =
     (if is_illegal_va va then (Inl E_INVAL, s)
      else (Inr (), s\<lparr>uperm := (uperm s)(upage va := 0)\<rparr>))"

section \<open>The disk and its driver\<close>

text \<open>The registers of \<^verbatim>\<open>dev_disk.h\<close>; starting an operation runs the disk.\<close>

definition dk_start :: "u32 \<Rightarrow> ('z) fsst_scheme \<Rightarrow> ('z) fsst_scheme" where
  "dk_start op s = (case dk_op s op (dk_id s) (dk_off s) (dk_buf s) (disks s) of
     (st, buf, imgs) \<Rightarrow> s\<lparr>dk_status := st, dk_buf := buf, disks := imgs\<rparr>)"

text \<open>One turn of the loop of \<^verbatim>\<open>ide_read\<close> at offset \<open>off\<close>, then of \<^verbatim>\<open>ide_write\<close>.\<close>

definition ide_read_sector :: "u32 \<Rightarrow> u32 \<Rightarrow> u32 \<Rightarrow> ('z) fsst_scheme \<Rightarrow> ('z) fsst_scheme option" where
  "ide_read_sector diskno offset dst s =
     (let s1 = dk_start 0 (s\<lparr>dk_id := diskno, dk_off := offset\<rparr>)
      in if dk_status s1 = 0 then None
         else fold_opt (\<lambda>i s. ust (dst + of_nat i) (dk_buf s i) s) [0..<512] s1)"

definition ide_write_sector :: "u32 \<Rightarrow> u32 \<Rightarrow> u32 \<Rightarrow> ('z) fsst_scheme \<Rightarrow> ('z) fsst_scheme option" where
  "ide_write_sector diskno offset src s = do {
     bs \<leftarrow> uld_list src 512 s;
     let s1 = dk_start 1 (s\<lparr>dk_id := diskno, dk_off := offset, dk_buf := (\<lambda>i. bs ! i)\<rparr>);
     if dk_status s1 = 0 then None else Some s1 }"

text \<open>The loops run while \<open>begin + off < end\<close> in 32-bit arithmetic.\<close>

partial_function (option) ide_loop ::
    "(u32 \<Rightarrow> 's \<Rightarrow> 's option) \<Rightarrow> u32 \<Rightarrow> u32 \<Rightarrow> u32 \<Rightarrow> 's \<Rightarrow> 's option" where
  "ide_loop f beg fin off s =
     (if beg + off < fin then Option.bind (f off s) (\<lambda>s'. ide_loop f beg fin (off + 512) s') else Some s)"

definition ide_read :: "u32 \<Rightarrow> u32 \<Rightarrow> u32 \<Rightarrow> u32 \<Rightarrow> ('z) fsst_scheme \<Rightarrow> ('z) fsst_scheme option" where
  "ide_read diskno secno dst nsecs =
     (let beg = secno * 512; fin = beg + nsecs * 512
      in ide_loop (\<lambda>off. ide_read_sector diskno (beg + off) (dst + off)) beg fin 0)"

definition ide_write :: "u32 \<Rightarrow> u32 \<Rightarrow> u32 \<Rightarrow> u32 \<Rightarrow> ('z) fsst_scheme \<Rightarrow> ('z) fsst_scheme option" where
  "ide_write diskno secno src nsecs =
     (let beg = secno * 512; fin = beg + nsecs * 512
      in ide_loop (\<lambda>off. ide_write_sector diskno (beg + off) (src + off)) beg fin 0)"

end
