(* ===== verification/Fs.thy ===== *)
theory Fs
  imports Fs_Mem
begin

text \<open>
  The file system server's own file system: \<^verbatim>\<open>fs/fs.c\<close> with the structures of
  \<^verbatim>\<open>user/include/fs.h\<close>.  Disk block \<open>n\<close> is cached at \<open>DISKMAP + n * 4096\<close>.  A \<^verbatim>\<open>struct File *\<close> is
  an address in the cache; its fields are read and written at their offsets: the name at 0, the
  size at 128, the type at 132, the direct block numbers from 136, the indirect block at 176, the
  directory pointer at 180.  A failed \<^verbatim>\<open>user_assert\<close> and \<^verbatim>\<open>user_panic\<close> are \<^const>\<open>None\<close>.
\<close>

record fs_state = fsst +
  super :: u32
  bitmap :: u32

abbreviation (input) DISKMAP :: u32 where "DISKMAP \<equiv> 0x10000000"
abbreviation (input) DISKMAX :: u32 where "DISKMAX \<equiv> 0x40000000"
abbreviation (input) BIT2BLK :: u32 where "BIT2BLK \<equiv> 32768"
abbreviation (input) FS_MAGIC :: u32 where "FS_MAGIC \<equiv> 0x68286097"
abbreviation (input) MAXNAMELEN :: nat where "MAXNAMELEN \<equiv> 128"

abbreviation f_size :: "u32 \<Rightarrow> u32" where "f_size f \<equiv> f + 128"
abbreviation f_type :: "u32 \<Rightarrow> u32" where "f_type f \<equiv> f + 132"
abbreviation f_direct :: "u32 \<Rightarrow> u32 \<Rightarrow> u32" where "f_direct f i \<equiv> f + 136 + i * 4"
abbreviation f_indirect :: "u32 \<Rightarrow> u32" where "f_indirect f \<equiv> f + 176"
abbreviation f_dir :: "u32 \<Rightarrow> u32" where "f_dir f \<equiv> f + 180"

definition s_nblocks :: "('z) fs_state_scheme \<Rightarrow> u32 option" where
  "s_nblocks s = uldw (super s + 4) s"

section \<open>The block cache\<close>

definition diskaddr :: "u32 \<Rightarrow> u32 option" where
  "diskaddr blockno = (if blockno * BY2PG \<ge> DISKMAX then None else Some (DISKMAP + blockno * BY2PG))"

text \<open>The address, or 0 for \<^verbatim>\<open>NULL\<close>.\<close>

definition block_is_mapped :: "u32 \<Rightarrow> ('z) fs_state_scheme \<Rightarrow> u32 option" where
  "block_is_mapped blockno s = do {
     va \<leftarrow> diskaddr blockno;
     Some (if va_is_mapped va s then va else 0) }"

definition block_is_dirty :: "u32 \<Rightarrow> ('z) fs_state_scheme \<Rightarrow> bool option" where
  "block_is_dirty blockno s = do {
     va \<leftarrow> diskaddr blockno;
     Some (va_is_mapped va s \<and> va_is_dirty va s) }"

definition dirty_block :: "u32 \<Rightarrow> ('z) fs_state_scheme \<Rightarrow> ((err + unit) \<times> ('z) fs_state_scheme) option" where
  "dirty_block blockno s = do {
     va \<leftarrow> diskaddr blockno;
     if \<not> va_is_mapped va s then Some (Inl E_NOT_FOUND, s)
     else if va_is_dirty va s then Some (Inr (), s)
     else Some (syscall_mem_map_self va (PTE_D OR PTE_DIRTY) s) }"

definition write_block :: "u32 \<Rightarrow> ('z) fs_state_scheme \<Rightarrow> ('z) fs_state_scheme option" where
  "write_block blockno s = do {
     m \<leftarrow> block_is_mapped blockno s;
     if m = 0 then None
     else do {
       va \<leftarrow> diskaddr blockno;
       ide_write 0 (blockno * 8) va 8 s } }"

definition block_is_free :: "u32 \<Rightarrow> ('z) fs_state_scheme \<Rightarrow> bool option" where
  "block_is_free blockno s =
     (if super s = 0 then Some False
      else do {
        n \<leftarrow> s_nblocks s;
        if blockno \<ge> n then Some False
        else do {
          w \<leftarrow> uldw (bitmap s + blockno div 32 * 4) s;
          Some (w AND push_bit (unat (blockno mod 32)) 1 \<noteq> 0) } })"

text \<open>The address of the block and \<^verbatim>\<open>*isnew\<close>; the call always returns 0.\<close>

definition read_block :: "u32 \<Rightarrow> ('z) fs_state_scheme \<Rightarrow> ((u32 \<times> bool) \<times> ('z) fs_state_scheme) option" where
  "read_block blockno s = do {
     bad \<leftarrow> (if super s = 0 then Some False else do { n \<leftarrow> s_nblocks s; Some (blockno \<ge> n) });
     if bad then None
     else do {
       free \<leftarrow> (if bitmap s = 0 then Some False else block_is_free blockno s);
       if free then None
       else do {
         va \<leftarrow> diskaddr blockno;
         if va_is_mapped va s then Some ((va, False), s)
         else do {
           s' \<leftarrow> ide_read 0 (blockno * 8) va 8 (snd (syscall_mem_alloc va PTE_D s));
           Some ((va, True), s') } } } }"

definition map_block :: "u32 \<Rightarrow> ('z) fs_state_scheme \<Rightarrow> ((err + unit) \<times> ('z) fs_state_scheme) option" where
  "map_block blockno s = do {
     m \<leftarrow> block_is_mapped blockno s;
     if m \<noteq> 0 then Some (Inr (), s)
     else do {
       va \<leftarrow> diskaddr blockno;
       Some (syscall_mem_alloc va (PTE_V OR PTE_D) s) } }"

definition unmap_block :: "u32 \<Rightarrow> ('z) fs_state_scheme \<Rightarrow> ('z) fs_state_scheme option" where
  "unmap_block blockno s = do {
     va \<leftarrow> block_is_mapped blockno s;
     free \<leftarrow> block_is_free blockno s;
     dirty \<leftarrow> (if free then Some False else block_is_dirty blockno s);
     s1 \<leftarrow> (if dirty then write_block blockno s else Some s);
     let s2 = snd (syscall_mem_unmap va s1);
     m \<leftarrow> block_is_mapped blockno s2;
     if m \<noteq> 0 then None else Some s2 }"

section \<open>The bitmap\<close>

definition free_block :: "u32 \<Rightarrow> ('z) fs_state_scheme \<Rightarrow> ('z) fs_state_scheme option" where
  "free_block blockno s = do {
     skip \<leftarrow> (if blockno = 0 then Some True
             else if super s = 0 then Some False
             else do { n \<leftarrow> s_nblocks s; Some (blockno \<ge> n) });
     if skip then Some s
     else do {
       let a = bitmap s + blockno div 32 * 4;
       w \<leftarrow> uldw a s;
       ustw a (w OR push_bit (unat (blockno mod 32)) 1) s } }"

text \<open>The search runs over the block numbers from 3 on; nothing in it changes the superblock.\<close>

fun alloc_scan :: "nat list \<Rightarrow> ('z) fs_state_scheme \<Rightarrow> ((err + u32) \<times> ('z) fs_state_scheme) option" where
  "alloc_scan [] s = Some (Inl E_NO_DISK, s)"
| "alloc_scan (b # bs) s =
     (let blockno = of_nat b; a = bitmap s + blockno div 32 * 4 in do {
        w \<leftarrow> uldw a s;
        if w AND push_bit (unat (blockno mod 32)) 1 \<noteq> 0 then do {
          s1 \<leftarrow> ustw a (w AND NOT (push_bit (unat (blockno mod 32)) 1)) s;
          s2 \<leftarrow> write_block (blockno div BIT2BLK + 2) s1;
          Some (Inr blockno, s2) }
        else alloc_scan bs s })"

definition alloc_block_num :: "('z) fs_state_scheme \<Rightarrow> ((err + u32) \<times> ('z) fs_state_scheme) option" where
  "alloc_block_num s = do { n \<leftarrow> s_nblocks s; alloc_scan [3..<unat n] s }"

definition alloc_block :: "('z) fs_state_scheme \<Rightarrow> ((err + u32) \<times> ('z) fs_state_scheme) option" where
  "alloc_block s = do {
     (r, s1) \<leftarrow> alloc_block_num s;
     (case r of
        Inl e \<Rightarrow> Some (Inl e, s1)
      | Inr bno \<Rightarrow> do {
          (r', s2) \<leftarrow> map_block bno s1;
          (case r' of
             Inl e \<Rightarrow> do { s3 \<leftarrow> free_block bno s2; Some (Inl e, s3) }
           | Inr _ \<Rightarrow> Some (Inr bno, s2)) }) }"

section \<open>Start up\<close>

definition read_super :: "('z) fs_state_scheme \<Rightarrow> ('z) fs_state_scheme option" where
  "read_super s = do {
     ((blk, _), s1) \<leftarrow> read_block 1 s;
     let s2 = s1\<lparr>super := blk\<rparr>;
     magic \<leftarrow> uldw (super s2) s2;
     if magic \<noteq> FS_MAGIC then None
     else do { n \<leftarrow> s_nblocks s2; if n > DISKMAX div BY2PG then None else Some s2 } }"

definition read_bitmap :: "('z) fs_state_scheme \<Rightarrow> ('z) fs_state_scheme option" where
  "read_bitmap s = do {
     n \<leftarrow> s_nblocks s;
     let nbitmap = unat (n div BIT2BLK + 1);
     s1 \<leftarrow> fold_opt (\<lambda>i s. map_option snd (read_block (of_nat i + 2) s)) [0..<nbitmap] s;
     a \<leftarrow> diskaddr 2;
     let s2 = s1\<lparr>bitmap := a\<rparr>;
     fold_opt (\<lambda>b s. do { fr \<leftarrow> block_is_free b s; if fr then None else Some s })
       (0 # 1 # map (\<lambda>i. of_nat i + 2) [0..<nbitmap]) s2 }"

text \<open>\<^verbatim>\<open>check_write_block\<close> overwrites the start of block 1 with a test string and restores it.\<close>

definition test_bytes :: "u8 list" where
  "test_bytes = [0x4f, 0x4f, 0x50, 0x53, 0x21, 0x0a, 0]"

definition check_write_block :: "('z) fs_state_scheme \<Rightarrow> ('z) fs_state_scheme option" where
  "check_write_block s = do {
     a0 \<leftarrow> diskaddr 0;
     a1 \<leftarrow> diskaddr 1;
     (_, s1) \<leftarrow> read_block 0 (s\<lparr>super := 0\<rparr>);
     s2 \<leftarrow> ucopy a0 a1 4096 s1;
     s3 \<leftarrow> ust_list a1 test_bytes s2;
     s4 \<leftarrow> write_block 1 s3;
     m \<leftarrow> block_is_mapped 1 s4;
     if m = 0 then None
     else do {
       let s5 = snd (syscall_mem_unmap a1 s4);
       m' \<leftarrow> block_is_mapped 1 s5;
       if m' \<noteq> 0 then None
       else do {
         (_, s6) \<leftarrow> read_block 1 s5;
         bs \<leftarrow> uld_list a1 7 s6;
         if bs \<noteq> test_bytes then None
         else do {
           s7 \<leftarrow> ucopy a1 a0 4096 s6;
           s8 \<leftarrow> write_block 1 s7;
           Some (s8\<lparr>super := a1\<rparr>) } } } }"

definition fs_init :: "('z) fs_state_scheme \<Rightarrow> ('z) fs_state_scheme option" where
  "fs_init s = do { s1 \<leftarrow> read_super s; s2 \<leftarrow> check_write_block s1; read_bitmap s2 }"

section \<open>Blocks of a file\<close>

text \<open>The address of the slot that holds the disk block number.\<close>

definition file_block_walk :: "u32 \<Rightarrow> u32 \<Rightarrow> bool \<Rightarrow> ('z) fs_state_scheme \<Rightarrow>
    ((err + u32) \<times> ('z) fs_state_scheme) option" where
  "file_block_walk f filebno alloc0 s =
     (if filebno < 10 then Some (Inr (f_direct f filebno), s)
      else if filebno < 1024 then do {
        ind \<leftarrow> uldw (f_indirect f) s;
        (r, s1) \<leftarrow>
          (if ind = 0 then
             (if \<not> alloc0 then Some (Inl E_NOT_FOUND, s)
              else do {
                (r, s1) \<leftarrow> alloc_block s;
                (case r of
                   Inl e \<Rightarrow> Some (Inl e, s1)
                 | Inr b \<Rightarrow> do { s2 \<leftarrow> ustw (f_indirect f) b s1; Some (Inr (), s2) }) })
           else Some (Inr (), s));
        (case r of
           Inl e \<Rightarrow> Some (Inl e, s1)
         | Inr _ \<Rightarrow> do {
             ind' \<leftarrow> uldw (f_indirect f) s1;
             ((blk, _), s2) \<leftarrow> read_block ind' s1;
             Some (Inr (blk + filebno * 4), s2) }) }
      else Some (Inl E_INVAL, s))"

definition file_map_block :: "u32 \<Rightarrow> u32 \<Rightarrow> bool \<Rightarrow> ('z) fs_state_scheme \<Rightarrow>
    ((err + u32) \<times> ('z) fs_state_scheme) option" where
  "file_map_block f filebno alloc0 s = try_c (file_block_walk f filebno alloc0 s) (\<lambda>ptr s1. do {
     v \<leftarrow> uldw ptr s1;
     if v = 0 then
       (if \<not> alloc0 then Some (Inl E_NOT_FOUND, s1)
        else try_c (alloc_block s1) (\<lambda>b s2. do { s3 \<leftarrow> ustw ptr b s2; v' \<leftarrow> uldw ptr s3; Some (Inr v', s3) }))
     else Some (Inr v, s1) })"

definition file_clear_block :: "u32 \<Rightarrow> u32 \<Rightarrow> ('z) fs_state_scheme \<Rightarrow>
    ((err + unit) \<times> ('z) fs_state_scheme) option" where
  "file_clear_block f filebno s = try_c (file_block_walk f filebno False s) (\<lambda>ptr s1. do {
     v \<leftarrow> uldw ptr s1;
     if v \<noteq> 0 then do { s2 \<leftarrow> free_block v s1; s3 \<leftarrow> ustw ptr 0 s2; Some (Inr (), s3) }
     else Some (Inr (), s1) })"

definition file_get_block :: "u32 \<Rightarrow> u32 \<Rightarrow> ('z) fs_state_scheme \<Rightarrow>
    ((err + u32) \<times> ('z) fs_state_scheme) option" where
  "file_get_block f filebno s = try_c (file_map_block f filebno True s) (\<lambda>diskbno s1. do {
     ((blk, _), s2) \<leftarrow> read_block diskbno s1;
     Some (Inr blk, s2) })"

definition file_dirty :: "u32 \<Rightarrow> u32 \<Rightarrow> ('z) fs_state_scheme \<Rightarrow>
    ((err + unit) \<times> ('z) fs_state_scheme) option" where
  "file_dirty f offset s = try_c (file_map_block f (offset div BY2PG) False s) dirty_block"

section \<open>Directories\<close>

text \<open>\<^verbatim>\<open>strcmp\<close> of the string at an address against a name, tested for equality.\<close>

fun ustr_eq :: "u32 \<Rightarrow> u8 list \<Rightarrow> ('z) fsst_scheme \<Rightarrow> bool option" where
  "ustr_eq va [] s = do { b \<leftarrow> uld va s; Some (b = 0) }"
| "ustr_eq va (c # cs) s = do { b \<leftarrow> uld va s; if b = c then ustr_eq (va + 1) cs s else Some False }"

text \<open>The entries of one block, then the blocks of the directory.\<close>

fun find_name :: "u32 list \<Rightarrow> u8 list \<Rightarrow> ('z) fsst_scheme \<Rightarrow> u32 option option" where
  "find_name [] name s = Some None"
| "find_name (f # fs) name s = do {
     eq \<leftarrow> ustr_eq f name s;
     if eq then Some (Some f) else find_name fs name s }"

definition files_of :: "u32 \<Rightarrow> u32 list" where
  "files_of blk = map (\<lambda>j. blk + of_nat j * 256) [0..<16]"

fun lookup_blocks :: "u32 \<Rightarrow> u8 list \<Rightarrow> nat list \<Rightarrow> ('z) fs_state_scheme \<Rightarrow>
    ((err + u32) \<times> ('z) fs_state_scheme) option" where
  "lookup_blocks dir name [] s = Some (Inl E_NOT_FOUND, s)"
| "lookup_blocks dir name (i # is) s = try_c (file_get_block dir (of_nat i) s) (\<lambda>blk s1. do {
     r \<leftarrow> find_name (files_of blk) name s1;
     (case r of
        Some f \<Rightarrow> do { s2 \<leftarrow> ustw (f_dir f) dir s1; Some (Inr f, s2) }
      | None \<Rightarrow> lookup_blocks dir name is s1) })"

definition dir_lookup :: "u32 \<Rightarrow> u8 list \<Rightarrow> ('z) fs_state_scheme \<Rightarrow>
    ((err + u32) \<times> ('z) fs_state_scheme) option" where
  "dir_lookup dir name s = do {
     sz \<leftarrow> uldw (f_size dir) s;
     lookup_blocks dir name [0..<unat (sz div BY2PG)] s }"

fun find_free :: "u32 list \<Rightarrow> ('z) fsst_scheme \<Rightarrow> u32 option option" where
  "find_free [] s = Some None"
| "find_free (f # fs) s = do { b \<leftarrow> uld f s; if b = 0 then Some (Some f) else find_free fs s }"

fun free_blocks :: "u32 \<Rightarrow> nat list \<Rightarrow> ('z) fs_state_scheme \<Rightarrow>
    ((err + u32 option) \<times> ('z) fs_state_scheme) option" where
  "free_blocks dir [] s = Some (Inr None, s)"
| "free_blocks dir (i # is) s = try_c (file_get_block dir (of_nat i) s) (\<lambda>blk s1. do {
     r \<leftarrow> find_free (files_of blk) s1;
     (case r of Some f \<Rightarrow> Some (Inr (Some f), s1) | None \<Rightarrow> free_blocks dir is s1) })"

definition dir_alloc_file :: "u32 \<Rightarrow> ('z) fs_state_scheme \<Rightarrow>
    ((err + u32) \<times> ('z) fs_state_scheme) option" where
  "dir_alloc_file dir s = do {
     sz \<leftarrow> uldw (f_size dir) s;
     let nblock = sz div BY2PG;
     try_c (free_blocks dir [0..<unat nblock] s) (\<lambda>r s1.
       (case r of
          Some f \<Rightarrow> Some (Inr f, s1)
        | None \<Rightarrow> do {
            sz' \<leftarrow> uldw (f_size dir) s1;
            s2 \<leftarrow> ustw (f_size dir) (sz' + BY2PG) s1;
            file_get_block dir nblock s2 })) }"

section \<open>Paths\<close>

abbreviation (input) slash :: u8 where "slash \<equiv> 0x2f"

definition skip_slash :: "u8 list \<Rightarrow> u8 list" where
  "skip_slash p = dropWhile (\<lambda>c. c = slash) p"

text \<open>
  The loop of \<^verbatim>\<open>walk_path\<close>.  The result is the file or the error, the value of \<^verbatim>\<open>*pdir\<close>, and the
  string copied to \<^verbatim>\<open>lastelem\<close>, if any.
\<close>

type_synonym walk_result = "(err + u32) \<times> u32 \<times> u8 list option"

function walk_loop :: "u8 list \<Rightarrow> u32 \<Rightarrow> u32 \<Rightarrow> ('z) fs_state_scheme \<Rightarrow>
    (walk_result \<times> ('z) fs_state_scheme) option" where
  "walk_loop path dir file s =
     (if path = [] then Some ((Inr file, dir, None), s)
      else
        (let name = takeWhile (\<lambda>c. c \<noteq> slash) path;
             rest = skip_slash (dropWhile (\<lambda>c. c \<noteq> slash) path)
         in if length name \<ge> MAXNAMELEN then Some ((Inl E_BAD_PATH, 0, None), s)
            else do {
              ty \<leftarrow> uldw (f_type file) s;
              if ty \<noteq> 1 then Some ((Inl E_NOT_FOUND, 0, None), s)
              else do {
                (r, s1) \<leftarrow> dir_lookup file name s;
                (case r of
                   Inl e \<Rightarrow>
                     if e = E_NOT_FOUND \<and> rest = [] then Some ((Inl e, file, Some name), s1)
                     else Some ((Inl e, 0, None), s1)
                 | Inr f \<Rightarrow> walk_loop rest file f s1) } }))"
  by pat_completeness auto

lemma rest_shorter:
  "path \<noteq> [] \<Longrightarrow> length (skip_slash (dropWhile (\<lambda>c. c \<noteq> slash) path)) < length path"
proof -
  assume "path \<noteq> []"
  then obtain c p where path: "path = c # p" by (cases path) auto
  show ?thesis
  proof (cases "c = slash")
    case True
    then show ?thesis using path by (simp add: skip_slash_def length_dropWhile_le le_imp_less_Suc)
  next
    case False
    have "length (skip_slash (dropWhile (\<lambda>c. c \<noteq> slash) p)) \<le> length p"
      unfolding skip_slash_def by (rule order_trans [OF length_dropWhile_le length_dropWhile_le])
    then show ?thesis using path False by simp
  qed
qed

termination walk_loop
  by (relation "measure (\<lambda>(p, _). length p)") (auto simp: rest_shorter)

declare walk_loop.simps [simp del]

definition walk_path :: "u8 list \<Rightarrow> ('z) fs_state_scheme \<Rightarrow> (walk_result \<times> ('z) fs_state_scheme) option" where
  "walk_path path s = walk_loop (skip_slash path) 0 (super s + 8) s"

section \<open>Files\<close>

definition file_open :: "u8 list \<Rightarrow> ('z) fs_state_scheme \<Rightarrow> ((err + u32) \<times> ('z) fs_state_scheme) option" where
  "file_open path s = do { ((r, _), s1) \<leftarrow> walk_path path s; Some (r, s1) }"

text \<open>A failure of \<^verbatim>\<open>dir_alloc_file\<close> is reported with the error of \<^verbatim>\<open>walk_path\<close>.\<close>

definition file_create :: "u8 list \<Rightarrow> ('z) fs_state_scheme \<Rightarrow> ((err + u32) \<times> ('z) fs_state_scheme) option" where
  "file_create path s = do {
     ((r, dir, last), s1) \<leftarrow> walk_path path s;
     (case r of
        Inr _ \<Rightarrow> Some (Inl E_FILE_EXISTS, s1)
      | Inl e \<Rightarrow>
          if e \<noteq> E_NOT_FOUND \<or> dir = 0 then Some (Inl e, s1)
          else do {
            (r', s2) \<leftarrow> dir_alloc_file dir s1;
            (case r' of
               Inl _ \<Rightarrow> Some (Inl e, s2)
             | Inr f \<Rightarrow> do {
                 name \<leftarrow> last;
                 s3 \<leftarrow> ust_list f (name @ [0]) s2;
                 Some (Inr f, s3) }) }) }"

definition file_truncate :: "u32 \<Rightarrow> u32 \<Rightarrow> ('z) fs_state_scheme \<Rightarrow> ('z) fs_state_scheme option" where
  "file_truncate f newsize s = do {
     sz \<leftarrow> uldw (f_size f) s;
     let old_nblocks = unat (sz div BY2PG + 1);
     let new_nblocks = (if newsize = 0 then 0 else unat (newsize div BY2PG + 1));
     s1 \<leftarrow> fold_opt (\<lambda>bno s. map_option snd (file_clear_block f (of_nat bno) s)) [new_nblocks..<old_nblocks] s;
     s2 \<leftarrow> (if new_nblocks \<le> 10 then do {
              ind \<leftarrow> uldw (f_indirect f) s1;
              if ind \<noteq> 0 then do { s2 \<leftarrow> free_block ind s1; ustw (f_indirect f) 0 s2 } else Some s1 }
            else Some s1);
     ustw (f_size f) newsize s2 }"

definition file_flush :: "u32 \<Rightarrow> ('z) fs_state_scheme \<Rightarrow> ('z) fs_state_scheme option" where
  "file_flush f s = do {
     sz \<leftarrow> uldw (f_size f) s;
     fold_opt (\<lambda>bno s. do {
         (r, s1) \<leftarrow> file_map_block f (of_nat bno) False s;
         (case r of
            Inl _ \<Rightarrow> Some s1
          | Inr diskno \<Rightarrow> do {
              d \<leftarrow> block_is_dirty diskno s1;
              if d then write_block diskno s1 else Some s1 }) }) [0..<unat (sz div BY2PG + 1)] s }"

definition flush_dir :: "u32 \<Rightarrow> ('z) fs_state_scheme \<Rightarrow> ('z) fs_state_scheme option" where
  "flush_dir f s = do { d \<leftarrow> uldw (f_dir f) s; if d \<noteq> 0 then file_flush d s else Some s }"

definition file_set_size :: "u32 \<Rightarrow> u32 \<Rightarrow> ('z) fs_state_scheme \<Rightarrow> ('z) fs_state_scheme option" where
  "file_set_size f newsize s = do {
     sz \<leftarrow> uldw (f_size f) s;
     s1 \<leftarrow> (if sz > newsize then file_truncate f newsize s else Some s);
     s2 \<leftarrow> ustw (f_size f) newsize s1;
     flush_dir f s2 }"

definition fs_sync :: "('z) fs_state_scheme \<Rightarrow> ('z) fs_state_scheme option" where
  "fs_sync s = do {
     n \<leftarrow> s_nblocks s;
     fold_opt (\<lambda>i s. do { d \<leftarrow> block_is_dirty (of_nat i) s; if d then write_block (of_nat i) s else Some s })
       [0..<unat n] s }"

definition file_close :: "u32 \<Rightarrow> ('z) fs_state_scheme \<Rightarrow> ('z) fs_state_scheme option" where
  "file_close f s = do { s1 \<leftarrow> file_flush f s; flush_dir f s1 }"

definition file_remove :: "u8 list \<Rightarrow> ('z) fs_state_scheme \<Rightarrow> ((err + unit) \<times> ('z) fs_state_scheme) option" where
  "file_remove path s = do {
     ((r, _), s1) \<leftarrow> walk_path path s;
     (case r of
        Inl e \<Rightarrow> Some (Inl e, s1)
      | Inr f \<Rightarrow> do {
          s2 \<leftarrow> file_truncate f 0 s1;
          s3 \<leftarrow> ust f 0 s2;
          s4 \<leftarrow> file_flush f s3;
          s5 \<leftarrow> flush_dir f s4;
          Some (Inr (), s5) }) }"

end
