(* ===== verification/Fs_Io.thy ===== *)
theory Fs_Io
  imports Fs_Mem
begin

text \<open>
  What the driver \<^verbatim>\<open>fs/ide.c\<close> does, on a disk that behaves as the code expects: \<^verbatim>\<open>ide_read\<close> fills
  a range of memory with consecutive bytes of the image, \<^verbatim>\<open>ide_write\<close> replaces them, and nothing
  but the registers of the disk changes beside that.
\<close>

section \<open>Storing a range\<close>

lemma writable_umem [simp]:
  "writable va (s\<lparr>umem := m\<rparr>) = writable va s" "va_is_mapped va (s\<lparr>umem := m\<rparr>) = va_is_mapped va s"
  by (simp_all add: writable_def va_is_mapped_def)

lemma store_range:
  assumes "n \<le> 4294967296" and "\<forall>i < n. writable (dst + of_nat i) s"
    and G: "\<And>m. G (s\<lparr>umem := m\<rparr>) = G s"
  shows "fold_opt (\<lambda>i s. ust (dst + of_nat i) (G s i) s) [0..<n] s =
    Some (s\<lparr>umem := mem_upd dst n (G s) (umem s)\<rparr>)"
  using assms(1,2)
proof (induction n)
  case (Suc n)
  then have "fold_opt (\<lambda>i s. ust (dst + of_nat i) (G s i) s) [0..<n] s =
    Some (s\<lparr>umem := mem_upd dst n (G s) (umem s)\<rparr>)" by simp
  then show ?case
    using Suc.prems mem_upd_Suc [of n dst "G s" "umem s"] G by (simp add: fold_opt_append ust_def)
qed simp

lemma ufill_eq:
  assumes "n \<le> 4294967296" and "\<forall>i < n. writable (dst + of_nat i) s"
  shows "ufill dst b n s = Some (s\<lparr>umem := mem_upd dst n (\<lambda>_. b) (umem s)\<rparr>)"
  using store_range [OF assms, of "\<lambda>_ _. b"] by (simp add: ufill_def)

lemma ust_list_eq:
  assumes "length bs \<le> 4294967296" and "\<forall>i < length bs. writable (dst + of_nat i) s"
  shows "ust_list dst bs s = Some (s\<lparr>umem := mem_upd dst (length bs) ((!) bs) (umem s)\<rparr>)"
  using store_range [OF assms, of "\<lambda>_. (!) bs"] by (simp add: ust_list_def)

lemma those_map_Some: "(\<forall>x \<in> set xs. f x = Some (g x)) \<Longrightarrow> those (map f xs) = Some (map g xs)"
  by (induction xs) auto

lemma uld_list_eq:
  assumes "\<forall>i < n. va_is_mapped (src + of_nat i) s"
  shows "uld_list src n s = Some (map (\<lambda>i. umem s (src + of_nat i)) [0..<n])"
  unfolding uld_list_def by (rule those_map_Some) (use assms in \<open>simp add: uld_def\<close>)

lemma ucopy_eq:
  assumes "n \<le> 4294967296" and "\<forall>k < n. writable (dst + of_nat k) s" and "\<forall>k < n. va_is_mapped (src + of_nat k) s"
    and "\<forall>k < n. n \<le> unat (src + of_nat k - dst)"
  shows "ucopy dst src n s = Some (s\<lparr>umem := mem_upd dst n (\<lambda>k. umem s (src + of_nat k)) (umem s)\<rparr>)"
proof -
  let ?g = "\<lambda>k. umem s (src + of_nat k)"
  have "fold_opt (\<lambda>i s. do { b \<leftarrow> uld (src + of_nat i) s; ust (dst + of_nat i) b s }) [0..<k] s =
    Some (s\<lparr>umem := mem_upd dst k ?g (umem s)\<rparr>)" if "k \<le> n" for k
    using that
  proof (induction k)
    case (Suc k)
    then have "n \<le> unat (src + of_nat k - dst)" "k < n" using assms(4) by simp_all
    then have "\<not> unat (src + of_nat k - dst) < k" by linarith
    then have "mem_upd dst k ?g (umem s) (src + of_nat k) = ?g k" by (simp add: mem_upd_def)
    then show ?case
      using Suc assms mem_upd_Suc [of k dst ?g "umem s"]
      by (simp add: fold_opt_append uld_def ust_def)
  qed simp
  then show ?thesis by (simp add: ucopy_def)
qed

section \<open>The disk\<close>

definition disk_ok :: "('z) fsst_scheme \<Rightarrow> bool" where
  "disk_ok s \<longleftrightarrow> (\<forall>id off buf imgs. unat off mod 512 = 0 \<longrightarrow>
     (\<exists>st b. dk_op s 0 id off buf imgs = (st, b, imgs) \<and> st \<noteq> 0 \<and> (\<forall>i < 512. b i = imgs id (unat off + i))) \<and>
     (\<exists>st b. dk_op s 1 id off buf imgs = (st, b, imgs(id := img_upd (unat off) 512 buf (imgs id))) \<and> st \<noteq> 0))"

text \<open>Everything but the memory, the images and the registers of the disk is kept.\<close>

definition io_step :: "(u32 \<Rightarrow> u8) \<Rightarrow> image_set \<Rightarrow> ('z) fsst_scheme \<Rightarrow> ('z) fsst_scheme \<Rightarrow> bool" where
  "io_step m d s s' \<longleftrightarrow> umem s' = m \<and> disks s' = d \<and> uperm s' = uperm s \<and> oom s' = oom s \<and>
     nalloc s' = nalloc s \<and> dk_op s' = dk_op s \<and> fsst.more s' = fsst.more s"

lemma io_stepD:
  assumes "io_step m d s s'"
  shows "umem s' = m" "disks s' = d" "uperm s' = uperm s" "disk_ok s' = disk_ok s"
    "writable va s' = writable va s" "va_is_mapped va s' = va_is_mapped va s"
    "va_is_dirty va s' = va_is_dirty va s" "fsst.more s' = fsst.more s"
  using assms by (simp_all add: io_step_def disk_ok_def writable_def va_is_mapped_def va_is_dirty_def)

lemma io_step_refl: "io_step (umem s) (disks s) s s"
  by (simp add: io_step_def)

lemma io_step_trans: "io_step m d s s' \<Longrightarrow> io_step m' d' s' s'' \<Longrightarrow> io_step m' d' s s''"
  by (simp add: io_step_def)

section \<open>One sector\<close>

lemma read_sector:
  assumes "disk_ok s" and "unat off mod 512 = 0" and "\<forall>i < 512. writable (dst + of_nat i) s"
  shows "\<exists>s'. ide_read_sector d off dst s = Some s' \<and>
    io_step (mem_upd dst 512 (\<lambda>i. disks s d (unat off + i)) (umem s)) (disks s) s s'"
proof -
  obtain st b where b: "dk_op s 0 d off (dk_buf s) (disks s) = (st, b, disks s)" "st \<noteq> 0"
    "\<forall>i < 512. b i = disks s d (unat off + i)"
    using assms(1,2) unfolding disk_ok_def by metis
  let ?s = "s\<lparr>dk_id := d, dk_off := off, dk_status := st, dk_buf := b\<rparr>"
  have s1: "dk_start 0 (s\<lparr>dk_id := d, dk_off := off\<rparr>) = ?s" by (simp add: dk_start_def b)
  have "\<forall>i < 512. writable (dst + of_nat i) ?s"
    using assms(3) by (simp add: writable_def va_is_mapped_def)
  then have "fold_opt (\<lambda>i s. ust (dst + of_nat i) (dk_buf s i) s) [0..<512] ?s =
      Some (?s\<lparr>umem := mem_upd dst 512 b (umem s)\<rparr>)"
    using store_range [of 512 dst ?s dk_buf] by simp
  moreover have "mem_upd dst 512 b (umem s) = mem_upd dst 512 (\<lambda>i. disks s d (unat off + i)) (umem s)"
    using b(3) by (auto simp: mem_upd_def fun_eq_iff)
  ultimately show ?thesis
    using b(2) s1 unfolding ide_read_sector_def by (auto simp: io_step_def Let_def)
qed

lemma write_sector:
  assumes "disk_ok s" and "unat off mod 512 = 0" and "\<forall>i < 512. va_is_mapped (src + of_nat i) s"
  shows "\<exists>s'. ide_write_sector d off src s = Some s' \<and>
    io_step (umem s) ((disks s)(d := img_upd (unat off) 512 (\<lambda>i. umem s (src + of_nat i)) (disks s d))) s s'"
proof -
  let ?bs = "map (\<lambda>i. umem s (src + of_nat i)) [0..<512]"
  obtain st b where b: "dk_op s 1 d off (\<lambda>i. ?bs ! i) (disks s) =
      (st, b, (disks s)(d := img_upd (unat off) 512 (\<lambda>i. ?bs ! i) (disks s d)))" "st \<noteq> 0"
    using assms(1,2) unfolding disk_ok_def by metis
  have "img_upd (unat off) 512 (\<lambda>i. ?bs ! i) (disks s d) =
      img_upd (unat off) 512 (\<lambda>i. umem s (src + of_nat i)) (disks s d)"
    by (rule ext) (auto simp: img_upd_def)
  then show ?thesis
    using b uld_list_eq [OF assms(3)] by (auto simp: ide_write_sector_def dk_start_def io_step_def)
qed

section \<open>The loops of the driver\<close>

text \<open>Without overflow the loop runs once for every sector, in order.\<close>

lemma ide_loop_from:
  assumes "unat beg + n * 512 < 4294967296" and "k \<le> n"
  shows "ide_loop f beg (beg + of_nat n * 512) (of_nat k * 512) s =
    fold_opt (\<lambda>k. f (of_nat k * 512)) [k..<n] s"
  using assms(2)
proof (induction "n - k" arbitrary: k s)
  case 0
  then show ?case by (subst ide_loop.simps) simp
next
  case (Suc m)
  have u: "unat (beg + of_nat j * 512) = unat beg + j * 512" if "j \<le> n" for j
  proof -
    have "unat (of_nat j * 512 :: u32) = j * 512"
      using that assms(1) by (simp add: unat_word_ariths unsigned_of_nat take_bit_nat_eq_self)
    then show ?thesis using that assms(1) by (simp add: unat_word_ariths)
  qed
  have "k < n" using Suc by simp
  then have "beg + of_nat k * 512 < beg + of_nat n * 512"
    using u [of k] u [of n] Suc.prems by (simp add: word_less_nat_alt)
  moreover have "of_nat k * 512 + 512 = (of_nat (Suc k) * 512 :: u32)" by (simp add: algebra_simps)
  moreover have "m = n - Suc k" "Suc k \<le> n" using Suc by simp_all
  ultimately show ?case
    using Suc.hyps(1) [of "Suc k"] \<open>k < n\<close>
    by (subst ide_loop.simps) (simp add: upt_conv_Cons del: of_nat_Suc split: bind_split)
qed

lemma ide_loop_fold:
  assumes "unat secno * 512 + n * 512 < 4294967296"
  shows "ide_loop f (secno * 512) (secno * 512 + of_nat n * 512) 0 s =
    fold_opt (\<lambda>k. f (of_nat k * 512)) [0..<n] s"
proof -
  have "unat (secno * 512) = unat secno * 512" using assms by (simp add: unat_word_ariths)
  then show ?thesis using ide_loop_from [of "secno * 512" n 0 f s] assms by simp
qed

lemma sector_offset:
  fixes secno :: u32
  assumes "unat secno * 512 + n * 512 < 4294967296" and "k < n"
  shows "unat (secno * 512 + of_nat k * 512) = unat secno * 512 + k * 512"
proof -
  have "unat (secno * 512) = unat secno * 512" using assms by (simp add: unat_word_ariths)
  moreover have "unat (of_nat k * 512 :: u32) = k * 512"
    using assms by (simp add: unat_word_ariths unsigned_of_nat take_bit_nat_eq_self)
  ultimately show ?thesis using assms by (simp add: unat_word_ariths)
qed

lemma mult_512_add: "(dst :: u32) + of_nat k * 512 + of_nat i = dst + of_nat (k * 512 + i)"
  by simp

lemma ide_read_ok:
  assumes ok: "disk_ok s" and n: "unat secno * 512 + n * 512 < 4294967296"
    and w: "\<forall>i < n * 512. writable (dst + of_nat i) s"
  shows "\<exists>s'. ide_read d secno dst (of_nat n) s = Some s' \<and>
    io_step (mem_upd dst (n * 512) (\<lambda>i. disks s d (unat secno * 512 + i)) (umem s)) (disks s) s s'"
proof -
  let ?g = "\<lambda>i. disks s d (unat secno * 512 + i)"
  let ?f = "\<lambda>k. ide_read_sector d (secno * 512 + of_nat k * 512) (dst + of_nat k * 512)"
  let ?I = "\<lambda>k s'. io_step (mem_upd dst (k * 512) ?g (umem s)) (disks s) s s'"
  have "\<exists>s'. fold_opt ?f [0..<n] s = Some s' \<and> ?I (length [0..<n]) s'"
  proof (rule fold_opt_inv)
    show "?I 0 s" by (simp add: io_step_refl)
    fix k s' assume "k < length [0..<n]" and I: "?I k s'"
    then have k: "k < n" by simp
    note o = sector_offset [OF n k]
    have "writable (dst + of_nat k * 512 + of_nat i) s'" if "i < 512" for i
      using w [rule_format, of "k * 512 + i"] that k io_stepD(5) [OF I] unfolding mult_512_add by simp
    then obtain s'' where s'': "?f k s' = Some s''"
      "io_step (mem_upd (dst + of_nat k * 512) 512 (\<lambda>i. disks s' d (unat secno * 512 + k * 512 + i)) (umem s'))
        (disks s') s' s''"
      using read_sector [of s' "secno * 512 + of_nat k * 512" "dst + of_nat k * 512" d] o io_stepD(4) [OF I] ok
      by auto
    have "mem_upd (dst + of_nat k * 512) 512 (\<lambda>i. ?g (k * 512 + i)) (mem_upd dst (k * 512) ?g (umem s)) =
        mem_upd dst (Suc k * 512) ?g (umem s)"
      using mem_upd_append [of "k * 512" 512 dst ?g "umem s"] k n by (simp add: add.commute)
    then have "?I (Suc k) s''"
      using io_step_trans [OF I s''(2)] io_stepD(1,2) [OF I] by (simp add: add.assoc)
    then show "\<exists>s''. ?f ([0..<n] ! k) s' = Some s'' \<and> ?I (Suc k) s''" using s''(1) k by auto
  qed
  then show ?thesis by (simp add: ide_read_def Let_def ide_loop_fold [OF n])
qed

lemma ide_write_ok:
  assumes ok: "disk_ok s" and n: "unat secno * 512 + n * 512 < 4294967296"
    and w: "\<forall>i < n * 512. va_is_mapped (src + of_nat i) s"
  shows "\<exists>s'. ide_write d secno src (of_nat n) s = Some s' \<and>
    io_step (umem s) ((disks s)(d := img_upd (unat secno * 512) (n * 512) (\<lambda>i. umem s (src + of_nat i)) (disks s d)))
      s s'"
proof -
  let ?g = "\<lambda>i. umem s (src + of_nat i)"
  let ?p = "unat secno * 512"
  let ?f = "\<lambda>k. ide_write_sector d (secno * 512 + of_nat k * 512) (src + of_nat k * 512)"
  let ?I = "\<lambda>k s'. io_step (umem s) ((disks s)(d := img_upd ?p (k * 512) ?g (disks s d))) s s'"
  have "\<exists>s'. fold_opt ?f [0..<n] s = Some s' \<and> ?I (length [0..<n]) s'"
  proof (rule fold_opt_inv)
    show "?I 0 s" by (simp add: io_step_refl)
    fix k s' assume "k < length [0..<n]" and I: "?I k s'"
    then have k: "k < n" by simp
    note o = sector_offset [OF n k]
    have "va_is_mapped (src + of_nat k * 512 + of_nat i) s'" if "i < 512" for i
      using w [rule_format, of "k * 512 + i"] that k io_stepD(6) [OF I] unfolding mult_512_add by simp
    then obtain s'' where s'': "?f k s' = Some s''"
      "io_step (umem s') ((disks s')(d := img_upd (?p + k * 512) 512 (\<lambda>i. ?g (k * 512 + i)) (disks s' d))) s' s''"
      using write_sector [of s' "secno * 512 + of_nat k * 512" "src + of_nat k * 512" d] o io_stepD(1,4) [OF I] ok
      unfolding mult_512_add by auto
    have "?I (Suc k) s''"
      using io_step_trans [OF I s''(2)] io_stepD(1,2) [OF I] img_upd_append [of ?p "k * 512" 512 ?g "disks s d"]
      by (simp add: add.commute)
    then show "\<exists>s''. ?f ([0..<n] ! k) s' = Some s'' \<and> ?I (Suc k) s''" using s''(1) k by auto
  qed
  then show ?thesis by (simp add: ide_write_def Let_def ide_loop_fold [OF n])
qed

end
