(* ===== verification/Alloc.thy ===== *)
theory Alloc
  imports Prelude
begin

text \<open>
  The contract the file systems ask of their allocators: a state represents a finite set of free
  units, an allocation takes one of them unless too few are left, a release puts a unit back.  The
  bitmap of \<^verbatim>\<open>fs/fs.c\<close> and the allocation table of \<^verbatim>\<open>fs/fatfs.c\<close> are its instances.
\<close>

text \<open>\<open>k\<close> allocations in a row, then the release of a list of units.\<close>

fun alloc_many :: "('s \<Rightarrow> (nat \<times> 's) option) \<Rightarrow> nat \<Rightarrow> 's \<Rightarrow> (nat list \<times> 's) option" where
  "alloc_many al 0 s = Some ([], s)"
| "alloc_many al (Suc k) s = do {
     (b, s1) \<leftarrow> al s;
     (bs, s2) \<leftarrow> alloc_many al k s1;
     Some (b # bs, s2) }"

locale unit_allocator =
  fixes rep :: "'s \<Rightarrow> nat set \<Rightarrow> bool"
    and units :: "nat set"
    and al :: "'s \<Rightarrow> (nat \<times> 's) option"
    and rel :: "nat \<Rightarrow> 's \<Rightarrow> 's option"
    and reserve :: nat
  assumes rep_units: "rep s F \<Longrightarrow> F \<subseteq> units"
    and fin: "finite units"
    and al_ok: "rep s F \<Longrightarrow> reserve < card F \<Longrightarrow> \<exists>b s'. al s = Some (b, s') \<and> b \<in> F \<and> rep s' (F - {b})"
    and rel_ok: "rep s F \<Longrightarrow> b \<in> units - F \<Longrightarrow> \<exists>s'. rel b s = Some s' \<and> rep s' (insert b F)"
begin

lemma rep_finite: "rep s F \<Longrightarrow> finite F"
  using rep_units fin by (rule finite_subset)

text \<open>Successive allocations never hand out the same unit twice.\<close>

lemma alloc_many_ok:
  "rep s F \<Longrightarrow> k + reserve \<le> card F \<Longrightarrow>
   \<exists>bs s'. alloc_many al k s = Some (bs, s') \<and> length bs = k \<and> distinct bs \<and> set bs \<subseteq> F \<and> rep s' (F - set bs)"
proof (induction k arbitrary: s F)
  case (Suc k)
  then obtain b s1 where b: "al s = Some (b, s1)" "b \<in> F" "rep s1 (F - {b})" using al_ok [of s F] by auto
  have "k + reserve \<le> card (F - {b})" using Suc.prems b(2) rep_finite [OF Suc.prems(1)] by simp
  then obtain bs s' where "alloc_many al k s1 = Some (bs, s')" "length bs = k" "distinct bs" "set bs \<subseteq> F - {b}"
    "rep s' (F - {b} - set bs)" using Suc.IH [OF b(3)] by blast
  then show ?case using b by (auto simp: Diff_insert2 [symmetric])
qed simp

lemma release_many_ok:
  "rep s F \<Longrightarrow> distinct bs \<Longrightarrow> set bs \<subseteq> units - F \<Longrightarrow>
   \<exists>s'. fold_opt rel bs s = Some s' \<and> rep s' (F \<union> set bs)"
proof (induction bs arbitrary: s F)
  case (Cons b bs)
  then obtain s1 where s1: "rel b s = Some s1" "rep s1 (insert b F)" using rel_ok [of s F b] by auto
  have "\<exists>s'. fold_opt rel bs s1 = Some s' \<and> rep s' (insert b F \<union> set bs)"
    by (rule Cons.IH [OF s1(2)]) (use Cons.prems in auto)
  then show ?case using s1(1) by auto
qed simp

text \<open>Releasing what was allocated gives back the set of free units.\<close>

lemma alloc_release_all:
  assumes "rep s F" and "k + reserve \<le> card F"
  shows "\<exists>bs s' s''. alloc_many al k s = Some (bs, s') \<and> length bs = k \<and> distinct bs \<and> set bs \<subseteq> F \<and>
    rep s' (F - set bs) \<and> fold_opt rel bs s' = Some s'' \<and> rep s'' F"
proof -
  obtain bs s' where bs: "alloc_many al k s = Some (bs, s')" "length bs = k" "distinct bs" "set bs \<subseteq> F"
    "rep s' (F - set bs)" using alloc_many_ok [OF assms] by blast
  moreover obtain s'' where "fold_opt rel bs s' = Some s''" "rep s'' (F - set bs \<union> set bs)"
    using release_many_ok [OF bs(5,3)] bs(4) rep_units [OF assms(1)] by blast
  moreover have "F - set bs \<union> set bs = F" using bs(4) by blast
  ultimately show ?thesis by auto
qed

end

end
