(* ===== verification/Fs_Props.thy ===== *)
theory Fs_Props
  imports Fs Fs_Io Alloc
begin

text \<open>
  Properties of the native file system: the block cache agrees with the disk (eviction and
  reload, synchronisation), the bitmap allocator hands out each block once, and paths are
  resolved component by component.
\<close>

section \<open>Block addresses\<close>

abbreviation (input) NBLK :: nat where "NBLK \<equiv> 262144"

definition blk_addr :: "u32 \<Rightarrow> u32" where
  "blk_addr b = DISKMAP + b * BY2PG"

lemma unat_blk_addr:
  assumes "unat b < NBLK" and "i < 4096"
  shows "unat (blk_addr b + of_nat i) = 268435456 + unat b * 4096 + i"
proof -
  have "unat (b * 4096) = unat b * 4096" using assms by (simp add: unat_word_ariths)
  then have "unat (blk_addr b) = 268435456 + unat b * 4096"
    using assms by (simp add: blk_addr_def unat_word_ariths)
  then show ?thesis
    using assms by (simp add: unat_word_ariths unsigned_of_nat take_bit_nat_eq_self)
qed

lemma upage_blk:
  assumes "unat b < NBLK" and "i < 4096"
  shows "upage (blk_addr b + of_nat i) = 65536 + unat b"
proof -
  have "268435456 + unat b * 4096 + i = i + (65536 + unat b) * 4096" by simp
  then show ?thesis
    using unat_blk_addr [OF assms] assms(2) unfolding upage_def by simp
qed

lemma upage_blk0: "unat b < NBLK \<Longrightarrow> upage (blk_addr b) = 65536 + unat b"
  using upage_blk [of b 0] by simp

lemma diskaddr_blk: "unat b < NBLK \<Longrightarrow> diskaddr b = Some (blk_addr b)"
  by (simp add: diskaddr_def blk_addr_def word_le_nat_alt unat_word_ariths)

lemma blk_addr_nz: "unat b < NBLK \<Longrightarrow> blk_addr b \<noteq> 0"
  using unat_blk_addr [of b 0] by (auto simp: word_unat_eq_iff)

lemma blk_legal: "unat b < NBLK \<Longrightarrow> \<not> is_illegal_va (blk_addr b)"
  using unat_blk_addr [of b 0]
  by (auto simp: is_illegal_va_def mmu_layout word_le_nat_alt word_less_nat_alt)

lemma block_flags:
  assumes "unat b < NBLK"
  shows "i < 4096 \<Longrightarrow> va_is_mapped (blk_addr b + of_nat i) s = va_is_mapped (blk_addr b) s"
    and "i < 4096 \<Longrightarrow> writable (blk_addr b + of_nat i) s = writable (blk_addr b) s"
  using assms by (simp_all add: va_is_mapped_def writable_def upage_blk upage_blk0)

text \<open>Addresses of the block, by their page.\<close>

lemma in_block_iff:
  assumes "unat b < NBLK"
  shows "unat (a - blk_addr b) < 4096 \<longleftrightarrow> upage a = upage (blk_addr b)"
proof
  assume l: "unat (a - blk_addr b) < 4096"
  have "a = blk_addr b + of_nat (unat (a - blk_addr b))" by simp
  then show "upage a = upage (blk_addr b)" using upage_blk [OF assms l] upage_blk0 [OF assms] by simp
next
  assume "upage a = upage (blk_addr b)"
  then have "unat a div 4096 = 65536 + unat b" using upage_blk0 [OF assms] by (simp add: upage_def)
  then have "unat a = 268435456 + unat b * 4096 + unat a mod 4096"
    using div_mult_mod_eq [of "unat a" 4096] by simp
  then have "unat a = unat (blk_addr b + of_nat (unat a mod 4096))"
    using unat_blk_addr [OF assms, of "unat a mod 4096"] by simp
  then have "a = blk_addr b + of_nat (unat a mod 4096)" by (simp only: word_unat_eq_iff)
  then have "a - blk_addr b = of_nat (unat a mod 4096)" by (metis add_diff_cancel_left')
  then show "unat (a - blk_addr b) < 4096" by (simp add: unsigned_of_nat take_bit_nat_eq_self)
qed

section \<open>Writing and reading blocks\<close>

definition on_disk :: "u32 \<Rightarrow> ('z) fsst_scheme \<Rightarrow> bool" where
  "on_disk b s \<longleftrightarrow> (\<forall>i < 4096. disks s 0 (unat b * 4096 + i) = umem s (blk_addr b + of_nat i))"

definition put_block :: "u32 \<Rightarrow> ('z) fsst_scheme \<Rightarrow> image_set" where
  "put_block b s = (disks s)(0 := img_upd (unat b * 4096) 4096 (\<lambda>i. umem s (blk_addr b + of_nat i)) (disks s 0))"

lemma block_sectors:
  assumes "unat b < NBLK"
  shows "unat (b * 8 :: u32) * 512 = unat b * 4096" and "unat (b * 8 :: u32) * 512 + 8 * 512 < 4294967296"
proof -
  have "unat (b * 8 :: u32) = unat b * 8" using assms by (simp add: unat_word_ariths)
  then show "unat (b * 8 :: u32) * 512 = unat b * 4096" "unat (b * 8 :: u32) * 512 + 8 * 512 < 4294967296"
    using assms by simp_all
qed

lemma write_block_ok:
  assumes "disk_ok s" and b: "unat b < NBLK" and "va_is_mapped (blk_addr b) s"
  shows "\<exists>s'. write_block b s = Some s' \<and> io_step (umem s) (put_block b s) s s'"
proof -
  have "\<forall>i < 8 * 512. va_is_mapped (blk_addr b + of_nat i) s" using assms by (simp add: block_flags(1))
  then show ?thesis
    using ide_write_ok [OF assms(1) block_sectors(2) [OF b], of "blk_addr b" 0] assms(3) blk_addr_nz [OF b]
    by (simp add: write_block_def block_is_mapped_def diskaddr_blk [OF b] put_block_def block_sectors(1) [OF b])
qed

text \<open>Loading a block that is not cached: a fresh page, filled from the disk.\<close>

lemma load_block_ok:
  assumes "disk_ok s" and b: "unat b < NBLK" and "\<not> oom s (nalloc s)"
  shows "\<exists>s'. ide_read 0 (b * 8) (blk_addr b) 8 (snd (syscall_mem_alloc (blk_addr b) PTE_D s)) = Some s' \<and>
    umem s' = mem_upd (blk_addr b) 4096 (\<lambda>i. disks s 0 (unat b * 4096 + i)) (umem s) \<and>
    disks s' = disks s \<and> uperm s' = (uperm s)(65536 + unat b := PTE_D OR PTE_V) \<and> disk_ok s' \<and>
    fsst.more s' = fsst.more s \<and> on_disk b s' \<and> oom s' = oom s"
proof -
  define s1 where "s1 = snd (syscall_mem_alloc (blk_addr b) PTE_D s)"
  have s1: "umem s1 = (\<lambda>a. if upage a = upage (blk_addr b) then 0 else umem s a)" "disks s1 = disks s"
    "uperm s1 = (uperm s)(65536 + unat b := PTE_D OR PTE_V)" "dk_op s1 = dk_op s" "fsst.more s1 = fsst.more s" "oom s1 = oom s"
    using blk_legal [OF b] assms(3) upage_blk0 [OF b] by (simp_all add: s1_def syscall_mem_alloc_def)
  have "writable (blk_addr b) s1" by (simp add: writable_def va_is_mapped_def upage_blk0 [OF b] s1)
  then have "\<forall>i < 8 * 512. writable (blk_addr b + of_nat i) s1" by (simp add: block_flags(2) [OF b])
  moreover have "disk_ok s1" using assms(1) by (simp add: disk_ok_def s1)
  ultimately obtain s' where s': "ide_read 0 (b * 8) (blk_addr b) 8 s1 = Some s'"
    "io_step (mem_upd (blk_addr b) 4096 (\<lambda>i. disks s 0 (unat b * 4096 + i)) (umem s1)) (disks s) s1 s'"
    using ide_read_ok [of s1 "b * 8" 8 "blk_addr b" 0] block_sectors [OF b] s1(2) by auto
  have m: "mem_upd (blk_addr b) 4096 g (umem s1) = mem_upd (blk_addr b) 4096 g (umem s)" for g
    using in_block_iff [OF b] by (auto simp: mem_upd_def s1 fun_eq_iff)
  have "unat (of_nat i :: u32) = i" if "i < 4096" for i using that by (simp add: word_of_nat_unat_eq)
  then have "on_disk b s'" using io_stepD(1,2) [OF s'(2)] by (simp add: on_disk_def mem_upd_def)
  moreover have "oom s' = oom s" using s'(2) s1(6) by (simp add: io_step_def)
  ultimately show ?thesis
    using s' s1(3,5) io_stepD [OF s'(2)] m \<open>disk_ok s1\<close> unfolding s1_def [symmetric] by simp
qed

section \<open>The superblock and the bitmap in memory\<close>

text \<open>The state after start up: superblock and bitmap are cached, \<open>n\<close> is the number of blocks.\<close>

definition fs_ok :: "u32 \<Rightarrow> ('z) fs_state_scheme \<Rightarrow> bool" where
  "fs_ok n s \<longleftrightarrow> super s = blk_addr 1 \<and> bitmap s = blk_addr 2 \<and> s_nblocks s = Some n \<and> unat n \<le> NBLK \<and>
     (\<forall>k \<le> unat n div 32768. writable (blk_addr (of_nat (2 + k))) s) \<and> disk_ok s"

text \<open>The word and the bit of a block.\<close>

definition bit_addr :: "nat \<Rightarrow> u32" where
  "bit_addr b = blk_addr 2 + of_nat (b div 32 * 4)"

definition is_free :: "('z) fsst_scheme \<Rightarrow> nat \<Rightarrow> bool" where
  "is_free s b \<longleftrightarrow> bit (word_at (umem s) (bit_addr b)) (b mod 32)"

lemma and_push_bit_iff: "w AND push_bit k 1 \<noteq> 0 \<longleftrightarrow> bit (w :: u32) k" if "k < 32"
proof -
  have "w AND push_bit k 1 = (if bit w k then push_bit k 1 else 0)"
    using that by (intro bit_word_eqI) (auto simp: bit_simps)
  moreover have "push_bit k 1 \<noteq> (0 :: u32)" using that by (auto simp: bit_eq_iff bit_simps)
  ultimately show ?thesis by simp
qed

lemma bitmap_block:
  assumes "b < NBLK"
  shows "2 + b div 32768 < 10" and "unat (of_nat (2 + b div 32768) :: u32) = 2 + b div 32768"
proof -
  show k: "2 + b div 32768 < 10" using assms by (simp add: less_mult_imp_div_less)
  show "unat (of_nat (2 + b div 32768) :: u32) = 2 + b div 32768"
    by (rule word_of_nat_unat_eq) (use k in simp)
qed

lemma bit_addr_block:
  assumes "b < NBLK"
  shows "bit_addr b = blk_addr (of_nat (2 + b div 32768)) + of_nat (b div 32 * 4 mod 4096)"
    and "upage (bit_addr b) = 65538 + b div 32768" and "unat (bit_addr b) = 268443648 + b div 32 * 4"
proof -
  let ?off = "b div 32 * 4"
  have q: "?off div 4096 = b div 32768"
    using div_mult2_eq [of "b div 32" 1024 1] div_mult2_eq [of b 32 1024] div_mult_mult2 [of 4 "b div 32" 1024]
    by simp
  have o: "?off = ?off div 4096 * 4096 + ?off mod 4096" by (rule div_mult_mod_eq [symmetric])
  note k = bitmap_block(1) [OF assms] and u = bitmap_block(2) [OF assms]
  have "blk_addr 2 + of_nat ?off = blk_addr 2 + of_nat (b div 32768 * 4096 + ?off mod 4096)"
    by (subst o, subst q) (rule refl)
  also have "\<dots> = blk_addr (of_nat (2 + b div 32768)) + of_nat (?off mod 4096)"
    by (simp add: blk_addr_def algebra_simps)
  finally show a: "bit_addr b = blk_addr (of_nat (2 + b div 32768)) + of_nat (?off mod 4096)"
    by (simp add: bit_addr_def)
  show "upage (bit_addr b) = 65538 + b div 32768" "unat (bit_addr b) = 268443648 + ?off"
    unfolding a using upage_blk [of "of_nat (2 + b div 32768)" "?off mod 4096"] u k o q
      unat_blk_addr [of "of_nat (2 + b div 32768)" "?off mod 4096"] by simp_all
qed

lemma bit_addr_mod4: "b < NBLK \<Longrightarrow> unat (bit_addr b) mod 4 = 0"
  by (simp add: bit_addr_block(3) mod_simps)

lemma fs_okD:
  assumes "fs_ok n s"
  shows "super s = blk_addr 1" "bitmap s = blk_addr 2" "super s \<noteq> 0" "bitmap s \<noteq> 0" "s_nblocks s = Some n"
    "unat n \<le> NBLK" "disk_ok s"
  using assms blk_addr_nz [of 1] blk_addr_nz [of 2] by (simp_all add: fs_ok_def)

lemma bit_addr_writable:
  assumes "fs_ok n s" and "b \<le> unat n" and "b < NBLK"
  shows "writable (bit_addr b) s" "va_is_mapped (bit_addr b) s"
proof -
  have "b div 32768 \<le> unat n div 32768" using assms(2) by (rule div_le_mono)
  then have "writable (blk_addr (of_nat (2 + b div 32768))) s" using assms(1) unfolding fs_ok_def by blast
  moreover have "unat (of_nat (2 + b div 32768) :: u32) < NBLK"
    using bitmap_block [OF assms(3)] by linarith
  ultimately show "writable (bit_addr b) s" unfolding bit_addr_block(1) [OF assms(3)]
    using block_flags(2) [of "of_nat (2 + b div 32768)" "b div 32 * 4 mod 4096" s] by simp
  then show "va_is_mapped (bit_addr b) s" by (simp add: writable_def)
qed

text \<open>How the code computes the address and the bit of block number \<open>b\<close>.\<close>

lemma bit_of_block:
  assumes "unat b < NBLK"
  shows "blk_addr 2 + b div 32 * 4 = bit_addr (unat b)" and "unat (b mod 32) = unat b mod 32"
proof -
  have "unat (b div 32) = unat b div 32" by (simp add: unat_div_distrib)
  then have "b div 32 = of_nat (unat b div 32)" by (metis of_nat_unat ucast_id)
  then show "blk_addr 2 + b div 32 * 4 = bit_addr (unat b)" by (simp add: bit_addr_def)
  show "unat (b mod 32) = unat b mod 32" by (simp add: unat_mod_distrib)
qed

lemma block_is_free_eq:
  assumes "fs_ok n s" and "b < n"
  shows "block_is_free b s = Some (is_free s (unat b))"
proof -
  have b: "unat b < unat n" "unat b < NBLK" using assms(2) fs_okD(6) [OF assms(1)] by (simp_all add: word_less_nat_alt)
  then have "uldw (bit_addr (unat b)) s = Some (word_at (umem s) (bit_addr (unat b)))"
    using bit_addr_mod4 [OF b(2)] bit_addr_writable(2) [OF assms(1), of "unat b"] by (simp add: uldw_def)
  moreover have "\<not> n \<le> b" using assms(2) by simp
  ultimately show ?thesis
    using fs_okD [OF assms(1)] bit_of_block [OF b(2)] and_push_bit_iff [of "unat b mod 32"]
    by (simp add: block_is_free_def is_free_def)
qed

text \<open>Changing one bit of the bitmap.\<close>

lemma bit_addr_inj:
  assumes "b < NBLK" and "c < NBLK" and "bit_addr b = bit_addr c"
  shows "b div 32 = c div 32"
  using arg_cong [OF assms(3), of unat] bit_addr_block(3) [OF assms(1)] bit_addr_block(3) [OF assms(2)] by simp

lemma is_free_put:
  assumes b: "b < NBLK" and c: "c < NBLK"
    and w: "\<And>k. k < 32 \<Longrightarrow> bit w k = (if k = b mod 32 then v else bit (word_at (umem s) (bit_addr b)) k)"
    and m: "umem s' = put_word (bit_addr b) w (umem s)"
  shows "is_free s' c = (if c = b then v else is_free s c)"
proof (cases "bit_addr c = bit_addr b")
  case True
  then have "c div 32 = b div 32" by (rule bit_addr_inj [OF c b])
  then have "c = b \<longleftrightarrow> c mod 32 = b mod 32" by (metis div_mult_mod_eq)
  then show ?thesis using w [of "c mod 32"] True m by (simp add: is_free_def)
next
  case False
  then show ?thesis
    using word_at_put_other [OF bit_addr_mod4 [OF b] bit_addr_mod4 [OF c]] m by (auto simp: is_free_def)
qed

lemma more_fs:
  assumes "fsst.more s' = fsst.more (s :: 'z fs_state_scheme)"
  shows "super s' = super s" "bitmap s' = bitmap s"
  using assms by (cases s; cases s'; simp)+

text \<open>The invariant survives a change of memory outside the superblock.\<close>

lemma fs_ok_keep:
  assumes ok: "fs_ok n s" and "fsst.more s' = fsst.more s" and "disk_ok s'"
    and p: "\<And>p. 65537 \<le> p \<Longrightarrow> p \<le> 65538 + unat n div 32768 \<Longrightarrow> uperm s' p = uperm s p"
    and m: "\<And>a. upage a = 65537 \<Longrightarrow> umem s' a = umem s a"
  shows "fs_ok n s'"
proof -
  have a: "upage (blk_addr 1 + of_nat i) = 65537" if "i < 4096" for i using upage_blk [of 1 i] that by simp
  note a = a [of 4] a [of 5] a [of 6] a [of 7]
  have "word_at (umem s') (blk_addr 1 + 4) = word_at (umem s) (blk_addr 1 + 4)"
    by (rule word_at_eq) (use a m in \<open>simp_all add: add.assoc\<close>)
  moreover have "s_nblocks s = Some n" "super s = blk_addr 1" using ok by (simp_all add: fs_ok_def)
  ultimately have "s_nblocks s' = Some n"
    using more_fs [OF assms(2)] a(1) p [of 65537]
    by (auto simp: s_nblocks_def uldw_def va_is_mapped_def split: if_splits)
  moreover have "writable (blk_addr (of_nat (2 + k))) s'" if k: "k \<le> unat n div 32768" for k
  proof -
    have "unat n div 32768 \<le> 8" using fs_okD(6) [OF ok] div_le_mono [of "unat n" 262144 32768] by simp
    then have "2 + k < 11" using k by simp
    then have "unat (of_nat (2 + k) :: u32) = 2 + k" by (intro word_of_nat_unat_eq) simp
    then have "upage (blk_addr (of_nat (2 + k))) = 65538 + k"
      using upage_blk0 [of "of_nat (2 + k)"] \<open>2 + k < 11\<close> by simp
    moreover have "writable (blk_addr (of_nat (2 + k))) s" using ok k unfolding fs_ok_def by blast
    ultimately show ?thesis using p [of "65538 + k"] k by (simp add: writable_def va_is_mapped_def)
  qed
  ultimately show ?thesis using ok assms(3) more_fs [OF assms(2)] by (simp add: fs_ok_def)
qed

section \<open>The allocator\<close>

lemma on_disk_put:
  assumes "io_step (umem s) (put_block b s) s s'"
  shows "on_disk b s'"
  using io_stepD(1,2) [OF assms] by (simp add: on_disk_def put_block_def img_upd_def)

lemma of_nat_block: "b < NBLK \<Longrightarrow> unat (of_nat b :: u32) = b"
  by (simp add: word_of_nat_unat_eq)

lemma bitmap_block_no:
  assumes "b < NBLK"
  shows "of_nat b div BIT2BLK + 2 = (of_nat (2 + b div 32768) :: u32)"
proof -
  have "unat (of_nat b div 32768 :: u32) = b div 32768"
    using of_nat_block [OF assms] by (simp add: unat_div_distrib)
  then have "(of_nat b div 32768 :: u32) = of_nat (b div 32768)" by (metis of_nat_unat ucast_id)
  then show ?thesis by simp
qed

lemma upage_aligned:
  assumes "unat a mod 4 = 0" and "i < 4"
  shows "upage (a + of_nat i) = upage a"
proof -
  obtain q where q: "unat a = 4 * q" using assms(1) by (auto elim: dvdE)
  then have "q < 1073741824" using unat_lt_32 [of a] by simp
  then have "unat (a + of_nat i) = unat a + i"
    using assms(2) q by (simp add: unat_word_ariths unsigned_of_nat take_bit_nat_eq_self)
  moreover have "(unat a + i) div 4096 = unat a div 4096"
  proof -
    have "(unat a + i) div 4 = unat a div 4" using assms(2) q by simp
    then show ?thesis by (metis div_mult2_eq mult_numeral_1_right num_double numeral_times_numeral)
  qed
  ultimately show ?thesis by (simp add: upage_def)
qed

lemma put_word_page:
  assumes "unat a mod 4 = 0" and "upage c \<noteq> upage a"
  shows "put_word a w m c = m c"
  using assms(2) upage_aligned [OF assms(1), of 0] upage_aligned [OF assms(1), of 1] upage_aligned [OF assms(1), of 2]
    upage_aligned [OF assms(1), of 3] by (auto simp: put_word_def)

lemma word_at_page:
  assumes "unat a mod 4 = 0" and "\<And>c. upage c = upage a \<Longrightarrow> m' c = m c"
  shows "word_at m' a = word_at m a"
  using upage_aligned [OF assms(1), of 1] upage_aligned [OF assms(1), of 2] upage_aligned [OF assms(1), of 3]
  by (intro word_at_eq assms(2)) simp_all

lemma upage_bit_word:
  assumes "b < NBLK" and "upage a \<noteq> upage (bit_addr b)"
  shows "put_word (bit_addr b) w m a = m a"
  by (rule put_word_page [OF bit_addr_mod4 [OF assms(1)] assms(2)])

text \<open>What the code does when it finds block \<open>b\<close> free.\<close>

definition grab :: "nat \<Rightarrow> ('z) fs_state_scheme \<Rightarrow> ((err + u32) \<times> ('z) fs_state_scheme) option" where
  "grab b s = (let w = word_at (umem s) (bit_addr b) in do {
     s1 \<leftarrow> ustw (bit_addr b) (w AND NOT (push_bit (b mod 32) 1)) s;
     s2 \<leftarrow> write_block (of_nat (2 + b div 32768)) s1;
     Some (Inr (of_nat b), s2) })"

lemma alloc_scan_find:
  assumes ok: "fs_ok n s" and "\<forall>b \<in> set bs. b < unat n"
  shows "alloc_scan bs s = (case find (is_free s) bs of None \<Rightarrow> Some (Inl E_NO_DISK, s) | Some b \<Rightarrow> grab b s)"
  using assms(2)
proof (induction bs)
  case (Cons b bs)
  have b: "b < NBLK" "b \<le> unat n" using Cons.prems fs_okD(6) [OF ok] by auto
  note u = of_nat_block [OF b(1)]
  have "uldw (bit_addr b) s = Some (word_at (umem s) (bit_addr b))"
    using bit_addr_mod4 [OF b(1)] bit_addr_writable(2) [OF ok b(2,1)] by (simp add: uldw_def)
  then show ?case
    using Cons bit_of_block [of "of_nat b"] u b(1) fs_okD(2) [OF ok] and_push_bit_iff [of "b mod 32"]
    by (simp add: is_free_def grab_def bitmap_block_no Let_def del: of_nat_add push_bit_of_1)
qed simp

lemma grab_ok:
  assumes ok: "fs_ok n s" and "b < unat n" and "is_free s b"
  shows "\<exists>s'. grab b s = Some (Inr (of_nat b), s') \<and> fs_ok n s' \<and> on_disk (of_nat (2 + b div 32768)) s' \<and>
    (\<forall>c < NBLK. is_free s' c \<longleftrightarrow> is_free s c \<and> c \<noteq> b) \<and>
    (\<exists>w. io_step (put_word (bit_addr b) w (umem s)) (disks s') s s')"
proof -
  have b: "b < NBLK" "b \<le> unat n" using assms(2) fs_okD(6) [OF ok] by auto
  let ?w = "word_at (umem s) (bit_addr b) AND NOT (push_bit (b mod 32) 1)"
  define s1 where "s1 = s\<lparr>umem := put_word (bit_addr b) ?w (umem s)\<rparr>"
  have st: "ustw (bit_addr b) ?w s = Some s1"
    using bit_addr_mod4 [OF b(1)] bit_addr_writable(1) [OF ok b(2,1)] by (simp add: ustw_def s1_def)
  have p: "upage (bit_addr b) = 65538 + b div 32768" by (rule bit_addr_block(2) [OF b(1)])
  have ok1: "fs_ok n s1"
    by (rule fs_ok_keep [OF ok]) (use fs_okD(7) [OF ok] p b(1) in \<open>auto simp: s1_def disk_ok_def upage_bit_word\<close>)
  have "va_is_mapped (blk_addr (of_nat (2 + b div 32768))) s1"
    using bit_addr_writable(2) [OF ok1 b(2,1)] p upage_blk0 [of "of_nat (2 + b div 32768)"] bitmap_block [OF b(1)]
    by (simp add: va_is_mapped_def)
  then obtain s' where s': "write_block (of_nat (2 + b div 32768)) s1 = Some s'"
    "io_step (umem s1) (put_block (of_nat (2 + b div 32768)) s1) s1 s'"
    using write_block_ok [OF fs_okD(7) [OF ok1], of "of_nat (2 + b div 32768)"] bitmap_block [OF b(1)] by auto
  have "fs_ok n s'"
    by (rule fs_ok_keep [OF ok1]) (use io_stepD [OF s'(2)] fs_okD(7) [OF ok1] in simp_all)
  moreover have "is_free s' c \<longleftrightarrow> is_free s c \<and> c \<noteq> b" if "c < NBLK" for c
    using is_free_put [OF b(1) that, of ?w False s s'] io_stepD(1) [OF s'(2)]
    by (simp add: s1_def bit_simps)
  moreover have "\<exists>w. io_step (put_word (bit_addr b) w (umem s)) (disks s') s s'"
    using s'(2) unfolding io_step_def s1_def by auto
  ultimately show ?thesis
    using st s'(1) on_disk_put [OF s'(2)] by (auto simp: grab_def Let_def)
qed

lemma free_block_ok:
  assumes ok: "fs_ok n s" and "0 < b" and "b < unat n"
  shows "\<exists>s'. free_block (of_nat b) s = Some s' \<and> fs_ok n s' \<and>
    (\<forall>c < NBLK. is_free s' c \<longleftrightarrow> is_free s c \<or> c = b)"
proof -
  have b: "b < NBLK" "b \<le> unat n" using assms(3) fs_okD(6) [OF ok] by auto
  note u = of_nat_block [OF b(1)]
  let ?w = "word_at (umem s) (bit_addr b) OR push_bit (b mod 32) 1"
  define s1 where "s1 = s\<lparr>umem := put_word (bit_addr b) ?w (umem s)\<rparr>"
  have st: "uldw (bit_addr b) s = Some (word_at (umem s) (bit_addr b))" "ustw (bit_addr b) ?w s = Some s1"
    using bit_addr_mod4 [OF b(1)] bit_addr_writable [OF ok b(2,1)] by (simp_all add: ustw_def uldw_def s1_def)
  have nz: "(of_nat b :: u32) \<noteq> 0" "\<not> n \<le> of_nat b" using u assms(2,3) by (auto simp: word_unat_eq_iff word_le_nat_alt)
  have "free_block (of_nat b) s = Some s1"
    using st nz fs_okD(2,3,5) [OF ok] bit_of_block [of "of_nat b"] u b(1)
    by (simp add: free_block_def del: push_bit_of_1)
  moreover have "fs_ok n s1"
    by (rule fs_ok_keep [OF ok]) (use fs_okD(7) [OF ok] bit_addr_block(2) [OF b(1)] b(1) in
        \<open>auto simp: s1_def disk_ok_def upage_bit_word\<close>)
  moreover have "is_free s1 c \<longleftrightarrow> is_free s c \<or> c = b" if "c < NBLK" for c
    using is_free_put [OF b(1) that, of ?w True s s1] by (auto simp: s1_def bit_simps)
  ultimately show ?thesis by auto
qed

section \<open>A small volume\<close>

definition good_disk :: disk_op where
  "good_disk op dno off buf imgs = (if op = 0 then (1, \<lambda>i. imgs dno (unat off + i), imgs)
     else (1, buf, imgs(dno := img_upd (unat off) 512 buf (imgs dno))))"

text \<open>Eight blocks; superblock and bitmap are cached, blocks 5 and 6 are free.\<close>

definition fs_demo :: fs_state where
  "fs_demo = \<lparr>umem = put_word (blk_addr 1 + 4) 8 (put_word (blk_addr 2) 0x60 (\<lambda>_. 0)),
     uperm = (\<lambda>_. 0)(65537 := 0x600, 65538 := 0x600), oom = (\<lambda>_. False), nalloc = 0, dk_op = good_disk,
     dk_id = 0, dk_off = 0, dk_buf = (\<lambda>_. 0), dk_status = 0, disks = (\<lambda>_ _. 0),
     super = blk_addr 1, bitmap = blk_addr 2\<rparr>"

lemma blk_small [simp]: "blk_addr 1 = 0x10001000" "blk_addr 2 = 0x10002000"
  by (simp_all add: blk_addr_def)

lemma fs_demo_ok: "fs_ok 8 fs_demo"
  by (simp add: fs_ok_def fs_demo_def s_nblocks_def uldw_def writable_def va_is_mapped_def upage_def
      disk_ok_def good_disk_def)

lemma fs_demo_free: "b < 32 \<Longrightarrow> is_free fs_demo b = bit (0x60 :: u32) b"
  by (simp add: is_free_def fs_demo_def bit_addr_def)

text \<open>C27. The bitmap allocator: when some block from 3 on is free, \<^verbatim>\<open>alloc_block_num\<close> returns the lowest
  one, marks exactly that block as used, and writes the bitmap block through to the disk; when
  none is free it returns \<^verbatim>\<open>-E_NO_DISK\<close> and changes nothing.  \<^verbatim>\<open>free_block\<close> on the returned block
  gives back the set of free blocks from before.\<close>

theorem alloc_block_num_correct:
  assumes ok: "fs_ok n s"
  shows "if \<exists>b. 3 \<le> b \<and> b < unat n \<and> is_free s b
    then \<exists>b s' s''. alloc_block_num s = Some (Inr (of_nat b), s') \<and> 3 \<le> b \<and> b < unat n \<and> is_free s b \<and>
      (\<forall>c. 3 \<le> c \<and> c < b \<longrightarrow> \<not> is_free s c) \<and> (\<forall>c < NBLK. is_free s' c \<longleftrightarrow> is_free s c \<and> c \<noteq> b) \<and>
      fs_ok n s' \<and> on_disk (of_nat (2 + b div 32768)) s' \<and>
      free_block (of_nat b) s' = Some s'' \<and> fs_ok n s'' \<and> (\<forall>c < NBLK. is_free s'' c \<longleftrightarrow> is_free s c)
    else alloc_block_num s = Some (Inl E_NO_DISK, s)"
proof (cases "find (is_free s) [3..<unat n]")
  case None
  then have "\<not> (\<exists>b. 3 \<le> b \<and> b < unat n \<and> is_free s b)" by (auto simp: find_None_iff)
  then show ?thesis
    using None alloc_scan_find [OF ok, of "[3..<unat n]"] fs_okD(5) [OF ok] by (simp add: alloc_block_num_def)
next
  case (Some b)
  then obtain i where i: "i < length [3..<unat n]" "is_free s ([3..<unat n] ! i)" "b = [3..<unat n] ! i"
    "\<forall>j < i. \<not> is_free s ([3..<unat n] ! j)" by (auto simp: find_Some_iff)
  then have b: "b = 3 + i" "3 \<le> b" "b < unat n" "is_free s b" by auto
  have least: "\<not> is_free s c" if "3 \<le> c" "c < b" for c
    using i(4) [rule_format, of "c - 3"] that b(1,3) by simp
  obtain s' where s': "grab b s = Some (Inr (of_nat b), s')" "fs_ok n s'" "on_disk (of_nat (2 + b div 32768)) s'"
    "\<forall>c < NBLK. is_free s' c \<longleftrightarrow> is_free s c \<and> c \<noteq> b"
    using grab_ok [OF ok b(3,4)] by blast
  obtain s'' where "free_block (of_nat b) s' = Some s''" "fs_ok n s''" "\<forall>c < NBLK. is_free s'' c \<longleftrightarrow> is_free s' c \<or> c = b"
    using free_block_ok [OF s'(2), of b] b by auto
  moreover have "alloc_block_num s = Some (Inr (of_nat b), s')"
    using Some s'(1) alloc_scan_find [OF ok, of "[3..<unat n]"] fs_okD(5) [OF ok] by (simp add: alloc_block_num_def)
  moreover have "\<exists>b. 3 \<le> b \<and> b < unat n \<and> is_free s b" using b by blast
  ultimately show ?thesis using b s' least by (auto intro!: exI [of _ b] exI [of _ s'] exI [of _ s''])
qed

theorem alloc_block_num_correct_witness:
  "\<exists>s'. alloc_block_num fs_demo = Some (Inr 5, s') \<and> \<not> is_free s' 5 \<and> is_free s' 6"
proof -
  have f: "is_free fs_demo b \<longleftrightarrow> b = 5 \<or> b = 6" if "b < 8" for b
    using that fs_demo_free [of b] by (auto simp: less_Suc_eq numeral_eq_Suc)
  then have "\<exists>b. 3 \<le> b \<and> b < unat (8 :: u32) \<and> is_free fs_demo b" by (intro exI [of _ 5]) simp
  then obtain b s' where b: "alloc_block_num fs_demo = Some (Inr (of_nat b), s')" "3 \<le> b" "b < 8"
    "is_free fs_demo b" "\<forall>c. 3 \<le> c \<and> c < b \<longrightarrow> \<not> is_free fs_demo c"
    "\<forall>c < NBLK. is_free s' c \<longleftrightarrow> is_free fs_demo c \<and> c \<noteq> b"
    using alloc_block_num_correct [OF fs_demo_ok] by auto
  then have "b = 5" using f [of b] f [of 5] by auto
  then show ?thesis using b f by auto
qed

section \<open>Synchronisation\<close>

definition dirty_blk :: "nat \<Rightarrow> ('z) fsst_scheme \<Rightarrow> bool" where
  "dirty_blk b s \<longleftrightarrow> va_is_mapped (blk_addr (of_nat b)) s \<and> va_is_dirty (blk_addr (of_nat b)) s"

text \<open>The image after the dirty blocks below \<open>k\<close> have been written back.\<close>

definition synced :: "nat \<Rightarrow> ('z) fsst_scheme \<Rightarrow> nat \<Rightarrow> u8" where
  "synced k s p = (if p div 4096 < k \<and> dirty_blk (p div 4096) s then umem s (DISKMAP + of_nat p) else disks s 0 p)"

lemma block_byte: "p div 4096 = b \<Longrightarrow> blk_addr (of_nat b) + of_nat (p - b * 4096) = DISKMAP + of_nat p"
proof -
  assume "p div 4096 = b"
  then have "p = b * 4096 + (p - b * 4096)" by (metis div_mult_mod_eq add_diff_cancel_left')
  then have "(of_nat p :: u32) = of_nat b * 4096 + of_nat (p - b * 4096)" by (metis of_nat_add of_nat_mult of_nat_numeral)
  then show ?thesis by (simp add: blk_addr_def)
qed

lemma synced_Suc:
  "synced (Suc k) s = (if dirty_blk k s
     then img_upd (k * 4096) 4096 (\<lambda>i. umem s (blk_addr (of_nat k) + of_nat i)) (synced k s) else synced k s)"
proof
  fix p
  have "k * 4096 \<le> p \<and> p < k * 4096 + 4096 \<longleftrightarrow> p div 4096 = k" by (auto simp: div_nat_eqI)
  then show "synced (Suc k) s p = (if dirty_blk k s
     then img_upd (k * 4096) 4096 (\<lambda>i. umem s (blk_addr (of_nat k) + of_nat i)) (synced k s) else synced k s) p"
    using block_byte [of p k] by (auto simp: synced_def img_upd_def less_Suc_eq simp del: of_nat_diff)
qed

text \<open>C29. Synchronisation: \<^verbatim>\<open>fs_sync\<close> succeeds and leaves on the disk, for every block of the file
  system that is cached and dirty, exactly the bytes of the cache; all other bytes of the disk,
  the other disks, the cache and its page flags are as before.\<close>

theorem fs_sync_correct:
  assumes ok: "fs_ok n s"
  shows "\<exists>s'. fs_sync s = Some s' \<and> io_step (umem s) ((disks s)(0 := synced (unat n) s)) s s' \<and> fs_ok n s'"
proof -
  let ?f = "\<lambda>i s. do { d \<leftarrow> block_is_dirty (of_nat i) s; if d then write_block (of_nat i) s else Some s }"
  let ?I = "\<lambda>k s'. io_step (umem s) ((disks s)(0 := synced k s)) s s'"
  have "\<exists>s'. fold_opt ?f [0..<unat n] s = Some s' \<and> ?I (length [0..<unat n]) s'"
  proof (rule fold_opt_inv)
    show "?I 0 s" by (simp add: io_step_def synced_def [abs_def])
    fix k s' assume "k < length [0..<unat n]" and I: "?I k s'"
    then have k: "k < unat n" "k < NBLK" using fs_okD(6) [OF ok] by simp_all
    note u = of_nat_block [OF k(2)] and I' = io_stepD [OF I]
    have d: "block_is_dirty (of_nat k) s' = Some (dirty_blk k s)"
      using diskaddr_blk [of "of_nat k"] u k(2) I'(6,7) by (simp add: block_is_dirty_def dirty_blk_def)
    show "\<exists>s''. ?f ([0..<unat n] ! k) s' = Some s'' \<and> ?I (Suc k) s''"
    proof (cases "dirty_blk k s")
      case True
      then have "va_is_mapped (blk_addr (of_nat k)) s'" using I'(6) by (simp add: dirty_blk_def)
      then obtain s'' where "write_block (of_nat k) s' = Some s''"
        "io_step (umem s') (put_block (of_nat k) s') s' s''"
        using write_block_ok [of s' "of_nat k"] u k(2) I'(4) fs_okD(7) [OF ok] by auto
      then show ?thesis
        using io_step_trans [OF I] True d k(1) u I'(1,2) by (auto simp: put_block_def synced_Suc)
    next
      case False
      then show ?thesis using I d k(1) by (simp add: synced_Suc)
    qed
  qed
  then obtain s' where s': "fold_opt ?f [0..<unat n] s = Some s'" "?I (unat n) s'" by auto
  have "fs_ok n s'"
    by (rule fs_ok_keep [OF ok]) (use io_stepD [OF s'(2)] fs_okD(7) [OF ok] in simp_all)
  then show ?thesis using s' fs_okD(5) [OF ok] by (simp add: fs_sync_def)
qed

text \<open>The same volume with block 5 cached, changed and marked dirty.\<close>

definition fs_demo_dirty :: fs_state where
  "fs_demo_dirty = fs_demo\<lparr>umem := (umem fs_demo)(0x10005000 := 7), uperm := (uperm fs_demo)(65541 := 0x602)\<rparr>"

lemma fs_demo_dirty_ok: "fs_ok 8 fs_demo_dirty"
proof (rule fs_ok_keep [OF fs_demo_ok])
  show "disk_ok fs_demo_dirty" using fs_okD(7) [OF fs_demo_ok] by (simp add: fs_demo_dirty_def disk_ok_def)
qed (auto simp: fs_demo_dirty_def upage_def)

theorem fs_sync_correct_witness:
  "\<exists>s'. fs_sync fs_demo_dirty = Some s' \<and> disks fs_demo_dirty 0 20480 = 0 \<and> disks s' 0 20480 = 7"
proof -
  obtain s' where s': "fs_sync fs_demo_dirty = Some s'" "disks s' 0 = synced 8 fs_demo_dirty"
    using fs_sync_correct [OF fs_demo_dirty_ok] by (auto dest!: io_stepD(2))
  have "dirty_blk 5 fs_demo_dirty"
    by (simp add: dirty_blk_def blk_addr_def fs_demo_dirty_def va_is_mapped_def va_is_dirty_def upage_def)
  then have "disks s' 0 20480 = 7" using s'(2) by (simp add: synced_def fs_demo_dirty_def)
  then show ?thesis using s'(1) by (simp add: fs_demo_dirty_def fs_demo_def)
qed

section \<open>Eviction\<close>

lemma unmap_self:
  assumes b: "unat b < NBLK"
  shows "snd (syscall_mem_unmap (blk_addr b) s) = s\<lparr>uperm := (uperm s)(65536 + unat b := 0)\<rparr>"
  using blk_legal [OF b] upage_blk0 [OF b] by (simp add: syscall_mem_unmap_def)

text \<open>A block outside superblock and bitmap, in use, is evicted: written back when dirty, then unmapped.\<close>

lemma unmap_block_ok:
  assumes ok: "fs_ok n s" and b: "b < n" and nf: "\<not> is_free s (unat b)" and m: "va_is_mapped (blk_addr b) s"
    and data: "2 + unat n div 32768 < unat b" and d: "va_is_dirty (blk_addr b) s \<or> on_disk b s"
  shows "\<exists>s'. unmap_block b s = Some s' \<and> fs_ok n s' \<and> umem s' = umem s \<and> on_disk b s' \<and>
    \<not> va_is_mapped (blk_addr b) s' \<and> oom s' = oom s \<and> nalloc s' = nalloc s"
proof -
  have bn: "unat b < NBLK" using b fs_okD(6) [OF ok] by (simp add: word_less_nat_alt)
  note a = diskaddr_blk [OF bn] and nz = blk_addr_nz [OF bn]
  obtain s1 where s1: "(if va_is_dirty (blk_addr b) s then write_block b s else Some s) = Some s1"
    "io_step (umem s) (disks s1) s s1" "on_disk b s1"
    using write_block_ok [OF fs_okD(7) [OF ok] bn m] d on_disk_put [of s b]
    by (cases "va_is_dirty (blk_addr b) s") (auto simp: io_step_def)
  define s2 where "s2 = s1\<lparr>uperm := (uperm s1)(65536 + unat b := 0)\<rparr>"
  have um: "\<not> va_is_mapped (blk_addr b) s2" by (simp add: va_is_mapped_def s2_def upage_blk0 [OF bn])
  have "unmap_block b s = Some s2"
    using s1(1) um a nz m block_is_free_eq [OF ok b] nf unmap_self [OF bn, of s1]
    by (simp add: unmap_block_def block_is_mapped_def block_is_dirty_def s2_def)
  moreover have "fs_ok n s2"
    by (rule fs_ok_keep [OF ok]) (use s1(2) fs_okD(7) [OF ok] data in \<open>auto simp: s2_def io_step_def disk_ok_def\<close>)
  ultimately show ?thesis using s1(2,3) um by (auto simp: s2_def io_step_def on_disk_def)
qed

lemma mem_upd_same:
  assumes "on_disk b s" and "unat b < NBLK"
  shows "mem_upd (blk_addr b) 4096 (\<lambda>i. disks s 0 (unat b * 4096 + i)) (umem s) = umem s"
  using assms(1) by (auto simp: mem_upd_def on_disk_def fun_eq_iff)

text \<open>C28. Eviction and reload: a data block in use that is dirty, or agrees with the disk, can be
  dropped with \<^verbatim>\<open>unmap_block\<close> and read again with \<^verbatim>\<open>read_block\<close>: both succeed, the second call reports
  the block as newly read and gives its address, and the cache holds every byte it held before.
  The block then agrees with the disk and is clean.\<close>

theorem evict_reload:
  assumes ok: "fs_ok n s" and b: "b < n" and nf: "\<not> is_free s (unat b)" and m: "va_is_mapped (blk_addr b) s"
    and data: "2 + unat n div 32768 < unat b" and d: "va_is_dirty (blk_addr b) s \<or> on_disk b s"
    and mem: "\<not> oom s (nalloc s)"
  shows "\<exists>s1 s2. unmap_block b s = Some s1 \<and> \<not> va_is_mapped (blk_addr b) s1 \<and>
    read_block b s1 = Some ((blk_addr b, True), s2) \<and> umem s2 = umem s \<and> va_is_mapped (blk_addr b) s2 \<and>
    on_disk b s2 \<and> \<not> va_is_dirty (blk_addr b) s2 \<and> fs_ok n s2"
proof -
  have bn: "unat b < NBLK" using b fs_okD(6) [OF ok] by (simp add: word_less_nat_alt)
  obtain s1 where s1: "unmap_block b s = Some s1" "fs_ok n s1" "umem s1 = umem s" "on_disk b s1"
    "\<not> va_is_mapped (blk_addr b) s1" "oom s1 = oom s" "nalloc s1 = nalloc s"
    using unmap_block_ok [OF assms(1-6)] by blast
  obtain s2 where s2: "ide_read 0 (b * 8) (blk_addr b) 8 (snd (syscall_mem_alloc (blk_addr b) PTE_D s1)) = Some s2"
    "umem s2 = umem s" "uperm s2 = (uperm s1)(65536 + unat b := PTE_D OR PTE_V)" "disk_ok s2"
    "fsst.more s2 = fsst.more s1" "on_disk b s2"
    using load_block_ok [OF fs_okD(7) [OF s1(2)] bn] mem mem_upd_same [OF s1(4) bn] s1(3,6,7) by auto
  have "is_free s1 (unat b) = is_free s (unat b)" by (simp add: is_free_def s1(3))
  then have "read_block b s1 = Some ((blk_addr b, True), s2)"
    using s2(1) fs_okD [OF s1(2)] block_is_free_eq [OF s1(2) b] nf b diskaddr_blk [OF bn] s1(5)
    by (simp add: read_block_def)
  moreover have "fs_ok n s2"
    by (rule fs_ok_keep [OF s1(2)]) (use s2 s1(3) data in auto)
  moreover have "va_is_mapped (blk_addr b) s2" "\<not> va_is_dirty (blk_addr b) s2"
    by (simp_all add: va_is_mapped_def va_is_dirty_def s2(3) upage_blk0 [OF bn])
  ultimately show ?thesis using s1(1,5) s2(2,6) by blast
qed

text \<open>Block 7 of the volume, in use, dirty.\<close>

definition fs_demo_seven :: fs_state where
  "fs_demo_seven = fs_demo\<lparr>umem := (umem fs_demo)(0x10007000 := 7), uperm := (uperm fs_demo)(65543 := 0x602)\<rparr>"

lemma fs_demo_seven_ok: "fs_ok 8 fs_demo_seven"
proof (rule fs_ok_keep [OF fs_demo_ok])
  show "disk_ok fs_demo_seven" using fs_okD(7) [OF fs_demo_ok] by (simp add: fs_demo_seven_def disk_ok_def)
qed (auto simp: fs_demo_seven_def upage_def)

theorem evict_reload_witness:
  "\<exists>s1 s2. unmap_block 7 fs_demo_seven = Some s1 \<and> read_block 7 s1 = Some ((0x10007000, True), s2) \<and>
     umem s2 0x10007000 = 7"
proof -
  have "word_at (umem fs_demo_seven) (bit_addr 7) = word_at (umem fs_demo) (bit_addr 7)"
    by (rule word_at_eq) (simp_all add: fs_demo_seven_def bit_addr_def)
  then have "\<not> is_free fs_demo_seven 7" using fs_demo_free [of 7] by (simp add: is_free_def)
  moreover have "va_is_mapped (blk_addr 7) fs_demo_seven" "va_is_dirty (blk_addr 7) fs_demo_seven"
    by (simp_all add: blk_addr_def fs_demo_seven_def va_is_mapped_def va_is_dirty_def upage_def)
  moreover have "\<not> oom fs_demo_seven (nalloc fs_demo_seven)" by (simp add: fs_demo_seven_def fs_demo_def)
  ultimately have "\<exists>s1 s2. unmap_block 7 fs_demo_seven = Some s1 \<and> read_block 7 s1 = Some ((blk_addr 7, True), s2) \<and>
      umem s2 = umem fs_demo_seven"
    using evict_reload [OF fs_demo_seven_ok, of 7] by fastforce
  then show ?thesis by (auto simp: blk_addr_def fs_demo_seven_def)
qed

section \<open>The bitmap as an allocator\<close>

definition bitmap_rep :: "u32 \<Rightarrow> ('z) fs_state_scheme \<Rightarrow> nat set \<Rightarrow> bool" where
  "bitmap_rep n s F \<longleftrightarrow> fs_ok n s \<and> F = {b. 3 \<le> b \<and> b < unat n \<and> is_free s b}"

definition bitmap_take :: "('z) fs_state_scheme \<Rightarrow> (nat \<times> ('z) fs_state_scheme) option" where
  "bitmap_take s = (case alloc_block_num s of Some (Inr b, s') \<Rightarrow> Some (unat b, s') | _ \<Rightarrow> None)"

lemma bitmap_take_ok:
  assumes "bitmap_rep n s F" and "F \<noteq> {}"
  shows "\<exists>b s'. bitmap_take s = Some (b, s') \<and> b \<in> F \<and> bitmap_rep n s' (F - {b})"
proof -
  have ok: "fs_ok n s" and F: "F = {b. 3 \<le> b \<and> b < unat n \<and> is_free s b}" using assms(1) by (simp_all add: bitmap_rep_def)
  obtain b where f: "find (is_free s) [3..<unat n] = Some b"
    using assms(2) unfolding F by (cases "find (is_free s) [3..<unat n]") (auto simp: find_None_iff)
  have b: "3 \<le> b" "b < unat n" "is_free s b" using find_Some_iff [THEN iffD1, OF f] by auto
  obtain s' where s': "grab b s = Some (Inr (of_nat b), s')" "fs_ok n s'"
    "\<forall>c < NBLK. is_free s' c \<longleftrightarrow> is_free s c \<and> c \<noteq> b" using grab_ok [OF ok b(2,3)] by blast
  have "unat (of_nat b :: u32) = b" using of_nat_block [of b] b(2) fs_okD(6) [OF ok] by simp
  then have "bitmap_take s = Some (b, s')"
    using f s'(1) alloc_scan_find [OF ok, of "[3..<unat n]"] fs_okD(5) [OF ok]
    by (simp add: alloc_block_num_def bitmap_take_def)
  moreover have "F - {b} = {c. 3 \<le> c \<and> c < unat n \<and> is_free s' c}"
    unfolding F using s'(3) fs_okD(6) [OF ok] by auto
  ultimately show ?thesis using b s'(2) unfolding bitmap_rep_def F by blast
qed

interpretation bitmap: unit_allocator "bitmap_rep n" "{3..<unat n}" bitmap_take "\<lambda>b. free_block (of_nat b)" 0
  for n
proof unfold_locales
  fix s :: "'a fs_state_scheme" and F b
  show "bitmap_rep n s F \<Longrightarrow> F \<subseteq> {3..<unat n}" by (auto simp: bitmap_rep_def)
  show "finite {3..<unat n}" by simp
  show "bitmap_rep n s F \<Longrightarrow> 0 < card F \<Longrightarrow>
      \<exists>b s'. bitmap_take s = Some (b, s') \<and> b \<in> F \<and> bitmap_rep n s' (F - {b})"
    by (rule bitmap_take_ok) auto
  assume "bitmap_rep n s F" and b: "b \<in> {3..<unat n} - F"
  then have ok: "fs_ok n s" and F: "F = {b. 3 \<le> b \<and> b < unat n \<and> is_free s b}" by (simp_all add: bitmap_rep_def)
  obtain s' where s': "free_block (of_nat b) s = Some s'" "fs_ok n s'" "\<forall>c < NBLK. is_free s' c \<longleftrightarrow> is_free s c \<or> c = b"
    using free_block_ok [OF ok, of b] b by auto
  have "insert b F = {c. 3 \<le> c \<and> c < unat n \<and> is_free s' c}"
    unfolding F using s'(3) fs_okD(6) [OF ok] b by auto
  then show "\<exists>s'. free_block (of_nat b) s = Some s' \<and> bitmap_rep n s' (insert b F)"
    using s'(1,2) by (simp add: bitmap_rep_def)
qed

text \<open>Block ownership: as long as at least \<open>k\<close> blocks are free, \<open>k\<close> calls of \<^verbatim>\<open>alloc_block_num\<close> in a row
  return \<open>k\<close> different blocks, all of them free before and none of them free afterwards, and
  \<^verbatim>\<open>free_block\<close> on all of them restores the set of free blocks.\<close>

theorem blocks_handed_out_once:
  assumes "fs_ok n s" and "k \<le> card {b. 3 \<le> b \<and> b < unat n \<and> is_free s b}"
  shows "\<exists>bs s' s''. alloc_many bitmap_take k s = Some (bs, s') \<and> length bs = k \<and> distinct bs \<and>
    set bs \<subseteq> {b. 3 \<le> b \<and> b < unat n \<and> is_free s b \<and> \<not> is_free s' b} \<and> fs_ok n s' \<and>
    fold_opt (\<lambda>b. free_block (of_nat b)) bs s' = Some s'' \<and> fs_ok n s'' \<and>
    {b. 3 \<le> b \<and> b < unat n \<and> is_free s'' b} = {b. 3 \<le> b \<and> b < unat n \<and> is_free s b}"
proof -
  let ?F = "{b. 3 \<le> b \<and> b < unat n \<and> is_free s b}"
  have "bitmap_rep n s ?F" using assms(1) by (simp add: bitmap_rep_def)
  then obtain bs s' s'' where r: "alloc_many bitmap_take k s = Some (bs, s')" "length bs = k" "distinct bs"
    "set bs \<subseteq> ?F" "bitmap_rep n s' (?F - set bs)" "fold_opt (\<lambda>b. free_block (of_nat b)) bs s' = Some s''"
    "bitmap_rep n s'' ?F"
    using bitmap.alloc_release_all [of n s ?F k] assms(2) by auto
  have "?F - set bs = {b. 3 \<le> b \<and> b < unat n \<and> is_free s' b}" using r(5) by (simp add: bitmap_rep_def)
  then have "set bs \<subseteq> {b. 3 \<le> b \<and> b < unat n \<and> is_free s b \<and> \<not> is_free s' b}" using r(4) by blast
  then show ?thesis using r unfolding bitmap_rep_def by blast
qed

theorem blocks_handed_out_once_witness:
  "\<exists>bs s'. alloc_many bitmap_take 2 fs_demo = Some (bs, s') \<and> length bs = 2 \<and> set bs = {5, 6}"
proof -
  have f: "is_free fs_demo b \<longleftrightarrow> b = 5 \<or> b = 6" if "b < 8" for b
    using that fs_demo_free [of b] by (auto simp: less_Suc_eq numeral_eq_Suc)
  have F: "{b. 3 \<le> b \<and> b < unat (8 :: u32) \<and> is_free fs_demo b} = {5, 6}" using f by auto
  obtain bs s' where bs: "alloc_many bitmap_take 2 fs_demo = Some (bs, s')" "length bs = 2" "distinct bs"
    "set bs \<subseteq> {b. 3 \<le> b \<and> b < unat (8 :: u32) \<and> is_free fs_demo b \<and> \<not> is_free s' b}"
    using blocks_handed_out_once [OF fs_demo_ok, of 2] F by auto
  have "card (set bs) = 2" using bs(2,3) by (simp add: distinct_card)
  moreover have "set bs \<subseteq> {5, 6}" using bs(4) F by blast
  ultimately have "set bs = {5, 6}" by (intro card_subset_eq) auto
  then show ?thesis using bs by blast
qed

end
