(* ===== verification/Format_Props.thy ===== *)
theory Format_Props
  imports Format Fs_Props
begin

text \<open>
  The images the formatter makes.  The invariant of the formatter's state says where links may point
  to, that unused entries and blocks are zero, and that bitmap and superblock are only changed
  by the steps meant to.
\<close>

section \<open>Entries and their fields\<close>

definition valid_ptr :: "fptr \<Rightarrow> fmt \<Rightarrow> bool" where
  "valid_ptr f s = (case f of Root \<Rightarrow> True
     | At b off \<Rightarrow> 3 \<le> b \<and> b < nextbno s \<and> dtype s b = BLOCK_FILE \<and> (\<exists>j < 16. off = of_nat j * 256))"

definition fld :: "u32 \<Rightarrow> bool" where
  "fld k \<longleftrightarrow> unat k mod 4 = 0 \<and> 128 \<le> unat k \<and> unat k < 180"

definition nbyte :: "fptr \<Rightarrow> nat \<Rightarrow> fmt \<Rightarrow> u8" where
  "nbyte f i s = file_mem f s (file_off f + of_nat i)"

abbreviation name0 :: "fptr \<Rightarrow> fmt \<Rightarrow> u8" where "name0 f \<equiv> nbyte f 0"

lemma valid_Root [simp]: "valid_ptr Root s"
  by (simp add: valid_ptr_def)

lemma fo_direct_fld: "i < 10 \<Longrightarrow> fld (fo_direct i)" "i < 10 \<Longrightarrow> unat (fo_direct i :: u32) = 136 + i * 4"
proof -
  assume "i < 10"
  then show "unat (fo_direct i :: u32) = 136 + i * 4" by (simp add: unat_word_ariths word_of_nat_unat_eq)
  then show "fld (fo_direct i)" using \<open>i < 10\<close> by (simp add: fld_def)
qed

lemma fld_simps [simp]: "fld 128" "fld 132" "fld 176"
  by (simp_all add: fld_def)

lemma slot_off: "j < 16 \<Longrightarrow> unat (of_nat j * 256 :: u32) = j * 256"
  by (simp add: unat_word_ariths word_of_nat_unat_eq)

text \<open>The address of a byte of an entry, and that entries of a block are apart.\<close>

lemma entry_addr:
  assumes "valid_ptr f s" and "unat k < 256"
  shows "unat (file_off f + k) = unat (file_off f) + unat k" and "f \<noteq> Root \<Longrightarrow> unat (file_off f) mod 256 = 0"
    and "unat (file_off f) + 256 \<le> 4096" and "unat (file_off f) mod 4 = 0"
proof -
  have "unat (file_off f) mod 256 = 0 \<and> unat (file_off f) + 256 \<le> 4096" if "f \<noteq> Root"
    using assms(1) that by (cases f) (auto simp: valid_ptr_def slot_off)
  then show "f \<noteq> Root \<Longrightarrow> unat (file_off f) mod 256 = 0" and le: "unat (file_off f) + 256 \<le> 4096"
    by (cases f; simp)+
  then show "unat (file_off f + k) = unat (file_off f) + unat k"
    using assms(2) by (simp add: unat_word_ariths)
  show "unat (file_off f) mod 4 = 0"
  proof (cases "f = Root")
    case False
    then have "unat (file_off f) mod 256 = 0" by fact
    then show ?thesis by presburger
  qed simp
qed

lemma slot_eq:
  fixes a b k j :: nat
  assumes "a + k = b + j" and "a mod 256 = 0" and "b mod 256 = 0" and "k < 256" and "j < 256"
  shows "a = b"
proof -
  have "(a + k) div 256 = a div 256" "(b + j) div 256 = b div 256"
    using assms(2-5) by (simp_all add: div_add1_eq [of a k] div_add1_eq [of b j])
  then show ?thesis using assms(1-3) by (metis mod_0_imp_dvd dvd_div_mult_self)
qed

lemma entry_byte_inj:
  assumes "valid_ptr f s" and "valid_ptr g s" and "unat k < 256" and "unat j < 256"
    and "file_off f + k = file_off g + j" and "f = Root \<longleftrightarrow> g = Root"
  shows "file_off f = file_off g" and "k = j"
proof -
  have e: "unat (file_off f) + unat k = unat (file_off g) + unat j"
    using arg_cong [OF assms(5), of unat] entry_addr(1) assms(1-4) by metis
  have "unat (file_off f) = unat (file_off g)"
  proof (cases "f = Root")
    case True then show ?thesis using assms(6) by simp
  next
    case False
    then have "unat (file_off f) mod 256 = 0" "unat (file_off g) mod 256 = 0"
      using entry_addr(2) [OF assms(1,3)] entry_addr(2) [OF assms(2,4)] assms(6) by simp_all
    then show ?thesis using slot_eq [OF e _ _ assms(3,4)] by simp
  qed
  then show "file_off f = file_off g" by (simp add: word_unat_eq_iff)
  then show "k = j" using assms(5) by simp
qed

lemma fput_frame [simp]:
  "dtype (fput f k v s) = dtype s" "nextbno (fput f k v s) = nextbno s"
  by (cases f; simp add: fput_def)+

lemma valid_fput [simp]: "valid_ptr g (fput f k v s) = valid_ptr g s"
  by (simp add: valid_ptr_def split: fptr.split)

lemma fget_fput_same [simp]: "fget f k (fput f k v s) = v"
  by (cases f) (simp_all add: fget_def fput_def)

text \<open>A change of the memory of one entry is seen by no other.\<close>

fun same_page :: "fptr \<Rightarrow> fptr \<Rightarrow> bool" where
  "same_page Root Root = True"
| "same_page (At b _) (At c _) = (b = c)"
| "same_page _ _ = False"

lemma same_pageD:
  assumes "same_page f g"
  shows "f = Root \<longleftrightarrow> g = Root" and "file_mem f s = file_mem g s" and "file_off f = file_off g \<Longrightarrow> f = g"
  using assms by (cases f; cases g; simp)+

lemma file_mem_set: "file_mem g (set_mem f m s) = (if same_page f g then m else file_mem g s)"
  by (cases f; cases g; simp)

lemma fget_fput_other [simp]:
  assumes "valid_ptr f s" and "valid_ptr g s" and "fld k" and "fld j" and "f \<noteq> g \<or> k \<noteq> j"
  shows "fget g j (fput f k v s) = fget g j s"
proof (cases "same_page f g")
  case True
  have kj: "unat k < 256" "unat j < 256" using assms(3,4) by (simp_all add: fld_def)
  have "file_off f + k \<noteq> file_off g + j"
    using entry_byte_inj [OF assms(1,2) kj] same_pageD(1,3) [OF True] assms(5) by blast
  moreover have "unat (file_off f + k) mod 4 = 0" "unat (file_off g + j) mod 4 = 0"
    using entry_addr(1,4) [OF assms(1) kj(1)] entry_addr(1,4) [OF assms(2) kj(2)] assms(3,4)
    by (auto simp: fld_def mod_add_eq [symmetric])
  ultimately show ?thesis using True same_pageD(2) [OF True] by (simp add: fget_def fput_def file_mem_set)
qed (simp add: fget_def fput_def file_mem_set)

section \<open>The invariant\<close>

definition bitmap0 :: "u32 \<Rightarrow> u8" where
  "bitmap0 = mem_upd 128 3968 (\<lambda>_. 0) (mem_upd 0 4096 (\<lambda>_. 0xff) (\<lambda>_. 0))"

definition in_use :: "nat \<Rightarrow> block_type \<Rightarrow> fmt \<Rightarrow> bool" where
  "in_use b t s \<longleftrightarrow> 3 \<le> b \<and> b < nextbno s \<and> dtype s b = t"

definition ind_ok :: "fptr \<Rightarrow> fmt \<Rightarrow> bool" where
  "ind_ok f s \<longleftrightarrow> fget f fo_indirect s = 0 \<or> in_use (unat (fget f fo_indirect s)) BLOCK_INDEX s"

definition dir_ok :: "fptr \<Rightarrow> fmt \<Rightarrow> bool" where
  "dir_ok f s \<longleftrightarrow> unat (fget f fo_size s div 4096) \<le> 1024 \<and> (\<forall>i < unat (fget f fo_size s div 4096). \<exists>b. dir_bno f i s = Some b \<and> in_use b BLOCK_FILE s)"

definition entry_ok :: "fptr \<Rightarrow> fmt \<Rightarrow> bool" where
  "entry_ok f s \<longleftrightarrow> ind_ok f s \<and> (name0 f s = 0 \<longrightarrow> (\<forall>k. fld k \<longrightarrow> fget f k s = 0)) \<and>
     (fget f fo_type s = 1 \<longrightarrow> dir_ok f s)"

definition fmt_inv :: "fmt \<Rightarrow> bool" where
  "fmt_inv s \<longleftrightarrow> 3 \<le> nextbno s \<and> nextbno s \<le> 1024 \<and> ddata s 2 = bitmap0 \<and> ddata s 0 = (\<lambda>_. 0) \<and>
     word_at (fsuper s) 0 = FS_MAGIC \<and> word_at (fsuper s) 4 = 1024 \<and> name0 Root s \<noteq> 0 \<and>
     (\<forall>b \<ge> nextbno s. ddata s b = (\<lambda>_. 0)) \<and> (\<forall>f. valid_ptr f s \<longrightarrow> entry_ok f s) \<and>
     (\<forall>f g. valid_ptr f s \<longrightarrow> valid_ptr g s \<longrightarrow> fget f fo_indirect s \<noteq> 0 \<longrightarrow>
        fget f fo_indirect s = fget g fo_indirect s \<longrightarrow> f = g)"

text \<open>What every step keeps of an entry with a name: its name and type, the blocks it has, and the
  size unless it is a directory, which may grow.\<close>

definition extent :: "fptr \<Rightarrow> fmt \<Rightarrow> nat" where
  "extent g s = (if fget g fo_type s = 1 then unat (fget g fo_size s div 4096) else 1024)"

definition keeps :: "fptr \<Rightarrow> fmt \<Rightarrow> fmt \<Rightarrow> bool" where
  "keeps g s s' \<longleftrightarrow> (\<forall>i < 128. nbyte g i s' = nbyte g i s) \<and> fget g fo_type s' = fget g fo_type s \<and>
     extent g s \<le> extent g s' \<and> (fget g fo_type s = 1 \<or> fget g fo_size s' = fget g fo_size s) \<and>
     (\<forall>j b. j < extent g s \<longrightarrow> dir_bno g j s = Some b \<longrightarrow> 3 \<le> b \<longrightarrow> dir_bno g j s' = Some b)"

definition grows :: "fptr set \<Rightarrow> fmt \<Rightarrow> fmt \<Rightarrow> bool" where
  "grows X s s' \<longleftrightarrow> nextbno s \<le> nextbno s' \<and> (\<forall>b < nextbno s. dtype s' b = dtype s b) \<and>
     (\<forall>b. in_use b BLOCK_DATA s \<longrightarrow> ddata s' b = ddata s b) \<and>
     (\<forall>g. valid_ptr g s \<longrightarrow> g \<notin> X \<longrightarrow> name0 g s \<noteq> 0 \<longrightarrow> keeps g s s')"

lemma valid_grows: "grows X s s' \<Longrightarrow> valid_ptr g s \<Longrightarrow> valid_ptr g s'"
  by (auto simp: valid_ptr_def grows_def split: fptr.splits)

lemma in_use_grows: "grows X s s' \<Longrightarrow> in_use b t s \<Longrightarrow> in_use b t s'"
  by (auto simp: in_use_def grows_def)

lemma keepsD:
  assumes "keeps g s s'"
  shows "name0 g s' = name0 g s" "fget g fo_type s' = fget g fo_type s" "extent g s \<le> extent g s'"
    "fget g fo_type s \<noteq> 1 \<Longrightarrow> fget g fo_size s' = fget g fo_size s"
    "j < extent g s \<Longrightarrow> dir_bno g j s = Some b \<Longrightarrow> 3 \<le> b \<Longrightarrow> dir_bno g j s' = Some b"
    "i < 128 \<Longrightarrow> nbyte g i s' = nbyte g i s"
  using assms by (auto simp: keeps_def)

lemma keeps_trans: "keeps g s s' \<Longrightarrow> keeps g s' s'' \<Longrightarrow> keeps g s s''"
  using keepsD(3) [of g s s'] by (auto simp: keeps_def)

lemma keeps_same:
  assumes "\<And>i. i < 128 \<Longrightarrow> nbyte g i s' = nbyte g i s" and "\<And>k. fld k \<Longrightarrow> fget g k s' = fget g k s"
    and "\<And>j. j < extent g s \<Longrightarrow> dir_bno g j s' = dir_bno g j s"
  shows "keeps g s s'"
  using assms by (simp add: keeps_def extent_def)

lemma grows_refl [simp]: "grows X s s"
  by (simp add: grows_def keeps_def)

lemma grows_trans:
  assumes "grows X s s'" and "grows X s' s''"
  shows "grows X s s''"
proof -
  have "keeps g s s''" if "valid_ptr g s" "g \<notin> X" "name0 g s \<noteq> 0" for g
  proof -
    have "keeps g s s'" using assms(1) that by (simp add: grows_def)
    moreover have "keeps g s' s''"
      using assms(2) valid_grows [OF assms(1) that(1)] keepsD(1) [OF calculation] that by (simp add: grows_def)
    ultimately show ?thesis by (rule keeps_trans)
  qed
  moreover have "ddata s'' b = ddata s b" if "in_use b BLOCK_DATA s" for b
    using that in_use_grows [OF assms(1) that] assms by (simp add: grows_def)
  ultimately show ?thesis using assms by (auto simp: grows_def)
qed

lemma grows_mono: "grows X s s' \<Longrightarrow> X \<subseteq> Y \<Longrightarrow> grows Y s s'"
  by (auto simp: grows_def)

lemma grows_close: "grows {f} s s' \<Longrightarrow> (name0 f s \<noteq> 0 \<Longrightarrow> keeps f s s') \<Longrightarrow> grows {} s s'"
  by (auto simp: grows_def)

lemma fmt_invD:
  assumes "fmt_inv s"
  shows "3 \<le> nextbno s" "nextbno s \<le> 1024" "ddata s 2 = bitmap0" "ddata s 0 = (\<lambda>_. 0)"
    "word_at (fsuper s) 0 = FS_MAGIC" "word_at (fsuper s) 4 = 1024" "name0 Root s \<noteq> 0"
    "nextbno s \<le> b \<Longrightarrow> ddata s b = (\<lambda>_. 0)" "valid_ptr f s \<Longrightarrow> entry_ok f s"
    "valid_ptr f s \<Longrightarrow> valid_ptr g s \<Longrightarrow> fget f fo_indirect s \<noteq> 0 \<Longrightarrow>
       fget f fo_indirect s = fget g fo_indirect s \<Longrightarrow> f = g"
  using assms unfolding fmt_inv_def by blast+

lemma fmt_invI:
  assumes "3 \<le> nextbno s" "nextbno s \<le> 1024" "ddata s 2 = bitmap0" "ddata s 0 = (\<lambda>_. 0)"
    "word_at (fsuper s) 0 = FS_MAGIC" "word_at (fsuper s) 4 = 1024" "name0 Root s \<noteq> 0"
    "\<And>b. nextbno s \<le> b \<Longrightarrow> ddata s b = (\<lambda>_. 0)" "\<And>f. valid_ptr f s \<Longrightarrow> entry_ok f s"
    "\<And>f g. valid_ptr f s \<Longrightarrow> valid_ptr g s \<Longrightarrow> fget f fo_indirect s \<noteq> 0 \<Longrightarrow>
       fget f fo_indirect s = fget g fo_indirect s \<Longrightarrow> f = g"
  shows "fmt_inv s"
  using assms unfolding fmt_inv_def by blast

text \<open>Fields, names, and everything outside the entries, under the change of a field.\<close>

lemma nbyte_fput [simp]:
  assumes "valid_ptr f s" and "valid_ptr g s" and "fld k" and "i < 128"
  shows "nbyte g i (fput f k v s) = nbyte g i s"
proof (cases "same_page f g")
  case True
  have i: "unat (of_nat i :: u32) = i" using assms(4) by (simp add: word_of_nat_unat_eq)
  have "file_off g + of_nat i \<noteq> file_off f + (k + of_nat j)" if "j < 4" for j
  proof
    assume e: "file_off g + of_nat i = file_off f + (k + of_nat j)"
    have u: "unat (k + of_nat j) = unat k + j"
      using that assms(3) by (simp add: fld_def unat_word_ariths word_of_nat_unat_eq)
    have b: "unat (k + of_nat j) < 256" unfolding u using that assms(3) by (simp add: fld_def)
    have b': "unat (of_nat i :: u32) < 256" using i assms(4) by simp
    have "k + of_nat j = of_nat i" by (rule entry_byte_inj(2) [OF assms(1,2) b b' e [symmetric] same_pageD(1) [OF True]])
    then have "unat k + j = i" using u i by metis
    then show False using assms(3,4) by (simp add: fld_def)
  qed
  from this [of 0] this [of 1] this [of 2] this [of 3] show ?thesis
    using True same_pageD(2) [OF True] by (simp add: nbyte_def fput_def file_mem_set put_word_def add.assoc)
qed (simp add: nbyte_def fput_def file_mem_set)

lemma fput_other_block: "in_use b t s \<Longrightarrow> t \<noteq> BLOCK_FILE \<Longrightarrow> valid_ptr f s \<Longrightarrow> ddata (fput f k v s) b = ddata s b"
  by (cases f) (auto simp: fput_def valid_ptr_def in_use_def)

lemma fput_low: "valid_ptr f s \<Longrightarrow> b < 3 \<or> nextbno s \<le> b \<Longrightarrow> ddata (fput f k v s) b = ddata s b"
  by (cases f) (auto simp: fput_def valid_ptr_def)

lemma in_use_fput [simp]: "in_use b t (fput f k v s) = in_use b t s"
  by (simp add: in_use_def)

lemma fput_super:
  assumes "fld k"
  shows "word_at (fsuper (fput f k v s)) 0 = word_at (fsuper s) 0" "word_at (fsuper (fput f k v s)) 4 = word_at (fsuper s) 4"
proof -
  have "unat (8 + k :: u32) = 8 + unat k" using assms by (simp add: fld_def unat_word_ariths)
  then have "unat (8 + k :: u32) mod 4 = 0" "8 + k \<noteq> 0" "8 + k \<noteq> 4"
    using assms by (auto simp: fld_def mod_add_eq [symmetric] word_unat_eq_iff)
  then show "word_at (fsuper (fput f k v s)) 0 = word_at (fsuper s) 0"
    "word_at (fsuper (fput f k v s)) 4 = word_at (fsuper s) 4"
    by (cases f; simp add: fput_def)+
qed

lemma dir_bno_cong:
  assumes "\<And>k. fld k \<Longrightarrow> fget g k s' = fget g k s"
    and "ddata s' (unat (fget g fo_indirect s)) = ddata s (unat (fget g fo_indirect s))"
  shows "dir_bno g i s' = dir_bno g i s"
  using assms fo_direct_fld(1) [of i] by (simp add: dir_bno_def Let_def)

lemma dir_ok_cong:
  assumes "dir_ok g s" and "\<And>k. fld k \<Longrightarrow> fget g k s' = fget g k s"
    and "ddata s' (unat (fget g fo_indirect s)) = ddata s (unat (fget g fo_indirect s))"
    and "\<And>b. in_use b BLOCK_FILE s \<Longrightarrow> in_use b BLOCK_FILE s'"
  shows "dir_ok g s'"
  using assms dir_bno_cong [of g s' s] unfolding dir_ok_def by (metis fld_simps(1))

lemma entry_ok_cong:
  assumes "entry_ok g s" and "\<And>k. fld k \<Longrightarrow> fget g k s' = fget g k s" and "name0 g s' = name0 g s"
    and "ddata s' (unat (fget g fo_indirect s)) = ddata s (unat (fget g fo_indirect s))"
    and "\<And>b t. in_use b t s \<Longrightarrow> in_use b t s'"
  shows "entry_ok g s'"
  using assms dir_ok_cong [of g s s'] unfolding entry_ok_def ind_ok_def by auto

text \<open>The block of links of an entry, or block 0 when it has none, does not change with a field.\<close>

lemma ind_block_fput:
  assumes "fmt_inv s" and "valid_ptr f s" and "valid_ptr g s"
  shows "ddata (fput f k v s) (unat (fget g fo_indirect s)) = ddata s (unat (fget g fo_indirect s))"
  using fmt_invD(9) [OF assms(1,3)] fput_other_block [of _ BLOCK_INDEX s f] fput_low [OF assms(2), of 0] assms(2)
  by (auto simp: entry_ok_def ind_ok_def)

lemma fput_inv:
  assumes inv: "fmt_inv s" and f: "valid_ptr f s" and k: "fld k" and nm: "name0 f s \<noteq> 0"
    and ind: "k = fo_indirect \<longrightarrow> v = 0 \<or> in_use (unat v) BLOCK_INDEX s \<and> (\<forall>g. valid_ptr g s \<longrightarrow> fget g fo_indirect s \<noteq> v)"
    and dir: "fget f fo_type (fput f k v s) = 1 \<longrightarrow> dir_ok f (fput f k v s)"
  shows "fmt_inv (fput f k v s)"
proof -
  let ?s = "fput f k v s"
  have other: "fget g j ?s = fget g j s" if "valid_ptr g s" "fld j" "g \<noteq> f \<or> j \<noteq> k" for g j
    using that f k by (metis fget_fput_other)
  have ent: "entry_ok g ?s" if g: "valid_ptr g s" for g
  proof (cases "g = f")
    case False
    then show ?thesis
      using entry_ok_cong [OF fmt_invD(9) [OF inv g]] other [OF g] nbyte_fput [OF f g k] ind_block_fput [OF inv f g]
      by simp
  next
    case True
    have "ind_ok f ?s"
      using ind other [OF f, of fo_indirect] fmt_invD(9) [OF inv f] k
      by (cases "k = fo_indirect") (auto simp: ind_ok_def entry_ok_def)
    then show ?thesis using dir nm nbyte_fput [OF f f k] True by (simp add: entry_ok_def)
  qed
  have inj: "g = h" if g: "valid_ptr g s" "valid_ptr h s" "fget g fo_indirect ?s \<noteq> 0"
    "fget g fo_indirect ?s = fget h fo_indirect ?s" for g h
  proof (cases "k = fo_indirect \<and> (g = f \<or> h = f)")
    case True
    then have v: "v \<noteq> 0" "\<And>h. valid_ptr h s \<Longrightarrow> fget h fo_indirect s \<noteq> v" using ind g(3,4) by auto
    show ?thesis
    proof (rule ccontr)
      assume "g \<noteq> h"
      then show False
        using True g(4) v(2) [OF g(1)] v(2) [OF g(2)] other [OF g(1), of fo_indirect] other [OF g(2), of fo_indirect]
        by auto
    qed
  next
    case False
    then have "fget g fo_indirect ?s = fget g fo_indirect s" "fget h fo_indirect ?s = fget h fo_indirect s"
      using other [OF g(1), of fo_indirect] other [OF g(2), of fo_indirect] by auto
    then show ?thesis using fmt_invD(10) [OF inv g(1,2)] g(3,4) by metis
  qed
  show ?thesis
  proof (rule fmt_invI)
    show "g = h" if "valid_ptr g ?s" "valid_ptr h ?s" "fget g fo_indirect ?s \<noteq> 0"
      "fget g fo_indirect ?s = fget h fo_indirect ?s" for g h
      using that inj by (metis valid_fput)
  qed (use ent fmt_invD(1-8) [OF inv] fput_low [OF f, where k = k and v = v] fput_super [OF k, of f v s]
      nbyte_fput [OF f _ k, where g = Root and v = v and i = 0] in simp_all)
qed

lemma grows_fput:
  assumes inv: "fmt_inv s" and f: "valid_ptr f s" and k: "fld k"
  shows "grows {f} s (fput f k v s)"
proof -
  have "keeps g s (fput f k v s)" if "valid_ptr g s" "g \<noteq> f" for g
    using that f k dir_bno_cong [of g "fput f k v s" s] ind_block_fput [OF inv f that(1)] by (intro keeps_same) auto
  then show ?thesis using fput_other_block [OF _ _ f] by (simp add: grows_def)
qed

section \<open>Taking a block\<close>

definition take_block :: "block_type \<Rightarrow> (u32 \<Rightarrow> u8) \<Rightarrow> fmt \<Rightarrow> fmt" where
  "take_block t m s = s\<lparr>ddata := (ddata s)(nextbno s := m), dtype := (dtype s)(nextbno s := t), nextbno := nextbno s + 1\<rparr>"

lemma word_at_zero [simp]: "word_at (\<lambda>_. 0) p = 0"
  by (simp add: word_at_def)

lemma next_block_eq: "next_block t s = Some (b, s') \<longleftrightarrow> nextbno s < 1024 \<and> b = nextbno s \<and> s' = take_block t (ddata s b) s"
  by (auto simp: next_block_def take_block_def)

lemma take_block_old:
  assumes "valid_ptr g s"
  shows "fget g k (take_block t m s) = fget g k s" "nbyte g i (take_block t m s) = nbyte g i s"
    "valid_ptr g (take_block t m s)"
  using assms by (cases g; simp add: fget_def nbyte_def take_block_def valid_ptr_def)+

lemma in_use_take: "3 \<le> nextbno s \<Longrightarrow> in_use (nextbno s) t (take_block t m s)"
  "in_use b u s \<Longrightarrow> in_use b u (take_block t m s)"
  by (auto simp: in_use_def take_block_def)

lemma ind_block_take:
  assumes "fmt_inv s" and "valid_ptr g s"
  shows "ddata (take_block t m s) (unat (fget g fo_indirect s)) = ddata s (unat (fget g fo_indirect s))"
  using fmt_invD(9) [OF assms] fmt_invD(1) [OF assms(1)]
  by (auto simp: entry_ok_def ind_ok_def in_use_def take_block_def)

lemma grows_take: "fmt_inv s \<Longrightarrow> grows {} s (take_block t m s)"
  unfolding grows_def using take_block_old dir_bno_cong [OF take_block_old(1) ind_block_take]
  by (auto intro!: keeps_same) (auto simp: take_block_def in_use_def)

text \<open>A new directory block holds only empty entries.\<close>

lemma take_block_valid:
  assumes "valid_ptr g (take_block t m s)" and "\<not> valid_ptr g s"
  shows "t = BLOCK_FILE" "\<exists>off. g = At (nextbno s) off" "m = (\<lambda>_. 0) \<Longrightarrow> fget g k (take_block t m s) = 0"
    "m = (\<lambda>_. 0) \<Longrightarrow> name0 g (take_block t m s) = 0"
  using assms by (cases g; auto simp: valid_ptr_def take_block_def fget_def nbyte_def split: if_splits)+

lemma take_block_inv:
  assumes inv: "fmt_inv s" and n: "nextbno s < 1024" and m: "t = BLOCK_FILE \<longrightarrow> m = (\<lambda>_. 0)"
  shows "fmt_inv (take_block t m s)"
proof -
  let ?s = "take_block t m s"
  have new: "fget g k ?s = 0" "name0 g ?s = 0" if "valid_ptr g ?s" "\<not> valid_ptr g s" for g k
    using take_block_valid [OF that] m by auto
  have ent: "entry_ok g ?s" if "valid_ptr g ?s" for g
  proof (cases "valid_ptr g s")
    case True
    show ?thesis
      using ind_block_take [OF inv True, of t m] entry_ok_cong [OF fmt_invD(9) [OF inv True]] take_block_old [OF True] in_use_take(2) by simp
  next
    case False
    then show ?thesis using new [OF that] by (simp add: entry_ok_def ind_ok_def)
  qed
  have inj: "g = h" if "valid_ptr g ?s" "valid_ptr h ?s" "fget g fo_indirect ?s \<noteq> 0"
    "fget g fo_indirect ?s = fget h fo_indirect ?s" for g h
    using that new fmt_invD(10) [OF inv] take_block_old(1) by metis
  have "ddata ?s 2 = ddata s 2" "ddata ?s 0 = ddata s 0" "fsuper ?s = fsuper s" "name0 Root ?s = name0 Root s"
    "\<forall>b \<ge> nextbno ?s. ddata ?s b = ddata s b" "nextbno ?s = nextbno s + 1"
    using fmt_invD(1) [OF inv] by (auto simp: take_block_def nbyte_def)
  note old = this
  show ?thesis
    by (rule fmt_invI) (use old ent inj fmt_invD(1-8) [OF inv] n in \<open>(simp; fail) | blast\<close>)+
qed

section \<open>Links\<close>

definition iput :: "nat \<Rightarrow> nat \<Rightarrow> nat \<Rightarrow> fmt \<Rightarrow> fmt" where
  "iput b i v s = s\<lparr>ddata := (ddata s)(b := put_word (of_nat i * 4) (of_nat v) (ddata s b))\<rparr>"

lemma iput_frame [simp]: "nextbno (iput b i v s) = nextbno s" "dtype (iput b i v s) = dtype s"
  "fsuper (iput b i v s) = fsuper s" "valid_ptr g (iput b i v s) = valid_ptr g s" "in_use c t (iput b i v s) = in_use c t s"
  by (simp_all add: iput_def valid_ptr_def in_use_def split: fptr.split)

lemma iput_old [simp]:
  assumes "in_use b BLOCK_INDEX s" and "valid_ptr g s"
  shows "fget g k (iput b i v s) = fget g k s" "nbyte g j (iput b i v s) = nbyte g j s"
  using assms by (cases g; auto simp: fget_def nbyte_def iput_def in_use_def valid_ptr_def)+

lemma dir_bno_iput:
  assumes "in_use b BLOCK_INDEX s" and "valid_ptr g s" and "i < 1024" and "j < 1024"
    and "j = i \<longrightarrow> j < 10 \<or> unat (fget g fo_indirect s) \<noteq> b"
  shows "dir_bno g j (iput b i v s) = dir_bno g j s"
proof -
  have u: "unat (of_nat k * 4 :: u32) = k * 4" if "k < 1024" for k
    using that by (simp add: unat_word_ariths word_of_nat_unat_eq)
  have "word_at (put_word (of_nat i * 4) (of_nat v) m) (of_nat j * 4) = word_at m (of_nat j * 4)" if "j \<noteq> i" for m
    using that u [OF assms(3)] u [OF assms(4)] by (intro word_at_put_other) (auto simp: word_unat_eq_iff)
  then show ?thesis using iput_old(1) [OF assms(1,2)] assms(5) by (auto simp: dir_bno_def Let_def iput_def)
qed

text \<open>A directory stays well formed when its size and the blocks of its indices stay.\<close>

lemma dir_ok_keep:
  assumes "dir_ok f s" and "fget f fo_size s' = fget f fo_size s"
    and "\<And>i b. i < unat (fget f fo_size s div 4096) \<Longrightarrow> dir_bno f i s = Some b \<Longrightarrow> in_use b BLOCK_FILE s \<Longrightarrow>
      dir_bno f i s' = Some b \<and> in_use b BLOCK_FILE s'"
  shows "dir_ok f s'"
  using assms unfolding dir_ok_def by metis

lemma iput_inv:
  assumes inv: "fmt_inv s" and f: "valid_ptr f s" and ind: "fget f fo_indirect s \<noteq> 0" and i: "i < 1024"
    and dir: "fget f fo_type s = 1 \<longrightarrow> unat (fget f fo_size s div 4096) \<le> i"
  shows "fmt_inv (iput (unat (fget f fo_indirect s)) i v s)" and "grows {f} s (iput (unat (fget f fo_indirect s)) i v s)"
proof -
  define b where "b = unat (fget f fo_indirect s)"
  let ?s = "iput b i v s"
  have b: "in_use b BLOCK_INDEX s" using fmt_invD(9) [OF inv f] ind by (simp add: entry_ok_def ind_ok_def b_def)
  have same: "dir_bno g j ?s = dir_bno g j s" if "valid_ptr g s" "j < 1024" "g \<noteq> f \<or> j \<noteq> i" for g j
  proof (cases "unat (fget g fo_indirect s) = b")
    case True
    then have "g = f" using fmt_invD(10) [OF inv f that(1) ind] by (simp add: b_def word_unat_eq_iff)
    then show ?thesis using dir_bno_iput [OF b that(1) i that(2)] that(3) by simp
  next
    case False
    then show ?thesis using dir_bno_iput [OF b that(1) i that(2)] by simp
  qed
  have ent: "entry_ok g ?s" if g: "valid_ptr g s" for g
  proof -
    have "dir_ok g ?s" if d: "fget g fo_type s = 1"
    proof (rule dir_ok_keep [of g s])
      show "dir_ok g s" using fmt_invD(9) [OF inv g] d by (simp add: entry_ok_def)
      show "dir_bno g j ?s = Some c \<and> in_use c BLOCK_FILE ?s"
        if "j < unat (fget g fo_size s div 4096)" "dir_bno g j s = Some c" "in_use c BLOCK_FILE s" for j c
      proof -
        have "j < 1024 \<or> g \<noteq> f" using that(1) dir d i by auto
        moreover have "unat (fget g fo_indirect s) \<noteq> b \<Longrightarrow> dir_bno g j ?s = dir_bno g j s"
          using g b by (simp add: dir_bno_def Let_def) (simp add: iput_def)
        moreover have "unat (fget g fo_indirect s) = b \<Longrightarrow> g = f"
          using fmt_invD(10) [OF inv f g ind] by (simp add: b_def word_unat_eq_iff)
        moreover have "g = f \<Longrightarrow> j \<noteq> i" using that(1) dir d by auto
        ultimately show ?thesis using same [OF g, of j] that(2,3) by auto
      qed
    qed (use g b in simp)
    then show ?thesis using fmt_invD(9) [OF inv g] g b by (simp add: entry_ok_def ind_ok_def)
  qed
  have low: "ddata ?s c = ddata s c" if "c < 3 \<or> nextbno s \<le> c" for c
    using that b by (auto simp: iput_def in_use_def)
  have "fmt_inv ?s"
  proof (rule fmt_invI)
    show "g = h" if "valid_ptr g ?s" "valid_ptr h ?s" "fget g fo_indirect ?s \<noteq> 0"
      "fget g fo_indirect ?s = fget h fo_indirect ?s" for g h
      using that fmt_invD(10) [OF inv, of g h] b by (metis iput_frame(4) iput_old(1))
  qed (use ent fmt_invD(1-8) [OF inv] low b in simp_all)
  then show "fmt_inv (iput (unat (fget f fo_indirect s)) i v s)" by (simp add: b_def)
  have "keeps g s ?s" if g: "valid_ptr g s" "g \<noteq> f" for g
  proof (rule keeps_same)
    show "dir_bno g j ?s = dir_bno g j s" for j
      using fmt_invD(10) [OF inv f g(1) ind] g b by (auto simp: dir_bno_def Let_def b_def word_unat_eq_iff) (auto simp: iput_def)
  qed (use g b in simp_all)
  moreover have "ddata ?s c = ddata s c" if "in_use c BLOCK_DATA s" for c
    using that b by (auto simp: iput_def in_use_def)
  ultimately show "grows {f} s (iput (unat (fget f fo_indirect s)) i v s)" by (simp add: grows_def b_def)
qed

text \<open>What storing the link of block \<open>i\<close> does to an entry.\<close>

definition linked :: "fptr \<Rightarrow> nat \<Rightarrow> nat \<Rightarrow> fmt \<Rightarrow> fmt \<Rightarrow> bool" where
  "linked f i v s s' \<longleftrightarrow> fmt_inv s' \<and> grows {f} s s' \<and> fget f fo_size s' = fget f fo_size s \<and> dir_bno f i s' = Some v \<and>
     fget f fo_type s' = fget f fo_type s \<and> (\<forall>g n. valid_ptr g s \<longrightarrow> n < 128 \<longrightarrow> nbyte g n s' = nbyte g n s) \<and>
     (\<forall>j b. j \<noteq> i \<longrightarrow> j < 1024 \<longrightarrow> dir_bno f j s = Some b \<longrightarrow> 3 \<le> b \<longrightarrow> dir_bno f j s' = Some b)"

lemma block_no: "b < 1024 \<Longrightarrow> unat (of_nat b :: u32) = b"
  by (simp add: word_of_nat_unat_eq)

lemma link_direct:
  assumes inv: "fmt_inv s" and f: "valid_ptr f s" and nm: "name0 f s \<noteq> 0" and i: "i < 10" and v: "v < 1024"
    and dir: "fget f fo_type s = 1 \<longrightarrow> unat (fget f fo_size s div 4096) \<le> i"
  shows "linked f i v s (fput f (fo_direct i) (of_nat v) s)"
proof -
  let ?s = "fput f (fo_direct i) (of_nat v) s"
  note k = fo_direct_fld(1) [OF i]
  have ne: "fo_direct i \<noteq> (k :: u32)" if "unat k \<noteq> 136 + i * 4" for k
    using that fo_direct_fld(2) [OF i] by (auto simp: word_unat_eq_iff)
  then have keep: "fget f 128 ?s = fget f 128 s" "fget f 132 ?s = fget f 132 s" "fget f 176 ?s = fget f 176 s"
    using f k i by (auto intro!: fget_fput_other)
  have dirs: "dir_bno f j ?s = dir_bno f j s" if "j \<noteq> i" for j
  proof (cases "j < 10")
    case True
    then have "fget f (fo_direct j) ?s = fget f (fo_direct j) s"
      using f k that fo_direct_fld [OF True] ne [of "fo_direct j"] by (intro fget_fput_other) auto
    then show ?thesis using True by (simp add: dir_bno_def)
  qed (simp add: dir_bno_def Let_def keep ind_block_fput [OF inv f f])
  have "dir_ok f ?s" if "fget f fo_type s = 1"
    by (rule dir_ok_keep [of f s]) (use fmt_invD(9) [OF inv f] that keep dirs dir in \<open>auto simp: entry_ok_def\<close>)
  moreover have "fo_direct i \<noteq> (176 :: u32)" "fo_direct i \<noteq> (132 :: u32)" using ne i by auto
  ultimately have "fmt_inv ?s" using fput_inv [OF inv f k nm] keep by simp
  then show ?thesis
    using grows_fput [OF inv f k] keep dirs i v \<open>fo_direct i \<noteq> 132\<close> nbyte_fput [OF f _ k]
    by (simp add: linked_def dir_bno_def block_no)
qed

lemma link_indirect:
  assumes inv: "fmt_inv s" and f: "valid_ptr f s" and i: "\<not> i < 10" "i < 1024" and v: "v < 1024"
    and ind: "fget f fo_indirect s \<noteq> 0"
    and dir: "fget f fo_type s = 1 \<longrightarrow> unat (fget f fo_size s div 4096) \<le> i"
  shows "linked f i v s (iput (unat (fget f fo_indirect s)) i v s)"
proof -
  let ?b = "unat (fget f fo_indirect s)"
  have b: "in_use ?b BLOCK_INDEX s" using fmt_invD(9) [OF inv f] ind by (simp add: entry_ok_def ind_ok_def)
  then have "?b < 1024" using fmt_invD(2) [OF inv] by (simp add: in_use_def)
  then have "dir_bno f i (iput ?b i v s) = Some v"
    using i f b v by (simp add: dir_bno_def Let_def) (simp add: iput_def block_no)
  then show ?thesis
    using iput_inv [OF inv f ind i(2) dir] dir_bno_iput [OF b f i(2)] b f by (simp add: linked_def)
qed

text \<open>A new block of links; an entry without one has no block from index 10 on.\<close>

lemma no_ind:
  assumes "fmt_inv s" and "fget f fo_indirect s = 0" and "dir_bno f j s = Some b" and "3 \<le> b"
  shows "j < 10"
  using assms fmt_invD(4) [OF assms(1)] by (auto simp: dir_bno_def Let_def split: if_splits)

lemma new_index:
  assumes inv: "fmt_inv s" and f: "valid_ptr f s" and nm: "name0 f s \<noteq> 0" and ind: "fget f fo_indirect s = 0"
    and n: "nextbno s < 1024"
  defines "s' \<equiv> fput f fo_indirect (of_nat (nextbno s)) (take_block BLOCK_INDEX (ddata s (nextbno s)) s)"
  shows "fmt_inv s'" and "grows {f} s s'" and "fget f fo_indirect s' \<noteq> 0" and "fget f fo_size s' = fget f fo_size s"
    and "fget f fo_type s' = fget f fo_type s" and "\<And>g n. valid_ptr g s \<Longrightarrow> n < 128 \<Longrightarrow> nbyte g n s' = nbyte g n s"
    and "\<And>j b. dir_bno f j s = Some b \<Longrightarrow> 3 \<le> b \<Longrightarrow> dir_bno f j s' = Some b"
proof -
  let ?t = "take_block BLOCK_INDEX (ddata s (nextbno s)) s"
  have inv': "fmt_inv ?t" using take_block_inv [OF inv n] by simp
  have f': "valid_ptr f ?t" and old: "fget f k ?t = fget f k s" "name0 f ?t \<noteq> 0" for k
    using take_block_old [OF f] nm by simp_all
  have pos: "3 \<le> nextbno s" using fmt_invD(1) [OF inv] .
  then have nz: "(of_nat (nextbno s) :: u32) \<noteq> 0" using block_no [OF n] by (metis not_numeral_le_zero unat_0)
  have fresh: "fget g fo_indirect ?t \<noteq> of_nat (nextbno s)" if "valid_ptr g ?t" for g
  proof -
    have g: "valid_ptr g s" using take_block_valid(1) [OF that] by blast
    then have "unat (fget g fo_indirect s) < nextbno s"
      using fmt_invD(9) [OF inv g] pos by (auto simp: entry_ok_def ind_ok_def in_use_def)
    then show ?thesis using take_block_old(1) [OF g] block_no [OF n] by auto
  qed
  have keep: "fget f k s' = fget f k s" if "fld k" "k \<noteq> fo_indirect" for k
    using that f' old(1) by (simp add: s'_def)
  show dirs: "dir_bno f j s' = Some b" if "dir_bno f j s = Some b" "3 \<le> b" for j b
  proof -
    have j: "j < 10" using no_ind [OF inv ind that] .
    then have "fo_direct j \<noteq> (176 :: u32)" using fo_direct_fld(2) [OF j] by (auto simp: word_unat_eq_iff)
    then show ?thesis using that(1) j keep [OF fo_direct_fld(1) [OF j]] by (simp add: dir_bno_def)
  qed
  have "dir_ok f s'" if "fget f fo_type s = 1"
    by (rule dir_ok_keep [of f s])
      (use fmt_invD(9) [OF inv f] that keep dirs in_use_take(2) in \<open>auto simp: entry_ok_def s'_def in_use_def\<close>)
  then show "fmt_inv s'"
    unfolding s'_def using fput_inv [OF inv' f', of fo_indirect] old fresh in_use_take(1) [OF pos] block_no [OF n] keep
    by (simp add: s'_def)
  show "grows {f} s s'" unfolding s'_def
    by (rule grows_trans [OF grows_mono [OF grows_take [OF inv]]]) (simp, rule grows_fput [OF inv' f'], simp)
  show "fget f fo_indirect s' \<noteq> 0" using nz by (simp add: s'_def)
  show "fget f fo_size s' = fget f fo_size s" "fget f fo_type s' = fget f fo_type s" using keep by simp_all
  show "nbyte g n s' = nbyte g n s" if "valid_ptr g s" "n < 128" for g n
    using nbyte_fput [OF f'] take_block_old(2,3) [OF that(1)] that(2) by (simp add: s'_def)
qed

lemma save_block_link_ok:
  assumes inv: "fmt_inv s" and f: "valid_ptr f s" and nm: "name0 f s \<noteq> 0" and v: "v < 1024"
    and dir: "fget f fo_type s = 1 \<longrightarrow> unat (fget f fo_size s div 4096) \<le> i" and s': "save_block_link f i v s = Some s'"
  shows "linked f i v s s'" and "i < 1024"
proof -
  show i: "i < 1024" using s' by (simp add: save_block_link_def split: if_splits)
  consider (direct) "i < 10" | (ind) "\<not> i < 10" "fget f fo_indirect s \<noteq> 0" | (new) "\<not> i < 10" "fget f fo_indirect s = 0" by blast
  then show "linked f i v s s'"
  proof cases
    case direct
    then show ?thesis using link_direct [OF inv f nm direct v dir] s' by (simp add: save_block_link_def)
  next
    case ind
    then show ?thesis
      using link_indirect [OF inv f ind(1) i v ind(2) dir] s' i by (auto simp: save_block_link_def Let_def iput_def split: if_splits)
  next
    case new
    define s1 where "s1 = fput f fo_indirect (of_nat (nextbno s)) (take_block BLOCK_INDEX (ddata s (nextbno s)) s)"
    have n: "nextbno s < 1024" using s' new by (auto simp: save_block_link_def next_block_def split: if_splits)
    note n1 = new_index [OF inv f nm new(2) n, folded s1_def]
    have f1: "valid_ptr f s1" using valid_grows [OF n1(2) f] .
    have "linked f i v s1 s'"
      using link_indirect [OF n1(1) f1 new(1) i v n1(3)] dir n1(4,5) s' i new n
      by (auto simp: save_block_link_def next_block_def take_block_def s1_def Let_def iput_def split: if_splits)
    then show ?thesis using n1 grows_trans [OF n1(2)] valid_grows [OF n1(2)] by (auto simp: linked_def)
  qed
qed

section \<open>Creating an entry\<close>

definition entry_in :: "fptr \<Rightarrow> fptr \<Rightarrow> fmt \<Rightarrow> bool" where
  "entry_in dirf f s \<longleftrightarrow> (\<exists>i b j. i < extent dirf s \<and> dir_bno dirf i s = Some b \<and> 3 \<le> b \<and> j < 16 \<and> f = At b (of_nat j * 256))"

lemma entry_in_keeps: "keeps dirf s s' \<Longrightarrow> entry_in dirf f s \<Longrightarrow> entry_in dirf f s'"
  unfolding entry_in_def using keepsD(3,5) by (metis order_less_le_trans)

lemma find_slot_ok:
  assumes inv: "fmt_inv s" and f: "valid_ptr dirf s" and dir: "fget dirf fo_type s = 1"
    and "set is \<subseteq> {..<unat (fget dirf fo_size s div 4096)}" and "find_slot dirf is s = Some (Some f)"
  shows "valid_ptr f s \<and> name0 f s = 0 \<and> entry_in dirf f s"
  using assms(4,5)
proof (induction "is")
  case (Cons i "is")
  have "dir_ok dirf s" using fmt_invD(9) [OF inv f] dir by (simp add: entry_ok_def)
  then obtain b where b: "dir_bno dirf i s = Some b" "in_use b BLOCK_FILE s"
    using Cons.prems(1) by (auto simp: dir_ok_def)
  show ?case
  proof (cases "find (\<lambda>j. ddata s b (of_nat j * 256) = 0) [0..<16]")
    case None
    then show ?thesis using Cons b by (auto split: if_splits)
  next
    case (Some j)
    then have "j < 16" "ddata s b (of_nat j * 256) = 0" by (auto simp: find_Some_iff)
    moreover have "f = At b (of_nat j * 256)" using Cons.prems(2) b Some by (auto split: if_splits)
    moreover have "entry_in dirf f s"
      using calculation b Cons.prems(1) dir unfolding entry_in_def in_use_def extent_def by auto
    ultimately show ?thesis using b(2) by (auto simp: valid_ptr_def in_use_def nbyte_def)
  qed
qed simp

lemma make_link_block_ok:
  assumes inv: "fmt_inv s" and f: "valid_ptr dirf s" and nm: "name0 dirf s \<noteq> 0" and dir: "fget dirf fo_type s = 1"
    and s': "make_link_block dirf (unat (fget dirf fo_size s div 4096)) s = Some (b, s')"
  shows "fmt_inv s'" and "grows {} s s'" and "valid_ptr (At b 0) s'" and "name0 (At b 0) s' = 0" and "entry_in dirf (At b 0) s'"
proof -
  define i where "i = unat (fget dirf fo_size s div 4096)"
  define s1 where "s1 = take_block BLOCK_FILE (ddata s (nextbno s)) s"
  obtain s2 where n: "nextbno s < 1024" "b = nextbno s" and s2: "save_block_link dirf i b s1 = Some s2"
    "s' = fput dirf fo_size (fget dirf fo_size s2 + 4096) s2"
    using s' by (auto simp: make_link_block_def next_block_eq s1_def i_def split: bind_splits)
  have inv1: "fmt_inv s1" unfolding s1_def using take_block_inv [OF inv n(1)] fmt_invD(8) [OF inv] by simp
  have old: "fget dirf k s1 = fget dirf k s" "nbyte dirf n s1 = nbyte dirf n s" "valid_ptr dirf s1" for k n
    unfolding s1_def using take_block_old [OF f] by simp_all
  have l: "linked dirf i b s1 s2" and i: "i < 1024"
    using save_block_link_ok [OF inv1 old(3) _ _ _ s2(1)] old nm n by (simp_all add: i_def)
  have g12: "grows {dirf} s1 s2" and inv2: "fmt_inv s2" using l by (simp_all add: linked_def)
  have v2: "valid_ptr dirf s2" using valid_grows [OF g12 old(3)] .
  have new: "in_use b BLOCK_FILE s1" unfolding s1_def n(2) using fmt_invD(1) [OF inv] by (rule in_use_take)
  have mono: "in_use c BLOCK_FILE s2" if "in_use c BLOCK_FILE s1" for c
    using that in_use_grows [OF g12] by simp
  have "unat (fget dirf fo_size s) div 4096 = i" by (simp add: i_def unat_div)
  then have sz: "unat ((fget dirf fo_size s + 4096) div 4096) = i + 1"
    using i by (simp add: unat_div unat_word_ariths)
  have d: "dir_bno dirf j s' = dir_bno dirf j s2" for j
  proof -
    have "fget dirf (fo_direct j) s' = fget dirf (fo_direct j) s2" if "j < 10"
      using v2 fo_direct_fld [OF that] by (auto simp: s2(2) word_unat_eq_iff intro!: fget_fput_other)
    moreover have "fget dirf 176 s' = fget dirf 176 s2" using v2 by (simp add: s2(2))
    ultimately show ?thesis using ind_block_fput [OF inv2 v2 v2] by (simp add: dir_bno_def Let_def s2(2))
  qed
  have "dir_ok dirf s'" unfolding dir_ok_def
  proof (intro conjI allI impI)
    have "fget dirf fo_size s' = fget dirf fo_size s + 4096" using l old by (simp add: s2(2) linked_def)
    then show "unat (fget dirf fo_size s' div 4096) \<le> 1024" using sz i by simp
  next
    fix j assume "j < unat (fget dirf fo_size s' div 4096)"
    then have "j < i \<or> j = i" using sz l old by (auto simp: s2(2) linked_def)
    then show "\<exists>c. dir_bno dirf j s' = Some c \<and> in_use c BLOCK_FILE s'"
    proof
      assume "j < i"
      moreover have "dir_ok dirf s1" using fmt_invD(9) [OF inv1 old(3)] dir old by (simp add: entry_ok_def)
      ultimately obtain c where "dir_bno dirf j s1 = Some c" "in_use c BLOCK_FILE s1"
        using old by (auto simp: dir_ok_def i_def)
      then show ?thesis using l i \<open>j < i\<close> mono d by (auto simp: linked_def s2(2) in_use_def)
    next
      assume "j = i"
      then show ?thesis using l new mono d by (auto simp: linked_def s2(2))
    qed
  qed
  moreover have nm2: "name0 dirf s2 \<noteq> 0" using l old nm by (simp add: linked_def)
  ultimately show "fmt_inv s'" using fput_inv [OF inv2 v2 _ nm2, of fo_size] by (simp add: s2(2))
  have g23: "grows {dirf} s2 s'" unfolding s2(2) by (rule grows_fput [OF inv2 v2]) simp
  have t: "fget dirf fo_type s' = fget dirf fo_type s" using l old v2 by (simp add: linked_def s2(2))
  have ex: "extent dirf s1 = i" "extent dirf s' = i + 1"
    using t dir old sz l v2 by (simp_all add: extent_def i_def s2(2) linked_def)
  have "dir_bno dirf i s' = Some b" "3 \<le> b" using l d new by (simp_all add: linked_def in_use_def)
  then show "entry_in dirf (At b 0) s'" unfolding entry_in_def using ex by (intro exI [of _ i] exI [of _ b] exI [of _ 0]) simp
  have "keeps dirf s1 s'"
  proof -
    have "nbyte dirf m s' = nbyte dirf m s1" if "m < 128" for m
      using that l old(3) v2 by (simp add: linked_def s2(2))
    moreover have "dir_bno dirf j s' = Some c" if "j < i" "dir_bno dirf j s1 = Some c" "3 \<le> c" for j c
      using that l d i by (auto simp: linked_def)
    ultimately show ?thesis using dir old t ex by (simp add: keeps_def)
  qed
  then have "grows {} s1 s'" by (intro grows_close [OF grows_trans [OF g12 g23]])
  then show "grows {} s s'" using grows_trans [OF grows_take [OF inv]] by (simp add: s1_def)
  have nv: "valid_ptr (At b 0) s1" using new by (auto simp: valid_ptr_def in_use_def intro: exI [of _ 0])
  then show "valid_ptr (At b 0) s'" using valid_grows g12 g23 by blast
  have "name0 (At b 0) s1 = 0" using fmt_invD(8) [OF inv] by (simp add: nbyte_def s1_def take_block_def n)
  then show "name0 (At b 0) s' = 0"
    using l nv nbyte_fput [OF v2] valid_grows [OF g12 nv] by (simp add: linked_def s2(2))
qed

lemma create_file_ok:
  assumes inv: "fmt_inv s" and f: "valid_ptr dirf s" and nm: "name0 dirf s \<noteq> 0" and dir: "fget dirf fo_type s = 1"
    and s': "create_file dirf s = Some (f, s')"
  shows "fmt_inv s'" and "grows {} s s'" and "valid_ptr f s'" and "name0 f s' = 0" and "f \<noteq> Root" and "entry_in dirf f s'"
proof -
  obtain r where r: "find_slot dirf [0..<unat (fget dirf fo_size s div 4096)] s = Some r"
    using s' by (auto simp: create_file_def Let_def split: bind_splits)
  have "fmt_inv s' \<and> grows {} s s' \<and> valid_ptr f s' \<and> name0 f s' = 0 \<and> entry_in dirf f s'"
  proof (cases r)
    case (Some g)
    then show ?thesis using s' r find_slot_ok [OF inv f dir _ r [unfolded Some]] inv
      by (auto simp: create_file_def lessThan_atLeast0)
  next
    case None
    then obtain b where "make_link_block dirf (unat (fget dirf fo_size s div 4096)) s = Some (b, s')" "f = At b 0"
      using s' r by (auto simp: create_file_def Let_def split: bind_splits if_splits)
    then show ?thesis using make_link_block_ok [OF inv f nm dir] by blast
  qed
  then show "fmt_inv s'" "grows {} s s'" "valid_ptr f s'" "name0 f s' = 0" "entry_in dirf f s'" by simp_all
  then show "f \<noteq> Root" by (auto simp: entry_in_def)
qed

section \<open>Names and contents\<close>

definition name_upd :: "fptr \<Rightarrow> nat \<Rightarrow> (nat \<Rightarrow> u8) \<Rightarrow> fmt \<Rightarrow> fmt" where
  "name_upd f n g s = set_mem f (mem_upd (file_off f) n g (file_mem f s)) s"

lemma name_upd_frame [simp]: "nextbno (name_upd f n g s) = nextbno s" "dtype (name_upd f n g s) = dtype s"
  "valid_ptr h (name_upd f n g s) = valid_ptr h s" "in_use b t (name_upd f n g s) = in_use b t s"
  by (cases f; simp add: name_upd_def valid_ptr_def in_use_def split: fptr.split)+

text \<open>Only bytes of the name of this entry change.\<close>

lemma name_upd_byte:
  assumes f: "valid_ptr f s" and h: "valid_ptr h s" and n: "n \<le> 128" and k: "unat k < 256"
  shows "file_mem h (name_upd f n g s) (file_off h + k) =
    (if h = f \<and> unat k < n then g (unat k) else file_mem h s (file_off h + k))"
proof (cases "same_page f h")
  case True
  have eq: "unat (file_off h + k - file_off f) < n \<longleftrightarrow> h = f \<and> unat k < n"
  proof
    assume a: "unat (file_off h + k - file_off f) < n"
    then have d: "unat (file_off h + k - file_off f) < 256" using n by simp
    have e: "file_off f + (file_off h + k - file_off f) = file_off h + k" by simp
    note * = entry_byte_inj [OF f h d k e same_pageD(1) [OF True]]
    show "h = f \<and> unat k < n" using same_pageD(3) [OF True *(1)] a *(2) by metis
  qed auto
  have "file_mem h (name_upd f n g s) = mem_upd (file_off f) n g (file_mem h s)"
    using True same_pageD(2) [OF True] by (simp add: name_upd_def file_mem_set)
  then show ?thesis unfolding mem_upd_def using eq by (cases "h = f \<and> unat k < n") (simp_all only: if_True if_False, simp)
next
  case False
  then have "h \<noteq> f" by (cases f) auto
  then show ?thesis using False by (simp add: name_upd_def file_mem_set)
qed

lemma name_upd_old:
  assumes "valid_ptr f s" and "valid_ptr h s" and "n \<le> 128"
  shows "fld k \<Longrightarrow> fget h k (name_upd f n g s) = fget h k s"
    and "i < 128 \<Longrightarrow> nbyte h i (name_upd f n g s) = (if h = f \<and> i < n then g i else nbyte h i s)"
proof -
  assume k: "fld k"
  have "unat (k + of_nat j) = unat k + j" if "j < 4" for j
    using that k by (simp add: fld_def unat_word_ariths word_of_nat_unat_eq)
  then have "file_mem h (name_upd f n g s) (file_off h + (k + of_nat j)) = file_mem h s (file_off h + (k + of_nat j))"
    if "j < 4" for j using that name_upd_byte [OF assms, of "k + of_nat j"] k assms(3) by (simp add: fld_def)
  from this [of 0] this [of 1] this [of 2] this [of 3] show "fget h k (name_upd f n g s) = fget h k s"
    by (auto simp: fget_def add.assoc intro!: word_at_eq)
next
  assume "i < 128"
  then have "unat (of_nat i :: u32) = i" by (simp add: word_of_nat_unat_eq)
  then show "nbyte h i (name_upd f n g s) = (if h = f \<and> i < n then g i else nbyte h i s)"
    using name_upd_byte [OF assms, of "of_nat i"] \<open>i < 128\<close> by (simp add: nbyte_def)
qed

lemma name_upd_ok:
  assumes inv: "fmt_inv s" and f: "valid_ptr f s" "f \<noteq> Root" and nm: "name0 f s = 0" and n: "0 < n" "n \<le> 128" and g: "g 0 \<noteq> 0"
  shows "fmt_inv (name_upd f n g s)" and "grows {} s (name_upd f n g s)"
proof -
  let ?s = "name_upd f n g s"
  obtain c off where c: "f = At c off" using f(2) by (cases f) auto
  then have cf: "in_use c BLOCK_FILE s" using f(1) by (simp add: valid_ptr_def in_use_def)
  have dd: "ddata ?s b = ddata s b" if "b \<noteq> c" for b using that by (simp add: name_upd_def c)
  have old: "fget h k ?s = fget h k s" if "valid_ptr h s" "fld k" for h k using name_upd_old(1) [OF f(1) that(1) n(2)] that by simp
  have ind: "ddata ?s (unat (fget h fo_indirect s)) = ddata s (unat (fget h fo_indirect s))" if "valid_ptr h s" for h
    using fmt_invD(9) [OF inv that] cf by (intro dd) (auto simp: entry_ok_def ind_ok_def in_use_def)
  have ent: "entry_ok h ?s" if h: "valid_ptr h s" for h
  proof (cases "h = f")
    case False
    then show ?thesis
      using entry_ok_cong [OF fmt_invD(9) [OF inv h] old [OF h] _ ind [OF h]] name_upd_old(2) [OF f(1) h n(2)] by simp
  next
    case True
    have "fget f 132 s = 0" "fget f 176 s = 0" using fmt_invD(9) [OF inv f(1)] nm by (simp_all add: entry_ok_def)
    then show ?thesis using name_upd_old(2) [OF f(1) f(1) n(2)] g n old [OF f(1)] True by (simp add: entry_ok_def ind_ok_def)
  qed
  show "fmt_inv ?s"
  proof (rule fmt_invI)
    show "h = h'" if "valid_ptr h ?s" "valid_ptr h' ?s" "fget h fo_indirect ?s \<noteq> 0"
      "fget h fo_indirect ?s = fget h' fo_indirect ?s" for h h'
      using that fmt_invD(10) [OF inv, of h h'] old by (metis name_upd_frame(3) fld_simps(3))
    show "name0 Root ?s \<noteq> 0" using name_upd_old(2) [OF f(1) valid_Root n(2)] f(2) fmt_invD(7) [OF inv] by simp
  qed (use ent fmt_invD(1-8) [OF inv] dd cf in \<open>(auto simp: in_use_def; fail) | simp add: name_upd_def c\<close>)+
  have "keeps h s ?s" if "valid_ptr h s" "name0 h s \<noteq> 0" for h
    using that nm name_upd_old(2) [OF f(1) that(1) n(2)] old [OF that(1)] dir_bno_cong [OF old [OF that(1)] ind [OF that(1)]]
    by (intro keeps_same) auto
  moreover have "ddata ?s b = ddata s b" if "in_use b BLOCK_DATA s" for b
    using that cf by (intro dd) (auto simp: in_use_def)
  ultimately show "grows {} s ?s" by (simp add: grows_def)
qed

end
