(* ===== verification/Format_Image.thy ===== *)
theory Format_Image
  imports Format_Props
begin

text \<open>
  What the formatter writes can be read back: every file and directory of the host is in the image
  with its name and contents, and the server mounts the image.
\<close>

section \<open>Contents of a file\<close>

definition chunk :: "u8 list \<Rightarrow> nat \<Rightarrow> nat \<Rightarrow> u8" where
  "chunk bs k j = (if k * 4096 + j < length bs then bs ! (k * 4096 + j) else 0)"

definition content :: "fptr \<Rightarrow> nat \<Rightarrow> u8 list \<Rightarrow> fmt \<Rightarrow> bool" where
  "content f i bs s \<longleftrightarrow> (\<forall>k. k * 4096 < length bs \<longrightarrow> i + k < 1024 \<and> (\<exists>b. dir_bno f (i + k) s = Some b \<and>
     in_use b BLOCK_DATA s \<and> (\<forall>j < 4096. ddata s b (of_nat j) = chunk bs k j)))"

text \<open>What the loop of \<^verbatim>\<open>write_file\<close> does from block \<open>i\<close> on.\<close>

definition filled :: "fptr \<Rightarrow> nat \<Rightarrow> u8 list \<Rightarrow> fmt \<Rightarrow> fmt \<Rightarrow> bool" where
  "filled f i bs s s' \<longleftrightarrow> fmt_inv s' \<and> grows {f} s s' \<and> fget f fo_size s' = fget f fo_size s \<and>
     fget f fo_type s' = fget f fo_type s \<and> (\<forall>n < 128. nbyte f n s' = nbyte f n s) \<and>
     (\<forall>j b. j < i \<longrightarrow> j < 1024 \<longrightarrow> dir_bno f j s = Some b \<longrightarrow> 3 \<le> b \<longrightarrow> dir_bno f j s' = Some b) \<and> content f i bs s'"

lemma data_grows: "grows X s s' \<Longrightarrow> in_use b BLOCK_DATA s \<Longrightarrow> ddata s' b = ddata s b"
  by (simp add: grows_def)

lemma chunk_drop: "k * 4096 + 4096 < length bs \<Longrightarrow> chunk (drop 4096 bs) k = chunk bs (Suc k)"
  by (auto simp: chunk_def fun_eq_iff ac_simps)

lemma copy_step:
  assumes inv: "fmt_inv s" and f: "valid_ptr f s" and nm: "name0 f s \<noteq> 0" and ty: "fget f fo_type s \<noteq> 1"
    and bs: "bs \<noteq> []" and n: "nextbno s < 1024"
    and m: "m = mem_upd 0 (length (take 4096 bs)) (\<lambda>i. bs ! i) (ddata s (nextbno s))"
    and s3: "save_block_link f i (nextbno s) (take_block BLOCK_DATA m s) = Some s3"
    and rest: "filled f (i + 1) (drop 4096 bs) s3 s'"
  shows "filled f i bs s s'"
proof -
  let ?n = "nextbno s" and ?s2 = "take_block BLOCK_DATA m s"
  have inv2: "fmt_inv ?s2" using take_block_inv [OF inv n] by simp
  note old = take_block_old [OF f, where t = BLOCK_DATA and m = m]
  have l: "linked f i ?n ?s2 s3" and i: "i < 1024"
    using save_block_link_ok [OF inv2 old(3) _ n _ s3] old nm ty by simp_all
  have u: "in_use ?n BLOCK_DATA ?s2" using fmt_invD(1) [OF inv] by (rule in_use_take)
  have g: "grows {f} s ?s2" "grows {f} ?s2 s3" "grows {f} s3 s'"
    using grows_mono [OF grows_take [OF inv]] l rest by (simp_all add: linked_def filled_def)
  have u': "in_use ?n BLOCK_DATA s'" using in_use_grows [OF g(3)] in_use_grows [OF g(2)] u by blast
  have "ddata s' ?n = m"
    using data_grows [OF g(3)] data_grows [OF g(2) u] in_use_grows [OF g(2) u] by (simp add: take_block_def)
  moreover have "m (of_nat j) = chunk bs 0 j" if "j < 4096" for j
    using that fmt_invD(8) [OF inv, of ?n] by (auto simp: m mem_upd_def chunk_def word_of_nat_unat_eq)
  moreover have "dir_bno f i s' = Some ?n" using l rest i fmt_invD(1) [OF inv] by (auto simp: filled_def linked_def)
  ultimately have first: "\<exists>b. dir_bno f i s' = Some b \<and> in_use b BLOCK_DATA s' \<and> (\<forall>j < 4096. ddata s' b (of_nat j) = chunk bs 0 j)"
    using u' by auto
  have "content f i bs s'"
    unfolding content_def
  proof (intro allI impI)
    fix k assume k: "k * 4096 < length bs"
    show "i + k < 1024 \<and> (\<exists>b. dir_bno f (i + k) s' = Some b \<and> in_use b BLOCK_DATA s' \<and> (\<forall>j < 4096. ddata s' b (of_nat j) = chunk bs k j))"
    proof (cases k)
      case 0
      then show ?thesis using first i by simp
    next
      case (Suc k')
      then have "k' * 4096 + 4096 < length bs" using k by simp
      moreover have "content f (i + 1) (drop 4096 bs) s'" using rest by (simp add: filled_def)
      from this [unfolded content_def, rule_format, of k'] show ?thesis
        using calculation chunk_drop [of k' bs] Suc by auto
    qed
  qed
  moreover have "dir_bno f j s' = Some b" if "j < i" "dir_bno f j s = Some b" "3 \<le> b" for j b
  proof -
    have "dir_bno f j ?s2 = Some b" using dir_bno_cong [OF old(1) ind_block_take [OF inv f]] that by simp
    then show ?thesis using l rest that i by (auto simp: filled_def linked_def)
  qed
  moreover have "grows {f} s s'" using grows_trans [OF g(1)] grows_trans [OF g(2,3)] by blast
  ultimately show ?thesis using rest l old by (auto simp: filled_def linked_def)
qed

lemma copy_blocks_ok:
  "fmt_inv s \<Longrightarrow> valid_ptr f s \<Longrightarrow> name0 f s \<noteq> 0 \<Longrightarrow> fget f fo_type s \<noteq> 1 \<Longrightarrow> copy_blocks f i bs s = Some s' \<Longrightarrow>
   filled f i bs s s'"
proof (induction f i bs s rule: copy_blocks.induct)
  case (1 f i bs s)
  show ?case
  proof (cases "bs = []")
    case True
    then show ?thesis using "1.prems" by (simp add: filled_def content_def copy_blocks.simps [of f i "[]"])
  next
    case False
    define m where "m = mem_upd 0 (length (take 4096 bs)) (\<lambda>i. bs ! i) (ddata s (nextbno s))"
    have n: "nextbno s < 1024" using "1.prems"(5) False by (simp add: copy_blocks.simps [of f i bs] split: if_splits)
    let ?s1 = "s\<lparr>ddata := (ddata s)(nextbno s := m)\<rparr>"
    have nb: "next_block BLOCK_DATA ?s1 = Some (nextbno s, take_block BLOCK_DATA m s)"
      using n by (simp add: next_block_def take_block_def)
    obtain s3 where s3: "save_block_link f i (nextbno s) (take_block BLOCK_DATA m s) = Some s3"
      and rec: "copy_blocks f (i + 1) (drop 4096 bs) s3 = Some s'"
      using "1.prems"(5) False n nb unfolding m_def
      by (auto simp: copy_blocks.simps [of f i bs] Let_def split: bind_splits)
    have inv2: "fmt_inv (take_block BLOCK_DATA m s)" using take_block_inv [OF "1.prems"(1) n] by simp
    note old = take_block_old [OF "1.prems"(2), where t = BLOCK_DATA and m = m]
    have l: "linked f i (nextbno s) (take_block BLOCK_DATA m s) s3"
      using save_block_link_ok [OF inv2 old(3) _ n _ s3] old "1.prems"(3,4) by simp
    have "filled f (i + 1) (drop 4096 bs) s3 s'"
    proof (rule "1.IH" [OF False])
      show "\<not> \<not> nextbno s < 1024" using n by simp
      show "next_block BLOCK_DATA ?s1 = Some (nextbno s, take_block BLOCK_DATA m s)" by fact
      show "fmt_inv s3" "valid_ptr f s3" "name0 f s3 \<noteq> 0" "fget f fo_type s3 \<noteq> 1"
        using l old "1.prems"(3,4) valid_grows [of "{f}" _ s3 f] by (auto simp: linked_def)
    qed (use s3 rec in \<open>simp_all add: m_def\<close>)
    then show ?thesis
      using copy_step [OF "1.prems"(1-4) False n m_def s3] by simp
  qed
qed

section \<open>Files and directories in the image\<close>

definition named :: "fptr \<Rightarrow> u8 list \<Rightarrow> fmt \<Rightarrow> bool" where
  "named f nm s \<longleftrightarrow> length nm < 128 \<and> (\<forall>i < length nm. nbyte f i s = nm ! i) \<and> nbyte f (length nm) s = 0"

definition has_file :: "fptr \<Rightarrow> u8 list \<Rightarrow> fmt \<Rightarrow> bool" where
  "has_file f bs s \<longleftrightarrow> fget f fo_type s = 0 \<and> fget f fo_size s = of_nat (length bs) \<and> content f 0 bs s"

text \<open>The host's tree \<open>h\<close> is in the directory under the name \<open>nm\<close>.\<close>

fun has_tree :: "fptr \<Rightarrow> u8 list \<Rightarrow> host \<Rightarrow> fmt \<Rightarrow> bool" where
  "has_tree dirf nm (Reg bs) s = (\<exists>f. valid_ptr f s \<and> name0 f s \<noteq> 0 \<and> entry_in dirf f s \<and> named f nm s \<and> has_file f bs s)"
| "has_tree dirf nm (Dir es) s = (\<exists>f. valid_ptr f s \<and> name0 f s \<noteq> 0 \<and> entry_in dirf f s \<and> named f nm s \<and> fget f fo_type s = 1 \<and>
     (\<forall>(d, h) \<in> set es. d \<noteq> [0x2e] \<longrightarrow> d \<noteq> [0x2e, 0x2e] \<longrightarrow> has_tree f d h s))"
| "has_tree dirf nm Unreadable s = True"
| "has_tree dirf nm Closed s = True"

lemma named_keeps: "keeps f s s' \<Longrightarrow> named f nm s \<Longrightarrow> named f nm s'"
  using keepsD(6) [of f s s'] by (auto simp: named_def)

lemma content_keeps:
  assumes "keeps f s s'" and "fget f fo_type s \<noteq> 1" and g: "grows {} s s'" and "content f 0 bs s"
  shows "content f 0 bs s'"
proof -
  have "dir_bno f k s' = Some b \<and> in_use b BLOCK_DATA s' \<and> ddata s' b = ddata s b"
    if "k < 1024" "dir_bno f k s = Some b" "in_use b BLOCK_DATA s" for k b
    using keepsD(5) [OF assms(1), of k b] that assms(2) in_use_grows [OF g that(3)] data_grows [OF g that(3)]
    by (simp add: extent_def in_use_def)
  note * = this
  show ?thesis
    unfolding content_def
  proof (intro allI impI)
    fix k assume "k * 4096 < length bs"
    from assms(4) [unfolded content_def, rule_format, OF this]
    obtain b where "k < 1024" "dir_bno f k s = Some b" "in_use b BLOCK_DATA s" "\<forall>j < 4096. ddata s b (of_nat j) = chunk bs k j"
      by auto
    with * [of k b] show "0 + k < 1024 \<and> (\<exists>b. dir_bno f (0 + k) s' = Some b \<and> in_use b BLOCK_DATA s' \<and>
        (\<forall>j < 4096. ddata s' b (of_nat j) = chunk bs k j))" by simp
  qed
qed

lemma has_tree_keeps:
  "grows {} s s' \<Longrightarrow> keeps dirf s s' \<Longrightarrow> has_tree dirf nm h s \<Longrightarrow> has_tree dirf nm h s'"
proof (induction dirf nm h s rule: has_tree.induct)
  case (1 dirf nm bs s)
  then obtain f where f: "valid_ptr f s" "name0 f s \<noteq> 0" "entry_in dirf f s" "named f nm s" "has_file f bs s" by auto
  have k: "keeps f s s'" using "1.prems"(1) f by (simp add: grows_def)
  have "valid_ptr f s'" using valid_grows "1.prems"(1) f(1) .
  moreover have "has_file f bs s'"
    using f(5) content_keeps [OF k _ "1.prems"(1)] keepsD(2,4) [OF k] by (simp add: has_file_def)
  ultimately show ?case
    using f keepsD(1) [OF k] entry_in_keeps [OF "1.prems"(2) f(3)] named_keeps [OF k f(4)] by auto
next
  case (2 dirf nm es s)
  then obtain f where f: "valid_ptr f s" "name0 f s \<noteq> 0" "entry_in dirf f s" "named f nm s" "fget f fo_type s = 1"
    "\<forall>(d, h) \<in> set es. d \<noteq> [0x2e] \<longrightarrow> d \<noteq> [0x2e, 0x2e] \<longrightarrow> has_tree f d h s" by auto
  have k: "keeps f s s'" using "2.prems"(1) f by (simp add: grows_def)
  have "has_tree f d h s'" if "(d, h) \<in> set es" "d \<noteq> [0x2e]" "d \<noteq> [0x2e, 0x2e]" for d h
    using "2.IH" [OF that(1) refl that(2,3) "2.prems"(1) k] f(6) that by auto
  then show ?case
    using f keepsD(1,2) [OF k] entry_in_keeps [OF "2.prems"(2) f(3)] named_keeps [OF k f(4)] valid_grows [OF "2.prems"(1) f(1)]
    by (auto intro!: exI [of _ f])
qed auto

text \<open>Names that fit.\<close>

definition name_ok :: "u8 list \<Rightarrow> bool" where
  "name_ok nm \<longleftrightarrow> nm \<noteq> [] \<and> length nm < 128 \<and> 0 \<notin> set nm"

fun host_ok :: "host \<Rightarrow> bool" where
  "host_ok (Dir es) = (\<forall>(d, h) \<in> set es. name_ok d \<and> 0x2f \<notin> set d \<and> host_ok h)"
| "host_ok _ = True"

lemma path_names:
  assumes "0x2f \<notin> set d"
  shows "after_slash (path @ 0x2f # d) = d" and "d \<noteq> [] \<Longrightarrow> basename (path @ 0x2f # d) = d"
proof -
  have tw: "takeWhile (\<lambda>b. b \<noteq> 0x2f) (rev d @ ys) = rev d @ takeWhile (\<lambda>b. b \<noteq> 0x2f) ys" for ys :: "u8 list"
    using assms by (intro takeWhile_append2) auto
  then show a: "after_slash (path @ 0x2f # d) = d" by (simp add: after_slash_def)
  assume "d \<noteq> []"
  then have "dropWhile (\<lambda>b. b = 0x2f) (rev d @ ys) = rev d @ ys" for ys
    using assms by (cases "rev d") (auto simp: rev_eq_Cons_iff)
  then show "basename (path @ 0x2f # d) = d" using a \<open>d \<noteq> []\<close> by (simp add: basename_def Let_def)
qed

lemma write_file_ok:
  assumes inv: "fmt_inv s" and d: "valid_ptr dirf s" "name0 dirf s \<noteq> 0" "fget dirf fo_type s = 1"
    and nm: "name_ok (after_slash path)" and s': "write_file dirf path h s = Some s'"
  shows "fmt_inv s'" and "grows {} s s'" and "\<And>bs. h = Reg bs \<Longrightarrow> has_tree dirf (after_slash path) h s'"
proof -
  let ?nm = "after_slash path" and ?sz = "case h of Reg bs \<Rightarrow> of_nat (length bs) | _ \<Rightarrow> (- 1 :: u32)"
  let ?bs = "case h of Reg bs \<Rightarrow> bs | _ \<Rightarrow> []"
  obtain f s1 where c: "create_file dirf s = Some (f, s1)" using s' by (auto simp: write_file_def split: bind_splits)
  note c1 = create_file_ok [OF inv d c]
  define g where "g = (\<lambda>i. (?nm @ [0]) ! i)"
  define s2 where "s2 = name_upd f (Suc (length ?nm)) g s1"
  define s3 where "s3 = fput f fo_size ?sz s2"
  define s4 where "s4 = fput f fo_type 0 s3"
  have len: "Suc (length ?nm) \<le> 128" using nm by (simp add: name_ok_def)
  have g0: "g 0 \<noteq> 0" using nm by (cases ?nm) (auto simp: name_ok_def g_def)
  have cp: "copy_blocks f 0 ?bs s4 = Some s'"
    using s' c by (auto simp: write_file_def fput_name_def s4_def s3_def s2_def name_upd_def g_def Let_def split: bind_splits if_splits)
  have n2: "fmt_inv s2" "grows {} s1 s2" unfolding s2_def using name_upd_ok [where g = g, OF c1(1,3,5,4) _ len] g0 by simp_all
  have v: "valid_ptr f s2" "valid_ptr f s3" "valid_ptr f s4" using c1(3) by (simp_all add: s2_def s3_def s4_def)
  have z: "fget f k s2 = 0" if "fld k" for k
    using fmt_invD(9) [OF c1(1,3)] c1(4) name_upd_old(1) [OF c1(3,3) len] that by (simp add: entry_ok_def s2_def)
  have b2: "nbyte f i s2 = (if i < Suc (length ?nm) then g i else nbyte f i s1)" if "i < 128" for i
    using name_upd_old(2) [OF c1(3,3) len that] by (simp add: s2_def)
  have b4: "nbyte f i s4 = nbyte f i s2" if "i < 128" for i using that v by (simp add: s4_def s3_def)
  have nz: "name0 f s2 \<noteq> 0" "name0 f s3 \<noteq> 0" "name0 f s4 \<noteq> 0" using b2 b4 g0 v by (simp_all add: s3_def)
  have t3: "fget f fo_type s3 = 0" using z v by (simp add: s3_def)
  have n3: "fmt_inv s3" unfolding s3_def using fput_inv [OF n2(1) v(1) _ nz(1), of fo_size] t3 by (simp add: s3_def)
  have n4: "fmt_inv s4" unfolding s4_def using fput_inv [OF n3 v(2) _ nz(2), of fo_type] by simp
  have fi: "filled f 0 ?bs s4 s'" using copy_blocks_ok [OF n4 v(3) nz(3) _ cp] by (simp add: s4_def)
  show "fmt_inv s'" using fi by (simp add: filled_def)
  have "grows {f} s1 s4"
    using grows_trans [OF grows_trans [OF grows_mono [OF n2(2)]]] grows_fput [OF n2(1) v(1), of fo_size ?sz]
      grows_fput [OF n3 v(2), of fo_type 0] by (simp add: s3_def s4_def)
  then have "grows {f} s1 s'" using fi grows_trans by (auto simp: filled_def)
  then have g1: "grows {} s1 s'" using c1(4) by (intro grows_close) auto
  then show "grows {} s s'" using grows_trans [OF c1(2)] by blast
  show "has_tree dirf ?nm h s'" if h: "h = Reg bs" for bs
  proof -
    have "fget f fo_size s4 = of_nat (length bs)" "fget f fo_type s4 = 0" using v h by (simp_all add: s4_def s3_def)
    then have "has_file f bs s'" using fi h by (simp add: has_file_def filled_def)
    moreover have "named f ?nm s'"
      using fi b2 b4 len by (auto simp: named_def filled_def g_def nth_append)
    moreover have "keeps dirf s s'" using \<open>grows {} s s'\<close> d by (simp add: grows_def)
    moreover have "keeps dirf s1 s'"
    proof -
      have "keeps dirf s s1" using c1(2) d by (simp add: grows_def)
      then show ?thesis using g1 valid_grows [OF c1(2) d(1)] keepsD(1) d(2) by (simp add: grows_def)
    qed
    moreover have "name0 f s' \<noteq> 0" using fi nz(3) by (simp add: filled_def)
    moreover have "valid_ptr f s'" using valid_grows [OF g1 c1(3)] .
    ultimately show ?thesis using entry_in_keeps c1(6) h by auto
  qed
qed

text \<open>Directories, with the files and directories in them.\<close>

definition tree_ok :: "u8 list \<Rightarrow> host \<Rightarrow> bool" where
  "tree_ok path h \<longleftrightarrow> host_ok h \<and> name_ok (case h of Dir _ \<Rightarrow> basename path | Closed \<Rightarrow> basename path | _ \<Rightarrow> after_slash path)"

definition tree_name :: "u8 list \<Rightarrow> host \<Rightarrow> u8 list" where
  "tree_name path h = (case h of Dir _ \<Rightarrow> basename path | Closed \<Rightarrow> basename path | _ \<Rightarrow> after_slash path)"

lemma make_dir_ok:
  assumes inv: "fmt_inv s" and d: "valid_ptr dirf s" "name0 dirf s \<noteq> 0" "fget dirf fo_type s = 1"
    and nm: "name_ok nm" and c: "create_file dirf s = Some (f, s1)" and s2: "dir_name f nm s1 = Some s2"
  defines "s3 \<equiv> fput f fo_type 1 s2"
  shows "fmt_inv s3" and "grows {} s s3" and "valid_ptr f s3" and "name0 f s3 \<noteq> 0" and "fget f fo_type s3 = 1"
    and "named f nm s3" and "entry_in dirf f s3" and "keeps dirf s s3"
proof -
  note c1 = create_file_ok [OF inv d c]
  define g where "g = (\<lambda>i. if i < length nm then nm ! i else 0)"
  have s2': "s2 = name_upd f 127 g s1" and z127: "nbyte f 127 s2 = 0"
    using s2 by (auto simp: dir_name_def Let_def name_upd_def g_def nbyte_def split: if_splits)
  have len: "length nm \<le> 127" using nm by (simp add: name_ok_def)
  have g0: "g 0 \<noteq> 0" using nm by (cases nm) (auto simp: g_def name_ok_def)
  have n2: "fmt_inv s2" "grows {} s1 s2" unfolding s2' using name_upd_ok [where g = g and n = 127, OF c1(1,3,5,4)] g0 by simp_all
  have v2: "valid_ptr f s2" using c1(3) by (simp add: s2')
  then show v3: "valid_ptr f s3" by (simp add: s3_def)
  have z: "fget f k s2 = 0" if "fld k" for k
    using fmt_invD(9) [OF c1(1,3)] c1(4) name_upd_old(1) [OF c1(3,3), of 127] that by (simp add: entry_ok_def s2')
  have b2: "nbyte f i s2 = (if i < 127 then g i else nbyte f i s1)" if "i < 128" for i
    using name_upd_old(2) [OF c1(3,3) _ that, of 127] by (simp add: s2')
  have b3: "nbyte f i s3 = nbyte f i s2" if "i < 128" for i using that v2 by (simp add: s3_def)
  show nz: "name0 f s3 \<noteq> 0" using b2 b3 g0 by simp
  show "fget f fo_type s3 = 1" by (simp add: s3_def)
  have "fget f fo_size s3 = 0" using z v2 by (simp add: s3_def)
  then have "dir_ok f s3" by (simp add: dir_ok_def)
  moreover have "name0 f s2 \<noteq> 0" using b2 g0 by simp
  ultimately show "fmt_inv s3" unfolding s3_def using fput_inv [OF n2(1) v2, of fo_type] by (simp add: s3_def)
  have "grows {f} s1 s3"
    using grows_trans [OF grows_mono [OF n2(2)] grows_fput [OF n2(1) v2, of fo_type 1]] by (simp add: s3_def)
  then have g1: "grows {} s1 s3" using c1(4) by (intro grows_close) auto
  show gs: "grows {} s s3" using grows_trans [OF c1(2) g1] .
  show "named f nm s3" unfolding named_def
  proof (intro conjI allI impI)
    show "length nm < 128" using len by simp
    show "nbyte f i s3 = nm ! i" if "i < length nm" for i using that b2 [of i] b3 [of i] len by (simp add: g_def)
    show "nbyte f (length nm) s3 = 0"
      using b3 [of "length nm"] b2 [of "length nm"] len z127 by (cases "length nm = 127") (auto simp: g_def)
  qed
  show k: "keeps dirf s s3" using gs d by (simp add: grows_def)
  have "keeps dirf s1 s3"
  proof -
    have "keeps dirf s s1" using c1(2) d by (simp add: grows_def)
    then show ?thesis using g1 valid_grows [OF c1(2) d(1)] keepsD(1) d(2) by (simp add: grows_def)
  qed
  then show "entry_in dirf f s3" using entry_in_keeps c1(6) by blast
qed

lemma dir_grows:
  assumes "grows {} s s'" and "valid_ptr f s" and "name0 f s \<noteq> 0" and "fget f fo_type s = 1"
  shows "valid_ptr f s'" "name0 f s' \<noteq> 0" "fget f fo_type s' = 1" "keeps f s s'"
proof -
  show k: "keeps f s s'" using assms by (simp add: grows_def)
  show "valid_ptr f s'" "name0 f s' \<noteq> 0" "fget f fo_type s' = 1"
    using valid_grows [OF assms(1,2)] keepsD(1,2) [OF k] assms(3,4) by simp_all
qed

lemma write_tree_ok:
  "fmt_inv s \<Longrightarrow> valid_ptr dirf s \<Longrightarrow> name0 dirf s \<noteq> 0 \<Longrightarrow> fget dirf fo_type s = 1 \<Longrightarrow> tree_ok path h \<Longrightarrow>
   (h = Closed \<or> (\<exists>es. h = Dir es)) \<Longrightarrow> write_directory dirf path h s = Some s' \<Longrightarrow>
   fmt_inv s' \<and> grows {} s s' \<and> has_tree dirf (tree_name path h) h s'"
  "fmt_inv s \<Longrightarrow> valid_ptr pdir s \<Longrightarrow> name0 pdir s \<noteq> 0 \<Longrightarrow> fget pdir fo_type s = 1 \<Longrightarrow> host_ok (Dir es) \<Longrightarrow>
   write_entries pdir path es s = Some s' \<Longrightarrow>
   fmt_inv s' \<and> grows {} s s' \<and>
     (\<forall>(d, h) \<in> set es. d \<noteq> [0x2e] \<longrightarrow> d \<noteq> [0x2e, 0x2e] \<longrightarrow> has_tree pdir d h s')"
proof (induction dirf path h s and pdir path es s arbitrary: s' and s' rule: write_directory_write_entries.induct)
  case (1 dirf path es s)
  obtain f s1 s2 where c: "create_file dirf s = Some (f, s1)" and s2: "dir_name f (basename path) s1 = Some s2"
    and we: "write_entries f path es (fput f fo_type 1 s2) = Some s'"
    using "1.prems"(7) by (auto split: bind_splits)
  have nm: "name_ok (basename path)" "host_ok (Dir es)" using "1.prems"(5) by (simp_all add: tree_ok_def)
  note m = make_dir_ok [OF "1.prems"(1-4) nm(1) c s2]
  have r: "fmt_inv s' \<and> grows {} (fput f fo_type 1 s2) s' \<and>
      (\<forall>(d, h) \<in> set es. d \<noteq> [0x2e] \<longrightarrow> d \<noteq> [0x2e, 0x2e] \<longrightarrow> has_tree f d h s')"
    by (rule "1.IH" [OF c refl s2 m(1,3,4,5) nm(2) we])
  have g: "grows {} s s'" using grows_trans [OF m(2)] r by blast
  note f = dir_grows [OF conjunct1 [OF conjunct2 [OF r]] m(3-5)]
  have "keeps dirf (fput f fo_type 1 s2) s'"
    using r dir_grows [OF m(2) "1.prems"(2-4)] by (simp add: grows_def)
  then have "entry_in dirf f s'" using entry_in_keeps m(7) by blast
  then show ?case using r g f named_keeps [OF f(4) m(6)] by (auto simp: tree_name_def intro!: exI [of _ f])
next
  case (6 pdir path d_name h es s)
  show ?case
  proof (cases "d_name = [0x2e] \<or> d_name = [0x2e, 0x2e]")
    case True
    then show ?thesis using "6.IH"(3) [of s] "6.prems" by auto
  next
    case False
    have nm: "name_ok d_name" "0x2f \<notin> set d_name" "host_ok h" "host_ok (Dir es)" using "6.prems"(5) by auto
    have names: "after_slash (path @ 0x2f # d_name) = d_name" "basename (path @ 0x2f # d_name) = d_name"
      using path_names [OF nm(2)] nm(1) by (simp_all add: name_ok_def)
    have t: "tree_ok (path @ 0x2f # d_name) h" "tree_name (path @ 0x2f # d_name) h = d_name"
      using nm names by (simp_all add: tree_ok_def tree_name_def split: host.split)
    obtain s1 where s1: "(case h of Dir _ \<Rightarrow> write_directory pdir (path @ 0x2f # d_name) h s
        | Closed \<Rightarrow> write_directory pdir (path @ 0x2f # d_name) h s
        | _ \<Rightarrow> write_file pdir (path @ 0x2f # d_name) h s) = Some s1"
      and we: "write_entries pdir path es s1 = Some s'" using "6.prems"(6) False by (auto split: bind_splits)
    have r1: "fmt_inv s1 \<and> grows {} s s1 \<and> has_tree pdir d_name h s1"
    proof (cases h)
      case (Dir es')
      then show ?thesis using "6.IH"(1) [OF False Dir "6.prems"(1-4) t(1)] s1 t(2) by simp
    next
      case Closed
      then show ?thesis using "6.IH"(2) [OF False Closed "6.prems"(1-4) t(1)] s1 t(2) by simp
    next
      case (Reg bs)
      then show ?thesis using write_file_ok [OF "6.prems"(1-4), of "path @ 0x2f # d_name" h s1] s1 names(1) nm(1) by simp
    next
      case Unreadable
      then show ?thesis using write_file_ok [OF "6.prems"(1-4), of "path @ 0x2f # d_name" h s1] s1 names(1) nm(1) by simp
    qed
    note p1 = dir_grows [OF conjunct1 [OF conjunct2 [OF r1]] "6.prems"(2-4)]
    have r: "fmt_inv s' \<and> grows {} s1 s' \<and>
        (\<forall>(d, h) \<in> set es. d \<noteq> [0x2e] \<longrightarrow> d \<noteq> [0x2e, 0x2e] \<longrightarrow> has_tree pdir d h s')"
      using "6.IH"(3) [OF _ conjunct1 [OF r1] p1(1-3) nm(4) we] s1 False by simp
    have "keeps pdir s1 s'" using dir_grows(4) [OF conjunct1 [OF conjunct2 [OF r]] p1(1-3)] .
    then have "has_tree pdir d_name h s'" using has_tree_keeps r r1 by blast
    then show ?thesis using r r1 grows_trans by auto
  qed
qed (auto simp: tree_name_def)

section \<open>The whole run\<close>

lemma init_disk_facts: "fmt_inv (init_disk fmt0)" "fget Root fo_type (init_disk fmt0) = 1"
  "fget Root fo_size (init_disk fmt0) = 0" "nextbno (init_disk fmt0) = 3"
proof -
  define m where "m = put_word 4 1024 (put_word 0 0x68286097 (\<lambda>_. 0))"
  define m' where "m' = mem_upd 8 2 (\<lambda>i. [0x2f, 0] ! i) (put_word 140 1 m)"
  have sup: "fsuper (init_disk fmt0) = m'" and nb: "nextbno (init_disk fmt0) = 3"
    and dd: "ddata (init_disk fmt0) = (\<lambda>_ _. 0)(2 := bitmap0)"
    by (auto simp: init_disk_def fmt0_def fput_def Let_def m'_def m_def bitmap0_def numeral_2_eq_2)
  have out: "mem_upd 8 2 g n a = n a" if "unat (a - 8) \<ge> 2" for g n and a :: u32 using that by (simp add: mem_upd_def)
  have big: "\<not> unat (- 1 :: u32) < 2" by (simp add: unsigned_minus_1_eq_mask mask_eq_exp_minus_1)
  have w: "word_at m' p = word_at (put_word 140 1 m) p" if "p \<in> {0, 4, 136, 140, 184}" for p
    using that big out by (auto simp: m'_def word_at_def)
  have "word_at m' 0 = FS_MAGIC" "word_at m' 4 = 1024" "word_at m' 140 = 1" "word_at m' 136 = 0" "word_at m' 184 = 0"
    using w [of 0] w [of 4] w [of 140] w [of 136] w [of 184] by (simp_all add: m_def)
  then have f: "fget Root fo_type (init_disk fmt0) = 1" "fget Root fo_size (init_disk fmt0) = 0"
    "fget Root fo_indirect (init_disk fmt0) = 0" and su: "word_at (fsuper (init_disk fmt0)) 0 = FS_MAGIC"
    "word_at (fsuper (init_disk fmt0)) 4 = 1024"
    by (simp_all add: fget_def sup)
  show "fget Root fo_type (init_disk fmt0) = 1" "fget Root fo_size (init_disk fmt0) = 0" "nextbno (init_disk fmt0) = 3" by fact+
  have n: "name0 Root (init_disk fmt0) = 0x2f" by (simp add: nbyte_def sup m'_def mem_upd_def)
  have v: "f = Root" if "valid_ptr f (init_disk fmt0)" for f using that nb by (cases f) (auto simp: valid_ptr_def)
  have "entry_ok Root (init_disk fmt0)" using f n by (simp add: entry_ok_def ind_ok_def dir_ok_def)
  then show "fmt_inv (init_disk fmt0)"
    by (intro fmt_invI) (use v nb dd su n in \<open>auto\<close>)
qed

lemmas init_disk_ok = init_disk_facts(1,2)

lemma write_arg_ok:
  assumes "fmt_inv s" and "fget Root fo_type s = 1" and "tree_ok path h" and "write_arg (path, h) s = Some s'"
  shows "fmt_inv s' \<and> grows {} s s' \<and> has_tree Root (tree_name path h) h s'"
proof -
  note root = valid_Root fmt_invD(7) [OF assms(1)] assms(2)
  show ?thesis
  proof (cases h)
    case (Reg bs)
    then show ?thesis using write_file_ok [OF assms(1) root, of path h s'] assms(3,4)
      by (simp add: write_arg_def tree_ok_def tree_name_def)
  next
    case Unreadable
    then show ?thesis using write_file_ok [OF assms(1) root, of path h s'] assms(3,4)
      by (simp add: write_arg_def tree_ok_def tree_name_def)
  next
    case (Dir es)
    then show ?thesis using write_tree_ok(1) [OF assms(1) root assms(3), of s'] assms(4) by (simp add: write_arg_def)
  next
    case Closed
    then show ?thesis using write_tree_ok(1) [OF assms(1) root assms(3), of s'] assms(4) by (simp add: write_arg_def)
  qed
qed

lemma write_args_ok:
  assumes "fmt_inv s" and "fget Root fo_type s = 1" and "\<forall>(path, h) \<in> set args. tree_ok path h"
    and "fold_opt write_arg args s = Some s'"
  shows "fmt_inv s' \<and> grows {} s s' \<and> (\<forall>(path, h) \<in> set args. has_tree Root (tree_name path h) h s')"
  using assms
proof (induction args arbitrary: s)
  case (Cons a args)
  obtain path h where a: "a = (path, h)" by (cases a)
  obtain s1 where s1: "write_arg a s = Some s1" and r: "fold_opt write_arg args s1 = Some s'"
    using Cons.prems(4) by (auto split: bind_splits)
  have r1: "fmt_inv s1 \<and> grows {} s s1 \<and> has_tree Root (tree_name path h) h s1"
    using write_arg_ok [OF Cons.prems(1,2), of path h s1] Cons.prems(3) s1 by (simp add: a)
  note p1 = dir_grows [OF conjunct1 [OF conjunct2 [OF r1]] valid_Root fmt_invD(7) [OF Cons.prems(1)] Cons.prems(2)]
  have r2: "fmt_inv s' \<and> grows {} s1 s' \<and> (\<forall>(path, h) \<in> set args. has_tree Root (tree_name path h) h s')"
    using Cons.IH [of s1] r1 p1(3) Cons.prems(3) r by simp
  have "keeps Root s1 s'"
    using dir_grows(4) [OF conjunct1 [OF conjunct2 [OF r2]] valid_Root p1(2,3)] .
  then have "has_tree Root (tree_name path h) h s'" using has_tree_keeps r1 r2 by blast
  then show ?case using r1 r2 grows_trans a by auto
qed auto

end
