(* ===== verification/Format_Reverse.thy ===== *)
theory Format_Reverse
  imports Format
begin

text \<open>
  The reversal of words in \<^verbatim>\<open>tools/fsformat.c\<close> (\<^verbatim>\<open>CONFIG_REVERSE_ENDIAN\<close>): \<^verbatim>\<open>reverse_block\<close> exchanges the bytes
  of the words it names and of no other, and applying it twice gives the block back.  So an image
  that was written reversed, read by a machine of the other byte order, is the plain image.
\<close>

section \<open>One word\<close>

definition flip :: "u32 \<Rightarrow> u32" where
  "flip a = of_nat (unat a div 4 * 4 + (3 - unat a mod 4))"

lemma unat_flip: "unat (flip a) = unat a div 4 * 4 + (3 - unat a mod 4)"
proof -
  have "unat a div 4 * 4 + (3 - unat a mod 4) < 4294967296" using unat_lt_32 [of a] by presburger
  then show ?thesis unfolding flip_def by (intro word_of_nat_unat_eq) simp
qed

lemma flip_word [simp]: "unat (flip a) div 4 = unat a div 4"
  by (simp add: unat_flip)

lemma flip_flip [simp]: "flip (flip a) = a"
proof -
  have "unat (flip (flip a)) = unat a div 4 * 4 + (3 - unat (flip a) mod 4)" using unat_flip [of "flip a"] by simp
  moreover have "unat (flip a) mod 4 = 3 - unat a mod 4" unfolding unat_flip mod_mult_self3 by simp
  ultimately have "unat (flip (flip a)) = unat a"
    using div_mult_mod_eq [of "unat a" 4] mod_less_divisor [of 4 "unat a"] by linarith
  then show ?thesis by (simp add: word_unat_eq_iff)
qed

lemma block_by_word: "unat a < 4096 \<longleftrightarrow> unat a div 4 < 1024"
  by linarith

text \<open>The address of byte \<open>k\<close> of a word, and its counterpart.\<close>

lemma in_word:
  assumes p: "unat p = 4 * q" and a: "unat a div 4 = q"
  shows "a = p + of_nat (unat a mod 4)" and "flip a = p + of_nat (3 - unat a mod 4)"
proof -
  have u: "unat (p + of_nat k) = 4 * q + k" if "k < 4" for k
  proof -
    have "4 * q + k < 4294967296" using p unat_lt_32 [of p] that by presburger
    then show ?thesis using p that by (simp add: unat_word_ariths word_of_nat_unat_eq)
  qed
  have "unat a = 4 * q + unat a mod 4" using a div_mult_mod_eq [of "unat a" 4] by simp
  then show "a = p + of_nat (unat a mod 4)" using u [of "unat a mod 4"] by (simp add: word_unat_eq_iff)
  show "flip a = p + of_nat (3 - unat a mod 4)"
    using unat_flip [of a] a u [of "3 - unat a mod 4"] by (simp add: word_unat_eq_iff)
qed

lemma word_bytes:
  "ucast (word_at m p AND 0xFF) = m p" "ucast (drop_bit 8 (word_at m p) AND 0xFF) = m (p + 1)"
  "ucast (drop_bit 16 (word_at m p) AND 0xFF) = m (p + 2)" "ucast (drop_bit 24 (word_at m p) AND 0xFF) = m (p + 3)"
proof -
  have ff: "w AND 0xFF = take_bit 8 w" for w :: u32
  proof -
    have "(0xFF :: u32) = mask 8" by (simp add: mask_eq_exp_minus_1)
    then show ?thesis by (simp only: take_bit_eq_mask)
  qed
  show "ucast (word_at m p AND 0xFF) = m p" "ucast (drop_bit 8 (word_at m p) AND 0xFF) = m (p + 1)"
    "ucast (drop_bit 16 (word_at m p) AND 0xFF) = m (p + 2)" "ucast (drop_bit 24 (word_at m p) AND 0xFF) = m (p + 3)"
    unfolding ff by (rule bit_word_eqI; auto simp: word_at_def bit_simps dest: bit_imp_le_length)+
qed

lemma reverse_u_flip:
  assumes p: "unat p = 4 * q"
  shows "reverse_u p m a = m (if unat a div 4 = q then flip a else a)"
proof -
  have r: "reverse_u p m = m(p + 3 := m p, p + 2 := m (p + 1), p + 1 := m (p + 2), p := m (p + 3))"
    by (simp add: reverse_u_def Let_def word_bytes)
  show ?thesis
  proof (cases "unat a div 4 = q")
    case True
    have k: "unat a mod 4 = 0 \<or> unat a mod 4 = 1 \<or> unat a mod 4 = 2 \<or> unat a mod 4 = 3" by presburger
    show ?thesis
      using k in_word [OF p True] True unfolding r by (elim disjE) simp_all
  next
    case False
    have u: "unat (p + of_nat k) div 4 = q" if "k < 4" for k
    proof -
      have "4 * q + k < 4294967296" using p unat_lt_32 [of p] that by presburger
      then show ?thesis using p that by (simp add: unat_word_ariths word_of_nat_unat_eq)
    qed
    have "a \<noteq> p \<and> a \<noteq> p + 1 \<and> a \<noteq> p + 2 \<and> a \<noteq> p + 3"
      using False u [of 0] u [of 1] u [of 2] u [of 3] by auto
    then show ?thesis using False unfolding r by simp
  qed
qed

section \<open>The words of a file structure, of all files of a block, of a whole block\<close>

lemma fold_reverse_u:
  assumes "\<forall>k < n. unat (p k) = 4 * (q + k)"
  shows "fold (\<lambda>k. reverse_u (p k)) [0..<n] m a = m (if q \<le> unat a div 4 \<and> unat a div 4 < q + n then flip a else a)"
  using assms
proof (induction n arbitrary: a)
  case (Suc n)
  then show ?case using reverse_u_flip [of "p n" "q + n" "fold (\<lambda>k. reverse_u (p k)) [0..<n] m" a] by auto
qed auto

lemma reverse_file_flip:
  assumes ff: "unat ff = 4 * q" and "q < 1073741000"
  shows "reverse_file ff m a = m (if q + 32 \<le> unat a div 4 \<and> unat a div 4 < q + 45 then flip a else a)"
proof -
  have p: "unat (ff + of_nat (4 * k)) = 4 * (q + k)" if "k < 64" for k
    using that assms by (simp add: unat_word_ariths word_of_nat_unat_eq)
  have "\<forall>i < 10. unat (ff + fo_direct i) = 4 * (q + 34 + i)"
    using p [of "34 + i" for i] by (auto simp: algebra_simps)
  note d = fold_reverse_u [OF this]
  have "unat (ff + 128) = 4 * (q + 32)" "unat (ff + 132) = 4 * (q + 33)" "unat (ff + 176) = 4 * (q + 44)"
    using p [of 32] p [of 33] p [of 44] by simp_all
  note u = this [THEN reverse_u_flip]
  consider "unat a div 4 = q + 32" | "unat a div 4 = q + 33" | "q + 34 \<le> unat a div 4" "unat a div 4 < q + 44"
    | "unat a div 4 = q + 44" | "unat a div 4 < q + 32" | "q + 45 \<le> unat a div 4" by linarith
  then show ?thesis
    unfolding reverse_file_def u d by cases simp_all
qed

lemma file_word:
  fixes w k :: nat
  shows "64 * k + 32 \<le> w \<and> w < 64 * k + 45 \<longleftrightarrow> w div 64 = k \<and> 32 \<le> w mod 64 \<and> w mod 64 < 45"
proof -
  have w: "w = 64 * (w div 64) + w mod 64" by simp
  have "w div 64 = k" if "64 * k + 32 \<le> w" "w < 64 * k + 45" by (rule div_nat_eqI) (use that in simp_all)
  then show ?thesis using w by linarith
qed

lemma reverse_files_flip:
  assumes "n \<le> 16"
  shows "reverse_files [k..<n] m a = m (if k \<le> unat a div 4 div 64 \<and> unat a div 4 div 64 < n \<and>
      (\<forall>j. k \<le> j \<and> j \<le> unat a div 4 div 64 \<longrightarrow> m (of_nat j * 256) \<noteq> 0) \<and>
      32 \<le> unat a div 4 mod 64 \<and> unat a div 4 mod 64 < 45 then flip a else a)"
proof (induction "n - k" arbitrary: k m a)
  case 0
  then show ?case by auto
next
  case (Suc d)
  then have k: "k < n" "d = n - Suc k" by simp_all
  let ?w = "unat a div 4"
  have l: "[k..<n] = k # [Suc k..<n]" by (rule upt_conv_Cons [OF k(1)])
  show ?case
  proof (cases "m (of_nat k * 256) = 0")
    case True
    then show ?thesis unfolding l by auto
  next
    case False
    let ?m = "reverse_file (of_nat k * 256) m"
    have "unat (of_nat k * 256 :: u32) = 4 * (64 * k)" using k(1) assms by (simp add: unat_word_ariths word_of_nat_unat_eq)
    then have f: "?m c = m (if unat c div 4 div 64 = k \<and> 32 \<le> unat c div 4 mod 64 \<and> unat c div 4 mod 64 < 45 then flip c else c)" for c
    proof -
      have "64 * k + 32 \<le> unat c div 4 \<and> unat c div 4 < 64 * k + 45 \<longleftrightarrow>
        unat c div 4 div 64 = k \<and> 32 \<le> unat c div 4 mod 64 \<and> unat c div 4 mod 64 < 45"
        by (rule file_word)
      then show ?thesis
        using reverse_file_flip [OF \<open>unat (of_nat k * 256 :: u32) = 4 * (64 * k)\<close>, of m c] k(1) assms by simp
    qed
    have nm: "?m (of_nat j * 256) = m (of_nat j * 256)" if "j < 16" for j
    proof -
      have "unat (of_nat j * 256 :: u32) = 4 * (64 * j)" using that by (simp add: unat_word_ariths word_of_nat_unat_eq)
      then show ?thesis using f [of "of_nat j * 256"] by simp
    qed
    have "reverse_files [k..<n] m a = reverse_files [Suc k..<n] ?m a" using False by (simp add: l)
    also have "\<dots> = ?m (if Suc k \<le> ?w div 64 \<and> ?w div 64 < n \<and> (\<forall>j. Suc k \<le> j \<and> j \<le> ?w div 64 \<longrightarrow> ?m (of_nat j * 256) \<noteq> 0) \<and>
      32 \<le> ?w mod 64 \<and> ?w mod 64 < 45 then flip a else a)" by (rule Suc.hyps(1) [OF k(2)])
    finally have run: "reverse_files [k..<n] m a = \<dots>" .
    consider "?w div 64 = k" | "?w div 64 < k" | "n \<le> ?w div 64" | "k < ?w div 64" "?w div 64 < n" by linarith
    then show ?thesis
    proof cases
      case 1
      then have "(\<forall>j. k \<le> j \<and> j \<le> ?w div 64 \<longrightarrow> m (of_nat j * 256) \<noteq> 0)" using False by (metis le_antisym)
      then show ?thesis unfolding run using 1 k(1) f [of a] by simp
    next
      case 2
      then show ?thesis unfolding run using f [of a] by simp
    next
      case 3
      then show ?thesis unfolding run using f [of a] k(1) by simp
    next
      case 4
      have "?m (of_nat j * 256) = m (of_nat j * 256)" if "j \<le> ?w div 64" for j using nm [of j] that 4 assms by simp
      then have "(\<forall>j. Suc k \<le> j \<and> j \<le> ?w div 64 \<longrightarrow> ?m (of_nat j * 256) \<noteq> 0) \<longleftrightarrow>
          (\<forall>j. k \<le> j \<and> j \<le> ?w div 64 \<longrightarrow> m (of_nat j * 256) \<noteq> 0)"
        using False by (metis Suc_leI le_eq_less_or_eq Suc_leD)
      moreover have "?m a = m a" "?m (flip a) = m (flip a)" using f [of a] f [of "flip a"] 4 by simp_all
      ultimately show ?thesis unfolding run using 4 by simp
    qed
  qed
qed

text \<open>The bytes of a block that change places.\<close>

definition swapped :: "block_type \<Rightarrow> (u32 \<Rightarrow> u8) \<Rightarrow> u32 \<Rightarrow> bool" where
  "swapped t m a = (let w = unat a div 4 in case t of
     BLOCK_SUPER \<Rightarrow> w < 2 \<or> 34 \<le> w \<and> w < 47
   | BLOCK_FILE \<Rightarrow> w div 64 < 16 \<and> (\<forall>j \<le> w div 64. m (of_nat j * 256) \<noteq> 0) \<and> 32 \<le> w mod 64 \<and> w mod 64 < 45
   | BLOCK_INDEX \<Rightarrow> w < 1024 | BLOCK_BMAP \<Rightarrow> w < 1024 | _ \<Rightarrow> False)"

lemma reverse_words: "fold (\<lambda>i. reverse_u (of_nat i * 4)) [0..<1024] m a = m (if unat a div 4 < 1024 then flip a else a)"
proof -
  have "\<forall>k < 1024. unat (of_nat k * 4 :: u32) = 4 * (0 + k)" by (simp add: unat_word_ariths word_of_nat_unat_eq)
  from fold_reverse_u [OF this, of m a] show ?thesis by simp
qed

lemma reverse_block_flip: "reverse_block t m a = m (if swapped t m a then flip a else a)"
proof (cases t)
  case BLOCK_SUPER
  have f: "reverse_file 8 n c = n (if 34 \<le> unat c div 4 \<and> unat c div 4 < 47 then flip c else c)" for n c
    using reverse_file_flip [of 8 2 n c] by simp
  have u: "reverse_u 0 n c = n (if unat c div 4 = 0 then flip c else c)" "reverse_u 4 n c = n (if unat c div 4 = 1 then flip c else c)" for n c
    using reverse_u_flip [of 0 0 n c] reverse_u_flip [of 4 1 n c] by simp_all
  show ?thesis
    unfolding BLOCK_SUPER reverse_block_def block_type.case f u swapped_def Let_def
    by (cases "unat a div 4 = 0"; cases "unat a div 4 = 1") (simp_all del: One_nat_def)
next
  case BLOCK_FILE
  then show ?thesis
    using reverse_files_flip [of 16 0 m a] unfolding reverse_block_def swapped_def Let_def by (simp only: block_type.case) simp
qed (simp_all only: reverse_block_def swapped_def Let_def block_type.case reverse_words if_False)

text \<open>Reversing what was written reversed, of which only the bytes of the block count, gives the block.\<close>

lemma reverse_block_twice:
  assumes m': "\<And>c. unat c < 4096 \<Longrightarrow> m' c = reverse_block t m c" and a: "unat a < 4096"
  shows "reverse_block t m' a = m a"
proof -
  have nm: "m' (of_nat j * 256) = m (of_nat j * 256)" if "t = BLOCK_FILE" "j < 16" for j
  proof -
    have u: "unat (of_nat j * 256 :: u32) = 4 * (64 * j)" using that(2) by (simp add: unat_word_ariths word_of_nat_unat_eq)
    then have "\<not> swapped t m (of_nat j * 256)" using that(1) by (simp add: swapped_def)
    then show ?thesis using m' [of "of_nat j * 256"] u that(2) by (simp add: reverse_block_flip)
  qed
  have s: "swapped t m' c = swapped t m c" if "unat c < 4096" for c
  proof (cases t)
    case BLOCK_FILE
    have "unat c div 4 div 64 < 16" using that by (simp add: less_mult_imp_div_less)
    then show ?thesis using nm [OF BLOCK_FILE] by (auto simp: swapped_def Let_def BLOCK_FILE)
  qed (simp_all add: swapped_def)
  have fs: "swapped t m (flip a) = swapped t m a" by (simp add: swapped_def)
  have fb: "unat (flip a) < 4096" using a block_by_word [of a] block_by_word [of "flip a"] by simp
  have "reverse_block t m' a = m' (if swapped t m a then flip a else a)" by (simp add: reverse_block_flip s [OF a])
  also have "\<dots> = reverse_block t m (if swapped t m a then flip a else a)" using m' a fb by simp
  also have "\<dots> = m a" by (simp add: reverse_block_flip fs)
  finally show ?thesis .
qed

end
