(* ===== verification/Mount.thy ===== *)
theory Mount
  imports Fs_Props
begin

text \<open>
  Starting the native file system (\<^verbatim>\<open>fs_init\<close>: superblock, write test, bitmap) on a disk with a valid
  superblock and a bitmap of one block.
\<close>

declare blk_small [simp del]

section \<open>The cache of the first blocks\<close>

text \<open>The disk holds \<open>d\<close>, and the blocks 0 to 2 are cached with the contents \<open>C\<close> gives or not at all.\<close>

definition starting :: "image_set \<Rightarrow> (nat \<Rightarrow> (nat \<Rightarrow> u8) option) \<Rightarrow> fs_state \<Rightarrow> bool" where
  "starting d C s \<longleftrightarrow> disk_ok s \<and> (\<forall>n. \<not> oom s n) \<and> disks s = d \<and> bitmap s = 0 \<and>
     (\<forall>b < 3. case C b of None \<Rightarrow> \<not> va_is_mapped (blk_addr (of_nat b)) s
        | Some g \<Rightarrow> writable (blk_addr (of_nat b)) s \<and> (\<forall>i < 4096. umem s (blk_addr (of_nat b) + of_nat i) = g i))"

lemma startingD:
  assumes "starting d C s"
  shows "disk_ok s" "\<not> oom s n" "disks s = d" "bitmap s = 0"
    "b < 3 \<Longrightarrow> C b = None \<Longrightarrow> \<not> va_is_mapped (blk_addr (of_nat b)) s"
    "b < 3 \<Longrightarrow> C b = Some g \<Longrightarrow> writable (blk_addr (of_nat b)) s"
    "b < 3 \<Longrightarrow> C b = Some g \<Longrightarrow> va_is_mapped (blk_addr (of_nat b)) s"
    "b < 3 \<Longrightarrow> C b = Some g \<Longrightarrow> i < 4096 \<Longrightarrow> umem s (blk_addr (of_nat b) + of_nat i) = g i"
  using assms by (force simp: starting_def writable_def)+

lemma flags_super [simp]: "va_is_mapped va (s\<lparr>super := x\<rparr>) = va_is_mapped va s" "writable va (s\<lparr>super := x\<rparr>) = writable va s"
  "disk_ok (s\<lparr>super := x\<rparr>) = disk_ok s"
  by (simp_all add: disk_ok_def writable_def va_is_mapped_def)

lemma starting_super [simp]: "starting d C (s\<lparr>super := x\<rparr>) = starting d C s"
  by (auto simp: starting_def split: option.splits)

lemma small_no: "b < 3 \<Longrightarrow> unat (of_nat b :: u32) = b" "b < 3 \<Longrightarrow> unat (of_nat b :: u32) < NBLK"
  by (simp_all add: word_of_nat_unat_eq)

text \<open>A range at the start of one block, seen at a byte of another.\<close>

lemma upd_block:
  assumes "b < 3" and "c < 3" and "n \<le> 4096" and "i < 4096"
  shows "mem_upd (blk_addr (of_nat b)) n g m (blk_addr (of_nat c) + of_nat i) =
    (if b = c \<and> i < n then g i else m (blk_addr (of_nat c) + of_nat i))"
proof (cases "b = c")
  case True
  then show ?thesis using assms(4) by (simp add: mem_upd_def word_of_nat_unat_eq)
next
  case False
  have "upage (blk_addr (of_nat c) + of_nat i) \<noteq> upage (blk_addr (of_nat b))"
    using upage_blk [OF small_no(2) [OF assms(2)] assms(4)] upage_blk0 [OF small_no(2) [OF assms(1)]]
      small_no(1) [OF assms(1)] small_no(1) [OF assms(2)] False by simp
  then have "\<not> unat (blk_addr (of_nat c) + of_nat i - blk_addr (of_nat b)) < 4096"
    using in_block_iff [OF small_no(2) [OF assms(1)]] by blast
  then show ?thesis using assms(3) False by (simp add: mem_upd_def)
qed

lemma starting_upd:
  assumes st: "starting d C s" and b: "b < 3" "C b = Some h" and n: "n \<le> 4096"
  shows "starting d (C(b := Some (\<lambda>i. if i < n then g i else h i))) (s\<lparr>umem := mem_upd (blk_addr (of_nat b)) n g (umem s)\<rparr>)"
  unfolding starting_def
proof (intro conjI allI impI)
  fix c :: nat assume c: "c < 3"
  show "case (C(b := Some (\<lambda>i. if i < n then g i else h i))) c of
      None \<Rightarrow> \<not> va_is_mapped (blk_addr (of_nat c)) (s\<lparr>umem := mem_upd (blk_addr (of_nat b)) n g (umem s)\<rparr>)
    | Some k \<Rightarrow> writable (blk_addr (of_nat c)) (s\<lparr>umem := mem_upd (blk_addr (of_nat b)) n g (umem s)\<rparr>) \<and>
        (\<forall>i < 4096. umem (s\<lparr>umem := mem_upd (blk_addr (of_nat b)) n g (umem s)\<rparr>) (blk_addr (of_nat c) + of_nat i) = k i)"
    using startingD(5-8) [OF st c] startingD(6,8) [OF st b] upd_block [OF b(1) c n] by (auto split: option.split)
qed (use startingD(1-4) [OF st] in \<open>simp_all add: disk_ok_def\<close>)

lemma copy_block:
  assumes st: "starting d C s" and a: "a < 3" "C a = Some h" and b: "b < 3" "C b = Some g" and "a \<noteq> b"
  shows "\<exists>s'. ucopy (blk_addr (of_nat a)) (blk_addr (of_nat b)) 4096 s = Some s' \<and> starting d (C(a := Some g)) s' \<and> super s' = super s"
proof -
  have "4096 \<le> unat (blk_addr (of_nat b) + of_nat k - blk_addr (of_nat a))" if "k < 4096" for k
  proof -
    have "upage (blk_addr (of_nat b) + of_nat k) \<noteq> upage (blk_addr (of_nat a))"
      using upage_blk [OF small_no(2) [OF b(1)] that] upage_blk0 [OF small_no(2) [OF a(1)]]
        small_no(1) [OF a(1)] small_no(1) [OF b(1)] \<open>a \<noteq> b\<close> by simp
    then show ?thesis using in_block_iff [OF small_no(2) [OF a(1)]] not_le by blast
  qed
  then have "ucopy (blk_addr (of_nat a)) (blk_addr (of_nat b)) 4096 s =
      Some (s\<lparr>umem := mem_upd (blk_addr (of_nat a)) 4096 (\<lambda>k. umem s (blk_addr (of_nat b) + of_nat k)) (umem s)\<rparr>)"
    using startingD(6) [OF st a] startingD(7) [OF st b] block_flags(2) [OF small_no(2) [OF a(1)], of _ s]
      block_flags(1) [OF small_no(2) [OF b(1)], of _ s]
    by (intro ucopy_eq) auto
  moreover have "starting d (C(a := Some g)) (s\<lparr>umem := mem_upd (blk_addr (of_nat a)) 4096 (\<lambda>k. umem s (blk_addr (of_nat b) + of_nat k)) (umem s)\<rparr>)"
    using starting_upd [OF st a, of 4096 "\<lambda>k. umem s (blk_addr (of_nat b) + of_nat k)"] startingD(8) [OF st b]
    unfolding starting_def by (auto split: option.splits)
  ultimately show ?thesis by simp
qed

lemma load_block:
  assumes st: "starting d C s" and b: "b < 3" "C b = None"
    and sup: "super s = 0 \<or> (\<exists>n. s_nblocks s = Some n \<and> of_nat b < n)"
  shows "\<exists>r s'. read_block (of_nat b) s = Some (r, s') \<and> fst r = blk_addr (of_nat b) \<and>
    starting d (C(b := Some (\<lambda>i. d 0 (b * 4096 + i)))) s' \<and> super s' = super s"
proof -
  note B = small_no(2) [OF b(1)]
  obtain s' where s': "ide_read 0 (of_nat b * 8) (blk_addr (of_nat b)) 8 (snd (syscall_mem_alloc (blk_addr (of_nat b)) PTE_D s)) = Some s'"
    "umem s' = mem_upd (blk_addr (of_nat b)) 4096 (\<lambda>i. disks s 0 (b * 4096 + i)) (umem s)"
    "disks s' = disks s" "uperm s' = (uperm s)(65536 + b := PTE_D OR PTE_V)" "disk_ok s'" "fsst.more s' = fsst.more s" "oom s' = oom s"
    using load_block_ok [OF startingD(1) [OF st] B] startingD(2) [OF st] small_no(1) [OF b(1)] by auto
  have rd: "read_block (of_nat b) s = Some ((blk_addr (of_nat b), True), s')"
    using sup startingD(4,5) [OF st] b s'(1) diskaddr_blk [OF B] by (auto simp: read_block_def)
  have fl: "writable (blk_addr (of_nat c)) s' = (if c = b then True else writable (blk_addr (of_nat c)) s)"
    "va_is_mapped (blk_addr (of_nat c)) s' = (if c = b then True else va_is_mapped (blk_addr (of_nat c)) s)" if "c < 3" for c
    using upage_blk0 [OF small_no(2) [OF that]] small_no(1) [OF that] by (auto simp: writable_def va_is_mapped_def s'(4))
  have "starting d (C(b := Some (\<lambda>i. d 0 (b * 4096 + i)))) s'"
    unfolding starting_def
  proof (intro conjI allI impI)
    fix c :: nat assume c: "c < 3"
    show "case (C(b := Some (\<lambda>i. d 0 (b * 4096 + i)))) c of None \<Rightarrow> \<not> va_is_mapped (blk_addr (of_nat c)) s'
      | Some k \<Rightarrow> writable (blk_addr (of_nat c)) s' \<and> (\<forall>i < 4096. umem s' (blk_addr (of_nat c) + of_nat i) = k i)"
      using startingD(3,5-8) [OF st] c fl [OF c] upd_block [OF b(1) c order_refl] by (auto simp: s'(2) split: option.split)
  qed (use startingD(1-4) [OF st] s' more_fs [OF s'(6)] in simp_all)
  then show ?thesis using rd more_fs [OF s'(6)] by auto
qed

lemma store_block:
  assumes st: "starting d C s" and b: "b < 3" "C b = Some g"
  shows "\<exists>s'. write_block (of_nat b) s = Some s' \<and> starting (d(0 := img_upd (b * 4096) 4096 g (d 0))) C s' \<and> super s' = super s"
proof -
  obtain s' where s': "write_block (of_nat b) s = Some s'" "io_step (umem s) (put_block (of_nat b) s) s s'"
    using write_block_ok [OF startingD(1) [OF st] small_no(2) [OF b(1)] startingD(7) [OF st b]] by auto
  have "img_upd p 4096 (\<lambda>i. umem s (blk_addr (of_nat b) + of_nat i)) m = img_upd p 4096 g m" for p m
    using startingD(8) [OF st b] by (intro ext) (auto simp: img_upd_def simp del: of_nat_diff)
  then have "put_block (of_nat b) s = d(0 := img_upd (b * 4096) 4096 g (d 0))"
    using startingD(3) [OF st] small_no(1) [OF b(1)] by (simp add: put_block_def)
  then have "starting (d(0 := img_upd (b * 4096) 4096 g (d 0))) C s'"
    using st io_stepD [OF s'(2)] more_fs [of s' s] s'(2) unfolding starting_def
    by (auto simp: io_step_def split: option.splits)
  then show ?thesis using s' io_stepD(8) [OF s'(2)] more_fs [of s' s] by auto
qed

section \<open>The three steps\<close>

definition disk_word :: "image_set \<Rightarrow> nat \<Rightarrow> u32" where
  "disk_word d p = word_at (\<lambda>a. d 0 (p + unat a)) 0"

lemma cached_word:
  assumes "starting d C s" and "b < 3" and "C b = Some g" and "k + 3 < 4096" and "k mod 4 = 0"
  shows "uldw (blk_addr (of_nat b) + of_nat k) s = Some (word_at (\<lambda>a. g (k + unat a)) 0)"
proof -
  have "(268435456 + b * 4096 + k) mod 4 = 0" using assms(5) by presburger
  then have "unat (blk_addr (of_nat b) + of_nat k) mod 4 = 0"
    using unat_blk_addr [OF small_no(2) [OF assms(2)], of k] assms(4) small_no(1) [OF assms(2)] by simp
  moreover have "umem s (blk_addr (of_nat b) + of_nat k + of_nat j) = g (k + j)" if "j < 4" for j
    using startingD(8) [OF assms(1-3), of "k + j"] assms(4) that by (simp add: add.assoc)
  from this [of 0] this [of 1] this [of 2] this [of 3]
  have "word_at (umem s) (blk_addr (of_nat b) + of_nat k) = word_at (\<lambda>a. g (k + unat a)) 0"
    by (simp add: word_at_def add.assoc)
  ultimately show ?thesis
    using startingD(7) [OF assms(1-3)] block_flags(1) [OF small_no(2) [OF assms(2)], of k s] assms(4) by (simp add: uldw_def)
qed

lemma blk_no [simp]: "blk_addr (of_nat 0) = blk_addr 0" "blk_addr (of_nat 1) = blk_addr 1" "blk_addr (of_nat 2) = blk_addr 2"
  by simp_all

lemma read_super_ok:
  assumes st: "starting d C s" and "C 1 = None" and "super s = 0"
    and magic: "disk_word d 4096 = FS_MAGIC" and n: "disk_word d 4100 = n" "n \<le> 262144"
  shows "\<exists>s'. read_super s = Some s' \<and> starting d (C(1 := Some (\<lambda>i. d 0 (4096 + i)))) s' \<and> super s' = blk_addr 1"
proof -
  obtain r s1 where s1: "read_block 1 s = Some (r, s1)" "fst r = blk_addr 1"
    "starting d (C(1 := Some (\<lambda>i. d 0 (4096 + i)))) s1" using load_block [OF st, of 1] assms by auto
  have st1: "starting d (C(1 := Some (\<lambda>i. d 0 (4096 + i)))) (s1\<lparr>super := blk_addr 1\<rparr>)" using s1(3) by simp
  have "uldw (blk_addr 1) (s1\<lparr>super := blk_addr 1\<rparr>) = Some FS_MAGIC" "uldw (blk_addr 1 + 4) (s1\<lparr>super := blk_addr 1\<rparr>) = Some n"
    using cached_word [OF st1, of 1 _ 0] cached_word [OF st1, of 1 _ 4] magic n(1)
    by (simp_all add: disk_word_def add.assoc [symmetric])
  moreover have "read_super s = Some (s1\<lparr>super := blk_addr 1\<rparr>)"
    using s1(1,2) calculation n(2) by (cases r) (simp add: read_super_def s_nblocks_def Let_def)
  ultimately show ?thesis using st1 by simp
qed

lemma img_restore: "img_upd p n (\<lambda>i. m (p + i)) (img_upd p n g m) = m"
  by (rule ext) (simp add: img_upd_def)

lemma check_write_block_ok:
  assumes st: "starting d C s" and C: "C 0 = None" "C 1 = Some (\<lambda>i. d 0 (4096 + i))"
  shows "\<exists>s' C'. check_write_block s = Some s' \<and> starting d C' s' \<and> C' 1 = C 1 \<and> C' 2 = C 2 \<and> super s' = blk_addr 1"
proof -
  let ?one = "\<lambda>i. d 0 (4096 + i)" and ?t = "\<lambda>i. if i < 7 then test_bytes ! i else d 0 (4096 + i)"
  have sn: "blk_addr 0 = blk_addr (of_nat 0)" "blk_addr 1 = blk_addr (of_nat 1)" by simp_all
  obtain r s1 where s1: "read_block 0 (s\<lparr>super := 0\<rparr>) = Some (r, s1)" "starting d (C(0 := Some (\<lambda>i. d 0 i))) s1" "super s1 = 0"
    using load_block [of d C "s\<lparr>super := 0\<rparr>" 0] st C by auto
  obtain s2 where s2: "ucopy (blk_addr 0) (blk_addr 1) 4096 s1 = Some s2" "starting d (C(0 := Some ?one)) s2" "super s2 = 0"
    using copy_block [OF s1(2), of 0 _ 1] C(2) s1(3) by auto
  let ?s3 = "s2\<lparr>umem := mem_upd (blk_addr 1) 7 ((!) test_bytes) (umem s2)\<rparr>"
  have len: "length test_bytes = 7" by (simp add: test_bytes_def)
  have "ust_list (blk_addr 1) test_bytes s2 = Some ?s3"
    using ust_list_eq [of test_bytes "blk_addr 1" s2] startingD(6) [OF s2(2), of 1] C(2)
      block_flags(2) [of 1 _ s2] by (simp add: len)
  moreover have st3: "starting d (C(0 := Some ?one, 1 := Some ?t)) ?s3"
    using starting_upd [OF s2(2), of 1 ?one 7 "(!) test_bytes"] C(2) by simp
  obtain s4 where s4: "write_block 1 ?s3 = Some s4"
    "starting (d(0 := img_upd 4096 4096 ?t (d 0))) (C(0 := Some ?one, 1 := Some ?t)) s4" "super s4 = 0"
    using store_block [OF st3, of 1 ?t] s2(3) by auto
  let ?s5 = "snd (syscall_mem_unmap (blk_addr 1) s4)"
  have s5: "?s5 = s4\<lparr>uperm := (uperm s4)(65537 := 0)\<rparr>"
    using blk_legal [of 1] upage_blk0 [of 1] by (simp add: syscall_mem_unmap_def)
  have fl5: "writable (blk_addr (of_nat c)) ?s5 = (c \<noteq> 1 \<and> writable (blk_addr (of_nat c)) s4)"
    "va_is_mapped (blk_addr (of_nat c)) ?s5 = (c \<noteq> 1 \<and> va_is_mapped (blk_addr (of_nat c)) s4)" if "c < 3" for c
    using upage_blk0 [OF small_no(2) [OF that]] small_no(1) [OF that] by (auto simp: s5 writable_def va_is_mapped_def)
  have st5: "starting (d(0 := img_upd 4096 4096 ?t (d 0))) (C(0 := Some ?one, 1 := None)) ?s5"
    unfolding starting_def
  proof (intro conjI allI impI)
    fix c :: nat assume c: "c < 3"
    show "case (C(0 := Some ?one, 1 := None)) c of None \<Rightarrow> \<not> va_is_mapped (blk_addr (of_nat c)) ?s5
      | Some k \<Rightarrow> writable (blk_addr (of_nat c)) ?s5 \<and> (\<forall>i < 4096. umem ?s5 (blk_addr (of_nat c) + of_nat i) = k i)"
      using startingD(5,6,8) [OF s4(2) c] fl5 [OF c] by (auto simp: s5 split: option.split if_splits)
  qed (use startingD(1-4) [OF s4(2)] in \<open>simp_all add: s5 disk_ok_def\<close>)
  obtain r6 s6 where s6: "read_block 1 ?s5 = Some (r6, s6)" "super s6 = 0"
    "starting (d(0 := img_upd 4096 4096 ?t (d 0))) (C(0 := Some ?one, 1 := Some (\<lambda>i. img_upd 4096 4096 ?t (d 0) (4096 + i)))) s6"
    using load_block [OF st5, of 1] s4(3) by (auto simp: s5)
  have byte6: "umem s6 (blk_addr 1 + of_nat i) = test_bytes ! i" if "i < 7" for i
    using startingD(8) [OF s6(3), of 1 _ i] that by (simp add: img_upd_def)
  have "uld_list (blk_addr 1) 7 s6 = Some (map (\<lambda>i. umem s6 (blk_addr 1 + of_nat i)) [0..<7])"
    using uld_list_eq [of 7 "blk_addr 1" s6] startingD(7) [OF s6(3), of 1] block_flags(1) [of 1 _ s6] by simp
  moreover have "map (\<lambda>i. umem s6 (blk_addr 1 + of_nat i)) [0..<7] = test_bytes"
    by (rule nth_equalityI) (use byte6 len in simp_all)
  ultimately have ul: "uld_list (blk_addr 1) 7 s6 = Some test_bytes" by simp
  obtain s7 where s7: "ucopy (blk_addr 1) (blk_addr 0) 4096 s6 = Some s7" "super s7 = 0"
    "starting (d(0 := img_upd 4096 4096 ?t (d 0))) (C(0 := Some ?one, 1 := Some ?one)) s7"
    using copy_block [OF s6(3), of 1 _ 0] s6(2) by auto
  obtain s8 where s8: "write_block 1 s7 = Some s8" "starting d (C(0 := Some ?one, 1 := Some ?one)) s8"
    using store_block [OF s7(3), of 1 ?one] img_restore [of 4096 4096 "d 0"] by auto
  have m4: "block_is_mapped 1 s4 = Some (blk_addr 1)" "block_is_mapped 1 ?s5 = Some 0"
    using startingD(7) [OF s4(2), of 1] startingD(5) [OF st5, of 1] diskaddr_blk [of 1] by (simp_all add: block_is_mapped_def)
  have "check_write_block s = Some (s8\<lparr>super := blk_addr 1\<rparr>)"
    using diskaddr_blk [of 0] diskaddr_blk [of 1] s1(1) s2(1) s4(1) s6(1) s7(1) s8(1) ul m4 blk_addr_nz [of 1]
      \<open>ust_list (blk_addr 1) test_bytes s2 = Some ?s3\<close>
    by (simp add: check_write_block_def Let_def)
  then show ?thesis
    using s8(2) C(2) by (intro exI [of _ "s8\<lparr>super := blk_addr 1\<rparr>"] exI [of _ "C(0 := Some ?one, 1 := Some ?one)"]) simp
qed

text \<open>The bit of a block in the bitmap on the disk.\<close>

definition disk_free :: "image_set \<Rightarrow> nat \<Rightarrow> bool" where
  "disk_free d b \<longleftrightarrow> bit (disk_word d (8192 + b div 32 * 4)) (b mod 32)"

lemma read_bitmap_ok:
  assumes st: "starting d C s" and C: "C 1 = Some (\<lambda>i. d 0 (4096 + i))" "C 2 = None" and sup: "super s = blk_addr 1"
    and n: "disk_word d 4100 = n" "2 < n" "n < 32768" and used: "\<forall>b < 3. \<not> disk_free d b"
  shows "\<exists>s'. read_bitmap s = Some s' \<and> fs_ok n s' \<and> disks s' = d \<and> (\<forall>b < unat n. is_free s' b = disk_free d b)"
proof -
  have sn: "s_nblocks s = Some n"
    using cached_word [OF st, of 1 _ 4] C(1) n(1) sup by (simp add: s_nblocks_def disk_word_def add.assoc [symmetric])
  obtain r s1 where s1: "read_block 2 s = Some (r, s1)" "starting d (C(2 := Some (\<lambda>i. d 0 (8192 + i)))) s1" "super s1 = blk_addr 1"
    using load_block [OF st, of 2] C(2) sup sn n(2) by auto
  let ?s2 = "s1\<lparr>bitmap := blk_addr 2\<rparr>"
  have fl: "writable va ?s2 = writable va s1" "va_is_mapped va ?s2 = va_is_mapped va s1" for va
    by (simp_all add: writable_def va_is_mapped_def)
  have nb: "unat n < 32768" "unat (n div 32768 + 1) = 1" using n(3) by (simp_all add: word_less_nat_alt unat_div unat_word_ariths)
  have "s_nblocks s1 = Some n"
    using cached_word [OF s1(2), of 1 _ 4] C(1) n(1) s1(3) by (simp add: s_nblocks_def disk_word_def add.assoc [symmetric])
  then have "s_nblocks ?s2 = Some n" by (simp add: s_nblocks_def uldw_def fl split: if_splits)
  moreover have "disk_ok ?s2" using startingD(1) [OF s1(2)] by (simp add: disk_ok_def)
  moreover have "writable (blk_addr 2) ?s2" using startingD(6) [OF s1(2), of 2] by (simp add: fl)
  ultimately have ok: "fs_ok n ?s2" using s1(3) nb(1) by (simp add: fs_ok_def)
  have fr: "is_free ?s2 b = disk_free d b" if "b < unat n" for b
  proof -
    have "b div 32 < 1024" using that nb(1) by (simp add: less_mult_imp_div_less)
    then have "uldw (blk_addr (of_nat 2) + of_nat (b div 32 * 4)) s1 = Some (word_at (\<lambda>a. d 0 (8192 + (b div 32 * 4 + unat a))) 0)"
      by (intro cached_word [OF s1(2)]) auto
    then have "word_at (umem s1) (bit_addr b) = disk_word d (8192 + b div 32 * 4)"
      by (simp add: uldw_def bit_addr_def disk_word_def add.assoc split: if_splits)
    then show ?thesis by (simp add: is_free_def disk_free_def)
  qed
  have free: "block_is_free (of_nat b) ?s2 = Some False" if "b < 3" for b
  proof -
    have "of_nat b < n" using n(2) that small_no(1) [OF that] by (simp add: word_less_nat_alt)
    then show ?thesis using block_is_free_eq [OF ok] fr [of b] used that small_no(1) [OF that] by (simp add: word_less_nat_alt)
  qed
  have "read_bitmap s = Some ?s2"
    using sn nb(2) s1(1) diskaddr_blk [of 2] free [of 0] free [of 1] free [of 2] by (simp add: read_bitmap_def Let_def)
  then show ?thesis using ok fr startingD(3) [OF s1(2)] by simp
qed

lemma fs_init_ok:
  assumes st: "starting d (\<lambda>_. None) s" and "super s = 0" and magic: "disk_word d 4096 = FS_MAGIC"
    and n: "disk_word d 4100 = n" "2 < n" "n < 32768" and used: "\<forall>b < 3. \<not> disk_free d b"
  shows "\<exists>s'. fs_init s = Some s' \<and> fs_ok n s' \<and> disks s' = d \<and> (\<forall>b < unat n. is_free s' b = disk_free d b)"
proof -
  have "n \<le> 262144" using n(3) by (simp add: word_less_nat_alt word_le_nat_alt)
  then obtain s1 where s1: "read_super s = Some s1" "starting d ((\<lambda>_. None)(1 := Some (\<lambda>i. d 0 (4096 + i)))) s1" "super s1 = blk_addr 1"
    using read_super_ok [OF st refl assms(2) magic n(1)] by blast
  obtain s2 C where s2: "check_write_block s1 = Some s2" "starting d C s2" "C 1 = Some (\<lambda>i. d 0 (4096 + i))" "C 2 = None" "super s2 = blk_addr 1"
    using check_write_block_ok [OF s1(2)] by auto
  show ?thesis
    using read_bitmap_ok [OF s2(2-5) n used] s1(1) s2(1) by (auto simp: fs_init_def)
qed

end
