(* ===== verification/Format_Mount.thy ===== *)
theory Format_Mount
  imports Format_Image Format_Reverse Mount
begin

text \<open>
  The image as a sequence of bytes: the bitmap marks exactly the blocks taken, the host's trees are
  found in it, and the file server starts on it.
\<close>

section \<open>The bitmap\<close>

definition free_bit :: "(u32 \<Rightarrow> u8) \<Rightarrow> nat \<Rightarrow> bool" where
  "free_bit m b \<longleftrightarrow> bit (word_at m (of_nat (b div 32 * 4))) (b mod 32)"

definition clear_bit :: "nat \<Rightarrow> (u32 \<Rightarrow> u8) \<Rightarrow> u32 \<Rightarrow> u8" where
  "clear_bit i m = (let p = of_nat (i div 32 * 4) in put_word p (word_at m p AND NOT (push_bit (i mod 32) 1)) m)"

lemma word_no: "b < 1024 \<Longrightarrow> unat (of_nat (b div 32 * 4) :: u32) = b div 32 * 4"
  by (rule word_of_nat_unat_eq) simp

lemma clear_bit_ok:
  assumes "i < 1024" and "b < 1024"
  shows "free_bit (clear_bit i m) b \<longleftrightarrow> b \<noteq> i \<and> free_bit m b"
proof (cases "b div 32 = i div 32")
  case True
  then have "b = i \<longleftrightarrow> b mod 32 = i mod 32" by (metis div_mult_mod_eq)
  then show ?thesis using True by (auto simp: free_bit_def clear_bit_def Let_def bit_simps)
next
  case False
  then have "(of_nat (b div 32 * 4) :: u32) \<noteq> of_nat (i div 32 * 4)"
    using word_no [OF assms(1)] word_no [OF assms(2)] by (auto simp: word_unat_eq_iff)
  then show ?thesis
    using False word_no [OF assms(1)] word_no [OF assms(2)] by (auto simp: free_bit_def clear_bit_def Let_def)
qed

lemma bitmap0_free: "b < 1024 \<Longrightarrow> free_bit bitmap0 b"
proof -
  assume b: "b < 1024"
  define p where "p = (of_nat (b div 32 * 4) :: u32)"
  have "b div 32 < 32" using b by (simp add: less_mult_imp_div_less)
  then have "unat p + 3 < 128" using word_no [OF b] by (simp add: p_def)
  then have "unat (p + of_nat j) = unat p + j" if "j < 4" for j
    using that by (simp add: unat_word_ariths word_of_nat_unat_eq)
  then have "bitmap0 (p + of_nat j) = 0xff" if "j < 4" for j
    using that \<open>unat p + 3 < 128\<close> by (auto simp: bitmap0_def mem_upd_def unat_sub_if_size word_size)
  from this [of 0] this [of 1] this [of 2] this [of 3] have "word_at bitmap0 p = 0xffffffff" by (simp add: word_at_def)
  moreover have "(0xffffffff :: u32) = - 1" by simp
  then have "bit (0xffffffff :: u32) (b mod 32)" by (simp only: bit_minus_1_iff) simp
  ultimately show ?thesis by (simp add: free_bit_def p_def)
qed

lemma flush_bit_eq: "i < 1024 \<Longrightarrow> flush_bit i s = s\<lparr>ddata := (ddata s)(2 := clear_bit i (ddata s 2))\<rparr>"
  by (simp add: flush_bit_def clear_bit_def Let_def)

lemma flush_upto: "n \<le> 1024 \<Longrightarrow> fold flush_bit [0..<n] s = s\<lparr>ddata := (ddata s)(2 := fold clear_bit [0..<n] (ddata s 2))\<rparr>"
  by (induction n) (simp_all add: flush_bit_eq)

lemma clear_bits: "n \<le> 1024 \<Longrightarrow> b < 1024 \<Longrightarrow> free_bit (fold clear_bit [0..<n] bitmap0) b \<longleftrightarrow> n \<le> b"
proof (induction n)
  case (Suc n)
  then show ?case using clear_bit_ok [of n b "fold clear_bit [0..<n] bitmap0"] by auto
qed (simp add: bitmap0_free)

section \<open>The image\<close>

definition img_block :: "(nat \<Rightarrow> u8) \<Rightarrow> nat \<Rightarrow> u32 \<Rightarrow> u8" where
  "img_block img b a = img (b * 4096 + unat a)"

lemma img_block_eq:
  assumes "unat a < 4096"
  shows "img_block (finish_fs False (flush_bitmap s)) b a =
    (if b = 1 \<and> unat a < 264 then fsuper (flush_bitmap s) a else ddata (flush_bitmap s) b a)"
proof -
  have "(b * 4096 + unat a) div 4096 = b" "(b * 4096 + unat a) mod 4096 = unat a" using assms by simp_all
  then show ?thesis by (simp add: img_block_def finish_fs_def Let_def mem_upd_def)
qed

text \<open>What the image holds when the state before \<^verbatim>\<open>flush_bitmap\<close> satisfies the invariant.\<close>

lemma image_ok:
  assumes inv: "fmt_inv s"
  defines "img \<equiv> finish_fs False (flush_bitmap s)"
  shows "unat a < 4096 \<Longrightarrow> b \<noteq> 1 \<Longrightarrow> b \<noteq> 2 \<Longrightarrow> img_block img b a = ddata s b a"
    and "unat a < 264 \<Longrightarrow> img_block img 1 a = fsuper s a"
    and "b < 1024 \<Longrightarrow> free_bit (img_block img 2) b \<longleftrightarrow> nextbno s \<le> b"
proof -
  have fl: "flush_bitmap s = s\<lparr>ddata := (ddata s)(2 := fold clear_bit [0..<nextbno s] bitmap0)\<rparr>"
    using flush_upto [OF fmt_invD(2) [OF inv]] fmt_invD(3) [OF inv] by (simp add: flush_bitmap_def)
  show "img_block img b a = ddata s b a" if "unat a < 4096" "b \<noteq> 1" "b \<noteq> 2"
    using that img_block_eq [of a s b] by (simp add: img_def fl)
  show "img_block img 1 a = fsuper s a" if "unat a < 264" using that img_block_eq [of a s 1] by (simp add: img_def fl)
  assume b: "b < 1024"
  define p where "p = (of_nat (b div 32 * 4) :: u32)"
  have "b div 32 < 32" using b by (simp add: less_mult_imp_div_less)
  then have p: "unat p + 3 < 128" using word_no [OF b] by (simp add: p_def)
  then have "unat (p + of_nat j) = unat p + j" if "j < 4" for j
    using that by (simp add: unat_word_ariths word_of_nat_unat_eq)
  then have "img_block img 2 (p + of_nat j) = fold clear_bit [0..<nextbno s] bitmap0 (p + of_nat j)" if "j < 4" for j
    using that p img_block_eq [of "p + of_nat j" s 2] by (simp add: img_def fl)
  from this [of 0] this [of 1] this [of 2] this [of 3]
  have "word_at (img_block img 2) p = word_at (fold clear_bit [0..<nextbno s] bitmap0) p" by (intro word_at_eq) simp_all
  then show "free_bit (img_block img 2) b \<longleftrightarrow> nextbno s \<le> b"
    using clear_bits [OF fmt_invD(2) [OF inv] b] by (simp add: free_bit_def p_def)
qed

text \<open>A block of the image as the target reads it: on a target of the other byte order (\<open>re\<close>) the words that the
  formatter reverses appear reversed once more.\<close>

definition target_block :: "bool \<Rightarrow> fmt \<Rightarrow> (nat \<Rightarrow> u8) \<Rightarrow> nat \<Rightarrow> u32 \<Rightarrow> u8" where
  "target_block re s img b = (if re then reverse_block (dtype s b) (img_block img b) else img_block img b)"

lemma target_block_eq:
  assumes a: "unat a < 4096"
  shows "target_block re s (finish_fs re (flush_bitmap s)) b a = img_block (finish_fs False (flush_bitmap s)) b a"
proof (cases re)
  case True
  let ?m = "mem_upd 0 264 (\<lambda>i. fsuper (flush_bitmap s) (of_nat i)) (ddata (flush_bitmap s) 1)"
  define m where "m = ((ddata (flush_bitmap s))(1 := ?m)) b"
  have t: "dtype (flush_bitmap s) = dtype s"
    unfolding flush_bitmap_def by (rule fold_invariant [where P = "\<lambda>s'. dtype s' = dtype s" and Q = "\<lambda>_. True"]) (simp_all add: flush_bit_def Let_def)
  have blk: "img_block (finish_fs r (flush_bitmap s)) b c = (if r then reverse_block (dtype s b) m else m) c"
    if "unat c < 4096" for r c
  proof -
    have "(b * 4096 + unat c) div 4096 = b" "(b * 4096 + unat c) mod 4096 = unat c" using that by simp_all
    then show ?thesis by (simp add: img_block_def finish_fs_def Let_def m_def t)
  qed
  have "reverse_block (dtype s b) (img_block (finish_fs True (flush_bitmap s)) b) a = m a"
    by (rule reverse_block_twice [OF _ a]) (use blk [where r = True] in simp)
  then show ?thesis using True blk [OF a, of False] by (simp add: target_block_def)
qed (simp add: target_block_def)

lemma target_ok:
  assumes inv: "fmt_inv s" and img_def: "img = finish_fs re (flush_bitmap s)"
  shows "unat a < 4096 \<Longrightarrow> b \<noteq> 1 \<Longrightarrow> b \<noteq> 2 \<Longrightarrow> target_block re s img b a = ddata s b a"
    and "unat a < 264 \<Longrightarrow> target_block re s img 1 a = fsuper s a"
    and "b < 1024 \<Longrightarrow> free_bit (target_block re s img 2) b \<longleftrightarrow> nextbno s \<le> b"
proof -
  show "target_block re s img b a = ddata s b a" if "unat a < 4096" "b \<noteq> 1" "b \<noteq> 2"
    using target_block_eq [OF that(1)] image_ok(1) [OF inv that] by (simp add: img_def)
  show "target_block re s img 1 a = fsuper s a" if "unat a < 264"
    using target_block_eq [of a re s 1] image_ok(2) [OF inv that] that by (simp add: img_def)
  assume b: "b < 1024"
  define p where "p = (of_nat (b div 32 * 4) :: u32)"
  have "b div 32 < 32" using b by (simp add: less_mult_imp_div_less)
  then have p: "unat p + 3 < 128" using word_no [OF b] by (simp add: p_def)
  then have "unat (p + of_nat j) = unat p + j" if "j < 4" for j
    using that by (simp add: unat_word_ariths word_of_nat_unat_eq)
  then have "target_block re s img 2 (p + of_nat j) = img_block (finish_fs False (flush_bitmap s)) 2 (p + of_nat j)" if "j < 4" for j
    using target_block_eq [of "p + of_nat j" re s 2] that p by (simp add: img_def)
  from this [of 0] this [of 1] this [of 2] this [of 3]
  have "word_at (target_block re s img 2) p = word_at (img_block (finish_fs False (flush_bitmap s)) 2) p" by (intro word_at_eq) simp_all
  then show "free_bit (target_block re s img 2) b \<longleftrightarrow> nextbno s \<le> b"
    using image_ok(3) [OF inv b] by (simp add: free_bit_def p_def)
qed

text \<open>The state of the formatter as it can be read from an image; types and number of blocks are
  those of \<open>s\<close>.\<close>

definition image_state :: "bool \<Rightarrow> (nat \<Rightarrow> u8) \<Rightarrow> fmt \<Rightarrow> fmt" where
  "image_state re img s = s\<lparr>ddata := target_block re s img, fsuper := target_block re s img 1\<rparr>"

lemma image_frame [simp]: "dtype (image_state re img s) = dtype s" "nextbno (image_state re img s) = nextbno s"
  "valid_ptr f (image_state re img s) = valid_ptr f s" "in_use b t (image_state re img s) = in_use b t s"
  by (simp_all add: image_state_def valid_ptr_def in_use_def split: fptr.split)

lemma image_byte:
  assumes inv: "fmt_inv s" and f: "valid_ptr f s" and k: "unat k < 256"
  shows "file_mem f (image_state r (finish_fs r (flush_bitmap s)) s) (file_off f + k) = file_mem f s (file_off f + k)"
proof (cases f)
  case Root
  then show ?thesis using target_ok(2) [OF inv refl, of "8 + k"] entry_addr(1) [OF f k] k by (simp add: image_state_def)
next
  case (At b off)
  then show ?thesis
    using target_ok(1) [OF inv refl, of "off + k" b] entry_addr(1,3) [OF f k] k f by (simp add: image_state_def valid_ptr_def)
qed

lemma image_entry:
  assumes inv: "fmt_inv s" and f: "valid_ptr f s"
  shows "fld k \<Longrightarrow> fget f k (image_state r (finish_fs r (flush_bitmap s)) s) = fget f k s"
    and "i < 128 \<Longrightarrow> nbyte f i (image_state r (finish_fs r (flush_bitmap s)) s) = nbyte f i s"
proof -
  assume k: "fld k"
  have "unat (k + of_nat j) < 256" if "j < 4" for j
    using that k by (simp add: fld_def unat_word_ariths word_of_nat_unat_eq)
  from image_byte [OF inv f this [of 0]] image_byte [OF inv f this [of 1]] image_byte [OF inv f this [of 2]]
    image_byte [OF inv f this [of 3]]
  show "fget f k (image_state r (finish_fs r (flush_bitmap s)) s) = fget f k s"
    by (auto simp: fget_def add.assoc intro!: word_at_eq)
next
  assume "i < 128"
  then have "unat (of_nat i :: u32) < 256" by (simp add: word_of_nat_unat_eq)
  then show "nbyte f i (image_state r (finish_fs r (flush_bitmap s)) s) = nbyte f i s"
    using image_byte [OF inv f] by (simp add: nbyte_def)
qed

lemma image_dir_bno:
  assumes inv: "fmt_inv s" and f: "valid_ptr f s" and j: "j < 1024"
  shows "dir_bno f j (image_state r (finish_fs r (flush_bitmap s)) s) = dir_bno f j s"
proof (cases "j < 10")
  case True
  then show ?thesis using image_entry(1) [OF inv f fo_direct_fld(1) [OF True]] by (simp add: dir_bno_def)
next
  case False
  let ?img = "finish_fs r (flush_bitmap s)"
  define b where "b = unat (fget f fo_indirect s)"
  have b: "b \<noteq> 1 \<and> b \<noteq> 2" using fmt_invD(9) [OF inv f] by (auto simp: entry_ok_def ind_ok_def in_use_def b_def)
  have "unat (of_nat j * 4 :: u32) = j * 4" using j by (simp add: unat_word_ariths word_of_nat_unat_eq)
  then have "unat (of_nat j * 4 + of_nat i :: u32) < 4096" if "i < 4" for i
    using that j by (simp add: unat_word_ariths word_of_nat_unat_eq)
  then have "target_block r s ?img b (of_nat j * 4 + of_nat i) = ddata s b (of_nat j * 4 + of_nat i)" if "i < 4" for i
    using target_ok(1) [OF inv refl] b that by blast
  from this [of 0] this [of 1] this [of 2] this [of 3]
  have "word_at (target_block r s ?img b) (of_nat j * 4) = word_at (ddata s b) (of_nat j * 4)" by (intro word_at_eq) simp_all
  then show ?thesis using False image_entry(1) [OF inv f] by (simp add: dir_bno_def Let_def b_def) (simp add: image_state_def)
qed

lemma image_entry_in:
  assumes inv: "fmt_inv s" and d: "valid_ptr dirf s" "fget dirf fo_type s = 1" and f: "entry_in dirf f s"
  shows "entry_in dirf f (image_state r (finish_fs r (flush_bitmap s)) s)"
proof -
  obtain i b j where i: "i < extent dirf s" "dir_bno dirf i s = Some b" "3 \<le> b" "j < 16" "f = At b (of_nat j * 256)"
    using f by (auto simp: entry_in_def)
  have "extent dirf s \<le> 1024" using fmt_invD(9) [OF inv d(1)] d(2) by (simp add: entry_ok_def dir_ok_def extent_def)
  moreover have "extent dirf (image_state r (finish_fs r (flush_bitmap s)) s) = extent dirf s"
    using image_entry(1) [OF inv d(1)] by (simp add: extent_def)
  ultimately show ?thesis using i image_dir_bno [OF inv d(1), of i] unfolding entry_in_def by auto
qed

lemma image_tree:
  assumes inv: "fmt_inv s"
  shows "valid_ptr dirf s \<Longrightarrow> fget dirf fo_type s = 1 \<Longrightarrow> has_tree dirf nm h s \<Longrightarrow>
    has_tree dirf nm h (image_state r (finish_fs r (flush_bitmap s)) s)"
  using inv
proof (induction dirf nm h s rule: has_tree.induct)
  case (1 dirf nm bs s)
  let ?i = "image_state r (finish_fs r (flush_bitmap s)) s"
  note inv = "1.prems"(4)
  obtain f where f: "valid_ptr f s" "name0 f s \<noteq> 0" "entry_in dirf f s" "named f nm s" "has_file f bs s" using "1.prems" by auto
  note e = image_entry [OF inv f(1)]
  have "content f 0 bs ?i" unfolding content_def
  proof (intro allI impI)
    fix k assume "k * 4096 < length bs"
    from f(5) [unfolded has_file_def content_def, THEN conjunct2, THEN conjunct2, rule_format, OF this]
    obtain b where b: "k < 1024" "dir_bno f k s = Some b" "in_use b BLOCK_DATA s" "\<forall>j < 4096. ddata s b (of_nat j) = chunk bs k j"
      by auto
    moreover have "ddata ?i b (of_nat j) = chunk bs k j" if "j < 4096" for j
      using b(3,4) that target_ok(1) [OF inv refl, of "of_nat j" b] by (simp add: image_state_def in_use_def word_of_nat_unat_eq)
    ultimately show "0 + k < 1024 \<and> (\<exists>b. dir_bno f (0 + k) ?i = Some b \<and> in_use b BLOCK_DATA ?i \<and>
        (\<forall>j < 4096. ddata ?i b (of_nat j) = chunk bs k j))"
      using image_dir_bno [OF inv f(1)] by simp
  qed
  then have "has_file f bs ?i" using f(5) e by (simp add: has_file_def)
  moreover have "entry_in dirf f ?i"
    using image_entry_in [OF inv "1.prems"(1,2) f(3)] .
  ultimately show ?case using f e by (auto simp: named_def)
next
  case (2 dirf nm es s)
  let ?i = "image_state r (finish_fs r (flush_bitmap s)) s"
  note inv = "2.prems"(4)
  obtain f where f: "valid_ptr f s" "name0 f s \<noteq> 0" "entry_in dirf f s" "named f nm s" "fget f fo_type s = 1"
    "\<forall>(d, h) \<in> set es. d \<noteq> [0x2e] \<longrightarrow> d \<noteq> [0x2e, 0x2e] \<longrightarrow> has_tree f d h s" using "2.prems" by auto
  have "has_tree f d h ?i" if "(d, h) \<in> set es" "d \<noteq> [0x2e]" "d \<noteq> [0x2e, 0x2e]" for d h
    using "2.IH" [OF that(1) refl that(2,3) f(1,5) _ inv] f(6) that by auto
  moreover have "entry_in dirf f ?i"
    using image_entry_in [OF inv "2.prems"(1,2) f(3)] .
  ultimately show ?case using f image_entry [OF inv f(1)] by (auto simp: named_def intro!: exI [of _ f])
qed auto

section \<open>The properties\<close>

lemma fsformat_run:
  assumes "\<forall>(path, h) \<in> set args. tree_ok path h" and "fsformat re args = Some img"
  obtains s where "fold_opt write_arg args (init_disk fmt0) = Some s" "fmt_inv s" "img = finish_fs re (flush_bitmap s)"
    "\<forall>(path, h) \<in> set args. has_tree Root (tree_name path h) h (image_state re img s)"
proof -
  obtain s where s: "fold_opt write_arg args (init_disk fmt0) = Some s" "img = finish_fs re (flush_bitmap s)"
    using assms(2) by (auto simp: fsformat_def split: if_splits bind_splits)
  have r: "fmt_inv s \<and> grows {} (init_disk fmt0) s \<and> (\<forall>(path, h) \<in> set args. has_tree Root (tree_name path h) h s)"
    using write_args_ok [OF init_disk_ok assms(1) s(1)] .
  have "fget Root fo_type s = 1"
    using dir_grows(3) [OF conjunct1 [OF conjunct2 [OF r]] valid_Root fmt_invD(7) [OF init_disk_ok(1)] init_disk_ok(2)] .
  then have "\<forall>(path, h) \<in> set args. has_tree Root (tree_name path h) h (image_state re img s)"
    using image_tree [OF conjunct1 [OF r] valid_Root, where r = re] r s(2) by fast
  then show thesis using that [OF s(1)] r s(2) by blast
qed


lemma image_word:
  assumes "\<forall>p < 4194304. d 0 p = img p" and "b < 1024" and "k + 3 < 4096"
  shows "disk_word d (b * 4096 + k) = word_at (img_block img b) (of_nat k)"
proof -
  have "d 0 (b * 4096 + k + j) = img_block img b (of_nat k + of_nat j)" if "j < 4" for j
    using assms that by (simp add: img_block_def unat_word_ariths word_of_nat_unat_eq add.assoc)
  from this [of 0] this [of 1] this [of 2] this [of 3] show ?thesis by (simp add: disk_word_def word_at_def)
qed

text \<open>C17. The file server starts on the image (names that fit, nothing cached yet, memory for the pages of the first
  blocks, a disk that works): superblock test, write test and bitmap test pass, the disk is left as it
  was, and a block is free for the server exactly when the bitmap of the image says so.\<close>

theorem fsformat_mounts:
  assumes "\<forall>(path, h) \<in> set args. tree_ok path h" and "fsformat False args = Some img"
    and "starting d (\<lambda>_. None) s" and "super s = 0" and img: "\<forall>p < 4194304. d 0 p = img p"
  shows "\<exists>s'. fs_init s = Some s' \<and> fs_ok 1024 s' \<and> disks s' = d \<and> (\<forall>b < 1024. is_free s' b \<longleftrightarrow> free_bit (img_block img 2) b)"
proof (rule fsformat_run [OF assms(1,2)])
  fix f assume "fmt_inv f" "img = finish_fs False (flush_bitmap f)"
  note f = this
  have "img_block img 1 (of_nat k + of_nat j) = fsuper f (of_nat k + of_nat j)" if "k < 8" "j < 4" for k j
    using that image_ok(2) [OF f(1)] f(2) by (simp add: unat_word_ariths word_of_nat_unat_eq)
  from this [of _ 0] this [of _ 1] this [of _ 2] this [of _ 3]
  have "word_at (img_block img 1) (of_nat k) = word_at (fsuper f) (of_nat k)" if "k < 8" for k
    using that by (intro word_at_eq) simp_all
  from this [of 0] this [of 4] have "disk_word d 4096 = FS_MAGIC" "disk_word d 4100 = 1024"
    using image_word [where d = d and img = img and b = 1 and k = 0, OF img] image_word [where d = d and img = img and b = 1 and k = 4, OF img] fmt_invD(5,6) [OF f(1)] by simp_all
  moreover have fr: "disk_free d b = free_bit (img_block img 2) b" if "b < 1024" for b
  proof -
    have "b div 32 < 32" using that by (simp add: less_mult_imp_div_less)
    then show ?thesis using image_word [where d = d and img = img and b = 2 and k = "b div 32 * 4", OF img] by (simp add: disk_free_def free_bit_def)
  qed
  then have "\<forall>b < 3. \<not> disk_free d b" using image_ok(3) [OF f(1)] fmt_invD(1) [OF f(1)] f(2) by simp
  ultimately show ?thesis using fs_init_ok [OF assms(3,4), of 1024] fr by (simp add: word_less_nat_alt)
qed

section \<open>An example\<close>

definition host_demo :: "(u8 list \<times> host) list" where
  "host_demo = [([0x6d], Reg [0x68, 0x69])]"

lemma host_demo_ok: "\<forall>(path, h) \<in> set host_demo. tree_ok path h"
  by (simp add: host_demo_def tree_ok_def name_ok_def after_slash_def)

lemma host_demo_runs: "\<exists>img. fsformat re host_demo = Some img"
  by (simp add: host_demo_def fsformat_def write_arg_def write_file_def create_file_def make_link_block_def save_block_link_def
      next_block_def fput_name_def after_slash_def copy_blocks.simps Let_def init_disk_facts(3,4))


theorem fsformat_mounts_witness:
  "\<exists>img (s :: fs_state) s'. fsformat False host_demo = Some img \<and> fs_init s = Some s' \<and> fs_ok 1024 s' \<and> (\<forall>b < 1024. is_free s' b \<longleftrightarrow> free_bit (img_block img 2) b)"
proof -
  obtain img where img: "fsformat False host_demo = Some img" using host_demo_runs by blast
  let ?s = "fs_demo\<lparr>uperm := \<lambda>_. 0, oom := \<lambda>_. False, disks := \<lambda>_. img, super := 0, bitmap := 0\<rparr>"
  have "disk_ok ?s" using fs_okD(7) [OF fs_demo_ok] by (simp add: disk_ok_def)
  then have "starting (\<lambda>_. img) (\<lambda>_. None) ?s" by (simp add: starting_def va_is_mapped_def)
  from fsformat_mounts [OF host_demo_ok img this] obtain s' where "fs_init ?s = Some s'" "fs_ok 1024 s'"
    "\<forall>b < 1024. is_free s' b \<longleftrightarrow> free_bit (img_block img 2) b" by auto
  with img show ?thesis by blast
qed

end
