(* ===== verification/Fork.thy ===== *)
theory Fork
  imports Syscall_Props
begin

text \<open>
  The user-level copy-on-write \<^verbatim>\<open>fork\<close> (\<^verbatim>\<open>user/lib/fork.c\<close>), run on the kernel model: the library
  reads its page tables through the window \<^verbatim>\<open>vpt\<close> at \<^verbatim>\<open>UVPT\<close>, with the refill handler behind
  every access, and calls the system calls of \<^verbatim>\<open>Syscall\<close>.  A \<^verbatim>\<open>user_panic\<close> ends the process and
  is \<^const>\<open>None\<close>.
\<close>

section \<open>System calls from user code\<close>

text \<open>The value a system call wrapper returns to user code that goes on when it is 0 and panics
  otherwise.\<close>

definition or_panic :: "sysret \<Rightarrow> kstate option" where
  "or_panic m = (case m of Some (Ret (Inr v), s) \<Rightarrow> if v = 0 then Some s else None | _ \<Rightarrow> None)"

text \<open>\<^verbatim>\<open>vpt[vpn]\<close> and \<^verbatim>\<open>vpd[i]\<close>.\<close>

definition vpt :: "u32 \<Rightarrow> kstate \<Rightarrow> (u32 \<times> kstate) option" where
  "vpt vpn = read_word (UVPT + vpn * 4)"

definition vpd :: "u32 \<Rightarrow> kstate \<Rightarrow> (u32 \<times> kstate) option" where
  "vpd i = read_word (UVPT + push_bit 12 (PDX UVPT) + i * 4)"

text \<open>\<^verbatim>\<open>memcpy\<close> of one page between page-aligned addresses, its word loop.\<close>

definition copy_page :: "u32 \<Rightarrow> u32 \<Rightarrow> kstate \<Rightarrow> kstate option" where
  "copy_page dst src = fold_opt (\<lambda>i s. do {
     (w, s1) \<leftarrow> read_word (src + of_nat i * 4) s;
     write_word (dst + of_nat i * 4) w s1 }) [0..<1024]"

section \<open>The copy-on-write handler\<close>

text \<open>\<open>tf\<close> is the address of the trap frame on the exception stack; \<^verbatim>\<open>cp0_badvaddr\<close> is its word
  35.  When \<^verbatim>\<open>syscall_set_trapframe\<close> succeeds the process continues at the faulting instruction.\<close>

definition cow_entry :: "u32 \<Rightarrow> kstate \<Rightarrow> kstate option" where
  "cow_entry tf s = do {
     (va, s0) \<leftarrow> read_word (tf + 140) s;
     (pte, s1) \<leftarrow> vpt (VPN va) s0;
     let perm = pte AND 0xfff;
     if perm AND PTE_COW = 0 then None
     else do {
       let perm = (perm OR PTE_D) XOR PTE_COW;
       s2 \<leftarrow> or_panic (sys_mem_alloc 0 UCOW perm s1);
       let va = ROUNDDOWN va BY2PG;
       s3 \<leftarrow> copy_page UCOW va s2;
       s4 \<leftarrow> or_panic (sys_mem_map 0 UCOW 0 va perm s3);
       s5 \<leftarrow> or_panic (sys_mem_unmap 0 UCOW s4);
       (r, s6) \<leftarrow> sys_set_trapframe 0 tf s5;
       case r of Ret (Inr _) \<Rightarrow> Some s6 | _ \<Rightarrow> None } }"

section \<open>Duplicating the address space\<close>

definition duppage :: "u32 \<Rightarrow> u32 \<Rightarrow> kstate \<Rightarrow> kstate option" where
  "duppage envid vpn s = do {
     let addr = vpn * BY2PG;
     (pte, s1) \<leftarrow> vpt vpn s;
     let perm = pte AND 0xfff;
     if perm AND PTE_D = 0 then or_panic (sys_mem_map 0 addr envid addr perm s1)
     else if perm AND PTE_COW \<noteq> 0 then or_panic (sys_mem_map 0 addr envid addr perm s1)
     else if perm AND PTE_LIBRARY \<noteq> 0 then or_panic (sys_mem_map 0 addr envid addr perm s1)
     else do {
       let perm = (perm OR PTE_COW) XOR PTE_D;
       s2 \<leftarrow> or_panic (sys_mem_map 0 addr envid addr perm s1);
       or_panic (sys_mem_map 0 addr 0 addr perm s2) } }"

text \<open>The loop of \<^verbatim>\<open>fork\<close> over the addresses below \<^verbatim>\<open>USTACKTOP\<close>; \<^verbatim>\<open>vpt\<close> is read before \<^verbatim>\<open>vpd\<close>.\<close>

definition fork_page :: "u32 \<Rightarrow> nat \<Rightarrow> kstate \<Rightarrow> kstate option" where
  "fork_page child n s = do {
     let i = of_nat n * BY2PG;
     (pte, s1) \<leftarrow> vpt (VPN i) s;
     if pte AND PTE_V = 0 then Some s1
     else do {
       (pde, s2) \<leftarrow> vpd (drop_bit 22 i) s1;
       if pde AND PTE_V = 0 then Some s2 else duppage child (VPN i) s2 } }"

text \<open>\<^verbatim>\<open>fork\<close> in the parent; \<open>handler\<close> is the address of \<^verbatim>\<open>cow_entry\<close>.  The child, which the
  kernel starts with the same registers and 0 in \<^verbatim>\<open>$v0\<close>, only sets its \<^verbatim>\<open>env\<close> pointer.  The results
  of the last two calls are ignored.\<close>

definition fork :: "u32 \<Rightarrow> kstate \<Rightarrow> ((err + u32) \<times> kstate) option" where
  "fork handler s = do {
     c \<leftarrow> curenv s;
     (r0, s0) \<leftarrow> (if env_user_tlb_mod_entry (envs s c) = handler then Some (Ret (Inr 0), s)
                  else sys_set_tlb_mod_entry 0 handler s);
     (case r0 of
        Ret (Inl e) \<Rightarrow> Some (Inl e, s0)
      | Switch \<Rightarrow> None
      | Ret (Inr _) \<Rightarrow> do {
          (r1, s1) \<leftarrow> sys_exofork s0;
          (case r1 of
             Switch \<Rightarrow> None
           | Ret r \<Rightarrow> do {
               let child = ret_word r;
               s2 \<leftarrow> fold_opt (fork_page child) [0..<unat (USTACKTOP div BY2PG)] s1;
               (_, s3) \<leftarrow> sys_set_tlb_mod_entry child handler s2;
               (_, s4) \<leftarrow> sys_set_env_status child ENV_RUNNABLE s3;
               Some (Inr child, s4) }) }) }"

end
