(* ===== verification/Fork_Props.thy ===== *)
theory Fork_Props
  imports Fork Dev_Props
begin

text \<open>
  Correctness of the copy-on-write \<^verbatim>\<open>fork\<close>: \<^verbatim>\<open>duppage\<close> shares a page with the child without
  letting either side write to it, and \<^verbatim>\<open>cow_entry\<close> gives the process that writes a copy of its own.
\<close>

section \<open>User accesses of the running environment\<close>

definition running :: "nat set \<Rightarrow> (nat \<Rightarrow> nat) \<Rightarrow> nat \<Rightarrow> (nat \<Rightarrow> nat) \<Rightarrow> nat \<Rightarrow> kstate \<Rightarrow> bool" where
  "running A rt b K c s \<longleftrightarrow> kern_inv A rt b K s \<and> curenv s = Some c \<and> c \<in> A \<and> cur_pgdir s = pgdir_kva (rt c)"

lemma runningD:
  assumes "running A rt b K c s"
  shows "kern_inv A rt b K s" "curenv s = Some c" "c \<in> A" "cur_pgdir s = pgdir_kva (rt c)"
  using assms by (simp_all add: running_def)

lemma running_rest:
  assumes "running A rt b K c s" and "same_rest s s'" and "kern_inv A rt b K s'"
  shows "running A rt b K c s'"
  using assms kstate_rest [OF assms(2)] by (simp add: running_def)

lemma tlb_view [simp]:
  "mapping (s\<lparr>tlb := t\<rparr>) = mapping s" "tables S (s\<lparr>tlb := t\<rparr>) = tables S s" "same_rest s (s\<lparr>tlb := t\<rparr>)"
  by (auto simp: mapping_def pte_at_def tab_def fun_eq_iff tables_def live_def same_rest_def)

declare vm_inv_tlb_upd [simp]

lemma kern_inv_tlb [simp]: "kern_inv A rt b K (s\<lparr>tlb := t\<rparr>) = kern_inv A rt b K s"
  by (simp add: kern_inv_def space_inv_def no_leak_def asids_def)

lemma running_tlb [simp]: "running A rt b K c (s\<lparr>tlb := t\<rparr>) = running A rt b K c s"
  by (simp add: running_def)

text \<open>The saved registers matter to none of these.\<close>

lemma kstack_view [simp]:
  "mapping (s\<lparr>kstack_tf := f\<rparr>) = mapping s" "kern_inv A rt b K (s\<lparr>kstack_tf := f\<rparr>) = kern_inv A rt b K s"
  "running A rt b K c (s\<lparr>kstack_tf := f\<rparr>) = running A rt b K c s"
proof -
  show "mapping (s\<lparr>kstack_tf := f\<rparr>) = mapping s" by (simp add: mapping_def pte_at_def tab_def fun_eq_iff)
  show k: "kern_inv A rt b K (s\<lparr>kstack_tf := f\<rparr>) = kern_inv A rt b K s"
    using space_inv_cong [of "s\<lparr>kstack_tf := f\<rparr>" s] by (simp add: kern_inv_def asids_def)
  show "running A rt b K c (s\<lparr>kstack_tf := f\<rparr>) = running A rt b K c s" by (simp add: running_def k)
qed

text \<open>A page mapped by some environment is neither a table nor a directory.\<close>

lemma mapped_data:
  assumes "kern_inv A rt b K s" and "d \<in> A" and "va < UTOP" and "mapping s (rt d) va = Some e"
  shows "pte_page e < unat (npage s)" "pte_page e \<notin> tables (dir_slots (rt ` A) b) s"
    "pte_page e \<notin> fst ` dir_slots (rt ` A) b"
proof -
  obtain xs where "vm_inv (dir_slots (rt ` A) b) (dir_refs (rt ` A) b K) xs s"
    by (rule kern_vm [OF assms(1)])
  note ok = data_okD [OF vm_invD(5) [OF this] env_slot [OF assms(2,3)] assms(4)]
  show "pte_page e < unat (npage s)" "pte_page e \<notin> tables (dir_slots (rt ` A) b) s"
    "pte_page e \<notin> fst ` dir_slots (rt ` A) b"
    by (rule ok)+
qed

lemma refill_running:
  assumes run: "running A rt b K c s" and va: "va < UTOP" and m: "mapping s (rt c) va = Some e"
  shows "do_tlb_refill va (env_asid (envs s c)) s = Some (e, s\<lparr>tlb := (tlb s)(tlb_key (env_asid (envs s c)) va := Some e)\<rparr>)"
proof -
  note r = runningD [OF run]
  obtain xs where vm: "vm_inv (dir_slots (rt ` A) b) (dir_refs (rt ` A) b K) xs s"
    by (rule kern_vm [OF r(1)])
  show ?thesis
    using refill_hit [OF vm env_slot [OF r(3) va] m r(4)] by (simp add: do_tlb_refill_def)
qed

lemma below_UTOP: "va < UTOP \<Longrightarrow> va < ULIM"
  by (simp add: mmu_layout word_less_nat_alt)

lemma read_mapped:
  assumes run: "running A rt b K c s" and va: "va < UTOP" and al: "unat va mod 4 = 0"
    and m: "mapping s (rt c) va = Some e"
  shows "\<exists>t. read_word va s = Some (pmem s (pte_page e) (unat va mod 4096 div 4), s\<lparr>tlb := t\<rparr>)"
proof -
  note r = runningD [OF run]
  have "pa2page (npage s) e = Some (pte_page e)"
    using mapped_data(1) [OF r(1,3) va m] by (simp add: pa2page_pte)
  then show ?thesis
    using al below_UTOP [OF va] refill_running [OF run va m] r(2)
    by (auto simp: read_word_def cur_asid_def)
qed

lemma write_mapped:
  assumes run: "running A rt b K c s" and va: "va < UTOP" and al: "unat va mod 4 = 0"
    and m: "mapping s (rt c) va = Some e" and d: "e AND PTE_D \<noteq> 0"
  shows "\<exists>t. write_word va v s = Some (s\<lparr>tlb := t, pmem := (pmem s)(pte_page e :=
    (pmem s (pte_page e))(unat va mod 4096 div 4 := v))\<rparr>)"
proof -
  note r = runningD [OF run]
  have "pa2page (npage s) e = Some (pte_page e)"
    using mapped_data(1) [OF r(1,3) va m] by (simp add: pa2page_pte)
  then show ?thesis
    using al below_UTOP [OF va] refill_running [OF run va m] r(2) d
    by (auto simp: write_word_def cur_asid_def)
qed

text \<open>Storing into a page of data changes no mapping.\<close>

lemma data_store:
  assumes run: "running A rt b K c s" and p: "p \<notin> fst ` dir_slots (rt ` A) b" "p \<notin> tables (dir_slots (rt ` A) b) s"
    and s': "s' = s\<lparr>tlb := t, pmem := (pmem s)(p := g)\<rparr>"
  shows "running A rt b K c s'" and "\<And>d va. d \<in> A \<Longrightarrow> va < UTOP \<Longrightarrow> mapping s' (rt d) va = mapping s (rt d) va"
    and "tables (dir_slots (rt ` A) b) s' = tables (dir_slots (rt ` A) b) s"
proof -
  let ?S = "dir_slots (rt ` A) b" and ?X = "dir_refs (rt ` A) b K"
  note r = runningD [OF run]
  obtain xs where xs: "vm_inv ?S ?X xs s" "no_leak xs s" by (rule kern_vm [OF r(1)])
  have eq: "pmem s' q = pmem s q" if "q \<noteq> p" for q using that by (simp add: s')
  note view = frame_view [OF p(1,2) eq]
  have "vm_inv ?S ?X xs s'"
    by (rule vm_inv_frame [OF xs(1) p(1,2) eq]) (use vm_invD(4) [OF xs(1)] in \<open>simp_all add: s' free_ok_def\<close>)
  moreover have "no_leak xs s'" using xs(2) by (simp add: no_leak_def s')
  ultimately have "space_inv ?S ?X s'" by (auto simp: space_inv_def)
  then have "kern_inv A rt b K s'"
    using r(1) by (simp add: kern_inv_def s' asids_def)
  then show "running A rt b K c s'" using run by (simp add: running_def s')
  show "mapping s' (rt d) va = mapping s (rt d) va" if "d \<in> A" "va < UTOP" for d va
    using view(3) env_slot [OF that, of rt b] by (simp add: mapping_def slot_of_def)
  show "tables ?S s' = tables ?S s" by (rule tables_cong(2)) (rule view(1))
qed

text \<open>The window at \<^verbatim>\<open>UVPT\<close>: with the directory's entry for itself in place, \<^verbatim>\<open>vpt\<close> of a mapped page
  is its page table entry.\<close>

definition self_map :: "nat \<Rightarrow> kstate \<Rightarrow> bool" where
  "self_map r s \<longleftrightarrow> pmem s r 511 = page2pa r OR PTE_V"

lemma vpt_address:
  fixes va :: u32
  shows "unat (UVPT + VPN va * 4) = 2143289344 + unat va div 4096 * 4"
    "unat (PDX (UVPT + VPN va * 4)) = 511" "unat (PTX (UVPT + VPN va * 4)) = unat (PDX va)"
    "unat (UVPT + VPN va * 4) mod 4096 div 4 = unat (PTX va)" "UVPT + VPN va * 4 < ULIM"
    "unat (UVPT + VPN va * 4) mod 4 = 0"
proof -
  have b: "unat va div 4096 < 1048576" by (rule unat_div_4096_bound)
  show u: "unat (UVPT + VPN va * 4) = 2143289344 + unat va div 4096 * 4"
    using b by (simp add: unat_word_ariths unat_VPN mmu_layout)
  have q: "unat va div 4096 * 4 div 4194304 = 0" using b by simp
  show "unat (PDX (UVPT + VPN va * 4)) = 511" using b by (simp add: unat_PDX u)
  have "(2143289344 + unat va div 4096 * 4) div 4096 = 523264 + unat va div 4096 div 1024"
    by (simp add: div_mult2_eq [of _ 4 1024, simplified, symmetric] div_add1_eq)
  moreover have "(523264 + q) mod 1024 = q" if "q < 1024" for q :: nat
    using that mod_mult_self3 [of 511 1024 q] by simp
  moreover have "unat va div 4096 div 1024 < 1024" using b by (simp add: div_less_iff_less_mult)
  ultimately show "unat (PTX (UVPT + VPN va * 4)) = unat (PDX va)"
    by (simp add: unat_PTX unat_PDX u flip: div_mult2_eq)
  show "unat (UVPT + VPN va * 4) mod 4096 div 4 = unat (PTX va)"
    using mod_mult_self3 [of 523264 4096 "unat va div 4096 * 4"] mod_mult_mult2 [of "unat va div 4096" 4 1024]
    by (simp add: u unat_PTX)
  show "UVPT + VPN va * 4 < ULIM" using b by (simp add: word_less_nat_alt u) (simp add: mmu_layout)
  show "unat (UVPT + VPN va * 4) mod 4 = 0" unfolding u by presburger
qed

text \<open>An entry of a valid pair of tables is found whether or not a slot of the invariant covers it.\<close>

lemma refill_window:
  assumes r: "r < unat (npage s)" "unat (npage s) \<le> 131072" and cur: "cur_pgdir s = pgdir_kva r"
    and self: "self_map r s" and v: "valid (pmem s r (unat (PTX w)))" "tab s r (unat (PTX w)) < unat (npage s)"
    and w: "unat (PDX w) = 511"
  shows "do_tlb_refill_c w asid s = Some (pmem s r (unat (PTX w)), s)"
proof -
  have d: "valid (pmem s r (unat (PDX w)))" "tab s r (unat (PDX w)) = r"
    using self r pte_page_mk_pte [of r 0] valid_mk_pte [of r 0] by (simp_all add: w self_map_def tab_def mk_pte_def)
  have "page_lookup (pgdir_kva r) w s = Some (Some (tab s r (unat (PTX w)), pgdir_kva r + push_bit 2 (PTX w)), s)"
    using v r pgdir_walk_present [OF r d(1), unfolded d(2), OF r(1), of False]
    by (simp add: page_lookup_def kload_entry pa2page_pte tab_def valid_def)
  then show ?thesis
    using cur r by (subst do_tlb_refill_c.simps) (simp add: kload_entry)
qed

lemma vpt_mapped:
  assumes run: "running A rt b K c s" and self: "self_map (rt c) s" and va: "va < UTOP"
    and m: "mapping s (rt c) va = Some e"
  shows "\<exists>t. vpt (VPN va) s = Some (e, s\<lparr>tlb := t\<rparr>)"
proof -
  note r = runningD [OF run] and w = vpt_address [of va]
  obtain xs where vm: "vm_inv (dir_slots (rt ` A) b) (dir_refs (rt ` A) b K) xs s"
    by (rule kern_vm [OF r(1)])
  have v: "valid (pmem s (rt c) (unat (PDX va)))" and e: "e = pmem s (tab s (rt c) (unat (PDX va))) (unat (PTX va))"
    using m by (auto simp: mapping_def pte_at_def split: if_splits)
  note sl = walk_slot [OF vm env_slot [OF r(3) va]]
  have rf: "do_tlb_refill_c (UVPT + VPN va * 4) asid s = Some (pmem s (rt c) (unat (PDX va)), s)" for asid
    using refill_window [OF sl(1,2) r(4) self, of "UVPT + VPN va * 4" asid] w(2,3) v sl(3) [OF v] by simp
  show ?thesis
    using r(2) w(4,5,6) sl(3) [OF v]
    by (auto simp: vpt_def read_word_def cur_asid_def do_tlb_refill_def rf pa2page_pte tab_def [symmetric] e)
qed

section \<open>Sharing a page\<close>

lemma or_panic_0 [simp]: "or_panic (Some (Ret (Inr 0), s)) = Some s"
  by (simp add: or_panic_def)

lemma sys_mem_map_ok:
  assumes inv: "kern_inv A rt b K s" and cur: "curenv s = Some c"
    and name: "may_name s c srcid src" "may_name s c dstid dst" and A: "src \<in> A" "dst \<in> A"
    and va: "\<not> is_illegal_va srcva" "\<not> is_illegal_va dstva" and perm: "perm_ok perm"
    and m: "mapping s (rt src) srcva = Some pte" and ref: "pp_ref s (pte_page pte) \<noteq> 65535"
    and room: "\<And>xs. list_rep (page_free_list s) xs \<Longrightarrow> \<not> no_room (rt dst) dstva xs s"
  shows "\<exists>s'. sys_mem_map srcid srcva dstid dstva perm s = Some (Ret (Inr 0), s') \<and>
    kern_inv A rt b K s' \<and> spaces_upd A rt dst dstva (Some (mk_pte (pte_page pte) perm)) s s' \<and>
    same_rest s s' \<and> data_kept (dir_slots (rt ` A) b) s s' \<and>
    (mapping s (rt dst) dstva = None \<longrightarrow> pp_ref s' (pte_page pte) = pp_ref s (pte_page pte) + 1)"
proof -
  obtain xs where vm: "vm_inv (dir_slots (rt ` A) b) (dir_refs (rt ` A) b K) xs s"
    by (rule kern_vm [OF inv])
  have "page_lookup (env_pgdir (envs s src)) srcva s = Some (Some (pte_page pte, pte_kva s (rt src) srcva), s)"
    using page_lookup_eq [OF vm env_slot [OF A(1) legal_va [OF va(1)]]] kern_invD(3) [OF inv A(1)] m by simp
  then show ?thesis
    using va share_page [OF inv A(2) legal_va [OF va(2)] A(1) legal_va [OF va(1)] m ref room perm,
      of "env_asid (envs s dst)"]
    by (auto simp: sys_mem_map_def with_env_ok [OF cur name(1)] with_env_ok [OF cur name(2)] ret_unit_def)
qed

lemma mapped_room: "mapping s r va = Some e \<Longrightarrow> \<not> no_room r va xs s"
  by (auto simp: no_room_def mapping_def pte_at_def split: if_splits)

lemma kept_mapped:
  assumes "kern_inv A rt b K s'" and "data_kept (dir_slots (rt ` A) b) s s'" and "d \<in> A" and "va < UTOP"
    and "mapping s' (rt d) va = Some e"
  shows "pmem s' (pte_page e) = pmem s (pte_page e)"
  using mapped_data [OF assms(1,3,4,5)] assms(2) by (simp add: data_kept_def)

lemma may_name_rest: "same_rest s s' \<Longrightarrow> may_name s' c i e = may_name s c i e" for s s' :: kstate
  using kstate_rest(1) [of s s'] by (simp add: may_name_def)

lemma tlb_view_from [simp]:
  "spaces_upd A rt e va n (s\<lparr>tlb := t\<rparr>) s' = spaces_upd A rt e va n s s'"
  "no_room r va xs (s\<lparr>tlb := t\<rparr>) = no_room r va xs s" "may_name (s\<lparr>tlb := t\<rparr>) c i e = may_name s c i e"
  "data_kept S (s\<lparr>tlb := t\<rparr>) s' = data_kept S s s'" "same_rest (s\<lparr>tlb := t\<rparr>) s' = same_rest s s'"
  by (simp_all add: spaces_upd_def no_room_def may_name_def data_kept_def same_rest_def)

lemma may_name_self [simp]: "may_name s c 0 d \<longleftrightarrow> d = c"
  by (simp add: may_name_def)

lemma map_running:
  assumes run: "running A rt b K c s" and name: "may_name s c dstid dst" and A: "dst \<in> A"
    and va: "\<not> is_illegal_va srcva" "\<not> is_illegal_va dstva" and perm: "perm_ok perm"
    and m: "mapping s (rt c) srcva = Some pte" and ref: "pp_ref s (pte_page pte) \<noteq> 65535"
    and room: "\<And>xs. list_rep (page_free_list s) xs \<Longrightarrow> \<not> no_room (rt dst) dstva xs s"
  obtains s' where "or_panic (sys_mem_map 0 srcva dstid dstva perm s) = Some s'" "running A rt b K c s'"
    "spaces_upd A rt dst dstva (Some (mk_pte (pte_page pte) perm)) s s'" "same_rest s s'"
    "data_kept (dir_slots (rt ` A) b) s s'"
    "mapping s (rt dst) dstva = None \<Longrightarrow> pp_ref s' (pte_page pte) = pp_ref s (pte_page pte) + 1"
proof -
  note r = runningD [OF run]
  obtain s' where s': "sys_mem_map 0 srcva dstid dstva perm s = Some (Ret (Inr 0), s')" "kern_inv A rt b K s'"
    "spaces_upd A rt dst dstva (Some (mk_pte (pte_page pte) perm)) s s'" "same_rest s s'"
    "data_kept (dir_slots (rt ` A) b) s s'"
    "mapping s (rt dst) dstva = None \<longrightarrow> pp_ref s' (pte_page pte) = pp_ref s (pte_page pte) + 1"
    using sys_mem_map_ok [OF r(1,2) _ name r(3) A va perm m ref room, of 0] by auto
  show ?thesis
    by (rule that [OF _ running_rest [OF run s'(4,2)] s'(3-5)]) (use s'(1,6) in simp_all)
qed

text \<open>The permission \<^verbatim>\<open>duppage\<close> gives to both sides.\<close>

definition shared_perm :: "u32 \<Rightarrow> u32" where
  "shared_perm perm = (if perm AND PTE_D \<noteq> 0 \<and> perm AND PTE_COW = 0 \<and> perm AND PTE_LIBRARY = 0
     then (perm OR PTE_COW) XOR PTE_D else perm)"

lemma perm_ok_ops [simp]:
  "perm_ok (pte_perm e)" "perm_ok 1" "perm_ok p \<Longrightarrow> perm_ok q \<Longrightarrow> perm_ok (p OR q)"
  "perm_ok p \<Longrightarrow> perm_ok q \<Longrightarrow> perm_ok (p XOR q)"
  by (simp_all add: perm_ok_def pte_perm_def and.assoc bit.conj_disj_distrib2 bit.conj_xor_distrib2)

lemma shared_perm_ok [simp]: "perm_ok p \<Longrightarrow> perm_ok (shared_perm p)"
  by (simp add: shared_perm_def)

lemma pte_split: "valid e \<Longrightarrow> mk_pte (pte_page e) (pte_perm e) = e"
proof -
  assume v: "valid e"
  have "page2pa (pte_page e) OR pte_perm e = e AND (NOT 0xFFF OR 0xFFF)"
    unfolding bit.conj_disj_distrib by (simp add: pte_perm_def PTE_ADDR_def flip: PTE_ADDR_page)
  also have "\<dots> = e" by simp
  finally have e: "page2pa (pte_page e) OR pte_perm e = e" .
  have "bit e 9" using v and_exp_eq_0_iff_not_bit [of e 9] by (simp add: valid_def)
  moreover have "x OR 2 ^ n = x" if "bit x n" for x :: u32 and n
    using that by (auto simp: bit_eq_iff [of "x OR 2 ^ n"] bit_simps)
  ultimately have "e OR 2 ^ 9 = e" by blast
  then show ?thesis by (simp add: mk_pte_def e flip: or.assoc)
qed

lemma same_VPN_mapping: "VPN va' = VPN va \<Longrightarrow> mapping s r va' = mapping s r va"
  using same_indices_iff [of va' va] by (simp add: mapping_def)

lemma shared_perm_changed:
  assumes "shared_perm p \<noteq> p"
  shows "shared_perm p AND PTE_D = 0 \<and> shared_perm p AND PTE_COW \<noteq> 0"
proof -
  have "shared_perm p = (p OR 2 ^ 0) XOR 2 ^ 10" "bit p 10"
    using assms and_exp_eq_0_iff_not_bit [of p 10] by (auto simp: shared_perm_def split: if_splits)
  then have "\<not> bit (shared_perm p) 10" "bit (shared_perm p) 0"
    by (simp_all only: bit_simps) (simp_all add: bit_simps)
  then show ?thesis
    using and_exp_eq_0_iff_not_bit [of "shared_perm p" 10] and_exp_eq_0_iff_not_bit [of "shared_perm p" 0] by simp
qed

text \<open>An entry seen through \<^verbatim>\<open>vpt\<close> as \<^verbatim>\<open>duppage\<close> computes with it.\<close>

lemma mapping_valid: "mapping s r va = Some e \<Longrightarrow> valid e"
  by (auto simp: mapping_def pte_at_def split: if_splits)

lemma duppage_eq:
  assumes "vpt (VPN va) s = Some (pte, s1)" and "VPN va * BY2PG = va"
  shows "duppage envid (VPN va) s =
    (let p = shared_perm (pte_perm pte) in
     if p = pte_perm pte then or_panic (sys_mem_map 0 va envid va p s1)
     else Option.bind (or_panic (sys_mem_map 0 va envid va p s1)) (\<lambda>s2. or_panic (sys_mem_map 0 va 0 va p s2)))"
proof -
  have "(p OR PTE_COW) XOR PTE_D \<noteq> p" if "p AND PTE_D \<noteq> 0" for p :: u32
  proof
    assume *: "(p OR PTE_COW) XOR PTE_D = p"
    have "bit p 10" using that and_exp_eq_0_iff_not_bit [of p 10] by simp
    moreover have "bit ((p OR 1) XOR 2 ^ 10) 10 = (\<not> bit p 10)" by (simp add: bit_simps)
    ultimately show False using * by simp
  qed
  then show ?thesis
    using assms by (simp add: duppage_def shared_perm_def pte_perm_def Let_def)
qed

text \<open>C18. \<^verbatim>\<open>duppage\<close> on a mapped page, for a child that has nothing there yet (room for a table in
  the child, reference count below its maximum): it returns, and then parent and child map the
  same page with the same permission.  That is the old one when the page is read-only, already
  copy-on-write or shared by choice; a private writable page loses \<^verbatim>\<open>PTE_D\<close> and gains
  \<^verbatim>\<open>PTE_COW\<close> on both sides, so neither can write it unnoticed.  No other address of any
  environment changes, the contents of mapped pages stay, and so does the kernel invariant.\<close>

theorem duppage_correct:
  assumes run: "running A rt b K c s" and self: "self_map (rt c) s"
    and child: "may_name s c envid e" "e \<in> A" "e \<noteq> c"
    and va: "\<not> is_illegal_va va" "VPN va * BY2PG = va" and m: "mapping s (rt c) va = Some pte"
    and new: "mapping s (rt e) va = None" and ref: "pp_ref s (pte_page pte) \<noteq> 65535" "pp_ref s (pte_page pte) \<noteq> 65534"
    and room: "\<And>xs. list_rep (page_free_list s) xs \<Longrightarrow> \<not> no_room (rt e) va xs s"
  shows "\<exists>s'. duppage envid (VPN va) s = Some s' \<and> running A rt b K c s' \<and>
    (\<forall>d \<in> A. \<forall>va' < UTOP. mapping s' (rt d) va' =
       (if (d = e \<or> d = c) \<and> VPN va' = VPN va then Some (mk_pte (pte_page pte) (shared_perm (pte_perm pte)))
        else mapping s (rt d) va')) \<and>
    (\<forall>d \<in> A. \<forall>va' < UTOP. \<forall>x. mapping s' (rt d) va' = Some x \<longrightarrow> pmem s' (pte_page x) = pmem s (pte_page x)) \<and>
    (shared_perm (pte_perm pte) \<noteq> pte_perm pte \<longrightarrow>
       shared_perm (pte_perm pte) AND PTE_D = 0 \<and> shared_perm (pte_perm pte) AND PTE_COW \<noteq> 0)"
proof -
  let ?p = "shared_perm (pte_perm pte)" and ?S = "dir_slots (rt ` A) b"
  have top: "va < UTOP" by (rule legal_va [OF va(1)])
  note cA = runningD(3) [OF run]
  obtain t where t: "vpt (VPN va) s = Some (pte, s\<lparr>tlb := t\<rparr>)"
    using vpt_mapped [OF run self top m] by blast
  obtain s1 where s1: "or_panic (sys_mem_map 0 va envid va ?p (s\<lparr>tlb := t\<rparr>)) = Some s1" "running A rt b K c s1"
    "spaces_upd A rt e va (Some (mk_pte (pte_page pte) ?p)) s s1" "data_kept ?S s s1"
    "pp_ref s1 (pte_page pte) = pp_ref s (pte_page pte) + 1"
    using map_running [of A rt b K c "s\<lparr>tlb := t\<rparr>" envid e va va ?p pte] run child va(1) m ref(1) new room
    by auto
  have m1: "mapping s1 (rt c) va = Some pte"
    using s1(3) top cA child(3) m by (simp add: spaces_upd_def)
  obtain s2 where s2: "duppage envid (VPN va) s = Some s2" "running A rt b K c s2" "data_kept ?S s s2"
    "spaces_upd A rt c va (Some (mk_pte (pte_page pte) ?p)) s1 s2"
  proof (cases "?p = pte_perm pte")
    case True
    have "spaces_upd A rt c va (Some (mk_pte (pte_page pte) ?p)) s1 s1"
      using m1 pte_split [OF mapping_valid [OF m]] True
      by (auto simp: spaces_upd_def dest!: same_VPN_mapping [of _ va s1 "rt c"])
    then show ?thesis using that s1 True by (simp add: duppage_eq [OF t va(2)])
  next
    case False
    have rf: "pp_ref s1 (pte_page pte) \<noteq> 65535" using s1(5) ref(2) by (simp add: eq_diff_eq [symmetric])
    obtain s2 where s2: "or_panic (sys_mem_map 0 va 0 va ?p s1) = Some s2" "running A rt b K c s2"
      "spaces_upd A rt c va (Some (mk_pte (pte_page pte) ?p)) s1 s2" "data_kept ?S s1 s2"
      by (rule map_running [OF s1(2) _ cA va(1,1) _ m1 rf mapped_room [OF m1], of 0 ?p]) simp_all
    show ?thesis
      by (rule that [OF _ s2(2) data_kept_trans [OF s1(4) s2(4)] s2(3)])
        (use False s1(1) s2(1) in \<open>simp add: duppage_eq [OF t va(2)] Let_def\<close>)
  qed
  have "\<forall>d \<in> A. \<forall>va' < UTOP. mapping s2 (rt d) va' =
       (if (d = e \<or> d = c) \<and> VPN va' = VPN va then Some (mk_pte (pte_page pte) ?p) else mapping s (rt d) va')"
    using s1(3) s2(4) by (auto simp: spaces_upd_def)
  moreover have "\<forall>d \<in> A. \<forall>va' < UTOP. \<forall>x. mapping s2 (rt d) va' = Some x \<longrightarrow> pmem s2 (pte_page x) = pmem s (pte_page x)"
    using kept_mapped [OF runningD(1) [OF s2(2)] s2(3)] by blast
  ultimately show ?thesis using s2(1,2) shared_perm_changed by blast
qed

section \<open>Copying on write\<close>

text \<open>Word \<open>i\<close> after \<open>w\<close> on the same page.\<close>

lemma page_step:
  assumes "w < UTOP" and "unat w mod 4 = 0" and "unat w mod 4096 + 4 * i < 4096"
  shows "unat (w + of_nat i * 4) = unat w + 4 * i" and "VPN (w + of_nat i * 4) = VPN w" and "w + of_nat i * 4 < UTOP"
    and "unat (w + of_nat i * 4) mod 4 = 0" and "unat (w + of_nat i * 4) mod 4096 div 4 = unat w mod 4096 div 4 + i"
proof -
  have b: "unat w < 2134900736" "i < 1024" using assms(1,3) by (auto simp: word_less_nat_alt mmu_layout)
  then have i: "unat (of_nat i * 4 :: u32) = 4 * i" by (simp add: unat_word_ariths word_of_nat_unat_eq)
  show u: "unat (w + of_nat i * 4) = unat w + 4 * i" using b by (simp add: unat_word_ariths(1) i)
  have d: "(unat w + 4 * i) div 4096 = unat w div 4096"
    using assms(3) by (metis div_mult_mod_eq div_mult_self3 div_less add.assoc add_0_right zero_neq_numeral)
  then show "VPN (w + of_nat i * 4) = VPN w" by (simp add: word_unat_eq_iff unat_VPN u)
  have "unat w div 4096 < 521216" using b(1) by (simp add: div_less_iff_less_mult)
  then have "unat w + 4 * i < 2134900736" using d div_mult_mod_eq [of "unat w + 4 * i" 4096] by linarith
  then show "w + of_nat i * 4 < UTOP" by (simp add: word_less_nat_alt u) (simp add: mmu_layout)
  show "unat (w + of_nat i * 4) mod 4 = 0" using assms(2) by (simp add: u) 
  have "(unat w + 4 * i) mod 4096 = unat w mod 4096 + 4 * i"
    using assms(3) by (metis mod_add_left_eq mod_less)
  then show "unat (w + of_nat i * 4) mod 4096 div 4 = unat w mod 4096 div 4 + i" by (simp add: u)
qed

lemma read_step:
  assumes run: "running A rt b K c s" and w: "w < UTOP" "unat w mod 4 = 0" "unat w mod 4096 + 4 * i < 4096"
    and m: "mapping s (rt c) w = Some e"
  shows "\<exists>t. read_word (w + of_nat i * 4) s = Some (pmem s (pte_page e) (unat w mod 4096 div 4 + i), s\<lparr>tlb := t\<rparr>)"
  using read_mapped [OF run page_step(3,4) [OF w]] same_VPN_mapping [OF page_step(2) [OF w]] m page_step(5) [OF w]
  by metis

lemma write_step:
  assumes run: "running A rt b K c s" and w: "w < UTOP" "unat w mod 4 = 0" "unat w mod 4096 + 4 * i < 4096"
    and m: "mapping s (rt c) w = Some e" and d: "e AND PTE_D \<noteq> 0"
  shows "\<exists>t. write_word (w + of_nat i * 4) v s = Some (s\<lparr>tlb := t, pmem := (pmem s)(pte_page e :=
    (pmem s (pte_page e))(unat w mod 4096 div 4 + i := v))\<rparr>)"
  using write_mapped [OF run page_step(3,4) [OF w] _ d, of v] same_VPN_mapping [OF page_step(2) [OF w]] m page_step(5) [OF w]
  by metis

text \<open>The copying loop, for two pages mapped at aligned addresses.\<close>

lemma copy_page_ok:
  assumes run: "running A rt b K c s" and src: "src < UTOP" "unat src mod 4096 = 0" "mapping s (rt c) src = Some es"
    and dst: "dst < UTOP" "unat dst mod 4096 = 0" "mapping s (rt c) dst = Some ed" "ed AND PTE_D \<noteq> 0"
    and ne: "pte_page es \<noteq> pte_page ed"
  shows "\<exists>t. copy_page dst src s = Some (s\<lparr>tlb := t, pmem := (pmem s)(pte_page ed :=
    (\<lambda>i. if i < 1024 then pmem s (pte_page es) i else pmem s (pte_page ed) i))\<rparr>)"
proof -
  let ?g = "\<lambda>n i. if i < n then pmem s (pte_page es) i else pmem s (pte_page ed) i"
  let ?I = "\<lambda>n s'. \<exists>t. s' = s\<lparr>tlb := t, pmem := (pmem s)(pte_page ed := ?g n)\<rparr>"
  let ?body = "\<lambda>i s. do { (w, s1) \<leftarrow> read_word (src + of_nat i * 4) s; write_word (dst + of_nat i * 4) w s1 }"
  note cA = runningD(3) [OF run] and d = mapped_data [OF runningD(1,3) [OF run] dst(1,3)]
  have al: "unat src mod 4 = 0" "unat dst mod 4 = 0"
    using src(2) dst(2) mod_mod_cancel [of 4 4096 "unat src"] mod_mod_cancel [of 4 4096 "unat dst"] by auto
  have step: "\<exists>s''. ?body k s' = Some s'' \<and> ?I (Suc k) s''" if k: "k < 1024" and I: "?I k s'" for k s'
  proof -
    obtain t where s': "s' = s\<lparr>tlb := t, pmem := (pmem s)(pte_page ed := ?g k)\<rparr>" using I by blast
    note st = data_store [OF run d(3,2) s']
    have ms: "mapping s' (rt c) src = Some es" and md: "mapping s' (rt c) dst = Some ed"
      using st(2) [OF cA] src dst by simp_all
    obtain t1 where r: "read_word (src + of_nat k * 4) s' = Some (pmem s (pte_page es) k, s'\<lparr>tlb := t1\<rparr>)"
      using read_step [OF st(1) src(1) al(1) _ ms, of k] k src(2) ne by (auto simp: s')
    have "running A rt b K c (s'\<lparr>tlb := t1\<rparr>)" "mapping (s'\<lparr>tlb := t1\<rparr>) (rt c) dst = Some ed"
      using st(1) md by simp_all
    then obtain t2 where "write_word (dst + of_nat k * 4) (pmem s (pte_page es) k) (s'\<lparr>tlb := t1\<rparr>) =
        Some (s'\<lparr>tlb := t2, pmem := (pmem s')(pte_page ed := (pmem s' (pte_page ed))(k := pmem s (pte_page es) k))\<rparr>)"
      using write_step [of A rt b K c "s'\<lparr>tlb := t1\<rparr>" dst k ed] dst al(2) k by fastforce
    moreover have "(?g k)(k := pmem s (pte_page es) k) = ?g (Suc k)" by (auto simp: less_Suc_eq)
    ultimately show ?thesis using r by (auto simp: s')
  qed
  have "?I 0 s" by (rule exI [of _ "tlb s"]) simp
  then show ?thesis
    using fold_opt_inv [of ?I s "[0..<1024]" ?body] step unfolding copy_page_def
    by (auto simp only: length_upt nth_upt diff_zero add_0)
qed

lemma read_words_mapped:
  assumes "running A rt b K c s" and "w < UTOP" and "unat w mod 4 = 0" and "unat w mod 4096 + 4 * n \<le> 4096"
    and "mapping s (rt c) w = Some e"
  shows "\<exists>t. read_words w n s = Some (map (\<lambda>i. pmem s (pte_page e) (unat w mod 4096 div 4 + i)) [0..<n], s\<lparr>tlb := t\<rparr>)"
  using assms
proof (induction n arbitrary: w s)
  case 0
  show ?case by (auto intro: exI [of _ "tlb s"])
next
  case (Suc n)
  obtain t where t: "read_word w s = Some (pmem s (pte_page e) (unat w mod 4096 div 4), s\<lparr>tlb := t\<rparr>)"
    using read_mapped [OF Suc.prems(1,2,3,5)] by blast
  show ?case
  proof (cases n)
    case 0
    then show ?thesis using t by auto
  next
    case (Suc m)
    then have b: "unat w mod 4096 + 4 * 1 < 4096" using Suc.prems(4) by simp
    note st = page_step [OF Suc.prems(2,3) b, simplified]
    have "(unat w + 4) mod 4096 = unat w mod 4096 + 4" using b by (subst mod_add_left_eq [symmetric]) simp
    then have "unat (w + 4) mod 4096 + 4 * n \<le> 4096" using st(1) Suc.prems(4) by simp
    moreover have "mapping s (rt c) (w + 4) = Some e" using same_VPN_mapping [OF st(2), of s "rt c"] Suc.prems(5) by simp
    ultimately obtain t2 where "read_words (w + 4) n (s\<lparr>tlb := t\<rparr>) =
        Some (map (\<lambda>i. pmem s (pte_page e) (Suc (unat w mod 4096 div 4) + i)) [0..<n], s\<lparr>tlb := t2\<rparr>)"
      using Suc.IH [of "s\<lparr>tlb := t\<rparr>" "w + 4"] Suc.prems(1) st(3,4,5) by auto
    then show ?thesis using t by (auto simp: map_upt_Suc simp del: upt_Suc)
  qed
qed

lemma alloc_running:
  assumes run: "running A rt b K c s" and va: "\<not> is_illegal_va va" and perm: "perm_ok perm"
    and free: "list_rep (page_free_list s) (p # xs)" and room: "\<not> no_room (rt c) va xs s"
    and m: "mapping s (rt c) va = None"
  obtains s' where "or_panic (sys_mem_alloc 0 va perm s) = Some s'" "running A rt b K c s'"
    "spaces_upd A rt c va (Some (mk_pte p perm)) s s'" "pp_ref s' p = 1"
    "\<forall>d \<in> A. \<forall>w < UTOP. \<forall>x. mapping s' (rt d) w = Some x \<longrightarrow> pte_page x \<noteq> p \<longrightarrow>
       pmem s' (pte_page x) = pmem s (pte_page x)"
proof -
  note r = runningD [OF run]
  obtain s' where s': "sys_mem_alloc 0 va perm s = Some (Ret (Inr 0), s')" "kern_inv A rt b K s'"
    "spaces_upd A rt c va (Some (mk_pte p perm)) s s'" "same_rest s s'" "pp_ref s' p = 1"
    "\<forall>q. q \<notin> tables (dir_slots (rt ` A) b) s' \<longrightarrow> q \<notin> fst ` dir_slots (rt ` A) b \<longrightarrow> q \<noteq> p \<longrightarrow> pmem s' q = pmem s q"
    using sys_mem_alloc_ok [OF r(1,2) _ r(3) va perm free room, of 0] m by auto
  show ?thesis
    by (rule that [OF _ running_rest [OF run s'(4,2)] s'(3,5)])
      (use s'(1,6) mapped_data [OF s'(2)] in \<open>simp_all\<close>)
qed

lemma unmap_running:
  assumes run: "running A rt b K c s" and va: "\<not> is_illegal_va va"
  obtains s' where "or_panic (sys_mem_unmap 0 va s) = Some s'" "running A rt b K c s'"
    "spaces_upd A rt c va None s s'" "same_rest s s'" "data_kept (dir_slots (rt ` A) b) s s'"
proof -
  note r = runningD [OF run]
  obtain s' where s': "sys_mem_unmap 0 va s = Some (Ret (Inr 0), s')" "kern_inv A rt b K s'"
    "spaces_upd A rt c va None s s'" "same_rest s s'" "data_kept (dir_slots (rt ` A) b) s s'"
    using sys_mem_unmap_correct [OF r(1,2) _ r(3) va, of 0] by auto
  show ?thesis by (rule that [OF _ running_rest [OF run s'(4,2)] s'(3-5)]) (use s'(1) in simp)
qed

lemma set_frame_running:
  assumes run: "running A rt b K c s" 
    and tf: "\<not> is_illegal_va tf" "unat tf mod 4 = 0" "unat tf mod 4096 + 152 \<le> 4096" "mapping s (rt c) tf = Some te"
  shows "\<exists>t v. sys_set_trapframe 0 tf s = Some (Ret (Inr v), s\<lparr>tlb := t, kstack_tf :=
    tf_of_words (map (\<lambda>i. pmem s (pte_page te) (unat tf mod 4096 div 4 + i)) [0..<38])\<rparr>)"
proof -
  note r = runningD [OF run] and top = legal_va [OF tf(1)]
  have st: "unat (tf + 148) = unat tf + 148" "tf + 148 < UTOP"
    using page_step(1,3) [OF top tf(2), of 37] tf(3) by simp_all
  then have "unat tf < 2134900588" by (simp add: word_less_nat_alt mmu_layout)
  then have "unat tf \<le> 2134900584" using tf(2) by presburger
  then have "unat (tf + 152) = unat tf + 152" "tf + 152 \<le> UTOP"
    by (simp_all add: word_le_nat_alt mmu_layout unat_word_ariths)
  then have "\<not> is_illegal_va_range tf 152"
    using tf(1) by (simp add: is_illegal_va_range_def is_illegal_va_def word_less_nat_alt word_le_nat_alt not_less)
  then show ?thesis
    using read_words_mapped [OF run top tf(2) _ tf(4), of 38] tf(3) r(2)
    by (auto simp: sys_set_trapframe_def with_env_ok [OF r(2), of 0] simp del: upt_Suc upt_rec_numeral)
qed

lemma rounded:
  assumes "\<not> is_illegal_va va"
  shows "ROUNDDOWN va BY2PG < UTOP" "VPN (ROUNDDOWN va BY2PG) = VPN va" "unat (ROUNDDOWN va BY2PG) mod 4096 = 0"
    "\<not> is_illegal_va (ROUNDDOWN va BY2PG)"
proof -
  have r: "ROUNDDOWN va BY2PG = PTE_ADDR va" by (simp add: ROUNDDOWN_def PTE_ADDR_def)
  have u: "unat (PTE_ADDR va) = unat va div 4096 * 4096" by (simp add: unat_PTE_ADDR)
  have b: "4186112 \<le> unat va" "unat va < 2134900736"
    using assms by (auto simp: is_illegal_va_def word_less_nat_alt word_le_nat_alt mmu_layout)
  then have "unat va div 4096 * 4096 < 2134900736" "4186112 div 4096 * 4096 \<le> unat va div 4096 * 4096"
    by (meson div_times_less_eq_dividend le_less_trans, intro mult_le_mono1 div_le_mono)
  then show "ROUNDDOWN va BY2PG < UTOP" "\<not> is_illegal_va (ROUNDDOWN va BY2PG)"
    unfolding r by (simp_all add: is_illegal_va_def word_less_nat_alt word_le_nat_alt u) (simp_all add: mmu_layout)
  show "VPN (ROUNDDOWN va BY2PG) = VPN va" "unat (ROUNDDOWN va BY2PG) mod 4096 = 0"
    unfolding r u by simp_all
qed

text \<open>The first free page is mapped nowhere.\<close>

lemma head_page:
  assumes inv: "kern_inv A rt b K s" and free: "list_rep (page_free_list s) (p # xs)"
  shows "p < 1048576" and "\<forall>d \<in> A. \<forall>w < UTOP. \<forall>x. mapping s (rt d) w = Some x \<longrightarrow> pte_page x \<noteq> p"
proof -
  obtain ys where vm: "vm_inv (dir_slots (rt ` A) b) (dir_refs (rt ` A) b K) ys s" "list_rep (page_free_list s) ys"
    by (rule kern_vm [OF inv])
  then have ys: "ys = p # xs" using list_rep_unique [OF free] by simp
  then have p: "p < unat (npage s)" "pp_ref s p = 0" "unat (npage s) \<le> 131072"
    using vm_invD(1,4) [OF vm(1)] by (auto simp: free_ok_def)
  then show "p < 1048576" by simp
  show "\<forall>d \<in> A. \<forall>w < UTOP. \<forall>x. mapping s (rt d) w = Some x \<longrightarrow> pte_page x \<noteq> p"
    using mapped_ref [OF vm(1) env_slot] p(2) by blast
qed

lemma pte_writable: "mk_pte p ((q OR PTE_D) XOR PTE_COW) AND PTE_D \<noteq> 0"
proof -
  have "bit (mk_pte p ((q OR 2 ^ 10) XOR 2 ^ 0)) 10" by (simp add: mk_pte_def bit_simps)
  then show ?thesis using and_exp_eq_0_iff_not_bit [of "mk_pte p ((q OR 2 ^ 10) XOR 2 ^ 0)" 10] by simp
qed

text \<open>The two halves of the handler: filling the new page at \<^verbatim>\<open>UCOW\<close>, and moving it into place.\<close>

lemma UCOW_legal: "\<not> is_illegal_va UCOW" "UCOW < UTOP" "unat UCOW mod 4096 = 0"
  by (simp_all add: is_illegal_va_def mmu_layout)

lemma cow_fill:
  assumes run: "running A rt b K c s" and wa: "wa < UTOP" "unat wa mod 4096 = 0" "mapping s (rt c) wa = Some pte"
    and perm: "perm_ok perm" "mk_pte p perm AND PTE_D \<noteq> 0" and ne: "VPN wa \<noteq> VPN UCOW"
    and ucow: "mapping s (rt c) UCOW = None"
    and free: "list_rep (page_free_list s) (p # xs)" and room: "\<not> no_room (rt c) UCOW xs s"
  obtains s2 s3 where "or_panic (sys_mem_alloc 0 UCOW perm s) = Some s2" "copy_page UCOW wa s2 = Some s3"
    "running A rt b K c s3" "spaces_upd A rt c UCOW (Some (mk_pte p perm)) s s3" "pp_ref s3 p = 1"
    "\<And>i. i < 1024 \<Longrightarrow> pmem s3 p i = pmem s (pte_page pte) i"
    "\<And>d w x. d \<in> A \<Longrightarrow> w < UTOP \<Longrightarrow> mapping s3 (rt d) w = Some x \<Longrightarrow> pte_page x \<noteq> p \<Longrightarrow>
       pmem s3 (pte_page x) = pmem s (pte_page x)"
proof -
  note r = runningD [OF run] and uc = UCOW_legal
  note pp = head_page [OF r(1) free]
  have pg: "pte_page (mk_pte p perm) = p" using pp(1) perm(1) by simp
  have old: "pte_page pte \<noteq> p" using pp(2) r(3) wa(1,3) by blast
  obtain s2 where s2: "or_panic (sys_mem_alloc 0 UCOW perm s) = Some s2" "running A rt b K c s2"
    "spaces_upd A rt c UCOW (Some (mk_pte p perm)) s s2" "pp_ref s2 p = 1"
    "\<forall>d \<in> A. \<forall>w < UTOP. \<forall>x. mapping s2 (rt d) w = Some x \<longrightarrow> pte_page x \<noteq> p \<longrightarrow>
       pmem s2 (pte_page x) = pmem s (pte_page x)"
    by (rule alloc_running [OF run uc(1) perm(1) free room ucow])
  have m2: "mapping s2 (rt c) UCOW = Some (mk_pte p perm)" "mapping s2 (rt c) wa = Some pte"
    using s2(3) uc(2) r(3) wa ne by (auto simp: spaces_upd_def)
  let ?g = "\<lambda>i. if i < 1024 then pmem s2 (pte_page pte) i else pmem s2 p i"
  obtain t3 where t3: "copy_page UCOW wa s2 = Some (s2\<lparr>tlb := t3, pmem := (pmem s2)(p := ?g)\<rparr>)"
    using copy_page_ok [OF s2(2) wa(1,2) m2(2) uc(2,3) m2(1) perm(2), unfolded pg] old by blast
  define s3 where "s3 = s2\<lparr>tlb := t3, pmem := (pmem s2)(p := ?g)\<rparr>"
  note d = mapped_data [OF runningD(1,3) [OF s2(2)] uc(2) m2(1), unfolded pg]
  note st = data_store [OF s2(2) d(3,2) s3_def]
  show ?thesis
  proof (rule that [OF s2(1) t3 [folded s3_def] st(1)])
    show "spaces_upd A rt c UCOW (Some (mk_pte p perm)) s s3" using s2(3) st(2) by (simp add: spaces_upd_def)
    show "pp_ref s3 p = 1" using s2(4) by (simp add: s3_def)
    show "pmem s3 p i = pmem s (pte_page pte) i" if "i < 1024" for i
      using that s2(5) r(3) wa(1) m2(2) old by (simp add: s3_def)
    show "pmem s3 (pte_page x) = pmem s (pte_page x)"
      if "d \<in> A" "w < UTOP" "mapping s3 (rt d) w = Some x" "pte_page x \<noteq> p" for d w x
      using that s2(5) st(2) by (simp add: s3_def)
  qed
qed

lemma cow_move:
  assumes run: "running A rt b K c s" and m: "mapping s (rt c) UCOW = Some (mk_pte p perm)" "perm_ok perm" "p < 1048576"
    and ref: "pp_ref s p = 1" and wa: "\<not> is_illegal_va wa" "mapping s (rt c) wa = Some pte" "VPN wa \<noteq> VPN UCOW"
  obtains s4 s5 where "or_panic (sys_mem_map 0 UCOW 0 wa perm s) = Some s4" "or_panic (sys_mem_unmap 0 UCOW s4) = Some s5"
    "running A rt b K c s5" "data_kept (dir_slots (rt ` A) b) s s5"
    "\<And>d w. d \<in> A \<Longrightarrow> w < UTOP \<Longrightarrow> mapping s5 (rt d) w =
       (if d = c \<and> VPN w = VPN wa then Some (mk_pte p perm)
        else if d = c \<and> VPN w = VPN UCOW then None else mapping s (rt d) w)"
proof -
  note cA = runningD(3) [OF run] and uc = UCOW_legal
  have pg: "pte_page (mk_pte p perm) = p" using m by simp
  have rf: "pp_ref s (pte_page (mk_pte p perm)) \<noteq> 65535" using ref by (simp add: pg)
  obtain s4 where s4: "or_panic (sys_mem_map 0 UCOW 0 wa perm s) = Some s4" "running A rt b K c s4"
    "spaces_upd A rt c wa (Some (mk_pte p perm)) s s4" "data_kept (dir_slots (rt ` A) b) s s4"
    by (rule map_running [OF run _ cA uc(1) wa(1) m(2,1) rf mapped_room [OF wa(2)], of 0]) (simp_all add: pg)
  obtain s5 where s5: "or_panic (sys_mem_unmap 0 UCOW s4) = Some s5" "running A rt b K c s5"
    "spaces_upd A rt c UCOW None s4 s5" "data_kept (dir_slots (rt ` A) b) s4 s5"
    by (rule unmap_running [OF s4(2) uc(1)])
  show ?thesis
    by (rule that [OF s4(1) s5(1,2) data_kept_trans [OF s4(4) s5(4)]])
      (use s4(3) s5(3) wa(3) in \<open>auto simp: spaces_upd_def\<close>)
qed

text \<open>C19. \<^verbatim>\<open>cow_entry\<close> for a write to a copy-on-write page (a free page, room for a table at \<^verbatim>\<open>UCOW\<close>,
  and the trap frame on another page): it returns, and afterwards the address maps a page of its
  own, writable and no longer copy-on-write, with the 1024 words of the shared one.  No other
  mapping of any environment changes (\<^verbatim>\<open>UCOW\<close> is unmapped again), every other mapped page keeps
  its contents, and the process continues with the registers saved in the trap frame.\<close>

theorem cow_entry_correct:
  fixes tf :: u32 and s :: kstate
  defines "F \<equiv> \<lambda>te i. pmem s (pte_page te) (unat tf mod 4096 div 4 + i)"
  assumes run: "running A rt b K c s" and self: "self_map (rt c) s"
    and tf: "\<not> is_illegal_va tf" "unat tf mod 4 = 0" "unat tf mod 4096 + 152 \<le> 4096" "mapping s (rt c) tf = Some te"
    and va: "va = F te 35" "\<not> is_illegal_va va" and m: "mapping s (rt c) va = Some pte" and cow: "pte AND PTE_COW \<noteq> 0"
    and pages: "VPN tf \<noteq> VPN va" "VPN va \<noteq> VPN UCOW" and ucow: "mapping s (rt c) UCOW = None"
    and free: "list_rep (page_free_list s) (p # xs)" and room: "\<not> no_room (rt c) UCOW xs s"
  shows "\<exists>s'. cow_entry tf s = Some s' \<and> running A rt b K c s' \<and>
    spaces_upd A rt c va (Some (mk_pte p ((pte_perm pte OR PTE_D) XOR PTE_COW))) s s' \<and>
    (\<forall>i < 1024. pmem s' p i = pmem s (pte_page pte) i) \<and>
    (\<forall>d \<in> A. \<forall>w < UTOP. \<forall>x. mapping s' (rt d) w = Some x \<longrightarrow> pte_page x \<noteq> p \<longrightarrow>
       pmem s' (pte_page x) = pmem s (pte_page x)) \<and>
    kstack_tf s' = tf_of_words (map (F te) [0..<38])"
proof -
  let ?perm = "(pte_perm pte OR PTE_D) XOR PTE_COW" and ?wa = "ROUNDDOWN va BY2PG"
  note r = runningD [OF run] and top = legal_va [OF tf(1)] legal_va [OF va(2)] and wa = rounded [OF va(2)]
  note pp = head_page [OF r(1) free]
  have pg: "pte_page (mk_pte p ?perm) = p" using pp(1) by simp
  have mw: "mapping s (rt c) ?wa = Some pte" using same_VPN_mapping [OF wa(2), of s "rt c"] m by simp
  obtain t0 where t0: "read_word (tf + 140) s = Some (va, s\<lparr>tlb := t0\<rparr>)"
    using read_step [OF run top(1) tf(2) _ tf(4), of 35] tf(3) va(1) by (auto simp: F_def)
  obtain t1 where t1: "vpt (VPN va) (s\<lparr>tlb := t0\<rparr>) = Some (pte, s\<lparr>tlb := t1\<rparr>)"
    using vpt_mapped [of A rt b K c "s\<lparr>tlb := t0\<rparr>" va pte] run self top(2) m by (auto simp: self_map_def)
  obtain s2 s3 where s3: "or_panic (sys_mem_alloc 0 UCOW ?perm (s\<lparr>tlb := t1\<rparr>)) = Some s2" "copy_page UCOW ?wa s2 = Some s3"
    "running A rt b K c s3" "spaces_upd A rt c UCOW (Some (mk_pte p ?perm)) s s3" "pp_ref s3 p = 1"
    "\<And>i. i < 1024 \<Longrightarrow> pmem s3 p i = pmem s (pte_page pte) i"
    "\<And>d w x. d \<in> A \<Longrightarrow> w < UTOP \<Longrightarrow> mapping s3 (rt d) w = Some x \<Longrightarrow> pte_page x \<noteq> p \<Longrightarrow>
       pmem s3 (pte_page x) = pmem s (pte_page x)"
    by (rule cow_fill [of A rt b K c "s\<lparr>tlb := t1\<rparr>" ?wa pte ?perm p xs])
      (use run wa mw pages(2) ucow free room pte_writable in simp_all)
  have m3: "mapping s3 (rt c) UCOW = Some (mk_pte p ?perm)" "mapping s3 (rt c) ?wa = Some pte"
    using s3(4) r(3) UCOW_legal(2) wa mw pages(2) by (simp_all add: spaces_upd_def)
  obtain s4 s5 where s5: "or_panic (sys_mem_map 0 UCOW 0 ?wa ?perm s3) = Some s4" "or_panic (sys_mem_unmap 0 UCOW s4) = Some s5"
    "running A rt b K c s5" "data_kept (dir_slots (rt ` A) b) s3 s5"
    "\<And>d w. d \<in> A \<Longrightarrow> w < UTOP \<Longrightarrow> mapping s5 (rt d) w =
       (if d = c \<and> VPN w = VPN va then Some (mk_pte p ?perm)
        else if d = c \<and> VPN w = VPN UCOW then None else mapping s3 (rt d) w)"
    by (rule cow_move [OF s3(3) m3(1) _ pp(1) s3(5) wa(4) m3(2)]) (use pages(2) in \<open>simp_all add: wa(2)\<close>)
  have upd: "spaces_upd A rt c va (Some (mk_pte p ?perm)) s s5"
    using s5(5) s3(4) ucow by (auto simp: spaces_upd_def dest!: same_VPN_mapping [of _ UCOW s "rt c"])
  have kept: "pmem s5 (pte_page x) = pmem s3 (pte_page x)" if "d \<in> A" "w < UTOP" "mapping s5 (rt d) w = Some x" for d w x
    by (rule kept_mapped [OF runningD(1) [OF s5(3)] s5(4) that])
  have all: "pmem s5 (pte_page x) = pmem s (pte_page x)"
    if "d \<in> A" "w < UTOP" "mapping s5 (rt d) w = Some x" "pte_page x \<noteq> p" for d w x
    using kept [OF that(1-3)] s3(7) [OF that(1,2) _ that(4)] s5(5) [OF that(1,2)] that(3,4) pg by (auto split: if_splits)
  have m5: "mapping s5 (rt c) tf = Some te" "mapping s5 (rt c) va = Some (mk_pte p ?perm)"
    using upd r(3) top pages(1) tf(4) by (simp_all add: spaces_upd_def)
  have new: "pmem s5 p i = pmem s (pte_page pte) i" if "i < 1024" for i
    using kept [OF r(3) top(2) m5(2)] s3(6) [OF that] by (simp add: pg)
  have te: "pmem s5 (pte_page te) = pmem s (pte_page te)"
    using all [OF r(3) top(1) m5(1)] pp(2) r(3) top(1) tf(4) by blast
  obtain t6 v where s6: "sys_set_trapframe 0 tf s5 = Some (Ret (Inr v), s5\<lparr>tlb := t6, kstack_tf := tf_of_words (map (F te) [0..<38])\<rparr>)"
    using set_frame_running [OF s5(3) tf(1-3) m5(1)] unfolding te F_def by blast
  have "(pte AND 0xfff) AND PTE_COW \<noteq> 0" using cow by (simp add: and.assoc)
  then have "cow_entry tf s = Some (s5\<lparr>tlb := t6, kstack_tf := tf_of_words (map (F te) [0..<38])\<rparr>)"
    using t0 t1 s3(1,2) s5(1,2) s6 by (simp add: cow_entry_def pte_perm_def Let_def)
  moreover have "spaces_upd A rt c va (Some (mk_pte p ?perm)) s (s5\<lparr>tlb := t6, kstack_tf := tf_of_words (map (F te) [0..<38])\<rparr>)"
    using upd by (simp add: spaces_upd_def)
  ultimately show ?thesis using s5(3) new all by simp
qed

section \<open>A machine with a parent and a child\<close>

text \<open>Environment 0 maps page 6 at \<open>0x802000\<close> and page 7 at \<open>0x803000\<close>; word 35 of page 7 is the address
  of page 6.  Environment 2 is its child and maps nothing.\<close>

definition pair_env :: "nat \<Rightarrow> Env" where
  "pair_env e = (if e = 2 then (small_env 2)\<lparr>env_status := 2, env_id := 0x1002, env_parent_id := 0x800,
     env_pgdir := pgdir_kva 5, env_asid := 2\<rparr> else (small_env e)\<lparr>env_pgdir := pgdir_kva 3\<rparr>)"

definition pair_mem :: "u32 \<Rightarrow> nat \<Rightarrow> nat \<Rightarrow> u32" where
  "pair_mem perm p i = (if p = 3 \<and> i = 511 then page2pa 3 OR PTE_V else if p = 3 \<and> i = 2 then mk_pte 4 PTE_D
     else if p = 4 \<and> i = 2 then mk_pte 6 perm else if p = 4 \<and> i = 3 then mk_pte 7 PTE_D
     else if p = 7 \<and> i = 35 then 0x802000 else 0)"

definition pair :: "u32 \<Rightarrow> kstate" where
  "pair perm = small\<lparr>pp_ref := (\<lambda>p. if p \<le> 7 then 1 else 0),
     page_free_list := fold LIST_INSERT_HEAD [8..<16] (LIST_INIT list_q_zero),
     pmem := pair_mem perm, cur_pgdir := pgdir_kva 3,
     envs := pair_env, asid_bitmap := (\<lambda>i. if i = 0 then 5 else 0)\<rparr>"

lemma pair_sel [simp]:
  "npage (pair q) = 16" "pp_ref (pair q) p = (if p \<le> 7 then 1 else 0)" "envs (pair q) = pair_env"
  "pmem (pair q) = pair_mem q" "curenv (pair q) = Some 0"
  "base_pgdir (pair q) = pgdir_kva 2" "cur_pgdir (pair q) = pgdir_kva 3"
  by (simp_all add: pair_def)

abbreviation (input) pair_rt :: "nat \<Rightarrow> nat" where "pair_rt \<equiv> (\<lambda>e. if e = 0 then 3 else 5)"
abbreviation (input) pair_S :: "(nat \<times> nat) set" where "pair_S \<equiv> dir_slots {3, 5} 2"
abbreviation (input) pair_K :: "nat \<Rightarrow> nat" where "pair_K \<equiv> (\<lambda>p. if p \<le> 1 then 1 else 0)"

lemma pair_free: "list_rep (page_free_list (pair q)) (rev [8..<16])"
  using lq.push_all [OF LIST_INIT_rep, of "[8..<16]" "list_q_zero"] by (simp add: pair_def)

lemma pair_live: "live pair_S (pair q) = {(3, 2)}"
  by (auto simp: live_def dir_slots_def pair_mem_def split: if_splits)

lemma pair_tab: "tab (pair q) 3 2 = 4" by (simp add: tab_def pair_mem_def)

lemma pair_tables: "tables pair_S (pair q) = {4}"
  by (simp add: tables_def pair_live pair_tab)

lemma pair_pte_at:
  assumes "(r, i) \<in> pair_S"
  shows "pte_at (pair q) r i j = (if r = 3 \<and> i = 2 then
     if j = 2 then Some (mk_pte 6 q) else if j = 3 then Some (mk_pte 7 PTE_D) else None else None)"
proof -
  have "valid (pmem (pair q) r i) \<longleftrightarrow> r = 3 \<and> i = 2" using pair_live [of q] assms by (auto simp: live_def)
  then show ?thesis using pair_tab [of q] by (auto simp: pte_at_def pair_mem_def)
qed

lemma pair_refs:
  assumes "perm_ok q"
  shows "refs pair_S (pair q) p = (if p = 6 then {(3, 2, 2)} else if p = 7 then {(3, 2, 3)} else {})"
proof -
  have "(3, 2) \<in> pair_S" by (simp add: dir_slots_def)
  then show ?thesis using assms pair_pte_at [of 3 2 q] by (auto simp: refs_def pair_pte_at split: if_splits)
qed

lemma pair_vm:
  assumes "perm_ok q"
  shows "vm_inv pair_S (dir_refs {3, 5} 2 pair_K) (rev [8..<16]) (pair q)"
proof -
  have "free_ok (rev [8..<16]) (pair q)" using pair_free by (auto simp: free_ok_def)
  moreover have "slots_ok pair_S (dir_refs {3, 5} 2 pair_K) (pair q)"
    unfolding slots_ok_def pair_live by (auto simp: pair_tab dir_slots_def dir_refs_def)
  moreover have "data_ok pair_S (pair q)"
    using assms by (auto simp: data_ok_def pair_pte_at pair_tables dir_slots_fst split: if_splits)
  moreover have "refs_ok pair_S (dir_refs {3, 5} 2 pair_K) (pair q)"
    using assms by (auto simp: refs_ok_def pair_refs pair_tables dir_refs_def)
  ultimately show ?thesis by (simp add: vm_inv_def)
qed

lemma pair_running:
  assumes "perm_ok q"
  shows "running {0, 2} pair_rt 2 pair_K 0 (pair q)"
proof -
  have "set (rev [8..<16]) = {8..<16 :: nat}" by (simp only: set_rev set_upt)
  then have "no_leak (rev [8..<16]) (pair q)" by (simp only: no_leak_def) auto
  then have "space_inv pair_S (dir_refs {3, 5} 2 pair_K) (pair q)"
    unfolding space_inv_def by (intro exI conjI) (rule pair_vm [OF assms])
  moreover have "pair_rt ` {0, 2} = {3, 5}" by auto
  ultimately have "space_inv (dir_slots (pair_rt ` {0, 2}) 2) (dir_refs (pair_rt ` {0, 2}) 2 pair_K) (pair q)"
    by simp
  moreover have "0 \<in> asids (pair q)" "2 \<in> asids (pair q)"
    by (simp_all add: asids_def asid_bit_def pair_def)
  ultimately show ?thesis
    by (auto simp: running_def kern_inv_def pair_env_def)
qed

lemma pair_maps:
  "mapping (pair q) 3 0x802000 = Some (mk_pte 6 q)" "mapping (pair q) 3 0x803000 = Some (mk_pte 7 PTE_D)"
  "mapping (pair q) 5 0x802000 = None" "mapping (pair q) 3 UCOW = None" "self_map 3 (pair q)"
  by (simp_all add: mapping_def pair_pte_at dir_slots_def unat_PDX unat_PTX mmu_layout self_map_def pair_mem_def)

lemma pair_room: "list_rep (page_free_list (pair q)) xs \<Longrightarrow> \<not> no_room r va xs (pair q)"
  using list_rep_unique [OF pair_free, of q xs] by (auto simp: no_room_def)

lemma pair_legal: "\<not> is_illegal_va 0x802000" "\<not> is_illegal_va 0x803000" "VPN 0x802000 * BY2PG = 0x802000"
  by (simp_all add: is_illegal_va_def mmu_layout VPN_def)

theorem duppage_correct_witness:
  "\<exists>s'. duppage 0x1002 (VPN 0x802000) (pair PTE_D) = Some s' \<and>
     mapping s' 5 0x802000 = Some (mk_pte 6 PTE_COW) \<and> mapping s' 3 0x802000 = Some (mk_pte 6 PTE_COW)"
proof -
  have c: "may_name (pair PTE_D) 0 0x1002 2"
    by (simp add: may_name_def ENVX_def pair_env_def small_env_def)
  have e: "pte_page (mk_pte 6 PTE_D) = 6" by simp
  have q: "shared_perm (pte_perm (mk_pte 6 PTE_D)) = PTE_COW OR PTE_V"
    by (simp add: mk_pte_def pte_perm_def shared_perm_def page2pa_def page2ppn_def)
  have "mk_pte 6 (PTE_COW OR PTE_V) = mk_pte 6 PTE_COW" by (simp add: mk_pte_def)
  then show ?thesis
    using duppage_correct [OF pair_running [of PTE_D] _ c _ _ pair_legal(1,3) _ _ _ _ pair_room, of "mk_pte 6 PTE_D"]
      pair_maps [of PTE_D] legal_va [OF pair_legal(1)]
    by (force simp: q e)
qed

theorem cow_entry_correct_witness:
  "\<exists>s'. cow_entry 0x803000 (pair PTE_COW) = Some s' \<and> mapping s' 3 0x802000 = Some (mk_pte 15 PTE_D)"
proof -
  have f: "list_rep (page_free_list (pair PTE_COW)) (15 # [14, 13, 12, 11, 10, 9, 8])"
    using pair_free [of PTE_COW] by (simp add: upt_rec)
  have q: "(pte_perm (mk_pte 6 PTE_COW) OR PTE_D) XOR PTE_COW = PTE_D OR PTE_V"
    by (simp add: mk_pte_def pte_perm_def page2pa_def page2ppn_def)
  have va: "0x802000 = pmem (pair PTE_COW) (pte_page (mk_pte 7 PTE_D)) (unat (0x803000 :: u32) mod 4096 div 4 + 35)"
    by (simp add: pair_mem_def)
  have h: "mk_pte 6 PTE_COW AND PTE_COW \<noteq> 0" "\<not> no_room 3 UCOW [14, 13, 12, 11, 10, 9, 8] (pair PTE_COW)"
    by (simp_all add: mk_pte_def page2pa_def page2ppn_def no_room_def)
  have v: "VPN 0x803000 \<noteq> VPN 0x802000" "VPN 0x802000 \<noteq> VPN UCOW" by (simp_all add: VPN_def mmu_layout)
  obtain s' where s': "cow_entry 0x803000 (pair PTE_COW) = Some s'"
    "spaces_upd {0, 2} pair_rt 0 0x802000 (Some (mk_pte 15 ((pte_perm (mk_pte 6 PTE_COW) OR PTE_D) XOR PTE_COW))) (pair PTE_COW) s'"
    using cow_entry_correct [OF pair_running [of PTE_COW] _ pair_legal(2) _ _ _ va pair_legal(1) _ h(1) v _ f]
      pair_maps [of PTE_COW] h(2) by auto
  have "mk_pte 15 (PTE_D OR PTE_V) = mk_pte 15 PTE_D" by (simp add: mk_pte_def)
  then show ?thesis
    using s' legal_va [OF pair_legal(1)] unfolding q spaces_upd_def by force
qed

end
