(* ===== verification/Umem.thy ===== *)
theory Umem
  imports Fs_Mem
begin

text \<open>
  What a user process sees of the machine: its page table, with the physical frames behind the
  pages so that sharing is visible, the contents of the frames, their reference counts, and the
  memory system calls it makes on itself.  A load or store at an address that is not mapped adds a
  zero page (\<^verbatim>\<open>passive_alloc\<close>), reading \<^verbatim>\<open>vpt\<close> where there is no table adds a table, and a store to a
  copy-on-write page runs \<^verbatim>\<open>cow_entry\<close>.

  What is not part of the process are components that no function changes: whether the kernel has
  a page for the \<open>n\<close>-th request (\<open>no_mem\<close>), what the other environments do to shared frames and to
  reference counts while it yields for the \<open>n\<close>-th time (\<open>others\<close>), the characters typed (\<open>cin\<close>),
  what the file server answers to its \<open>n\<close>-th request and does to shared frames meanwhile
  (\<open>fs_answer\<close>), and the addresses the linker chose.
\<close>

section \<open>State\<close>

text \<open>A frame the process got by allocation, or one that came from elsewhere.\<close>

datatype frame = Own nat | Shared nat

type_synonym world = "(frame \<Rightarrow> u32 \<Rightarrow> u8) \<times> (frame \<Rightarrow> nat)"

text \<open>A reply of the file server: the value, the permission, the page sent along.\<close>

type_synonym answer = "u32 \<times> u32 \<times> frame option"

record uproc =
  utab :: "nat \<Rightarrow> (frame \<times> u32) option"
  upd :: "nat \<Rightarrow> bool"
  ram :: "frame \<Rightarrow> u32 \<Rightarrow> u8"
  frefs :: "frame \<Rightarrow> nat"
  nframe :: nat
  no_mem :: "nat \<Rightarrow> bool"
  ntake :: nat
  others :: "nat \<Rightarrow> world \<Rightarrow> world"
  nyield :: nat
  cin :: "nat \<Rightarrow> u32"
  ncin :: nat
  cout :: "u8 list"
  fs_answer :: "nat \<Rightarrow> u32 \<Rightarrow> (u32 \<Rightarrow> u8) option \<Rightarrow> world \<Rightarrow> answer \<times> world"
  reqs :: "(u32 \<times> (u32 \<Rightarrow> u8) option) list"
  User_BY2CLUS :: u32
  fsipcbuf :: u32
  Fat_buf :: u32
  dev_va :: "u32 \<Rightarrow> u32"

text \<open>A negated error code, and the test \<^verbatim>\<open>r < 0\<close> on an \<^verbatim>\<open>int\<close>.\<close>

abbreviation neg :: "err \<Rightarrow> u32" where "neg e \<equiv> ret_word (Inl e)"

definition is_err :: "u32 \<Rightarrow> bool" where
  "is_err r \<longleftrightarrow> sint r < 0"

section \<open>Memory system calls\<close>

definition take_page :: "uproc \<Rightarrow> bool \<times> uproc" where
  "take_page s = (\<not> no_mem s (ntake s), s\<lparr>ntake := ntake s + 1\<rparr>)"

text \<open>The table for page \<open>p\<close>, allocated when it is missing.\<close>

definition need_table :: "nat \<Rightarrow> uproc \<Rightarrow> bool \<times> uproc" where
  "need_table p s = (if upd s (p div 1024) then (True, s)
     else case take_page s of (ok, s1) \<Rightarrow>
       (ok, if ok then s1\<lparr>upd := (upd s1)(p div 1024 := True)\<rparr> else s1))"

definition unmap_page :: "nat \<Rightarrow> uproc \<Rightarrow> uproc" where
  "unmap_page p s = (case utab s p of None \<Rightarrow> s
     | Some (f, _) \<Rightarrow> s\<lparr>utab := (utab s)(p := None), frefs := (frefs s)(f := frefs s f - 1)\<rparr>)"

definition map_page :: "nat \<Rightarrow> frame \<Rightarrow> u32 \<Rightarrow> uproc \<Rightarrow> uproc" where
  "map_page p f perm s = (let s1 = unmap_page p s in
     s1\<lparr>utab := (utab s1)(p := Some (f, perm OR PTE_V)), frefs := (frefs s1)(f := frefs s1 f + 1)\<rparr>)"

text \<open>A new zero page at page \<open>p\<close>.\<close>

definition new_page :: "nat \<Rightarrow> u32 \<Rightarrow> uproc \<Rightarrow> bool \<times> uproc" where
  "new_page p perm s = (case take_page s of (ok, s1) \<Rightarrow> if \<not> ok then (False, s1)
     else case need_table p s1 of (ok2, s2) \<Rightarrow> if \<not> ok2 then (False, s2)
     else let f = Own (nframe s2) in
       (True, map_page p f perm (s2\<lparr>nframe := nframe s2 + 1, ram := (ram s2)(f := (\<lambda>_. 0)),
          frefs := (frefs s2)(f := 0)\<rparr>)))"

definition u_mem_alloc :: "u32 \<Rightarrow> u32 \<Rightarrow> uproc \<Rightarrow> u32 \<times> uproc" where
  "u_mem_alloc va perm s = (if is_illegal_va va then (neg E_INVAL, s)
     else case new_page (upage va) perm s of (ok, s1) \<Rightarrow> (if ok then 0 else neg E_NO_MEM, s1))"

definition u_mem_map :: "u32 \<Rightarrow> u32 \<Rightarrow> u32 \<Rightarrow> uproc \<Rightarrow> u32 \<times> uproc" where
  "u_mem_map srcva dstva perm s = (if is_illegal_va srcva \<or> is_illegal_va dstva then (neg E_INVAL, s)
     else case utab s (upage srcva) of
       None \<Rightarrow> (neg E_INVAL, s)
     | Some (f, _) \<Rightarrow> (case need_table (upage dstva) s of (ok, s1) \<Rightarrow>
         if ok then (0, map_page (upage dstva) f perm s1) else (neg E_NO_MEM, s1)))"

definition u_mem_unmap :: "u32 \<Rightarrow> uproc \<Rightarrow> u32 \<times> uproc" where
  "u_mem_unmap va s = (if is_illegal_va va then (neg E_INVAL, s) else (0, unmap_page (upage va) s))"

text \<open>\<^verbatim>\<open>syscall_yield\<close>.\<close>

definition u_yield :: "uproc \<Rightarrow> uproc" where
  "u_yield s = (case others s (nyield s) (ram s, frefs s) of (m, r) \<Rightarrow>
     s\<lparr>nyield := nyield s + 1, ram := m, frefs := r\<rparr>)"

section \<open>Page tables as the process reads them\<close>

definition uvpd :: "nat \<Rightarrow> uproc \<Rightarrow> bool" where
  "uvpd i s = upd s i"

definition uvpt :: "nat \<Rightarrow> uproc \<Rightarrow> ((frame \<times> u32) option \<times> uproc) option" where
  "uvpt vpn s = (case need_table vpn s of (ok, s1) \<Rightarrow> if ok then Some (utab s1 vpn, s1) else None)"

definition entry_flags :: "(frame \<times> u32) option \<Rightarrow> u32" where
  "entry_flags e = (case e of None \<Rightarrow> 0 | Some (_, q) \<Rightarrow> q)"

section \<open>Loads and stores\<close>

definition touch :: "u32 \<Rightarrow> uproc \<Rightarrow> ((frame \<times> u32) \<times> uproc) option" where
  "touch va s = (case utab s (upage va) of
     Some e \<Rightarrow> Some (e, s)
   | None \<Rightarrow> if \<not> passive_ok va then None
       else case new_page (upage va) PTE_D s of (ok, s1) \<Rightarrow>
         if ok then map_option (\<lambda>e. (e, s1)) (utab s1 (upage va)) else None)"

text \<open>\<^verbatim>\<open>cow_entry\<close> seen by the process: a copy through \<^verbatim>\<open>UCOW\<close>.\<close>

definition cow_fault :: "u32 \<Rightarrow> frame \<Rightarrow> u32 \<Rightarrow> uproc \<Rightarrow> uproc option" where
  "cow_fault va f q s = (let perm = (q OR PTE_D) XOR PTE_COW in
     if q AND PTE_COW = 0 then None
     else case u_mem_alloc UCOW perm s of (r, s1) \<Rightarrow> if r \<noteq> 0 then None
     else do {
       (g, _) \<leftarrow> utab s1 (upage UCOW);
       let s2 = s1\<lparr>ram := (ram s1)(g := ram s1 f)\<rparr>;
       case u_mem_map UCOW va perm s2 of (r2, s3) \<Rightarrow> if r2 \<noteq> 0 then None
       else case u_mem_unmap UCOW s3 of (r3, s4) \<Rightarrow> if r3 \<noteq> 0 then None else Some s4 })"

text \<open>The frame a store goes to.\<close>

definition for_write :: "u32 \<Rightarrow> uproc \<Rightarrow> (frame \<times> uproc) option" where
  "for_write va s = do {
     ((f, q), s1) \<leftarrow> touch va s;
     if q AND PTE_D \<noteq> 0 then Some (f, s1)
     else do {
       s2 \<leftarrow> cow_fault (ROUNDDOWN va BY2PG) f q s1;
       (g, _) \<leftarrow> utab s2 (upage va);
       Some (g, s2) } }"

definition offset_of :: "u32 \<Rightarrow> u32" where
  "offset_of va = va AND 0xFFF"

definition ld8 :: "u32 \<Rightarrow> uproc \<Rightarrow> (u8 \<times> uproc) option" where
  "ld8 va s = do { ((f, _), s1) \<leftarrow> touch va s; Some (ram s1 f (offset_of va), s1) }"

definition st8 :: "u32 \<Rightarrow> u8 \<Rightarrow> uproc \<Rightarrow> uproc option" where
  "st8 va b s = do { (f, s1) \<leftarrow> for_write va s;
     Some (s1\<lparr>ram := (ram s1)(f := (ram s1 f)(offset_of va := b))\<rparr>) }"

definition ld32 :: "u32 \<Rightarrow> uproc \<Rightarrow> (u32 \<times> uproc) option" where
  "ld32 va s = (if unat va mod 4 \<noteq> 0 then None
     else do { ((f, _), s1) \<leftarrow> touch va s; Some (word_at (ram s1 f) (offset_of va), s1) })"

definition st32 :: "u32 \<Rightarrow> u32 \<Rightarrow> uproc \<Rightarrow> uproc option" where
  "st32 va v s = (if unat va mod 4 \<noteq> 0 then None
     else do { (f, s1) \<leftarrow> for_write va s;
       Some (s1\<lparr>ram := (ram s1)(f := put_word (offset_of va) v (ram s1 f))\<rparr>) })"

text \<open>\<^verbatim>\<open>memcpy\<close>, byte by byte; \<^verbatim>\<open>strcpy\<close> of a string held by the caller, and of one in memory.\<close>

definition u_memcpy :: "u32 \<Rightarrow> u32 \<Rightarrow> u32 \<Rightarrow> uproc \<Rightarrow> uproc option" where
  "u_memcpy dst src n = fold_opt (\<lambda>i s. do { (b, s1) \<leftarrow> ld8 (src + of_nat i) s; st8 (dst + of_nat i) b s1 }) [0..<unat n]"

definition put_str :: "u32 \<Rightarrow> u8 list \<Rightarrow> uproc \<Rightarrow> uproc option" where
  "put_str dst bs = fold_opt (\<lambda>i. st8 (dst + of_nat i) ((bs @ [0]) ! i)) [0..<Suc (length bs)]"

partial_function (option) u_strcpy :: "u32 \<Rightarrow> u32 \<Rightarrow> uproc \<Rightarrow> uproc option" where
  "u_strcpy dst src s = Option.bind (ld8 src s) (\<lambda>(b, s1). Option.bind (st8 dst b s1) (\<lambda>s2.
     if b = 0 then Some s2 else u_strcpy (dst + 1) (src + 1) s2))"

section \<open>Loops\<close>

text \<open>\<^verbatim>\<open>for (i = i; i < lim; i += stp)\<close> over unsigned numbers, with a body that may return.\<close>

partial_function (option) for_up ::
    "(u32 \<Rightarrow> uproc \<Rightarrow> (u32 option \<times> uproc) option) \<Rightarrow> u32 \<Rightarrow> u32 \<Rightarrow> u32 \<Rightarrow> uproc \<Rightarrow> (u32 option \<times> uproc) option" where
  "for_up body i lim stp s =
     (if i < lim then Option.bind (body i s) (\<lambda>(r, s1).
        case r of Some x \<Rightarrow> Some (Some x, s1) | None \<Rightarrow> for_up body (i + stp) lim stp s1)
      else Some (None, s))"

end
