(* ===== verification/Fsipc.thy ===== *)
theory Fsipc
  imports Umem
begin

text \<open>
  The first half of the descriptor layer: descriptor pages and numbers (\<^verbatim>\<open>user/lib/fd.c\<close>),
  reference counts (\<^verbatim>\<open>pageref.c\<close>), and the requests to the file server (\<^verbatim>\<open>fsipc.c\<close>, over
  \<^verbatim>\<open>ipc.c\<close>).  A function returns its \<^verbatim>\<open>int\<close> as a word; a C string argument is the list of its bytes.
  \<^verbatim>\<open>user_panic\<close> and \<^verbatim>\<open>user_assert\<close> of a false condition are \<^const>\<open>None\<close>.
\<close>

section \<open>Descriptor pages\<close>

abbreviation (input) MAXFD :: nat where "MAXFD \<equiv> 32"
abbreviation (input) FILEBASE :: u32 where "FILEBASE \<equiv> 0x60000000"
abbreviation (input) FDTABLE :: u32 where "FDTABLE \<equiv> 0x5fc00000"

definition INDEX2FD :: "u32 \<Rightarrow> u32" where
  "INDEX2FD i = FDTABLE + i * BY2PG"

definition INDEX2DATA :: "u32 \<Rightarrow> u32" where
  "INDEX2DATA i = FILEBASE + i * PDMAP"

text \<open>The members of \<^verbatim>\<open>struct Fd\<close>, \<^verbatim>\<open>struct Filefd\<close> and \<^verbatim>\<open>struct Fat32_Filefd\<close>.\<close>

abbreviation (input) fd_dev_id :: "u32 \<Rightarrow> u32" where "fd_dev_id fd \<equiv> fd"
abbreviation (input) fd_offset :: "u32 \<Rightarrow> u32" where "fd_offset fd \<equiv> fd + 4"
abbreviation (input) fd_omode :: "u32 \<Rightarrow> u32" where "fd_omode fd \<equiv> fd + 8"
abbreviation (input) fd_fat :: "u32 \<Rightarrow> u32" where "fd_fat fd \<equiv> fd + 12"
abbreviation (input) ff_fileid :: "u32 \<Rightarrow> u32" where "ff_fileid fd \<equiv> fd + 16"
abbreviation (input) ff_name :: "u32 \<Rightarrow> u32" where "ff_name fd \<equiv> fd + 20"
abbreviation (input) ff_size :: "u32 \<Rightarrow> u32" where "ff_size fd \<equiv> fd + 148"
abbreviation (input) ff_type :: "u32 \<Rightarrow> u32" where "ff_type fd \<equiv> fd + 152"
abbreviation (input) ff_FileSize :: "u32 \<Rightarrow> u32" where "ff_FileSize fd \<equiv> fd + 48"

definition fd2num :: "u32 \<Rightarrow> u32" where
  "fd2num fd = (fd - FDTABLE) div BY2PG"

definition num2fd :: "u32 \<Rightarrow> u32" where
  "num2fd n = n * BY2PG + FDTABLE"

definition fd2data :: "u32 \<Rightarrow> u32" where
  "fd2data fd = INDEX2DATA (fd2num fd)"

text \<open>The loop of \<^verbatim>\<open>fd_alloc\<close> from descriptor \<open>i\<close>; the second result is what it stores in \<^verbatim>\<open>*fd\<close>.\<close>

fun fd_alloc_from :: "nat list \<Rightarrow> uproc \<Rightarrow> ((u32 \<times> u32 option) \<times> uproc) option" where
  "fd_alloc_from [] s = Some ((neg E_MAX_OPEN, None), s)"
| "fd_alloc_from (i # is) s = (let va = INDEX2FD (of_nat i) in
     if \<not> uvpd (unat va div 4194304) s then Some ((0, Some va), s)
     else do {
       (e, s1) \<leftarrow> uvpt (upage va) s;
       if entry_flags e AND PTE_V = 0 then Some ((0, Some va), s1) else fd_alloc_from is s1 })"

definition fd_alloc :: "uproc \<Rightarrow> ((u32 \<times> u32 option) \<times> uproc) option" where
  "fd_alloc = fd_alloc_from [0..<MAXFD - 1]"

definition fd_close :: "u32 \<Rightarrow> uproc \<Rightarrow> uproc" where
  "fd_close fd s = snd (u_mem_unmap fd s)"

definition fd_lookup :: "u32 \<Rightarrow> uproc \<Rightarrow> ((u32 \<times> u32 option) \<times> uproc) option" where
  "fd_lookup fdnum s =
     (if sint fdnum \<ge> int MAXFD then None
      else let va = INDEX2FD fdnum in do {
        (e, s1) \<leftarrow> uvpt (upage va) s;
        Some (if entry_flags e AND PTE_V \<noteq> 0 then (0, Some va) else (neg E_INVAL, None), s1) })"

definition pageref_u :: "u32 \<Rightarrow> uproc \<Rightarrow> (u32 \<times> uproc) option" where
  "pageref_u v s =
     (if \<not> uvpd (unat v div 4194304) s then Some (0, s)
      else do {
        (e, s1) \<leftarrow> uvpt (upage v) s;
        Some (case e of Some (f, q) \<Rightarrow> if q AND PTE_V = 0 then 0 else of_nat (frefs s1 f) | None \<Rightarrow> 0, s1) })"

section \<open>Requests\<close>

abbreviation (input) FSREQ_FAT :: u32 where "FSREQ_FAT \<equiv> 0x10000"
abbreviation (input) MAXPATH :: nat where "MAXPATH \<equiv> 1024"

text \<open>\<^verbatim>\<open>fsipc\<close>, with \<^verbatim>\<open>ipc_send\<close> (which returns only when the server has taken the request, and fails an
  assertion when the page cannot be sent) and \<^verbatim>\<open>ipc_recv\<close>.  It gives the value and the permission
  received.  A page sent for which no table can be had is lost.\<close>

definition fsipc :: "u32 \<Rightarrow> u32 \<Rightarrow> u32 \<Rightarrow> uproc \<Rightarrow> ((u32 \<times> u32) \<times> uproc) option" where
  "fsipc type req dstva s =
     (if req \<noteq> 0 \<and> (is_illegal_va req \<or> utab s (upage req) = None) \<or> dstva \<noteq> 0 \<and> is_illegal_va dstva then None
      else let body = (if req = 0 then None else map_option (\<lambda>(f, _). ram s f) (utab s (upage req)));
               ((v, perm, pg), (m, rf)) = fs_answer s (length (reqs s)) type body (ram s, frefs s);
               s1 = s\<lparr>ram := m, frefs := rf, reqs := reqs s @ [(type, body)]\<rparr>
           in Some ((v, PTE_V OR perm), case pg of None \<Rightarrow> s1
                | Some f \<Rightarrow> (case need_table (upage dstva) s1 of (ok, s2) \<Rightarrow>
                    if ok then map_page (upage dstva) f perm s2 else s2)))"

text \<open>The calls that pass null for \<^verbatim>\<open>dstva\<close> and \<^verbatim>\<open>perm\<close>.\<close>

definition fsipc0 :: "u32 \<Rightarrow> u32 \<Rightarrow> uproc \<Rightarrow> (u32 \<times> uproc) option" where
  "fsipc0 type req s = map_option (\<lambda>((v, _), s1). (v, s1)) (fsipc type req 0 s)"

text \<open>A request of a path and the open mode, the native and the FAT32 one; then one of two words.\<close>

definition fsipc_open_req :: "u32 \<Rightarrow> u8 list \<Rightarrow> u32 \<Rightarrow> u32 \<Rightarrow> uproc \<Rightarrow> (u32 \<times> uproc) option" where
  "fsipc_open_req type path omode fd s =
     (if length path \<ge> MAXPATH then Some (neg E_BAD_PATH, s)
      else do {
        s1 \<leftarrow> put_str (fsipcbuf s) path s;
        s2 \<leftarrow> st32 (fsipcbuf s + 1024) omode s1;
        ((v, _), s3) \<leftarrow> fsipc type (fsipcbuf s) fd s2;
        Some (v, s3) })"

definition fsipc_open :: "u8 list \<Rightarrow> u32 \<Rightarrow> u32 \<Rightarrow> uproc \<Rightarrow> (u32 \<times> uproc) option" where
  "fsipc_open = fsipc_open_req 1"

definition fsipc_open_Fat32 :: "u8 list \<Rightarrow> u32 \<Rightarrow> u32 \<Rightarrow> uproc \<Rightarrow> (u32 \<times> uproc) option" where
  "fsipc_open_Fat32 = fsipc_open_req (FSREQ_FAT OR 1)"

definition put_req2 :: "u32 \<Rightarrow> u32 \<Rightarrow> uproc \<Rightarrow> uproc option" where
  "put_req2 a b s = Option.bind (st32 (fsipcbuf s) a s) (st32 (fsipcbuf s + 4) b)"

definition fsipc_map_req :: "u32 \<Rightarrow> u32 \<Rightarrow> u32 \<Rightarrow> u32 \<Rightarrow> uproc \<Rightarrow> (u32 \<times> uproc) option" where
  "fsipc_map_req type fileid off dstva s = do {
     s1 \<leftarrow> put_req2 fileid off s;
     ((r, perm), s2) \<leftarrow> fsipc type (fsipcbuf s) dstva s1;
     if is_err r then Some (r, s2)
     else if perm AND NOT (PTE_D OR PTE_LIBRARY) \<noteq> PTE_V then None
     else Some (0, s2) }"

definition fsipc_map :: "u32 \<Rightarrow> u32 \<Rightarrow> u32 \<Rightarrow> uproc \<Rightarrow> (u32 \<times> uproc) option" where
  "fsipc_map = fsipc_map_req 2"

definition fsipc_map_Fat32 :: "u32 \<Rightarrow> u32 \<Rightarrow> u32 \<Rightarrow> uproc \<Rightarrow> (u32 \<times> uproc) option" where
  "fsipc_map_Fat32 = fsipc_map_req (FSREQ_FAT OR 2)"

definition fsipc_req2 :: "u32 \<Rightarrow> u32 \<Rightarrow> u32 \<Rightarrow> uproc \<Rightarrow> (u32 \<times> uproc) option" where
  "fsipc_req2 type a b s = Option.bind (put_req2 a b s) (fsipc0 type (fsipcbuf s))"

definition fsipc_set_size :: "u32 \<Rightarrow> u32 \<Rightarrow> uproc \<Rightarrow> (u32 \<times> uproc) option" where
  "fsipc_set_size = fsipc_req2 3"

definition fsipc_set_size_Fat32 :: "u32 \<Rightarrow> u32 \<Rightarrow> uproc \<Rightarrow> (u32 \<times> uproc) option" where
  "fsipc_set_size_Fat32 = fsipc_req2 (FSREQ_FAT OR 3)"

definition fsipc_dirty :: "u32 \<Rightarrow> u32 \<Rightarrow> uproc \<Rightarrow> (u32 \<times> uproc) option" where
  "fsipc_dirty = fsipc_req2 5"

definition fsipc_dirty_Fat32 :: "u32 \<Rightarrow> u32 \<Rightarrow> uproc \<Rightarrow> (u32 \<times> uproc) option" where
  "fsipc_dirty_Fat32 = fsipc_req2 (FSREQ_FAT OR 5)"

definition fsipc_close :: "u32 \<Rightarrow> uproc \<Rightarrow> (u32 \<times> uproc) option" where
  "fsipc_close fileid s = Option.bind (st32 (fsipcbuf s) fileid s) (fsipc0 4 (fsipcbuf s))"

definition fsipc_close_Fat32 :: "u32 \<Rightarrow> uproc \<Rightarrow> (u32 \<times> uproc) option" where
  "fsipc_close_Fat32 fileid s = Option.bind (st32 (fsipcbuf s) fileid s) (fsipc0 (FSREQ_FAT OR 4) (fsipcbuf s))"

definition fsipc_remove :: "u8 list \<Rightarrow> uproc \<Rightarrow> (u32 \<times> uproc) option" where
  "fsipc_remove path s =
     (if path = [] \<or> length path > MAXPATH then Some (neg E_BAD_PATH, s)
      else Option.bind (put_str (fsipcbuf s) path s) (fsipc0 6 (fsipcbuf s)))"

definition fsipc_remove_Fat32 :: "u8 list \<Rightarrow> uproc \<Rightarrow> (u32 \<times> uproc) option" where
  "fsipc_remove_Fat32 path s =
     (if path = [] \<or> length path > MAXPATH then Some (neg E_BAD_PATH, s)
      else Option.bind (put_str (fsipcbuf s) path s) (fsipc0 (FSREQ_FAT OR 6) (fsipcbuf s)))"

definition fsipc_removeat_Fat32 :: "u32 \<Rightarrow> u8 list \<Rightarrow> uproc \<Rightarrow> (u32 \<times> uproc) option" where
  "fsipc_removeat_Fat32 fd path s =
     (if path = [] \<or> length path > MAXPATH then Some (neg E_BAD_PATH, s)
      else do {
        s1 \<leftarrow> put_str (fsipcbuf s + 4) path s;
        s2 \<leftarrow> st32 (fsipcbuf s) fd s1;
        fsipc0 10 (fsipcbuf s) s2 })"

definition fsipc_sync :: "uproc \<Rightarrow> (u32 \<times> uproc) option" where
  "fsipc_sync s = fsipc0 7 (fsipcbuf s) s"

definition fsipc_flush_Fat32 :: "u32 \<Rightarrow> u32 \<Rightarrow> u32 \<Rightarrow> u32 \<Rightarrow> uproc \<Rightarrow> (u32 \<times> uproc) option" where
  "fsipc_flush_Fat32 fileid off n src s = do {
     s1 \<leftarrow> st32 (fsipcbuf s) fileid s;
     s2 \<leftarrow> st32 (fsipcbuf s + 8) n s1;
     s3 \<leftarrow> st32 (fsipcbuf s + 4) off s2;
     s4 \<leftarrow> u_memcpy (fsipcbuf s + 12) src n s3;
     fsipc0 8 (fsipcbuf s) s4 }"

definition fsipc_openat_Fat32 :: "u32 \<Rightarrow> u8 list \<Rightarrow> u32 \<Rightarrow> u32 \<Rightarrow> uproc \<Rightarrow> (u32 \<times> uproc) option" where
  "fsipc_openat_Fat32 dir_fileid path omode fd s =
     (if length path \<ge> MAXPATH then Some (neg E_BAD_PATH, s)
      else do {
        s1 \<leftarrow> put_str (fsipcbuf s + 4) path s;
        s2 \<leftarrow> st32 (fsipcbuf s) dir_fileid s1;
        s3 \<leftarrow> st32 (fsipcbuf s + 1028) omode s2;
        ((v, _), s4) \<leftarrow> fsipc 9 (fsipcbuf s) fd s3;
        Some (v, s4) })"

definition fsipc_getBY2CLUS :: "uproc \<Rightarrow> (u32 \<times> uproc) option" where
  "fsipc_getBY2CLUS s = fsipc0 11 0 s"

end
