(* ===== verification/Ufile.thy ===== *)
theory Ufile
  imports Fsipc
begin

text \<open>
  The file device of the user library (\<^verbatim>\<open>user/lib/file.c\<close>): opening, closing, reading, writing and
  truncating files that are mapped into the process.  The cached contents of descriptor \<open>n\<close> are the 4 MB
  window at \<^verbatim>\<open>INDEX2DATA(n)\<close>.  Diagnostics printed with \<^verbatim>\<open>debugf\<close> on failure are left out.
\<close>

abbreviation (input) dev_id_file :: u32 where "dev_id_file \<equiv> 0x66"
abbreviation (input) MAXFILESIZE :: u32 where "MAXFILESIZE \<equiv> 0x400000"
abbreviation (input) MAXWB :: u32 where "MAXWB \<equiv> 4084"

section \<open>Opening\<close>

definition isFat32 :: "u8 list \<Rightarrow> bool" where
  "isFat32 p = (let i = length (takeWhile (\<lambda>b. b \<noteq> 0x2f) p) in
     i > 0 \<and> p ! (i - 1) = 0x3a \<or>
     i > 3 \<and> p ! (i - 3) = 0x46 \<and> p ! (i - 2) = 0x41 \<and> p ! (i - 1) = 0x54)"

definition getBY2CLUS :: "uproc \<Rightarrow> uproc option" where
  "getBY2CLUS s = do {
     (v, s1) \<leftarrow> fsipc_getBY2CLUS s;
     if sint v > 0 then Some (s1\<lparr>User_BY2CLUS := v\<rparr>) else None }"

definition need_BY2CLUS :: "uproc \<Rightarrow> uproc option" where
  "need_BY2CLUS s = (if User_BY2CLUS s = 0 then getBY2CLUS s else Some s)"

text \<open>One cluster of a FAT32 file: mapped at \<^verbatim>\<open>Fat_buf\<close>, then copied to the window.\<close>

definition map_cluster :: "u32 \<Rightarrow> u32 \<Rightarrow> u32 \<Rightarrow> uproc \<Rightarrow> (u32 option \<times> uproc) option" where
  "map_cluster fileid va i s = do {
     (r, s1) \<leftarrow> fsipc_map_Fat32 fileid i (Fat_buf s) s;
     if is_err r then Some (Some r, s1)
     else do { s2 \<leftarrow> u_memcpy (va + i) (Fat_buf s) (User_BY2CLUS s1) s1; Some (None, s2) } }"

text \<open>What \<^verbatim>\<open>open_Fat32\<close> and \<^verbatim>\<open>openat\<close> do once the server has filled the descriptor page.\<close>

definition load_Fat32 :: "u32 \<Rightarrow> uproc \<Rightarrow> (u32 \<times> uproc) option" where
  "load_Fat32 fd s = do {
     (fsize, s1) \<leftarrow> ld32 (ff_FileSize fd) s;
     (fileid, s2) \<leftarrow> ld32 (ff_fileid fd) s1;
     s3 \<leftarrow> need_BY2CLUS s2;
     (r, s4) \<leftarrow> for_up (map_cluster fileid (fd2data fd)) 0 fsize (User_BY2CLUS s3) s3;
     Some (case r of Some e \<Rightarrow> e | None \<Rightarrow> fd2num fd, s4) }"

definition open_Fat32 :: "u8 list \<Rightarrow> u32 \<Rightarrow> u32 \<Rightarrow> uproc \<Rightarrow> (u32 \<times> uproc) option" where
  "open_Fat32 path mode fd s = do {
     (r, s1) \<leftarrow> fsipc_open_Fat32 path mode fd s;
     if is_err r then Some (r, s1) else load_Fat32 fd s1 }"

text \<open>\<^verbatim>\<open>openat\<close> ignores the results of \<^verbatim>\<open>fd_alloc\<close> and \<^verbatim>\<open>fd_lookup\<close> and goes through their pointers.\<close>

definition openat :: "u32 \<Rightarrow> u8 list \<Rightarrow> u32 \<Rightarrow> uproc \<Rightarrow> (u32 \<times> uproc) option" where
  "openat dirfd path mode s = do {
     ((_, pfd), s1) \<leftarrow> fd_alloc s;
     ((_, pdir), s2) \<leftarrow> fd_lookup dirfd s1;
     dir \<leftarrow> pdir;
     (dir_fileid, s3) \<leftarrow> ld32 (ff_fileid dir) s2;
     fd \<leftarrow> pfd;
     (r, s4) \<leftarrow> fsipc_openat_Fat32 dir_fileid path mode fd s3;
     if is_err r then Some (r, s4) else load_Fat32 fd s4 }"

definition map_block_at :: "u32 \<Rightarrow> u32 \<Rightarrow> u32 \<Rightarrow> uproc \<Rightarrow> (u32 option \<times> uproc) option" where
  "map_block_at fileid va i s = do {
     (r, s1) \<leftarrow> fsipc_map fileid i (va + i) s;
     Some (if is_err r then Some r else None, s1) }"

definition open_u :: "u8 list \<Rightarrow> u32 \<Rightarrow> uproc \<Rightarrow> (u32 \<times> uproc) option" where
  "open_u path mode s = do {
     ((r, pfd), s1) \<leftarrow> fd_alloc s;
     if is_err r then Some (r, s1)
     else do {
       fd \<leftarrow> pfd;
       if isFat32 path then open_Fat32 path mode fd s1
       else do {
         (r, s2) \<leftarrow> fsipc_open path mode fd s1;
         if is_err r then Some (r, s2)
         else do {
           (fsize, s3) \<leftarrow> ld32 (ff_size fd) s2;
           (fileid, s4) \<leftarrow> ld32 (ff_fileid fd) s3;
           (r, s5) \<leftarrow> for_up (map_block_at fileid (fd2data fd)) 0 fsize BY2PG s4;
           Some (case r of Some e \<Rightarrow> e | None \<Rightarrow> fd2num fd, s5) } } } }"

section \<open>Closing\<close>

text \<open>The steps of the two close functions: report every page as dirty, close, unmap.\<close>

definition unmap_at :: "u32 \<Rightarrow> u32 \<Rightarrow> uproc \<Rightarrow> (u32 option \<times> uproc) option" where
  "unmap_at va i s = (case u_mem_unmap (va + i) s of (r, s1) \<Rightarrow> Some (if is_err r then Some r else None, s1))"

definition close_with :: "(u32 \<Rightarrow> u32 \<Rightarrow> uproc \<Rightarrow> (u32 \<times> uproc) option) \<Rightarrow> (u32 \<Rightarrow> uproc \<Rightarrow> (u32 \<times> uproc) option) \<Rightarrow>
    u32 \<Rightarrow> u32 \<Rightarrow> u32 \<Rightarrow> uproc \<Rightarrow> (u32 \<times> uproc) option" where
  "close_with dirty clos fileid fsize va s = do {
     (_, s1) \<leftarrow> for_up (\<lambda>i s. map_option (\<lambda>(_, s1). (None, s1)) (dirty fileid i s)) 0 fsize BY2PG s;
     (r, s2) \<leftarrow> clos fileid s1;
     if is_err r then Some (r, s2)
     else if fsize = 0 then Some (0, s2)
     else do {
       (r, s3) \<leftarrow> for_up (unmap_at va) 0 fsize BY2PG s2;
       Some (case r of Some e \<Rightarrow> e | None \<Rightarrow> 0, s3) } }"

definition file_close_Fat :: "u32 \<Rightarrow> uproc \<Rightarrow> (u32 \<times> uproc) option" where
  "file_close_Fat fd s = do {
     (fileid, s1) \<leftarrow> ld32 (ff_fileid fd) s;
     (fsize, s2) \<leftarrow> ld32 (ff_FileSize fd) s1;
     close_with fsipc_dirty_Fat32 fsipc_close_Fat32 fileid fsize (fd2data fd) s2 }"

definition file_close_u :: "u32 \<Rightarrow> uproc \<Rightarrow> (u32 \<times> uproc) option" where
  "file_close_u fd s = do {
     (fat, s0) \<leftarrow> ld32 (fd_fat fd) s;
     if fat \<noteq> 0 then file_close_Fat fd s0
     else do {
       (fileid, s1) \<leftarrow> ld32 (ff_fileid fd) s0;
       (fsize, s2) \<leftarrow> ld32 (ff_size fd) s1;
       close_with fsipc_dirty fsipc_close fileid fsize (fd2data fd) s2 } }"

section \<open>Reading\<close>

definition copy_out :: "u32 \<Rightarrow> u32 \<Rightarrow> u32 \<Rightarrow> u32 \<Rightarrow> u32 \<Rightarrow> uproc \<Rightarrow> (u32 \<times> uproc) option" where
  "copy_out fd fsize buf n off s =
     (if off > fsize then Some (0, s)
      else let n' = (if off + n > fsize then fsize - off else n)
           in map_option (\<lambda>s1. (n', s1)) (u_memcpy buf (fd2data fd + off) n' s))"

definition file_read_Fat :: "u32 \<Rightarrow> u32 \<Rightarrow> u32 \<Rightarrow> u32 \<Rightarrow> uproc \<Rightarrow> (u32 \<times> uproc) option" where
  "file_read_Fat fd buf n off s = do {
     (fat, s0) \<leftarrow> ld32 (fd_fat fd) s;
     if fat = 0 then None
     else do { (fsize, s1) \<leftarrow> ld32 (ff_FileSize fd) s0; copy_out fd fsize buf n off s1 } }"

definition file_read_u :: "u32 \<Rightarrow> u32 \<Rightarrow> u32 \<Rightarrow> u32 \<Rightarrow> uproc \<Rightarrow> (u32 \<times> uproc) option" where
  "file_read_u fd buf n off s = do {
     (fat, s0) \<leftarrow> ld32 (fd_fat fd) s;
     if fat \<noteq> 0 then file_read_Fat fd buf n off s0
     else do { (fsize, s1) \<leftarrow> ld32 (ff_size fd) s0; copy_out fd fsize buf n off s1 } }"

text \<open>The address stored in \<^verbatim>\<open>*blk\<close> is the second result.\<close>

definition read_map :: "u32 \<Rightarrow> u32 \<Rightarrow> uproc \<Rightarrow> ((u32 \<times> u32 option) \<times> uproc) option" where
  "read_map fdnum off s = do {
     ((r, pfd), s1) \<leftarrow> fd_lookup fdnum s;
     if is_err r then Some ((r, None), s1)
     else do {
       fd \<leftarrow> pfd;
       (dev, s2) \<leftarrow> ld32 (fd_dev_id fd) s1;
       if dev \<noteq> dev_id_file then Some ((neg E_INVAL, None), s2)
       else let va = fd2data fd + off in
         if off \<ge> MAXFILESIZE then Some ((neg E_NO_DISK, None), s2)
         else if \<not> uvpd (unat va div 4194304) s2 then Some ((neg E_NO_DISK, None), s2)
         else do {
           (e, s3) \<leftarrow> uvpt (upage va) s2;
           Some (if entry_flags e AND PTE_V = 0 then (neg E_NO_DISK, None) else (0, Some va), s3) } } }"

section \<open>Changing the size\<close>

text \<open>The common beginning of the two truncate functions, up to the reply of the server, and the loop
  that unmaps pages past the end.\<close>

definition truncate_start :: "(u32 \<Rightarrow> u32) \<Rightarrow> (u32 \<Rightarrow> u32 \<Rightarrow> uproc \<Rightarrow> (u32 \<times> uproc) option) \<Rightarrow> u32 \<Rightarrow> u32 \<Rightarrow> uproc \<Rightarrow>
    ((u32 + u32 \<times> u32 \<times> u32) \<times> uproc) option" where
  "truncate_start size_at setsize fdnum n s =
     (if n > MAXFILESIZE then Some (Inl (neg E_NO_DISK), s)
      else do {
        ((r, pfd), s1) \<leftarrow> fd_lookup fdnum s;
        if is_err r then Some (Inl r, s1)
        else do {
          fd \<leftarrow> pfd;
          (dev, s2) \<leftarrow> ld32 (fd_dev_id fd) s1;
          if dev \<noteq> dev_id_file then Some (Inl (neg E_INVAL), s2)
          else do {
            (fileid, s3) \<leftarrow> ld32 (ff_fileid fd) s2;
            (oldsize, s4) \<leftarrow> ld32 (size_at fd) s3;
            s5 \<leftarrow> st32 (size_at fd) n s4;
            (r, s6) \<leftarrow> setsize fileid n s5;
            Some (if is_err r then Inl r else Inr (fd, fileid, oldsize), s6) } } })"

definition unmap_tail :: "u32 \<Rightarrow> u32 \<Rightarrow> u32 \<Rightarrow> uproc \<Rightarrow> (u32 \<times> uproc) option" where
  "unmap_tail va n oldsize s = do {
     (r, s1) \<leftarrow> for_up (unmap_at va) (ROUND n BY2PG) (ROUND oldsize BY2PG) BY2PG s;
     case r of Some _ \<Rightarrow> None | None \<Rightarrow> Some (0, s1) }"

definition ftruncate_Fat :: "u32 \<Rightarrow> u32 \<Rightarrow> uproc \<Rightarrow> (u32 \<times> uproc) option" where
  "ftruncate_Fat fdnum n s = do {
     (c, s1) \<leftarrow> truncate_start (\<lambda>fd. ff_FileSize fd) fsipc_set_size_Fat32 fdnum n s;
     case c of
       Inl r \<Rightarrow> Some (r, s1)
     | Inr (fd, fileid, oldsize) \<Rightarrow> do {
         s2 \<leftarrow> need_BY2CLUS s1;
         let bc = User_BY2CLUS s2;
         (r, s3) \<leftarrow> for_up (map_cluster fileid (fd2data fd)) (ROUND oldsize bc) (ROUND n bc) bc s2;
         case r of
           Some e \<Rightarrow> map_option (\<lambda>(_, s4). (e, s4)) (fsipc_set_size_Fat32 fileid oldsize s3)
         | None \<Rightarrow> unmap_tail (fd2data fd) n oldsize s3 } }"

definition ftruncate_u :: "u32 \<Rightarrow> u32 \<Rightarrow> uproc \<Rightarrow> (u32 \<times> uproc) option" where
  "ftruncate_u fdnum n s = do {
     (c, s1) \<leftarrow> truncate_start (\<lambda>fd. ff_size fd) fsipc_set_size fdnum n s;
     case c of
       Inl r \<Rightarrow> Some (r, s1)
     | Inr (fd, fileid, oldsize) \<Rightarrow> do {
         (r, s3) \<leftarrow> for_up (map_block_at fileid (fd2data fd)) (ROUND oldsize BY2PG) (ROUND n BY2PG) BY2PG s1;
         case r of
           Some e \<Rightarrow> map_option (\<lambda>(_, s4). (e, s4)) (fsipc_set_size fileid oldsize s3)
         | None \<Rightarrow> unmap_tail (fd2data fd) n oldsize s3 } }"

section \<open>Writing\<close>

text \<open>One turn of the loop that sends a FAT32 write to the server; \<open>i\<close> counts bytes and is multiplied by
  \<^verbatim>\<open>MAXWB\<close> again.\<close>

definition flush_chunk :: "u32 \<Rightarrow> u32 \<Rightarrow> u32 \<Rightarrow> u32 \<Rightarrow> u32 \<Rightarrow> uproc \<Rightarrow> (u32 option \<times> uproc) option" where
  "flush_chunk fd buf n off i s = do {
     let undone = (if n - i * MAXWB > MAXWB then MAXWB else n - i * MAXWB);
     (fileid, s1) \<leftarrow> ld32 (ff_fileid fd) s;
     (r, s2) \<leftarrow> fsipc_flush_Fat32 fileid (off + i * MAXWB) undone (buf + i) s1;
     if r = 0 then Some (None, s2) else None }"

definition file_write_Fat :: "u32 \<Rightarrow> u32 \<Rightarrow> u32 \<Rightarrow> u32 \<Rightarrow> uproc \<Rightarrow> (u32 \<times> uproc) option" where
  "file_write_Fat fd buf n off s =
     (if off + n > MAXFILESIZE then Some (neg E_NO_DISK, s)
      else do {
        (fsize, s1) \<leftarrow> ld32 (ff_FileSize fd) s;
        (r, s2) \<leftarrow> (if off + n > fsize then ftruncate_Fat (fd2num fd) (off + n) s1 else Some (0, s1));
        if is_err r then Some (r, s2)
        else do {
          (_, s3) \<leftarrow> for_up (flush_chunk fd buf n off) 0 n MAXWB s2;
          s4 \<leftarrow> u_memcpy (fd2data fd + off) buf n s3;
          Some (n, s4) } })"

definition file_write_u :: "u32 \<Rightarrow> u32 \<Rightarrow> u32 \<Rightarrow> u32 \<Rightarrow> uproc \<Rightarrow> (u32 \<times> uproc) option" where
  "file_write_u fd buf n off s = do {
     (fat, s0) \<leftarrow> ld32 (fd_fat fd) s;
     if fat \<noteq> 0 then file_write_Fat fd buf n off s0
     else if off + n > MAXFILESIZE then Some (neg E_NO_DISK, s0)
     else do {
       (fsize, s1) \<leftarrow> ld32 (ff_size fd) s0;
       (r, s2) \<leftarrow> (if off + n > fsize then ftruncate_u (fd2num fd) (off + n) s1 else Some (0, s1));
       if is_err r then Some (r, s2)
       else do { s3 \<leftarrow> u_memcpy (fd2data fd + off) buf n s2; Some (n, s3) } } }"

section \<open>Status, removal, synchronisation\<close>

text \<open>The members of \<^verbatim>\<open>struct Stat\<close>.\<close>

abbreviation (input) st_name :: "u32 \<Rightarrow> u32" where "st_name st \<equiv> st"
abbreviation (input) st_size :: "u32 \<Rightarrow> u32" where "st_size st \<equiv> st + 128"
abbreviation (input) st_isdir :: "u32 \<Rightarrow> u32" where "st_isdir st \<equiv> st + 132"
abbreviation (input) st_dev :: "u32 \<Rightarrow> u32" where "st_dev st \<equiv> st + 136"

definition file_stat :: "u32 \<Rightarrow> u32 \<Rightarrow> uproc \<Rightarrow> (u32 \<times> uproc) option" where
  "file_stat fd st s = do {
     s1 \<leftarrow> u_strcpy (st_name st) (ff_name fd) s;
     (fsize, s2) \<leftarrow> ld32 (ff_size fd) s1;
     s3 \<leftarrow> st32 (st_size st) fsize s2;
     (typ, s4) \<leftarrow> ld32 (ff_type fd) s3;
     s5 \<leftarrow> st32 (st_isdir st) (if typ = 1 then 1 else 0) s4;
     Some (0, s5) }"

definition remove_u :: "u8 list \<Rightarrow> uproc \<Rightarrow> (u32 \<times> uproc) option" where
  "remove_u path s = (if isFat32 path then fsipc_remove_Fat32 path s else fsipc_remove path s)"

definition removeAt :: "u32 \<Rightarrow> u8 list \<Rightarrow> uproc \<Rightarrow> (u32 \<times> uproc) option" where
  "removeAt fd path s = fsipc_removeat_Fat32 fd path s"

definition sync_u :: "uproc \<Rightarrow> (u32 \<times> uproc) option" where
  "sync_u = fsipc_sync"

end
