(* ===== verification/Fd.thy ===== *)
theory Fd
  imports Ufile
begin

text \<open>
  The second half of the descriptor layer: the console device (\<^verbatim>\<open>user/lib/console.c\<close>), creating,
  reading and writing pipes as one process runs them (\<^verbatim>\<open>pipe.c\<close>; other environments act where it
  yields, and \<^verbatim>\<open>Pipe\<close> has the two ends interleaved at every access), the table of devices, and the calls
  that go through it (\<^verbatim>\<open>fd.c\<close>).
\<close>

abbreviation (input) O_RDONLY :: u32 where "O_RDONLY \<equiv> 0"
abbreviation (input) O_WRONLY :: u32 where "O_WRONLY \<equiv> 1"
abbreviation (input) O_RDWR :: u32 where "O_RDWR \<equiv> 2"
abbreviation (input) O_ACCMODE :: u32 where "O_ACCMODE \<equiv> 3"
abbreviation (input) dev_id_cons :: u32 where "dev_id_cons \<equiv> 0x63"
abbreviation (input) dev_id_pipe :: u32 where "dev_id_pipe \<equiv> 0x70"

section \<open>The console\<close>

text \<open>\<^verbatim>\<open>syscall_print_cons\<close> and \<^verbatim>\<open>syscall_cgetc\<close>.\<close>

definition u_print_cons :: "u32 \<Rightarrow> u32 \<Rightarrow> uproc \<Rightarrow> (u32 \<times> uproc) option" where
  "u_print_cons p num s =
     (if p + num > UTOP \<or> p \<ge> UTOP \<or> p > p + num then Some (neg E_INVAL, s)
      else do {
        s1 \<leftarrow> fold_opt (\<lambda>i s. do { (b, s1) \<leftarrow> ld8 (p + of_nat i) s; Some (s1\<lparr>cout := cout s1 @ [b]\<rparr>) })
                [0..<unat num] s;
        Some (0, s1) })"

definition u_cgetc :: "uproc \<Rightarrow> u32 \<times> uproc" where
  "u_cgetc s = (cin s (ncin s), s\<lparr>ncin := ncin s + 1\<rparr>)"

partial_function (option) wait_char :: "uproc \<Rightarrow> (u32 \<times> uproc) option" where
  "wait_char s = (case u_cgetc s of (c, s1) \<Rightarrow> if c = 0 then wait_char (u_yield s1) else Some (c, s1))"

definition iscons :: "u32 \<Rightarrow> uproc \<Rightarrow> (u32 \<times> uproc) option" where
  "iscons fdnum s = do {
     ((r, pfd), s1) \<leftarrow> fd_lookup fdnum s;
     if is_err r then Some (r, s1)
     else do {
       fd \<leftarrow> pfd;
       (d, s2) \<leftarrow> ld32 (fd_dev_id fd) s1;
       Some (if d = dev_id_cons then 1 else 0, s2) } }"

definition opencons :: "uproc \<Rightarrow> (u32 \<times> uproc) option" where
  "opencons s = do {
     ((r, pfd), s1) \<leftarrow> fd_alloc s;
     if is_err r then Some (r, s1)
     else do {
       fd \<leftarrow> pfd;
       case u_mem_alloc fd (PTE_D OR PTE_LIBRARY) s1 of (r, s2) \<Rightarrow>
         if is_err r then Some (r, s2)
         else do {
           s3 \<leftarrow> st32 (fd_dev_id fd) dev_id_cons s2;
           s4 \<leftarrow> st32 (fd_omode fd) O_RDWR s3;
           Some (fd2num fd, s4) } } }"

definition cons_read :: "u32 \<Rightarrow> u32 \<Rightarrow> u32 \<Rightarrow> u32 \<Rightarrow> uproc \<Rightarrow> (u32 \<times> uproc) option" where
  "cons_read fd vbuf n off s =
     (if n = 0 then Some (0, s)
      else do {
        (c, s1) \<leftarrow> wait_char s;
        let s2 = s1\<lparr>cout := cout s1 @ [if c \<noteq> 0x0d then ucast c else 0x0a]\<rparr>;
        if is_err c then Some (c, s2)
        else if c = 4 then Some (0, s2)
        else do { s3 \<leftarrow> st8 vbuf (ucast c) s2; Some (1, s3) } })"

definition cons_write :: "u32 \<Rightarrow> u32 \<Rightarrow> u32 \<Rightarrow> u32 \<Rightarrow> uproc \<Rightarrow> (u32 \<times> uproc) option" where
  "cons_write fd buf n off s = do {
     (r, s1) \<leftarrow> u_print_cons buf n s;
     Some (if is_err r then r else n, s1) }"

definition cons_close :: "u32 \<Rightarrow> uproc \<Rightarrow> (u32 \<times> uproc) option" where
  "cons_close fd s = Some (0, s)"

definition cons_stat :: "u32 \<Rightarrow> u32 \<Rightarrow> uproc \<Rightarrow> (u32 \<times> uproc) option" where
  "cons_stat fd st s = map_option (\<lambda>s1. (0, s1)) (put_str (st_name st) [0x3c, 0x63, 0x6f, 0x6e, 0x73, 0x3e] s)"

section \<open>Pipes\<close>

text \<open>Allocating a descriptor and its page, as \<^verbatim>\<open>pipe\<close> does for each end.\<close>

definition fd_with_page :: "uproc \<Rightarrow> ((u32 + u32) \<times> uproc) option" where
  "fd_with_page s = do {
     ((r, pfd), s1) \<leftarrow> fd_alloc s;
     if is_err r then Some (Inl r, s1)
     else do {
       fd \<leftarrow> pfd;
       case u_mem_alloc fd (PTE_D OR PTE_LIBRARY) s1 of (r, s2) \<Rightarrow>
         Some (if is_err r then Inl r else Inr fd, s2) } }"

definition pipe_setup :: "u32 \<Rightarrow> u32 \<Rightarrow> u32 \<Rightarrow> uproc \<Rightarrow> (u32 \<times> uproc) option" where
  "pipe_setup pfd fd0 fd1 s = do {
     s1 \<leftarrow> st32 (fd_dev_id fd0) dev_id_pipe s;
     s2 \<leftarrow> st32 (fd_omode fd0) O_RDONLY s1;
     s3 \<leftarrow> st32 (fd_dev_id fd1) dev_id_pipe s2;
     s4 \<leftarrow> st32 (fd_omode fd1) O_WRONLY s3;
     s5 \<leftarrow> st32 pfd (fd2num fd0) s4;
     s6 \<leftarrow> st32 (pfd + 4) (fd2num fd1) s5;
     Some (0, s6) }"

text \<open>The labels \<^verbatim>\<open>err3\<close>, \<^verbatim>\<open>err2\<close>, \<^verbatim>\<open>err1\<close> unmap what was set up so far.\<close>

definition pipe :: "u32 \<Rightarrow> uproc \<Rightarrow> (u32 \<times> uproc) option" where
  "pipe pfd s = do {
     (c0, s0) \<leftarrow> fd_with_page s;
     case c0 of Inl r \<Rightarrow> Some (r, s0)
     | Inr fd0 \<Rightarrow> do {
         (c1, s1) \<leftarrow> fd_with_page s0;
         case c1 of Inl r \<Rightarrow> Some (r, snd (u_mem_unmap fd0 s1))
         | Inr fd1 \<Rightarrow> (let va = fd2data fd0 in
             case u_mem_alloc va (PTE_D OR PTE_LIBRARY) s1 of (r, s2) \<Rightarrow>
             if is_err r then Some (r, snd (u_mem_unmap fd0 (snd (u_mem_unmap fd1 s2))))
             else case u_mem_map va (fd2data fd1) (PTE_D OR PTE_LIBRARY) s2 of (r, s3) \<Rightarrow>
             if is_err r then Some (r, snd (u_mem_unmap fd0 (snd (u_mem_unmap fd1 (snd (u_mem_unmap va s3))))))
             else pipe_setup pfd fd0 fd1 s3) } }"

definition pipe_is_closed_at :: "u32 \<Rightarrow> u32 \<Rightarrow> uproc \<Rightarrow> (bool \<times> uproc) option" where
  "pipe_is_closed_at fd p s = do {
     (a, s1) \<leftarrow> pageref_u fd s;
     (b, s2) \<leftarrow> pageref_u p s1;
     Some (a = b, s2) }"

text \<open>The wait loops: while the condition holds, return \<open>r\<close> if \<open>stop\<close> or the pipe is closed, otherwise yield.\<close>

partial_function (option) pipe_wait :: "(u32 \<Rightarrow> u32 \<Rightarrow> bool) \<Rightarrow> bool \<Rightarrow> u32 \<Rightarrow> u32 \<Rightarrow> uproc \<Rightarrow> (bool \<times> uproc) option" where
  "pipe_wait cond stop fd p s = Option.bind (ld32 p s) (\<lambda>(rpos, s1). Option.bind (ld32 (p + 4) s1) (\<lambda>(wpos, s2).
     if cond rpos wpos then
       (if stop then Some (False, s2)
        else Option.bind (pipe_is_closed_at fd p s2) (\<lambda>(c, s3).
          if c then Some (False, s3) else pipe_wait cond stop fd p (u_yield s3)))
     else Some (True, s2)))"

partial_function (option) pipe_read_from :: "u32 \<Rightarrow> u32 \<Rightarrow> u32 \<Rightarrow> u32 \<Rightarrow> u32 \<Rightarrow> uproc \<Rightarrow> (u32 \<times> uproc) option" where
  "pipe_read_from fd p vbuf n i s =
     (if i < n then Option.bind (pipe_wait (\<lambda>r w. r \<ge> w) (sint i > 0) fd p s) (\<lambda>(go, s1).
        if \<not> go then Some (i, s1)
        else Option.bind (ld32 p s1) (\<lambda>(rpos, s2). Option.bind (ld8 (p + 8 + rpos mod 32) s2) (\<lambda>(b, s3).
          Option.bind (st8 (vbuf + i) b s3) (\<lambda>s4. Option.bind (ld32 p s4) (\<lambda>(rpos, s5).
          Option.bind (st32 p (rpos + 1) s5) (\<lambda>s6. pipe_read_from fd p vbuf n (i + 1) s6))))))
      else Some (n, s))"

definition pipe_read_u :: "u32 \<Rightarrow> u32 \<Rightarrow> u32 \<Rightarrow> u32 \<Rightarrow> uproc \<Rightarrow> (u32 \<times> uproc) option" where
  "pipe_read_u fd vbuf n off s = do {
     let p = fd2data fd;
     (go, s1) \<leftarrow> pipe_wait (\<lambda>r w. r \<ge> w) False fd p s;
     if \<not> go then Some (0, s1) else pipe_read_from fd p vbuf n 0 s1 }"

partial_function (option) pipe_write_from :: "u32 \<Rightarrow> u32 \<Rightarrow> u32 \<Rightarrow> u32 \<Rightarrow> u32 \<Rightarrow> uproc \<Rightarrow> (u32 \<times> uproc) option" where
  "pipe_write_from fd p vbuf n i s =
     (if i < n then Option.bind (pipe_wait (\<lambda>r w. w - r \<ge> 32) False fd p s) (\<lambda>(go, s1).
        if \<not> go then Some (i, s1)
        else Option.bind (ld8 (vbuf + i) s1) (\<lambda>(b, s2). Option.bind (ld32 (p + 4) s2) (\<lambda>(wpos, s3).
          Option.bind (st8 (p + 8 + wpos mod 32) b s3) (\<lambda>s4. Option.bind (ld32 (p + 4) s4) (\<lambda>(wpos, s5).
          Option.bind (st32 (p + 4) (wpos + 1) s5) (\<lambda>s6. pipe_write_from fd p vbuf n (i + 1) s6))))))
      else Some (n, s))"

definition pipe_write_u :: "u32 \<Rightarrow> u32 \<Rightarrow> u32 \<Rightarrow> u32 \<Rightarrow> uproc \<Rightarrow> (u32 \<times> uproc) option" where
  "pipe_write_u fd vbuf n off s = pipe_write_from fd (fd2data fd) vbuf n 0 s"

definition pipe_is_closed :: "u32 \<Rightarrow> uproc \<Rightarrow> (u32 \<times> uproc) option" where
  "pipe_is_closed fdnum s = do {
     ((r, pfd), s1) \<leftarrow> fd_lookup fdnum s;
     if is_err r then Some (r, s1)
     else do {
       fd \<leftarrow> pfd;
       (c, s2) \<leftarrow> pipe_is_closed_at fd (fd2data fd) s1;
       Some (if c then 1 else 0, s2) } }"

definition pipe_close_u :: "u32 \<Rightarrow> uproc \<Rightarrow> (u32 \<times> uproc) option" where
  "pipe_close_u fd s = Some (0, snd (u_mem_unmap (fd2data fd) (snd (u_mem_unmap fd s))))"

definition pipe_stat :: "u32 \<Rightarrow> u32 \<Rightarrow> uproc \<Rightarrow> (u32 \<times> uproc) option" where
  "pipe_stat fd st s = Some (0, s)"

section \<open>Devices\<close>

text \<open>\<^verbatim>\<open>struct Dev\<close> with its function pointers.\<close>

record Dev =
  dev_id :: u32
  dev_read :: "u32 \<Rightarrow> u32 \<Rightarrow> u32 \<Rightarrow> u32 \<Rightarrow> uproc \<Rightarrow> (u32 \<times> uproc) option"
  dev_write :: "u32 \<Rightarrow> u32 \<Rightarrow> u32 \<Rightarrow> u32 \<Rightarrow> uproc \<Rightarrow> (u32 \<times> uproc) option"
  dev_close :: "u32 \<Rightarrow> uproc \<Rightarrow> (u32 \<times> uproc) option"
  dev_stat :: "u32 \<Rightarrow> u32 \<Rightarrow> uproc \<Rightarrow> (u32 \<times> uproc) option"

definition devfile :: Dev where
  "devfile = \<lparr>dev_id = dev_id_file, dev_read = file_read_u, dev_write = file_write_u, dev_close = file_close_u,
     dev_stat = file_stat\<rparr>"

definition devcons :: Dev where
  "devcons = \<lparr>dev_id = dev_id_cons, dev_read = cons_read, dev_write = cons_write, dev_close = cons_close,
     dev_stat = cons_stat\<rparr>"

definition devpipe :: Dev where
  "devpipe = \<lparr>dev_id = dev_id_pipe, dev_read = pipe_read_u, dev_write = pipe_write_u, dev_close = pipe_close_u,
     dev_stat = pipe_stat\<rparr>"

definition devtab :: "Dev list" where
  "devtab = [devfile, devcons, devpipe]"

definition dev_lookup :: "u32 \<Rightarrow> u32 \<times> Dev option" where
  "dev_lookup d = (case find (\<lambda>v. dev_id v = d) devtab of None \<Rightarrow> (neg E_INVAL, None) | Some v \<Rightarrow> (0, Some v))"

text \<open>The beginning of most calls: find the descriptor, then its device.\<close>

definition fd_dev :: "u32 \<Rightarrow> uproc \<Rightarrow> ((u32 + u32 \<times> Dev) \<times> uproc) option" where
  "fd_dev fdnum s = do {
     ((r, pfd), s1) \<leftarrow> fd_lookup fdnum s;
     if is_err r then Some (Inl r, s1)
     else do {
       fd \<leftarrow> pfd;
       (d, s2) \<leftarrow> ld32 (fd_dev_id fd) s1;
       case dev_lookup d of (r, pd) \<Rightarrow>
         if is_err r then Some (Inl r, s2) else do { v \<leftarrow> pd; Some (Inr (fd, v), s2) } } }"

definition close :: "u32 \<Rightarrow> uproc \<Rightarrow> (u32 \<times> uproc) option" where
  "close fdnum s = do {
     (c, s1) \<leftarrow> fd_dev fdnum s;
     case c of Inl r \<Rightarrow> Some (r, s1)
     | Inr (fd, dev) \<Rightarrow> do { (r, s2) \<leftarrow> dev_close dev fd s1; Some (r, fd_close fd s2) } }"

definition close_all :: "uproc \<Rightarrow> uproc option" where
  "close_all = fold_opt (\<lambda>i s. map_option snd (close (of_nat i) s)) [0..<MAXFD]"

text \<open>One page of the loop of \<^verbatim>\<open>dup\<close>, and its error exit.\<close>

definition dup_page :: "u32 \<Rightarrow> u32 \<Rightarrow> u32 \<Rightarrow> uproc \<Rightarrow> (u32 option \<times> uproc) option" where
  "dup_page ova nva i s = do {
     (e, s1) \<leftarrow> uvpt (upage (ova + i)) s;
     if entry_flags e AND PTE_V = 0 then Some (None, s1)
     else case u_mem_map (ova + i) (nva + i) (entry_flags e AND (PTE_D OR PTE_LIBRARY)) s1 of (r, s2) \<Rightarrow>
       Some (if is_err r then Some r else None, s2) }"

definition dup_err :: "u32 \<Rightarrow> u32 \<Rightarrow> uproc \<Rightarrow> uproc" where
  "dup_err newfd nva s = fold (\<lambda>k s. snd (u_mem_unmap (nva + of_nat k * BY2PG) s)) [0..<1024] (snd (u_mem_unmap newfd s))"

definition dup :: "u32 \<Rightarrow> u32 \<Rightarrow> uproc \<Rightarrow> (u32 \<times> uproc) option" where
  "dup oldfdnum newfdnum s = do {
     ((r, pfd), s1) \<leftarrow> fd_lookup oldfdnum s;
     if is_err r then Some (r, s1)
     else do {
       oldfd \<leftarrow> pfd;
       (_, s2) \<leftarrow> close newfdnum s1;
       let newfd = INDEX2FD newfdnum;
       let ova = fd2data oldfd;
       let nva = fd2data newfd;
       (r, s3) \<leftarrow> (if uvpd (unat (PDX ova)) s2 then for_up (dup_page ova nva) 0 PDMAP BY2PG s2 else Some (None, s2));
       (case r of
          Some e \<Rightarrow> Some (e, dup_err newfd nva s3)
        | None \<Rightarrow> do {
            (e, s4) \<leftarrow> uvpt (upage oldfd) s3;
            case u_mem_map oldfd newfd (entry_flags e AND (PTE_D OR PTE_LIBRARY)) s4 of (r, s5) \<Rightarrow>
              Some (if is_err r then (r, dup_err newfd nva s5) else (newfdnum, s5)) }) } }"

definition advance :: "u32 \<Rightarrow> u32 \<Rightarrow> uproc \<Rightarrow> (u32 \<times> uproc) option" where
  "advance fd r s =
     (if sint r > 0 then do {
        (off, s1) \<leftarrow> ld32 (fd_offset fd) s;
        s2 \<leftarrow> st32 (fd_offset fd) (off + r) s1;
        Some (r, s2) }
      else Some (r, s))"

definition read :: "u32 \<Rightarrow> u32 \<Rightarrow> u32 \<Rightarrow> uproc \<Rightarrow> (u32 \<times> uproc) option" where
  "read fdnum buf n s = do {
     (c, s1) \<leftarrow> fd_dev fdnum s;
     case c of Inl r \<Rightarrow> Some (r, s1)
     | Inr (fd, dev) \<Rightarrow> do {
         (m, s2) \<leftarrow> ld32 (fd_omode fd) s1;
         if m AND O_ACCMODE = O_WRONLY then Some (neg E_INVAL, s2)
         else do {
           (off, s3) \<leftarrow> ld32 (fd_offset fd) s2;
           (r, s4) \<leftarrow> dev_read dev fd buf n off s3;
           advance fd r s4 } } }"

partial_function (option) readn_from :: "u32 \<Rightarrow> u32 \<Rightarrow> u32 \<Rightarrow> u32 \<Rightarrow> uproc \<Rightarrow> (u32 \<times> uproc) option" where
  "readn_from fdnum buf n tot s =
     (if tot < n then Option.bind (read fdnum (buf + tot) (n - tot) s) (\<lambda>(m, s1).
        if is_err m then Some (m, s1)
        else if m = 0 then Some (tot, s1)
        else readn_from fdnum buf n (tot + m) s1)
      else Some (tot, s))"

definition readn :: "u32 \<Rightarrow> u32 \<Rightarrow> u32 \<Rightarrow> uproc \<Rightarrow> (u32 \<times> uproc) option" where
  "readn fdnum buf n s = readn_from fdnum buf n 0 s"

definition write_u :: "u32 \<Rightarrow> u32 \<Rightarrow> u32 \<Rightarrow> uproc \<Rightarrow> (u32 \<times> uproc) option" where
  "write_u fdnum buf n s = do {
     (c, s1) \<leftarrow> fd_dev fdnum s;
     case c of Inl r \<Rightarrow> Some (r, s1)
     | Inr (fd, dev) \<Rightarrow> do {
         (m, s2) \<leftarrow> ld32 (fd_omode fd) s1;
         if m AND O_ACCMODE = O_RDONLY then Some (neg E_INVAL, s2)
         else do {
           (off, s3) \<leftarrow> ld32 (fd_offset fd) s2;
           (r, s4) \<leftarrow> dev_write dev fd buf n off s3;
           advance fd r s4 } } }"

definition seek :: "u32 \<Rightarrow> u32 \<Rightarrow> uproc \<Rightarrow> (u32 \<times> uproc) option" where
  "seek fdnum off s = do {
     ((r, pfd), s1) \<leftarrow> fd_lookup fdnum s;
     if is_err r then Some (r, s1)
     else do { fd \<leftarrow> pfd; s2 \<leftarrow> st32 (fd_offset fd) off s1; Some (0, s2) } }"

definition fstat :: "u32 \<Rightarrow> u32 \<Rightarrow> uproc \<Rightarrow> (u32 \<times> uproc) option" where
  "fstat fdnum st s = do {
     (c, s1) \<leftarrow> fd_dev fdnum s;
     case c of Inl r \<Rightarrow> Some (r, s1)
     | Inr (fd, dev) \<Rightarrow> do {
         s2 \<leftarrow> st8 (st_name st) 0 s1;
         s3 \<leftarrow> st32 (st_size st) 0 s2;
         s4 \<leftarrow> st32 (st_isdir st) 0 s3;
         s5 \<leftarrow> st32 (st_dev st) (dev_va s4 (dev_id dev)) s4;
         dev_stat dev fd st s5 } }"

definition stat_u :: "u8 list \<Rightarrow> u32 \<Rightarrow> uproc \<Rightarrow> (u32 \<times> uproc) option" where
  "stat_u path st s = do {
     (fd, s1) \<leftarrow> open_u path O_RDONLY s;
     if is_err fd then Some (fd, s1)
     else do {
       (r, s2) \<leftarrow> fstat fd st s1;
       (_, s3) \<leftarrow> close fd s2;
       Some (r, s3) } }"

end
