(* ===== verification/Umem_Props.thy ===== *)
theory Umem_Props
  imports Fd
begin

text \<open>
  Accesses of a user process to pages it has mapped, and copying between them when no two bytes
  involved are the same physical byte.
\<close>

section \<open>Well-formed address spaces\<close>

text \<open>A mapped page has a table and a valid entry; own frames are older than the next one.\<close>

definition user_ok :: "uproc \<Rightarrow> bool" where
  "user_ok s \<longleftrightarrow> (\<forall>p f q. utab s p = Some (f, q) \<longrightarrow> upd s (p div 1024) \<and> q AND PTE_V \<noteq> 0 \<and>
     (\<forall>n. f = Own n \<longrightarrow> n < nframe s))"

lemma or_valid: "(q OR PTE_V) AND PTE_V \<noteq> (0 :: u32)"
  by (simp add: bit.conj_disj_distrib2)

lemma user_okD:
  assumes "user_ok s" and "utab s p = Some (f, q)"
  shows "upd s (p div 1024)" and "q AND PTE_V \<noteq> 0" and "\<And>n. f = Own n \<Longrightarrow> n < nframe s"
  using assms by (auto simp: user_ok_def)

lemma take_page_sel [simp]:
  "utab (snd (take_page s)) = utab s" "upd (snd (take_page s)) = upd s" "ram (snd (take_page s)) = ram s"
  "nframe (snd (take_page s)) = nframe s" "frefs (snd (take_page s)) = frefs s"
  by (simp_all add: take_page_def)

lemma need_table_sel [simp]:
  "utab (snd (need_table p s)) = utab s" "ram (snd (need_table p s)) = ram s"
  "nframe (snd (need_table p s)) = nframe s" "frefs (snd (need_table p s)) = frefs s"
  "fst (need_table p s) \<Longrightarrow> upd (snd (need_table p s)) = (upd s)(p div 1024 := True)"
  by (auto simp: need_table_def take_page_def fun_eq_iff split: if_splits)

lemma need_table_ok: "user_ok s \<Longrightarrow> user_ok (snd (need_table p s))"
  by (auto simp: user_ok_def need_table_def take_page_def)

lemma need_table_have [simp]: "upd s (p div 1024) \<Longrightarrow> need_table p s = (True, s)"
  by (simp add: need_table_def)

lemma unmap_page_sel [simp]:
  "utab (unmap_page p s) = (utab s)(p := None)" "upd (unmap_page p s) = upd s" "ram (unmap_page p s) = ram s"
  "nframe (unmap_page p s) = nframe s"
  by (auto simp: unmap_page_def fun_eq_iff split: option.splits)

lemma map_page_sel [simp]:
  "utab (map_page p f q s) = (utab s)(p := Some (f, q OR PTE_V))" "upd (map_page p f q s) = upd s"
  "ram (map_page p f q s) = ram s" "nframe (map_page p f q s) = nframe s"
  by (simp_all add: map_page_def Let_def)

lemma unmap_page_ok: "user_ok s \<Longrightarrow> user_ok (unmap_page p s)"
  by (simp add: user_ok_def)

lemma map_page_ok:
  "user_ok s \<Longrightarrow> upd s (p div 1024) \<Longrightarrow> (\<And>n. f = Own n \<Longrightarrow> n < nframe s) \<Longrightarrow> user_ok (map_page p f q s)"
  using or_valid [of q] by (auto simp: user_ok_def)

lemma take_page_ok: "user_ok s \<Longrightarrow> user_ok (snd (take_page s))"
  by (simp add: user_ok_def)

lemma new_page_ok: "user_ok s \<Longrightarrow> user_ok (snd (new_page p q s))"
proof -
  assume ok: "user_ok s"
  obtain b1 s1 where s1: "take_page s = (b1, s1)" by fastforce
  obtain b2 s2 where s2: "need_table p s1 = (b2, s2)" by fastforce
  have ok1: "user_ok s1" using take_page_ok [OF ok] by (simp add: s1)
  have ok2: "user_ok s2" using need_table_ok [OF ok1, of p] by (simp add: s2)
  let ?f = "Own (nframe s2)"
  let ?s = "s2\<lparr>nframe := nframe s2 + 1, ram := (ram s2)(?f := (\<lambda>_. 0)), frefs := (frefs s2)(?f := 0)\<rparr>"
  have "user_ok (map_page p ?f q ?s)" if b2
  proof (rule map_page_ok)
    show "user_ok ?s" using ok2 by (auto simp: user_ok_def less_Suc_eq)
    show "upd ?s (p div 1024)" using need_table_sel(5) [of p s1] that by (simp add: s2)
  qed simp
  then show ?thesis using ok1 ok2 by (simp add: new_page_def s1 s2 Let_def)
qed

lemma u_mem_ok:
  assumes "user_ok s"
  shows "user_ok (snd (u_mem_alloc va q s))" "user_ok (snd (u_mem_map va va' q s))" "user_ok (snd (u_mem_unmap va s))"
proof -
  show "user_ok (snd (u_mem_alloc va q s))"
    using assms new_page_ok [OF assms, of "upage va" q] by (auto simp: u_mem_alloc_def split: prod.splits)
  show "user_ok (snd (u_mem_unmap va s))" using assms by (simp add: u_mem_unmap_def unmap_page_ok)
  show "user_ok (snd (u_mem_map va va' q s))"
  proof (cases "is_illegal_va va \<or> is_illegal_va va' \<or> utab s (upage va) = None")
    case True
    then show ?thesis using assms by (auto simp: u_mem_map_def)
  next
    case False
    then obtain f r where f: "utab s (upage va) = Some (f, r)" by auto
    obtain ok s1 where s1: "need_table (upage va') s = (ok, s1)" by fastforce
    have "user_ok (map_page (upage va') f q s1)" if ok
      using need_table_ok [OF assms, of "upage va'"] need_table_sel(3,5) [of "upage va'" s] user_okD(3) [OF assms f] that
      by (intro map_page_ok) (simp_all add: s1)
    then show ?thesis
      using False f need_table_ok [OF assms, of "upage va'"] by (simp add: u_mem_map_def s1)
  qed
qed

section \<open>Accesses to mapped pages\<close>

lemma touch_mapped: "utab s (upage va) = Some e \<Longrightarrow> touch va s = Some (e, s)"
  by (simp add: touch_def)

lemma uvpt_ok: "upd s (p div 1024) \<Longrightarrow> uvpt p s = Some (utab s p, s)"
  by (simp add: uvpt_def)

lemma ld8_mapped: "utab s (upage va) = Some (f, q) \<Longrightarrow> ld8 va s = Some (ram s f (offset_of va), s)"
  by (simp add: ld8_def touch_mapped)

lemma st8_mapped:
  "utab s (upage va) = Some (f, q) \<Longrightarrow> q AND PTE_D \<noteq> 0 \<Longrightarrow>
     st8 va b s = Some (s\<lparr>ram := (ram s)(f := (ram s f)(offset_of va := b))\<rparr>)"
  by (simp add: st8_def for_write_def touch_mapped)

lemma ld32_mapped:
  "utab s (upage va) = Some (f, q) \<Longrightarrow> unat va mod 4 = 0 \<Longrightarrow> ld32 va s = Some (word_at (ram s f) (offset_of va), s)"
  by (simp add: ld32_def touch_mapped)

lemma st32_mapped:
  "utab s (upage va) = Some (f, q) \<Longrightarrow> q AND PTE_D \<noteq> 0 \<Longrightarrow> unat va mod 4 = 0 \<Longrightarrow>
     st32 va v s = Some (s\<lparr>ram := (ram s)(f := put_word (offset_of va) v (ram s f))\<rparr>)"
  by (simp add: st32_def for_write_def touch_mapped)

section \<open>Copying\<close>

text \<open>The physical byte behind an address.\<close>

definition cell :: "uproc \<Rightarrow> u32 \<Rightarrow> (frame \<times> u32) option" where
  "cell s va = map_option (\<lambda>(f, _). (f, offset_of va)) (utab s (upage va))"

definition writable_at :: "uproc \<Rightarrow> u32 \<Rightarrow> bool" where
  "writable_at s va \<longleftrightarrow> (\<exists>f q. utab s (upage va) = Some (f, q) \<and> q AND PTE_D \<noteq> 0)"

definition byte_at :: "uproc \<Rightarrow> u32 \<Rightarrow> u8" where
  "byte_at s va = (case cell s va of Some (f, i) \<Rightarrow> ram s f i | None \<Rightarrow> 0)"

lemma cell_ram [simp]: "cell (s\<lparr>ram := m\<rparr>) va = cell s va"
  by (simp add: cell_def)

text \<open>The buffer is writable memory whose bytes are physically distinct.\<close>

definition buffer :: "uproc \<Rightarrow> u32 \<Rightarrow> nat \<Rightarrow> bool" where
  "buffer s buf n \<longleftrightarrow> (\<forall>i < n. writable_at s (buf + of_nat i)) \<and>
     (\<forall>i < n. \<forall>j < n. cell s (buf + of_nat i) = cell s (buf + of_nat j) \<longrightarrow> i = j)"

definition apart :: "uproc \<Rightarrow> u32 \<Rightarrow> nat \<Rightarrow> u32 \<Rightarrow> nat \<Rightarrow> bool" where
  "apart s a n b m \<longleftrightarrow> (\<forall>i < n. \<forall>j < m. cell s (a + of_nat i) \<noteq> cell s (b + of_nat j))"

lemma u_memcpy_ok:
  assumes buf: "buffer s dst (unat n)" and src: "\<forall>i < unat n. cell s (src + of_nat i) \<noteq> None"
    and sep: "apart s dst (unat n) src (unat n)"
  shows "\<exists>m. u_memcpy dst src n s = Some (s\<lparr>ram := m\<rparr>) \<and>
    (\<forall>i < unat n. byte_at (s\<lparr>ram := m\<rparr>) (dst + of_nat i) = byte_at s (src + of_nat i)) \<and>
    (\<forall>f o'. (\<forall>i < unat n. cell s (dst + of_nat i) \<noteq> Some (f, o')) \<longrightarrow> m f o' = ram s f o')"
proof -
  let ?I = "\<lambda>k s'. \<exists>m. s' = s\<lparr>ram := m\<rparr> \<and>
    (\<forall>i < k. byte_at s' (dst + of_nat i) = byte_at s (src + of_nat i)) \<and>
    (\<forall>f o'. (\<forall>i < k. cell s (dst + of_nat i) \<noteq> Some (f, o')) \<longrightarrow> m f o' = ram s f o')"
  let ?body = "\<lambda>i s. do { (b, s1) \<leftarrow> ld8 (src + of_nat i) s; st8 (dst + of_nat i) b s1 }"
  have step: "\<exists>s2. ?body k s1 = Some s2 \<and> ?I (Suc k) s2" if k: "k < unat n" and I: "?I k s1" for k s1
  proof -
    obtain m where m: "s1 = s\<lparr>ram := m\<rparr>" "\<forall>i < k. byte_at s1 (dst + of_nat i) = byte_at s (src + of_nat i)"
      "\<forall>f o'. (\<forall>i < k. cell s (dst + of_nat i) \<noteq> Some (f, o')) \<longrightarrow> m f o' = ram s f o'" using I by blast
    obtain f q where f: "utab s (upage (src + of_nat k)) = Some (f, q)" using src k by (force simp: cell_def)
    obtain g r where g: "utab s (upage (dst + of_nat k)) = Some (g, r)" "r AND PTE_D \<noteq> 0"
      using buf k by (auto simp: buffer_def writable_at_def)
    have "cell s (src + of_nat k) = Some (f, offset_of (src + of_nat k))" using f by (simp add: cell_def)
    then have "m f (offset_of (src + of_nat k)) = ram s f (offset_of (src + of_nat k))"
      using m(3) sep k unfolding apart_def by (metis order.strict_trans)
    then have b: "?body k s1 = Some (s\<lparr>ram := m(g := (m g)(offset_of (dst + of_nat k) := byte_at s (src + of_nat k)))\<rparr>)"
      using ld8_mapped [of s1 _ f q] st8_mapped [of s1 _ g r] f g by (simp add: m(1) byte_at_def cell_def)
    have ck: "cell s (dst + of_nat k) = Some (g, offset_of (dst + of_nat k))" using g by (simp add: cell_def)
    define m' where "m' = m(g := (m g)(offset_of (dst + of_nat k) := byte_at s (src + of_nat k)))"
    have "byte_at (s\<lparr>ram := m'\<rparr>) (dst + of_nat i) = byte_at s (src + of_nat i)" if "i < Suc k" for i
    proof (cases "i = k")
      case True
      then show ?thesis using ck by (simp add: byte_at_def m'_def)
    next
      case False
      then have i: "i < k" using that by simp
      then have "cell s (dst + of_nat i) \<noteq> cell s (dst + of_nat k)"
        using buf k False unfolding buffer_def by (metis order.strict_trans)
      then have "byte_at (s\<lparr>ram := m'\<rparr>) (dst + of_nat i) = byte_at s1 (dst + of_nat i)"
        using ck by (auto simp: byte_at_def m(1) m'_def split: option.splits)
      then show ?thesis using m(2) i by simp
    qed
    moreover have "m' f o' = ram s f o'" if "\<forall>i < Suc k. cell s (dst + of_nat i) \<noteq> Some (f, o')" for f o'
      using that m(3) ck by (auto simp: m'_def)
    ultimately show ?thesis using b unfolding m'_def [symmetric] by blast
  qed
  have "\<exists>s'. fold_opt ?body [0..<unat n] s = Some s' \<and> ?I (length [0..<unat n]) s'"
    by (rule fold_opt_inv) (use step in \<open>auto intro: exI [of _ "ram s"]\<close>)
  then show ?thesis unfolding u_memcpy_def by auto
qed

end
