(* ===== verification/Fd_Props.thy ===== *)
theory Fd_Props
  imports Umem_Props
begin

text \<open>
  Correctness of the descriptor layer: which descriptor \<^verbatim>\<open>fd_alloc\<close> finds, and what \<^verbatim>\<open>read\<close>, \<^verbatim>\<open>readn\<close>,
  \<^verbatim>\<open>write\<close>, \<^verbatim>\<open>seek\<close> and \<^verbatim>\<open>dup\<close> do on an open file.
\<close>

section \<open>Descriptor numbers and addresses\<close>

lemma INDEX2FD_nat:
  assumes "i < MAXFD"
  shows "unat (INDEX2FD (of_nat i)) = 1606418432 + i * 4096" "upage (INDEX2FD (of_nat i)) = 392192 + i"
    "upage (INDEX2FD (of_nat i)) div 1024 = 383" "unat (INDEX2FD (of_nat i)) div 4194304 = 383"
proof -
  have "unat (of_nat i * BY2PG :: u32) = i * 4096"
    using assms by (simp add: unat_word_ariths word_of_nat_unat_eq)
  then show u: "unat (INDEX2FD (of_nat i)) = 1606418432 + i * 4096"
    using assms by (simp add: INDEX2FD_def unat_word_ariths(1))
  then show p: "upage (INDEX2FD (of_nat i)) = 392192 + i" by (simp add: upage_def)
  show "upage (INDEX2FD (of_nat i)) div 1024 = 383" using assms by (simp add: p)
  show "unat (INDEX2FD (of_nat i)) div 4194304 = 383" using assms by (simp add: u)
qed

lemma fd2num_INDEX2FD [simp]: "i < MAXFD \<Longrightarrow> fd2num (INDEX2FD (of_nat i)) = of_nat i"
proof -
  assume "i < MAXFD"
  then have "unat (of_nat i * BY2PG :: u32) = i * 4096" "unat (of_nat i :: u32) = i"
    by (simp_all add: unat_word_ariths word_of_nat_unat_eq)
  then show ?thesis by (simp add: fd2num_def INDEX2FD_def word_unat_eq_iff unat_div_distrib)
qed

lemma unat_offset_of: "unat (offset_of va) = unat va mod 4096"
proof -
  have "offset_of va = take_bit 12 va" by (simp add: offset_of_def take_bit_eq_mask mask_eq_exp_minus_1)
  then show ?thesis by (simp add: take_bit_eq_mod unat_mod_distrib)
qed

lemma page_add:
  assumes "unat a mod 4096 = 0" and "k < 4096"
  shows "upage (a + of_nat k) = upage a" "offset_of (a + of_nat k) = of_nat k" "unat (a + of_nat k) = unat a + k"
proof -
  have "unat a div 4096 < 1048576" using unat_lt_32 [of a] by (simp add: div_less_iff_less_mult)
  then have "unat a + k < 4294967296" using assms div_mult_mod_eq [of "unat a" 4096] by linarith
  then show u: "unat (a + of_nat k) = unat a + k"
    using assms(2) by (simp add: unat_word_ariths(1) word_of_nat_unat_eq)
  show "upage (a + of_nat k) = upage a" using assms by (simp add: upage_def u div_add1_eq)
  have "(unat a + k) mod 4096 = k" using assms by (simp add: mod_add_eq [symmetric])
  then have "unat (offset_of (a + of_nat k)) = k"
    by (simp add: unat_offset_of u)
  then show "offset_of (a + of_nat k) = of_nat k" using assms(2) by (simp add: word_unat_eq_iff word_of_nat_unat_eq)
qed

section \<open>Finding a descriptor\<close>

definition unused :: "uproc \<Rightarrow> nat \<Rightarrow> bool" where
  "unused s i \<longleftrightarrow> utab s (upage (INDEX2FD (of_nat i))) = None"

lemma fd_alloc_from_eq:
  assumes "user_ok s" and "\<forall>i \<in> set is. i < MAXFD"
  shows "fd_alloc_from is s = Some (case find (unused s) is of
    None \<Rightarrow> (neg E_MAX_OPEN, None) | Some i \<Rightarrow> (0, Some (INDEX2FD (of_nat i))), s)"
  using assms(2)
proof (induction "is")
  case (Cons i "is")
  note u = INDEX2FD_nat [of i]
  show ?case
  proof (cases "upd s 383")
    case False
    then have "unused s i"
      using user_okD(1) [OF assms(1), of "upage (INDEX2FD (of_nat i))"] u(3) Cons.prems
      by (cases "utab s (upage (INDEX2FD (of_nat i)))") (auto simp: unused_def)
    then show ?thesis using False u Cons.prems by (simp add: uvpd_def Let_def)
  next
    case True
    then have v: "uvpt (upage (INDEX2FD (of_nat i))) s = Some (utab s (upage (INDEX2FD (of_nat i))), s)"
      using u Cons.prems by (simp add: uvpt_ok)
    have "entry_flags (utab s (upage (INDEX2FD (of_nat i)))) AND PTE_V = 0 \<longleftrightarrow> unused s i"
      using user_okD(2) [OF assms(1)] by (auto simp: unused_def entry_flags_def split: option.splits)
    then show ?thesis using True u(4) Cons by (simp add: uvpd_def v Let_def)
  qed
qed simp

text \<open>\<^verbatim>\<open>fd_alloc\<close> returns the least descriptor below \<^verbatim>\<open>MAXFD - 1\<close> whose page is not mapped, or
  \<^verbatim>\<open>-E_MAX_OPEN\<close> when there is none, and changes nothing: no page is allocated, not even a table.\<close>

theorem fd_alloc_correct:
  assumes "user_ok s"
  shows "case find (unused s) [0..<MAXFD - 1] of
      None \<Rightarrow> fd_alloc s = Some ((neg E_MAX_OPEN, None), s) \<and> (\<forall>i < MAXFD - 1. \<not> unused s i)
    | Some i \<Rightarrow> fd_alloc s = Some ((0, Some (INDEX2FD (of_nat i))), s) \<and> i < MAXFD - 1 \<and> unused s i \<and>
        (\<forall>j < i. \<not> unused s j)"
proof -
  have e: "fd_alloc s = Some (case find (unused s) [0..<MAXFD - 1] of
      None \<Rightarrow> (neg E_MAX_OPEN, None) | Some i \<Rightarrow> (0, Some (INDEX2FD (of_nat i))), s)"
    unfolding fd_alloc_def by (rule fd_alloc_from_eq [OF assms]) simp
  show ?thesis
  proof (cases "find (unused s) [0..<MAXFD - 1]")
    case None
    then have "\<forall>i < MAXFD - 1. \<not> unused s i"
      unfolding find_None_iff by (simp del: upt_Suc upt_rec_numeral)
    then show ?thesis using None e by simp
  next
    case (Some i)
    then have "i < MAXFD - 1 \<and> unused s i \<and> (\<forall>j < i. \<not> unused s j)"
      unfolding find_Some_iff by (auto simp del: upt_Suc upt_rec_numeral)
    then show ?thesis using Some e by simp
  qed
qed

section \<open>Open files\<close>

text \<open>Descriptor \<open>i\<close> is a native file: its page is frame \<open>F\<close>, with open mode, size and offset, and the
  first \<open>sz\<close> bytes of its window are mapped, outside the descriptor's page.\<close>

definition open_file :: "uproc \<Rightarrow> nat \<Rightarrow> frame \<Rightarrow> u32 \<Rightarrow> u32 \<Rightarrow> u32 \<Rightarrow> bool" where
  "open_file s i F mode sz off \<longleftrightarrow> i < MAXFD \<and> user_ok s \<and>
     (\<exists>q. utab s (upage (INDEX2FD (of_nat i))) = Some (F, q) \<and> q AND PTE_D \<noteq> 0) \<and>
     word_at (ram s F) 0 = dev_id_file \<and> word_at (ram s F) 4 = off \<and> word_at (ram s F) 8 = mode \<and>
     word_at (ram s F) 12 = 0 \<and> word_at (ram s F) 148 = sz \<and> sz \<le> MAXFILESIZE \<and> off \<le> sz \<and>
     (\<forall>a < unat sz. cell s (INDEX2DATA (of_nat i) + of_nat a) \<noteq> None \<and>
        (\<forall>x. cell s (INDEX2DATA (of_nat i) + of_nat a) \<noteq> Some (F, x)))"

lemma is_err_0 [simp]: "\<not> is_err 0" and is_err_neg [simp]: "is_err (neg e)"
proof -
  show "\<not> is_err 0" by (simp add: is_err_def)
  show "is_err (neg e)" by (cases e) (simp_all add: is_err_def ret_word_def)
qed

lemma sint_small: "unat (w :: u32) < 2147483648 \<Longrightarrow> sint w = int (unat w)"
proof -
  assume b: "unat w < 2147483648"
  have u: "int (unat w) = uint w" by simp
  have "uint w < 2147483648" "- 2147483648 \<le> uint w" using b u by linarith+
  then have "signed_take_bit 31 (uint w) = uint w" by (intro signed_take_bit_int_eq_self) simp_all
  then show ?thesis by (simp only: u sint_uint) simp
qed

lemma unat_add_le: "unat a + unat b \<le> unat c \<Longrightarrow> unat (a + b) = unat a + unat b" for a b c :: u32
  using unat_lt_32 [of c] by (intro unat_add_no_overflow) (simp del: unat_lt_32)

lemma sint_pos: "unat (w :: u32) < 2147483648 \<Longrightarrow> 0 < sint w \<longleftrightarrow> w \<noteq> 0"
  by (simp only: sint_small of_nat_0_less_iff unat_gt_0)

lemma fd_lookup_mapped:
  assumes "i < MAXFD" and "user_ok s" and "utab s (upage (INDEX2FD (of_nat i))) = Some (F, q)"
  shows "fd_lookup (of_nat i) s = Some ((0, Some (INDEX2FD (of_nat i))), s)"
proof -
  have "sint (of_nat i :: u32) = int i"
    using assms(1) by (simp add: sint_small word_of_nat_unat_eq)
  moreover note user_okD [OF assms(2,3)] 
  ultimately show ?thesis
    using assms by (simp add: fd_lookup_def Let_def uvpt_ok entry_flags_def)
qed

text \<open>The words of the descriptor's page.\<close>

lemma fd_word:
  assumes "i < MAXFD" and "utab s (upage (INDEX2FD (of_nat i))) = Some (F, q)" and "k < 1024"
  shows "ld32 (INDEX2FD (of_nat i) + of_nat (4 * k)) s = Some (word_at (ram s F) (of_nat (4 * k)), s)"
    and "q AND PTE_D \<noteq> 0 \<Longrightarrow> st32 (INDEX2FD (of_nat i) + of_nat (4 * k)) v s =
      Some (s\<lparr>ram := (ram s)(F := put_word (of_nat (4 * k)) v (ram s F))\<rparr>)"
proof -
  have a: "unat (INDEX2FD (of_nat i)) mod 4096 = 0" by (simp add: INDEX2FD_nat [OF assms(1)])
  note p = page_add [OF a, of "4 * k"]
  have al: "unat (INDEX2FD (of_nat i) + of_nat (4 * k)) mod 4 = 0"
    using p(3) assms(1,3) by (simp add: INDEX2FD_nat [OF assms(1)])
  show "ld32 (INDEX2FD (of_nat i) + of_nat (4 * k)) s = Some (word_at (ram s F) (of_nat (4 * k)), s)"
    using ld32_mapped [OF _ al, of s F q] p(1,2) assms by simp
  show "st32 (INDEX2FD (of_nat i) + of_nat (4 * k)) v s =
      Some (s\<lparr>ram := (ram s)(F := put_word (of_nat (4 * k)) v (ram s F))\<rparr>)" if "q AND PTE_D \<noteq> 0"
    using st32_mapped [OF _ that al, of s F] p(1,2) assms by simp
qed

lemmas fd_words = fd_word(1) [where k = 0, simplified] fd_word(1) [where k = 1, simplified]
  fd_word(1) [where k = 2, simplified] fd_word(1) [where k = 3, simplified] fd_word(1) [where k = 37, simplified]
  fd_word(2) [where k = 1, simplified]

lemma fd_dev_file:
  assumes "open_file s i F mode sz off"
  shows "fd_dev (of_nat i) s = Some (Inr (INDEX2FD (of_nat i), devfile), s)"
  using assms fd_lookup_mapped [of i s F] fd_words(1) [of i s F]
  by (auto simp: fd_dev_def open_file_def dev_lookup_def devtab_def devfile_def)

text \<open>Bytes from the offset to the end, at most \<open>n\<close>.\<close>

definition readable :: "u32 \<Rightarrow> u32 \<Rightarrow> u32 \<Rightarrow> u32" where
  "readable n off sz = (if unat n \<le> unat sz - unat off then n else sz - off)"

lemma readable_nat: "off \<le> sz \<Longrightarrow> unat (readable n off sz) = min (unat n) (unat sz - unat off)"
  by (simp add: readable_def unat_sub word_le_nat_alt)

text \<open>A buffer that shares no byte with descriptor \<open>i\<close> or its window.\<close>

definition read_buffer :: "uproc \<Rightarrow> nat \<Rightarrow> frame \<Rightarrow> u32 \<Rightarrow> u32 \<Rightarrow> nat \<Rightarrow> bool" where
  "read_buffer s i F sz buf n \<longleftrightarrow> n < 2147483648 \<and> buffer s buf n \<and> apart s buf n (INDEX2DATA (of_nat i)) (unat sz) \<and>
     (\<forall>j < n. \<forall>x. cell s (buf + of_nat j) \<noteq> Some (F, x))"

lemma buffer_sub: "buffer s buf n \<Longrightarrow> m \<le> n \<Longrightarrow> buffer s buf m"
  by (auto simp: buffer_def)

lemma copy_out_ok:
  assumes off: "off \<le> sz" "sz \<le> MAXFILESIZE" and i: "i < MAXFD"
    and win: "\<forall>a < unat sz. cell s (INDEX2DATA (of_nat i) + of_nat a) \<noteq> None"
    and buf: "read_buffer s i F sz buf (unat n)"
  shows "\<exists>m. copy_out (INDEX2FD (of_nat i)) sz buf n off s = Some (readable n off sz, s\<lparr>ram := m\<rparr>) \<and>
    (\<forall>j < unat (readable n off sz). byte_at (s\<lparr>ram := m\<rparr>) (buf + of_nat j) =
       byte_at s (INDEX2DATA (of_nat i) + of_nat (unat off + j))) \<and>
    (\<forall>f x. (\<forall>j < unat (readable n off sz). cell s (buf + of_nat j) \<noteq> Some (f, x)) \<longrightarrow> m f x = ram s f x)"
proof -
  let ?n = "readable n off sz" and ?src = "INDEX2DATA (of_nat i) + off"
  have o: "unat off \<le> unat sz" "unat sz \<le> 4194304" "unat n < 2147483648"
    using off buf by (simp_all add: word_le_nat_alt read_buffer_def)
  then have "off + n > sz \<longleftrightarrow> unat n > unat sz - unat off"
    by (auto simp: word_less_nat_alt unat_word_ariths)
  moreover have "\<not> sz < off" using off(1) by simp
  ultimately have e: "copy_out (INDEX2FD (of_nat i)) sz buf n off s = map_option (\<lambda>s1. (?n, s1)) (u_memcpy buf ?src ?n s)"
    using i by (simp add: copy_out_def readable_def fd2data_def not_le Let_def)
  have r: "unat ?n \<le> unat n" "unat off + unat ?n \<le> unat sz" using readable_nat [OF off(1), of n] o by auto
  have sr: "?src + of_nat j = INDEX2DATA (of_nat i) + of_nat (unat off + j)" for j by (simp add: add.assoc)
  have "\<forall>j < unat ?n. cell s (?src + of_nat j) \<noteq> None" using win r(2) unfolding sr by (metis add_less_cancel_left order.strict_trans2)
  moreover have "apart s buf (unat ?n) ?src (unat ?n)"
    using buf r unfolding apart_def sr read_buffer_def by (metis add_less_cancel_left order.strict_trans2)
  moreover have "buffer s buf (unat ?n)" using buf r(1) by (auto simp: read_buffer_def intro: buffer_sub)
  ultimately show ?thesis using u_memcpy_ok [of s buf ?n ?src] unfolding sr by (auto simp: e)
qed

text \<open>Storing a new offset leaves the rest of the descriptor.\<close>

lemma fd_word_offset:
  "word_at (put_word 4 v g) 4 = v" "word_at (put_word 4 v g) 0 = word_at g 0" "word_at (put_word 4 v g) 8 = word_at g 8"
  "word_at (put_word 4 v g) 12 = word_at g 12" "word_at (put_word 4 v g) 148 = word_at g 148"
  by simp_all

lemma put_word_same: "put_word a (word_at g a) g = g"
proof -
  have "ucast (word_at g a) = g a" "ucast (drop_bit 8 (word_at g a)) = g (a + 1)"
    "ucast (drop_bit 16 (word_at g a)) = g (a + 2)" "ucast (drop_bit 24 (word_at g a)) = g (a + 3)"
    by (rule bit_word_eqI, auto simp: word_at_def bit_simps dest: bit_imp_le_length)+
  then show ?thesis by (simp add: put_word_def)
qed

lemma open_file_upd:
  assumes "open_file s i F mode sz off" and "off' \<le> sz" and "m F = put_word 4 off' (ram s F)"
  shows "open_file (s\<lparr>ram := m\<rparr>) i F mode sz off'"
  using assms by (simp add: open_file_def user_ok_def fd_word_offset)

lemma advance_file:
  assumes fl: "open_file s i F mode sz off" and le: "unat off + unat r \<le> unat sz" and m: "m F = ram s F"
  shows "advance (INDEX2FD (of_nat i)) r (s\<lparr>ram := m\<rparr>) = Some (r, s\<lparr>ram := m(F := put_word 4 (off + r) (ram s F))\<rparr>)"
    and "open_file (s\<lparr>ram := m(F := put_word 4 (off + r) (ram s F))\<rparr>) i F mode sz (off + r)"
proof -
  obtain q where f: "i < MAXFD" "utab s (upage (INDEX2FD (of_nat i))) = Some (F, q)" "q AND PTE_D \<noteq> 0"
    "word_at (ram s F) 4 = off" "sz \<le> MAXFILESIZE" using fl by (auto simp: open_file_def)
  have "0 < sint r \<longleftrightarrow> r \<noteq> 0" using le f(5) by (intro sint_pos) (simp add: word_le_nat_alt)
  moreover have "utab (s\<lparr>ram := m\<rparr>) (upage (INDEX2FD (of_nat i))) = Some (F, q)" using f(2) by simp
  note fd_words(2,6) [OF f(1) this]
  moreover have "m(F := put_word 4 (off + r) (ram s F)) = m" if "r = 0"
    using that m put_word_same [of 4 "ram s F"] f(4) by (simp add: fun_upd_idem)
  ultimately show "advance (INDEX2FD (of_nat i)) r (s\<lparr>ram := m\<rparr>) = Some (r, s\<lparr>ram := m(F := put_word 4 (off + r) (ram s F))\<rparr>)"
    using f(3,4) m by (auto simp: advance_def)
  show "open_file (s\<lparr>ram := m(F := put_word 4 (off + r) (ram s F))\<rparr>) i F mode sz (off + r)"
    using unat_add_le [OF le] le by (intro open_file_upd [OF fl]) (simp_all add: word_le_nat_alt)
qed

lemma read_file:
  assumes fl: "open_file s i F mode sz off" and mode: "mode AND O_ACCMODE \<noteq> O_WRONLY"
    and buf: "read_buffer s i F sz buf (unat n)"
  defines "r \<equiv> readable n off sz"
  shows "\<exists>m. read (of_nat i) buf n s = Some (r, s\<lparr>ram := m\<rparr>) \<and> open_file (s\<lparr>ram := m\<rparr>) i F mode sz (off + r) \<and>
    (\<forall>j < unat r. byte_at (s\<lparr>ram := m\<rparr>) (buf + of_nat j) = byte_at s (INDEX2DATA (of_nat i) + of_nat (unat off + j))) \<and>
    (\<forall>f x. f \<noteq> F \<longrightarrow> (\<forall>j < unat r. cell s (buf + of_nat j) \<noteq> Some (f, x)) \<longrightarrow> m f x = ram s f x)"
proof -
  obtain q where f: "i < MAXFD" "utab s (upage (INDEX2FD (of_nat i))) = Some (F, q)" "q AND PTE_D \<noteq> 0"
    "word_at (ram s F) 4 = off" "word_at (ram s F) 8 = mode" "word_at (ram s F) 12 = 0" "word_at (ram s F) 148 = sz"
    "sz \<le> MAXFILESIZE" "off \<le> sz" "\<forall>a < unat sz. cell s (INDEX2DATA (of_nat i) + of_nat a) \<noteq> None"
    using fl by (auto simp: open_file_def)
  obtain m where m: "copy_out (INDEX2FD (of_nat i)) sz buf n off s = Some (r, s\<lparr>ram := m\<rparr>)"
    "\<forall>j < unat r. byte_at (s\<lparr>ram := m\<rparr>) (buf + of_nat j) = byte_at s (INDEX2DATA (of_nat i) + of_nat (unat off + j))"
    "\<forall>f x. (\<forall>j < unat r. cell s (buf + of_nat j) \<noteq> Some (f, x)) \<longrightarrow> m f x = ram s f x"
    using copy_out_ok [OF f(9,8,1,10) buf] unfolding r_def by blast
  have rn: "unat r \<le> unat n" "unat off + unat r \<le> unat sz" "unat sz \<le> 4194304"
    using readable_nat [OF f(9), of n] f(8,9) by (auto simp: r_def word_le_nat_alt)
  have bF: "cell s (buf + of_nat j) \<noteq> Some (F, x)" if "j < unat r" for j x
    using buf that rn(1) unfolding read_buffer_def by (metis order.strict_trans2)
  then have mF: "m F = ram s F" using m(3) by (intro ext) blast
  define m' where "m' = m(F := put_word 4 (off + r) (ram s F))"
  note adv = advance_file [where m = m, OF fl rn(2) mF, folded m'_def]
  have "read (of_nat i) buf n s = Some (r, s\<lparr>ram := m'\<rparr>)"
    using fd_dev_file [OF fl] fd_words(2-5) [OF f(1,2)] mode m(1) adv(1) f(4-7)
    by (simp add: read_def devfile_def file_read_u_def)
  moreover have "byte_at (s\<lparr>ram := m'\<rparr>) (buf + of_nat j) = byte_at (s\<lparr>ram := m\<rparr>) (buf + of_nat j)" if "j < unat r" for j
    using bF [OF that] by (auto simp: byte_at_def m'_def split: option.splits)
  ultimately show ?thesis using adv(2) m(2,3) by (intro exI [of _ m']) (auto simp: m'_def)
qed

section \<open>Reading until enough\<close>

text \<open>The loop of \<^verbatim>\<open>readn\<close> against any descriptor whose \<^verbatim>\<open>read\<close> returns at most what is asked for: \<open>I tot s\<close>
  holds when \<open>tot\<close> bytes have been read, and a \<^verbatim>\<open>read\<close> of nothing means the end of the data.\<close>

locale reader =
  fixes fdnum buf n :: u32 and I :: "u32 \<Rightarrow> uproc \<Rightarrow> bool" and eof :: "u32 \<Rightarrow> bool"
  assumes turn: "I tot s \<Longrightarrow> tot < n \<Longrightarrow> \<exists>m s'. read fdnum (buf + tot) (n - tot) s = Some (m, s') \<and>
      \<not> is_err m \<and> m \<le> n - tot \<and> I (tot + m) s' \<and> (m = 0 \<longrightarrow> eof tot)"
begin

lemma readn_from_returns:
  "I tot s \<Longrightarrow> tot \<le> n \<Longrightarrow> \<exists>r s'. readn_from fdnum buf n tot s = Some (r, s') \<and> I r s' \<and> r \<le> n \<and> (r = n \<or> eof r)"
proof (induction "unat (n - tot)" arbitrary: tot s rule: less_induct)
  case less
  show ?case
  proof (cases "tot < n")
    case False
    then have "tot = n" using less.prems(2) by simp
    then show ?thesis using less.prems by (subst readn_from.simps) auto
  next
    case True
    obtain m s' where m: "read fdnum (buf + tot) (n - tot) s = Some (m, s')" "\<not> is_err m" "m \<le> n - tot"
      "I (tot + m) s'" "m = 0 \<longrightarrow> eof tot" using turn [OF less.prems(1) True] by blast
    show ?thesis
    proof (cases "m = 0")
      case True
      then show ?thesis using m less.prems \<open>tot < n\<close> by (subst readn_from.simps) auto
    next
      case False
      have u: "unat (n - tot) = unat n - unat tot" "unat m \<le> unat n - unat tot" "0 < unat m"
        using True m(3) False by (simp_all add: unat_sub word_le_nat_alt word_less_nat_alt unat_gt_0)
      then have "unat (tot + m) = unat tot + unat m"
        using True by (intro unat_add_le [of _ _ n]) (simp add: word_less_nat_alt)
      then have le: "tot + m \<le> n" "unat (n - (tot + m)) < unat (n - tot)"
        using u by (simp_all add: word_le_nat_alt unat_sub)
      have "readn_from fdnum buf n tot s = readn_from fdnum buf n (tot + m) s'"
        using True m(1,2) False by (subst readn_from.simps) simp
      then show ?thesis using less.hyps [OF le(2) m(4) le(1)] by simp
    qed
  qed
qed

lemma readn_returns: "I 0 s \<Longrightarrow> \<exists>r s'. readn fdnum buf n s = Some (r, s') \<and> I r s' \<and> r \<le> n \<and> (r = n \<or> eof r)"
  using readn_from_returns [of 0 s] by (simp add: readn_def)

end

text \<open>Reading from an open file, \<open>tot\<close> bytes after the state \<open>s0\<close> in which it started.\<close>

definition file_read_inv :: "nat \<Rightarrow> frame \<Rightarrow> u32 \<Rightarrow> u32 \<Rightarrow> u32 \<Rightarrow> u32 \<Rightarrow> u32 \<Rightarrow> uproc \<Rightarrow> u32 \<Rightarrow> uproc \<Rightarrow> bool" where
  "file_read_inv i F mode sz off buf n s0 tot s \<longleftrightarrow> mode AND O_ACCMODE \<noteq> O_WRONLY \<and>
     read_buffer s0 i F sz buf (unat n) \<and> (\<exists>m. s = s0\<lparr>ram := m\<rparr>) \<and> open_file s i F mode sz (off + tot) \<and>
     unat off + unat tot \<le> unat sz \<and> tot \<le> n \<and>
     (\<forall>j < unat tot. byte_at s (buf + of_nat j) = byte_at s0 (INDEX2DATA (of_nat i) + of_nat (unat off + j))) \<and>
     (\<forall>f x. f \<noteq> F \<longrightarrow> (\<forall>j < unat n. cell s0 (buf + of_nat j) \<noteq> Some (f, x)) \<longrightarrow> ram s f x = ram s0 f x)"

lemma buffer_shift:
  assumes "buffer s buf n"
  shows "buffer s (buf + of_nat k) (n - k)"
proof -
  have b: "buf + of_nat k + of_nat j = buf + of_nat (k + j)" for j by (simp add: add.assoc)
  have w: "writable_at s (buf + of_nat (k + j))" if "j < n - k" for j
  proof -
    have "k + j < n" using that by simp
    then show ?thesis using assms unfolding buffer_def by blast
  qed
  have "j = j'" if "j < n - k" "j' < n - k" "cell s (buf + of_nat (k + j)) = cell s (buf + of_nat (k + j'))" for j j'
  proof -
    have "k + j < n" "k + j' < n" using that by simp_all
    then have "k + j = k + j'" using assms that(3) unfolding buffer_def by blast
    then show ?thesis by simp
  qed
  with w show ?thesis unfolding buffer_def b by blast
qed

lemma read_buffer_sub:
  assumes "read_buffer s i F sz buf (unat n)" and "tot < n"
  shows "read_buffer (s\<lparr>ram := m\<rparr>) i F sz (buf + tot) (unat (n - tot))"
proof -
  have u: "unat (n - tot) = unat n - unat tot" using assms(2) by (simp add: unat_sub)
  have b: "buf + tot + of_nat j = buf + of_nat (unat tot + j)" for j by (simp add: add.assoc)
  have lt: "unat tot + j < unat n" if "j < unat n - unat tot" for j using that by simp
  have "buffer (s\<lparr>ram := m\<rparr>) (buf + tot) (unat n - unat tot)"
    using buffer_shift [of s buf "unat n" "unat tot"] assms(1)
    by (simp add: read_buffer_def buffer_def writable_at_def)
  moreover have "apart (s\<lparr>ram := m\<rparr>) (buf + tot) (unat n - unat tot) (INDEX2DATA (of_nat i)) (unat sz)"
    using assms(1) lt unfolding read_buffer_def apart_def b cell_ram by blast
  moreover have "cell (s\<lparr>ram := m\<rparr>) (buf + tot + of_nat j) \<noteq> Some (F, x)" if "j < unat n - unat tot" for j x
    using assms(1) lt [OF that] unfolding read_buffer_def b cell_ram by blast
  moreover have "unat n - unat tot < 2147483648" using assms(1) unfolding read_buffer_def by linarith
  ultimately show ?thesis by (simp add: read_buffer_def u)
qed

text \<open>Filling a later part of the buffer keeps the earlier one and the file.\<close>

lemma buffer_before:
  assumes buf: "read_buffer s i F sz buf n" and k: "j < k" "k + r \<le> n"
    and eq: "\<And>f x. f \<noteq> F \<Longrightarrow> (\<And>l. l < r \<Longrightarrow> cell s (buf + of_nat (k + l)) \<noteq> Some (f, x)) \<Longrightarrow> m f x = m0 f x"
  shows "byte_at (s\<lparr>ram := m\<rparr>) (buf + of_nat j) = byte_at (s\<lparr>ram := m0\<rparr>) (buf + of_nat j)"
proof -
  have jn: "j < n" using k by simp
  then obtain f x where c: "cell s (buf + of_nat j) = Some (f, x)"
    using buf by (fastforce simp: read_buffer_def buffer_def writable_at_def cell_def)
  have "f \<noteq> F" using buf jn c unfolding read_buffer_def by blast
  moreover have "cell s (buf + of_nat (k + l)) \<noteq> Some (f, x)" if "l < r" for l
  proof
    assume "cell s (buf + of_nat (k + l)) = Some (f, x)"
    moreover have "k + l < n" using that k(2) by simp
    ultimately have "k + l = j" using buf jn c unfolding read_buffer_def buffer_def by metis
    then show False using k(1) by simp
  qed
  ultimately show ?thesis using c eq by (simp add: byte_at_def)
qed

lemma window_kept:
  assumes buf: "read_buffer s i F sz buf n" and a: "a < unat sz"
    and c: "cell s (INDEX2DATA (of_nat i) + of_nat a) \<noteq> None" "\<And>x. cell s (INDEX2DATA (of_nat i) + of_nat a) \<noteq> Some (F, x)"
    and eq: "\<forall>f x. f \<noteq> F \<longrightarrow> (\<forall>j < n. cell s (buf + of_nat j) \<noteq> Some (f, x)) \<longrightarrow> m f x = ram s f x"
  shows "byte_at (s\<lparr>ram := m\<rparr>) (INDEX2DATA (of_nat i) + of_nat a) = byte_at s (INDEX2DATA (of_nat i) + of_nat a)"
proof -
  obtain f x where f: "cell s (INDEX2DATA (of_nat i) + of_nat a) = Some (f, x)" "f \<noteq> F" using c by force
  then have "m f x = ram s f x" using buf eq a unfolding read_buffer_def apart_def by metis
  then show ?thesis using f(1) by (simp add: byte_at_def)
qed

lemma file_read_turn:
  assumes inv: "file_read_inv i F mode sz off buf n s0 tot s" and lt: "tot < n"
  shows "\<exists>m s'. read (of_nat i) (buf + tot) (n - tot) s = Some (m, s') \<and> \<not> is_err m \<and> m \<le> n - tot \<and>
    file_read_inv i F mode sz off buf n s0 (tot + m) s' \<and> (m = 0 \<longrightarrow> unat off + unat tot = unat sz)"
proof -
  obtain m0 where I: "mode AND O_ACCMODE \<noteq> O_WRONLY" "read_buffer s0 i F sz buf (unat n)" "s = s0\<lparr>ram := m0\<rparr>"
    "open_file s i F mode sz (off + tot)" "unat off + unat tot \<le> unat sz"
    "\<forall>j < unat tot. byte_at s (buf + of_nat j) = byte_at s0 (INDEX2DATA (of_nat i) + of_nat (unat off + j))"
    "\<forall>f x. f \<noteq> F \<longrightarrow> (\<forall>j < unat n. cell s0 (buf + of_nat j) \<noteq> Some (f, x)) \<longrightarrow> m0 f x = ram s0 f x"
    using inv by (auto simp: file_read_inv_def)
  define r where "r = readable (n - tot) (off + tot) sz"
  have buf: "read_buffer s i F sz (buf + tot) (unat (n - tot))"
    using read_buffer_sub [OF I(2) lt, of m0] by (simp add: I(3))
  have u: "unat (n - tot) = unat n - unat tot" "unat (off + tot) = unat off + unat tot"
    using lt unat_add_le [OF I(5)] by (simp_all add: unat_sub)
  have sz: "off + tot \<le> sz" using I(4) by (simp add: open_file_def)
  have rn: "unat r = min (unat n - unat tot) (unat sz - unat off - unat tot)"
    using readable_nat [OF sz, of "n - tot"] by (simp add: r_def u)
  obtain m where m: "read (of_nat i) (buf + tot) (n - tot) s = Some (r, s\<lparr>ram := m\<rparr>)"
    "open_file (s\<lparr>ram := m\<rparr>) i F mode sz (off + tot + r)"
    "\<forall>j < unat r. byte_at (s\<lparr>ram := m\<rparr>) (buf + tot + of_nat j) = byte_at s (INDEX2DATA (of_nat i) + of_nat (unat (off + tot) + j))"
    "\<forall>f x. f \<noteq> F \<longrightarrow> (\<forall>j < unat r. cell s (buf + tot + of_nat j) \<noteq> Some (f, x)) \<longrightarrow> m f x = ram s f x"
    using read_file [OF I(4,1) buf] unfolding r_def by blast
  have tr: "unat (tot + r) = unat tot + unat r"
    using rn lt by (intro unat_add_le [of _ _ n]) (simp add: word_less_nat_alt)
  have bt: "buf + tot + of_nat j = buf + of_nat (unat tot + j)" for j by (simp add: add.assoc)
  have kept: "m f x = ram s f x" if "f \<noteq> F" "\<And>j. j < unat r \<Longrightarrow> cell s0 (buf + of_nat (unat tot + j)) \<noteq> Some (f, x)" for f x
    using m(4) that unfolding bt by (simp add: I(3))
  have tn: "unat tot + j < unat n" if "j < unat r" for j using that rn by linarith
  have new: "byte_at (s\<lparr>ram := m\<rparr>) (buf + of_nat (unat tot + j)) = byte_at s0 (INDEX2DATA (of_nat i) + of_nat (unat off + (unat tot + j)))"
    if "j < unat r" for j
  proof -
    have a: "unat off + (unat tot + j) < unat sz" using that rn by linarith
    have c: "cell s0 (INDEX2DATA (of_nat i) + of_nat (unat off + (unat tot + j))) \<noteq> None"
      "\<And>x. cell s0 (INDEX2DATA (of_nat i) + of_nat (unat off + (unat tot + j))) \<noteq> Some (F, x)"
      using I(4) a unfolding open_file_def I(3) cell_ram by blast+
    show ?thesis using m(3) that window_kept [OF I(2) a c I(7)] unfolding bt u(2) add.assoc I(3) by simp
  qed
  have old: "byte_at (s\<lparr>ram := m\<rparr>) (buf + of_nat j) = byte_at s (buf + of_nat j)" if "j < unat tot" for j
    using buffer_before [OF I(2) that, of "unat r" m m0] kept rn lt
    by (simp add: I(3) word_less_nat_alt)
  have "sz \<le> MAXFILESIZE" using I(4) by (simp add: open_file_def)
  then have "unat r < 2147483648" using rn by (simp add: word_le_nat_alt)
  then have "\<not> is_err r" by (simp add: is_err_def sint_small)
  moreover have "file_read_inv i F mode sz off buf n s0 (tot + r) (s\<lparr>ram := m\<rparr>)"
    unfolding file_read_inv_def
  proof (intro conjI allI impI)
    show "\<exists>m'. s\<lparr>ram := m\<rparr> = s0\<lparr>ram := m'\<rparr>" by (auto simp: I(3))
    show "open_file (s\<lparr>ram := m\<rparr>) i F mode sz (off + (tot + r))" using m(2) by (simp add: add.assoc)
    show "unat off + unat (tot + r) \<le> unat sz" "tot + r \<le> n"
      using rn I(5) lt by (simp_all add: tr word_le_nat_alt word_less_nat_alt)
    show "byte_at (s\<lparr>ram := m\<rparr>) (buf + of_nat j) = byte_at s0 (INDEX2DATA (of_nat i) + of_nat (unat off + j))"
      if "j < unat (tot + r)" for j
      using that old [of j] new [of "j - unat tot"] I(6) by (cases "j < unat tot") (simp_all add: tr)
    show "ram (s\<lparr>ram := m\<rparr>) f x = ram s0 f x" if "f \<noteq> F" "\<forall>j < unat n. cell s0 (buf + of_nat j) \<noteq> Some (f, x)" for f x
    proof -
      have "m f x = ram s f x" by (rule kept [OF that(1)]) (use that(2) tn in blast)
      then show ?thesis using I(7) that by (simp add: I(3))
    qed
  qed (use I in simp_all)
  moreover have "r \<le> n - tot" using rn u(1) by (simp add: word_le_nat_alt)
  moreover have "unat off + unat tot = unat sz" if "r = 0"
    using that rn lt I(5) by (simp add: word_less_nat_alt min_def split: if_splits)
  ultimately show ?thesis using m(1) by blast
qed

interpretation rf: reader "of_nat i" buf n "file_read_inv i F mode sz off buf n s0" "\<lambda>tot. unat off + unat tot = unat sz"
  by unfold_locales (rule file_read_turn)

text \<open>C20. \<^verbatim>\<open>readn\<close> on an open native file, into writable memory that shares no byte with the file: it
  terminates, returns the smaller of \<open>n\<close> and the number of bytes up to the end of the file, the buffer
  then holds exactly those bytes of the file, the offset has advanced by as many, and no other byte
  of memory has changed.\<close>

theorem readn_correct:
  assumes fl: "open_file s i F mode sz off" and mode: "mode AND O_ACCMODE \<noteq> O_WRONLY"
    and buf: "read_buffer s i F sz buf (unat n)"
  shows "\<exists>r s'. readn (of_nat i) buf n s = Some (r, s') \<and> unat r = min (unat n) (unat sz - unat off) \<and>
    open_file s' i F mode sz (off + r) \<and>
    (\<forall>j < unat r. byte_at s' (buf + of_nat j) = byte_at s (INDEX2DATA (of_nat i) + of_nat (unat off + j))) \<and>
    (\<forall>f x. f \<noteq> F \<longrightarrow> (\<forall>j < unat n. cell s (buf + of_nat j) \<noteq> Some (f, x)) \<longrightarrow> ram s' f x = ram s f x)"
proof -
  have "file_read_inv i F mode sz off buf n s 0 s"
    using assms by (auto simp: file_read_inv_def open_file_def word_le_nat_alt intro: exI [of _ "ram s"])
  then obtain r s' where r: "readn (of_nat i) buf n s = Some (r, s')" "file_read_inv i F mode sz off buf n s r s'"
    "r \<le> n" "r = n \<or> unat off + unat r = unat sz"
    using rf.readn_returns by blast
  then have "unat r = min (unat n) (unat sz - unat off)"
    by (auto simp: file_read_inv_def word_le_nat_alt min_def)
  then show ?thesis using r(1,2) by (auto simp: file_read_inv_def)
qed

section \<open>Writing, and reading back\<close>

lemma write_file:
  assumes fl: "open_file s i F mode sz off" and mode: "mode AND O_ACCMODE \<noteq> O_RDONLY"
    and le: "unat off + unat n \<le> unat sz" and win: "buffer s (INDEX2DATA (of_nat i) + off) (unat n)"
    and src: "\<forall>j < unat n. cell s (buf + of_nat j) \<noteq> None"
    and sep: "apart s (INDEX2DATA (of_nat i) + off) (unat n) buf (unat n)"
  shows "\<exists>m. write_u (of_nat i) buf n s = Some (n, s\<lparr>ram := m\<rparr>) \<and> open_file (s\<lparr>ram := m\<rparr>) i F mode sz (off + n) \<and>
    (\<forall>j < unat n. byte_at (s\<lparr>ram := m\<rparr>) (INDEX2DATA (of_nat i) + of_nat (unat off + j)) = byte_at s (buf + of_nat j)) \<and>
    (\<forall>f x. f \<noteq> F \<longrightarrow> (\<forall>j < unat n. cell s (INDEX2DATA (of_nat i) + of_nat (unat off + j)) \<noteq> Some (f, x)) \<longrightarrow> m f x = ram s f x)"
proof -
  obtain q where f: "i < MAXFD" "utab s (upage (INDEX2FD (of_nat i))) = Some (F, q)" "q AND PTE_D \<noteq> 0"
    "word_at (ram s F) 4 = off" "word_at (ram s F) 8 = mode" "word_at (ram s F) 12 = 0" "word_at (ram s F) 148 = sz"
    "sz \<le> MAXFILESIZE" "off \<le> sz" "\<forall>a < unat sz. \<forall>x. cell s (INDEX2DATA (of_nat i) + of_nat a) \<noteq> Some (F, x)"
    using fl by (auto simp: open_file_def)
  have w: "INDEX2DATA (of_nat i) + off + of_nat j = INDEX2DATA (of_nat i) + of_nat (unat off + j)" for j
    by (simp add: add.assoc)
  obtain m where m: "u_memcpy (INDEX2DATA (of_nat i) + off) buf n s = Some (s\<lparr>ram := m\<rparr>)"
    "\<forall>j < unat n. byte_at (s\<lparr>ram := m\<rparr>) (INDEX2DATA (of_nat i) + of_nat (unat off + j)) = byte_at s (buf + of_nat j)"
    "\<forall>f x. (\<forall>j < unat n. cell s (INDEX2DATA (of_nat i) + of_nat (unat off + j)) \<noteq> Some (f, x)) \<longrightarrow> m f x = ram s f x"
    using u_memcpy_ok [OF win src sep] unfolding w by blast
  have wF: "cell s (INDEX2DATA (of_nat i) + of_nat (unat off + j)) \<noteq> Some (F, x)" if "j < unat n" for j x
  proof -
    have "unat off + j < unat sz" using that le by simp
    then show ?thesis using f(10) by blast
  qed
  then have mF: "m F = ram s F" using m(3) by (intro ext) blast
  note adv = advance_file [where m = m, OF fl le mF]
  have "\<not> off + n > MAXFILESIZE" "\<not> off + n > sz"
    using unat_add_le [OF le] le f(8) by (simp_all add: word_le_nat_alt word_less_nat_alt)
  then have "write_u (of_nat i) buf n s = Some (n, s\<lparr>ram := m(F := put_word 4 (off + n) (ram s F))\<rparr>)"
    using fd_dev_file [OF fl] fd_words(2-5) [OF f(1,2)] mode m(1) adv(1) f(1,4-7)
    by (simp add: write_u_def devfile_def file_write_u_def fd2data_def)
  moreover have "byte_at (s\<lparr>ram := m(F := g)\<rparr>) (INDEX2DATA (of_nat i) + of_nat (unat off + j)) =
      byte_at (s\<lparr>ram := m\<rparr>) (INDEX2DATA (of_nat i) + of_nat (unat off + j))" if "j < unat n" for j g
    using wF [OF that] by (auto simp: byte_at_def split: option.splits)
  ultimately show ?thesis
    using adv(2) m(2,3) by (intro exI [of _ "m(F := put_word 4 (off + n) (ram s F))"]) auto
qed

lemma seek_file:
  assumes fl: "open_file s i F mode sz off" and le: "off' \<le> sz"
  shows "seek (of_nat i) off' s = Some (0, s\<lparr>ram := (ram s)(F := put_word 4 off' (ram s F))\<rparr>)"
    and "open_file (s\<lparr>ram := (ram s)(F := put_word 4 off' (ram s F))\<rparr>) i F mode sz off'"
proof -
  obtain q where f: "i < MAXFD" "user_ok s" "utab s (upage (INDEX2FD (of_nat i))) = Some (F, q)" "q AND PTE_D \<noteq> 0"
    using fl by (auto simp: open_file_def)
  show "seek (of_nat i) off' s = Some (0, s\<lparr>ram := (ram s)(F := put_word 4 off' (ram s F))\<rparr>)"
    using fd_lookup_mapped [OF f(1-3)] fd_words(6) [OF f(1,3,4)] by (simp add: seek_def)
  show "open_file (s\<lparr>ram := (ram s)(F := put_word 4 off' (ram s F))\<rparr>) i F mode sz off'"
    by (rule open_file_upd [OF fl le]) simp
qed

lemma read_buffer_ram [simp]: "read_buffer (s\<lparr>ram := m\<rparr>) = read_buffer s"
  by (simp add: read_buffer_def buffer_def apart_def writable_at_def fun_eq_iff)

text \<open>C21. Writing \<open>n\<close> bytes inside an open native file, seeking back to where it was and reading \<open>n\<close> bytes into
  another buffer gives the bytes that were written; all three calls return, with \<open>n\<close>, 0 and \<open>n\<close>.\<close>

theorem write_read_roundtrip:
  assumes fl: "open_file s i F mode sz off" and mode: "mode AND O_ACCMODE = O_RDWR"
    and le: "unat off + unat n \<le> unat sz" and win: "buffer s (INDEX2DATA (of_nat i) + off) (unat n)"
    and src: "\<forall>j < unat n. cell s (buf + of_nat j) \<noteq> None"
    and sep: "apart s (INDEX2DATA (of_nat i) + off) (unat n) buf (unat n)"
    and buf2: "read_buffer s i F sz buf2 (unat n)"
  shows "\<exists>s1 s2 s3. write_u (of_nat i) buf n s = Some (n, s1) \<and> seek (of_nat i) off s1 = Some (0, s2) \<and>
    read (of_nat i) buf2 n s2 = Some (n, s3) \<and> (\<forall>j < unat n. byte_at s3 (buf2 + of_nat j) = byte_at s (buf + of_nat j))"
proof -
  have md: "mode AND O_ACCMODE \<noteq> O_RDONLY" "mode AND O_ACCMODE \<noteq> O_WRONLY" using mode by simp_all
  obtain m where m: "write_u (of_nat i) buf n s = Some (n, s\<lparr>ram := m\<rparr>)" "open_file (s\<lparr>ram := m\<rparr>) i F mode sz (off + n)"
    "\<forall>j < unat n. byte_at (s\<lparr>ram := m\<rparr>) (INDEX2DATA (of_nat i) + of_nat (unat off + j)) = byte_at s (buf + of_nat j)"
    using write_file [OF fl md(1) le win src sep] by blast
  have off: "off \<le> sz" using fl by (simp add: open_file_def)
  define m2 where "m2 = m(F := put_word 4 off (m F))"
  have sk: "seek (of_nat i) off (s\<lparr>ram := m\<rparr>) = Some (0, s\<lparr>ram := m2\<rparr>)" "open_file (s\<lparr>ram := m2\<rparr>) i F mode sz off"
    using seek_file [OF m(2) off] by (simp_all add: m2_def)
  have "unat n \<le> unat sz - unat off" using le by linarith
  then have r: "readable n off sz = n" by (simp add: readable_def)
  obtain m3 where m3: "read (of_nat i) buf2 n (s\<lparr>ram := m2\<rparr>) = Some (n, s\<lparr>ram := m3\<rparr>)"
    "\<forall>j < unat n. byte_at (s\<lparr>ram := m3\<rparr>) (buf2 + of_nat j) =
       byte_at (s\<lparr>ram := m2\<rparr>) (INDEX2DATA (of_nat i) + of_nat (unat off + j))"
    using read_file [OF sk(2) md(2), of buf2 n] buf2 by (auto simp: r)
  have "byte_at (s\<lparr>ram := m2\<rparr>) (INDEX2DATA (of_nat i) + of_nat a) = byte_at (s\<lparr>ram := m\<rparr>) (INDEX2DATA (of_nat i) + of_nat a)"
    if "a < unat sz" for a
    using fl that by (auto simp: open_file_def byte_at_def m2_def split: option.splits)
  moreover have "unat off + j < unat sz" if "j < unat n" for j using that le by simp
  ultimately show ?thesis using m(1,3) sk(1) m3 by (intro exI conjI) (assumption+, metis)
qed

section \<open>Duplicating a descriptor\<close>

lemma for_up_returns:
  assumes "\<And>k s. I k s \<Longrightarrow> k < N \<Longrightarrow> \<exists>s'. body (of_nat (k * stp)) s = Some (None, s') \<and> I (Suc k) s'"
    and "I k s" and "k \<le> N" and "N * stp < 4294967296" and "0 < stp"
  shows "\<exists>s'. for_up body (of_nat (k * stp)) (of_nat (N * stp)) (of_nat stp) s = Some (None, s') \<and> I N s'"
  using assms(2,3)
proof (induction "N - k" arbitrary: k s)
  case 0
  then show ?case by (subst for_up.simps) simp
next
  case (Suc d)
  then have k: "k < N" by simp
  obtain s1 where s1: "body (of_nat (k * stp)) s = Some (None, s1)" "I (Suc k) s1"
    using assms(1) [OF Suc.prems(1) k] by blast
  have lt: "k * stp < N * stp" using k assms(5) by simp
  then have "k * stp < 4294967296" using assms(4) by linarith
  then have "unat (of_nat (k * stp) :: u32) = k * stp" "unat (of_nat (N * stp) :: u32) = N * stp"
    using assms(4) by (simp_all add: word_of_nat_unat_eq del: of_nat_mult)
  then have "(of_nat (k * stp) :: u32) < of_nat (N * stp)" using lt by (simp only: word_less_nat_alt)
  moreover have "(of_nat (k * stp) + of_nat stp :: u32) = of_nat (Suc k * stp)"
    by (simp add: algebra_simps)
  ultimately have "for_up body (of_nat (k * stp)) (of_nat (N * stp)) (of_nat stp) s =
      for_up body (of_nat (Suc k * stp)) (of_nat (N * stp)) (of_nat stp) s1"
    using s1(1) by (subst for_up.simps) (simp del: of_nat_mult of_nat_Suc mult_Suc)
  then show ?case using Suc.hyps(1) [of "Suc k" s1] Suc.hyps(2) s1(2) k by simp
qed

text \<open>Page \<open>k\<close> of the window of descriptor \<open>j\<close>.\<close>

definition win :: "nat \<Rightarrow> nat \<Rightarrow> nat" where
  "win j k = 393216 + j * 1024 + k"

lemma win_inject: "k < 1024 \<Longrightarrow> k' < 1024 \<Longrightarrow> win j k = win j' k' \<longleftrightarrow> j = j' \<and> k = k'"
proof
  assume k: "k < 1024" "k' < 1024" and e: "win j k = win j' k'"
  have "(j * 1024 + k) div 1024 = j" "(j' * 1024 + k') div 1024 = j'" using k by simp_all
  then have "j = j'" using e by (simp add: win_def)
  then show "j = j' \<and> k = k'" using e by (simp add: win_def)
qed simp

lemma window_page:
  assumes "j < MAXFD" and "k < 1024"
  shows "upage (INDEX2DATA (of_nat j) + of_nat (k * 4096)) = win j k"
    "\<not> is_illegal_va (INDEX2DATA (of_nat j) + of_nat (k * 4096))" "unat (PDX (INDEX2DATA (of_nat j))) = 384 + j"
    "win j k div 1024 = 384 + j"
proof -
  have "unat (of_nat j * PDMAP :: u32) = j * 4194304" "unat (of_nat (k * 4096) :: u32) = k * 4096"
    using assms by (simp_all add: unat_word_ariths word_of_nat_unat_eq del: of_nat_mult)
  then have d: "unat (INDEX2DATA (of_nat j)) = 1610612736 + j * 4194304"
    and u: "unat (INDEX2DATA (of_nat j) + of_nat (k * 4096)) = 1610612736 + j * 4194304 + k * 4096"
    using assms by (simp_all add: INDEX2DATA_def unat_word_ariths(1))
  show "upage (INDEX2DATA (of_nat j) + of_nat (k * 4096)) = win j k" by (simp add: upage_def u win_def del: of_nat_mult)
  show "\<not> is_illegal_va (INDEX2DATA (of_nat j) + of_nat (k * 4096))"
    using assms by (simp add: is_illegal_va_def word_less_nat_alt word_le_nat_alt u del: of_nat_mult) (simp add: mmu_layout)
  show "unat (PDX (INDEX2DATA (of_nat j))) = 384 + j" by (simp add: unat_PDX d)
  show "win j k div 1024 = 384 + j" using assms by (simp add: win_def)
qed

definition shared_entry :: "frame \<times> u32 \<Rightarrow> frame \<times> u32" where
  "shared_entry e = (fst e, (snd e AND (PTE_D OR PTE_LIBRARY)) OR PTE_V)"

text \<open>The page table after the first \<open>k\<close> pages of window \<open>a\<close> have been shared with window \<open>b\<close>.\<close>

primrec share_window :: "nat \<Rightarrow> nat \<Rightarrow> nat \<Rightarrow> (nat \<Rightarrow> (frame \<times> u32) option) \<Rightarrow> nat \<Rightarrow> (frame \<times> u32) option" where
  "share_window a b 0 t = t"
| "share_window a b (Suc k) t = (case t (win a k) of None \<Rightarrow> share_window a b k t
     | Some e \<Rightarrow> (share_window a b k t)(win b k := Some (shared_entry e)))"

lemma share_window_other: "(\<And>k. k < n \<Longrightarrow> p \<noteq> win b k) \<Longrightarrow> share_window a b n t p = t p"
  by (induction n) (auto simp: less_Suc_eq split: option.splits)

lemma share_window_at:
  assumes "n \<le> 1024" and "k < n"
  shows "share_window a b n t (win b k) = (case t (win a k) of None \<Rightarrow> t (win b k) | Some e \<Rightarrow> Some (shared_entry e))"
  using assms
proof (induction n)
  case (Suc n)
  show ?case
  proof (cases "k = n")
    case True
    have "share_window a b n t (win b n) = t (win b n)"
      using Suc.prems by (intro share_window_other) (simp add: win_inject)
    then show ?thesis using True by (simp split: option.splits)
  next
    case False
    then show ?thesis using Suc by (simp add: win_inject split: option.splits)
  qed
qed simp

lemma plenty_sel [simp]:
  "no_mem (snd (need_table p s)) = no_mem s" "no_mem (map_page p f q s) = no_mem s" "no_mem (unmap_page p s) = no_mem s"
  by (auto simp: need_table_def take_page_def map_page_def unmap_page_def Let_def split: option.splits)

lemma need_table_plenty: "(\<And>n. \<not> no_mem s n) \<Longrightarrow> fst (need_table p s)"
  by (simp add: need_table_def take_page_def)

lemma u_mem_map_plenty:
  assumes "\<not> is_illegal_va a" "\<not> is_illegal_va b" "\<And>n. \<not> no_mem s n" "user_ok s" "utab s (upage a) = Some (f, q)"
  obtains s' where "u_mem_map a b perm s = (0, s')" "utab s' = (utab s)(upage b := Some (f, perm OR PTE_V))"
    "ram s' = ram s" "user_ok s'" "no_mem s' = no_mem s" "\<forall>i. upd s i \<longrightarrow> upd s' i"
proof -
  obtain ok s1 where s1: "need_table (upage b) s = (ok, s1)" by fastforce
  have ok: ok using need_table_plenty [OF assms(3), of "upage b"] by (simp add: s1)
  note sel = need_table_sel [of "upage b" s, unfolded s1]
  show ?thesis
  proof (rule that)
    show e: "u_mem_map a b perm s = (0, map_page (upage b) f perm s1)"
      using assms(1,2,5) ok by (simp add: u_mem_map_def s1)
    show "user_ok (map_page (upage b) f perm s1)"
      using u_mem_ok(2) [OF assms(4), of a b perm] by (simp add: e)
    show "no_mem (map_page (upage b) f perm s1) = no_mem s" using plenty_sel(1) [of "upage b" s] by (simp add: s1)
  qed (use sel ok in auto)
qed

lemma dup_page_step:
  assumes a: "a < MAXFD" "upd s (384 + a)" and b: "b < MAXFD" "a \<noteq> b" and k: "k < 1024" and ok: "user_ok s1"
    and mem: "\<And>n. \<not> no_mem s1 n" and tab: "utab s1 = share_window a b k (utab s)" and upd: "upd s1 (384 + a)"
  shows "\<exists>s2. dup_page (INDEX2DATA (of_nat a)) (INDEX2DATA (of_nat b)) (of_nat (k * 4096)) s1 = Some (None, s2) \<and>
    utab s2 = share_window a b (Suc k) (utab s) \<and> ram s2 = ram s1 \<and> user_ok s2 \<and> no_mem s2 = no_mem s1 \<and>
    (\<forall>i. upd s1 i \<longrightarrow> upd s2 i)"
proof -
  note pa = window_page [OF a(1) k] and pb = window_page [OF b(1) k]
  have at: "utab s1 (win a k) = utab s (win a k)"
    unfolding tab by (rule share_window_other) (use k b(2) in \<open>simp add: win_inject\<close>)
  have v: "uvpt (upage (INDEX2DATA (of_nat a) + of_nat (k * 4096))) s1 = Some (utab s (win a k), s1)"
    unfolding pa(1) using uvpt_ok [of s1 "win a k"] upd pa(4) at by simp
  show ?thesis
  proof (cases "utab s (win a k)")
    case None
    then show ?thesis
      using v ok tab by (intro exI [of _ s1]) (simp add: dup_page_def entry_flags_def del: of_nat_mult)
  next
    case (Some e)
    obtain f q where e: "e = (f, q)" by fastforce
    have m: "utab s1 (upage (INDEX2DATA (of_nat a) + of_nat (k * 4096))) = Some (f, q)" using at Some e pa(1) by simp
    have "q AND PTE_V \<noteq> 0" using user_okD(2) [OF ok m] .
    moreover obtain s2 where s2: "u_mem_map (INDEX2DATA (of_nat a) + of_nat (k * 4096)) (INDEX2DATA (of_nat b) + of_nat (k * 4096))
        (q AND (PTE_D OR PTE_LIBRARY)) s1 = (0, s2)"
      "utab s2 = (utab s1)(upage (INDEX2DATA (of_nat b) + of_nat (k * 4096)) := Some (f, (q AND (PTE_D OR PTE_LIBRARY)) OR PTE_V))"
      "ram s2 = ram s1" "user_ok s2" "no_mem s2 = no_mem s1" "\<forall>i. upd s1 i \<longrightarrow> upd s2 i"
      by (rule u_mem_map_plenty [OF pa(2) pb(2) mem ok m])
    moreover have "utab s2 = share_window a b (Suc k) (utab s)"
      using s2(2) pb(1) Some e tab by (simp add: shared_entry_def del: of_nat_mult)
    ultimately show ?thesis
      using v Some e by (intro exI [of _ s2]) (simp add: dup_page_def entry_flags_def del: of_nat_mult)
  qed
qed

lemma dup_window:
  assumes a: "a < MAXFD" and b: "b < MAXFD" "a \<noteq> b" and ok: "user_ok s" and mem: "\<And>n. \<not> no_mem s n" 
  defines "loop \<equiv> (if uvpd (unat (PDX (INDEX2DATA (of_nat a)))) s
    then for_up (dup_page (INDEX2DATA (of_nat a)) (INDEX2DATA (of_nat b))) 0 PDMAP BY2PG s else Some (None, s))"
  shows "\<exists>s'. loop = Some (None, s') \<and> utab s' = share_window a b 1024 (utab s) \<and> ram s' = ram s \<and> user_ok s' \<and>
    no_mem s' = no_mem s \<and> (\<forall>i. upd s i \<longrightarrow> upd s' i)"
proof (cases "upd s (384 + a)")
  case False
  have "utab s (win a k) = None" if "k < 1024" for k
    using False window_page(4) [OF a that] user_okD(1) [OF ok, of "win a k"]
    by (cases "utab s (win a k)") auto
  then have "share_window a b n (utab s) = utab s" if "n \<le> 1024" for n
    using that by (induction n) simp_all
  then show ?thesis using False ok window_page(3) [OF a, of 0] by (simp add: loop_def uvpd_def)
next
  case True
  let ?I = "\<lambda>k s'. utab s' = share_window a b k (utab s) \<and> ram s' = ram s \<and> user_ok s' \<and> no_mem s' = no_mem s \<and>
    (\<forall>i. upd s i \<longrightarrow> upd s' i)"
  let ?body = "dup_page (INDEX2DATA (of_nat a)) (INDEX2DATA (of_nat b))"
  have "\<exists>s2. ?body (of_nat (k * 4096)) s1 = Some (None, s2) \<and> ?I (Suc k) s2" if "?I k s1" "k < 1024" for k s1
    using dup_page_step [OF a True b that(2), of s1] that(1) mem True by fastforce
  then have "\<exists>s'. for_up ?body (of_nat (0 * 4096)) (of_nat (1024 * 4096)) (of_nat 4096) s = Some (None, s') \<and> ?I 1024 s'"
    by (rule for_up_returns) (use ok in simp_all)
  then show ?thesis using True window_page(3) [OF a, of 0] by (simp add: loop_def uvpd_def)
qed

text \<open>C22. \<^verbatim>\<open>dup\<close> of an open descriptor onto an unused one, while the kernel has pages for tables: it returns the
  new number; then both descriptors are the same page, so that they share one offset, and every
  page of the old window is also in the new one, with the same frame and its \<^verbatim>\<open>PTE_D\<close> and
  \<^verbatim>\<open>PTE_LIBRARY\<close> bits.  No other page of the process and no byte of memory changes.\<close>

theorem dup_correct:
  assumes ok: "user_ok s" and a: "a < MAXFD" and b: "b < MAXFD" and old: "utab s (upage (INDEX2FD (of_nat a))) = Some (F, q)"
    and new: "unused s b" and mem: "\<And>n. \<not> no_mem s n"
  shows "\<exists>s'. dup (of_nat a) (of_nat b) s = Some (of_nat b, s') \<and> ram s' = ram s \<and> user_ok s' \<and>
    utab s' (upage (INDEX2FD (of_nat b))) = Some (shared_entry (F, q)) \<and>
    (\<forall>k < 1024. utab s' (win b k) = (case utab s (win a k) of None \<Rightarrow> utab s (win b k) | Some e \<Rightarrow> Some (shared_entry e))) \<and>
    (\<forall>p. p \<noteq> upage (INDEX2FD (of_nat b)) \<longrightarrow> (\<forall>k < 1024. p \<noteq> win b k) \<longrightarrow> utab s' p = utab s p)"
proof -
  note pa = INDEX2FD_nat [OF a] and pb = INDEX2FD_nat [OF b]
  have ab: "a \<noteq> b" using old new by (auto simp: unused_def)
  have tbl: "upd s 383" using user_okD(1) [OF ok old] pa(3) by simp
  have sb: "sint (of_nat b :: u32) = int b" using b by (simp add: sint_small word_of_nat_unat_eq)
  have cl: "close (of_nat b) s = Some (neg E_INVAL, s)"
    using b new tbl pb(3) by (simp add: close_def fd_dev_def fd_lookup_def sb Let_def uvpt_ok unused_def entry_flags_def)
  have nw: "upage (INDEX2FD (of_nat i)) \<noteq> win j k" if "i < MAXFD" for i j k
    using that by (simp add: INDEX2FD_nat win_def)
  obtain s1 where s1: "(if uvpd (unat (PDX (INDEX2DATA (of_nat a)))) s
      then for_up (dup_page (INDEX2DATA (of_nat a)) (INDEX2DATA (of_nat b))) 0 PDMAP BY2PG s else Some (None, s)) = Some (None, s1)"
    "utab s1 = share_window a b 1024 (utab s)" "ram s1 = ram s" "user_ok s1" "no_mem s1 = no_mem s" "\<forall>i. upd s i \<longrightarrow> upd s1 i"
    using dup_window [OF a b ab ok mem] by blast
  have m1: "utab s1 (upage (INDEX2FD (of_nat a))) = Some (F, q)"
    unfolding s1(2) using share_window_other [of 1024 _ b a "utab s"] nw [OF a] old by simp
  have lg: "\<not> is_illegal_va (INDEX2FD (of_nat i))" if "i < MAXFD" for i
    using that INDEX2FD_nat(1) [OF that]
    by (simp add: is_illegal_va_def word_less_nat_alt word_le_nat_alt) (simp add: mmu_layout)
  have mem1: "\<not> no_mem s1 n" for n using mem s1(5) by simp
  obtain s2 where s2: "u_mem_map (INDEX2FD (of_nat a)) (INDEX2FD (of_nat b)) (q AND (PTE_D OR PTE_LIBRARY)) s1 = (0, s2)"
    "utab s2 = (utab s1)(upage (INDEX2FD (of_nat b)) := Some (F, (q AND (PTE_D OR PTE_LIBRARY)) OR PTE_V))"
    "ram s2 = ram s1" "user_ok s2"
    by (rule u_mem_map_plenty [OF lg [OF a] lg [OF b] mem1 s1(4) m1])
  have v: "uvpt (upage (INDEX2FD (of_nat a))) s1 = Some (Some (F, q), s1)"
    using uvpt_ok [of s1] s1(6) tbl pa(3) m1 by simp
  have "dup (of_nat a) (of_nat b) s = Some (of_nat b, s2)"
    using fd_lookup_mapped [OF a ok old] cl s1(1) v s2(1) a b
    by (cases "uvpd (unat (PDX (INDEX2DATA (of_nat a)))) s") (simp_all add: dup_def fd2data_def entry_flags_def Let_def)
  moreover have "utab s2 (win b k) = (case utab s (win a k) of None \<Rightarrow> utab s (win b k) | Some e \<Rightarrow> Some (shared_entry e))"
    if "k < 1024" for k
    using share_window_at [of 1024 k a b "utab s"] that nw [OF b, THEN not_sym] by (simp add: s2(2) s1(2))
  moreover have "utab s2 p = utab s p" if "p \<noteq> upage (INDEX2FD (of_nat b))" "\<forall>k < 1024. p \<noteq> win b k" for p
    using share_window_other [of 1024 p b a "utab s"] that by (simp add: s2(2) s1(2))
  ultimately show ?thesis using s2 s1(3) by (auto simp: shared_entry_def)
qed

section \<open>A small process\<close>

text \<open>Descriptor 0 is a file of 8 bytes open for reading and writing; two pages of memory are free for
  buffers.\<close>

definition proc0 :: uproc where
  "proc0 = \<lparr>utab = (\<lambda>p. if p = 392192 then Some (Own 0, PTE_D OR PTE_V) else if p = 393216 then Some (Own 1, PTE_D OR PTE_V)
       else if p = 1024 then Some (Own 2, PTE_D OR PTE_V) else if p = 1025 then Some (Own 3, PTE_D OR PTE_V) else None),
     upd = (\<lambda>i. i = 383 \<or> i = 384 \<or> i = 1),
     ram = (\<lambda>f x. if f = Own 0 then (if x = 0 then 0x66 else if x = 8 then 2 else if x = 148 then 8 else 0)
       else if f = Own 1 then ucast x + 1 else 0),
     frefs = (\<lambda>_. 1), nframe = 4, no_mem = (\<lambda>_. False), ntake = 0, others = (\<lambda>_ w. w), nyield = 0,
     cin = (\<lambda>_. 0), ncin = 0, cout = [], fs_answer = (\<lambda>_ _ _ w. ((0, 0, None), w)), reqs = [],
     User_BY2CLUS = 0, fsipcbuf = 0x402000, Fat_buf = 0x403000, dev_va = (\<lambda>_. 0)\<rparr>"

lemma proc0_sel [simp]:
  "utab proc0 p = (if p = 392192 then Some (Own 0, PTE_D OR PTE_V) else if p = 393216 then Some (Own 1, PTE_D OR PTE_V)
       else if p = 1024 then Some (Own 2, PTE_D OR PTE_V) else if p = 1025 then Some (Own 3, PTE_D OR PTE_V) else None)"
  "upd proc0 i = (i = 383 \<or> i = 384 \<or> i = 1)" "nframe proc0 = 4" "no_mem proc0 n = False"
  by (simp_all add: proc0_def)

lemma proc0_ok: "user_ok proc0"
  by (auto simp: user_ok_def split: if_splits)

lemma cell_page:
  assumes "unat a mod 4096 = 0" and "k < 4096" and "utab s (upage a) = Some (f, q)"
  shows "cell s (a + of_nat k) = Some (f, of_nat k)" and "q AND PTE_D \<noteq> 0 \<Longrightarrow> writable_at s (a + of_nat k)"
  using assms page_add [OF assms(1,2)] by (simp_all add: cell_def writable_at_def)

lemma of_nat_page: "k < 4096 \<Longrightarrow> k' < 4096 \<Longrightarrow> (of_nat k :: u32) = of_nat k' \<longleftrightarrow> k = k'"
  by (simp add: word_unat_eq_iff word_of_nat_unat_eq)

lemma page_buffer:
  assumes "unat a mod 4096 = 0" and "n \<le> 4096" and "utab s (upage a) = Some (f, q)" and "q AND PTE_D \<noteq> 0"
  shows "buffer s a n"
  using cell_page [OF assms(1) _ assms(3)] assms(2,4) of_nat_page unfolding buffer_def by auto

lemma page_apart:
  assumes "unat a mod 4096 = 0" and "n \<le> 4096" and "utab s (upage a) = Some (f, q)"
    and "unat b mod 4096 = 0" and "m \<le> 4096" and "utab s (upage b) = Some (g, r)" and "f \<noteq> g"
  shows "apart s a n b m"
  using cell_page(1) [OF assms(1) _ assms(3)] cell_page(1) [OF assms(4) _ assms(6)] assms(2,5,7)
  unfolding apart_def by auto

lemma proc0_cells:
  "k < 4096 \<Longrightarrow> cell proc0 (0x60000000 + of_nat k) = Some (Own 1, of_nat k)"
  "k < 4096 \<Longrightarrow> cell proc0 (0x400000 + of_nat k) = Some (Own 2, of_nat k)"
  "k < 4096 \<Longrightarrow> cell proc0 (0x401000 + of_nat k) = Some (Own 3, of_nat k)"
  using cell_page(1) [of "0x60000000" k proc0] cell_page(1) [of "0x400000" k proc0] cell_page(1) [of "0x401000" k proc0]
  by (simp_all add: upage_def)

lemma proc0_fd: "INDEX2FD 0 = 0x5fc00000" "INDEX2DATA 0 = 0x60000000" "upage (INDEX2FD 0) = 392192"
  by (simp_all add: INDEX2FD_def INDEX2DATA_def upage_def)

lemma proc0_file: "open_file proc0 0 (Own 0) 2 8 0"
proof -
  have "word_at (ram proc0 (Own 0)) 0 = 0x66" "word_at (ram proc0 (Own 0)) 4 = 0" "word_at (ram proc0 (Own 0)) 8 = 2"
    "word_at (ram proc0 (Own 0)) 12 = 0" "word_at (ram proc0 (Own 0)) 148 = 8"
    by (simp_all add: proc0_def word_at_def)
  then show ?thesis
    using proc0_ok proc0_cells(1) proc0_fd(3) by (simp add: open_file_def proc0_fd(2))
qed

lemma proc0_buffer:
  "read_buffer proc0 0 (Own 0) 8 0x400000 20" "read_buffer proc0 0 (Own 0) 8 0x401000 4"
  using page_buffer [of "0x400000" 20 proc0] page_buffer [of "0x401000" 4 proc0]
    page_apart [of "0x400000" 20 proc0 _ _ "0x60000000" 8] page_apart [of "0x401000" 4 proc0 _ _ "0x60000000" 8]
    proc0_cells(2,3) by (auto simp: read_buffer_def proc0_fd upage_def)

theorem fd_alloc_correct_witness: "fd_alloc proc0 = Some ((0, Some (INDEX2FD 1)), proc0)"
  using fd_alloc_correct [OF proc0_ok] by (simp add: unused_def INDEX2FD_def upage_def upt_rec)

theorem readn_correct_witness:
  "\<exists>s'. readn 0 0x400000 20 proc0 = Some (8, s') \<and> byte_at s' 0x400003 = 4"
proof -
  obtain r s' where r: "readn 0 0x400000 20 proc0 = Some (r, s')" "unat r = 8"
    "\<forall>j < unat r. byte_at s' (0x400000 + of_nat j) = byte_at proc0 (0x60000000 + of_nat j)"
    using readn_correct [OF proc0_file, of "0x400000" 20] proc0_buffer(1) by (auto simp: proc0_fd)
  have "r = 8" using r(2) by (simp add: word_unat_eq_iff)
  moreover have "byte_at proc0 (0x60000000 + of_nat 3) = 4"
    using proc0_cells(1) [of 3] by (simp add: byte_at_def proc0_def)
  ultimately show ?thesis using r(1,3) by (auto dest!: spec [of _ 3])
qed

theorem write_read_roundtrip_witness:
  "\<exists>s1 s2 s3. write_u 0 0x400000 4 proc0 = Some (4, s1) \<and> seek 0 0 s1 = Some (0, s2) \<and>
     read 0 0x401000 4 s2 = Some (4, s3) \<and> byte_at s3 0x401002 = 0"
proof -
  have b: "byte_at proc0 (0x400000 + of_nat 2) = 0"
    using proc0_cells(2) [of 2] by (simp add: byte_at_def proc0_def)
  have "buffer proc0 0x60000000 4" "apart proc0 0x60000000 4 0x400000 4"
    using page_buffer [of "0x60000000" 4 proc0] page_apart [of "0x60000000" 4 proc0 _ _ "0x400000" 4]
    by (simp_all add: upage_def)
  then obtain s1 s2 s3 where "write_u 0 0x400000 4 proc0 = Some (4, s1)" "seek 0 0 s1 = Some (0, s2)"
    "read 0 0x401000 4 s2 = Some (4, s3)" "\<forall>j < 4. byte_at s3 (0x401000 + of_nat j) = byte_at proc0 (0x400000 + of_nat j)"
    using write_read_roundtrip [OF proc0_file, of 4 "0x400000" "0x401000"] proc0_buffer(2) proc0_cells(2)
    by (auto simp: proc0_fd)
  then show ?thesis using b by (auto dest!: spec [of _ 2])
qed

theorem dup_correct_witness:
  "\<exists>s'. dup 0 5 proc0 = Some (5, s') \<and> utab s' (upage (INDEX2FD 5)) = Some (shared_entry (Own 0, PTE_D OR PTE_V)) \<and>
     utab s' (win 5 0) = Some (shared_entry (Own 1, PTE_D OR PTE_V))"
proof -
  have u: "unused proc0 5" by (simp add: unused_def INDEX2FD_def upage_def)
  have o: "utab proc0 (upage (INDEX2FD (of_nat 0))) = Some (Own 0, PTE_D OR PTE_V)" using proc0_fd(3) by simp
  obtain s' where s': "dup (of_nat 0) (of_nat 5) proc0 = Some (of_nat 5, s')"
    "utab s' (upage (INDEX2FD (of_nat 5))) = Some (shared_entry (Own 0, PTE_D OR PTE_V))"
    "\<forall>k < 1024. utab s' (win 5 k) = (case utab proc0 (win 0 k) of None \<Rightarrow> utab proc0 (win 5 k) | Some e \<Rightarrow> Some (shared_entry e))"
    using dup_correct [OF proc0_ok _ _ o u] by auto
  have "utab proc0 (win 0 0) = Some (Own 1, PTE_D OR PTE_V)" by (simp add: win_def)
  then have "utab s' (win 5 0) = Some (shared_entry (Own 1, PTE_D OR PTE_V))" using s'(3) by (auto dest: spec [of _ 0])
  then show ?thesis using s'(1,2) by simp
qed

end
