(* ===== verification/Time.thy ===== *)
theory Time
  imports Prelude
begin

text \<open>
  The calendar of \<^verbatim>\<open>fs/time.c\<close>, used to stamp FAT directory entries: seconds since 1970 to a
  broken-down time and back.  The quantities stay far below the limits of their C types (a
  32-bit number of seconds reaches the year 2106), so they are natural numbers here; the sum of
  seconds at the end of \<^verbatim>\<open>mytime_2_utc_sec\<close> is the one that can wrap, and is reduced.
\<close>

section \<open>The code\<close>

record mytime_struct =
  nYear :: nat
  nMonth :: nat
  nDay :: nat
  nHour :: nat
  nMin :: nat
  nSec :: nat
  DayIndex :: nat

definition g_day_per_mon :: "nat list" where
  "g_day_per_mon = [31, 28, 31, 30, 31, 30, 31, 31, 30, 31, 30, 31]"

definition applib_dt_is_leap_year :: "nat \<Rightarrow> nat" where
  "applib_dt_is_leap_year year =
     (if year mod 400 = 0 then 1 else if year mod 100 = 0 then 0 else if year mod 4 = 0 then 1 else 0)"

definition applib_dt_last_day_of_mon :: "nat \<Rightarrow> nat \<Rightarrow> nat" where
  "applib_dt_last_day_of_mon month year =
     (if month = 0 \<or> month > 12 then g_day_per_mon ! 1 + applib_dt_is_leap_year year
      else if month \<noteq> 2 then g_day_per_mon ! (month - 1)
      else g_day_per_mon ! 1 + applib_dt_is_leap_year year)"

text \<open>The remainder of a negative number is negative in C.\<close>

definition applib_dt_dayindex :: "nat \<Rightarrow> nat \<Rightarrow> nat \<Rightarrow> nat" where
  "applib_dt_dayindex year month day =
     (let early = (month = 1 \<or> month = 2);
          century_code = int (if early then (year - 1) div 100 else year div 100);
          year_code = int (if early then (year - 1) mod 100 else year mod 100);
          month_code = int (if early then month + 12 else month);
          day_code = int day;
          week = year_code + year_code div 4 + century_code div 4 - 2 * century_code +
            26 * (month_code + 1) div 10 + day_code - 1
      in nat (if week > 0 then week mod 7 else - ((- week) mod 7) + 7))"

fun year_loop :: "nat \<Rightarrow> nat \<Rightarrow> nat \<times> nat" where
  "year_loop y day =
     (if day > 0 then
        (let d = 365 + applib_dt_is_leap_year y
         in if day \<ge> d then year_loop (y + 1) (day - d) else (y, day))
      else (y, day))"

function month_loop :: "nat \<Rightarrow> nat \<Rightarrow> nat \<Rightarrow> nat \<times> nat" where
  "month_loop y m day =
     (if m < 12 then
        (let d = applib_dt_last_day_of_mon m y
         in if day \<ge> d then month_loop y (m + 1) (day - d) else (m, day))
      else (m, day))"
  by pat_completeness auto
termination
  by (relation "measure (\<lambda>(_, m, _). 12 - m)") auto

declare year_loop.simps [simp del] month_loop.simps [simp del]

definition utc_sec_2_mytime :: "u32 \<Rightarrow> bool \<Rightarrow> mytime_struct" where
  "utc_sec_2_mytime utc_sec0 daylightSaving =
     (let utc_sec = unat (if daylightSaving then utc_sec0 + 3600 else utc_sec0);
          sec = utc_sec mod 86400;
          hour = sec div 3600;
          sec' = sec mod 3600;
          (y, day) = year_loop 1970 (utc_sec div 86400);
          (m, day') = month_loop y 1 day
      in \<lparr>nYear = y, nMonth = m, nDay = day' + 1, nHour = hour, nMin = sec' div 60, nSec = sec' mod 60,
          DayIndex = applib_dt_dayindex y m (day' + 1)\<rparr>)"

text \<open>The local \<^verbatim>\<open>dst\<close> of the code is never assigned; it matters only with \<open>daylightSaving\<close>.\<close>

definition mytime_2_utc_sec :: "bool \<Rightarrow> mytime_struct \<Rightarrow> bool \<Rightarrow> u32" where
  "mytime_2_utc_sec dst t daylightSaving =
     (if nYear t < 1970 then 0
      else
        (let no_of_days = of_nat ((\<Sum>i \<leftarrow> [1970..<nYear t]. 365 + applib_dt_is_leap_year i) +
               (\<Sum>i \<leftarrow> [1..<nMonth t]. applib_dt_last_day_of_mon i (nYear t))) + (of_nat (nDay t) - 1);
             utc_time = no_of_days * 86400 + of_nat (nHour t * 3600 + nMin t * 60 + nSec t)
         in if dst \<and> daylightSaving then utc_time - 3600 else utc_time))"

section \<open>The loops\<close>

lemma leap_01: "applib_dt_is_leap_year y \<le> 1"
  by (simp add: applib_dt_is_leap_year_def)

lemma year_loop_sum:
  assumes "year_loop y day = (y', day')"
  shows "y \<le> y' \<and> day = (\<Sum>i \<leftarrow> [y..<y']. 365 + applib_dt_is_leap_year i) + day' \<and>
    day' < 365 + applib_dt_is_leap_year y'"
  using assms
proof (induction y day rule: year_loop.induct)
  case (1 y day)
  let ?d = "365 + applib_dt_is_leap_year y"
  show ?case
  proof (cases "day > 0 \<and> day \<ge> ?d")
    case True
    then have "year_loop (y + 1) (day - ?d) = (y', day')" using 1(2) by (simp add: year_loop.simps [of y day])
    then show ?thesis using 1(1) [OF _ refl] True by (auto simp: upt_conv_Cons Suc_le_eq)
  next
    case False
    then show ?thesis using 1(2) by (auto simp: year_loop.simps [of y day] Let_def split: if_splits)
  qed
qed

lemma month_loop_sum:
  assumes "month_loop y m day = (m', day')" and "m \<le> 12"
    and "day < (\<Sum>i \<leftarrow> [m..<13]. applib_dt_last_day_of_mon i y)"
  shows "m \<le> m' \<and> m' \<le> 12 \<and> day = (\<Sum>i \<leftarrow> [m..<m']. applib_dt_last_day_of_mon i y) + day' \<and>
    day' < applib_dt_last_day_of_mon m' y"
  using assms
proof (induction y m day rule: month_loop.induct)
  case (1 y m day)
  let ?d = "applib_dt_last_day_of_mon m y"
  show ?case
  proof (cases "m < 12 \<and> day \<ge> ?d")
    case True
    then have "month_loop y (m + 1) (day - ?d) = (m', day')"
      using 1(2) by (simp add: month_loop.simps [of y m day])
    moreover have "day - ?d < (\<Sum>i \<leftarrow> [m + 1..<13]. applib_dt_last_day_of_mon i y)"
      using True 1(4) upt_conv_Cons [of m 13] by (simp add: less_diff_conv2)
    ultimately show ?thesis using 1(1) [OF _ refl] True by (auto simp: upt_conv_Cons Suc_le_eq)
  next
    case False
    have "\<not> m < 12 \<Longrightarrow> [m..<13] = [12]" using 1(3) by (simp add: upt_conv_Cons)
    then show ?thesis using 1(2-4) False by (auto simp: month_loop.simps [of y m day] Let_def split: if_splits)
  qed
qed

lemma year_days:
  "(\<Sum>i \<leftarrow> [1..<13]. applib_dt_last_day_of_mon i y) = 365 + applib_dt_is_leap_year y"
  by (simp add: upt_rec applib_dt_last_day_of_mon_def g_day_per_mon_def)

text \<open>C38. The calendar: every 32-bit number of seconds becomes a valid date and time of day (month 1 to
  12, day within the month of that year, hour, minute and second in range, so each field fits
  its C type), and converting that back gives the same number of seconds.\<close>

theorem utc_time_round_trip:
  "let c = utc_sec_2_mytime t False in
     1 \<le> nMonth c \<and> nMonth c \<le> 12 \<and> 1 \<le> nDay c \<and> nDay c \<le> applib_dt_last_day_of_mon (nMonth c) (nYear c) \<and>
     nHour c < 24 \<and> nMin c < 60 \<and> nSec c < 60 \<and> 1970 \<le> nYear c \<and>
     mytime_2_utc_sec dst c False = t"
proof -
  obtain y day where y: "year_loop 1970 (unat t div 86400) = (y, day)" by fastforce
  obtain m day' where m: "month_loop y 1 day = (m, day')" by fastforce
  note ys = year_loop_sum [OF y]
  have "day < (\<Sum>i \<leftarrow> [1..<13]. applib_dt_last_day_of_mon i y)" using ys year_days by simp
  then have ms: "1 \<le> m" "m \<le> 12" "day = (\<Sum>i \<leftarrow> [1..<m]. applib_dt_last_day_of_mon i y) + day'"
    "day' < applib_dt_last_day_of_mon m y"
    using month_loop_sum [OF m] by auto
  have "unat t mod 86400 mod 3600 = unat t mod 86400 mod 3600 div 60 * 60 + unat t mod 86400 mod 3600 mod 60"
    "unat t mod 86400 = unat t mod 86400 div 3600 * 3600 + unat t mod 86400 mod 3600"
    "unat t = unat t div 86400 * 86400 + unat t mod 86400" by simp_all
  then have "unat t div 86400 * 86400 + (unat t mod 86400 div 3600 * 3600 + unat t mod 86400 mod 3600 div 60 * 60 +
      unat t mod 86400 mod 3600 mod 60) = unat t" by linarith
  then have "of_nat (((\<Sum>i \<leftarrow> [1970..<y]. 365 + applib_dt_is_leap_year i) +
      (\<Sum>i \<leftarrow> [1..<m]. applib_dt_last_day_of_mon i y) + day') * 86400 + (unat t mod 86400 div 3600 * 3600 +
      unat t mod 86400 mod 3600 div 60 * 60 + unat t mod 86400 mod 3600 mod 60)) = t"
    using ys ms(3) by (simp only: add.assoc [symmetric] of_nat_unat ucast_id)
  moreover have "(of_nat (a + b) + (of_nat (day' + 1) - 1)) * 86400 + of_nat r = (of_nat ((a + b + day') * 86400 + r) :: u32)" for a b r
    by (simp add: algebra_simps)
  moreover have "unat t mod 86400 div 3600 < 24" "unat t mod 86400 mod 3600 div 60 < 60"
    by (simp_all add: less_mult_imp_div_less)
  ultimately show ?thesis
    using ys ms y m by (simp add: utc_sec_2_mytime_def mytime_2_utc_sec_def Let_def del: of_nat_add of_nat_mult of_nat_Suc)
qed

text \<open>The day of the week is not what the header says (0 is Sunday): Sunday 5 March 2000 gets 7,
  while Sunday 5 March 2023 gets 0.\<close>

theorem dayindex_two_sundays:
  "applib_dt_dayindex 2000 3 5 = 7 \<and> applib_dt_dayindex 2023 3 5 = 0"
  by code_simp

end
