(* ===== verification/Fat.thy ===== *)
theory Fat
  imports Fs Time
begin

text \<open>
  The FAT32 file system of \<^verbatim>\<open>fs/fatfs.c\<close>, first part: the volume parameters, the cluster cache,
  the file allocation table and the free-cluster bookkeeping.  Cluster \<open>n\<close> of the disk image is
  cached at \<open>FATDISKMAP + n * BY2CLUS\<close>; a \<^emph>\<open>data cluster number\<close> is the index in the table, which
  starts at 2 for the root directory.  The fields of \<^verbatim>\<open>struct FSInfo\<close> and the table are words in
  the cache.
\<close>

section \<open>State\<close>

record FAT_Super =
  FAT_BY2SEC :: u32
  FAT_SECPClus :: u32
  FSType :: "u8 list"
  FAT_endNumber :: u32
  RootClus :: u32
  SECPFAT :: u32
  TotClus :: u32
  numOfFats :: u32
  numOfReserved :: u32

record fat_state = fs_state +
  fat_super :: FAT_Super
  SECT2CLUS :: u32
  fs_info :: u32
  FAT1 :: u32
  FAT2 :: u32
  FAT1_ClusNo :: u32
  rtc :: "nat \<Rightarrow> u32"
  nrtc :: nat

abbreviation (input) FATDISKMAP :: u32 where "FATDISKMAP \<equiv> 0x50000000"
abbreviation (input) FATDISKMAX :: u32 where "FATDISKMAX \<equiv> 0x8000000"
abbreviation (input) FATPAGEMAP :: u32 where "FATPAGEMAP \<equiv> 0x58000000"
abbreviation (input) EOF_Fat32 :: u32 where "EOF_Fat32 \<equiv> 0xfffffff"
abbreviation (input) FAT_BPB_END_NUMBER :: u32 where "FAT_BPB_END_NUMBER \<equiv> 0x55AA"

abbreviation FSI_FreeCount :: "fat_state \<Rightarrow> u32" where "FSI_FreeCount s \<equiv> fs_info s + 488"
abbreviation FSI_NxtFree :: "fat_state \<Rightarrow> u32" where "FSI_NxtFree s \<equiv> fs_info s + 492"

definition BY2CLUS :: "fat_state \<Rightarrow> u32" where
  "BY2CLUS s = 512 * SECT2CLUS s"

definition CLUS2Page :: "fat_state \<Rightarrow> u32" where
  "CLUS2Page s = BY2PG div BY2CLUS s"

definition fat_get_clus :: "fat_state \<Rightarrow> u32" where
  "fat_get_clus s = 512 * FAT_SECPClus (fat_super s)"

section \<open>Numbers of clusters\<close>

definition alignWithPage :: "u32 \<Rightarrow> u32" where
  "alignWithPage va = va div BY2PG * BY2PG"

definition fat_diskaddr :: "u32 \<Rightarrow> fat_state \<Rightarrow> u32 option" where
  "fat_diskaddr clusno s =
     (if clusno * BY2CLUS s \<ge> FATDISKMAX then None else Some (FATDISKMAP + clusno * BY2CLUS s))"

text \<open>The first sector and the first cluster of the data region.\<close>

definition rootSec :: "fat_state \<Rightarrow> u32" where
  "rootSec s = numOfReserved (fat_super s) + numOfFats (fat_super s) * SECPFAT (fat_super s)"

definition rootClus :: "fat_state \<Rightarrow> u32" where
  "rootClus s = rootSec s div SECT2CLUS s"

definition isData :: "u32 \<Rightarrow> fat_state \<Rightarrow> bool" where
  "isData clusno s \<longleftrightarrow> clusno \<ge> rootClus s \<and> clusno < TotClus (fat_super s)"

definition Clusno2Data :: "u32 \<Rightarrow> fat_state \<Rightarrow> u32" where
  "Clusno2Data clusno s =
     (if \<not> isData clusno s then ret_word (Inl E_INVAL)
      else clusno - rootClus s + RootClus (fat_super s))"

definition Data2ClusNO :: "u32 \<Rightarrow> fat_state \<Rightarrow> u32" where
  "Data2ClusNO dataClusNO s = dataClusNO + rootClus s - RootClus (fat_super s)"

definition va2ClusNo :: "u32 \<Rightarrow> fat_state \<Rightarrow> u32" where
  "va2ClusNo va s = (va - FATDISKMAP) div BY2CLUS s"

definition alignWithClus :: "u32 \<Rightarrow> fat_state \<Rightarrow> u32 option" where
  "alignWithClus clusno s = do {
     va \<leftarrow> fat_diskaddr clusno s;
     Some ((alignWithPage va - FATDISKMAP) div BY2CLUS s) }"

text \<open>The sector arithmetic of \<^verbatim>\<open>fat_clus_is_free\<close> and \<^verbatim>\<open>read_data_cluster\<close>.\<close>

definition data_clus :: "u32 \<Rightarrow> fat_state \<Rightarrow> u32" where
  "data_clus d s = ((d - 2) * SECT2CLUS s + numOfReserved (fat_super s) +
     numOfFats (fat_super s) * SECPFAT (fat_super s)) div SECT2CLUS s"

section \<open>The cluster cache\<close>

definition fat_clus_is_mapped :: "u32 \<Rightarrow> fat_state \<Rightarrow> u32 option" where
  "fat_clus_is_mapped clusno s = do {
     va \<leftarrow> fat_diskaddr clusno s;
     Some (if va_is_mapped va s then va else 0) }"

definition fat_clus_is_dirty :: "u32 \<Rightarrow> fat_state \<Rightarrow> bool option" where
  "fat_clus_is_dirty dataClusNO s = do {
     va \<leftarrow> fat_diskaddr (Data2ClusNO dataClusNO s) s;
     Some (va_is_mapped va s \<and> va_is_dirty va s) }"

definition write_cluster :: "u32 \<Rightarrow> fat_state \<Rightarrow> fat_state option" where
  "write_cluster clusno s = do {
     va \<leftarrow> fat_diskaddr clusno s;
     if \<not> va_is_mapped va s then None
     else ide_write 1 (clusno * SECT2CLUS s) va (SECT2CLUS s) s }"

definition write_clusters_in_page :: "u32 \<Rightarrow> fat_state \<Rightarrow> fat_state option" where
  "write_clusters_in_page clusno s = do {
     va \<leftarrow> fat_diskaddr clusno s;
     if \<not> va_is_mapped va s then None
     else do {
       c \<leftarrow> alignWithClus clusno s;
       ide_write 1 (c * SECT2CLUS s) (alignWithPage va) 8 s } }"

definition dirty_cluster :: "u32 \<Rightarrow> fat_state \<Rightarrow> ((err + unit) \<times> fat_state) option" where
  "dirty_cluster clusno s = do {
     va \<leftarrow> fat_diskaddr clusno s;
     if \<not> va_is_mapped va s then Some (Inl E_NOT_FOUND, s)
     else if va_is_dirty va s then Some (Inr (), s)
     else do {
       s1 \<leftarrow> write_cluster clusno s;
       Some (syscall_mem_map_self (alignWithPage va) (PTE_D OR PTE_DIRTY) s1) } }"

definition dirty_Fat :: "u32 \<Rightarrow> fat_state \<Rightarrow> fat_state option" where
  "dirty_Fat dataClusNo s = write_cluster (FAT1_ClusNo s + dataClusNo * 4 div BY2CLUS s) s"

definition fat_map_cluster :: "u32 \<Rightarrow> fat_state \<Rightarrow> ((err + unit) \<times> fat_state) option" where
  "fat_map_cluster clusno s = do {
     m \<leftarrow> fat_clus_is_mapped clusno s;
     if m \<noteq> 0 then Some (Inr (), s)
     else do {
       va \<leftarrow> fat_diskaddr clusno s;
       Some (syscall_mem_alloc (alignWithPage va) (PTE_V OR PTE_D) s) } }"

section \<open>The table\<close>

definition fat_ld :: "u32 \<Rightarrow> fat_state \<Rightarrow> u32 option" where
  "fat_ld d s = uldw (FAT1 s + d * 4) s"

definition fat_st :: "u32 \<Rightarrow> u32 \<Rightarrow> fat_state \<Rightarrow> fat_state option" where
  "fat_st d v s = ustw (FAT1 s + d * 4) v s"

definition fat_clus_is_free :: "u32 \<Rightarrow> fat_state \<Rightarrow> bool option" where
  "fat_clus_is_free d s =
     (if d < 2 then None
      else do {
        m \<leftarrow> fat_clus_is_mapped 0 s;
        if m = 0 \<or> data_clus d s \<ge> TotClus (fat_super s) then Some False
        else do { v \<leftarrow> fat_ld d s; Some (v = 0) } })"

definition fat_free_cluster :: "u32 \<Rightarrow> fat_state \<Rightarrow> fat_state option" where
  "fat_free_cluster d s =
     (if Data2ClusNO d s \<ge> TotClus (fat_super s) then Some s
      else if FAT1 s = 0 \<or> fs_info s = 0 then None
      else do {
        s1 \<leftarrow> fat_st d 0 s;
        s2 \<leftarrow> dirty_Fat d s1;
        fc \<leftarrow> uldw (FSI_FreeCount s2) s2;
        s3 \<leftarrow> ustw (FSI_FreeCount s2) (fc + 1) s2;
        nf \<leftarrow> uldw (FSI_NxtFree s3) s3;
        ustw (FSI_NxtFree s3) (if nf < d then nf else d) s3 })"

text \<open>The search for the next free cluster; it fails the assertion when there is none.\<close>

fun next_free :: "nat list \<Rightarrow> fat_state \<Rightarrow> fat_state option" where
  "next_free [] s = None"
| "next_free (i # is) s = do {
     fr \<leftarrow> fat_clus_is_free (of_nat i) s;
     if fr then ustw (FSI_NxtFree s) (of_nat i) s else next_free is s }"

definition fat_alloc_cluster_num :: "fat_state \<Rightarrow> (u32 \<times> fat_state) option" where
  "fat_alloc_cluster_num s =
     (if fs_info s = 0 then None
      else do {
        fc \<leftarrow> uldw (FSI_FreeCount s) s;
        if \<not> sint fc > 0 then None
        else do {
          s1 \<leftarrow> ustw (FSI_FreeCount s) (fc - 1) s;
          res \<leftarrow> uldw (FSI_NxtFree s1) s1;
          s2 \<leftarrow> fat_st res EOF_Fat32 s1;
          s3 \<leftarrow> dirty_Fat res s2;
          s4 \<leftarrow> next_free [unat res..<unat (TotClus (fat_super s3) - Data2ClusNO 2 s3)] s3;
          Some (res, s4) } })"

definition fat_alloc_cluster :: "fat_state \<Rightarrow> ((err + u32) \<times> fat_state) option" where
  "fat_alloc_cluster s = do {
     (num, s1) \<leftarrow> fat_alloc_cluster_num s;
     fr \<leftarrow> fat_clus_is_free num s1;
     if fr then None
     else do {
       (r, s2) \<leftarrow> fat_map_cluster (Data2ClusNO num s1) s1;
       (case r of
          Inl e \<Rightarrow> do { s3 \<leftarrow> fat_free_cluster num s2; Some (Inl e, s3) }
        | Inr _ \<Rightarrow> Some (Inr num, s2)) } }"

definition fat_unmap_cluster :: "u32 \<Rightarrow> fat_state \<Rightarrow> fat_state option" where
  "fat_unmap_cluster d s = do {
     let clusno = Data2ClusNO d s;
     va \<leftarrow> fat_clus_is_mapped clusno s;
     if va = 0 then None
     else do {
       dirty \<leftarrow> fat_clus_is_dirty d s;
       s1 \<leftarrow> (if dirty then do {
                beg \<leftarrow> alignWithClus clusno s;
                fold_opt (\<lambda>i s. do {
                    fr \<leftarrow> fat_clus_is_free (Clusno2Data beg s + of_nat i) s;
                    if fr then Some s else write_cluster (beg + of_nat i) s })
                  [0..<unat (CLUS2Page s)] s }
              else Some s);
       let s2 = snd (syscall_mem_unmap (alignWithPage va) s1);
       m \<leftarrow> fat_clus_is_mapped clusno s2;
       if m \<noteq> 0 then None else Some s2 } }"

section \<open>Reading clusters\<close>

text \<open>The sector number given to \<^verbatim>\<open>ide_read\<close> is the cluster number.\<close>

definition read_cluster :: "u32 \<Rightarrow> fat_state \<Rightarrow> (u32 \<times> fat_state) option" where
  "read_cluster clusno s =
     (if clusno \<ge> TotClus (fat_super s) then None
      else do {
        va \<leftarrow> fat_diskaddr clusno s;
        bad \<leftarrow> (if FAT1 s \<noteq> 0 \<and> isData clusno s then fat_clus_is_free (Clusno2Data clusno s) s
               else Some False);
        if bad then None
        else if va_is_mapped va s then Some (va, s)
        else do {
          let s1 = snd (syscall_mem_alloc (alignWithPage va) PTE_D s);
          c \<leftarrow> alignWithClus clusno s1;
          s2 \<leftarrow> ide_read 1 c (alignWithPage va) 8 s1;
          Some (va, s2) } })"

definition read_data_cluster :: "u32 \<Rightarrow> fat_state \<Rightarrow> (u32 \<times> fat_state) option" where
  "read_data_cluster d s = do {
     (data, s1) \<leftarrow> read_cluster (data_clus d s) s;
     if data = 0 then None else Some (data, s1) }"

section \<open>Start up\<close>

definition fat32_sig :: "u8 list" where
  "fat32_sig = [0x46, 0x41, 0x54, 0x33, 0x32, 0x20, 0x20, 0x20]"

text \<open>\<^verbatim>\<open>char\<close> is signed: single bytes are sign-extended.  A zero number of sectors per cluster is a
  division by zero.\<close>

definition fat_readBPB :: "fat_state \<Rightarrow> fat_state option" where
  "fat_readBPB s0 = do {
     va \<leftarrow> fat_diskaddr 0 s0;
     s \<leftarrow> (if va_is_mapped va s0 then Some s0
           else ide_read 1 0 va 8 (snd (syscall_mem_alloc va PTE_D s0)));
     b11 \<leftarrow> uld (va + 11) s; b12 \<leftarrow> uld (va + 12) s;
     ty \<leftarrow> uld_list (va + 82) 8 s;
     secpfat \<leftarrow> uldw (va + 36) s;
     b13 \<leftarrow> uld (va + 13) s;
     b14 \<leftarrow> uld (va + 14) s; b15 \<leftarrow> uld (va + 15) s;
     root \<leftarrow> uldw (va + 44) s;
     tot \<leftarrow> uldw (va + 32) s;
     b16 \<leftarrow> uld (va + 16) s;
     b510 \<leftarrow> uld (va + 510) s; b511 \<leftarrow> uld (va + 511) s;
     let secpclus = scast b13;
     if secpclus = 0 then None
     else do {
       let sup = \<lparr>FAT_BY2SEC = push_bit 8 (scast b12) + scast b11, FAT_SECPClus = secpclus, FSType = ty,
         FAT_endNumber = push_bit 8 (scast b510) + ucast b511, RootClus = root, SECPFAT = secpfat,
         TotClus = tot div secpclus, numOfFats = scast b16,
         numOfReserved = push_bit 8 (scast b15) + ucast b14\<rparr>;
       if FAT_endNumber sup \<noteq> FAT_BPB_END_NUMBER \<or> ty \<noteq> fat32_sig then None
       else Some (s\<lparr>fat_super := sup, SECT2CLUS := secpclus\<rparr>) } }"

definition read_FAT :: "fat_state \<Rightarrow> fat_state option" where
  "read_FAT s =
     (if FAT_endNumber (fat_super s) \<noteq> FAT_BPB_END_NUMBER \<or> FSType (fat_super s) \<noteq> fat32_sig then None
      else
        (let c0 = numOfReserved (fat_super s); total = FAT_SECPClus (fat_super s) div SECT2CLUS s;
             rd = (\<lambda>c s. map_option snd (read_cluster c s))
         in do {
           s1 \<leftarrow> (if numOfFats (fat_super s) = 2
                  then fold_opt (\<lambda>i s. do { s' \<leftarrow> rd (c0 + of_nat i) s; rd (c0 + of_nat i + total) s' })
                         [0..<unat total] s
                  else fold_opt (\<lambda>i. rd (c0 + of_nat i)) [0..<unat total] s);
           f1 \<leftarrow> fat_diskaddr c0 s1;
           f2 \<leftarrow> (if numOfFats (fat_super s) = 2 then fat_diskaddr (c0 + total) s1 else Some (FAT2 s1));
           let s2 = s1\<lparr>FAT1 := f1, FAT2 := f2\<rparr>;
           v \<leftarrow> fat_ld 0 s2;
           if v \<noteq> 0xfffffff8 then None else Some (s2\<lparr>FAT1_ClusNo := c0\<rparr>) }))"

text \<open>The first free entry of the table, if there is one, then the number of free entries from it.\<close>

fun first_zero :: "nat list \<Rightarrow> fat_state \<Rightarrow> nat option option" where
  "first_zero [] s = Some None"
| "first_zero (i # is) s = do { v \<leftarrow> fat_ld (of_nat i) s; if v = 0 then Some (Some i) else first_zero is s }"

definition count_free :: "nat list \<Rightarrow> fat_state \<Rightarrow> fat_state option" where
  "count_free = fold_opt (\<lambda>i s. do {
     v \<leftarrow> fat_ld (of_nat i) s;
     if v = 0 then do { fc \<leftarrow> uldw (FSI_FreeCount s) s; ustw (FSI_FreeCount s) (fc + 1) s } else Some s })"

definition read_FSInfo :: "fat_state \<Rightarrow> fat_state option" where
  "read_FSInfo s0 = do {
     s \<leftarrow> (if fs_info s0 = 0 then do {
             (_, s1) \<leftarrow> read_cluster (1 div SECT2CLUS s0) s0;
             Some (s1\<lparr>fs_info := FATDISKMAP + 512\<rparr>) }
           else Some s0);
     lead \<leftarrow> uldw (fs_info s) s;
     struct \<leftarrow> uldw (fs_info s + 484) s;
     trail \<leftarrow> uldw (fs_info s + 508) s;
     if lead \<noteq> 0x41615252 \<or> struct \<noteq> 0x61417272 \<or> trail \<noteq> 0xAA550000 then None
     else do {
       let n = unat (TotClus (fat_super s) - rootClus s);
       s1 \<leftarrow> ustw (FSI_FreeCount s) 0 s;
       z \<leftarrow> first_zero [0..<n] s1;
       s2 \<leftarrow> (case z of None \<Rightarrow> Some s1 | Some i \<Rightarrow> ustw (FSI_NxtFree s1) (of_nat i) s1);
       nf \<leftarrow> uldw (FSI_NxtFree s2) s2;
       count_free [unat nf..<n] s2 } }"

definition check_RW_cluster :: "fat_state \<Rightarrow> fat_state option" where
  "check_RW_cluster s = do {
     (first_dir, s1) \<leftarrow> read_data_cluster (RootClus (fat_super s)) s;
     (r, s2) \<leftarrow> fat_alloc_cluster s1;
     (case r of
        Inl _ \<Rightarrow> None
      | Inr num \<Rightarrow>
          if \<not> sint num > 0 then None
          else do {
            let n = unat (BY2CLUS s2);
            (test, s3) \<leftarrow> read_data_cluster num s2;
            buf \<leftarrow> uld_list test n s3;
            s4 \<leftarrow> ucopy test first_dir n s3;
            s5 \<leftarrow> write_cluster (Data2ClusNO num s4) s4;
            (test', s6) \<leftarrow> read_data_cluster num s5;
            a \<leftarrow> uld_list first_dir n s6;
            b \<leftarrow> uld_list test' n s6;
            if a \<noteq> b then None
            else do {
              s7 \<leftarrow> ust_list test' buf s6;
              s8 \<leftarrow> write_cluster (Data2ClusNO num s7) s7;
              c \<leftarrow> uld_list test' n s8;
              if c \<noteq> buf then None
              else do {
                s9 \<leftarrow> fat_free_cluster num s8;
                fr \<leftarrow> fat_clus_is_free num s9;
                if fr then Some s9 else None } } }) }"

definition fat32_init :: "fat_state \<Rightarrow> fat_state option" where
  "fat32_init s = do {
     s1 \<leftarrow> fat_readBPB s; s2 \<leftarrow> read_FAT s1; s3 \<leftarrow> read_FSInfo s2; check_RW_cluster s3 }"

end
