(* ===== verification/Fat_Dir.thy ===== *)
theory Fat_Dir
  imports Fat
begin

text \<open>
  The FAT32 file system of \<^verbatim>\<open>fs/fatfs.c\<close>, second part: names, directory entries, cluster chains,
  paths, and the operations on files.  A directory entry is 32 bytes in a cached cluster; the
  offsets are those of \<^verbatim>\<open>struct Fat32_Dir\<close> (name 0, attributes 11, times from 14, cluster number
  at 20 and 26, size at 28) and \<^verbatim>\<open>struct Fat32_LDIR\<close> (order 0, attributes 11, checksum 13, name
  parts at 1, 14 and 28).  A chain of clusters may be cyclic on a damaged volume, so the loops
  over chains are partial functions.
\<close>

section \<open>Names\<close>

text \<open>A byte of a C string; the zero behind its last byte can be read, what follows is not known.\<close>

definition cget :: "u8 list \<Rightarrow> nat \<Rightarrow> u8 option" where
  "cget u i = (if i < length u then Some (u ! i) else if i = length u then Some 0 else None)"

text \<open>\<^verbatim>\<open>char\<close> is signed; the arrays hold at least \<open>n\<close> bytes.\<close>

fun bytencmp :: "u8 list \<Rightarrow> u8 list \<Rightarrow> nat \<Rightarrow> int" where
  "bytencmp a b 0 = 0"
| "bytencmp a b (Suc n) = (if hd a \<noteq> hd b then sint (hd a) - sint (hd b) else bytencmp (tl a) (tl b) n)"

definition upcase :: "u8 \<Rightarrow> u8" where
  "upcase c = (if 0x61 \<le> c \<and> c \<le> 0x7a then c - 0x61 + 0x41 else c)"

text \<open>\<^verbatim>\<open>getFileName\<close>: the loop over the base name, \<open>n\<close> characters from \<open>i\<close> on at most, in upper case; then
  the loop over the extension, which copies as it is.  \<open>c1\<close> starts as 11 spaces.\<close>

definition cbyte :: "u8 list \<Rightarrow> nat \<Rightarrow> u8" where
  "cbyte u i = (if i < length u then u ! i else 0)"

fun base_loop :: "u8 list \<Rightarrow> nat \<Rightarrow> nat \<Rightarrow> u8 list \<Rightarrow> nat \<times> u8 list" where
  "base_loop u 0 i c1 = (i, c1)"
| "base_loop u (Suc n) i c1 =
     (if cbyte u i \<noteq> 0x2e \<and> cbyte u i \<noteq> 0 then base_loop u n (Suc i) (c1[i := upcase (cbyte u i)]) else (i, c1))"

fun ext_loop :: "u8 list \<Rightarrow> nat \<Rightarrow> nat \<Rightarrow> nat \<Rightarrow> u8 list \<Rightarrow> u8 list" where
  "ext_loop u 0 i j c1 = c1"
| "ext_loop u (Suc n) i j c1 =
     (if cbyte u i \<noteq> 0 then ext_loop u n (Suc i) (Suc j) (c1[j := cbyte u i]) else c1)"

definition getFileName :: "u8 list \<Rightarrow> u8 list" where
  "getFileName user_name =
     (let (i, c1) = base_loop user_name 8 0 (replicate 11 32)
      in if cbyte user_name i = 0x2e then ext_loop user_name 3 (Suc i) 8 c1 else c1)"

definition cmpFileName :: "u8 list \<Rightarrow> u8 list \<Rightarrow> int" where
  "cmpFileName fs_name user_name = bytencmp fs_name (getFileName user_name) 11"

definition ChkSum :: "u8 list \<Rightarrow> u8" where
  "ChkSum pFcbName =
     fold (\<lambda>b sum. (if sum AND 1 \<noteq> 0 then 0x80 else 0) + drop_bit 1 sum + b) (take 11 pFcbName) 0"

definition cmpShortEntry :: "u8 list \<Rightarrow> u8 list \<Rightarrow> nat" where
  "cmpShortEntry user_name c1 =
     (let tmp = getFileName user_name
      in if \<exists>i \<in> set ([0..<6] @ [8..<11]). tmp ! i \<noteq> c1 ! i then 1 else 0)"

definition fat_needLN :: "u8 list \<Rightarrow> bool" where
  "fat_needLN path \<longleftrightarrow> length (takeWhile (\<lambda>c. c \<noteq> 0x2e) path) > 8"

text \<open>The last slash is searched from the end; without one the search runs off the string.\<close>

definition spiltPath :: "u8 list \<Rightarrow> (u8 list \<times> u8 list) option" where
  "spiltPath path =
     (case filter (\<lambda>i. path ! i = slash) (rev [0..<length path]) of
        [] \<Rightarrow> None
      | i # _ \<Rightarrow> Some (take i path, drop (Suc i) path))"

section \<open>Fields of directory entries\<close>

definition uld16 :: "u32 \<Rightarrow> ('z) fsst_scheme \<Rightarrow> u16 option" where
  "uld16 va s = do { a \<leftarrow> uld va s; b \<leftarrow> uld (va + 1) s; Some (ucast a OR push_bit 8 (ucast b)) }"

definition ust16 :: "u32 \<Rightarrow> u16 \<Rightarrow> ('z) fsst_scheme \<Rightarrow> ('z) fsst_scheme option" where
  "ust16 va v s = do { s1 \<leftarrow> ust va (ucast v) s; ust (va + 1) (ucast (drop_bit 8 v)) s1 }"

definition file_get_dataClusNO :: "u32 \<Rightarrow> ('z) fsst_scheme \<Rightarrow> u32 option" where
  "file_get_dataClusNO file s = do {
     h1 \<leftarrow> uld (file + 21) s; h0 \<leftarrow> uld (file + 20) s;
     l1 \<leftarrow> uld (file + 27) s; l0 \<leftarrow> uld (file + 26) s;
     Some (push_bit 24 (ucast h1) + push_bit 16 (ucast h0) + push_bit 8 (ucast l1) + ucast l0) }"

text \<open>The assignments to \<^verbatim>\<open>ClusHI\<close> and \<^verbatim>\<open>ClusLO\<close>, in the code's order.\<close>

definition set_dataClusNO :: "u32 \<Rightarrow> u32 \<Rightarrow> ('z) fsst_scheme \<Rightarrow> ('z) fsst_scheme option" where
  "set_dataClusNO file d s = do {
     s1 \<leftarrow> ust (file + 21) (ucast (drop_bit 24 d)) s;
     s2 \<leftarrow> ust (file + 20) (ucast (drop_bit 16 d)) s1;
     s3 \<leftarrow> ust (file + 27) (ucast (drop_bit 8 d)) s2;
     ust (file + 26) (ucast d) s3 }"

text \<open>\<^verbatim>\<open>setTime\<close>: the clock is read through \<^verbatim>\<open>get_time\<close>; dates before 1980 wrap.\<close>

definition get_time :: "fat_state \<Rightarrow> u32 \<times> fat_state" where
  "get_time s = (rtc s (nrtc s), s\<lparr>nrtc := nrtc s + 1\<rparr>)"

definition setTime :: "u32 \<Rightarrow> bool \<Rightarrow> fat_state \<Rightarrow> fat_state option" where
  "setTime cur create s0 =
     (let (now, s) = get_time s0;
          t = utc_sec_2_mytime (now + 8 * 3600 - 8 * 60) False;
          date = push_bit 9 (of_int (int (nYear t) - 1980)) OR push_bit 5 (of_nat (nMonth t)) OR of_nat (nDay t);
          time = push_bit 11 (of_nat (nHour t)) OR push_bit 5 (of_nat (nMin t)) OR of_nat (nSec t div 2)
      in do {
        s1 \<leftarrow> (if create then do { s1 \<leftarrow> ust16 (cur + 16) date s; ust16 (cur + 14) time s1 } else Some s);
        s2 \<leftarrow> ust16 (cur + 24) date s1;
        ust16 (cur + 22) time s2 })"

text \<open>The 13 characters of a long-name entry and their addresses.\<close>

definition ln_addr :: "u32 \<Rightarrow> nat \<Rightarrow> u32" where
  "ln_addr cur i = (if i < 5 then cur + 1 + of_nat i * 2
     else if i < 11 then cur + 14 + of_nat (i - 5) * 2 else cur + 28 + of_nat (i - 11) * 2)"

definition getSubName :: "u32 \<Rightarrow> ('z) fsst_scheme \<Rightarrow> u16 list option" where
  "getSubName cur s = those (map (\<lambda>i. uld16 (ln_addr cur i) s) [0..<13])"

text \<open>The comparison of one character after the other; \<open>p\<close> is the position in the name.\<close>

fun cmp_units :: "u16 list \<Rightarrow> u8 list \<Rightarrow> nat \<Rightarrow> bool option" where
  "cmp_units [] u p = Some True"
| "cmp_units (t # ts) u p = do {
     c \<leftarrow> cget u p;
     if c = 0 \<and> t = 0 then Some True
     else if scast c \<noteq> t then Some False
     else cmp_units ts u (Suc p) }"

definition cmpLongName :: "u32 \<Rightarrow> u8 list \<Rightarrow> ('z) fsst_scheme \<Rightarrow> bool option" where
  "cmpLongName cur u s = do {
     o0 \<leftarrow> uld cur s;
     let ord = (scast (if o0 AND 0x40 \<noteq> 0 then o0 XOR 0x40 else o0) :: u32);
     tmp \<leftarrow> getSubName cur s;
     cmp_units tmp u (unat ((ord - 1) * 13)) }"

text \<open>What \<^verbatim>\<open>fillFileLN\<close> stores in the 13 places: the characters, a zero, then \<open>0xffff\<close>.\<close>

definition ln_units :: "u8 list \<Rightarrow> u16 list" where
  "ln_units u = (let cs = map scast (take 13 u) in take 13 (cs @ 0 # replicate 12 0xffff))"

definition fillFileLN :: "u32 \<Rightarrow> u8 list \<Rightarrow> u32 \<Rightarrow> ('z) fsst_scheme \<Rightarrow> ('z) fsst_scheme option" where
  "fillFileLN cur user_name ord s =
     (let p = unat ((ord - 1) * 13)
      in if p > length user_name then None
         else fold_opt (\<lambda>i. ust16 (ln_addr cur i) (ln_units (drop p user_name) ! i)) [0..<13] s)"

section \<open>Chains\<close>

definition dir_clus :: "u32 \<Rightarrow> fat_state \<Rightarrow> u32 option" where
  "dir_clus dir s = (if dir = 0 then Some (RootClus (fat_super s)) else file_get_dataClusNO dir s)"

partial_function (option) count_chain :: "u32 \<Rightarrow> u32 \<Rightarrow> fat_state \<Rightarrow> u32 option" where
  "count_chain d n s = Option.bind (fat_ld d s) (\<lambda>v. if v = EOF_Fat32 then Some n else count_chain v (n + 1) s)"

definition fat_total_clus :: "u32 \<Rightarrow> fat_state \<Rightarrow> u32 option" where
  "fat_total_clus dir s = do { d \<leftarrow> dir_clus dir s; count_chain d 0 s }"

text \<open>The loop of \<^verbatim>\<open>fat_walk_cluster\<close>: \<open>n\<close> steps along the chain.  A failed allocation stores the error
  code in the table.\<close>

fun walk_chain :: "nat \<Rightarrow> u32 \<Rightarrow> bool \<Rightarrow> fat_state \<Rightarrow> ((err + u32) \<times> fat_state) option" where
  "walk_chain 0 d alloc0 s = Some (Inr d, s)"
| "walk_chain (Suc n) d alloc0 s = do {
     v \<leftarrow> fat_ld d s;
     if v = EOF_Fat32 then
       (if alloc0 then do {
          (r, s1) \<leftarrow> fat_alloc_cluster s;
          s2 \<leftarrow> fat_st d (ret_word r) s1;
          s3 \<leftarrow> dirty_Fat d s2;
          v' \<leftarrow> fat_ld d s3;
          walk_chain n v' alloc0 s3 }
        else Some (Inl E_NOT_FOUND, s))
     else walk_chain n v alloc0 s }"

definition fat_walk_cluster :: "u32 \<Rightarrow> u32 \<Rightarrow> bool \<Rightarrow> fat_state \<Rightarrow> ((err + u32) \<times> fat_state) option" where
  "fat_walk_cluster f fClusNo alloc0 s = do { d \<leftarrow> dir_clus f s; walk_chain (unat fClusNo) d alloc0 s }"

text \<open>\<^verbatim>\<open>fat_walk_cluster_\<close>, which gives the address of the cluster.\<close>

definition fat_walk_cluster_va :: "u32 \<Rightarrow> u32 \<Rightarrow> bool \<Rightarrow> fat_state \<Rightarrow> ((err + u32) \<times> fat_state) option" where
  "fat_walk_cluster_va f fClusNo alloc0 s =
     try_c (fat_walk_cluster f fClusNo alloc0 s) (\<lambda>d s1. do {
       (va, s2) \<leftarrow> read_data_cluster d s1; Some (Inr va, s2) })"

definition fat_file_get_cluster :: "u32 \<Rightarrow> u32 \<Rightarrow> fat_state \<Rightarrow> ((err + u32) \<times> fat_state) option" where
  "fat_file_get_cluster f fileClusNo s = do {
     let s1 = (if va_is_mapped FATPAGEMAP s then s else snd (syscall_mem_alloc FATPAGEMAP PTE_D s));
     s2 \<leftarrow> ufill FATPAGEMAP 0 4096 s1;
     try_c (fat_walk_cluster f fileClusNo True s2) (\<lambda>d s3. do {
       (src, s4) \<leftarrow> read_data_cluster d s3;
       s5 \<leftarrow> ucopy FATPAGEMAP src (unat (BY2CLUS s4)) s4;
       Some (Inr FATPAGEMAP, s5) }) }"

section \<open>Searching directories\<close>

definition entry_nos :: "fat_state \<Rightarrow> nat list" where
  "entry_nos s = [0..<unat (BY2CLUS s div 32)]"

text \<open>One cluster of \<^verbatim>\<open>fat_dir_lookup\<close>, from entry to entry with the counter \<^verbatim>\<open>check\<close>.\<close>

fun lookup_entries :: "u32 \<Rightarrow> nat list \<Rightarrow> u32 \<Rightarrow> u8 list \<Rightarrow> fat_state \<Rightarrow> u32 option option" where
  "lookup_entries dir [] check name s = Some None"
| "lookup_entries dir (i # is) check name s = (let cur = dir + of_nat i * 32 in do {
     attr \<leftarrow> uld (cur + 11) s;
     if attr AND 0x0f \<noteq> 0 then do {
       o0 \<leftarrow> uld cur s;
       let check1 = (if o0 AND 0x40 \<noteq> 0 then scast (o0 XOR 0x40) else check);
       r \<leftarrow> cmpLongName cur name s;
       lookup_entries dir is (check1 - (if r then 1 else 0)) name s }
     else do {
       nm \<leftarrow> uld_list cur 11 s;
       if cmpFileName nm name = 0 \<or> check = 0 then Some (Some cur)
       else lookup_entries dir is check name s } })"

partial_function (option) lookup_chain :: "u32 \<Rightarrow> u8 list \<Rightarrow> fat_state \<Rightarrow> (u32 option \<times> fat_state) option" where
  "lookup_chain d name s =
     Option.bind (read_data_cluster d s) (\<lambda>(dir, s1).
       Option.bind (lookup_entries dir (entry_nos s1) 1 name s1) (\<lambda>r.
         (case r of
            Some cur \<Rightarrow> Some (Some cur, s1)
          | None \<Rightarrow> Option.bind (fat_ld d s1) (\<lambda>d'.
              if d' = EOF_Fat32 then Some (None, s1) else lookup_chain d' name s1))))"

text \<open>The result is the entry and, when \<open>want\<close> is set, the address of the file's first cluster.\<close>

definition fat_dir_lookup :: "u32 \<Rightarrow> u8 list \<Rightarrow> bool \<Rightarrow> fat_state \<Rightarrow>
    ((err + (u32 \<times> u32)) \<times> fat_state) option" where
  "fat_dir_lookup pdir name want s = do {
     (r, s1) \<leftarrow> lookup_chain (Clusno2Data (va2ClusNo pdir s) s) name s;
     (case r of
        None \<Rightarrow> Some (Inl E_NOT_FOUND, s1)
      | Some cur \<Rightarrow> do {
          d \<leftarrow> file_get_dataClusNO cur s1;
          if want then do { (va, s2) \<leftarrow> read_data_cluster d s1; Some (Inr (cur, va), s2) }
          else Some (Inr (cur, 0), s1) }) }"

fun count_entries :: "u32 \<Rightarrow> nat list \<Rightarrow> u8 list \<Rightarrow> u32 \<Rightarrow> fat_state \<Rightarrow> u32 option" where
  "count_entries dir [] name shot s = Some shot"
| "count_entries dir (i # is) name shot s = (let cur = dir + of_nat i * 32 in do {
     attr \<leftarrow> uld (cur + 11) s;
     if attr AND 0x0f \<noteq> 0 then count_entries dir is name shot s
     else do {
       nm \<leftarrow> uld_list cur 11 s;
       count_entries dir is name (if cmpShortEntry name nm = 0 then shot + 1 else shot) s } })"

partial_function (option) count_dir :: "u32 \<Rightarrow> u8 list \<Rightarrow> u32 \<Rightarrow> fat_state \<Rightarrow> (u32 \<times> fat_state) option" where
  "count_dir d name shot s =
     Option.bind (read_data_cluster d s) (\<lambda>(dir, s1).
       Option.bind (count_entries dir (entry_nos s1) name shot s1) (\<lambda>shot1.
         Option.bind (fat_ld d s1) (\<lambda>d'.
           if d' = EOF_Fat32 then Some (shot1, s1) else count_dir d' name shot1 s1)))"

definition fat_dir_lookup_all :: "u32 \<Rightarrow> u8 list \<Rightarrow> fat_state \<Rightarrow> (u32 \<times> fat_state) option" where
  "fat_dir_lookup_all pdir name s = do {
     d \<leftarrow> dir_clus pdir s;
     if d = 0 then Some (0, s) else count_dir d name 0 s }"

text \<open>\<^verbatim>\<open>getFileName_\<close>: the short name with its numeric tail.\<close>

definition getFileName_tail :: "u8 list \<Rightarrow> u32 \<Rightarrow> fat_state \<Rightarrow> (u8 list \<times> fat_state) option" where
  "getFileName_tail user_name dir s = do {
     (n, s1) \<leftarrow> fat_dir_lookup_all dir user_name s;
     Some ((getFileName user_name)[6 := 0x7e, 7 := 0x31 + ucast n], s1) }"

text \<open>One cluster of \<^verbatim>\<open>fat_free_dir_lookup\<close>: \<open>Some None\<close> when the name exists, \<open>Some (Some e)\<close> for a free
  entry.\<close>

fun free_entries :: "u32 \<Rightarrow> nat list \<Rightarrow> u8 list \<Rightarrow> fat_state \<Rightarrow> u32 option option option" where
  "free_entries dir [] this s = Some None"
| "free_entries dir (i # is) this s = (let cur = dir + of_nat i * 32 in do {
     attr \<leftarrow> uld (cur + 11) s;
     if attr = 0x0f then free_entries dir is this s
     else do {
       nm \<leftarrow> uld_list cur 11 s;
       if cmpFileName nm this = 0 then Some (Some None)
       else if nm ! 0 = 0 then Some (Some (Some cur))
       else free_entries dir is this s } })"

partial_function (option) free_chain :: "u32 \<Rightarrow> u8 list \<Rightarrow> fat_state \<Rightarrow> (u32 option option \<times> fat_state) option" where
  "free_chain d this s =
     Option.bind (read_data_cluster d s) (\<lambda>(dir, s1).
       Option.bind (free_entries dir (entry_nos s1) this s1) (\<lambda>r.
         (case r of
            Some e \<Rightarrow> Some (Some e, s1)
          | None \<Rightarrow> Option.bind (fat_ld d s1) (\<lambda>d'.
              if d' = EOF_Fat32 then Some (None, s1) else free_chain d' this s1))))"

text \<open>\<^verbatim>\<open>*entry\<close> stays \<^verbatim>\<open>NULL\<close>, here \<open>0\<close>, when the name exists already.\<close>

definition fat_free_dir_lookup :: "u32 \<Rightarrow> u8 list \<Rightarrow> fat_state \<Rightarrow> ((err + u32) \<times> fat_state) option" where
  "fat_free_dir_lookup pdir this s = do {
     (r, s1) \<leftarrow> free_chain (Clusno2Data (va2ClusNo pdir s) s) this s;
     (case r of
        None \<Rightarrow> Some (Inl E_NOT_FOUND, s1)
      | Some e \<Rightarrow> Some (Inr (case e of None \<Rightarrow> 0 | Some cur \<Rightarrow> cur), s1)) }"

text \<open>The search for \<open>n\<close> free entries in a row: \<open>check\<close> restarts in every cluster, \<open>target\<close> does not.\<close>

fun run_entries :: "u32 \<Rightarrow> nat list \<Rightarrow> u32 \<Rightarrow> u32 \<Rightarrow> u32 \<Rightarrow> fat_state \<Rightarrow> (bool \<times> u32) option" where
  "run_entries dir [] n check target s = Some (False, target)"
| "run_entries dir (i # is) n check target s = (let cur = dir + of_nat i * 32 in do {
     b \<leftarrow> uld cur s;
     let check1 = (if b = 0 then check + 1 else 0);
     let target1 = (if b = 0 then (if target = 0 then cur else target) else 0);
     if check1 = n then Some (True, target1) else run_entries dir is n check1 target1 s })"

partial_function (option) run_chain :: "u32 \<Rightarrow> u32 \<Rightarrow> u32 \<Rightarrow> fat_state \<Rightarrow> (u32 option \<times> fat_state) option" where
  "run_chain d n target s =
     Option.bind (read_data_cluster d s) (\<lambda>(dir, s1).
       Option.bind (run_entries dir (entry_nos s1) n 0 target s1) (\<lambda>(found, t).
         if found then Some (Some t, s1)
         else Option.bind (fat_ld d s1) (\<lambda>d'.
           if d' = EOF_Fat32 then Some (None, s1) else run_chain d' n t s1)))"

definition fat_free_Ndir_lookup :: "u32 \<Rightarrow> u8 list \<Rightarrow> u32 \<Rightarrow> fat_state \<Rightarrow> ((err + u32) \<times> fat_state) option" where
  "fat_free_Ndir_lookup dir this n s = do {
     d \<leftarrow> dir_clus dir s;
     (file, s1) \<leftarrow> read_data_cluster d s;
     (r, s2) \<leftarrow> fat_dir_lookup file this True s1;
     (case r of
        Inr _ \<Rightarrow> Some (Inr 0, s2)
      | Inl _ \<Rightarrow> do {
          (t, s3) \<leftarrow> run_chain d n 0 s2;
          (case t of None \<Rightarrow> Some (Inl E_NOT_FOUND, s3) | Some e \<Rightarrow> Some (Inr e, s3)) }) }"

end
