(* ===== verification/Fat_File.thy ===== *)
theory Fat_File
  imports Fat_Dir
begin

text \<open>
  The FAT32 file system of \<^verbatim>\<open>fs/fatfs.c\<close>, third part: path resolution, creation of files and
  directories, and the operations the server calls on an open file.  Entries are addresses of
  \<^verbatim>\<open>struct Fat32_Dir\<close> in the cluster cache; the root directory has no entry and is \<open>0\<close>.
\<close>

section \<open>Paths\<close>

definition skip_root :: "u8 list \<Rightarrow> u8 list" where
  "skip_root p =
     (if take 1 p = [0x3a] then drop 1 p
      else if take 3 p = [0x46, 0x41, 0x54] then drop 3 p else p)"

definition fat_skip_slash :: "u8 list \<Rightarrow> u8 list" where
  "fat_skip_slash p = dropWhile (\<lambda>c. c = slash) p"

text \<open>
  The common loop of \<^verbatim>\<open>fat_walk_path\<close> and \<^verbatim>\<open>fat_walk_path_at\<close>.  Only one slash is skipped behind a
  component, and it counts for the length limit; a component that fills the buffer \<^verbatim>\<open>name\<close> has its
  terminating zero stored one byte behind it, where the model stops.
\<close>

function fat_walk_loop :: "u8 list \<Rightarrow> u32 \<Rightarrow> u32 \<Rightarrow> fat_state \<Rightarrow> (walk_result \<times> fat_state) option" where
  "fat_walk_loop path file entry s =
     (if path = [] then Some ((Inr entry, ROUNDDOWN entry (BY2CLUS s), None), s)
      else
        (let name = takeWhile (\<lambda>c. c \<noteq> slash) path;
             rest0 = dropWhile (\<lambda>c. c \<noteq> slash) path;
             rest = drop 1 rest0;
             n = length path - length rest
         in if n > MAXNAMELEN then Some ((Inl E_BAD_PATH, 0, None), s)
            else if n = MAXNAMELEN then None
            else do {
              attr \<leftarrow> (if entry = 0 then Some 0x10 else uld (entry + 11) s);
              if attr AND 0x10 = 0 then Some ((Inl E_NOT_FOUND, 0, None), s)
              else do {
                (r, s1) \<leftarrow> fat_dir_lookup file name True s;
                (case r of
                   Inl e \<Rightarrow>
                     if e = E_NOT_FOUND \<and> rest = [] then Some ((Inl e, file, Some name), s1)
                     else Some ((Inl e, 0, None), s1)
                 | Inr (cur, va) \<Rightarrow> fat_walk_loop rest va cur s1) } }))"
  by pat_completeness auto

lemma fat_rest_shorter:
  "path \<noteq> [] \<Longrightarrow> length (drop 1 (dropWhile (\<lambda>c. c \<noteq> slash) path)) < length path"
  by (cases path) (auto simp: length_dropWhile_le le_imp_less_Suc less_imp_diff_less)

termination fat_walk_loop
proof (relation "measure (\<lambda>(p, _). length p)")
  show "wf (measure (\<lambda>(p :: u8 list, _ :: u32 \<times> u32 \<times> fat_state). length p))" by simp
qed (use fat_rest_shorter in auto)

declare fat_walk_loop.simps [simp del]

definition fat_walk_path :: "u8 list \<Rightarrow> fat_state \<Rightarrow> (walk_result \<times> fat_state) option" where
  "fat_walk_path path s = do {
     (file, s1) \<leftarrow> read_data_cluster (RootClus (fat_super s)) s;
     fat_walk_loop (fat_skip_slash (skip_root path)) file 0 s1 }"

definition fat_walk_path_at :: "u32 \<Rightarrow> u8 list \<Rightarrow> fat_state \<Rightarrow> (walk_result \<times> fat_state) option" where
  "fat_walk_path_at par_dir path s = do {
     d \<leftarrow> file_get_dataClusNO par_dir s;
     (file, s1) \<leftarrow> read_data_cluster d s;
     fat_walk_loop (fat_skip_slash (skip_root path)) file 0 s1 }"

section \<open>Creating entries\<close>

text \<open>A new cluster at the end of a directory's chain; \<open>index\<close> is its position.\<close>

definition dir_grow :: "u32 \<Rightarrow> u32 \<Rightarrow> fat_state \<Rightarrow> (u32 \<times> fat_state) option" where
  "dir_grow dir index s = do {
     (r, s1) \<leftarrow> fat_walk_cluster dir index True s;
     (case r of Inl _ \<Rightarrow> None | Inr d \<Rightarrow> read_data_cluster d s1) }"

text \<open>The long-name entries of a file, the last part of the name first.\<close>

definition fill_ln_entry :: "u32 \<Rightarrow> u8 \<Rightarrow> u8 \<Rightarrow> u8 list \<Rightarrow> u32 \<Rightarrow> fat_state \<Rightarrow> fat_state option" where
  "fill_ln_entry cur ordb chk this ord s = do {
     s1 \<leftarrow> ust (cur + 11) 0x0f s;
     s2 \<leftarrow> ust cur ordb s1;
     s3 \<leftarrow> ust (cur + 13) chk s2;
     fillFileLN cur this ord s3 }"

definition fill_ln_entries :: "u32 \<Rightarrow> u8 list \<Rightarrow> u8 list \<Rightarrow> u32 \<Rightarrow> fat_state \<Rightarrow> fat_state option" where
  "fill_ln_entries cur tmp this needEntry =
     fold_opt (\<lambda>i. fill_ln_entry (cur + of_nat i * 32)
         (if i = 0 then 0x40 OR ucast needEntry else ucast (needEntry - of_nat i)) (ChkSum tmp) this
         (needEntry - of_nat i)) [0..<unat needEntry]"

text \<open>The common part of \<^verbatim>\<open>fat_alloc_LongNameFile\<close> and \<^verbatim>\<open>fat_alloc_LongNameDir\<close>: the address of the
  entry behind the long-name entries and its short name, or nothing when the name exists.\<close>

definition alloc_long_name :: "u8 list \<Rightarrow> u32 \<Rightarrow> u32 \<Rightarrow> fat_state \<Rightarrow> ((u32 \<times> u8 list) option \<times> fat_state) option" where
  "alloc_long_name this dir totalClus s =
     (let needEntry = of_nat (length this) div 13 + 1 in do {
        (r, s1) \<leftarrow> fat_free_Ndir_lookup dir this (needEntry + 1) s;
        if r = Inr 0 then Some (None, s1)
        else do {
          (cur, s2) \<leftarrow> (case r of Inl _ \<Rightarrow> dir_grow dir (totalClus + 1) s1 | Inr cur \<Rightarrow> Some (cur, s1));
          if cur = 0 then None
          else do {
            (tmp, s3) \<leftarrow> getFileName_tail this dir s2;
            s4 \<leftarrow> fill_ln_entries cur tmp this needEntry s3;
            Some (Some (cur + needEntry * 32, tmp), s4) } } })"

definition init_file_entry :: "u32 \<Rightarrow> fat_state \<Rightarrow> fat_state option" where
  "init_file_entry cur s = do {
     s1 \<leftarrow> ustw (cur + 28) 0 s;
     s2 \<leftarrow> ust (cur + 11) 0x20 s1;
     s3 \<leftarrow> ufill (cur + 20) 0 2 s2;
     ufill (cur + 26) 0 2 s3 }"

definition fat_alloc_LongNameFile :: "u8 list \<Rightarrow> u32 \<Rightarrow> u32 \<Rightarrow> fat_state \<Rightarrow> fat_state option" where
  "fat_alloc_LongNameFile this dir totalClus s = do {
     (r, s1) \<leftarrow> alloc_long_name this dir totalClus s;
     (case r of
        None \<Rightarrow> Some s1
      | Some (cur, tmp) \<Rightarrow> do {
          s2 \<leftarrow> setTime cur True s1;
          s3 \<leftarrow> ust_list cur tmp s2;
          s4 \<leftarrow> init_file_entry cur s3;
          map_option snd (dirty_cluster (va2ClusNo cur s4) s4) }) }"

text \<open>\<^verbatim>\<open>*entry\<close> stays \<^verbatim>\<open>NULL\<close>, here \<open>0\<close>, when the name exists.\<close>

definition fat_alloc_LongNameDir :: "u8 list \<Rightarrow> u32 \<Rightarrow> u32 \<Rightarrow> fat_state \<Rightarrow> (u32 \<times> fat_state) option" where
  "fat_alloc_LongNameDir this dir totalClus s = do {
     (r, s1) \<leftarrow> alloc_long_name this dir totalClus s;
     (case r of
        None \<Rightarrow> Some (0, s1)
      | Some (cur, tmp) \<Rightarrow> do {
          s2 \<leftarrow> ust_list cur tmp s1;
          (_, s3) \<leftarrow> dirty_cluster (va2ClusNo cur s2) s2;
          Some (cur, s3) }) }"

text \<open>A free entry for a short name, in a new cluster if the directory is full; \<open>0\<close> when the name
  exists.\<close>

definition alloc_short_name :: "u8 list \<Rightarrow> u32 \<Rightarrow> u32 \<Rightarrow> u32 \<Rightarrow> fat_state \<Rightarrow> (u32 \<times> fat_state) option" where
  "alloc_short_name this dir file totalClus s = do {
     (r, s1) \<leftarrow> fat_free_dir_lookup file this s;
     (case r of Inl _ \<Rightarrow> dir_grow dir (totalClus + 1) s1 | Inr cur \<Rightarrow> Some (cur, s1)) }"

text \<open>The file part of \<^verbatim>\<open>fat_alloc_file\<close> and \<^verbatim>\<open>fat_alloc_file_at\<close>, from the directory \<open>dir\<close> on.\<close>

definition alloc_file_in :: "u8 list \<Rightarrow> u32 \<Rightarrow> fat_state \<Rightarrow> fat_state option" where
  "alloc_file_in this dir s = do {
     totalClus \<leftarrow> fat_total_clus dir s;
     d \<leftarrow> dir_clus dir s;
     (file, s1) \<leftarrow> read_data_cluster d s;
     if fat_needLN this then fat_alloc_LongNameFile this dir totalClus s1
     else do {
       (cur, s2) \<leftarrow> alloc_short_name this dir file totalClus s1;
       if cur = 0 then Some s2
       else do {
         s3 \<leftarrow> setTime cur True s2;
         s4 \<leftarrow> ust_list cur (getFileName this) s3;
         s5 \<leftarrow> init_file_entry cur s4;
         map_option snd (dirty_cluster (va2ClusNo cur s5) s5) } } }"

definition fat_alloc_file :: "u8 list \<Rightarrow> fat_state \<Rightarrow> ((err + unit) \<times> fat_state) option" where
  "fat_alloc_file path s = do {
     (parentDir, this) \<leftarrow> spiltPath path;
     ((r, _), s1) \<leftarrow> fat_walk_path parentDir s;
     (case r of
        Inl e \<Rightarrow> Some (Inl e, s1)
      | Inr dir \<Rightarrow> do { s2 \<leftarrow> alloc_file_in this dir s1; Some (Inr (), s2) }) }"

text \<open>With \<^verbatim>\<open>par_dir\<close> never \<^verbatim>\<open>NULL\<close>.\<close>

definition fat_alloc_file_at :: "u8 list \<Rightarrow> u32 \<Rightarrow> fat_state \<Rightarrow> ((err + unit) \<times> fat_state) option" where
  "fat_alloc_file_at path par_dir s =
     (if par_dir = 0 then None
      else do { s1 \<leftarrow> alloc_file_in path par_dir s; Some (Inr (), s1) })"

text \<open>The entries \<^verbatim>\<open>.\<close> and \<^verbatim>\<open>..\<close> of a new directory: \<open>src\<close> is the entry whose cluster number is
  copied, \<open>0\<close> for the root.\<close>

definition dot_entry :: "u32 \<Rightarrow> u8 list \<Rightarrow> u32 \<Rightarrow> fat_state \<Rightarrow> fat_state option" where
  "dot_entry file name src s = do {
     s1 \<leftarrow> ustw (file + 28) 0 s;
     s2 \<leftarrow> ust (file + 11) 0x10 s1;
     s3 \<leftarrow> ust_list file (name @ replicate (11 - length name) 32) s2;
     d \<leftarrow> (if src = 0 then Some 0 else file_get_dataClusNO src s3);
     s4 \<leftarrow> set_dataClusNO file d s3;
     d' \<leftarrow> file_get_dataClusNO file s4;
     if d' \<noteq> d then None else setTime file True s4 }"

definition alloc_dir_in :: "u8 list \<Rightarrow> u32 \<Rightarrow> fat_state \<Rightarrow> fat_state option" where
  "alloc_dir_in this dir s = do {
     d \<leftarrow> dir_clus dir s;
     (file, s1) \<leftarrow> read_data_cluster d s;
     totalClus \<leftarrow> fat_total_clus dir s1;
     (cur, s2) \<leftarrow> (if fat_needLN this then fat_alloc_LongNameDir this dir totalClus s1
                  else alloc_short_name this dir file totalClus s1);
     if cur = 0 then Some s2
     else do {
       s3 \<leftarrow> (if fat_needLN this then Some s2 else ust_list cur (getFileName this) s2);
       s4 \<leftarrow> ustw (cur + 28) 0 s3;
       s5 \<leftarrow> ust (cur + 11) 0x10 s4;
       s6 \<leftarrow> setTime cur True s5;
       (r, s7) \<leftarrow> fat_alloc_cluster s6;
       let dataClusNo = ret_word r;
       s8 \<leftarrow> set_dataClusNO cur dataClusNo s7;
       (file', s9) \<leftarrow> read_data_cluster dataClusNo s8;
       s10 \<leftarrow> dot_entry file' [0x2e] cur s9;
       s11 \<leftarrow> dot_entry (file' + 32) [0x2e, 0x2e] dir s10;
       (_, s12) \<leftarrow> dirty_cluster (va2ClusNo cur s11) s11;
       map_option snd (dirty_cluster (Data2ClusNO dataClusNo s12) s12) } }"

definition fat_alloc_dir_at :: "u8 list \<Rightarrow> u32 \<Rightarrow> fat_state \<Rightarrow> ((err + unit) \<times> fat_state) option" where
  "fat_alloc_dir_at path par_dir s =
     (if par_dir = 0 then None
      else do { s1 \<leftarrow> alloc_dir_in path par_dir s; Some (Inr (), s1) })"

definition fat_alloc_dir :: "u8 list \<Rightarrow> fat_state \<Rightarrow> ((err + unit) \<times> fat_state) option" where
  "fat_alloc_dir path s = do {
     (parentDir, this) \<leftarrow> spiltPath path;
     ((r, _), s1) \<leftarrow> fat_walk_path parentDir s;
     (case r of
        Inl e \<Rightarrow> Some (Inl e, s1)
      | Inr dir \<Rightarrow> do { s2 \<leftarrow> alloc_dir_in this dir s1; Some (Inr (), s2) }) }"

section \<open>Operations of the server\<close>

abbreviation (input) O_CREAT :: u32 where "O_CREAT \<equiv> 0x0100"
abbreviation (input) O_MKDIR :: u32 where "O_MKDIR \<equiv> 0x0800"

definition fat_file_open :: "u8 list \<Rightarrow> u32 \<Rightarrow> fat_state \<Rightarrow> ((err + u32) \<times> fat_state) option" where
  "fat_file_open path omode s =
     (let mode = omode AND 0xff00
      in try_c (if mode = O_CREAT then fat_alloc_file path s
                else if mode = O_MKDIR then fat_alloc_dir path s else Some (Inr (), s))
           (\<lambda>_ s1. do { ((r, _), s2) \<leftarrow> fat_walk_path path s1; Some (r, s2) }))"

definition fat_file_openat :: "u32 \<Rightarrow> u8 list \<Rightarrow> u32 \<Rightarrow> fat_state \<Rightarrow> ((err + u32) \<times> fat_state) option" where
  "fat_file_openat dir path omode s = do {
     attr \<leftarrow> uld (dir + 11) s;
     if attr AND 0x10 = 0 then Some (Inl E_INVAL, s)
     else
       (let mode = omode AND 0xff00
        in try_c (if mode = O_CREAT then fat_alloc_file_at path dir s
                  else if mode = O_MKDIR then fat_alloc_dir_at path dir s else Some (Inr (), s))
             (\<lambda>_ s1. do { ((r, _), s2) \<leftarrow> fat_walk_path_at dir path s1; Some (r, s2) })) }"

text \<open>Up to a page of clusters along the chain from \<open>d\<close>.\<close>

fun dirty_clusters :: "nat \<Rightarrow> u32 \<Rightarrow> fat_state \<Rightarrow> ((err + unit) \<times> fat_state) option" where
  "dirty_clusters 0 d s = Some (Inr (), s)"
| "dirty_clusters (Suc n) d s = try_c (dirty_cluster (Data2ClusNO d s) s) (\<lambda>_ s1. do {
     v \<leftarrow> fat_ld d s1;
     if v = EOF_Fat32 then Some (Inr (), s1) else dirty_clusters n v s1 })"

definition dirty_page :: "u32 \<Rightarrow> fat_state \<Rightarrow> ((err + unit) \<times> fat_state) option" where
  "dirty_page beginClus s = dirty_clusters (unat (CLUS2Page s)) beginClus s"

fun seek_chain :: "nat \<Rightarrow> u32 \<Rightarrow> fat_state \<Rightarrow> u32 option" where
  "seek_chain 0 d s = Some d"
| "seek_chain (Suc n) d s = do { v \<leftarrow> fat_ld d s; if v = EOF_Fat32 then Some d else seek_chain n v s }"

text \<open>The loop counts \<open>i = 0, BY2CLUS, ...\<close> below \<open>offset\<close>.\<close>

definition fat_file_dirty :: "u32 \<Rightarrow> u32 \<Rightarrow> fat_state \<Rightarrow> ((err + unit) \<times> fat_state) option" where
  "fat_file_dirty f offset s = do {
     d \<leftarrow> file_get_dataClusNO f s;
     let c = unat (BY2CLUS s);
     d' \<leftarrow> seek_chain ((unat offset + c - 1) div c) d s;
     dirty_page d' s }"

partial_function (option) flush_chain :: "u32 \<Rightarrow> fat_state \<Rightarrow> fat_state option" where
  "flush_chain d s =
     Option.bind (fat_clus_is_dirty d s) (\<lambda>dirty.
       Option.bind (if dirty then write_cluster (Data2ClusNO d s) s else Some s) (\<lambda>s1.
         Option.bind (fat_ld d s1) (\<lambda>d'. if d' = EOF_Fat32 then Some s1 else flush_chain d' s1)))"

definition fat_file_flush :: "u32 \<Rightarrow> fat_state \<Rightarrow> fat_state option" where
  "fat_file_flush f s = do {
     d \<leftarrow> file_get_dataClusNO f s;
     if d = 0 then Some s else flush_chain d s }"

definition fat_dir_dirty :: "u32 \<Rightarrow> fat_state \<Rightarrow> ((err + unit) \<times> fat_state) option" where
  "fat_dir_dirty f s = dirty_cluster (va2ClusNo (ROUNDDOWN f (BY2CLUS s)) s) s"

definition fat_dir_flush :: "u32 \<Rightarrow> fat_state \<Rightarrow> fat_state option" where
  "fat_dir_flush f s =
     (let d = Clusno2Data (va2ClusNo (ROUNDDOWN f (BY2CLUS s)) s) s in do {
        dirty \<leftarrow> fat_clus_is_dirty d s;
        if dirty then write_cluster (Data2ClusNO d s) s else Some s })"

definition dir_dirty_flush :: "u32 \<Rightarrow> fat_state \<Rightarrow> fat_state option" where
  "dir_dirty_flush f s = do { (_, s1) \<leftarrow> fat_dir_dirty f s; fat_dir_flush f s1 }"

definition fat_file_close :: "u32 \<Rightarrow> fat_state \<Rightarrow> fat_state option" where
  "fat_file_close f s = do { s1 \<leftarrow> fat_file_flush f s; dir_dirty_flush f s1 }"

text \<open>The loops of \<^verbatim>\<open>fat_file_truncate\<close>: \<open>n\<close> steps with the cluster before, then \<open>n\<close> clusters freed.\<close>

fun chain_step :: "nat \<Rightarrow> u32 \<Rightarrow> u32 \<Rightarrow> fat_state \<Rightarrow> (u32 \<times> u32) option" where
  "chain_step 0 tmp d s = Some (tmp, d)"
| "chain_step (Suc n) tmp d s = do { v \<leftarrow> fat_ld d s; chain_step n d v s }"

fun free_clusters :: "nat \<Rightarrow> u32 \<Rightarrow> fat_state \<Rightarrow> fat_state option" where
  "free_clusters 0 d s = Some s"
| "free_clusters (Suc n) d s = do { v \<leftarrow> fat_ld d s; s1 \<leftarrow> fat_free_cluster d s; free_clusters n v s1 }"

definition fat_file_truncate :: "u32 \<Rightarrow> u32 \<Rightarrow> fat_state \<Rightarrow> fat_state option" where
  "fat_file_truncate f newsize s = do {
     sz \<leftarrow> uldw (f + 28) s;
     let old_nclusters = unat (sz div BY2CLUS s + 1);
     let new_nclusters = (if newsize = 0 then 0 else unat (newsize div BY2CLUS s + 1));
     if \<not> sint sz > 0 then None
     else do {
       d \<leftarrow> file_get_dataClusNO f s;
       (tmp, d') \<leftarrow> chain_step new_nclusters d d s;
       s1 \<leftarrow> (if new_nclusters > 0 then do { s1 \<leftarrow> fat_st tmp EOF_Fat32 s; dirty_Fat tmp s1 } else Some s);
       s2 \<leftarrow> free_clusters (old_nclusters - new_nclusters) d' s1;
       s3 \<leftarrow> (if newsize = 0 then do { s3 \<leftarrow> ufill (f + 20) 0 2 s2; ufill (f + 26) 0 2 s3 } else Some s2);
       ustw (f + 28) newsize s3 } }"

definition fat_file_set_size :: "u32 \<Rightarrow> u32 \<Rightarrow> fat_state \<Rightarrow> fat_state option" where
  "fat_file_set_size f newsize s = do {
     sz \<leftarrow> uldw (f + 28) s;
     s1 \<leftarrow> (if sz > newsize then fat_file_truncate f newsize s else Some s);
     sz' \<leftarrow> uldw (f + 28) s1;
     s2 \<leftarrow> (if sz' = 0 \<and> newsize > 0 then do {
              (r, s2) \<leftarrow> fat_alloc_cluster s1;
              set_dataClusNO f (ret_word r) s2 }
            else Some s1);
     s3 \<leftarrow> ustw (f + 28) newsize s2;
     dir_dirty_flush f s3 }"

definition fClusNo2Va :: "u32 \<Rightarrow> u32 \<Rightarrow> fat_state \<Rightarrow> ((err + u32) \<times> fat_state) option" where
  "fClusNo2Va f fClusNo s = try_c (fat_walk_cluster f fClusNo False s) (\<lambda>d s1.
     if d = 0 then None
     else do {
       va \<leftarrow> fat_clus_is_mapped (Data2ClusNO d s1) s1;
       Some (if va = 0 then Inl E_INVAL else Inr va, s1) })"

text \<open>The copy loop of \<^verbatim>\<open>fat_file_writeBack\<close>: at the end of a cluster it moves to the next one of the
  chain, also behind the last byte.\<close>

fun write_bytes :: "u32 \<Rightarrow> u32 \<Rightarrow> u32 \<Rightarrow> u32 \<Rightarrow> u8 list \<Rightarrow> fat_state \<Rightarrow> ((err + unit) \<times> fat_state) option" where
  "write_bytes f va fClusNo curPtr [] s = Some (Inr (), s)"
| "write_bytes f va fClusNo curPtr (b # bs) s = do {
     s1 \<leftarrow> ust (va + curPtr) b s;
     if curPtr + 1 \<ge> BY2CLUS s1 then
       try_c (fClusNo2Va f (fClusNo + 1) s1) (\<lambda>va' s2. do {
         (_, s3) \<leftarrow> dirty_cluster (va2ClusNo va' s2) s2;
         write_bytes f va' (fClusNo + 1) ((curPtr + 1) mod BY2CLUS s3) bs s3 })
     else write_bytes f va fClusNo (curPtr + 1) bs s1 }"

text \<open>\<open>src\<close> is the list of the \<open>n\<close> bytes the caller passes.\<close>

definition fat_file_writeBack :: "u32 \<Rightarrow> u32 \<Rightarrow> u8 list \<Rightarrow> fat_state \<Rightarrow> ((err + unit) \<times> fat_state) option" where
  "fat_file_writeBack f offset src s = do {
     s1 \<leftarrow> setTime f False s;
     try_c (fClusNo2Va f (offset div BY2CLUS s1) s1) (\<lambda>va s2. do {
       (_, s3) \<leftarrow> dirty_cluster (va2ClusNo va s2) s2;
       try_c (write_bytes f va (offset div BY2CLUS s3) (offset mod BY2CLUS s3) src s3) (\<lambda>_ s4. do {
         (_, s5) \<leftarrow> fat_dir_dirty f s4;
         Some (Inr (), s5) }) }) }"

section \<open>Removing files\<close>

text \<open>The entries before \<open>f\<close> in \<open>dir\<close> as long as they are long-name entries, the nearest first.\<close>

fun clear_ln :: "nat \<Rightarrow> u32 \<Rightarrow> fat_state \<Rightarrow> fat_state option" where
  "clear_ln 0 dir s = Some s"
| "clear_ln (Suc i) dir s = (let cur = dir + of_nat i * 32 in do {
     attr \<leftarrow> uld (cur + 11) s;
     if attr AND 0x0f = 0 then Some s
     else do { s1 \<leftarrow> ufill cur 0 32 s; clear_ln i dir s1 } })"

text \<open>\<^verbatim>\<open>f - dir - 1\<close> is the index of the entry before \<open>f\<close>, a signed number.\<close>

definition entries_before :: "u32 \<Rightarrow> u32 \<Rightarrow> nat" where
  "entries_before f dir = nat (sint (f - dir) div 32)"

definition fat_file_remove :: "u8 list \<Rightarrow> fat_state \<Rightarrow> ((err + unit) \<times> fat_state) option" where
  "fat_file_remove path s = do {
     ((r, dir, _), s1) \<leftarrow> fat_walk_path path s;
     (case r of
        Inl e \<Rightarrow> Some (Inl e, s1)
      | Inr f \<Rightarrow> do {
          sz \<leftarrow> uldw (f + 28) s1;
          s2 \<leftarrow> (if sint sz > 0 then fat_file_truncate f 0 s1 else Some s1);
          s3 \<leftarrow> clear_ln (entries_before f dir) dir s2;
          s4 \<leftarrow> ufill f 0 11 s3;
          s5 \<leftarrow> dir_dirty_flush f s4;
          Some (Inr (), s5) }) }"

text \<open>\<^verbatim>\<open>fat_file_removeat\<close> counts from the entry \<^verbatim>\<open>par_dir\<close> of the directory itself, not from its
  content, and clears only the first byte of the long-name entries.\<close>

fun clear_ln_at :: "nat \<Rightarrow> u32 \<Rightarrow> fat_state \<Rightarrow> fat_state option" where
  "clear_ln_at 0 dir s = Some s"
| "clear_ln_at (Suc i) dir s = (let cur = dir + of_nat i * 32 in do {
     attr \<leftarrow> uld (cur + 11) s;
     if attr AND 0x0f = 0 then Some s
     else do { s1 \<leftarrow> ust cur 0 s; clear_ln_at i dir s1 } })"

definition fat_file_removeat :: "u32 \<Rightarrow> u8 list \<Rightarrow> fat_state \<Rightarrow> ((err + unit) \<times> fat_state) option" where
  "fat_file_removeat par_dir path s = do {
     attr \<leftarrow> uld (par_dir + 11) s;
     if attr AND 0x10 = 0 then Some (Inl E_INVAL, s)
     else do {
       d \<leftarrow> file_get_dataClusNO par_dir s;
       (va, s1) \<leftarrow> read_data_cluster d s;
       try_c (fat_dir_lookup va path False s1) (\<lambda>(f, _) s2. do {
         sz \<leftarrow> uldw (f + 28) s2;
         s3 \<leftarrow> (if sint sz > 0 then fat_file_truncate f 0 s2 else Some s2);
         s4 \<leftarrow> clear_ln_at (entries_before f par_dir) par_dir s3;
         s5 \<leftarrow> ufill f 0 11 s4;
         s6 \<leftarrow> dir_dirty_flush f s5;
         Some (Inr (), s6) }) } }"

section \<open>Synchronisation\<close>

definition flush_Fat :: "fat_state \<Rightarrow> fat_state option" where
  "flush_Fat s =
     (let clusNo = va2ClusNo (FAT1 s) s; n = FAT_SECPClus (fat_super s) div SECT2CLUS s
      in fold_opt (\<lambda>i s. do {
           va \<leftarrow> fat_diskaddr (of_nat i) s;
           if va_is_mapped va s \<and> va_is_dirty va s then write_cluster (of_nat i) s else Some s })
         [unat clusNo..<unat (clusNo + n)] s)"

definition flush_Data :: "fat_state \<Rightarrow> fat_state option" where
  "flush_Data s = fold_opt (\<lambda>i s. do {
     dirty \<leftarrow> fat_clus_is_dirty (of_nat i) s;
     if dirty then write_cluster (Data2ClusNO (of_nat i) s) s else Some s })
   [2..<unat (TotClus (fat_super s) - rootClus s)] s"

definition fat_fs_sync :: "fat_state \<Rightarrow> fat_state option" where
  "fat_fs_sync s =
     (if FSType (fat_super s) \<noteq> fat32_sig then Some s
      else do { s1 \<leftarrow> flush_Fat s; flush_Data s1 })"

end
