(* ===== verification/Serv.thy ===== *)
theory Serv
  imports Fat_File
begin

text \<open>
  The main loop of the file system server (\<^verbatim>\<open>fs/serv.c\<close>): the two tables of open files, the
  handler of every request and the dispatch, over the file systems of \<^verbatim>\<open>Fs\<close> and \<^verbatim>\<open>Fat_File\<close>.

  Beside the server's memory (\<open>sfs\<close>) the state has the tables, the reference counts the kernel
  keeps of the pages of the tables (\<open>pp_refs\<close>, what \<^verbatim>\<open>pageref\<close> reads; \<^verbatim>\<open>pp_ref\<close> is a
  \<^verbatim>\<open>u_short\<close>), and the replies sent so far.  A reply that carries a page adds the mapping of its
  receiver to the count of the page.  Both tables use the same descriptor pages.

  A pointer that the code leaves unset is \<^const>\<open>None\<close>, and so is a handler that goes through one.
\<close>

section \<open>State\<close>

record Open =
  o_file :: u32
  o_fileid :: u32
  o_mode :: u32
  o_ff :: u32

type_synonym Fat32_Open = Open

datatype reply = Reply (rp_env: u32) (rp_val: u32) (rp_va: u32) (rp_perm: u32)

record serv_state =
  sfs :: fat_state
  opentab :: "nat \<Rightarrow> Open"
  fat_opentab :: "nat \<Rightarrow> Fat32_Open"
  pp_refs :: "nat \<Rightarrow> u16"
  replies :: "reply list"

abbreviation (input) MAXOPEN :: nat where "MAXOPEN \<equiv> 1024"
abbreviation (input) FILEVA :: u32 where "FILEVA \<equiv> 0x60000000"
abbreviation (input) REQVA :: u32 where "REQVA \<equiv> 0x0ffff000"
abbreviation (input) MAXPATHLEN :: u32 where "MAXPATHLEN \<equiv> 1024"
abbreviation (input) dev_file_id :: u32 where "dev_file_id \<equiv> 0x66"

text \<open>The members of the request structures (\<^verbatim>\<open>fsreq.h\<close>) and of \<^verbatim>\<open>struct Filefd\<close> and
  \<^verbatim>\<open>struct Fat32_Filefd\<close> (\<^verbatim>\<open>fd.h\<close>).\<close>

abbreviation (input) f_fd_dev_id :: "u32 \<Rightarrow> u32" where "f_fd_dev_id ff \<equiv> ff"
abbreviation (input) f_fd_omode :: "u32 \<Rightarrow> u32" where "f_fd_omode ff \<equiv> ff + 8"
abbreviation (input) f_fd_fat :: "u32 \<Rightarrow> u32" where "f_fd_fat ff \<equiv> ff + 12"
abbreviation (input) f_fileid :: "u32 \<Rightarrow> u32" where "f_fileid ff \<equiv> ff + 16"
abbreviation (input) f_file :: "u32 \<Rightarrow> u32" where "f_file ff \<equiv> ff + 20"

text \<open>A C string of the server's memory: the bytes up to the terminating zero.\<close>

partial_function (option) ustr :: "u32 \<Rightarrow> ('z) fsst_scheme \<Rightarrow> u8 list option" where
  "ustr va s = Option.bind (uld va s) (\<lambda>b.
     if b = 0 then Some [] else Option.bind (ustr (va + 1) s) (\<lambda>bs. Some (b # bs)))"

text \<open>\<^verbatim>\<open>ipc_send\<close> returns once the receiver has taken the message.\<close>

definition reply_to :: "u32 \<Rightarrow> u32 \<Rightarrow> u32 \<Rightarrow> u32 \<Rightarrow> serv_state \<Rightarrow> serv_state" where
  "reply_to envid r srcva perm s = s\<lparr>
     replies := replies s @ [Reply envid r srcva perm],
     pp_refs := (if srcva = 0 then pp_refs s
       else (pp_refs s)(upage srcva := pp_refs s (upage srcva) + 1))\<rparr>"

abbreviation reply_err :: "u32 \<Rightarrow> err \<Rightarrow> serv_state \<Rightarrow> serv_state" where
  "reply_err envid e \<equiv> reply_to envid (ret_word (Inl e)) 0 0"

abbreviation reply_ok :: "u32 \<Rightarrow> serv_state \<Rightarrow> serv_state" where
  "reply_ok envid \<equiv> reply_to envid 0 0 0"

definition pageref :: "u32 \<Rightarrow> serv_state \<Rightarrow> nat" where
  "pageref v s = (if va_is_mapped v (sfs s) then unat (pp_refs s (upage v)) else 0)"

section \<open>The tables of open files\<close>

definition serve_init :: "serv_state \<Rightarrow> serv_state" where
  "serve_init s = s\<lparr>
     opentab := (\<lambda>i. if i < MAXOPEN then (opentab s i)\<lparr>o_fileid := of_nat i, o_ff := FILEVA + of_nat i * BY2PG\<rparr>
       else opentab s i),
     fat_opentab := (\<lambda>i. if i < MAXOPEN then (fat_opentab s i)\<lparr>o_fileid := of_nat i, o_ff := FILEVA + of_nat i * BY2PG\<rparr>
       else fat_opentab s i)\<rparr>"

text \<open>The two tables and their functions are twins; \<open>fat\<close> chooses the table.\<close>

definition otab :: "bool \<Rightarrow> serv_state \<Rightarrow> nat \<Rightarrow> Open" where
  "otab fat s = (if fat then fat_opentab s else opentab s)"

definition otab_put :: "bool \<Rightarrow> nat \<Rightarrow> Open \<Rightarrow> serv_state \<Rightarrow> serv_state" where
  "otab_put fat i e s =
     (if fat then s\<lparr>fat_opentab := (fat_opentab s)(i := e)\<rparr> else s\<lparr>opentab := (opentab s)(i := e)\<rparr>)"

text \<open>The result of the allocators: the returned number and the pointer they store, if they do.\<close>

definition open_take :: "bool \<Rightarrow> nat \<Rightarrow> serv_state \<Rightarrow> ((u32 \<times> nat option) \<times> serv_state) option" where
  "open_take fat i s = (let e = otab fat s i; e' = e\<lparr>o_fileid := o_fileid e + of_nat MAXOPEN\<rparr> in do {
     f \<leftarrow> ufill (o_ff e) 0 4096 (sfs s);
     Some ((o_fileid e', Some i), (otab_put fat i e' s)\<lparr>sfs := f\<rparr>) })"

fun open_scan :: "bool \<Rightarrow> nat list \<Rightarrow> serv_state \<Rightarrow> ((u32 \<times> nat option) \<times> serv_state) option" where
  "open_scan fat [] s = Some ((ret_word (Inl E_MAX_OPEN), None), s)"
| "open_scan fat (i # is) s = (let ff = o_ff (otab fat s i) in
     if pageref ff s = 0 then
       (case syscall_mem_alloc ff (PTE_D OR PTE_LIBRARY) (sfs s) of
          (Inl e, f) \<Rightarrow> Some ((ret_word (Inl e), None), s\<lparr>sfs := f\<rparr>)
        | (Inr _, f) \<Rightarrow> open_take fat i (s\<lparr>sfs := f, pp_refs := (pp_refs s)(upage ff := 1)\<rparr>))
     else if pageref ff s = 1 then open_take fat i s
     else open_scan fat is s)"

definition open_alloc :: "serv_state \<Rightarrow> ((u32 \<times> nat option) \<times> serv_state) option" where
  "open_alloc = open_scan False [0..<MAXOPEN]"

definition fat_open_alloc :: "serv_state \<Rightarrow> ((u32 \<times> nat option) \<times> serv_state) option" where
  "fat_open_alloc = open_scan True [0..<MAXOPEN]"

definition open_find :: "bool \<Rightarrow> u32 \<Rightarrow> serv_state \<Rightarrow> err + nat" where
  "open_find fat fileid s = (let i = unat fileid mod MAXOPEN; e = otab fat s i in
     if pageref (o_ff e) s = 1 \<or> o_fileid e \<noteq> fileid then Inl E_INVAL else Inr i)"

definition open_lookup :: "u32 \<Rightarrow> u32 \<Rightarrow> serv_state \<Rightarrow> err + nat" where
  "open_lookup envid fileid s = open_find False fileid s"

definition fat_open_lookup :: "u32 \<Rightarrow> u32 \<Rightarrow> serv_state \<Rightarrow> err + nat" where
  "fat_open_lookup envid fileid s = open_find True fileid s"

section \<open>Handlers\<close>

text \<open>A handler whose operation failed sends the error, otherwise it goes on.\<close>

definition or_reply :: "u32 \<Rightarrow> ((err + 'a) \<times> fat_state) option \<Rightarrow> ('a \<Rightarrow> serv_state \<Rightarrow> serv_state option) \<Rightarrow>
    serv_state \<Rightarrow> serv_state option" where
  "or_reply envid m k s = do {
     (r, f) \<leftarrow> m;
     case r of Inl e \<Rightarrow> Some (reply_err envid e (s\<lparr>sfs := f\<rparr>)) | Inr x \<Rightarrow> k x (s\<lparr>sfs := f\<rparr>) }"

definition with_open :: "bool \<Rightarrow> u32 \<Rightarrow> u32 \<Rightarrow> (nat \<Rightarrow> serv_state \<Rightarrow> serv_state option) \<Rightarrow>
    serv_state \<Rightarrow> serv_state option" where
  "with_open fat envid fileid k s =
     (case (if fat then fat_open_lookup envid fileid s else open_lookup envid fileid s) of
        Inl e \<Rightarrow> Some (reply_err envid e s)
      | Inr i \<Rightarrow> k i s)"

text \<open>The end of the three open handlers: the entry and the descriptor page are filled, the page is
  sent.  \<open>n\<close> is the size of the file's structure.\<close>

definition fill_open :: "bool \<Rightarrow> nat \<Rightarrow> u32 \<Rightarrow> u32 \<Rightarrow> nat option \<Rightarrow> u32 \<Rightarrow> serv_state \<Rightarrow> serv_state option" where
  "fill_open fat n envid omode po file s = do {
     i \<leftarrow> po;
     let e = (otab fat s i)\<lparr>o_file := file, o_mode := omode\<rparr>;
     let ff = o_ff e;
     f1 \<leftarrow> ucopy (f_file ff) file n (sfs s);
     f2 \<leftarrow> ustw (f_fileid ff) (o_fileid e) f1;
     f3 \<leftarrow> ustw (f_fd_omode ff) omode f2;
     f4 \<leftarrow> ustw (f_fd_dev_id ff) dev_file_id f3;
     f5 \<leftarrow> ustw (f_fd_fat ff) (if fat then 1 else 0) f4;
     Some (reply_to envid 0 ff (PTE_D OR PTE_LIBRARY) ((otab_put fat i e s)\<lparr>sfs := f5\<rparr>)) }"

text \<open>After a failed allocation the open handlers send the error and go on.\<close>

definition after_alloc :: "u32 \<Rightarrow> u32 \<Rightarrow> serv_state \<Rightarrow> serv_state" where
  "after_alloc envid r s = (if sint r < 0 then reply_to envid r 0 0 s else s)"

definition serve_open :: "u32 \<Rightarrow> u32 \<Rightarrow> serv_state \<Rightarrow> serv_state option" where
  "serve_open envid rq s = do {
     ((r, po), s1) \<leftarrow> open_alloc s;
     let s2 = after_alloc envid r s1;
     path \<leftarrow> ustr rq (sfs s2);
     omode \<leftarrow> uldw (rq + MAXPATHLEN) (sfs s2);
     or_reply envid (file_open path (sfs s2)) (fill_open False 256 envid omode po) s2 }"

definition serve_open_Fat32 :: "u32 \<Rightarrow> u32 \<Rightarrow> serv_state \<Rightarrow> serv_state option" where
  "serve_open_Fat32 envid rq s = do {
     ((r, po), s1) \<leftarrow> fat_open_alloc s;
     let s2 = after_alloc envid r s1;
     path \<leftarrow> ustr rq (sfs s2);
     omode \<leftarrow> uldw (rq + MAXPATHLEN) (sfs s2);
     or_reply envid (fat_file_open path omode (sfs s2)) (fill_open True 32 envid omode po) s2 }"

definition serve_map :: "u32 \<Rightarrow> u32 \<Rightarrow> serv_state \<Rightarrow> serv_state option" where
  "serve_map envid rq s = do {
     fileid \<leftarrow> uldw rq (sfs s);
     offset \<leftarrow> uldw (rq + 4) (sfs s);
     with_open False envid fileid (\<lambda>i s. 
       or_reply envid (file_get_block (o_file (opentab s i)) (offset div BY2PG) (sfs s)) (\<lambda>blk s.
         Some (reply_to envid 0 blk (PTE_D OR PTE_LIBRARY) s)) s) s }"

text \<open>The macro \<^verbatim>\<open>BY2CLUS\<close> reads the local variable \<^verbatim>\<open>SECT2CLUS\<close>; a division by zero traps.\<close>

definition serve_map_Fat32 :: "u32 \<Rightarrow> u32 \<Rightarrow> serv_state \<Rightarrow> serv_state option" where
  "serve_map_Fat32 envid rq s = do {
     fileid \<leftarrow> uldw rq (sfs s);
     offset \<leftarrow> uldw (rq + 4) (sfs s);
     with_open True envid fileid (\<lambda>i s.
       let sect2clus = fat_get_clus (sfs s) div 512; by2clus = 512 * sect2clus
       in if by2clus = 0 then None
          else or_reply envid (fat_file_get_cluster (o_file (fat_opentab s i)) (offset div by2clus) (sfs s)) (\<lambda>buf s.
            Some (reply_to envid 0 buf (PTE_D OR PTE_LIBRARY) s)) s) s }"

definition serve_set_size :: "u32 \<Rightarrow> u32 \<Rightarrow> serv_state \<Rightarrow> serv_state option" where
  "serve_set_size envid rq s = do {
     fileid \<leftarrow> uldw rq (sfs s);
     sz \<leftarrow> uldw (rq + 4) (sfs s);
     with_open False envid fileid (\<lambda>i s. do {
       f \<leftarrow> file_set_size (o_file (opentab s i)) sz (sfs s);
       Some (reply_ok envid (s\<lparr>sfs := f\<rparr>)) }) s }"

definition serve_set_size_Fat32 :: "u32 \<Rightarrow> u32 \<Rightarrow> serv_state \<Rightarrow> serv_state option" where
  "serve_set_size_Fat32 envid rq s = do {
     fileid \<leftarrow> uldw rq (sfs s);
     sz \<leftarrow> uldw (rq + 4) (sfs s);
     with_open True envid fileid (\<lambda>i s. do {
       f \<leftarrow> fat_file_set_size (o_file (fat_opentab s i)) sz (sfs s);
       Some (reply_ok envid (s\<lparr>sfs := f\<rparr>)) }) s }"

definition serve_close :: "u32 \<Rightarrow> u32 \<Rightarrow> serv_state \<Rightarrow> serv_state option" where
  "serve_close envid rq s = do {
     fileid \<leftarrow> uldw rq (sfs s);
     with_open False envid fileid (\<lambda>i s. do {
       f \<leftarrow> file_close (o_file (opentab s i)) (sfs s);
       Some (reply_ok envid (s\<lparr>sfs := f\<rparr>)) }) s }"

text \<open>\<^verbatim>\<open>serve_close_Fat32\<close> does not return after it sent the error of the lookup and goes through
  the pointer that was not set.\<close>

definition serve_close_Fat32 :: "u32 \<Rightarrow> u32 \<Rightarrow> serv_state \<Rightarrow> serv_state option" where
  "serve_close_Fat32 envid rq s = do {
     fileid \<leftarrow> uldw rq (sfs s);
     case fat_open_lookup envid fileid s of
       Inl e \<Rightarrow> None
     | Inr i \<Rightarrow> do {
         f \<leftarrow> fat_file_close (o_file (fat_opentab s i)) (sfs s);
         Some (reply_ok envid (s\<lparr>sfs := f\<rparr>)) } }"

definition serve_remove :: "u32 \<Rightarrow> u32 \<Rightarrow> serv_state \<Rightarrow> serv_state option" where
  "serve_remove envid rq s = do {
     path \<leftarrow> ustr rq (sfs s);
     or_reply envid (file_remove path (sfs s)) (\<lambda>_ s. Some (reply_ok envid s)) s }"

definition serve_remove_Fat32 :: "u32 \<Rightarrow> u32 \<Rightarrow> serv_state \<Rightarrow> serv_state option" where
  "serve_remove_Fat32 envid rq s = do {
     path \<leftarrow> ustr rq (sfs s);
     or_reply envid (fat_file_remove path (sfs s)) (\<lambda>_ s. Some (reply_ok envid s)) s }"

definition serve_removeat_Fat32 :: "u32 \<Rightarrow> u32 \<Rightarrow> serv_state \<Rightarrow> serv_state option" where
  "serve_removeat_Fat32 envid rq s = do {
     dir_fileid \<leftarrow> uldw rq (sfs s);
     with_open True envid (dir_fileid + of_nat MAXOPEN) (\<lambda>i s. do {
       path \<leftarrow> ustr (rq + 4) (sfs s);
       or_reply envid (fat_file_removeat (o_file (fat_opentab s i)) path (sfs s)) (\<lambda>_ s.
         Some (reply_ok envid s)) s }) s }"

definition serve_dirty :: "u32 \<Rightarrow> u32 \<Rightarrow> serv_state \<Rightarrow> serv_state option" where
  "serve_dirty envid rq s = do {
     fileid \<leftarrow> uldw rq (sfs s);
     offset \<leftarrow> uldw (rq + 4) (sfs s);
     with_open False envid fileid (\<lambda>i s.
       or_reply envid (file_dirty (o_file (opentab s i)) offset (sfs s)) (\<lambda>_ s. Some (reply_ok envid s)) s) s }"

text \<open>\<^verbatim>\<open>serve_dirty_Fat32\<close> sends a second message after an error.\<close>

definition serve_dirty_Fat32 :: "u32 \<Rightarrow> u32 \<Rightarrow> serv_state \<Rightarrow> serv_state option" where
  "serve_dirty_Fat32 envid rq s = do {
     fileid \<leftarrow> uldw rq (sfs s);
     offset \<leftarrow> uldw (rq + 4) (sfs s);
     with_open True envid fileid (\<lambda>i s. do {
       (r, f) \<leftarrow> fat_file_dirty (o_file (fat_opentab s i)) offset (sfs s);
       let s1 = s\<lparr>sfs := f\<rparr>;
       Some (reply_ok envid (case r of Inl e \<Rightarrow> reply_err envid e s1 | Inr _ \<Rightarrow> s1)) }) s }"

definition serve_flush_Fat32 :: "u32 \<Rightarrow> u32 \<Rightarrow> serv_state \<Rightarrow> serv_state option" where
  "serve_flush_Fat32 envid rq s = do {
     fileid \<leftarrow> uldw rq (sfs s);
     offset \<leftarrow> uldw (rq + 4) (sfs s);
     len \<leftarrow> uldw (rq + 8) (sfs s);
     with_open True envid fileid (\<lambda>i s. do {
       content \<leftarrow> uld_list (rq + 12) (unat len) (sfs s);
       or_reply envid (fat_file_writeBack (o_file (fat_opentab s i)) offset content (sfs s)) (\<lambda>_ s.
         Some (reply_ok envid s)) s }) s }"

definition serve_sync :: "u32 \<Rightarrow> serv_state \<Rightarrow> serv_state option" where
  "serve_sync envid s = do {
     f1 \<leftarrow> fs_sync (sfs s);
     f2 \<leftarrow> fat_fs_sync f1;
     Some (reply_ok envid (s\<lparr>sfs := f2\<rparr>)) }"

definition serve_openat_Fat32 :: "u32 \<Rightarrow> u32 \<Rightarrow> serv_state \<Rightarrow> serv_state option" where
  "serve_openat_Fat32 envid rq s = do {
     ((r, po), s1) \<leftarrow> fat_open_alloc s;
     let s2 = after_alloc envid r s1;
     dir_fileid \<leftarrow> uldw rq (sfs s2);
     with_open True envid dir_fileid (\<lambda>i s. do {
       path \<leftarrow> ustr (rq + 4) (sfs s);
       omode \<leftarrow> uldw (rq + 4 + MAXPATHLEN) (sfs s);
       or_reply envid (fat_file_openat (o_file (fat_opentab s i)) path omode (sfs s))
         (fill_open True 32 envid omode po) s }) s2 }"

definition serve_BPB :: "u32 \<Rightarrow> serv_state \<Rightarrow> serv_state option" where
  "serve_BPB envid s = Some (reply_to envid (fat_get_clus (sfs s)) 0 0 s)"

section \<open>The loop\<close>

definition dispatch :: "u32 \<Rightarrow> u32 \<Rightarrow> serv_state \<Rightarrow> serv_state option" where
  "dispatch req whom s =
    (if req = 0x10001 then serve_open_Fat32 whom REQVA s
     else if req = 0x10002 then serve_map_Fat32 whom REQVA s
     else if req = 0x10005 then serve_dirty_Fat32 whom REQVA s
     else if req = 0x10004 then serve_close_Fat32 whom REQVA s
     else if req = 0x10003 then serve_set_size_Fat32 whom REQVA s
     else if req = 8 then serve_flush_Fat32 whom REQVA s
     else if req = 0x10006 then serve_remove_Fat32 whom REQVA s
     else if req = 9 then serve_openat_Fat32 whom REQVA s
     else if req = 10 then serve_removeat_Fat32 whom REQVA s
     else if req = 11 then serve_BPB whom s
     else if req = 1 then serve_open whom REQVA s
     else if req = 2 then serve_map whom REQVA s
     else if req = 3 then serve_set_size whom REQVA s
     else if req = 4 then serve_close whom REQVA s
     else if req = 5 then serve_dirty whom REQVA s
     else if req = 6 then serve_remove whom REQVA s
     else if req = 7 then serve_sync whom s
     else Some s)"

text \<open>A message as \<^verbatim>\<open>ipc_recv(&whom, REQVA, &perm)\<close> delivers it: when the sender gave a page the
  kernel has mapped it at \<^verbatim>\<open>REQVA\<close>, and \<open>m_page\<close> is its content.\<close>

record message =
  m_req :: u32
  m_whom :: u32
  m_perm :: u32
  m_page :: "(u32 \<Rightarrow> u8) option"

definition deliver :: "message \<Rightarrow> serv_state \<Rightarrow> serv_state" where
  "deliver m s = (case m_page m of None \<Rightarrow> s | Some pg \<Rightarrow> s\<lparr>sfs := (sfs s)\<lparr>
     uperm := (uperm (sfs s))(upage REQVA := m_perm m OR PTE_V),
     umem := (\<lambda>a. if upage a = upage REQVA then pg a else umem (sfs s) a)\<rparr>\<rparr>)"

text \<open>One turn of the endless loop of \<^verbatim>\<open>serve\<close>.\<close>

definition serve :: "message \<Rightarrow> serv_state \<Rightarrow> serv_state option" where
  "serve m s =
    (if m_perm m AND PTE_V = 0 then Some (deliver m s)
     else do {
       s1 \<leftarrow> dispatch (m_req m) (m_whom m) (deliver m s);
       Some (s1\<lparr>sfs := snd (syscall_mem_unmap REQVA (sfs s1))\<rparr>) })"

definition serv_main :: "serv_state \<Rightarrow> serv_state option" where
  "serv_main s = (let s1 = serve_init s in do {
     f1 \<leftarrow> fs_init (sfs s1);
     f2 \<leftarrow> fat32_init f1;
     Some (s1\<lparr>sfs := f2\<rparr>) })"

end
