(* ===== verification/Fat_Table.thy ===== *)
theory Fat_Table
  imports Fat Fs_Io Alloc
begin

text \<open>
  Properties of the allocation table of \<^verbatim>\<open>fs/fatfs.c\<close>: the bookkeeping of the FSInfo sector (number
  of free clusters, next free cluster) is established at start up and kept by allocation and
  release, and the table meets the contract of an allocator that keeps one unit back.
\<close>

section \<open>The layout of a mounted volume\<close>

definition entry_addr :: "fat_state \<Rightarrow> nat \<Rightarrow> u32" where
  "entry_addr s d = FAT1 s + of_nat (4 * d)"

definition fat_entry :: "fat_state \<Rightarrow> nat \<Rightarrow> u32" where
  "fat_entry s d = word_at (umem s) (entry_addr s d)"

text \<open>The table has \<open>N\<close> entries in the cache, behind the FSInfo sector; a page holds whole clusters.\<close>

definition fat_ok :: "nat \<Rightarrow> fat_state \<Rightarrow> bool" where
  "fat_ok N s \<longleftrightarrow> 8 mod unat (SECT2CLUS s) = 0 \<and> disk_ok s \<and> FAT1 s = FATDISKMAP + FAT1_ClusNo s * BY2CLUS s \<and>
     1024 \<le> unat (FAT1_ClusNo s) * (512 * unat (SECT2CLUS s)) \<and>
     unat (FAT1_ClusNo s) * (512 * unat (SECT2CLUS s)) + 4 * N \<le> 134217728 \<and>
     fs_info s = FATDISKMAP + 512 \<and> writable FATDISKMAP s \<and> (\<forall>d < N. writable (entry_addr s d) s) \<and>
     RootClus (fat_super s) = 2 \<and> rootClus s \<le> TotClus (fat_super s) \<and>
     N = unat (TotClus (fat_super s) - rootClus s) \<and>
     unat (TotClus (fat_super s)) * unat (SECT2CLUS s) < 4294967296"

lemma fat_more:
  assumes "fsst.more s' = fsst.more (s :: fat_state)"
  shows "SECT2CLUS s' = SECT2CLUS s" "FAT1 s' = FAT1 s" "FAT1_ClusNo s' = FAT1_ClusNo s" "fs_info s' = fs_info s"
    "fat_super s' = fat_super s"
  using assms by (cases s; cases s'; simp)+

lemma fat_ok_keep:
  assumes "fat_ok N s" and "fsst.more s' = fsst.more s" and "uperm s' = uperm s" and "disk_ok s'"
  shows "fat_ok N s'" and "entry_addr s' = entry_addr s" and "rootClus s' = rootClus s"
proof -
  note m = fat_more [OF assms(2)]
  show e: "entry_addr s' = entry_addr s" and r: "rootClus s' = rootClus s"
    by (simp_all add: entry_addr_def [abs_def] rootClus_def rootSec_def m)
  have "writable a s' = writable a s" for a by (simp add: writable_def va_is_mapped_def assms(3))
  then show "fat_ok N s'" using assms(1,4) by (simp add: fat_ok_def m e r BY2CLUS_def)
qed

lemma sect_le:
  assumes "fat_ok N s"
  shows "0 < unat (SECT2CLUS s)" "unat (SECT2CLUS s) \<le> 8" "unat (BY2CLUS s) = 512 * unat (SECT2CLUS s)"
proof -
  have "8 mod unat (SECT2CLUS s) = 0" using assms by (simp add: fat_ok_def)
  then have "unat (SECT2CLUS s) dvd 8" by presburger
  then show l: "unat (SECT2CLUS s) \<le> 8" by (rule dvd_imp_le) simp
  show "0 < unat (SECT2CLUS s)" using \<open>8 mod unat (SECT2CLUS s) = 0\<close> by (cases "unat (SECT2CLUS s)") auto
  show "unat (BY2CLUS s) = 512 * unat (SECT2CLUS s)" using l by (simp add: BY2CLUS_def unat_word_ariths)
qed

lemma fat_base:
  assumes "fat_ok N s"
  shows "unat (FAT1_ClusNo s * BY2CLUS s) = unat (FAT1_ClusNo s) * (512 * unat (SECT2CLUS s))"
    and "unat (FAT1 s) = 1342177280 + unat (FAT1_ClusNo s) * (512 * unat (SECT2CLUS s))"
proof -
  have b: "unat (FAT1_ClusNo s) * (512 * unat (SECT2CLUS s)) \<le> 134217728" using assms by (simp add: fat_ok_def)
  then show e: "unat (FAT1_ClusNo s * BY2CLUS s) = unat (FAT1_ClusNo s) * (512 * unat (SECT2CLUS s))"
    using sect_le(3) [OF assms] by (simp add: unat_word_ariths)
  have "FAT1 s = FATDISKMAP + FAT1_ClusNo s * BY2CLUS s" using assms by (simp add: fat_ok_def)
  then show "unat (FAT1 s) = 1342177280 + unat (FAT1_ClusNo s) * (512 * unat (SECT2CLUS s))"
    using e b by (simp add: unat_word_ariths)
qed

text \<open>The entries are aligned, apart from each other, and behind the FSInfo sector.\<close>

lemma entry_nat:
  assumes "fat_ok N s" and "d < N"
  shows "unat (entry_addr s d) = unat (FAT1 s) + 4 * d" and "unat (entry_addr s d) mod 4 = 0"
    and "1342178304 \<le> unat (entry_addr s d)" and "d < 33554432"
proof -
  have b: "1024 \<le> unat (FAT1_ClusNo s) * (512 * unat (SECT2CLUS s))"
    "unat (FAT1_ClusNo s) * (512 * unat (SECT2CLUS s)) + 4 * N \<le> 134217728" using assms(1) by (simp_all add: fat_ok_def)
  then show d: "d < 33554432" using assms(2) by simp
  show u: "unat (entry_addr s d) = unat (FAT1 s) + 4 * d"
    using b d assms(2) fat_base(2) [OF assms(1)]
    by (simp add: entry_addr_def unat_word_ariths unsigned_of_nat take_bit_nat_eq_self del: of_nat_mult)
  have "unat (FAT1 s) = 4 * (335544320 + 128 * (unat (FAT1_ClusNo s) * unat (SECT2CLUS s)))"
    using fat_base(2) [OF assms(1)] by simp
  then have "unat (entry_addr s d) = 4 * (335544320 + 128 * (unat (FAT1_ClusNo s) * unat (SECT2CLUS s)) + d)"
    using u by simp
  then show "unat (entry_addr s d) mod 4 = 0" by (metis mod_mult_self1_is_0)
  show "1342178304 \<le> unat (entry_addr s d)" using u b fat_base(2) [OF assms(1)] by simp
qed

lemma entry_inj:
  assumes "fat_ok N s" and "d < N" and "e < N"
  shows "entry_addr s d = entry_addr s e \<longleftrightarrow> d = e"
proof
  assume "entry_addr s d = entry_addr s e"
  from arg_cong [OF this, of unat] show "d = e"
    unfolding entry_nat(1) [OF assms(1,2)] entry_nat(1) [OF assms(1,3)] by simp
qed simp

lemma fat_access:
  assumes "fat_ok N s" and "d < N"
  shows "fat_ld (of_nat d) s = Some (fat_entry s d)"
    and "fat_st (of_nat d) v s = Some (s\<lparr>umem := put_word (entry_addr s d) v (umem s)\<rparr>)"
proof -
  have w: "writable (entry_addr s d) s" using assms by (simp add: fat_ok_def)
  moreover have "FAT1 s + of_nat d * 4 = entry_addr s d" by (simp add: entry_addr_def mult.commute)
  ultimately show "fat_ld (of_nat d) s = Some (fat_entry s d)"
    "fat_st (of_nat d) v s = Some (s\<lparr>umem := put_word (entry_addr s d) v (umem s)\<rparr>)"
    using entry_nat(2) [OF assms] by (simp_all add: fat_ld_def fat_st_def uldw_def ustw_def fat_entry_def writable_def)
qed

section \<open>The counters of the FSInfo sector\<close>

abbreviation (input) FC :: u32 where "FC \<equiv> 0x500003e8"
abbreviation (input) NF :: u32 where "NF \<equiv> 0x500003ec"

lemma info_access:
  assumes "fat_ok N s" and "a = FC \<or> a = NF"
  shows "uldw a s = Some (word_at (umem s) a)" and "ustw a v s = Some (s\<lparr>umem := put_word a v (umem s)\<rparr>)"
proof -
  have "writable FATDISKMAP s" using assms(1) by (simp add: fat_ok_def)
  then have "writable a s" using assms(2) by (auto simp: writable_def va_is_mapped_def upage_def)
  then show "uldw a s = Some (word_at (umem s) a)" "ustw a v s = Some (s\<lparr>umem := put_word a v (umem s)\<rparr>)"
    using assms(2) by (auto simp: uldw_def ustw_def writable_def)
qed

lemma info_addr:
  assumes "fat_ok N s"
  shows "FSI_FreeCount s = FC" "FSI_NxtFree s = NF" "fs_info s \<noteq> 0" "FAT1 s \<noteq> 0"
proof -
  have "fs_info s = FATDISKMAP + 512" using assms by (simp add: fat_ok_def)
  then show "FSI_FreeCount s = FC" "FSI_NxtFree s = NF" "fs_info s \<noteq> 0" by simp_all
  have "unat (FAT1 s) \<noteq> 0" using fat_base(2) [OF assms] by simp
  then show "FAT1 s \<noteq> 0" by (metis unat_0)
qed

text \<open>Words of the table and counters do not overlap.\<close>

lemma entry_info_apart: "fat_ok N s \<Longrightarrow> d < N \<Longrightarrow> entry_addr s d \<noteq> FC \<and> entry_addr s d \<noteq> NF"
  using entry_nat(3) [of N s d] by auto

lemma put_info:
  assumes "fat_ok N s" and "a = FC \<or> a = NF"
  shows "d < N \<Longrightarrow> word_at (put_word a v m) (entry_addr s d) = word_at m (entry_addr s d)"
    and "word_at (put_word FC v m) NF = word_at m NF" and "word_at (put_word NF v m) FC = word_at m FC"
proof -
  show "word_at (put_word a v m) (entry_addr s d) = word_at m (entry_addr s d)" if d: "d < N"
  proof (rule word_at_put_other)
    show "unat a mod 4 = 0" using assms(2) by auto
    show "unat (entry_addr s d) mod 4 = 0" by (rule entry_nat(2) [OF assms(1) d])
    show "a \<noteq> entry_addr s d" using entry_info_apart [OF assms(1) d] assms(2) by auto
  qed
qed (rule word_at_put_other; simp)+

lemma put_entry:
  assumes "fat_ok N s" and "d < N"
  shows "e < N \<Longrightarrow> word_at (put_word (entry_addr s d) v m) (entry_addr s e) = (if e = d then v else word_at m (entry_addr s e))"
    and "word_at (put_word (entry_addr s d) v m) FC = word_at m FC"
    and "word_at (put_word (entry_addr s d) v m) NF = word_at m NF"
proof -
  note a = entry_nat(2) [OF assms(1)]
  show "word_at (put_word (entry_addr s d) v m) (entry_addr s e) = (if e = d then v else word_at m (entry_addr s e))"
    if "e < N" using entry_inj [OF assms that] a [OF assms(2)] a [OF that] by auto
  show "word_at (put_word (entry_addr s d) v m) FC = word_at m FC"
    "word_at (put_word (entry_addr s d) v m) NF = word_at m NF"
    using entry_info_apart [OF assms] a [OF assms(2)] by (simp_all add: word_at_put_other)
qed

section \<open>Writing the table through\<close>

text \<open>The cluster of the disk that holds an entry.\<close>

definition entry_pos :: "fat_state \<Rightarrow> nat \<Rightarrow> nat" where
  "entry_pos s d = unat (FAT1_ClusNo s) * (512 * unat (SECT2CLUS s)) + 4 * d"

definition entry_on_disk :: "fat_state \<Rightarrow> nat \<Rightarrow> bool" where
  "entry_on_disk s d \<longleftrightarrow> (\<forall>i < 4. disks s 1 (entry_pos s d + i) = umem s (entry_addr s d + of_nat i))"

lemma same_page:
  fixes B m q :: nat
  assumes "B * m = 4096" and "i < B"
  shows "(B * q + i) div 4096 = q div m"
  unfolding assms(1) [symmetric] div_mult2_eq using assms(2) by simp

lemma quad_fits: "r mod 4 = 0 \<Longrightarrow> r < n \<Longrightarrow> n mod 4 = 0 \<Longrightarrow> r + 4 \<le> (n :: nat)"
  by presburger

lemma fat_cluster:
  assumes ok: "fat_ok N s" and d: "d < N"
  defines "B \<equiv> 512 * unat (SECT2CLUS s)" and "q \<equiv> FAT1_ClusNo s + of_nat d * 4 div BY2CLUS s"
  shows "unat q = unat (FAT1_ClusNo s) + 4 * d div B" and "unat q * B \<le> entry_pos s d"
    and "entry_pos s d + 4 \<le> unat q * B + B" and "unat q * B < 134217728"
proof -
  have p: "0 < B" "B mod 4 = 0" using sect_le(1) [OF ok] by (simp_all add: B_def mod_simps)
  have b: "unat (FAT1_ClusNo s) * B + 4 * N \<le> 134217728" using ok by (simp add: fat_ok_def B_def)
  have u4: "unat (of_nat d * 4 :: u32) = 4 * d"
    using entry_nat(4) [OF ok d] by (simp add: unat_word_ariths unsigned_of_nat take_bit_nat_eq_self)
  have dv: "unat (of_nat d * 4 div BY2CLUS s) = 4 * d div B"
    using sect_le(3) [OF ok] u4 by (simp add: unat_div_distrib B_def)
  have "unat (FAT1_ClusNo s) * 1 \<le> unat (FAT1_ClusNo s) * B" using p(1) by (intro mult_le_mono2) simp
  moreover have "4 * d div B \<le> 4 * d" by (rule div_le_dividend)
  ultimately have "unat (FAT1_ClusNo s) + 4 * d div B < 4294967296" using b d by linarith
  then show q: "unat q = unat (FAT1_ClusNo s) + 4 * d div B"
    unfolding q_def using dv by (simp add: unat_word_ariths)
  have e: "entry_pos s d = unat q * B + 4 * d mod B"
    using q div_mult_mod_eq [of "4 * d" B] by (simp add: entry_pos_def B_def algebra_simps)
  then show l: "unat q * B \<le> entry_pos s d" by simp
  have m: "4 * d mod B < B" using p(1) by simp
  have "4 * d mod B mod 4 = 0" using p(2) by (metis mod_mod_cancel mod_mult_self1_is_0 mod_0_imp_dvd)
  then have "4 * d mod B + 4 \<le> B" using m p(2) by (rule quad_fits)
  then show "entry_pos s d + 4 \<le> unat q * B + B" using e by simp
  show "unat q * B < 134217728" using l b d by (simp add: entry_pos_def B_def)
qed

lemma entry_pos_addr:
  assumes "fat_ok N s" and "d < N"
  shows "entry_addr s d = FATDISKMAP + of_nat (entry_pos s d)"
proof -
  have "unat (entry_addr s d) = 1342177280 + entry_pos s d"
    using entry_nat(1) [OF assms] fat_base(2) [OF assms(1)] by (simp add: entry_pos_def)
  then have "of_nat (unat (entry_addr s d)) = (of_nat (1342177280 + entry_pos s d) :: u32)" by simp
  then show ?thesis by simp
qed

text \<open>A cluster lies in one page.\<close>

lemma cluster_page:
  assumes ok: "fat_ok N s" and q: "unat q * (512 * unat (SECT2CLUS s)) < 134217728"
    and i: "i < 512 * unat (SECT2CLUS s)"
  shows "unat (FATDISKMAP + q * BY2CLUS s + of_nat i) = 1342177280 + unat q * (512 * unat (SECT2CLUS s)) + i"
    and "upage (FATDISKMAP + q * BY2CLUS s + of_nat i) = 327680 + unat q div (8 div unat (SECT2CLUS s))"
proof -
  let ?B = "512 * unat (SECT2CLUS s)"
  note k = sect_le [OF ok]
  have "unat (q * BY2CLUS s) = unat q * ?B" using q k(3) by (simp add: unat_word_ariths)
  then show u: "unat (FATDISKMAP + q * BY2CLUS s + of_nat i) = 1342177280 + unat q * ?B + i"
    using q i k(2) by (simp add: unat_word_ariths unsigned_of_nat take_bit_nat_eq_self)
  have "unat (SECT2CLUS s) dvd 8" using ok by (auto simp: fat_ok_def)
  then have "unat (SECT2CLUS s) * (8 div unat (SECT2CLUS s)) = 8" by (rule dvd_mult_div_cancel)
  then have m: "?B * (8 div unat (SECT2CLUS s)) = 4096" by simp
  have "1342177280 + unat q * ?B + i = (?B * unat q + i) + 327680 * 4096" by simp
  then have "(1342177280 + unat q * ?B + i) div 4096 = ((?B * unat q + i) + 327680 * 4096) div 4096" by (rule arg_cong)
  then show "upage (FATDISKMAP + q * BY2CLUS s + of_nat i) = 327680 + unat q div (8 div unat (SECT2CLUS s))"
    unfolding upage_def u using same_page [OF m i, of "unat q"] by simp
qed

lemma dirty_Fat_ok:
  assumes ok: "fat_ok N s" and d: "d < N"
  shows "\<exists>s' D. dirty_Fat (of_nat d) s = Some s' \<and> io_step (umem s) D s s' \<and> entry_on_disk s' d"
proof -
  let ?B = "512 * unat (SECT2CLUS s)" and ?k = "unat (SECT2CLUS s)"
  define q where "q = FAT1_ClusNo s + of_nat d * 4 div BY2CLUS s"
  define va where "va = FATDISKMAP + q * BY2CLUS s"
  note q = fat_cluster [OF ok d, folded q_def] and k = sect_le [OF ok]
  note pg = cluster_page [OF ok q(4), folded va_def]
  have uB: "unat (q * BY2CLUS s) = unat q * ?B" using q(4) k(3) by (simp add: unat_word_ariths)
  have va: "fat_diskaddr q s = Some va" using uB q(4) by (simp add: fat_diskaddr_def va_def word_le_nat_alt)
  define r where "r = entry_pos s d - unat q * ?B"
  have r: "r + 4 \<le> ?B" "entry_pos s d = unat q * ?B + r" using q(2,3) by (simp_all add: r_def)
  have "unat (entry_addr s d) = unat (va + of_nat r)"
    using pg(1) [of r] r entry_nat(1) [OF ok d] fat_base(2) [OF ok] by (simp add: entry_pos_def)
  then have ea: "entry_addr s d = va + of_nat r" by (simp only: word_unat_eq_iff)
  have "va_is_mapped (entry_addr s d) s" using ok d by (simp add: fat_ok_def writable_def)
  then have mp: "va_is_mapped (va + of_nat i) s" if "i < ?B" for i
    using pg(2) [OF that] pg(2) [of r] r(1) k(1) unfolding ea va_is_mapped_def by simp
  have sec: "unat (q * SECT2CLUS s) = unat q * ?k" using q(4) by (simp add: unat_word_ariths)
  have "\<exists>s'. ide_write 1 (q * SECT2CLUS s) va (of_nat ?k) s = Some s' \<and>
    io_step (umem s) ((disks s)(1 := img_upd (unat (q * SECT2CLUS s) * 512) (?k * 512) (\<lambda>i. umem s (va + of_nat i)) (disks s 1))) s s'"
  proof (rule ide_write_ok)
    show "disk_ok s" using ok by (simp add: fat_ok_def)
    show "unat (q * SECT2CLUS s) * 512 + ?k * 512 < 4294967296" using sec q(4) k(2) by simp
    show "\<forall>i < ?k * 512. va_is_mapped (va + of_nat i) s" using mp by (simp add: mult.commute)
  qed
  then obtain s' where s': "ide_write 1 (q * SECT2CLUS s) va (SECT2CLUS s) s = Some s'"
    "io_step (umem s) ((disks s)(1 := img_upd (unat q * ?B) ?B (\<lambda>i. umem s (va + of_nat i)) (disks s 1))) s s'"
    by (auto simp: sec mult.commute mult.left_commute mult.assoc)
  have "dirty_Fat (of_nat d) s = Some s'"
    using s'(1) va mp [of 0] k(1) by (simp add: dirty_Fat_def write_cluster_def q_def)
  moreover have "entry_on_disk s' d"
  proof -
    have "entry_pos s' d = unat q * ?B + r" "entry_addr s' d = va + of_nat r"
      using r(2) ea fat_more [OF io_stepD(8) [OF s'(2)]] by (simp_all add: entry_pos_def entry_addr_def)
    then show ?thesis using io_stepD(1,2) [OF s'(2)] r(1) by (simp add: entry_on_disk_def img_upd_def add.assoc)
  qed
  ultimately show ?thesis using s'(2) by blast
qed

section \<open>Free clusters\<close>

lemma data_clus_lt:
  assumes ok: "fat_ok N s" and d: "2 \<le> d" "d < N"
  shows "data_clus (of_nat d) s < TotClus (fat_super s)"
proof -
  let ?k = "unat (SECT2CLUS s)" and ?T = "unat (TotClus (fat_super s))"
  note k = sect_le [OF ok]
  define R where "R = unat (rootSec s)"
  have r: "unat (rootClus s) = R div ?k" by (simp add: rootClus_def unat_div_distrib R_def)
  have le: "rootClus s \<le> TotClus (fat_super s)" using ok by (simp add: fat_ok_def)
  then have N: "N = ?T - R div ?k" "R div ?k \<le> ?T" using ok r by (simp_all add: fat_ok_def unat_sub word_le_nat_alt)
  have T: "?T * ?k < 4294967296" using ok by (simp add: fat_ok_def)
  have "unat (of_nat d - 2 :: u32) = d - 2"
    using d entry_nat(4) [OF ok d(2)] by (simp add: unat_sub word_le_nat_alt unsigned_of_nat take_bit_nat_eq_self)
  moreover have lt: "(d - 2) + R div ?k + 1 \<le> ?T" using N d by simp
  have RR: "R < (R div ?k + 1) * ?k" using k(1) by (metis Suc_eq_plus1 dividend_less_div_times mult.commute mult_Suc add.commute)
  have b: "(d - 2) * ?k + R < ?T * ?k"
  proof -
    have "(d - 2) * ?k + R < (d - 2) * ?k + (R div ?k + 1) * ?k" using RR by simp
    also have "\<dots> = ((d - 2) + R div ?k + 1) * ?k" by (simp add: algebra_simps)
    also have "\<dots> \<le> ?T * ?k" using lt by (rule mult_le_mono1)
    finally show ?thesis .
  qed
  ultimately have "unat ((of_nat d - 2) * SECT2CLUS s + rootSec s) = (d - 2) * ?k + R"
    using T by (simp add: unat_word_ariths R_def)
  then have "unat (data_clus (of_nat d) s) = ((d - 2) * ?k + R) div ?k"
    by (simp add: data_clus_def rootSec_def unat_div_distrib add.assoc)
  also have "\<dots> = (d - 2) + R div ?k" using k(1) by simp
  finally show ?thesis using lt by (simp add: word_less_nat_alt)
qed

lemma is_free_eq:
  assumes ok: "fat_ok N s" and d: "2 \<le> d" "d < N"
  shows "fat_clus_is_free (of_nat d) s = Some (fat_entry s d = 0)"
proof -
  have "va_is_mapped FATDISKMAP s" using ok by (simp add: fat_ok_def writable_def)
  then have "fat_clus_is_mapped 0 s = Some FATDISKMAP" by (simp add: fat_clus_is_mapped_def fat_diskaddr_def)
  moreover have "\<not> (of_nat d :: u32) < 2"
    using d entry_nat(4) [OF ok d(2)] by (simp add: word_less_nat_alt unsigned_of_nat take_bit_nat_eq_self)
  ultimately show ?thesis
    using data_clus_lt [OF assms] fat_access(1) [OF ok d(2)] by (auto simp: fat_clus_is_free_def)
qed

lemma next_free_find:
  assumes ok: "fat_ok N s" and "\<forall>i \<in> set is. 2 \<le> i \<and> i < N"
  shows "next_free is s = (case find (\<lambda>d. fat_entry s d = 0) is of None \<Rightarrow> None
    | Some i \<Rightarrow> Some (s\<lparr>umem := put_word NF (of_nat i) (umem s)\<rparr>))"
  using assms(2)
  by (induction "is") (use is_free_eq [OF ok] info_addr [OF ok] info_access(2) [OF ok] in auto)

section \<open>The bookkeeping\<close>

definition free_set :: "nat \<Rightarrow> fat_state \<Rightarrow> nat set" where
  "free_set N s = {d. 2 \<le> d \<and> d < N \<and> fat_entry s d = 0}"

definition free_count :: "fat_state \<Rightarrow> u32" where "free_count s = word_at (umem s) FC"
definition nxt_free :: "fat_state \<Rightarrow> u32" where "nxt_free s = word_at (umem s) NF"

text \<open>The counter is the number of free clusters, and the hint is the first of them.\<close>

definition fat_books :: "nat \<Rightarrow> fat_state \<Rightarrow> nat set \<Rightarrow> bool" where
  "fat_books N s F \<longleftrightarrow> fat_ok N s \<and> F = free_set N s \<and> free_count s = of_nat (card F) \<and>
     (F \<noteq> {} \<longrightarrow> nxt_free s = of_nat (Min F))"

lemma free_set_bounds:
  assumes "fat_ok N s"
  shows "finite (free_set N s)" "free_set N s \<subseteq> {2..<N}" "card (free_set N s) < 33554432" "N \<le> 33554432"
proof -
  show s: "free_set N s \<subseteq> {2..<N}" by (auto simp: free_set_def)
  then show "finite (free_set N s)" by (rule finite_subset) simp
  show n: "N \<le> 33554432" using assms by (simp add: fat_ok_def)
  have "card (free_set N s) \<le> N - 2" using card_mono [OF _ s] by simp
  then show "card (free_set N s) < 33554432" using n by simp
qed

lemma of_nat_25:
  assumes "n < 33554432"
  shows "unat (of_nat n :: u32) = n" "sint (of_nat n :: u32) = int n"
proof -
  show "unat (of_nat n :: u32) = n" using assms by (simp add: word_of_nat_unat_eq)
  show "sint (of_nat n :: u32) = int n"
    using assms by (simp add: signed_of_nat signed_take_bit_int_eq_self)
qed

lemma find_free_set:
  assumes "fat_ok N s" and "a \<ge> 2"
  shows "find (\<lambda>d. fat_entry s d = 0) [a..<N] =
    (if {d \<in> free_set N s. a \<le> d} = {} then None else Some (Min {d \<in> free_set N s. a \<le> d}))"
proof (cases "find (\<lambda>d. fat_entry s d = 0) [a..<N]")
  case None
  then have "{d \<in> free_set N s. a \<le> d} = {}" by (auto simp: find_None_iff free_set_def)
  then show ?thesis using None by simp
next
  case (Some x)
  then obtain i where i: "i < N - a" "fat_entry s (a + i) = 0" "x = a + i" "\<forall>j < i. fat_entry s (a + j) \<noteq> 0"
    by (auto simp: find_Some_iff)
  have "Min {d \<in> free_set N s. a \<le> d} = x"
  proof (rule Min_eqI)
    show "finite {d \<in> free_set N s. a \<le> d}" using free_set_bounds(1) [OF assms(1)] by simp
    show "x \<in> {d \<in> free_set N s. a \<le> d}" using i assms(2) by (auto simp: free_set_def)
    fix y assume "y \<in> {d \<in> free_set N s. a \<le> d}"
    then have "fat_entry s (a + (y - a)) = 0" "a \<le> y" by (auto simp: free_set_def)
    then show "x \<le> y" using i(3,4) by (metis add_diff_inverse_nat leI le_add_diff_inverse nat_add_left_cancel_less not_less)
  qed
  moreover have "x \<in> {d \<in> free_set N s. a \<le> d}" using i assms(2) by (auto simp: free_set_def)
  ultimately show ?thesis using Some by auto
qed

section \<open>Allocation and release\<close>

text \<open>Storing a counter or an entry.\<close>

lemma step_mem:
  assumes "fat_ok N s"
  shows "fat_ok N (s\<lparr>umem := m\<rparr>)" and "entry_addr (s\<lparr>umem := m\<rparr>) = entry_addr s"
    and "rootClus (s\<lparr>umem := m\<rparr>) = rootClus s"
  using fat_ok_keep [OF assms, of "s\<lparr>umem := m\<rparr>"] assms by (simp_all add: fat_ok_def disk_ok_def)

lemma io_keep:
  assumes "fat_ok N s" and "io_step (umem s) D s s'"
  shows "fat_ok N s'" "entry_addr s' = entry_addr s" "umem s' = umem s" "rootClus s' = rootClus s"
    "fat_super s' = fat_super s"
  using fat_ok_keep [OF assms(1) io_stepD(8,3) [OF assms(2)]] io_stepD [OF assms(2)] assms(1)
    fat_more(5) [OF io_stepD(8) [OF assms(2)]]
  by (simp_all add: fat_ok_def)

lemma free_set_entry:
  assumes "fat_ok N s" and "d < N" and "2 \<le> d"
    and m: "\<And>e. e < N \<Longrightarrow> fat_entry s' e = (if e = d then v else fat_entry s e)"
  shows "free_set N s' = (if v = 0 then insert d (free_set N s) else free_set N s - {d})"
  using assms(2,3) m by (auto simp: free_set_def split: if_splits)

lemma set_info:
  fixes v :: u32
  assumes ok: "fat_ok N s" and a: "a = FC \<or> a = NF"
  defines "s' \<equiv> s\<lparr>umem := put_word a v (umem s)\<rparr>"
  shows "fat_ok N s'" "e < N \<Longrightarrow> fat_entry s' e = fat_entry s e" "free_set N s' = free_set N s"
    "free_count s' = (if a = FC then v else free_count s)" "nxt_free s' = (if a = NF then v else nxt_free s)"
    "e < N \<Longrightarrow> entry_on_disk s' e = entry_on_disk s e"
proof -
  show "fat_ok N s'" unfolding s'_def by (rule step_mem(1) [OF ok])
  show e: "fat_entry s' e = fat_entry s e" if "e < N" for e
    using put_info(1) [OF ok a that] step_mem(2) [OF ok] by (simp add: fat_entry_def s'_def)
  then show "free_set N s' = free_set N s" by (auto simp: free_set_def)
  show "free_count s' = (if a = FC then v else free_count s)" "nxt_free s' = (if a = NF then v else nxt_free s)"
    using put_info(2,3) [OF ok a] a by (auto simp: free_count_def nxt_free_def s'_def)
  show "entry_on_disk s' e = entry_on_disk s e" if "e < N"
  proof -
    have "put_word a v (umem s) (entry_addr s e + of_nat i) = umem s (entry_addr s e + of_nat i)" if i: "i < 4" for i
    proof -
      have n: "a + of_nat j \<noteq> entry_addr s e + of_nat i" if "j < 4" for j
        by (rule aligned_apart) (use a entry_nat(2) [OF ok \<open>e < N\<close>] entry_info_apart [OF ok \<open>e < N\<close>] i that in auto)
      show ?thesis using n [of 0] n [of 1] n [of 2] n [of 3] by (simp add: put_word_def)
    qed
    then show ?thesis using step_mem(2) [OF ok] by (simp add: entry_on_disk_def s'_def entry_pos_def)
  qed
qed

text \<open>The entry is stored and written through.\<close>

lemma set_entry:
  assumes ok: "fat_ok N s" and d: "d < N"
  shows "\<exists>s' D. (do { s2 \<leftarrow> fat_st (of_nat d) v s; dirty_Fat (of_nat d) s2 }) = Some s' \<and> fat_ok N s' \<and>
    io_step (put_word (entry_addr s d) v (umem s)) D s s' \<and> entry_on_disk s' d \<and>
    (\<forall>e < N. fat_entry s' e = (if e = d then v else fat_entry s e)) \<and>
    free_count s' = free_count s \<and> nxt_free s' = nxt_free s"
proof -
  define s2 where "s2 = s\<lparr>umem := put_word (entry_addr s d) v (umem s)\<rparr>"
  have ok2: "fat_ok N s2" unfolding s2_def by (rule step_mem(1) [OF ok])
  obtain s' D where s': "dirty_Fat (of_nat d) s2 = Some s'" "io_step (umem s2) D s2 s'" "entry_on_disk s' d"
    using dirty_Fat_ok [OF ok2 d] by blast
  note k = io_keep [OF ok2 s'(2)]
  have "io_step (put_word (entry_addr s d) v (umem s)) D s s'" using s'(2) by (simp add: s2_def io_step_def)
  moreover have "entry_addr s' = entry_addr s" using k(2) step_mem(2) [OF ok] by (simp add: s2_def)
  moreover have "umem s' = put_word (entry_addr s d) v (umem s)" using k(3) by (simp add: s2_def)
  ultimately show ?thesis
    using s' k(1) fat_access(2) [OF ok d, of v] put_entry [OF ok d]
    by (auto simp: s2_def fat_entry_def free_count_def nxt_free_def)
qed

lemma alloc_num:
  assumes b: "fat_books N s F" and "F \<noteq> {}"
  shows "if F = {Min F} then fat_alloc_cluster_num s = None
    else \<exists>s' D m. fat_alloc_cluster_num s = Some (of_nat (Min F), s') \<and> fat_books N s' (F - {Min F}) \<and>
      fat_entry s' (Min F) = EOF_Fat32 \<and> entry_on_disk s' (Min F) \<and> io_step m D s s' \<and>
      (\<forall>e < N. e \<noteq> Min F \<longrightarrow> fat_entry s' e = fat_entry s e)"
proof -
  have ok: "fat_ok N s" and F: "F = free_set N s" and fc: "free_count s = of_nat (card F)"
    and nf: "nxt_free s = of_nat (Min F)" using assms by (simp_all add: fat_books_def)
  define a where "a = Min F"
  note fb = free_set_bounds [OF ok, folded F]
  have aF: "a \<in> F" unfolding a_def using fb(1) assms(2) by simp
  then have a: "2 \<le> a" "a < N" using fb(2) by auto
  note ua = of_nat_25 [of a] 
  have a25: "a < 33554432" using a fb(4) by simp
  have cpos: "0 < card F" using fb(1) assms(2) by (simp add: card_gt_0_iff)
  have fc0: "sint (free_count s) > 0" using of_nat_25(2) [OF fb(3)] fc cpos by simp
  define s1 where "s1 = s\<lparr>umem := put_word FC (free_count s - 1) (umem s)\<rparr>"
  have st1: "uldw FC s = Some (free_count s)" "ustw FC (free_count s - 1) s = Some s1"
    using info_access [OF ok, of FC] by (simp_all add: s1_def free_count_def)
  note i1 = set_info [OF ok, where a = FC and v = "free_count s - 1", simplified, folded s1_def]
  obtain s3 D where s3: "(do { s2 \<leftarrow> fat_st (of_nat a) EOF_Fat32 s1; dirty_Fat (of_nat a) s2 }) = Some s3" "fat_ok N s3"
    "io_step (put_word (entry_addr s1 a) EOF_Fat32 (umem s1)) D s1 s3" "entry_on_disk s3 a"
    "\<forall>e < N. fat_entry s3 e = (if e = a then EOF_Fat32 else fat_entry s1 e)"
    "free_count s3 = free_count s1" "nxt_free s3 = nxt_free s1"
    using set_entry [OF i1(1) a(2), of EOF_Fat32] by auto
  have fs3: "free_set N s3 = F - {a}"
    using free_set_entry [OF ok a(2,1), of s3 EOF_Fat32] s3(5) i1(2) F by simp
  have "{d \<in> F - {a}. a \<le> d} = F - {a}" using Min_le [OF fb(1)] by (auto simp: a_def)
  then have fd: "find (\<lambda>d. fat_entry s3 d = 0) [a..<N] = (if F - {a} = {} then None else Some (Min (F - {a})))"
    using find_free_set [OF s3(2) a(1)] fs3 by simp
  have lim: "unat (TotClus (fat_super s3) - Data2ClusNO 2 s3) = N" using s3(2) by (simp add: fat_ok_def Data2ClusNO_def)
  have ev: "fat_alloc_cluster_num s = (do { s4 \<leftarrow> next_free [a..<N] s3; Some (of_nat a, s4) })"
  proof -
    have "uldw (FSI_NxtFree s1) s1 = Some (of_nat a)"
      using info_access(1) [OF i1(1), of NF] info_addr(2) [OF i1(1)] i1(5) nf by (simp add: nxt_free_def a_def)
    moreover obtain s2 where "fat_st (of_nat a) EOF_Fat32 s1 = Some s2" "dirty_Fat (of_nat a) s2 = Some s3"
      using s3(1) by (auto elim!: bind_eq_SomeD)
    ultimately show ?thesis
      using st1 fc0 info_addr [OF ok] lim ua(1) [OF a25] by (simp add: fat_alloc_cluster_num_def)
  qed
  have nxt: "next_free [a..<N] s3 = (if F - {a} = {} then None
      else Some (s3\<lparr>umem := put_word NF (of_nat (Min (F - {a}))) (umem s3)\<rparr>))"
    using next_free_find [OF s3(2), of "[a..<N]"] a(1) fd by simp
  show ?thesis
  proof (cases "F - {a} = {}")
    case True
    then have "F = {a}" using aF by blast
    then show ?thesis using ev nxt True by (simp add: a_def)
  next
    case False
    define s4 where "s4 = s3\<lparr>umem := put_word NF (of_nat (Min (F - {a}))) (umem s3)\<rparr>"
    note i4 = set_info [OF s3(2), where a = NF and v = "of_nat (Min (F - {a}))", simplified, folded s4_def]
    have "fat_books N s4 (F - {a})"
      using i4 fs3 s3(6) i1(4) fc fb(1) aF cpos by (simp add: fat_books_def of_nat_diff)
    moreover have "entry_on_disk s4 a" using i4(6) [OF a(2)] s3(4) by simp
    moreover have "io_step (umem s4) D s s4" using s3(3) by (simp add: io_step_def s4_def s1_def)
    moreover have "F \<noteq> {a}" using False by blast
    ultimately show ?thesis using ev nxt False s3(5) i4(2) i1(2) a(2) by (auto simp: s4_def [symmetric] a_def [symmetric])
  qed
qed

lemma in_volume:
  assumes ok: "fat_ok N s" and d: "2 \<le> d" "d < N"
  shows "Data2ClusNO (of_nat d) s < TotClus (fat_super s)"
proof -
  let ?T = "unat (TotClus (fat_super s))" and ?r = "unat (rootClus s)"
  have "rootClus s \<le> TotClus (fat_super s)" using ok by (simp add: fat_ok_def)
  then have N: "N = ?T - ?r" "?r \<le> ?T" using ok by (simp_all add: fat_ok_def unat_sub word_le_nat_alt)
  have u: "unat (of_nat d :: u32) = d" using of_nat_25(1) entry_nat(4) [OF ok d(2)] by simp
  moreover have "d + ?r < 4294967296" using N d unat_lt_32 [of "TotClus (fat_super s)"] by linarith
  ultimately have s: "unat (of_nat d + rootClus s) = d + ?r" by (simp add: unat_word_ariths)
  then have "unat (of_nat d + rootClus s - 2) = d + ?r - 2"
    using d by (simp add: unat_sub word_le_nat_alt)
  moreover have "d + ?r - 2 < ?T" using N d by linarith
  moreover have "RootClus (fat_super s) = 2" using ok by (simp add: fat_ok_def)
  ultimately show ?thesis by (simp add: word_less_nat_alt Data2ClusNO_def)
qed

lemma free_num:
  assumes b: "fat_books N s F" and d: "d \<in> {2..<N} - F" and "F \<noteq> {}"
  shows "\<exists>s'. fat_free_cluster (of_nat d) s = Some s' \<and> fat_books N s' (insert d F) \<and> entry_on_disk s' d \<and>
    (\<forall>e < N. fat_entry s' e = (if e = d then 0 else fat_entry s e))"
proof -
  have ok: "fat_ok N s" and F: "F = free_set N s" and fc: "free_count s = of_nat (card F)"
    and nf: "nxt_free s = of_nat (Min F)" using assms by (simp_all add: fat_books_def)
  note fb = free_set_bounds [OF ok, folded F]
  have d': "2 \<le> d" "d < N" "d \<notin> F" "d < 33554432" using d fb(4) by auto
  have mF: "Min F < 33554432" using Min_in [OF fb(1) assms(3)] fb(2,4) by auto
  obtain s1 D where s1: "(do { s2 \<leftarrow> fat_st (of_nat d) 0 s; dirty_Fat (of_nat d) s2 }) = Some s1" "fat_ok N s1"
    "io_step (put_word (entry_addr s d) 0 (umem s)) D s s1" "entry_on_disk s1 d"
    "\<forall>e < N. fat_entry s1 e = (if e = d then 0 else fat_entry s e)" "free_count s1 = free_count s" "nxt_free s1 = nxt_free s"
    using set_entry [OF ok d'(2), of 0] by auto
  define s2 where "s2 = s1\<lparr>umem := put_word FC (free_count s1 + 1) (umem s1)\<rparr>"
  note i2 = set_info [OF s1(2), where a = FC and v = "free_count s1 + 1", simplified, folded s2_def]
  let ?n = "if of_nat (Min F) < (of_nat d :: u32) then of_nat (Min F) else of_nat d"
  define s3 where "s3 = s2\<lparr>umem := put_word NF ?n (umem s2)\<rparr>"
  note i3 = set_info [OF i2(1), where a = NF and v = ?n, simplified, folded s3_def]
  have n: "?n = of_nat (Min (insert d F))"
    using of_nat_25(1) [OF mF] of_nat_25(1) [OF d'(4)] Min_insert [OF fb(1) assms(3), of d]
    by (simp add: word_less_nat_alt min_def del: Min_insert Min_le_iff Min_ge_iff Min_less_iff Min_gr_iff)
  have "free_set N s3 = insert d F" using free_set_entry [OF ok d'(2,1), of s1 0] s1(5) i2(3) i3(3) F by simp
  then have "fat_books N s3 (insert d F)"
    using i3(1,4,5) i2(4) s1(6) fc n fb(1) d'(3) by (simp add: fat_books_def)
  moreover have "fat_free_cluster (of_nat d) s = Some s3"
  proof -
    obtain s0 where "fat_st (of_nat d) 0 s = Some s0" "dirty_Fat (of_nat d) s0 = Some s1"
      using s1(1) by (auto elim!: bind_eq_SomeD)
    moreover have "uldw FC s1 = Some (free_count s1)" "ustw FC (free_count s1 + 1) s1 = Some s2"
      "uldw NF s2 = Some (of_nat (Min F))" "ustw NF ?n s2 = Some s3"
      using info_access [OF s1(2), of FC] info_access [OF i2(1), of NF] i2(5) s1(7) nf
      by (simp_all add: free_count_def nxt_free_def s2_def s3_def)
    ultimately show ?thesis
      using info_addr [OF ok] info_addr [OF s1(2)] info_addr [OF i2(1)] in_volume [OF ok d'(1,2)]
      by (simp add: fat_free_cluster_def linorder_not_le [symmetric])
  qed
  ultimately show ?thesis using i3(2,6) i2(2,6) d'(2) s1(4,5) by auto
qed

section \<open>The table as an allocator\<close>

definition fat_rep :: "nat \<Rightarrow> fat_state \<Rightarrow> nat set \<Rightarrow> bool" where
  "fat_rep N s F \<longleftrightarrow> fat_books N s F \<and> F \<noteq> {}"

definition fat_take :: "fat_state \<Rightarrow> (nat \<times> fat_state) option" where
  "fat_take s = (case fat_alloc_cluster_num s of Some (d, s') \<Rightarrow> Some (unat d, s') | None \<Rightarrow> None)"

lemma fat_books_bounds: "fat_books N s F \<Longrightarrow> finite F \<and> F \<subseteq> {2..<N} \<and> N \<le> 33554432"
  using free_set_bounds [of N s] by (simp add: fat_books_def)

interpretation clusters: unit_allocator "fat_rep N" "{2..<N}" fat_take "\<lambda>d. fat_free_cluster (of_nat d)" 1
  for N
proof unfold_locales
  fix s F d
  show "fat_rep N s F \<Longrightarrow> F \<subseteq> {2..<N}" using fat_books_bounds by (auto simp: fat_rep_def)
  show "finite {2..<N}" by simp
  show "fat_rep N s F \<Longrightarrow> 1 < card F \<Longrightarrow>
      \<exists>d s'. fat_take s = Some (d, s') \<and> d \<in> F \<and> fat_rep N s' (F - {d})"
  proof -
    assume r: "fat_rep N s F" and c: "1 < card F"
    then have b: "fat_books N s F" "F \<noteq> {}" by (simp_all add: fat_rep_def)
    note fb = fat_books_bounds [OF b(1)]
    have m: "Min F \<in> F" using fb b(2) by simp
    have nF: "F \<noteq> {Min F}" using c by (metis card_1_singleton_iff less_irrefl One_nat_def)
    then obtain s' where s': "fat_alloc_cluster_num s = Some (of_nat (Min F), s')" "fat_books N s' (F - {Min F})"
      using alloc_num [OF b] by auto
    have "Min F < 33554432" using m fb by auto
    then have "fat_take s = Some (Min F, s')" using s'(1) of_nat_25(1) by (simp add: fat_take_def)
    moreover have "fat_rep N s' (F - {Min F})" using s'(2) nF m unfolding fat_rep_def by blast
    ultimately show ?thesis using m by blast
  qed
  show "fat_rep N s F \<Longrightarrow> d \<in> {2..<N} - F \<Longrightarrow> \<exists>s'. fat_free_cluster (of_nat d) s = Some s' \<and> fat_rep N s' (insert d F)"
    using free_num [of N s F d] by (auto simp: fat_rep_def)
qed

section \<open>A small volume\<close>

text \<open>One sector per cluster, the table in cluster 2, the root directory in cluster 3; of the data
  clusters 2 to 7 only 5 to 7 are free.\<close>

definition fat_vol :: FAT_Super where
  "fat_vol = \<lparr>FAT_BY2SEC = 512, FAT_SECPClus = 1, FSType = fat32_sig, FAT_endNumber = FAT_BPB_END_NUMBER,
     RootClus = 2, SECPFAT = 1, TotClus = 11, numOfFats = 1, numOfReserved = 2\<rparr>"

definition vol_disk :: disk_op where
  "vol_disk op dno off buf imgs = (if op = 0 then (1, \<lambda>i. imgs dno (unat off + i), imgs)
     else (1, buf, imgs(dno := img_upd (unat off) 512 buf (imgs dno))))"

definition vol_mem :: "u32 \<Rightarrow> u8" where
  "vol_mem = put_word FC 3 (put_word NF 5 (fold (\<lambda>d. put_word (0x50000400 + of_nat (4 * d)) EOF_Fat32) [0, 1, 2, 3, 4]
     (\<lambda>_. 0)))"

definition fat_demo :: fat_state where
  "fat_demo = \<lparr>umem = vol_mem, uperm = (\<lambda>_. 0)(0x50000 := 0x600), oom = (\<lambda>_. False), nalloc = 0,
     dk_op = vol_disk, dk_id = 0, dk_off = 0, dk_buf = (\<lambda>_. 0), dk_status = 0, disks = (\<lambda>_ _. 0), super = 0, bitmap = 0,
     fat_super = fat_vol, SECT2CLUS = 1, fs_info = 0x50000200, FAT1 = 0x50000400, FAT2 = 0, FAT1_ClusNo = 2,
     rtc = (\<lambda>_. 0), nrtc = 0\<rparr>"

lemma fat_demo_ok: "fat_ok 8 fat_demo"
proof -
  have w: "writable (entry_addr fat_demo d) fat_demo" if "d < 8" for d
  proof -
    have "unat (0x50000400 + of_nat (4 * d) :: u32) = 0x50000400 + 4 * d"
      using that by (simp add: unat_word_ariths unsigned_of_nat take_bit_nat_eq_self del: of_nat_mult)
    then have "upage (entry_addr fat_demo d) = 0x50000"
      using that by (simp add: upage_def entry_addr_def fat_demo_def del: of_nat_mult)
    then show ?thesis by (simp add: writable_def va_is_mapped_def fat_demo_def)
  qed
  have "disk_ok fat_demo" by (simp add: disk_ok_def fat_demo_def vol_disk_def)
  moreover have "rootClus fat_demo = 3" by (simp add: rootClus_def rootSec_def fat_demo_def fat_vol_def)
  moreover have "writable FATDISKMAP fat_demo" by (simp add: writable_def va_is_mapped_def upage_def fat_demo_def)
  ultimately show ?thesis using w by (simp add: fat_ok_def fat_demo_def fat_vol_def BY2CLUS_def)
qed

lemma fat_demo_entry:
  assumes "d < 8"
  shows "fat_entry fat_demo d = (if d < 5 then EOF_Fat32 else 0)"
proof -
  have "d = 0 \<or> d = 1 \<or> d = 2 \<or> d = 3 \<or> d = 4 \<or> d = 5 \<or> d = 6 \<or> d = 7" using assms by auto
  then show ?thesis by (elim disjE) (simp_all add: fat_entry_def entry_addr_def fat_demo_def vol_mem_def word_at_def put_word_def)
qed

lemma fat_demo_books: "fat_books 8 fat_demo {5, 6, 7}"
proof -
  have "free_set 8 fat_demo = {5, 6, 7}"
    using fat_demo_entry by (auto simp: free_set_def split: if_splits)
  then show ?thesis using fat_demo_ok by (simp add: fat_books_def free_count_def nxt_free_def fat_demo_def vol_mem_def)
qed

text \<open>C30. Cluster allocation: with at least two free clusters \<^verbatim>\<open>fat_alloc_cluster_num\<close> returns the
  first free one, marks its entry as the end of a chain and writes that entry through to the disk;
  every other entry is kept, the counter and the hint of the FSInfo sector stay the number of
  free clusters and the first of them.  \<^verbatim>\<open>fat_free_cluster\<close> of any cluster in use, from any state with a free
  cluster, makes it free, writes the cleared entry through to the disk, keeps every other entry, counts it and
  moves the hint exactly when the cluster lies before it.\<close>

theorem fat_alloc_cluster_num_correct:
  assumes b: "fat_books N s F"
  shows "(2 \<le> card F \<longrightarrow> (\<exists>s'. fat_alloc_cluster_num s = Some (of_nat (Min F), s') \<and> fat_books N s' (F - {Min F}) \<and>
      fat_entry s' (Min F) = EOF_Fat32 \<and> entry_on_disk s' (Min F) \<and>
      (\<forall>e < N. e \<noteq> Min F \<longrightarrow> fat_entry s' e = fat_entry s e))) \<and>
    (\<forall>d \<in> {2..<N} - F. F \<noteq> {} \<longrightarrow> (\<exists>s'. fat_free_cluster (of_nat d) s = Some s' \<and> fat_books N s' (insert d F) \<and>
      fat_entry s' d = 0 \<and> entry_on_disk s' d \<and>
      (\<forall>e < N. e \<noteq> d \<longrightarrow> fat_entry s' e = fat_entry s e) \<and>
      free_count s' = free_count s + 1 \<and> nxt_free s' = (if of_nat d < nxt_free s then of_nat d else nxt_free s)))"
proof (intro conjI impI ballI)
  assume c: "2 \<le> card F"
  have "F \<noteq> {}" "F \<noteq> {Min F}" using c by (metis card.empty card_1_singleton_iff One_nat_def not_numeral_le_zero Suc_1 Suc_n_not_le_n)+
  then show "\<exists>s'. fat_alloc_cluster_num s = Some (of_nat (Min F), s') \<and> fat_books N s' (F - {Min F}) \<and>
      fat_entry s' (Min F) = EOF_Fat32 \<and> entry_on_disk s' (Min F) \<and> (\<forall>e < N. e \<noteq> Min F \<longrightarrow> fat_entry s' e = fat_entry s e)"
    using alloc_num [OF b] by auto
next
  fix d assume d: "d \<in> {2..<N} - F" and F: "F \<noteq> {}"
  note fb = fat_books_bounds [OF b]
  have lt: "d < 33554432" "Min F < 33554432" using d fb Min_in [OF _ F] by auto
  obtain s' where s': "fat_free_cluster (of_nat d) s = Some s'" "fat_books N s' (insert d F)" "entry_on_disk s' d"
    "\<forall>e < N. fat_entry s' e = (if e = d then 0 else fat_entry s e)" using free_num [OF b d F] by blast
  have "free_count s' = free_count s + 1" using b s'(2) d fb by (simp add: fat_books_def)
  moreover have "nxt_free s' = (if of_nat d < nxt_free s then of_nat d else nxt_free s)"
  proof -
    have "nxt_free s = of_nat (Min F)" using b F unfolding fat_books_def by blast
    moreover have "nxt_free s' = of_nat (min d (Min F))" using s'(2) Min_insert [OF conjunct1 [OF fb] F, of d] by (simp add: fat_books_def)
    moreover have "(of_nat d :: u32) < of_nat (Min F) \<longleftrightarrow> d < Min F"
      using of_nat_25(1) [OF lt(1)] of_nat_25(1) [OF lt(2)] by (simp only: word_less_nat_alt)
    ultimately show ?thesis by (simp add: min_def)
  qed
  ultimately show "\<exists>s'. fat_free_cluster (of_nat d) s = Some s' \<and> fat_books N s' (insert d F) \<and> fat_entry s' d = 0 \<and>
      entry_on_disk s' d \<and> (\<forall>e < N. e \<noteq> d \<longrightarrow> fat_entry s' e = fat_entry s e) \<and>
      free_count s' = free_count s + 1 \<and> nxt_free s' = (if of_nat d < nxt_free s then of_nat d else nxt_free s)"
    using s' d by auto
qed

theorem fat_alloc_cluster_num_correct_witness:
  "(\<exists>s'. fat_alloc_cluster_num fat_demo = Some (5, s') \<and> fat_books 8 s' {6, 7} \<and> fat_entry s' 5 = EOF_Fat32) \<and>
   (\<exists>s'. fat_free_cluster 4 fat_demo = Some s' \<and> fat_entry s' 4 = 0 \<and> entry_on_disk s' 4 \<and> nxt_free s' = 4)"
proof
  note c = fat_alloc_cluster_num_correct [OF fat_demo_books]
  have "Min {5, 6, 7 :: nat} = 5" "{5, 6, 7 :: nat} - {5} = {6, 7}" by auto
  then show "\<exists>s'. fat_alloc_cluster_num fat_demo = Some (5, s') \<and> fat_books 8 s' {6, 7} \<and> fat_entry s' 5 = EOF_Fat32"
    using conjunct1 [OF c] by auto
  have nf: "nxt_free fat_demo = 5" by (simp add: nxt_free_def fat_demo_def vol_mem_def)
  have "4 \<in> {2..<8} - {5, 6, 7 :: nat}" "{5, 6, 7 :: nat} \<noteq> {}" by simp_all
  from conjunct2 [OF c, rule_format, OF this, unfolded nf]
  show "\<exists>s'. fat_free_cluster 4 fat_demo = Some s' \<and> fat_entry s' 4 = 0 \<and> entry_on_disk s' 4 \<and> nxt_free s' = 4"
    unfolding of_nat_numeral by auto
qed

text \<open>The last cluster is never handed out: with exactly one free cluster the search for the next
  hint fails its assertion and \<^verbatim>\<open>fat_alloc_cluster_num\<close> stops the server, although a cluster is free.\<close>

theorem fat_last_cluster:
  assumes "fat_books N s {d}"
  shows "fat_alloc_cluster_num s = None"
  using alloc_num [OF assms] by simp

definition fat_demo_full :: fat_state where
  "fat_demo_full = fat_demo\<lparr>umem := put_word FC 1 (fold (\<lambda>d. put_word (0x50000400 + of_nat (4 * d)) EOF_Fat32) [6, 7] vol_mem)\<rparr>"

lemma fat_demo_full_books: "fat_books 8 fat_demo_full {5}"
proof -
  have ok: "fat_ok 8 fat_demo_full" unfolding fat_demo_full_def by (rule step_mem(1) [OF fat_demo_ok])
  have "fat_entry fat_demo_full d = (if d = 5 then 0 else EOF_Fat32)" if "d < 8" for d
  proof -
    have "d = 0 \<or> d = 1 \<or> d = 2 \<or> d = 3 \<or> d = 4 \<or> d = 5 \<or> d = 6 \<or> d = 7" using that by auto
    then show ?thesis
      by (elim disjE) (simp_all add: fat_entry_def entry_addr_def fat_demo_full_def fat_demo_def vol_mem_def word_at_def put_word_def)
  qed
  then have "free_set 8 fat_demo_full = {5}" by (auto simp: free_set_def split: if_splits)
  then show ?thesis using ok by (simp add: fat_books_def free_count_def nxt_free_def fat_demo_full_def vol_mem_def)
qed

theorem fat_last_cluster_witness:
  "fat_alloc_cluster_num fat_demo_full = None \<and> fat_entry fat_demo_full 5 = 0"
proof
  show "fat_alloc_cluster_num fat_demo_full = None" by (rule fat_last_cluster [OF fat_demo_full_books])
  show "fat_entry fat_demo_full 5 = 0"
  proof -
    have "5 \<in> free_set 8 fat_demo_full" using fat_demo_full_books unfolding fat_books_def by blast
    then show ?thesis unfolding free_set_def by blast
  qed
qed

text \<open>Cluster ownership: while more than \<open>k\<close> clusters are free, \<open>k\<close> allocations in a row return \<open>k\<close>
  different clusters, all free before, and releasing them restores the set of free clusters
  with its bookkeeping.\<close>

theorem clusters_handed_out_once:
  assumes "fat_books N s F" and "k < card F"
  shows "\<exists>ds s' s''. alloc_many fat_take k s = Some (ds, s') \<and> length ds = k \<and> distinct ds \<and> set ds \<subseteq> F \<and>
    fat_books N s' (F - set ds) \<and> fold_opt (\<lambda>d. fat_free_cluster (of_nat d)) ds s' = Some s'' \<and> fat_books N s'' F"
proof -
  have "fat_rep N s F" using assms by (auto simp: fat_rep_def)
  then show ?thesis using clusters.alloc_release_all [of N s F k] assms(2) unfolding fat_rep_def by auto
qed

theorem clusters_handed_out_once_witness:
  "\<exists>ds s'. alloc_many fat_take 2 fat_demo = Some (ds, s') \<and> length ds = 2 \<and> distinct ds \<and> set ds \<subseteq> {5, 6, 7}"
  using clusters_handed_out_once [OF fat_demo_books, of 2] by auto

section \<open>Start up\<close>

lemma first_zero_find:
  assumes "fat_ok N s" and "\<forall>i \<in> set is. i < N"
  shows "first_zero is s = Some (find (\<lambda>d. fat_entry s d = 0) is)"
  using assms(2) by (induction "is") (use fat_access(1) [OF assms(1)] in auto)

text \<open>The counting loop changes the counter only.\<close>

lemma count_free_ok:
  assumes "fat_ok N s" and "\<forall>i \<in> set is. i < N"
  shows "\<exists>m. count_free is s = Some (s\<lparr>umem := m\<rparr>) \<and> fat_ok N (s\<lparr>umem := m\<rparr>) \<and>
    free_set N (s\<lparr>umem := m\<rparr>) = free_set N s \<and> nxt_free (s\<lparr>umem := m\<rparr>) = nxt_free s \<and>
    free_count (s\<lparr>umem := m\<rparr>) = free_count s + of_nat (length (filter (\<lambda>d. fat_entry s d = 0) is))"
  using assms
proof (induction "is" arbitrary: s)
  case Nil
  then show ?case by (intro exI [of _ "umem s"]) (simp add: count_free_def)
next
  case (Cons i "is")
  have i: "i < N" using Cons.prems(2) by simp
  note ld = fat_access(1) [OF Cons.prems(1) i]
  show ?case
  proof (cases "fat_entry s i = 0")
    case True
    define s1 where "s1 = s\<lparr>umem := put_word FC (free_count s + 1) (umem s)\<rparr>"
    note i1 = set_info [OF Cons.prems(1), where a = FC and v = "free_count s + 1", simplified, folded s1_def]
    have st: "uldw (FSI_FreeCount s) s = Some (free_count s)" "ustw (FSI_FreeCount s) (free_count s + 1) s = Some s1"
      using info_access [OF Cons.prems(1), of FC] info_addr(1) [OF Cons.prems(1)]
      by (simp_all add: s1_def free_count_def)
    have f: "filter (\<lambda>d. fat_entry s1 d = 0) is = filter (\<lambda>d. fat_entry s d = 0) is"
      by (rule filter_cong) (use i1(2) Cons.prems(2) in auto)
    have "\<exists>m. count_free is s1 = Some (s1\<lparr>umem := m\<rparr>) \<and> fat_ok N (s1\<lparr>umem := m\<rparr>) \<and>
      free_set N (s1\<lparr>umem := m\<rparr>) = free_set N s1 \<and> nxt_free (s1\<lparr>umem := m\<rparr>) = nxt_free s1 \<and>
      free_count (s1\<lparr>umem := m\<rparr>) = free_count s1 + of_nat (length (filter (\<lambda>d. fat_entry s1 d = 0) is))"
      using Cons.IH [OF i1(1)] Cons.prems(2) by simp
    then show ?thesis
      using ld st True f i1(3,4,5) by (simp add: count_free_def s1_def add.assoc)
  next
    case False
    then show ?thesis using Cons.IH [OF Cons.prems(1)] Cons.prems(2) ld by (simp add: count_free_def)
  qed
qed

text \<open>The sector is cached with the first page.\<close>

lemma info_cluster:
  assumes ok: "fat_ok N s" and "2 \<le> rootClus s" and "fat_super s0 = fat_super s" "SECT2CLUS s0 = SECT2CLUS s"
    "uperm s0 = uperm s"
  shows "\<exists>va. read_cluster (1 div SECT2CLUS s0) s0 = Some (va, s0)"
proof -
  note k = sect_le [OF ok]
  define c where "c = 1 div SECT2CLUS s"
  have uc: "unat c = 1 div unat (SECT2CLUS s)" unfolding c_def unat_div_distrib by (simp del: One_nat_def)
  have c1: "unat c \<le> 1" unfolding uc by (rule div_le_dividend)
  have bc: "unat c * (512 * unat (SECT2CLUS s)) < 4096"
  proof (cases "unat (SECT2CLUS s) = 1")
    case False
    then have "1 div unat (SECT2CLUS s) = 0" using k(1) by (simp add: div_eq_0_iff)
    then show ?thesis using uc by simp
  qed (use c1 in simp)
  have u: "unat (c * BY2CLUS s) = unat c * (512 * unat (SECT2CLUS s))" using bc k(3) by (simp add: unat_word_ariths)
  have "unat (FATDISKMAP + c * BY2CLUS s) div 4096 = 327680"
    using cluster_page(1) [OF ok, of c 0] bc k(1) by simp
  then have m: "va_is_mapped (FATDISKMAP + c * BY2CLUS s) s0"
    using ok assms(5) by (auto simp: fat_ok_def writable_def va_is_mapped_def upage_def)
  have "\<not> c \<ge> rootClus s" using assms(2) c1 by (simp add: word_le_nat_alt)
  moreover have "rootClus s \<le> TotClus (fat_super s)" using ok by (simp add: fat_ok_def)
  ultimately have nd: "\<not> isData c s0" "\<not> c \<ge> TotClus (fat_super s0)"
    using assms(3,4) by (auto simp: isData_def rootClus_def rootSec_def)
  have "fat_diskaddr c s0 = Some (FATDISKMAP + c * BY2CLUS s)"
    using u bc assms(4) by (simp add: fat_diskaddr_def BY2CLUS_def word_le_nat_alt)
  then show ?thesis using nd m assms(4) by (simp add: read_cluster_def c_def)
qed

lemma find_from_0:
  assumes "fat_ok N s" and nz: "fat_entry s 0 \<noteq> 0" "fat_entry s 1 \<noteq> 0"
  shows "find (\<lambda>d. fat_entry s d = 0) [0..<N] = (if free_set N s = {} then None else Some (Min (free_set N s)))"
proof -
  have "find (\<lambda>d. fat_entry s d = 0) [0..<N] = find (\<lambda>d. fat_entry s d = 0) [2..<N]"
  proof (cases "2 \<le> N")
    case True
    then have "[0..<N] = 0 # 1 # [2..<N]" by (simp add: upt_conv_Cons numeral_2_eq_2)
    then show ?thesis using nz by simp
  next
    case False
    then have "N = 0 \<or> N = 1" by auto
    then show ?thesis using nz by auto
  qed
  moreover have "{d \<in> free_set N s. 2 \<le> d} = free_set N s" by (auto simp: free_set_def)
  ultimately show ?thesis using find_free_set [OF assms(1), of 2] by simp
qed

lemma count_from:
  assumes nz: "fat_entry s 0 \<noteq> 0" "fat_entry s 1 \<noteq> 0" and "\<forall>d \<in> free_set N s. a \<le> d"
  shows "length (filter (\<lambda>d. fat_entry s d = 0) [a..<N]) = card (free_set N s)"
proof -
  have "2 \<le> d" if "fat_entry s d = 0" for d using nz that by (metis One_nat_def Suc_1 not_less_eq_eq less_Suc0 not_less le_SucE le_zero_eq)
  then have "set (filter (\<lambda>d. fat_entry s d = 0) [a..<N]) = free_set N s" using assms(3) by (auto simp: free_set_def)
  then show ?thesis using distinct_card [of "filter (\<lambda>d. fat_entry s d = 0) [a..<N]"] by simp
qed

text \<open>Start up: on a mounted volume whose FSInfo sector has its three signatures, \<^verbatim>\<open>read_FSInfo\<close>
  succeeds whatever the stored counters say, keeps the table, and sets the counter to the number
  of free clusters and the hint to the first of them.\<close>

theorem read_FSInfo_correct:
  assumes ok: "fat_ok N s" and "s0 = s \<or> s0 = s\<lparr>fs_info := 0\<rparr>" and "2 \<le> rootClus s" and "2 \<le> N"
    and "fat_entry s 0 \<noteq> 0" "fat_entry s 1 \<noteq> 0"
    and "word_at (umem s) 0x50000200 = 0x41615252" "word_at (umem s) 0x500003e4 = 0x61417272"
      "word_at (umem s) 0x500003fc = 0xAA550000"
  shows "\<exists>s'. read_FSInfo s0 = Some s' \<and> fat_books N s' (free_set N s) \<and> disks s' = disks s"
proof -
  have mp: "va_is_mapped FATDISKMAP s" using ok by (simp add: fat_ok_def writable_def)
  have s: "(if fs_info s0 = 0 then do { (_, s1) \<leftarrow> read_cluster (1 div SECT2CLUS s0) s0;
      Some (s1\<lparr>fs_info := FATDISKMAP + 512\<rparr>) } else Some s0) = Some s"
  proof (cases "s0 = s")
    case True
    then show ?thesis using info_addr(3) [OF ok] by simp
  next
    case False
    then have s0: "s0 = s\<lparr>fs_info := 0\<rparr>" using assms(2) by blast
    have "s\<lparr>fs_info := FATDISKMAP + 512\<rparr> = s" using ok by (simp add: fat_ok_def)
    then show ?thesis using info_cluster [OF ok assms(3), of s0] by (auto simp: s0)
  qed
  have sig: "uldw (fs_info s) s = Some 0x41615252" "uldw (fs_info s + 484) s = Some 0x61417272"
    "uldw (fs_info s + 508) s = Some 0xAA550000"
    using assms(7-9) ok mp by (simp_all add: fat_ok_def uldw_def va_is_mapped_def upage_def)
  define s1 where "s1 = s\<lparr>umem := put_word FC 0 (umem s)\<rparr>"
  note i1 = set_info [OF ok, where a = FC and v = 0, simplified, folded s1_def]
  have st1: "ustw (FSI_FreeCount s) 0 s = Some s1"
    using info_access(2) [OF ok, of FC] info_addr(1) [OF ok] by (simp add: s1_def)
  let ?F = "free_set N s"
  note fb = free_set_bounds [OF ok]
  have nz1: "fat_entry s1 0 \<noteq> 0" "fat_entry s1 1 \<noteq> 0" using i1(2) assms(4-6) by auto
  define s2 where "s2 = (if ?F = {} then s1 else s1\<lparr>umem := put_word NF (of_nat (Min ?F)) (umem s1)\<rparr>)"
  note i2 = set_info [OF i1(1), where a = NF and v = "of_nat (Min ?F)", simplified]
  have st2: "(case find (\<lambda>d. fat_entry s1 d = 0) [0..<N] of None \<Rightarrow> Some s1
      | Some i \<Rightarrow> ustw (FSI_NxtFree s1) (of_nat i) s1) = Some s2"
    using find_from_0 [OF i1(1) nz1] i1(3) info_access(2) [OF i1(1), of NF] info_addr(2) [OF i1(1)]
    by (simp add: s2_def)
  have p2: "fat_ok N s2" "free_set N s2 = ?F" "free_count s2 = 0" "?F \<noteq> {} \<Longrightarrow> nxt_free s2 = of_nat (Min ?F)"
    "fat_entry s2 0 \<noteq> 0" "fat_entry s2 1 \<noteq> 0" "disks s2 = disks s"
    using i1 i2 nz1 assms(4) by (simp_all add: s2_def s1_def)
  have nf: "uldw (FSI_NxtFree s2) s2 = Some (nxt_free s2)"
    using info_access(1) [OF p2(1), of NF] info_addr(2) [OF p2(1)] by (simp add: nxt_free_def)
  have le: "\<forall>d \<in> free_set N s2. unat (nxt_free s2) \<le> d"
  proof
    fix d assume "d \<in> free_set N s2"
    then have d: "d \<in> ?F" "?F \<noteq> {}" using p2(2) by auto
    have "Min ?F \<in> ?F" using fb(1) d(2) by simp
    then have "Min ?F < 33554432" using fb(2,4) by auto
    then show "unat (nxt_free s2) \<le> d" using p2(4) [OF d(2)] of_nat_25(1) Min_le [OF fb(1) d(1)] by simp
  qed
  obtain m where m: "count_free [unat (nxt_free s2)..<N] s2 = Some (s2\<lparr>umem := m\<rparr>)" "fat_ok N (s2\<lparr>umem := m\<rparr>)"
    "free_set N (s2\<lparr>umem := m\<rparr>) = ?F" "nxt_free (s2\<lparr>umem := m\<rparr>) = nxt_free s2"
    "free_count (s2\<lparr>umem := m\<rparr>) = of_nat (card ?F)"
    using count_free_ok [OF p2(1), of "[unat (nxt_free s2)..<N]"] count_from [OF p2(5,6) le] p2(2,3) by auto
  have lim: "unat (TotClus (fat_super s) - rootClus s) = N" using ok by (simp add: fat_ok_def)
  have "read_FSInfo s0 = Some (s2\<lparr>umem := m\<rparr>)"
    unfolding read_FSInfo_def s using sig st1 st2 nf m(1) first_zero_find [OF i1(1), of "[0..<N]"]
    by (simp add: lim)
  moreover have "fat_books N (s2\<lparr>umem := m\<rparr>) ?F" using m(2-5) p2(4) by (simp add: fat_books_def)
  ultimately show ?thesis using p2(7) by auto
qed

text \<open>The volume with its signatures and wrong counters.\<close>

definition fat_demo_raw :: fat_state where
  "fat_demo_raw = fat_demo\<lparr>umem := put_word 0x50000200 0x41615252 (put_word 0x500003e4 0x61417272
     (put_word 0x500003fc 0xAA550000 (put_word FC 99 vol_mem)))\<rparr>"

theorem read_FSInfo_correct_witness:
  "\<exists>s'. read_FSInfo (fat_demo_raw\<lparr>fs_info := 0\<rparr>) = Some s' \<and> free_count s' = 3 \<and> nxt_free s' = 5"
proof -
  have ok: "fat_ok 8 fat_demo_raw" unfolding fat_demo_raw_def by (rule step_mem(1) [OF fat_demo_ok])
  have e: "fat_entry fat_demo_raw d = (if d < 5 then EOF_Fat32 else 0)" if "d < 8" for d
  proof -
    have "d = 0 \<or> d = 1 \<or> d = 2 \<or> d = 3 \<or> d = 4 \<or> d = 5 \<or> d = 6 \<or> d = 7" using that by auto
    then show ?thesis
      by (elim disjE) (simp_all add: fat_entry_def entry_addr_def fat_demo_raw_def fat_demo_def vol_mem_def word_at_def put_word_def)
  qed
  have F: "free_set 8 fat_demo_raw = {5, 6, 7}" using e by (auto simp: free_set_def split: if_splits)
  have r: "2 \<le> rootClus fat_demo_raw" by (simp add: rootClus_def rootSec_def fat_demo_raw_def fat_demo_def fat_vol_def)
  have "\<exists>s'. read_FSInfo (fat_demo_raw\<lparr>fs_info := 0\<rparr>) = Some s' \<and> fat_books 8 s' {5, 6, 7}"
    using read_FSInfo_correct [OF ok, of "fat_demo_raw\<lparr>fs_info := 0\<rparr>"] e [of 0] e [of 1] r F
    by (auto simp: fat_demo_raw_def)
  then show ?thesis by (auto simp: fat_books_def)
qed

end
