(* ===== verification/Serv_Props.thy ===== *)
theory Serv_Props
  imports Serv Fs_Io Fat_Table
begin

text \<open>
  What the file system server promises its clients: the tables of open files keep their shape, a
  file id stays valid while a client maps its descriptor page, an entry is reused only when no
  client does, and how many replies a request gets.
\<close>

section \<open>Tables\<close>

lemma otab_simps [simp]:
  "otab fat (s\<lparr>sfs := f\<rparr>) = otab fat s"
  "otab fat (s\<lparr>pp_refs := p\<rparr>) = otab fat s"
  "otab fat (s\<lparr>replies := rs\<rparr>) = otab fat s"
  "otab fat (reply_to envid r va perm s) = otab fat s"
  "otab fat (deliver m s) = otab fat s"
  by (simp_all add: otab_def reply_to_def deliver_def split: option.split)

lemma otab_bool: "otab False s = opentab s" "otab True s = fat_opentab s"
  by (simp_all add: otab_def)

lemma otab_put_simps [simp]:
  "otab fat (otab_put fat' i e s) j = (if fat = fat' \<and> j = i then e else otab fat s j)"
  "sfs (otab_put fat i e s) = sfs s" "pp_refs (otab_put fat i e s) = pp_refs s"
  "replies (otab_put fat i e s) = replies s"
  by (auto simp: otab_def otab_put_def)

lemma reply_to_simps [simp]:
  "sfs (reply_to envid r va perm s) = sfs s"
  "replies (reply_to envid r va perm s) =
     replies s @ [Reply envid r va perm]"
  by (simp_all add: reply_to_def)

text \<open>What a handler may do to the tables: change entries that no client holds, of which the page
  stays and the file id moves on by \<^verbatim>\<open>MAXOPEN\<close>.\<close>

definition entry_moved :: "Open \<Rightarrow> Open \<Rightarrow> bool" where
  "entry_moved e e' \<longleftrightarrow> o_ff e' = o_ff e \<and> o_fileid e' = o_fileid e + of_nat MAXOPEN"

definition tab_step :: "serv_state \<Rightarrow> serv_state \<Rightarrow> bool" where
  "tab_step s s' \<longleftrightarrow> (\<forall>fat i. otab fat s' i = otab fat s i \<or>
     i < MAXOPEN \<and> pageref (o_ff (otab fat s i)) s \<le> 1 \<and> entry_moved (otab fat s i) (otab fat s' i))"

lemma tab_step_same: "(\<And>fat. otab fat s' = otab fat s) \<Longrightarrow> tab_step s s'"
  by (simp add: tab_step_def)

text \<open>The allocators, on every branch.\<close>

definition taken :: "bool \<Rightarrow> nat \<Rightarrow> serv_state \<Rightarrow> serv_state \<Rightarrow> bool" where
  "taken fat i s s' \<longleftrightarrow> replies s' = replies s \<and> (\<forall>fat' j. otab fat' s' j = (if fat' = fat \<and> j = i then
     (otab fat s i)\<lparr>o_fileid := o_fileid (otab fat s i) + of_nat MAXOPEN\<rparr> else otab fat' s j))"

lemma open_takeD:
  assumes "open_take fat i s = Some ((r, po), s')"
  shows "po = Some i \<and> r = o_fileid (otab fat s i) + of_nat MAXOPEN \<and> taken fat i s s'"
  using assms by (auto simp: open_take_def Let_def taken_def Option.bind_eq_Some_conv)

lemma open_scanD:
  assumes "open_scan fat is s = Some ((r, po), s')"
  shows "(po = None \<and> sint r < 0 \<and> replies s' = replies s \<and> (\<forall>fat'. otab fat' s' = otab fat' s)) \<or>
    (\<exists>i \<in> set is. po = Some i \<and> pageref (o_ff (otab fat s i)) s \<le> 1 \<and>
       r = o_fileid (otab fat s i) + of_nat MAXOPEN \<and> taken fat i s s')"
  using assms
proof (induction "is")
  case (Cons i "is")
  show ?case
  proof (cases "pageref (o_ff (otab fat s i)) s")
    case 0
    then show ?thesis using Cons.prems
      by (auto simp: Let_def syscall_mem_alloc_def ret_word_def taken_def dest!: open_takeD split: if_splits)
  next
    case (Suc n)
    then show ?thesis using Cons
      by (cases n) (auto simp: Let_def dest!: open_takeD)
  qed
qed (simp add: ret_word_def)

section \<open>Handlers\<close>

definition answers :: "u32 \<Rightarrow> nat \<Rightarrow> serv_state \<Rightarrow> serv_state \<Rightarrow> bool" where
  "answers envid n s s' \<longleftrightarrow>
     (\<exists>rs. replies s' = replies s @ rs \<and> length rs = n \<and> (\<forall>r \<in> set rs. rp_env r = envid))"

definition quiet :: "u32 \<Rightarrow> nat \<Rightarrow> serv_state \<Rightarrow> serv_state \<Rightarrow> bool" where
  "quiet envid n s s' \<longleftrightarrow> (\<forall>fat. otab fat s' = otab fat s) \<and> answers envid n s s'"

lemma answers_refl [simp]: "answers envid 0 s s"
  by (simp add: answers_def)

lemma answers_trans: "answers envid m s s1 \<Longrightarrow> answers envid n s1 s2 \<Longrightarrow> answers envid (m + n) s s2"
  by (fastforce simp: answers_def)

lemma answers_reply: "answers envid n s s1 \<Longrightarrow> answers envid (Suc n) s (reply_to envid r va perm s1)"
  by (fastforce simp: answers_def)

lemma answers_cong [simp]:
  "answers envid n (s\<lparr>sfs := f\<rparr>) s' = answers envid n s s'"
  "answers envid n s (s'\<lparr>sfs := f\<rparr>) = answers envid n s s'"
  by (simp_all add: answers_def)

lemma answers_reply1 [simp]: "answers envid (Suc 0) s (reply_to envid r va perm (s\<lparr>sfs := f\<rparr>))"
  "answers envid (Suc 0) s (reply_to envid r va perm s)"
  by (simp_all add: answers_def)

lemma quiet_cong [simp]: "quiet envid n (s\<lparr>sfs := f\<rparr>) s' = quiet envid n s s'"
  by (simp add: quiet_def)

lemma quiet_reply [simp]: "quiet envid (Suc 0) s (reply_to envid r va perm (s\<lparr>sfs := f\<rparr>))"
  "quiet envid (Suc 0) s (reply_to envid r va perm s)"
  by (simp_all add: quiet_def)

lemma or_replyE:
  assumes "or_reply envid m k s = Some s'"
  obtains e f where "m = Some (Inl e, f)" "s' = reply_err envid e (s\<lparr>sfs := f\<rparr>)"
  | x f where "m = Some (Inr x, f)" "k x (s\<lparr>sfs := f\<rparr>) = Some s'"
proof -
  from assms obtain r f where "m = Some (r, f)"
    by (auto simp: or_reply_def Option.bind_eq_Some_conv)
  with assms that show thesis
    by (cases r) (auto simp: or_reply_def)
qed

lemma or_reply_quiet:
  assumes "or_reply envid m k s = Some s'"
    and "\<And>x f s'. k x (s\<lparr>sfs := f\<rparr>) = Some s' \<Longrightarrow> quiet envid (Suc 0) s s'"
  shows "quiet envid (Suc 0) s s'"
  using assms by (auto elim!: or_replyE)

lemma with_open_quiet:
  assumes "with_open fat envid fileid k s = Some s'"
    and "\<And>i s'. k i s = Some s' \<Longrightarrow> quiet envid n s s'" and "n = Suc 0"
  shows "quiet envid (Suc 0) s s'"
  using assms by (auto simp: with_open_def split: sum.splits if_splits)

lemmas handler_quiet = or_reply_quiet with_open_quiet

lemma or_reply_end [simp]:
  "or_reply envid m (\<lambda>x s. Some (reply_to envid (r x) (va x) (p x) s)) s = Some s' \<Longrightarrow> quiet envid (Suc 0) s s'"
  by (erule or_reply_quiet) auto

text \<open>The handlers that open nothing: the tables stay, the client gets one reply.\<close>

lemma plain_handlers:
  "serve_map whom rq s = Some s' \<Longrightarrow> quiet whom (Suc 0) s s'"
  "serve_map_Fat32 whom rq s = Some s' \<Longrightarrow> quiet whom (Suc 0) s s'"
  "serve_set_size whom rq s = Some s' \<Longrightarrow> quiet whom (Suc 0) s s'"
  "serve_set_size_Fat32 whom rq s = Some s' \<Longrightarrow> quiet whom (Suc 0) s s'"
  "serve_close whom rq s = Some s' \<Longrightarrow> quiet whom (Suc 0) s s'"
  "serve_close_Fat32 whom rq s = Some s' \<Longrightarrow> quiet whom (Suc 0) s s'"
  "serve_remove whom rq s = Some s' \<Longrightarrow> quiet whom (Suc 0) s s'"
  "serve_remove_Fat32 whom rq s = Some s' \<Longrightarrow> quiet whom (Suc 0) s s'"
  "serve_removeat_Fat32 whom rq s = Some s' \<Longrightarrow> quiet whom (Suc 0) s s'"
  "serve_dirty whom rq s = Some s' \<Longrightarrow> quiet whom (Suc 0) s s'"
  "serve_flush_Fat32 whom rq s = Some s' \<Longrightarrow> quiet whom (Suc 0) s s'"
  "serve_sync whom s = Some s' \<Longrightarrow> quiet whom (Suc 0) s s'"
  "serve_BPB whom s = Some s' \<Longrightarrow> quiet whom (Suc 0) s s'"
  unfolding serve_map_def serve_map_Fat32_def serve_set_size_def serve_set_size_Fat32_def serve_close_def
    serve_close_Fat32_def serve_remove_def serve_remove_Fat32_def serve_removeat_Fat32_def serve_dirty_def
    serve_flush_Fat32_def serve_sync_def serve_BPB_def
  by (auto simp: Option.bind_eq_Some_conv Let_def elim!: handler_quiet split: if_splits)
    (auto simp: Option.bind_eq_Some_conv split: sum.split_asm)

text \<open>The handlers that open a file.\<close>

definition opened :: "bool \<Rightarrow> nat option \<Rightarrow> serv_state \<Rightarrow> serv_state \<Rightarrow> bool" where
  "opened fat po s s' \<longleftrightarrow> (\<forall>fat' j. (\<not> (fat' = fat \<and> po = Some j) \<longrightarrow> otab fat' s' j = otab fat' s j) \<and>
     o_ff (otab fat' s' j) = o_ff (otab fat' s j) \<and> o_fileid (otab fat' s' j) = o_fileid (otab fat' s j))"

lemma fill_openD:
  assumes "fill_open fat n envid omode po file s = Some s'"
  shows "opened fat po s s' \<and> answers envid (Suc 0) s s'"
  using assms by (auto simp: fill_open_def Let_def opened_def Option.bind_eq_Some_conv answers_def split: if_splits)

lemma quiet_opened: "quiet envid n s s' \<Longrightarrow> opened fat po s s' \<and> answers envid n s s'"
  by (simp add: quiet_def opened_def)

lemma opened_cong [simp]: "opened fat po (s\<lparr>sfs := f\<rparr>) s' = opened fat po s s'"
  by (simp add: opened_def)

lemma open_tail:
  assumes "or_reply envid m (fill_open fat n envid omode po) s = Some s'"
  shows "opened fat po s s' \<and> answers envid (Suc 0) s s'"
  using assms by (auto simp: quiet_opened [OF quiet_reply(1), THEN conjunct1] dest: fill_openD elim!: or_replyE)

lemma taken_opened:
  assumes "taken fat i s s1" and "opened fat (Some i) s1 s'" and "i < MAXOPEN"
    and "pageref (o_ff (otab fat s i)) s \<le> 1"
  shows "tab_step s s'"
  unfolding tab_step_def
proof (intro allI)
  fix fat' j
  show "otab fat' s' j = otab fat' s j \<or> j < MAXOPEN \<and> pageref (o_ff (otab fat' s j)) s \<le> 1 \<and>
    entry_moved (otab fat' s j) (otab fat' s' j)"
  proof (cases "fat' = fat \<and> j = i")
    case True
    then show ?thesis using assms by (simp add: taken_def opened_def entry_moved_def)
  next
    case False
    then show ?thesis using assms by (auto simp: taken_def opened_def)
  qed
qed

lemma open_chain:
  assumes "open_scan fat [0..<MAXOPEN] s = Some ((r, po), s1)"
    and "opened fat po (after_alloc envid r s1) s' \<and> answers envid (Suc 0) (after_alloc envid r s1) s'"
  shows "tab_step s s' \<and> answers envid (if sint r < 0 then 2 else 1) s s'"
proof -
  have tabs: "otab fat' (after_alloc envid r s1) = otab fat' s1" for fat'
    by (simp add: after_alloc_def)
  have rep: "replies s1 = replies s"
    using open_scanD [OF assms(1)] by (auto simp: taken_def)
  have "answers envid (if sint r < 0 then 1 else 0) s (after_alloc envid r s1)"
    using rep by (simp add: after_alloc_def answers_def)
  from answers_trans [OF this conjunct2 [OF assms(2)]]
  have "answers envid (if sint r < 0 then 2 else 1) s s'"
    by (simp add: numeral_2_eq_2 split: if_splits)
  moreover have "tab_step s s'"
    using open_scanD [OF assms(1)]
  proof (elim disjE conjE bexE)
    assume "po = None" "\<forall>fat'. otab fat' s1 = otab fat' s"
    then show ?thesis using assms(2) by (simp add: opened_def tabs tab_step_def)
  next
    fix i assume "i \<in> set [0..<MAXOPEN]" "po = Some i" "pageref (o_ff (otab fat s i)) s \<le> 1" "taken fat i s s1"
    moreover from this assms(2) have "opened fat (Some i) s1 s'" by (simp add: opened_def tabs)
    ultimately show ?thesis by (intro taken_opened) simp_all
  qed
  ultimately show ?thesis by simp
qed

lemma open_handlers:
  "serve_open whom rq s = Some s' \<Longrightarrow> \<exists>r po s1. open_alloc s = Some ((r, po), s1) \<and> tab_step s s' \<and>
     answers whom (if sint r < 0 then 2 else 1) s s'"
  "serve_open_Fat32 whom rq s = Some s' \<Longrightarrow> \<exists>r po s1. fat_open_alloc s = Some ((r, po), s1) \<and> tab_step s s' \<and>
     answers whom (if sint r < 0 then 2 else 1) s s'"
  unfolding serve_open_def serve_open_Fat32_def open_alloc_def fat_open_alloc_def Let_def
  by (auto simp only: Option.bind_eq_Some_conv prod.case split_paired_Ex option.inject prod.inject
      dest: open_chain [OF _ open_tail])

lemma openat_handler:
  assumes "serve_openat_Fat32 whom rq s = Some s'"
  shows "\<exists>r po s1. fat_open_alloc s = Some ((r, po), s1) \<and> tab_step s s' \<and>
     answers whom (if sint r < 0 then 2 else 1) s s'"
proof -
  from assms obtain r po s1 d where alloc: "fat_open_alloc s = Some ((r, po), s1)"
    and k: "with_open True whom d (\<lambda>i s. do {
       path \<leftarrow> ustr (rq + 4) (sfs s);
       omode \<leftarrow> uldw (rq + 4 + MAXPATHLEN) (sfs s);
       or_reply whom (fat_file_openat (o_file (fat_opentab s i)) path omode (sfs s))
         (fill_open True 32 whom omode po) s }) (after_alloc whom r s1) = Some s'"
    by (auto simp: serve_openat_Fat32_def Let_def Option.bind_eq_Some_conv)
  let ?s = "after_alloc whom r s1"
  have "opened True po ?s s' \<and> answers whom (Suc 0) ?s s'"
  proof (cases "fat_open_lookup whom d ?s")
    case (Inl e)
    then show ?thesis using k quiet_opened [OF quiet_reply(2)] by (auto simp: with_open_def)
  next
    case (Inr i)
    then show ?thesis using k by (auto simp: with_open_def Option.bind_eq_Some_conv dest: open_tail)
  qed
  with alloc show ?thesis
    using open_chain unfolding fat_open_alloc_def by blast
qed

definition alloc_failed :: "((u32 \<times> nat option) \<times> serv_state) option \<Rightarrow> bool" where
  "alloc_failed m \<longleftrightarrow> (case m of Some ((r, _), _) \<Rightarrow> sint r < 0 | None \<Rightarrow> False)"

definition fat_dirty_failed :: "u32 \<Rightarrow> u32 \<Rightarrow> serv_state \<Rightarrow> bool" where
  "fat_dirty_failed whom rq s \<longleftrightarrow>
    (case (uldw rq (sfs s), uldw (rq + 4) (sfs s)) of
       (Some fileid, Some offset) \<Rightarrow>
         (case fat_open_lookup whom fileid s of
            Inl _ \<Rightarrow> False
          | Inr i \<Rightarrow> (case fat_file_dirty (o_file (fat_opentab s i)) offset (sfs s) of
              Some (Inl _, _) \<Rightarrow> True | _ \<Rightarrow> False))
     | _ \<Rightarrow> False)"

lemma dirty_Fat32_quiet:
  assumes "serve_dirty_Fat32 whom rq s = Some s'"
  shows "quiet whom (if fat_dirty_failed whom rq s then 2 else 1) s s'"
proof -
  from assms obtain fileid offset where rd: "uldw rq (sfs s) = Some fileid" "uldw (rq + 4) (sfs s) = Some offset"
    by (auto simp: serve_dirty_Fat32_def Option.bind_eq_Some_conv)
  show ?thesis
  proof (cases "fat_open_lookup whom fileid s")
    case (Inl e)
    then show ?thesis using assms rd by (auto simp: serve_dirty_Fat32_def with_open_def fat_dirty_failed_def)
  next
    case (Inr i)
    with assms rd obtain r f where r: "fat_file_dirty (o_file (fat_opentab s i)) offset (sfs s) = Some (r, f)"
      and s': "s' = reply_ok whom (case r of Inl e \<Rightarrow> reply_err whom e (s\<lparr>sfs := f\<rparr>) | Inr _ \<Rightarrow> s\<lparr>sfs := f\<rparr>)"
      by (auto simp: serve_dirty_Fat32_def with_open_def Let_def Option.bind_eq_Some_conv)
    have "quiet whom 2 s (reply_ok whom (reply_err whom e (s\<lparr>sfs := f\<rparr>)))" for e
      by (simp add: quiet_def answers_def)
    then show ?thesis using rd Inr r s' by (cases r) (auto simp: fat_dirty_failed_def)
  qed
qed

section \<open>Requests and their replies\<close>

definition fs_requests :: "u32 set" where
  "fs_requests = {1, 2, 3, 4, 5, 6, 7, 8, 9, 10, 11, 0x10001, 0x10002, 0x10003, 0x10004, 0x10005, 0x10006}"

text \<open>The requests that get an error and then a second message.\<close>

definition replies_twice :: "message \<Rightarrow> serv_state \<Rightarrow> bool" where
  "replies_twice m s = (let s0 = deliver m s in
     if m_req m = 1 then alloc_failed (open_alloc s0)
     else if m_req m = 9 \<or> m_req m = 0x10001 then alloc_failed (fat_open_alloc s0)
     else m_req m = 0x10005 \<and> fat_dirty_failed (m_whom m) REQVA s0)"

definition nreplies :: "message \<Rightarrow> serv_state \<Rightarrow> nat" where
  "nreplies m s = (if m_req m \<notin> fs_requests then 0 else if replies_twice m s then 2 else 1)"

lemma quietD: "quiet envid n s s' \<Longrightarrow> tab_step s s' \<and> answers envid n s s'"
  by (simp add: quiet_def tab_step_def)

lemma tab_step_refl [simp]: "tab_step s s"
  by (simp add: tab_step_def)

lemma dispatch_effect:
  assumes d: "dispatch (m_req m) (m_whom m) (deliver m s) = Some s'"
  shows "tab_step (deliver m s) s' \<and> answers (m_whom m) (nreplies m s) (deliver m s) s'"
proof (cases "m_req m \<in> {1, 9, 0x10001, 0x10005}")
  case True
  then show ?thesis using d
    by (auto simp: dispatch_def nreplies_def fs_requests_def replies_twice_def alloc_failed_def Let_def
        dest: open_handlers openat_handler quietD [OF dirty_Fat32_quiet] split: if_splits)
next
  case False
  then have one: "\<not> replies_twice m s" by (auto simp: replies_twice_def Let_def)
  show ?thesis
  proof (cases "m_req m \<in> fs_requests")
    case True
    then show ?thesis using False d one
      by (auto simp: dispatch_def nreplies_def fs_requests_def dest: plain_handlers [THEN quietD])
  next
    case False
    then show ?thesis using d by (auto simp: dispatch_def nreplies_def fs_requests_def)
  qed
qed

text \<open>The reply discipline of the server.  A request with an argument page that the server
  completes gets its replies from the server in order, all of them to the client that asked: one for
  each known request code, none for an unknown code (the client waits for ever), and two exactly
  when an open request found no entry of the table, or a dirty request on a FAT32 file failed: the
  handlers send the error and go on to send a second message.\<close>

theorem serve_replies:
  assumes "serve m s = Some s'" and "m_perm m AND PTE_V \<noteq> 0"
  shows "\<exists>rs. replies s' = replies s @ rs \<and> (\<forall>r \<in> set rs. rp_env r = m_whom m) \<and>
    length rs = (if m_req m \<notin> fs_requests then 0 else if replies_twice m s then 2 else 1)"
proof -
  from assms obtain s1 where d: "dispatch (m_req m) (m_whom m) (deliver m s) = Some s1"
    and s': "replies s' = replies s1"
    by (auto simp: serve_def Option.bind_eq_Some_conv)
  show ?thesis
    using dispatch_effect [OF d] s' unfolding answers_def nreplies_def by (auto simp: deliver_def split: option.splits)
qed

section \<open>Runs of the server\<close>

text \<open>Between two requests clients may map a descriptor page they hold once more (\<^verbatim>\<open>dup\<close>,
  \<^verbatim>\<open>fork\<close>), unmap it, and store into pages they got in a reply.\<close>

inductive serv_step :: "serv_state \<Rightarrow> serv_state \<Rightarrow> bool" where
  request: "serve m s = Some s' \<Longrightarrow> serv_step s s'"
| client_map: "2 \<le> pp_refs s p \<Longrightarrow> serv_step s (s\<lparr>pp_refs := (pp_refs s)(p := pp_refs s p + 1)\<rparr>)"
| client_unmap: "2 \<le> pp_refs s p \<Longrightarrow> serv_step s (s\<lparr>pp_refs := (pp_refs s)(p := pp_refs s p - 1)\<rparr>)"
| client_store: "(\<And>a. upage a \<notin> (\<lambda>r. upage (rp_va r)) ` set (replies s) \<Longrightarrow> mem a = umem (sfs s) a) \<Longrightarrow>
    serv_step s (s\<lparr>sfs := (sfs s)\<lparr>umem := mem\<rparr>\<rparr>)"

lemma serve_tabs:
  assumes "serve m s = Some s'"
  shows "\<forall>fat i. otab fat s' i = otab fat s i \<or>
    i < MAXOPEN \<and> pageref (o_ff (otab fat s i)) (deliver m s) \<le> 1 \<and> entry_moved (otab fat s i) (otab fat s' i)"
proof (cases "m_perm m AND PTE_V = 0")
  case False
  with assms obtain s1 where d: "dispatch (m_req m) (m_whom m) (deliver m s) = Some s1"
    and s': "\<And>fat. otab fat s' = otab fat s1"
    by (auto simp: serve_def Option.bind_eq_Some_conv)
  show ?thesis
    using dispatch_effect [OF d] by (simp add: tab_step_def s')
qed (use assms in \<open>auto simp: serve_def\<close>)

definition entry_ok :: "nat \<Rightarrow> Open \<Rightarrow> bool" where
  "entry_ok i e \<longleftrightarrow> o_ff e = FILEVA + of_nat i * BY2PG \<and> unat (o_fileid e) mod MAXOPEN = i"

definition tabs_ok :: "serv_state \<Rightarrow> bool" where
  "tabs_ok s \<longleftrightarrow> (\<forall>fat. \<forall>i < MAXOPEN. entry_ok i (otab fat s i))"

lemma entry_moved_ok:
  assumes "entry_ok i e" and "entry_moved e e'"
  shows "entry_ok i e'"
proof -
  have "unat (o_fileid e + 1024) mod 1024 = unat (o_fileid e) mod 1024"
    by (simp add: unat_word_ariths mod_mod_cancel)
  with assms show ?thesis by (simp add: entry_ok_def entry_moved_def)
qed

lemma serve_init_ok: "tabs_ok (serve_init s)"
  by (auto simp: tabs_ok_def entry_ok_def serve_init_def otab_def unsigned_of_nat take_bit_nat_eq_self)

lemma serv_step_ok:
  assumes "serv_step s s'" and "tabs_ok s"
  shows "tabs_ok s'"
  using assms
proof cases
  case (request m)
  show ?thesis
    unfolding tabs_ok_def
  proof (intro allI impI)
    fix fat :: bool and i :: nat assume i: "i < MAXOPEN"
    with assms(2) have "entry_ok i (otab fat s i)" by (simp add: tabs_ok_def)
    with serve_tabs [OF request] show "entry_ok i (otab fat s' i)" by (metis entry_moved_ok)
  qed
qed (simp_all add: tabs_ok_def)

text \<open>C25. The open tables are well formed in every state the server reaches, whatever requests
  arrive and whatever the clients do with the pages they hold: entry \<open>i\<close> of either table keeps the
  \<open>i\<close>-th descriptor page, and its file id is \<open>i\<close> modulo the size of the table, also when the 32-bit
  id wraps around.  So the entry a lookup of an id inspects is the only one that can have the id.\<close>

theorem open_tables_ok:
  assumes "serv_step\<^sup>*\<^sup>* (serve_init s0) s" and "i < MAXOPEN"
  shows "entry_ok i (opentab s i) \<and> entry_ok i (fat_opentab s i)"
proof -
  from assms(1) have "tabs_ok s"
    by (induction rule: rtranclp_induct) (auto intro: serve_init_ok serv_step_ok)
  then show ?thesis using assms(2) by (metis tabs_ok_def otab_bool)
qed

section \<open>A held id stays valid\<close>

definition desc_page :: "nat \<Rightarrow> u32" where
  "desc_page i = FILEVA + of_nat i * BY2PG"

lemma desc_page_unat: "i < MAXOPEN \<Longrightarrow> unat (desc_page i) = 1610612736 + i * 4096"
  by (simp add: desc_page_def unat_word_ariths unsigned_of_nat take_bit_nat_eq_self)

lemma upage_desc:
  assumes "i < MAXOPEN" and "k < 4096"
  shows "upage (desc_page i + of_nat k) = 393216 + i"
proof -
  have "unat (desc_page i + of_nat k) = 1610612736 + i * 4096 + k"
    using assms by (simp add: unat_word_ariths desc_page_unat unsigned_of_nat take_bit_nat_eq_self)
  then show ?thesis using assms(2) by (simp add: upage_def)
qed

lemma upage_desc0 [simp]: "i < MAXOPEN \<Longrightarrow> upage (desc_page i) = 393216 + i"
  using upage_desc [of i 0] by simp

lemma desc_page_of: "tabs_ok s \<Longrightarrow> i < MAXOPEN \<Longrightarrow> o_ff (otab fat s i) = desc_page i"
  by (simp add: tabs_ok_def entry_ok_def desc_page_def)

lemma pageref_deliver:
  assumes "i < MAXOPEN"
  shows "pageref (desc_page i) (deliver m s) = pageref (desc_page i) s"
proof -
  have "upage (desc_page i) \<noteq> upage REQVA" using assms by (simp add: upage_def [of REQVA])
  then show ?thesis by (simp add: pageref_def deliver_def va_is_mapped_def split: option.split)
qed

text \<open>A run in which some client maps descriptor page \<open>i\<close> before every step.\<close>

inductive held :: "nat \<Rightarrow> serv_state \<Rightarrow> serv_state \<Rightarrow> bool" for i s where
  held_refl: "held i s s"
| held_step: "held i s s1 \<Longrightarrow> 2 \<le> pageref (desc_page i) s1 \<Longrightarrow> serv_step s1 s2 \<Longrightarrow> held i s s2"

lemma held_step_same:
  assumes "serv_step s s'" and "tabs_ok s" and "i < MAXOPEN" and "2 \<le> pageref (desc_page i) s"
  shows "otab fat s' i = otab fat s i"
  using assms(1)
proof cases
  case (request m)
  have "\<not> pageref (o_ff (otab fat s i)) (deliver m s) \<le> 1"
    using assms by (simp add: desc_page_of pageref_deliver)
  with serve_tabs [OF request] show ?thesis by blast
qed simp_all

lemma held_same:
  assumes "held i s s'" and "tabs_ok s" and "i < MAXOPEN"
  shows "tabs_ok s' \<and> (\<forall>fat. otab fat s' i = otab fat s i)"
  using assms
proof induction
  case (held_step s1 s2)
  then show ?case using serv_step_ok held_step_same by metis
qed simp

lemma held_lookup:
  assumes "held i s s'" and "tabs_ok s" and "open_find fat fileid s = Inr i" and "2 \<le> pageref (desc_page i) s'"
  shows "open_find fat fileid s' = Inr i \<and> otab fat s' i = otab fat s i"
proof -
  have i: "i = unat fileid mod MAXOPEN" "o_fileid (otab fat s i) = fileid"
    using assms(3) by (auto simp: open_find_def Let_def split: if_splits)
  then have lt: "i < MAXOPEN" by simp
  from held_same [OF assms(1,2) lt] have "tabs_ok s'" and same: "otab fat s' i = otab fat s i" by auto
  then have "o_ff (otab fat s' i) = desc_page i" using desc_page_of lt by blast
  then show ?thesis using assms(4) i same by (simp add: open_find_def Let_def)
qed

text \<open>C23. An open file stays open as long as a client holds it.  While at least one client maps the
  descriptor page of entry \<open>i\<close> (its reference count is at least two in every state of the run), no
  request of any client and no action of the others makes the server reuse the entry in either
  table: the id finds the same entry with the same file and mode after the run.\<close>

theorem held_id_valid:
  assumes "serv_step\<^sup>*\<^sup>* (serve_init s0) s" and "held i s s'" and "2 \<le> pageref (desc_page i) s'"
  shows "(open_lookup envid fileid s = Inr i \<longrightarrow>
      open_lookup envid fileid s' = Inr i \<and> opentab s' i = opentab s i) \<and>
    (fat_open_lookup envid fileid s = Inr i \<longrightarrow>
      fat_open_lookup envid fileid s' = Inr i \<and> fat_opentab s' i = fat_opentab s i)"
proof -
  from assms(1) have "tabs_ok s"
    by (induction rule: rtranclp_induct) (auto intro: serve_init_ok serv_step_ok)
  note lookup = held_lookup [OF assms(2) this _ assms(3)]
  show ?thesis
    using lookup [of False fileid] lookup [of True fileid]
    by (simp add: open_lookup_def fat_open_lookup_def otab_bool)
qed

section \<open>Allocating an entry\<close>

lemma open_scan_skip:
  "\<forall>j \<in> set js. 2 \<le> pageref (o_ff (otab fat s j)) s \<Longrightarrow> open_scan fat (js @ ks) s = open_scan fat ks s"
  by (induction js) (auto simp: Let_def)

lemma open_scan_from:
  assumes "i \<le> n" and "\<forall>j < i. 2 \<le> pageref (o_ff (otab fat s j)) s"
  shows "open_scan fat [0..<n] s = open_scan fat [i..<n] s"
proof -
  have "[0..<n] = [0..<i] @ [i..<n]" using assms(1) upt_add_eq_append [of 0 i "n - i"] by simp
  moreover have "\<forall>j \<in> set [0..<i]. 2 \<le> pageref (o_ff (otab fat s j)) s"
    using assms by simp
  ultimately show ?thesis using open_scan_skip by metis
qed

lemma open_scan_at:
  assumes "i < n" and "\<forall>j < i. 2 \<le> pageref (o_ff (otab fat s j)) s"
  shows "open_scan fat [0..<n] s = open_scan fat (i # [Suc i..<n]) s"
  using open_scan_from [of i n fat s] assms by (simp only: upt_conv_Cons less_imp_le)

lemma writable_desc:
  assumes "writable (desc_page i) s" and "i < MAXOPEN" and "k < 4096"
  shows "writable (desc_page i + of_nat k) s"
  using assms upage_desc [of i k] by (simp add: writable_def va_is_mapped_def)

lemma desc_range:
  assumes "i < MAXOPEN"
  shows "unat (a - desc_page i) < 4096 \<longleftrightarrow> upage a = 393216 + i"
proof
  assume l: "unat (a - desc_page i) < 4096"
  have "a = desc_page i + of_nat (unat (a - desc_page i))" by simp
  then show "upage a = 393216 + i" using upage_desc [OF assms l] by simp
next
  assume "upage a = 393216 + i"
  then have "unat a = (393216 + i) * 4096 + unat a mod 4096"
    unfolding upage_def by (metis div_mult_mod_eq)
  moreover have "unat a mod 4096 < 4096" by simp
  ultimately have "unat (desc_page i) \<le> unat a \<and> unat a - unat (desc_page i) < 4096"
    using desc_page_unat [OF assms] by simp
  then show "unat (a - desc_page i) < 4096" by (simp add: unat_sub word_le_nat_alt)
qed

lemma open_take_ok:
  assumes "o_ff (otab fat s i) = desc_page i" and i: "i < MAXOPEN" and "writable (desc_page i) (sfs s)"
  shows "open_take fat i s = Some ((o_fileid (otab fat s i) + of_nat MAXOPEN, Some i),
    (otab_put fat i ((otab fat s i)\<lparr>o_fileid := o_fileid (otab fat s i) + of_nat MAXOPEN\<rparr>) s)
      \<lparr>sfs := (sfs s)\<lparr>umem := (\<lambda>a. if upage a = 393216 + i then 0 else umem (sfs s) a)\<rparr>\<rparr>)"
proof -
  have "ufill (desc_page i) 0 4096 (sfs s) =
    Some ((sfs s)\<lparr>umem := mem_upd (desc_page i) 4096 (\<lambda>_. 0) (umem (sfs s))\<rparr>)"
    using writable_desc [OF assms(3) i] by (intro ufill_eq) simp_all
  moreover have "mem_upd (desc_page i) 4096 (\<lambda>_. 0) (umem (sfs s)) = (\<lambda>a. if upage a = 393216 + i then 0 else umem (sfs s) a)"
    using desc_range [OF i] by (auto simp: mem_upd_def fun_eq_iff)
  ultimately show ?thesis using assms(1) by (simp add: open_take_def Let_def)
qed

lemma desc_legal: "i < MAXOPEN \<Longrightarrow> \<not> is_illegal_va (desc_page i)"
  using desc_page_unat [of i] by (simp add: is_illegal_va_def mmu_layout word_less_nat_alt word_le_nat_alt)

text \<open>The entry \<open>i\<close> was given away: its id moved on, its page is zero, mapped by the server alone,
  and nothing else of the tables changed.\<close>

definition gave :: "bool \<Rightarrow> nat \<Rightarrow> serv_state \<Rightarrow> serv_state \<Rightarrow> bool" where
  "gave fat i s s' \<longleftrightarrow> taken fat i s s' \<and> pageref (desc_page i) s' = 1 \<and> writable (desc_page i) (sfs s') \<and>
     (\<forall>a. umem (sfs s') a = (if upage a = upage (desc_page i) then 0 else umem (sfs s) a)) \<and>
     (\<forall>p. p \<noteq> upage (desc_page i) \<longrightarrow> uperm (sfs s') p = uperm (sfs s) p)"

lemma alloc_at:
  assumes ok: "tabs_ok s" and lt: "i < n" and n: "n \<le> MAXOPEN" and held: "\<forall>j < i. 2 \<le> pageref (desc_page j) s"
    and free: "pageref (desc_page i) s \<le> 1"
    and wr: "pageref (desc_page i) s = 1 \<Longrightarrow> writable (desc_page i) (sfs s)"
    and mem: "pageref (desc_page i) s = 0 \<Longrightarrow> \<not> oom (sfs s) (nalloc (sfs s))"
  shows "\<exists>s'. open_scan fat [0..<n] s = Some ((o_fileid (otab fat s i) + of_nat MAXOPEN, Some i), s') \<and> gave fat i s s'"
proof -
  have i: "i < MAXOPEN" using lt n by simp
  have "\<forall>j < i. 2 \<le> pageref (o_ff (otab fat s j)) s"
    using held i by (simp add: desc_page_of [OF ok])
  with i have scan: "open_scan fat [0..<n] s = open_scan fat (i # [Suc i..<n]) s"
    using lt by (intro open_scan_at)
  have ff: "o_ff (otab fat s i) = desc_page i" by (rule desc_page_of [OF ok i])
  show ?thesis
  proof (cases "pageref (desc_page i) s = 0")
    case True
    define f where "f = snd (syscall_mem_alloc (desc_page i) (PTE_D OR PTE_LIBRARY) (sfs s))"
    define s1 where "s1 = s\<lparr>sfs := f, pp_refs := (pp_refs s)(393216 + i := 1)\<rparr>"
    have "syscall_mem_alloc (desc_page i) (PTE_D OR PTE_LIBRARY) (sfs s) = (Inr (), f)"
      using desc_legal [OF i] mem [OF True] by (simp add: f_def syscall_mem_alloc_def)
    then have "open_scan fat (i # [Suc i..<n]) s = open_take fat i s1"
      using True i by (simp add: ff s1_def)
    moreover have "writable (desc_page i) (sfs s1)"
      using desc_legal [OF i] mem [OF True] i
      by (simp add: s1_def f_def syscall_mem_alloc_def writable_def va_is_mapped_def)
    ultimately show ?thesis
      using scan open_take_ok [of fat s1 i] ff i desc_legal [OF i] mem [OF True]
      by (auto simp: s1_def f_def gave_def taken_def pageref_def syscall_mem_alloc_def writable_def va_is_mapped_def)
  next
    case False
    then have one: "pageref (desc_page i) s = 1" using free by simp
    then have "open_scan fat (i # [Suc i..<n]) s = open_take fat i s" by (simp add: ff)
    then show ?thesis
      using scan open_take_ok [OF ff i wr [OF one]] wr [OF one] one i
      by (auto simp: gave_def taken_def pageref_def writable_def va_is_mapped_def split: if_splits)
  qed
qed

lemma alloc_full:
  assumes ok: "tabs_ok s" and n: "n \<le> MAXOPEN" and held: "\<forall>j < n. 2 \<le> pageref (desc_page j) s"
  shows "open_scan fat [0..<n] s = Some ((ret_word (Inl E_MAX_OPEN), None), s)"
proof -
  have "\<forall>j < n. 2 \<le> pageref (o_ff (otab fat s j)) s" using held n by (simp add: desc_page_of [OF ok])
  then show ?thesis using open_scan_from [of n n fat s] by simp
qed

lemma alloc_no_mem:
  assumes ok: "tabs_ok s" and lt: "i < n" and n: "n \<le> MAXOPEN" and held: "\<forall>j < i. 2 \<le> pageref (desc_page j) s"
    and "pageref (desc_page i) s = 0" and "oom (sfs s) (nalloc (sfs s))"
  shows "open_scan fat [0..<n] s =
    Some ((ret_word (Inl E_NO_MEM), None), s\<lparr>sfs := (sfs s)\<lparr>nalloc := nalloc (sfs s) + 1\<rparr>\<rparr>)"
proof -
  have "\<forall>j < i. 2 \<le> pageref (o_ff (otab fat s j)) s" using held lt n by (simp add: desc_page_of [OF ok])
  then have "open_scan fat [0..<n] s = open_scan fat (i # [Suc i..<n]) s" using lt by (intro open_scan_at)
  then show ?thesis
    using assms(5,6) lt n by (simp add: desc_page_of [OF ok] syscall_mem_alloc_def desc_legal)
qed

lemma gave_taken: "gave fat i s s' \<Longrightarrow> taken fat i s s'"
  by (simp only: gave_def)

lemma gave_moved: "gave fat i s s' \<Longrightarrow> entry_moved (otab fat s i) (otab fat s' i)"
  by (drule gave_taken) (simp add: taken_def entry_moved_def)

lemma gave_lookup:
  assumes ok: "tabs_ok s" and g: "gave fat i s s'" and i: "i < MAXOPEN"
  shows "open_find fat (o_fileid (otab fat s i)) s' = Inl E_INVAL"
proof -
  have "unat (o_fileid (otab fat s i)) mod MAXOPEN = i" using ok i by (simp add: tabs_ok_def entry_ok_def)
  moreover have "pageref (o_ff (otab fat s' i)) s' = 1"
    using g desc_page_of [OF ok i] by (simp add: gave_def taken_def)
  ultimately show ?thesis by (simp add: open_find_def Let_def)
qed

text \<open>Allocation of an open-file entry, on every branch and for both tables.  Let \<open>i\<close> be the
  first entry whose descriptor page no client maps (\<open>MAXOPEN\<close> when there is none).  With no such
  entry the allocator returns \<^verbatim>\<open>-E_MAX_OPEN\<close> and changes nothing; when the page of entry \<open>i\<close> was
  never allocated and memory is exhausted it returns \<^verbatim>\<open>-E_NO_MEM\<close>; otherwise it hands out
  entry \<open>i\<close> with the id moved on by \<^verbatim>\<open>MAXOPEN\<close>, the page zeroed and mapped by the server alone,
  every other entry and page untouched, and the previous id of the entry is no longer accepted.\<close>

theorem open_alloc_correct:
  assumes "tabs_ok s" and "i \<le> MAXOPEN" and "\<forall>j < i. 2 \<le> pageref (desc_page j) s"
    and "i < MAXOPEN \<Longrightarrow> pageref (desc_page i) s \<le> 1"
    and "pageref (desc_page i) s = 1 \<Longrightarrow> writable (desc_page i) (sfs s)"
  shows "let alloc = (if fat then fat_open_alloc else open_alloc); full = oom (sfs s) (nalloc (sfs s)) in
    if i = MAXOPEN then alloc s = Some ((ret_word (Inl E_MAX_OPEN), None), s)
    else if pageref (desc_page i) s = 0 \<and> full
    then alloc s = Some ((ret_word (Inl E_NO_MEM), None), s\<lparr>sfs := (sfs s)\<lparr>nalloc := nalloc (sfs s) + 1\<rparr>\<rparr>)
    else \<exists>s'. alloc s = Some ((o_fileid (otab fat s i) + of_nat MAXOPEN, Some i), s') \<and> gave fat i s s' \<and>
      open_find fat (o_fileid (otab fat s i)) s' = Inl E_INVAL"
proof -
  have scan: "(if fat then fat_open_alloc else open_alloc) s = open_scan fat [0..<MAXOPEN] s"
    unfolding fat_open_alloc_def open_alloc_def by (cases fat) (simp_all only: if_True if_False)
  consider (none) "i = MAXOPEN"
    | (mem) "i < MAXOPEN" "pageref (desc_page i) s = 0" "oom (sfs s) (nalloc (sfs s))"
    | (give) "i < MAXOPEN" "\<not> (pageref (desc_page i) s = 0 \<and> oom (sfs s) (nalloc (sfs s)))"
    using assms(2) by linarith
  then show ?thesis
  proof cases
    case none
    show ?thesis unfolding Let_def scan
      using none alloc_full [OF assms(1) order_refl, of fat] assms(3) by (simp only: simp_thms if_True)
  next
    case mem
    have "i \<noteq> MAXOPEN" using mem(1) by simp
    then show ?thesis unfolding Let_def scan
      using alloc_no_mem [OF assms(1) mem(1) order_refl assms(3) mem(2,3)] mem(2,3)
      by (simp only: simp_thms if_True if_False)
  next
    case give
    have "\<exists>s'. open_scan fat [0..<MAXOPEN] s = Some ((o_fileid (otab fat s i) + of_nat MAXOPEN, Some i), s') \<and> gave fat i s s'"
      using give assms(4,5) by (intro alloc_at [OF assms(1) give(1) order_refl assms(3)]) auto
    then have "\<exists>s'. open_scan fat [0..<MAXOPEN] s = Some ((o_fileid (otab fat s i) + of_nat MAXOPEN, Some i), s') \<and> gave fat i s s' \<and>
        open_find fat (o_fileid (otab fat s i)) s' = Inl E_INVAL"
      using gave_lookup [OF assms(1) _ give(1)] by blast
    moreover have "i \<noteq> MAXOPEN" using give(1) by simp
    ultimately show ?thesis unfolding Let_def scan
      using give(2) by (simp only: simp_thms if_False)
  qed
qed

section \<open>Requests that cannot be served\<close>

text \<open>The words of the request page, and an id that names no open file.\<close>

definition req_word :: "(u32 \<Rightarrow> u8) \<Rightarrow> u32 \<Rightarrow> u32" where
  "req_word pg k = word_at pg (REQVA + k)"

definition bad_id :: "bool \<Rightarrow> u32 \<Rightarrow> serv_state \<Rightarrow> bool" where
  "bad_id fat fileid s \<longleftrightarrow> (let i = unat fileid mod MAXOPEN in
     pageref (desc_page i) s = 1 \<or> o_fileid (otab fat s i) \<noteq> fileid)"

text \<open>The server after a request: the replies are out, the file systems are as in \<open>f\<close>, the request page is
  unmapped, and the tables and the reference counts are those from before.\<close>

definition request_done :: "message \<Rightarrow> u32 list \<Rightarrow> fat_state \<Rightarrow> serv_state \<Rightarrow> serv_state" where
  "request_done m vs f s = s\<lparr>replies := replies s @ map (\<lambda>v. Reply (m_whom m) v 0 0) vs,
     sfs := f\<lparr>uperm := (uperm f)(upage REQVA := 0)\<rparr>\<rparr>"

lemma req_words:
  assumes "m_page m = Some pg"
  shows "uldw REQVA (sfs (deliver m s)) = Some (req_word pg 0)" "uldw (REQVA + 4) (sfs (deliver m s)) = Some (req_word pg 4)"
    "uldw (REQVA + 8) (sfs (deliver m s)) = Some (req_word pg 8)"
    "uldw (REQVA + MAXPATHLEN) (sfs (deliver m s)) = Some (req_word pg MAXPATHLEN)"
  using assms
  by (simp_all add: uldw_def va_is_mapped_def deliver_def req_word_def word_at_def upage_def)

lemma deliver_same [simp]:
  "otab fat (deliver m s) = otab fat s" "opentab (deliver m s) = opentab s" "fat_opentab (deliver m s) = fat_opentab s"
  "replies (deliver m s) = replies s" "pp_refs (deliver m s) = pp_refs s" "tabs_ok (deliver m s) = tabs_ok s"
  "(deliver m s)\<lparr>sfs := f\<rparr> = s\<lparr>sfs := f\<rparr>"
  by (simp_all add: deliver_def otab_def tabs_ok_def split: option.split)

lemma open_find_deliver:
  assumes "tabs_ok s"
  shows "open_find fat fileid (deliver m s) = (if bad_id fat fileid s then Inl E_INVAL else Inr (unat fileid mod MAXOPEN))"
  by (simp add: open_find_def bad_id_def Let_def desc_page_of [OF assms] pageref_deliver)

lemma bad_id_refused:
  assumes "tabs_ok s" and "bad_id fat fileid s"
  shows "with_open fat envid fileid k (deliver m s) = Some (reply_err envid E_INVAL (deliver m s))"
  using assms by (cases fat) (simp_all add: with_open_def open_lookup_def fat_open_lookup_def open_find_deliver)

lemma serve_dispatch:
  assumes "m_perm m AND PTE_V \<noteq> 0" and "dispatch (m_req m) (m_whom m) (deliver m s) = Some s1"
    and "s1 = s\<lparr>replies := replies s @ map (\<lambda>v. Reply (m_whom m) v 0 0) vs, sfs := f\<rparr>"
  shows "serve m s = Some (request_done m vs f s)"
  using assms by (simp add: serve_def request_done_def syscall_mem_unmap_def is_illegal_va_def mmu_layout)

lemma reply_deliver:
  "reply_to envid v 0 0 (deliver m s) = s\<lparr>replies := replies s @ [Reply envid v 0 0], sfs := sfs (deliver m s)\<rparr>"
  "reply_to envid w 0 0 (reply_to envid v 0 0 (s\<lparr>sfs := f\<rparr>)) = s\<lparr>replies := replies s @ [Reply envid v 0 0, Reply envid w 0 0], sfs := f\<rparr>"
  by (simp_all add: reply_to_def deliver_def split: option.split)


section \<open>Opening a file\<close>

lemma put_word_other: "4 \<le> unat (b - a) \<Longrightarrow> put_word a v m b = m b"
proof -
  assume far: "4 \<le> unat (b - a)"
  have "b \<noteq> a + of_nat k" if "k < 4" for k
    using far that by (auto simp: unsigned_of_nat take_bit_nat_eq_self)
  from this [of 0] this [of 1] this [of 2] this [of 3] show ?thesis by (simp add: put_word_def)
qed

lemma desc_member:
  assumes "i < MAXOPEN" and "k < 4096"
  shows "unat (desc_page i + of_nat k) = 1610612736 + i * 4096 + k"
  using assms by (simp add: unat_word_ariths desc_page_unat unsigned_of_nat take_bit_nat_eq_self)

lemma desc_ustw:
  assumes "writable (desc_page i) s" and "i < MAXOPEN" and "k < 4096" and "k mod 4 = 0"
  shows "ustw (desc_page i + of_nat k) v s = Some (s\<lparr>umem := put_word (desc_page i + of_nat k) v (umem s)\<rparr>)"
proof -
  have "unat (desc_page i + of_nat k) mod 4 = 0" using desc_member [OF assms(2,3)] assms(4) by presburger
  then show ?thesis using writable_desc [OF assms(1-3)] by (simp add: ustw_def)
qed

definition desc_mem :: "nat \<Rightarrow> nat \<Rightarrow> u32 \<Rightarrow> u32 \<Rightarrow> u32 \<Rightarrow> u32 \<Rightarrow> (u32 \<Rightarrow> u8) \<Rightarrow> u32 \<Rightarrow> u8" where
  "desc_mem i n fileid omode fat file m =
     put_word (desc_page i + 12) fat (put_word (desc_page i) dev_file_id (put_word (desc_page i + 8) omode
       (put_word (desc_page i + 16) fileid (mem_upd (desc_page i + 20) n (\<lambda>k. m (file + of_nat k)) m))))"

text \<open>What the client finds in the descriptor page.\<close>

lemma desc_mem_read:
  assumes i: "i < MAXOPEN" and n: "n \<le> 256"
  shows "word_at (desc_mem i n fileid omode fat src m) (f_fileid (desc_page i)) = fileid"
    "word_at (desc_mem i n fileid omode fat src m) (f_fd_omode (desc_page i)) = omode"
    "word_at (desc_mem i n fileid omode fat src m) (f_fd_dev_id (desc_page i)) = dev_file_id"
    "word_at (desc_mem i n fileid omode fat src m) (f_fd_fat (desc_page i)) = fat"
    "k < n \<Longrightarrow> desc_mem i n fileid omode fat src m (f_file (desc_page i) + of_nat k) = m (src + of_nat k)"
proof -
  have al: "unat (desc_page i + of_nat c) mod 4 = 0" if "c < 4096" "c mod 4 = 0" for c
    using desc_member [OF i that(1)] that(2) by presburger
  have al': "unat (desc_page i) mod 4 = 0" "unat (desc_page i + 8) mod 4 = 0" "unat (desc_page i + 12) mod 4 = 0"
    "unat (desc_page i + 16) mod 4 = 0" using al [of 0] al [of 8] al [of 12] al [of 16] by simp_all
  show "word_at (desc_mem i n fileid omode fat src m) (f_fileid (desc_page i)) = fileid"
    "word_at (desc_mem i n fileid omode fat src m) (f_fd_omode (desc_page i)) = omode"
    "word_at (desc_mem i n fileid omode fat src m) (f_fd_dev_id (desc_page i)) = dev_file_id"
    "word_at (desc_mem i n fileid omode fat src m) (f_fd_fat (desc_page i)) = fat"
    by (simp_all add: desc_mem_def al')
  show "desc_mem i n fileid omode fat src m (f_file (desc_page i) + of_nat k) = m (src + of_nat k)" if "k < n"
  proof -
    have far: "4 \<le> unat (desc_page i + 20 + of_nat k - (desc_page i + of_nat c))" if "c \<le> 16" for c
    proof -
      have "desc_page i + 20 + of_nat k - (desc_page i + of_nat c) = of_nat (20 + k - c)"
        using that by (simp add: of_nat_diff)
      also have "unat (of_nat (20 + k - c) :: u32) = 20 + k - c"
        using \<open>k < n\<close> n by (intro word_of_nat_unat_eq) simp
      finally show ?thesis using that by linarith
    qed
    have "unat (desc_page i + 20 + of_nat k - (desc_page i + 20)) = k"
      using that n by (simp add: word_of_nat_unat_eq)
    then show ?thesis
      using far [of 0] far [of 8] far [of 12] far [of 16] that
      by (simp add: desc_mem_def put_word_other mem_upd_def)
  qed
qed

lemma fill_open_ok:
  assumes i: "i < MAXOPEN" and ff: "o_ff (otab fat s i) = desc_page i" and n: "n \<le> 256"
    and w: "writable (desc_page i) (sfs s)" and f: "\<forall>k < n. va_is_mapped (file + of_nat k) (sfs s)"
    and apart: "\<forall>k < n. upage (file + of_nat k) \<noteq> upage (desc_page i)"
  shows "fill_open fat n envid omode (Some i) file s =
    Some (reply_to envid 0 (desc_page i) (PTE_D OR PTE_LIBRARY)
      ((otab_put fat i ((otab fat s i)\<lparr>o_file := file, o_mode := omode\<rparr>) s)\<lparr>sfs := (sfs s)\<lparr>umem :=
        desc_mem i n (o_fileid (otab fat s i)) omode (if fat then 1 else 0) file (umem (sfs s))\<rparr>\<rparr>))"
proof -
  have "n \<le> unat (file + of_nat k - (desc_page i + 20))" if "k < n" for k
  proof (rule ccontr)
    assume "\<not> n \<le> unat (file + of_nat k - (desc_page i + 20))"
    then have l: "20 + unat (file + of_nat k - (desc_page i + 20)) < 4096" using n by linarith
    have "file + of_nat k = desc_page i + of_nat (20 + unat (file + of_nat k - (desc_page i + 20)))" by simp
    then show False using upage_desc [OF i l] apart that i by simp
  qed
  moreover have "writable (desc_page i + 20 + of_nat k) (sfs s)" if "k < n" for k
    using writable_desc [OF w i, of "20 + k"] that n by (simp add: add.assoc)
  ultimately have "ucopy (desc_page i + 20) file n (sfs s) =
      Some ((sfs s)\<lparr>umem := mem_upd (desc_page i + 20) n (\<lambda>k. umem (sfs s) (file + of_nat k)) (umem (sfs s))\<rparr>)"
    using f n by (intro ucopy_eq) auto
  then show ?thesis using w
    by (simp add: fill_open_def Let_def ff desc_mem_def desc_ustw [OF _ i, of _ 0, simplified]
        desc_ustw [OF _ i, of _ 8, simplified] desc_ustw [OF _ i, of _ 12, simplified]
        desc_ustw [OF _ i, of _ 16, simplified])
qed

text \<open>C24. Opening a file.  When the allocator gave entry \<open>i\<close> and \<^verbatim>\<open>file_open\<close> found the file, the
  handler completes: the client gets exactly one reply, success with the descriptor page of the entry;
  the page holds the file id, the open mode, the device and a copy of the file's structure; the entry
  remembers file and mode; and the id, which no lookup accepted before the reply, is accepted from
  then on and leads to this entry.\<close>

theorem serve_open_correct:
  assumes "tabs_ok s" and "i < MAXOPEN"
    and "open_alloc s = Some ((r, Some i), s1)" and "0 \<le> sint r" and "gave False i s s1"
    and "ustr rq (sfs s1) = Some path" and "uldw (rq + MAXPATHLEN) (sfs s1) = Some omode"
    and "file_open path (sfs s1) = Some (Inr file0, f)" and "writable (desc_page i) f"
    and "\<forall>k < 256. va_is_mapped (file0 + of_nat k) f \<and> upage (file0 + of_nat k) \<noteq> upage (desc_page i)"
  shows "\<exists>s'. serve_open envid rq s = Some s' \<and>
    replies s' = replies s @ [Reply envid 0 (desc_page i) (PTE_D OR PTE_LIBRARY)] \<and>
    o_file (opentab s' i) = file0 \<and> o_mode (opentab s' i) = omode \<and>
    word_at (umem (sfs s')) (f_fileid (desc_page i)) = r \<and>
    word_at (umem (sfs s')) (f_fd_omode (desc_page i)) = omode \<and>
    word_at (umem (sfs s')) (f_fd_dev_id (desc_page i)) = dev_file_id \<and>
    (\<forall>k < 256. umem (sfs s') (f_file (desc_page i) + of_nat k) = umem f (file0 + of_nat k)) \<and>
    open_lookup envid' r s1 = Inl E_INVAL \<and> open_lookup envid' r s' = Inr i"
proof -
  have ff: "o_ff (otab False s1 i) = desc_page i"
    using gave_taken [OF assms(5)] desc_page_of [OF assms(1,2)] by (simp add: taken_def)
  have "r = o_fileid (otab False s i) + of_nat MAXOPEN"
    using open_scanD [OF assms(3) [unfolded open_alloc_def]]
    by (elim disjE conjE bexE) (simp_all only: option.distinct option.inject)
  then have r: "o_fileid (otab False s1 i) = r"
    using gave_taken [OF assms(5)] by (simp add: taken_def)
  have idx: "unat r mod MAXOPEN = i"
  proof -
    have "entry_ok i (otab False s i)" using assms(1,2) by (simp add: tabs_ok_def)
    then have "entry_ok i (otab False s1 i)"
      by (rule entry_moved_ok [OF _ gave_moved [OF assms(5)]])
    then show ?thesis using r by (simp add: entry_ok_def)
  qed
  let ?s2 = "s1\<lparr>sfs := f\<rparr>"
  let ?s' = "reply_to envid 0 (desc_page i) (PTE_D OR PTE_LIBRARY)
      ((otab_put False i ((otab False s1 i)\<lparr>o_file := file0, o_mode := omode\<rparr>) ?s2)\<lparr>sfs := f\<lparr>umem :=
        desc_mem i 256 (o_fileid (otab False s1 i)) omode 0 file0 (umem f)\<rparr>\<rparr>)"
  have fill: "fill_open False 256 envid omode (Some i) file0 ?s2 = Some ?s'"
    using fill_open_ok [of i False ?s2 256 file0 envid omode] assms(2,9,10) ff by simp
  have "serve_open envid rq s = Some ?s'"
    using assms(4) fill by (simp add: serve_open_def assms(3,6-8) after_alloc_def or_reply_def)
  moreover have rep: "replies s1 = replies s" using gave_taken [OF assms(5)] by (simp add: taken_def)
  moreover have ref1: "pageref (desc_page i) s1 = 1" using assms(5) by (simp only: gave_def)
  moreover have "pageref (desc_page i) ?s' = 2"
  proof -
    have "pp_refs s1 (upage (desc_page i)) = 1"
      using ref1 by (simp add: pageref_def word_unat_eq_iff split: if_splits)
    moreover have "desc_page i \<noteq> 0" using desc_page_unat [OF assms(2)] by auto
    ultimately show ?thesis
      using assms(9) by (simp add: pageref_def reply_to_def writable_def va_is_mapped_def)
  qed
  moreover have "open_lookup envid' r s1 = Inl E_INVAL"
    using ref1 idx ff by (simp add: open_lookup_def open_find_def Let_def)
  moreover have "open_lookup envid' r ?s' = Inr i"
    using calculation(4) idx r ff by (simp add: open_lookup_def open_find_def Let_def)
  moreover have "opentab ?s' i = (otab False s1 i)\<lparr>o_file := file0, o_mode := omode\<rparr>"
    using otab_bool(1) [of ?s'] by (metis otab_simps(1,4) otab_put_simps(1))
  ultimately show ?thesis
    using desc_mem_read [OF assms(2), where n = 256 and fileid = r and omode = omode and fat = 0 and
      src = file0 and m = "umem f"] r by (intro exI [of _ ?s']) simp
qed

section \<open>A server at work\<close>

text \<open>A server whose first descriptor page is mapped, with the super block in memory, and a request
  page with the path \<^verbatim>\<open>/\<close>.\<close>

definition req_page :: "u32 \<Rightarrow> u8" where
  "req_page = (\<lambda>_. 0)(REQVA := slash)"

definition srv_fs :: fat_state where
  "srv_fs = fat_demo\<lparr>umem := req_page,
     uperm := (\<lambda>_. 0)(65535 := PTE_V, 65537 := PTE_V, 393216 := PTE_V OR PTE_D), super := 0x10001000\<rparr>"

definition srv_raw :: "u16 \<Rightarrow> serv_state" where
  "srv_raw n = \<lparr>sfs = srv_fs, opentab = (\<lambda>_. \<lparr>o_file = 0, o_fileid = 0, o_mode = 1, o_ff = 0\<rparr>),
     fat_opentab = (\<lambda>_. \<lparr>o_file = 0, o_fileid = 0, o_mode = 1, o_ff = 0\<rparr>),
     pp_refs = (\<lambda>_. 0)(393216 := n), replies = []\<rparr>"

definition srv :: "u16 \<Rightarrow> serv_state" where
  "srv n = serve_init (srv_raw n)"

definition msg_get :: message where
  "msg_get = \<lparr>m_req = 11, m_whom = 0x800, m_perm = PTE_V, m_page = None\<rparr>"

definition srv_after :: "u16 \<Rightarrow> serv_state" where
  "srv_after n = the (serve msg_get (srv n))"

lemma srv_get: "serve msg_get (srv n) = Some (srv_after n)"
  by (simp add: srv_after_def serve_def msg_get_def dispatch_def serve_BPB_def)

lemma srv_pageref: "pageref (desc_page 0) (srv n) = unat n" "pageref (desc_page 0) (srv_after n) = unat n"
  by (simp_all add: pageref_def va_is_mapped_def srv_def srv_raw_def srv_fs_def serve_init_def srv_after_def serve_def
      msg_get_def dispatch_def serve_BPB_def deliver_def reply_to_def syscall_mem_unmap_def is_illegal_va_def mmu_layout
      upage_def [of REQVA])

lemma srv_ok: "tabs_ok (srv n)"
  unfolding srv_def by (rule serve_init_ok)

text \<open>A \<^verbatim>\<open>map\<close> request for the id 1029, which entry 5 has only after it was opened.\<close>

definition msg_map :: message where
  "msg_map = \<lparr>m_req = 2, m_whom = 0x800, m_perm = PTE_V, m_page = Some ((\<lambda>_. 0)(REQVA := 5, REQVA + 1 := 4))\<rparr>"


theorem open_tables_ok_witness:
  "entry_ok 5 (opentab (srv_after 1) 5) \<and> entry_ok 5 (fat_opentab (srv_after 1) 5)"
proof (rule open_tables_ok)
  show "serv_step\<^sup>*\<^sup>* (serve_init (srv_raw 1)) (srv_after 1)"
    using serv_step.request [OF srv_get [of 1]] by (simp add: srv_def)
qed simp

theorem held_id_valid_witness:
  "open_lookup 0x800 0 (srv_after 2) = Inr 0 \<and> opentab (srv_after 2) 0 = opentab (srv 2) 0"
proof -
  have "held 0 (srv 2) (srv_after 2)"
    using held.intros(1) by (rule held.intros(2)) (simp_all add: srv_pageref serv_step.request [OF srv_get])
  moreover have "open_lookup 0x800 0 (srv 2) = Inr 0"
    using srv_pageref(1) [of 2] desc_page_of [OF srv_ok, of 0 False 2]
    by (simp add: open_lookup_def open_find_def Let_def) (simp add: otab_bool srv_def serve_init_def)
  ultimately show ?thesis
    using held_id_valid [of "srv_raw 2" "srv 2" 0 "srv_after 2" "0x800" 0] srv_pageref(2) [of 2] by (simp add: srv_def)
qed

lemma srv_writable: "writable (desc_page 0) (sfs (srv 1))"
  by (simp add: writable_def va_is_mapped_def srv_def srv_raw_def srv_fs_def serve_init_def)

theorem open_alloc_correct_witness:
  "\<exists>s'. open_alloc (srv 1) = Some ((1024, Some 0), s') \<and> gave False 0 (srv 1) s' \<and>
    open_find False 0 s' = Inl E_INVAL"
proof -
  have "o_fileid (otab False (srv 1) 0) = 0" by (simp add: otab_bool srv_def serve_init_def)
  then show ?thesis
    using open_alloc_correct [of "srv 1" 0 False] srv_ok [of 1] srv_pageref(1) [of 1] srv_writable by simp
qed

definition srv_opened :: serv_state where
  "srv_opened = snd (the (open_take False 0 (srv 1)))"

lemma srv_alloc:
  "open_alloc (srv 1) = Some ((1024, Some 0), srv_opened)"
  "sfs srv_opened = srv_fs\<lparr>umem := (\<lambda>a. if upage a = 393216 then 0 else req_page a)\<rparr>"
proof -
  have ff: "o_ff (otab False (srv 1) 0) = desc_page 0" by (rule desc_page_of [OF srv_ok]) simp
  have id0: "o_fileid (otab False (srv 1) 0) = 0" by (simp add: otab_bool srv_def serve_init_def)
  note take = open_take_ok [OF ff _ srv_writable]
  have "open_scan False [0..<MAXOPEN] (srv 1) = open_scan False (0 # [Suc 0..<MAXOPEN]) (srv 1)"
    by (rule open_scan_at) simp_all
  also have "\<dots> = open_take False 0 (srv 1)"
    using srv_pageref(1) [of 1] ff by (simp only: open_scan.simps Let_def) simp
  finally show "open_alloc (srv 1) = Some ((1024, Some 0), srv_opened)"
    using take id0 by (simp only: open_alloc_def) (simp add: srv_opened_def)
  have "sfs (srv 1) = srv_fs" "umem srv_fs = req_page" by (simp_all add: srv_def srv_raw_def serve_init_def srv_fs_def)
  then show "sfs srv_opened = srv_fs\<lparr>umem := (\<lambda>a. if upage a = 393216 then 0 else req_page a)\<rparr>"
    using take by (simp add: srv_opened_def cong: if_cong)
qed

lemma srv_gave: "gave False 0 (srv 1) srv_opened"
  using alloc_at [OF srv_ok [of 1], of 0 MAXOPEN False] srv_pageref(1) [of 1] srv_writable srv_alloc(1)
  unfolding open_alloc_def by (metis (no_types) le_refl less_nat_zero_code option.inject prod.inject
      unat_1 zero_less_numeral zero_neq_one)

theorem serve_open_correct_witness:
  "\<exists>s'. serve_open 0x800 REQVA (srv 1) = Some s' \<and>
    replies s' = [Reply 0x800 0 (desc_page 0) (PTE_D OR PTE_LIBRARY)] \<and> o_file (opentab s' 0) = 0x10001008 \<and>
    open_lookup 0x800 1024 s' = Inr 0"
proof -
  let ?f = "sfs srv_opened"
  have p: "upage REQVA = 65535" "upage (REQVA + 1) = 65535" "upage (REQVA + MAXPATHLEN) = 65535"
    by (simp_all add: upage_def)
  have path: "ustr REQVA ?f = Some [slash]"
    by (subst ustr.simps, subst ustr.simps) (simp add: uld_def va_is_mapped_def srv_alloc(2) srv_fs_def p [simplified] req_page_def)
  have omode: "uldw (REQVA + MAXPATHLEN) ?f = Some 0"
    by (simp add: uldw_def va_is_mapped_def srv_alloc(2) srv_fs_def p [simplified] req_page_def word_at_def upage_def)
  have found: "file_open [slash] ?f = Some (Inr 0x10001008, ?f)"
    by (simp add: file_open_def walk_path_def skip_slash_def walk_loop.simps srv_alloc(2) srv_fs_def)
  have pages: "upage (0x10001008 + of_nat k) = 65537" if "k < 256" for k
  proof -
    have "unat (0x10001008 + of_nat k :: u32) = 268439560 + k"
      using that by (simp add: unat_word_ariths unsigned_of_nat take_bit_nat_eq_self)
    then show ?thesis using that by (simp add: upage_def)
  qed
  have w: "writable (desc_page 0) ?f"
    by (simp add: writable_def va_is_mapped_def srv_alloc(2) srv_fs_def)
  have m: "\<forall>k < 256. va_is_mapped (0x10001008 + of_nat k) ?f \<and> upage (0x10001008 + of_nat k) \<noteq> upage (desc_page 0)"
    using pages by (simp add: va_is_mapped_def srv_alloc(2) srv_fs_def)
  have "replies (srv 1) = []" by (simp add: srv_def srv_raw_def serve_init_def)
  then show ?thesis
    using serve_open_correct [OF srv_ok _ srv_alloc(1) _ srv_gave path omode found w m, of "0x800" "0x800"] by auto
qed

end
