(* ===== verification/Fat_Names.thy ===== *)
theory Fat_Names
  imports Fat_Dir Fs_Io
begin

text \<open>
  Properties of the names of \<^verbatim>\<open>fs/fatfs.c\<close>: the loops that build a short name against a description
  of the 8.3 format, the checksum that ties long-name entries to it, and the pieces of 13
  characters of a long name.
\<close>

section \<open>Short names\<close>

definition pad :: "nat \<Rightarrow> u8 list \<Rightarrow> u8 list" where
  "pad n xs = xs @ replicate (n - length xs) 32"

definition base_of :: "u8 list \<Rightarrow> u8 list" where
  "base_of u = take 8 (takeWhile (\<lambda>c. c \<noteq> 0x2e) u)"

text \<open>The characters behind the dot, when one follows the first eight characters at the latest.\<close>

definition ext_of :: "u8 list \<Rightarrow> u8 list" where
  "ext_of u = (case drop (length (base_of u)) u of c # r \<Rightarrow> if c = 0x2e then take 3 r else [] | [] \<Rightarrow> [])"

definition short_name :: "u8 list \<Rightarrow> u8 list" where
  "short_name u = pad 8 (map upcase (base_of u)) @ pad 3 (ext_of u)"

lemma cbyte_drop: "0 \<notin> set u \<Longrightarrow> drop i u = (if cbyte u i = 0 then [] else cbyte u i # drop (Suc i) u)"
  by (cases "i < length u") (use nth_mem [of i u] in \<open>force simp del: nth_mem simp: cbyte_def Cons_nth_drop_Suc\<close>)+

lemma base_loop_eq:
  assumes "0 \<notin> set u"
  shows "i + n \<le> length c1 \<Longrightarrow> base_loop u n i c1 =
    (let xs = take n (takeWhile (\<lambda>c. c \<noteq> 0x2e) (drop i u))
     in (i + length xs, take i c1 @ map upcase xs @ drop (i + length xs) c1))"
proof (induction n arbitrary: i c1)
  case (Suc n)
  note d = cbyte_drop [OF assms, of i]
  show ?case
  proof (cases "cbyte u i \<noteq> 0x2e \<and> cbyte u i \<noteq> 0")
    case True
    let ?xs = "take n (takeWhile (\<lambda>c. c \<noteq> 0x2e) (drop (Suc i) u))" and ?c = "upcase (cbyte u i)"
    have "base_loop u (Suc n) i c1 = (Suc i + length ?xs,
        take (Suc i) (c1[i := ?c]) @ map upcase ?xs @ drop (Suc i + length ?xs) (c1[i := ?c]))"
      using Suc.IH [of "Suc i" "c1[i := ?c]"] Suc.prems True by (simp add: Let_def)
    moreover have "take (Suc i) (c1[i := ?c]) = take i c1 @ [?c]"
      using Suc.prems by (simp add: take_Suc_conv_app_nth)
    moreover have "take (Suc n) (takeWhile (\<lambda>c. c \<noteq> 0x2e) (drop i u)) = cbyte u i # ?xs"
      using d True by simp
    ultimately show ?thesis by (simp add: Let_def)
  next
    case False
    then have "takeWhile (\<lambda>c. c \<noteq> 0x2e) (drop i u) = []" using d by (auto split: if_splits)
    then show ?thesis using False by (auto simp: Let_def)
  qed
qed (simp add: Let_def)

lemma ext_loop_eq:
  assumes "0 \<notin> set u"
  shows "j + n \<le> length c1 \<Longrightarrow> ext_loop u n i j c1 =
    (let xs = take n (drop i u) in take j c1 @ xs @ drop (j + length xs) c1)"
proof (induction n arbitrary: i j c1)
  case (Suc n)
  note d = cbyte_drop [OF assms, of i]
  show ?case
  proof (cases "cbyte u i = 0")
    case False
    let ?c = "cbyte u i" and ?xs = "take n (drop (Suc i) u)"
    have "ext_loop u (Suc n) i j c1 =
        take (Suc j) (c1[j := ?c]) @ ?xs @ drop (Suc j + length ?xs) (c1[j := ?c])"
      using Suc.IH [of "Suc j" "c1[j := ?c]" "Suc i"] Suc.prems False by (simp add: Let_def)
    moreover have "take (Suc j) (c1[j := ?c]) = take j c1 @ [?c]"
      using Suc.prems by (simp add: take_Suc_conv_app_nth)
    moreover have "take (Suc n) (drop i u) = ?c # ?xs" using d False by simp
    ultimately show ?thesis by (simp add: Let_def)
  qed (use d in \<open>simp add: Let_def\<close>)
qed (simp add: Let_def)

lemma bytencmp_0: "length a = n \<Longrightarrow> length b = n \<Longrightarrow> bytencmp a b n = 0 \<longleftrightarrow> a = b"
proof (induction n arbitrary: a b)
  case (Suc n)
  then obtain x xs y ys where "a = x # xs" "b = y # ys" "length xs = n" "length ys = n"
    by (metis length_Suc_conv)
  then show ?case using Suc.IH by (auto simp: signed_word_eqI)
qed simp

lemma getFileName_eq:
  assumes z: "0 \<notin> set u"
  shows "getFileName u = short_name u"
proof -
  let ?b = "base_of u"
  have lb: "length ?b \<le> 8" by (simp add: base_of_def)
  have b: "base_loop u 8 0 (replicate 11 32) = (length ?b, map upcase ?b @ replicate (11 - length ?b) 32)"
    using base_loop_eq [OF z, of 0 8 "replicate 11 32"] by (simp add: Let_def base_of_def)
  have "drop (length ?b) u = (if cbyte u (length ?b) = 0 then [] else cbyte u (length ?b) # drop (Suc (length ?b)) u)"
    by (rule cbyte_drop [OF z])
  then have e: "ext_of u = (if cbyte u (length ?b) = 0x2e then take 3 (drop (Suc (length ?b)) u) else [])"
    by (simp add: ext_of_def)
  have r: "replicate (11 - length ?b) (32 :: u8) = replicate (8 - length ?b) 32 @ replicate 3 32"
    using lb by (simp add: replicate_add [symmetric])
  show ?thesis
  proof (cases "cbyte u (length ?b) = 0x2e")
    case True
    then show ?thesis
      using b e r lb ext_loop_eq [OF z, of 8 3 "map upcase ?b @ replicate (11 - length ?b) 32" "Suc (length ?b)"]
      by (simp add: getFileName_def short_name_def pad_def Let_def)
  next
    case False
    then show ?thesis using b e r by (simp add: getFileName_def short_name_def pad_def)
  qed
qed

lemma short_name_length: "length (short_name u) = 11"
proof -
  have "length (base_of u) \<le> 8" by (simp add: base_of_def)
  moreover have "length (ext_of u) \<le> 3" by (auto simp: ext_of_def split: list.split)
  ultimately show ?thesis by (simp add: short_name_def pad_def)
qed

text \<open>Short names: the loops of \<^verbatim>\<open>getFileName\<close> give the 8.3 form of a name - the upper-cased
  characters before the first dot, at most eight, padded with spaces to eight, then the at most three
  characters behind the dot, padded to three - and \<^verbatim>\<open>cmpFileName\<close> accepts exactly the stored names
  equal to it.\<close>

theorem short_names_correct:
  assumes "0 \<notin> set u"
  shows "getFileName u = short_name u \<and> length (getFileName u) = 11 \<and>
    (length nm = 11 \<longrightarrow> (cmpFileName nm u = 0 \<longleftrightarrow> nm = short_name u))"
  using getFileName_eq [OF assms] short_name_length [of u] bytencmp_0 [of nm 11 "short_name u"]
  by (simp add: cmpFileName_def)

theorem short_names_correct_witness:
  "getFileName [0x61, 0x62, 0x2e, 0x63] = [0x41, 0x42, 32, 32, 32, 32, 32, 32, 0x63, 32, 32]"
proof -
  have "short_name [0x61, 0x62, 0x2e, 0x63] = [0x41, 0x42, 32, 32, 32, 32, 32, 32, 0x63, 32, 32]" by code_simp
  then show ?thesis using short_names_correct [of "[0x61, 0x62, 0x2e, 0x63]" "[]"] by simp
qed

section \<open>The checksum\<close>

text \<open>One turn of the loop: a rotation to the right by one bit, then the sum with the next byte.\<close>

lemma bit_0x80: "bit (0x80 :: u8) n \<longleftrightarrow> n = 7"
proof -
  have "(0x80 :: u8) = push_bit 7 1" by simp
  then show ?thesis by (simp only: bit_push_bit_iff bit_1_iff) auto
qed

lemma rotate_step: "(if acc AND 1 \<noteq> 0 then 0x80 else 0) + drop_bit 1 acc = word_rotr 1 (acc :: u8)"
proof -
  have o: "acc AND 1 \<noteq> 0 \<longleftrightarrow> bit acc 0" by (simp add: and_one_eq odd_iff_mod_2_eq_one bit_0)
  define h :: u8 where "h = 0x80"
  have b: "bit h n \<longleftrightarrow> n = 7" for n unfolding h_def by (rule bit_0x80)
  have "(if bit acc 0 then h else 0) + drop_bit 1 acc = (if bit acc 0 then h else 0) OR drop_bit 1 acc"
    by (rule disjunctive_add) (auto simp: bit_drop_bit_eq b dest: bit_imp_le_length)
  also have "\<dots> = word_rotr 1 acc"
  proof (rule bit_word_eqI)
    fix n assume n: "n < LENGTH(8)"
    show "bit ((if bit acc 0 then h else 0) OR drop_bit 1 acc) n = bit (word_rotr 1 acc) n"
    proof (cases "n = 7")
      case True
      have "\<not> bit acc 8" using bit_imp_le_length [of acc 8] by auto
      then show ?thesis using True by (simp add: bit_or_iff bit_drop_bit_eq b bit_word_rotr_iff)
    qed (use n in \<open>simp add: bit_or_iff bit_drop_bit_eq b bit_word_rotr_iff\<close>)
  qed
  finally show ?thesis unfolding o h_def .
qed

lemma rotr_inj: "word_rotr 1 (a :: u8) = word_rotr 1 b \<Longrightarrow> a = b"
  by (metis word_rot_rl)

lemma ChkSum_fold: "ChkSum p = fold (\<lambda>b acc. word_rotr 1 acc + b) (take 11 p) 0"
  unfolding ChkSum_def rotate_step ..

lemma fold_sum_inj: "fold (\<lambda>b acc. word_rotr 1 acc + b) bs (x :: u8) = fold (\<lambda>b acc. word_rotr 1 acc + b) bs y \<Longrightarrow> x = y"
proof (induction bs arbitrary: x y)
  case (Cons b bs)
  have "word_rotr 1 x + b = word_rotr 1 y + b" by (rule Cons.IH) (use Cons.prems in simp)
  then show ?case using rotr_inj by simp
qed simp

text \<open>The checksum of a short name is the one of the FAT specification (rotate right, add the next
  of eleven bytes), and it changes whenever a single byte of the name changes: an entry whose short
  name was altered in one place never matches the checksum stored in its long-name entries.\<close>

theorem ChkSum_correct:
  "ChkSum p = fold (\<lambda>b acc. word_rotr 1 acc + b) (take 11 p) 0 \<and>
   (length p = 11 \<and> i < 11 \<and> c \<noteq> p ! i \<longrightarrow> ChkSum (p[i := c]) \<noteq> ChkSum p)"
proof (intro conjI impI notI)
  show "ChkSum p = fold (\<lambda>b acc. word_rotr 1 acc + b) (take 11 p) 0" by (rule ChkSum_fold)
  assume i: "length p = 11 \<and> i < 11 \<and> c \<noteq> p ! i" and e: "ChkSum (p[i := c]) = ChkSum p"
  let ?f = "\<lambda>b acc. word_rotr 1 acc + (b :: u8)"
  have "p[i := c] = take i p @ c # drop (Suc i) p" "p = take i p @ p ! i # drop (Suc i) p"
    using i by (simp_all add: upd_conv_take_nth_drop id_take_nth_drop [symmetric])
  then have "fold ?f (take i p @ c # drop (Suc i) p) 0 = fold ?f (take i p @ p ! i # drop (Suc i) p) 0"
    using e i by (metis ChkSum_fold length_list_update take_all order_refl)
  then have "fold ?f (drop (Suc i) p) (?f c (fold ?f (take i p) 0)) =
      fold ?f (drop (Suc i) p) (?f (p ! i) (fold ?f (take i p) 0))" by (simp only: fold_append fold_Cons o_apply)
  from fold_sum_inj [OF this] have "?f c (fold ?f (take i p) 0) = ?f (p ! i) (fold ?f (take i p) 0)" .
  then show False using i by simp
qed

theorem ChkSum_correct_witness:
  "ChkSum ((replicate 11 32)[3 := 0x41]) \<noteq> ChkSum (replicate 11 32)"
proof -
  have "length (replicate 11 (32 :: u8)) = 11 \<and> (3 :: nat) < 11 \<and> 0x41 \<noteq> replicate 11 (32 :: u8) ! 3" by simp
  then show ?thesis using ChkSum_correct [of "replicate 11 32" 3 "0x41"] by blast
qed

section \<open>Long names\<close>

definition ln_off :: "nat \<Rightarrow> nat" where
  "ln_off i = (if i < 5 then 1 + 2 * i else if i < 11 then 2 * i + 4 else 2 * i + 6)"

lemma ln_addr_off: "ln_addr cur i = cur + of_nat (ln_off i)"
  by (simp add: ln_addr_def ln_off_def of_nat_diff mult.commute)

text \<open>The 26 bytes are different ones, and none is the order byte.\<close>

lemma ln_off_apart:
  assumes "i < 13" and "j < 13" and "x < 2" and "y < 2"
  shows "ln_off i + x = ln_off j + y \<longleftrightarrow> i = j \<and> x = y" and "0 < ln_off i" and "ln_off i + x < 32"
proof -
  have q: "2 * i + x = 2 * j + y \<Longrightarrow> x = y" using assms(3,4) by presburger
  show "ln_off i + x = ln_off j + y \<longleftrightarrow> i = j \<and> x = y" using assms q by (auto simp: ln_off_def)
qed (use assms in \<open>auto simp: ln_off_def\<close>)

lemma ln_addr_apart:
  assumes "i < 13" and "j < 13" and "x < 2" and "y < 2"
  shows "ln_addr cur i + of_nat x = ln_addr cur j + of_nat y \<longleftrightarrow> i = j \<and> x = y" and "ln_addr cur i + of_nat x \<noteq> cur"
proof -
  have inj: "(of_nat a :: u32) = of_nat b \<longleftrightarrow> a = b" if "a < 32" "b < 32" for a b
  proof
    assume "(of_nat a :: u32) = of_nat b"
    from arg_cong [OF this, of unat] show "a = b" using that by (simp add: word_of_nat_unat_eq)
  qed simp
  have e: "ln_addr cur i + of_nat x = cur + of_nat (ln_off i + x)" for i x by (simp add: ln_addr_off)
  note o = ln_off_apart [OF assms] ln_off_apart(3) [OF assms(2) assms(1) assms(4,3)]
  show "ln_addr cur i + of_nat x = ln_addr cur j + of_nat y \<longleftrightarrow> i = j \<and> x = y"
    unfolding e using inj [OF o(3,4)] o(1) by simp
  show "ln_addr cur i + of_nat x \<noteq> cur" unfolding e using inj [OF o(3), of 0] o(2) by simp
qed

definition unit_at :: "(u32 \<Rightarrow> u8) \<Rightarrow> u32 \<Rightarrow> u16" where
  "unit_at m a = ucast (m a) OR push_bit 8 (ucast (m (a + 1)))"

definition put_unit :: "u32 \<Rightarrow> u16 \<Rightarrow> (u32 \<Rightarrow> u8) \<Rightarrow> u32 \<Rightarrow> u8" where
  "put_unit a v m = m(a := ucast v, a + 1 := ucast (drop_bit 8 v))"

lemma unit_at_put: "unit_at (put_unit a v m) a = v"
proof (rule bit_word_eqI)
  fix n assume "n < LENGTH(16)"
  then consider "n < 8" | "8 \<le> n" "n < 16" by fastforce
  then show "bit (unit_at (put_unit a v m) a) n = bit v n"
    by cases (auto simp: unit_at_def put_unit_def bit_simps)
qed

lemma ust16_eq:
  "writable a s \<Longrightarrow> writable (a + 1) s \<Longrightarrow> ust16 a v s = Some (s\<lparr>umem := put_unit a v (umem s)\<rparr>)"
  by (simp add: ust16_def ust_def put_unit_def)

text \<open>Filling the 13 places.\<close>

lemma fill_places:
  assumes w: "\<forall>i < 32. writable (cur + of_nat i) s"
  shows "\<exists>m. fold_opt (\<lambda>i. ust16 (ln_addr cur i) (us ! i)) [0..<13] s = Some (s\<lparr>umem := m\<rparr>) \<and>
    (\<forall>i < 13. unit_at m (ln_addr cur i) = us ! i) \<and> m cur = umem s cur"
proof -
  let ?I = "\<lambda>k s'. \<exists>m. s' = s\<lparr>umem := m\<rparr> \<and> (\<forall>i < k. unit_at m (ln_addr cur i) = us ! i) \<and> m cur = umem s cur"
  have wr: "writable (ln_addr cur i + of_nat x) (s\<lparr>umem := m\<rparr>)" if "i < 13" "x < 2" for i x m
    using w ln_off_apart(3) [OF that(1) that(1) that(2) that(2)] by (simp add: ln_addr_off add.assoc flip: of_nat_add)
  have "\<exists>s'. fold_opt (\<lambda>i. ust16 (ln_addr cur i) (us ! i)) [0..<13] s = Some s' \<and> ?I (length [0..<13]) s'"
  proof (rule fold_opt_inv)
    show "?I 0 s" by (intro exI [of _ "umem s"]) simp
    fix k s' assume "k < length [0..<13]" and "?I k s'"
    then obtain m where k: "k < 13" and m: "s' = s\<lparr>umem := m\<rparr>" "\<forall>i < k. unit_at m (ln_addr cur i) = us ! i" "m cur = umem s cur"
      by auto
    let ?m = "put_unit (ln_addr cur k) (us ! k) m"
    have st: "ust16 (ln_addr cur k) (us ! k) s' = Some (s\<lparr>umem := ?m\<rparr>)"
      using ust16_eq [of "ln_addr cur k" s'] wr [OF k, of 0 m] wr [OF k, of 1 m] m(1) by simp
    have "unit_at ?m (ln_addr cur i) = us ! i" if "i < Suc k" for i
    proof (cases "i = k")
      case False
      then have i: "i < k" "i < 13" using that k by simp_all
      have "ln_addr cur i + of_nat x \<noteq> ln_addr cur k + of_nat y" if "x < 2" "y < 2" for x y
        using ln_addr_apart(1) [OF i(2) k that] False by simp
      from this [of 0 0] this [of 0 1] this [of 1 0] this [of 1 1] show ?thesis
        using m(2) i(1) by (simp add: unit_at_def put_unit_def)
    qed (simp add: unit_at_put)
    moreover have "?m cur = umem s cur"
      using m(3) ln_addr_apart(2) [OF k k, of 0 0 cur] ln_addr_apart(2) [OF k k, of 1 1 cur]
      by (auto simp: put_unit_def)
    ultimately show "\<exists>s''. ust16 (ln_addr cur ([0..<13] ! k)) (us ! ([0..<13] ! k)) s' = Some s'' \<and> ?I (Suc k) s''"
      using st k by auto
  qed
  then show ?thesis by auto
qed

lemma getSubName_eq:
  assumes "\<forall>i < 32. va_is_mapped (cur + of_nat i) s" and "\<forall>i < 13. unit_at (umem s) (ln_addr cur i) = us ! i"
    and "length us = 13"
  shows "getSubName cur s = Some us"
proof -
  have mp: "va_is_mapped (ln_addr cur i + of_nat x) s" if "i < 13" "x < 2" for i x
    using assms(1) ln_off_apart(3) [OF that(1) that(1) that(2) that(2)] by (simp add: ln_addr_off add.assoc flip: of_nat_add)
  have "getSubName cur s = Some (map (\<lambda>i. us ! i) [0..<13])"
    unfolding getSubName_def
  proof (rule those_map_Some, rule ballI)
    fix i assume "i \<in> set [0..<13]"
    then show "uld16 (ln_addr cur i) s = Some (us ! i)"
      using mp [of i 0] mp [of i 1] assms(2) by (auto simp: uld16_def uld_def unit_at_def)
  qed
  then show ?thesis using map_nth [of us] assms(3) by simp
qed

lemma scast_inj: "(scast (a :: u8) :: u16) = scast b \<longleftrightarrow> a = b"
proof
  assume e: "(scast a :: u16) = scast b"
  have u: "ucast (scast c :: u16) = (c :: u8)" for c by (rule bit_word_eqI) (auto simp: bit_simps)
  show "a = b" using arg_cong [OF e, of "ucast :: u16 \<Rightarrow> u8"] unfolding u .
qed simp

lemma scast_0_iff: "(scast (a :: u8) :: u16) = 0 \<longleftrightarrow> a = 0"
  using scast_inj [of a 0] by simp

text \<open>The comparison against the stored piece of another name.\<close>

definition units :: "nat \<Rightarrow> u8 list \<Rightarrow> u16 list" where
  "units k x = take k (map scast x @ 0 # replicate 12 0xffff)"

lemma ln_units_eq: "ln_units x = units 13 x" "length (ln_units x) = 13"
proof -
  have "take 13 (map scast (take 13 x) @ 0 # replicate 12 0xffff) = (take 13 (map scast x @ 0 # replicate 12 0xffff) :: u16 list)"
    by (cases "length x \<le> 13") (simp_all add: take_map)
  then show "ln_units x = units 13 x" by (simp add: ln_units_def units_def Let_def)
  show "length (ln_units x) = 13" by (simp add: ln_units_def Let_def)
qed

lemma cmp_units_eq:
  assumes v: "0 \<notin> set v"
  shows "0 \<notin> set x \<Longrightarrow> p \<le> length v \<Longrightarrow>
    cmp_units (units k x) v p = Some (take k (drop p v) = take k x)"
proof (induction k arbitrary: x p)
  case (Suc k)
  show ?case
  proof (cases "p < length v")
    case True
    then have c: "cget v p = Some (v ! p)" "v ! p \<noteq> 0" "drop p v = v ! p # drop (Suc p) v"
      using v nth_mem [OF True] by (metis cget_def, metis, metis Cons_nth_drop_Suc)
    show ?thesis
    proof (cases x)
      case Nil
      then show ?thesis using c by (simp add: units_def scast_0_iff)
    next
      case (Cons y ys)
      then have "cmp_units (units k ys) v (Suc p) = Some (take k (drop (Suc p) v) = take k ys)"
        using Suc True by simp
      moreover have "units (Suc k) x = scast y # units k ys" using Cons by (simp add: units_def)
      ultimately show ?thesis using c Cons by (simp add: scast_inj)
    qed
  next
    case False
    then have c: "cget v p = Some 0" "drop p v = []" using Suc.prems(2) by (simp_all add: cget_def)
    show ?thesis
    proof (cases x)
      case Nil
      then show ?thesis using c by (simp add: units_def)
    next
      case (Cons y ys)
      then have "(scast y :: u16) \<noteq> 0" using Suc.prems(1) by (auto simp: scast_0_iff)
      then show ?thesis using c Cons by (auto simp: units_def)
    qed
  qed
qed (simp add: units_def)

text \<open>The order byte, with or without the mark of the last entry.\<close>

lemma ord_byte:
  assumes "ord < 0x40" and "o0 = ucast ord \<or> o0 = ucast ord OR (0x40 :: u8)"
  shows "(scast (if o0 AND 0x40 \<noteq> 0 then o0 XOR 0x40 else o0) :: u32) = ord"
proof -
  have "ord = take_bit 6 ord"
    using assms(1) by (simp add: take_bit_eq_mod word_unat_eq_iff unat_mod_distrib word_less_nat_alt)
  then have b: "bit ord n \<Longrightarrow> n < 6" for n by (metis bit_take_bit_iff)
  define h :: u8 where "h = 0x40"
  have "h = push_bit 6 1" by (simp add: h_def)
  then have hb: "bit h n \<longleftrightarrow> n = 6" for n by (simp only: bit_push_bit_iff bit_1_iff) auto
  have z: "(ucast ord :: u8) AND h = 0" "(ucast ord OR h) XOR h = (ucast ord :: u8)"
    by (rule bit_word_eqI; auto simp: bit_and_iff bit_or_iff bit_xor_iff bit_ucast_iff hb dest: b)+
  have "(ucast ord OR h) AND h = h" by (rule bit_word_eqI) (auto simp: bit_and_iff bit_or_iff)
  moreover have "h \<noteq> 0" by (simp add: h_def)
  moreover have "(scast (ucast ord :: u8) :: u32) = ord"
    by (rule bit_word_eqI) (auto simp: bit_simps min_def split: if_splits dest: b)
  ultimately show ?thesis using assms(2) z unfolding h_def [symmetric] by auto
qed

text \<open>C32. Long names: \<^verbatim>\<open>fillFileLN\<close> stores piece \<open>ord\<close> of a name in a directory entry, and \<^verbatim>\<open>cmpLongName\<close>
  accepts that entry for another name exactly when the two names have the same piece there,
  end of the name included.  Neither call reads past the names.\<close>

theorem long_name_piece:
  assumes "\<forall>i < 32. writable (cur + of_nat i) s" and "0 < ord" "ord < 0x40"
    and "umem s cur = ucast ord \<or> umem s cur = ucast ord OR 0x40"
    and "0 \<notin> set u" "0 \<notin> set v" and "unat ((ord - 1) * 13) \<le> length u" "unat ((ord - 1) * 13) \<le> length v"
  shows "\<exists>s'. fillFileLN cur u ord s = Some s' \<and> cmpLongName cur v s' =
    Some (take 13 (drop (unat ((ord - 1) * 13)) v) = take 13 (drop (unat ((ord - 1) * 13)) u))"
proof -
  let ?p = "unat ((ord - 1) * 13)"
  obtain m where m: "fold_opt (\<lambda>i. ust16 (ln_addr cur i) (ln_units (drop ?p u) ! i)) [0..<13] s = Some (s\<lparr>umem := m\<rparr>)"
    "\<forall>i < 13. unit_at m (ln_addr cur i) = ln_units (drop ?p u) ! i" "m cur = umem s cur"
    using fill_places [OF assms(1), of "ln_units (drop ?p u)"] by blast
  have mp: "\<forall>i < 32. va_is_mapped (cur + of_nat i) (s\<lparr>umem := m\<rparr>)"
    using assms(1) by (auto simp: writable_def va_is_mapped_def)
  have "getSubName cur (s\<lparr>umem := m\<rparr>) = Some (units 13 (drop ?p u))"
    using getSubName_eq [OF mp, of "ln_units (drop ?p u)"] m(2) ln_units_eq by simp
  moreover have "uld cur (s\<lparr>umem := m\<rparr>) = Some (umem s cur)" using mp [rule_format, of 0] m(3) by (simp add: uld_def)
  moreover have "0 \<notin> set (drop ?p u)" using assms(5) by (meson in_set_dropD)
  ultimately have "cmpLongName cur v (s\<lparr>umem := m\<rparr>) = Some (take 13 (drop ?p v) = take 13 (drop ?p u))"
    using ord_byte [OF assms(3,4)] cmp_units_eq [OF assms(6) _ assms(8)] by (simp add: cmpLongName_def Let_def)
  then show ?thesis using m(1) assms(7) by (simp add: fillFileLN_def Let_def)
qed

text \<open>A page with a directory entry whose order byte is 1.\<close>

definition entry_demo :: fsst where
  "entry_demo = \<lparr>umem = (\<lambda>_. 0)(0x50001000 := 1), uperm = (\<lambda>_. 0)(0x50001 := 0x600), oom = (\<lambda>_. False), nalloc = 0,
     dk_op = (\<lambda>_ _ _ buf imgs. (0, buf, imgs)), dk_id = 0, dk_off = 0, dk_buf = (\<lambda>_. 0), dk_status = 0, disks = (\<lambda>_ _. 0)\<rparr>"

theorem long_name_piece_witness:
  "\<exists>s'. fillFileLN 0x50001000 [0x61, 0x62] 1 entry_demo = Some s' \<and>
     cmpLongName 0x50001000 [0x61, 0x62] s' = Some True"
proof -
  have "writable (0x50001000 + of_nat i) entry_demo" if "i < 32" for i
  proof -
    have "unat (0x50001000 + of_nat i :: u32) = 0x50001000 + i"
      using that by (simp add: unat_word_ariths unsigned_of_nat take_bit_nat_eq_self)
    then show ?thesis using that by (simp add: writable_def va_is_mapped_def upage_def entry_demo_def)
  qed
  then show ?thesis
    using long_name_piece [of "0x50001000" entry_demo 1 "[0x61, 0x62]" "[0x61, 0x62]"] by (simp add: entry_demo_def)
qed

end
