(* ===== verification/Fs_Path.thy ===== *)
theory Fs_Path
  imports Fs_Props
begin

text \<open>
  Path resolution and block slots of \<^verbatim>\<open>fs/fs.c\<close>: \<^verbatim>\<open>walk_path\<close> follows the components of a path, however
  many slashes separate them, and \<^verbatim>\<open>file_block_walk\<close> stays inside the file's block tables.
\<close>

section \<open>Components\<close>

text \<open>The usual splitting at slashes, and its non-empty pieces.\<close>

fun split_slash :: "u8 list \<Rightarrow> u8 list list" where
  "split_slash [] = [[]]"
| "split_slash (c # cs) =
     (if c = slash then [] # split_slash cs
      else case split_slash cs of [] \<Rightarrow> [[c]] | x # xs \<Rightarrow> (c # x) # xs)"

definition components :: "u8 list \<Rightarrow> u8 list list" where
  "components p = filter (\<lambda>x. x \<noteq> []) (split_slash p)"

text \<open>The lookup of one component after the other, as a recursion on the list of components.\<close>

fun resolve :: "u8 list list \<Rightarrow> u32 \<Rightarrow> u32 \<Rightarrow> ('z) fs_state_scheme \<Rightarrow>
    (walk_result \<times> ('z) fs_state_scheme) option" where
  "resolve [] dir file s = Some ((Inr file, dir, None), s)"
| "resolve (c # cs) dir file s =
     (if length c \<ge> MAXNAMELEN then Some ((Inl E_BAD_PATH, 0, None), s)
      else do {
        ty \<leftarrow> uldw (f_type file) s;
        if ty \<noteq> 1 then Some ((Inl E_NOT_FOUND, 0, None), s)
        else do {
          (r, s1) \<leftarrow> dir_lookup file c s;
          (case r of
             Inl e \<Rightarrow> if e = E_NOT_FOUND \<and> cs = [] then Some ((Inl e, file, Some c), s1)
                    else Some ((Inl e, 0, None), s1)
           | Inr f \<Rightarrow> resolve cs file f s1) } })"

lemma split_slash_ne: "split_slash p \<noteq> []"
  by (cases p) (auto split: list.split)

lemma split_slash_first:
  "split_slash p = takeWhile (\<lambda>c. c \<noteq> slash) p #
     (case dropWhile (\<lambda>c. c \<noteq> slash) p of [] \<Rightarrow> [] | _ # r \<Rightarrow> split_slash r)"
  by (induction p) auto

lemma components_slash: "components (slash # p) = components p"
  by (simp add: components_def)

lemma components_skip: "components (skip_slash p) = components p"
  by (induction p) (auto simp: skip_slash_def components_slash)

lemma components_cons:
  assumes "p \<noteq> []" and "hd p \<noteq> slash"
  shows "components p = takeWhile (\<lambda>c. c \<noteq> slash) p # components (skip_slash (dropWhile (\<lambda>c. c \<noteq> slash) p))"
proof -
  have ne: "takeWhile (\<lambda>c. c \<noteq> slash) p \<noteq> []" using assms by (cases p) auto
  show ?thesis
  proof (cases "dropWhile (\<lambda>c. c \<noteq> slash) p")
    case Nil
    then have "split_slash p = [takeWhile (\<lambda>c. c \<noteq> slash) p]" by (subst split_slash_first) (simp only: list.case)
    moreover have "skip_slash (dropWhile (\<lambda>c. c \<noteq> slash) p) = []" unfolding Nil by (simp add: skip_slash_def)
    ultimately show ?thesis using ne by (simp add: components_def)
  next
    case (Cons c r)
    then have "c = slash" using hd_dropWhile [of "\<lambda>c. c \<noteq> slash" p] by auto
    then show ?thesis
      using ne split_slash_first [of p] Cons components_skip [of "slash # r"] components_slash [of r]
      by (simp add: components_def)
  qed
qed

lemma components_Nil_iff: "p = [] \<or> hd p \<noteq> slash \<Longrightarrow> components p = [] \<longleftrightarrow> p = []"
  using components_cons [of p] by (cases "p = []") (auto simp: components_def)

lemma skip_slash_hd: "skip_slash p = [] \<or> hd (skip_slash p) \<noteq> slash"
  unfolding skip_slash_def using hd_dropWhile [of "\<lambda>c. c = slash" p] by blast

lemma walk_loop_resolve:
  "path = [] \<or> hd path \<noteq> slash \<Longrightarrow> walk_loop path dir f0 s = resolve (components path) dir f0 s"
proof (induction path dir f0 s rule: walk_loop.induct)
  case (1 path dir f0 s)
  show ?case
  proof (cases "path = []")
    case True
    then show ?thesis by (simp add: walk_loop.simps components_def)
  next
    case False
    let ?n = "takeWhile (\<lambda>c. c \<noteq> slash) path" and ?r = "skip_slash (dropWhile (\<lambda>c. c \<noteq> slash) path)"
    have c: "components path = ?n # components ?r" using components_cons [of path] False "1.prems" by blast
    have e: "components ?r = [] \<longleftrightarrow> ?r = []" by (rule components_Nil_iff [OF skip_slash_hd])
    have IH: "walk_loop ?r f0 f s1 = resolve (components ?r) f0 f s1"
      if "\<not> length ?n \<ge> MAXNAMELEN" "uldw (f_type f0) s = Some 1" "dir_lookup f0 ?n s = Some (Inr f, s1)" for f s1
      by (rule "1.IH" [OF False refl refl]) (use that skip_slash_hd in auto)
    show ?thesis
    proof (cases "length ?n \<ge> MAXNAMELEN \<or> uldw (f_type f0) s \<noteq> Some 1 \<or> dir_lookup f0 ?n s = None")
      case True
      then show ?thesis
        using False unfolding c by (subst walk_loop.simps) (auto simp: Let_def split: bind_split)
    next
      case no: False
      then obtain r s1 where r: "dir_lookup f0 ?n s = Some (r, s1)" by auto
      then show ?thesis
        using False no e IH [of _ s1] unfolding c
        by (subst walk_loop.simps) (cases r; auto simp: Let_def)
    qed
  qed
qed

text \<open>C31. Path resolution: for every path \<^verbatim>\<open>walk_path\<close> terminates and gives what looking up its
  non-empty components one after the other from the root directory gives, with the same effect on the
  cache: leading, repeated and trailing slashes make no difference, a component of 128 bytes or
  more is a bad path, and a missing last component is reported with its directory.\<close>

theorem walk_path_resolve: "walk_path path s = resolve (components path) 0 (super s + 8) s"
  unfolding walk_path_def components_skip [symmetric, of path] by (rule walk_loop_resolve [OF skip_slash_hd])

section \<open>Block slots\<close>

lemma read_block_cached:
  assumes "fs_ok n s" and "b < n" and "\<not> is_free s (unat b)" and "va_is_mapped (blk_addr b) s"
  shows "read_block b s = Some ((blk_addr b, False), s)"
proof -
  have bn: "unat b < NBLK" using assms(2) fs_okD(6) [OF assms(1)] by (simp add: word_less_nat_alt)
  then show ?thesis
    using assms fs_okD [OF assms(1)] block_is_free_eq [OF assms(1,2)] diskaddr_blk [OF bn] by (simp add: read_block_def)
qed

lemma alloc_block_num_ok:
  assumes ok: "fs_ok n s"
  shows "if \<exists>b. 3 \<le> b \<and> b < unat n \<and> is_free s b
    then \<exists>b s' w. alloc_block_num s = Some (Inr (of_nat b), s') \<and> 3 \<le> b \<and> b < unat n \<and> is_free s b \<and>
      (\<forall>c. 3 \<le> c \<and> c < b \<longrightarrow> \<not> is_free s c) \<and> (\<forall>c < NBLK. is_free s' c \<longleftrightarrow> is_free s c \<and> c \<noteq> b) \<and>
      fs_ok n s' \<and> io_step (put_word (bit_addr b) w (umem s)) (disks s') s s'
    else alloc_block_num s = Some (Inl E_NO_DISK, s)"
proof (cases "find (is_free s) [3..<unat n]")
  case None
  then have "\<not> (\<exists>b. 3 \<le> b \<and> b < unat n \<and> is_free s b)" by (auto simp: find_None_iff)
  then show ?thesis
    using None alloc_scan_find [OF ok, of "[3..<unat n]"] fs_okD(5) [OF ok] by (simp add: alloc_block_num_def)
next
  case (Some b)
  then obtain i where i: "i < length [3..<unat n]" "is_free s ([3..<unat n] ! i)" "b = [3..<unat n] ! i"
    "\<forall>j < i. \<not> is_free s ([3..<unat n] ! j)" by (auto simp: find_Some_iff)
  then have b: "b = 3 + i" "3 \<le> b" "b < unat n" "is_free s b" by auto
  have least: "\<not> is_free s c" if "3 \<le> c" "c < b" for c
    using i(4) [rule_format, of "c - 3"] that b(1,3) by simp
  obtain s' w where s': "grab b s = Some (Inr (of_nat b), s')" "fs_ok n s'"
    "\<forall>c < NBLK. is_free s' c \<longleftrightarrow> is_free s c \<and> c \<noteq> b" "io_step (put_word (bit_addr b) w (umem s)) (disks s') s s'"
    using grab_ok [OF ok b(3,4)] by blast
  have "alloc_block_num s = Some (Inr (of_nat b), s')"
    using Some s'(1) alloc_scan_find [OF ok, of "[3..<unat n]"] fs_okD(5) [OF ok] by (simp add: alloc_block_num_def)
  moreover have "\<exists>b. 3 \<le> b \<and> b < unat n \<and> is_free s b" using b by blast
  ultimately show ?thesis using b(2-4) s'(2-4) least by auto
qed

text \<open>The blocks of superblock and bitmap are in use, as the start up checks.\<close>

definition meta_used :: "u32 \<Rightarrow> ('z) fsst_scheme \<Rightarrow> bool" where
  "meta_used n s \<longleftrightarrow> (\<forall>c \<le> 2 + unat n div 32768. \<not> is_free s c)"

text \<open>A file structure in memory: in a cached data block in use, or the one in the superblock.\<close>

definition file_at :: "u32 \<Rightarrow> u32 \<Rightarrow> ('z) fs_state_scheme \<Rightarrow> bool" where
  "file_at n f s \<longleftrightarrow> unat (f_indirect f) mod 4 = 0 \<and> writable (f_indirect f) s \<and> f_indirect f \<noteq> blk_addr 1 + 4 \<and>
     (\<exists>c. upage (f_indirect f) = 65536 + c \<and> (c = 1 \<or> 2 + unat n div 32768 < c \<and> c < unat n \<and> \<not> is_free s c))"

text \<open>A store into a file structure leaves superblock and bitmap alone.\<close>

lemma file_store:
  assumes ok: "fs_ok n s" and f: "file_at n f s"
  shows "fs_ok n (s\<lparr>umem := put_word (f_indirect f) v (umem s)\<rparr>)"
    and "c < unat n \<Longrightarrow> is_free (s\<lparr>umem := put_word (f_indirect f) v (umem s)\<rparr>) c = is_free s c"
proof -
  let ?s = "s\<lparr>umem := put_word (f_indirect f) v (umem s)\<rparr>"
  have a: "unat (f_indirect f) mod 4 = 0" "f_indirect f \<noteq> 0x10001004"
    and p: "upage (f_indirect f) = 65537 \<or> 65538 + unat n div 32768 < upage (f_indirect f)"
    using f by (auto simp: file_at_def)
  have "word_at (umem ?s) (blk_addr 1 + 4) = word_at (umem s) (blk_addr 1 + 4)"
    using word_at_put_other [OF a(1), of "0x10001004"] a(2) by simp
  then have "s_nblocks ?s = s_nblocks s"
    using fs_okD(1) [OF ok] by (simp add: s_nblocks_def uldw_def va_is_mapped_def)
  then show "fs_ok n ?s" using ok by (auto simp: fs_ok_def writable_def va_is_mapped_def disk_ok_def)
  assume c: "c < unat n"
  then have cN: "c < NBLK" using fs_okD(6) [OF ok] by simp
  have "c div 32768 \<le> unat n div 32768" using c by (intro div_le_mono) simp
  then have "f_indirect f \<noteq> bit_addr c" using p bit_addr_block(2) [OF cN] by auto
  then show "is_free ?s c = is_free s c"
    using word_at_put_other [OF a(1) bit_addr_mod4 [OF cN]] by (simp add: is_free_def)
qed

text \<open>\<^verbatim>\<open>alloc_block\<close>: the lowest free block, cached.  A page that is still cached from an earlier use
  keeps its bytes.\<close>

definition block_given :: "u32 \<Rightarrow> nat \<Rightarrow> ('z) fs_state_scheme \<Rightarrow> ('z) fs_state_scheme \<Rightarrow> bool" where
  "block_given n b s s' \<longleftrightarrow> is_free s b \<and> 2 + unat n div 32768 < b \<and> b < unat n \<and>
     (\<forall>c. 3 \<le> c \<and> c < b \<longrightarrow> \<not> is_free s c) \<and> (\<forall>c < unat n. is_free s' c \<longleftrightarrow> is_free s c \<and> c \<noteq> b) \<and> fs_ok n s' \<and>
     uperm s' = (if va_is_mapped (blk_addr (of_nat b)) s then uperm s else (uperm s)(65536 + b := PTE_V OR PTE_D)) \<and>
     (\<forall>a. (upage a \<le> 65537 \<or> 65538 + unat n div 32768 < upage a) \<longrightarrow>
       umem s' a = (if upage a = 65536 + b \<and> \<not> va_is_mapped (blk_addr (of_nat b)) s then 0 else umem s a))"

lemma alloc_block_ok:
  assumes ok: "fs_ok n s" and used: "meta_used n s" and mem: "\<not> oom s (nalloc s)"
  shows "if \<exists>b. 3 \<le> b \<and> b < unat n \<and> is_free s b
    then \<exists>b s'. alloc_block s = Some (Inr (of_nat b), s') \<and> block_given n b s s'
    else alloc_block s = Some (Inl E_NO_DISK, s)"
proof (cases "\<exists>b. 3 \<le> b \<and> b < unat n \<and> is_free s b")
  case False
  then have "alloc_block_num s = Some (Inl E_NO_DISK, s)" using alloc_block_num_ok [OF ok] by simp
  then show ?thesis using False by (simp add: alloc_block_def)
next
  case True
  then obtain b s1 w where r: "alloc_block_num s = Some (Inr (of_nat b), s1)" "3 \<le> b" "b < unat n" "is_free s b"
    "\<forall>c. 3 \<le> c \<and> c < b \<longrightarrow> \<not> is_free s c" "\<forall>c < NBLK. is_free s1 c \<longleftrightarrow> is_free s c \<and> c \<noteq> b" "fs_ok n s1"
    "io_step (put_word (bit_addr b) w (umem s)) (disks s1) s s1"
    using alloc_block_num_ok [OF ok] by auto
  have data: "2 + unat n div 32768 < b" using r(4) used unfolding meta_used_def by (meson not_le_imp_less)
  have bN: "b < NBLK" using r(3) fs_okD(6) [OF ok] by simp
  note u = of_nat_block [OF bN] and i1 = io_stepD [OF r(8)]
  have bn: "unat (of_nat b :: u32) < NBLK" using u bN by simp
  note da = diskaddr_blk [OF bn] and nz = blk_addr_nz [OF bn] and up = upage_blk0 [OF bn, unfolded u]
  have bp: "upage (bit_addr b) \<le> 65538 + unat n div 32768" "65538 \<le> upage (bit_addr b)"
    using bit_addr_block(2) [OF bN] div_le_mono [of b "unat n" 32768] r(3) by simp_all
  have m1: "umem s1 a = umem s a" if "upage a \<le> 65537 \<or> 65538 + unat n div 32768 < upage a" for a
    using that bp i1(1) upage_bit_word [OF bN] by auto
  show ?thesis
  proof (cases "va_is_mapped (blk_addr (of_nat b)) s")
    case mapped: True
    then have "alloc_block s = Some (Inr (of_nat b), s1)"
      using r(1) i1(6) da nz by (simp add: alloc_block_def map_block_def block_is_mapped_def)
    moreover have "block_given n b s s1"
      using r(3-7) data mapped i1(3) m1 fs_okD(6) [OF ok] by (simp add: block_given_def)
    ultimately show ?thesis using True by auto
  next
    case unmapped: False
    define s2 where "s2 = snd (syscall_mem_alloc (blk_addr (of_nat b)) (PTE_V OR PTE_D) s1)"
    have no: "\<not> oom s1 (nalloc s1)" using r(8) mem by (simp add: io_step_def)
    have s2: "syscall_mem_alloc (blk_addr (of_nat b)) (PTE_V OR PTE_D) s1 = (Inr (), s2)"
      "uperm s2 = (uperm s)(65536 + b := PTE_V OR PTE_D)"
      "umem s2 = (\<lambda>a. if upage a = 65536 + b then 0 else umem s1 a)" "disk_ok s2 = disk_ok s1" "fsst.more s2 = fsst.more s1"
      using blk_legal [OF bn] no up i1(3) by (simp_all add: s2_def syscall_mem_alloc_def disk_ok_def)
    have "alloc_block s = Some (Inr (of_nat b), s2)"
      using r(1) i1(6) da unmapped s2(1) by (simp add: alloc_block_def map_block_def block_is_mapped_def)
    moreover have "fs_ok n s2"
      by (rule fs_ok_keep [OF r(7)]) (use s2 fs_okD(7) [OF r(7)] data i1(3) in auto)
    moreover have "is_free s2 c = is_free s1 c" if "c < unat n" for c
    proof -
      have cN: "c < NBLK" using that fs_okD(6) [OF ok] by simp
      have "upage (bit_addr c) < 65536 + b"
        using bit_addr_block(2) [OF cN] div_le_mono [of c "unat n" 32768] that data by simp
      then have "word_at (umem s2) (bit_addr c) = word_at (umem s1) (bit_addr c)"
        by (intro word_at_page [OF bit_addr_mod4 [OF cN]]) (simp add: s2(3))
      then show ?thesis by (simp add: is_free_def)
    qed
    ultimately have "block_given n b s s2"
      using r(3-6) data unmapped s2(2,3) m1 fs_okD(6) [OF ok] by (simp add: block_given_def)
    then show ?thesis using True \<open>alloc_block s = Some (Inr (of_nat b), s2)\<close> by auto
  qed
qed

lemma slot_in_block:
  assumes "unat b < NBLK" and "filebno < 1024"
  shows "unat (blk_addr b + filebno * 4) = unat (blk_addr b) + unat filebno * 4" and "unat filebno * 4 + 4 \<le> 4096"
    and "upage (blk_addr b + filebno * 4) = upage (blk_addr b)"
    and "va_is_mapped (blk_addr b) s \<Longrightarrow> uldw (blk_addr b + filebno * 4) s = Some (word_at (umem s) (blk_addr b + filebno * 4))"
proof -
  show f: "unat filebno * 4 + 4 \<le> 4096" using assms(2) by (simp add: word_less_nat_alt)
  have e: "blk_addr b + filebno * 4 = blk_addr b + of_nat (unat filebno * 4)" by simp
  note a = unat_blk_addr [OF assms(1), of "unat filebno * 4"] unat_blk_addr [OF assms(1), of 0]
  show u: "unat (blk_addr b + filebno * 4) = unat (blk_addr b) + unat filebno * 4" unfolding e using a f by simp
  show p: "upage (blk_addr b + filebno * 4) = upage (blk_addr b)"
    unfolding e using upage_blk [OF assms(1), of "unat filebno * 4"] upage_blk0 [OF assms(1)] f by simp
  have "unat (blk_addr b + filebno * 4) = 4 * (67108864 + unat b * 1024 + unat filebno)" using u a(2) by simp
  then show "uldw (blk_addr b + filebno * 4) s = Some (word_at (umem s) (blk_addr b + filebno * 4))"
    if "va_is_mapped (blk_addr b) s" using that p by (simp add: uldw_def va_is_mapped_def)
qed

text \<open>The slot of a file block in an indirect block: inside the block, and readable.\<close>

definition slot_ok :: "u32 \<Rightarrow> u32 \<Rightarrow> ('z) fsst_scheme \<Rightarrow> bool" where
  "slot_ok b filebno s \<longleftrightarrow> unat (blk_addr b + filebno * 4) = unat (blk_addr b) + unat filebno * 4 \<and>
     unat filebno * 4 + 4 \<le> 4096 \<and> uldw (blk_addr b + filebno * 4) s \<noteq> None"

lemma slot_okI: "unat b < NBLK \<Longrightarrow> filebno < 1024 \<Longrightarrow> va_is_mapped (blk_addr b) s \<Longrightarrow> slot_ok b filebno s"
  using slot_in_block(1,2) [of b filebno] slot_in_block(4) [of b filebno s] by (simp add: slot_ok_def)

lemma read_block_load:
  assumes ok: "fs_ok n s" and b: "b < n" "\<not> is_free s (unat b)" "2 + unat n div 32768 < unat b" and mem: "\<not> oom s (nalloc s)"
  shows "\<exists>new s'. read_block b s = Some ((blk_addr b, new), s') \<and> fs_ok n s' \<and> va_is_mapped (blk_addr b) s' \<and>
    (if va_is_mapped (blk_addr b) s then s' = s
     else on_disk b s' \<and> disks s' = disks s \<and> (\<forall>a. upage a \<noteq> upage (blk_addr b) \<longrightarrow> umem s' a = umem s a))"
proof (cases "va_is_mapped (blk_addr b) s")
  case True
  then show ?thesis using read_block_cached [OF ok b(1,2)] ok by auto
next
  case False
  have bn: "unat b < NBLK" using b(1) fs_okD(6) [OF ok] by (simp add: word_less_nat_alt)
  obtain s' where s': "ide_read 0 (b * 8) (blk_addr b) 8 (snd (syscall_mem_alloc (blk_addr b) PTE_D s)) = Some s'"
    "umem s' = mem_upd (blk_addr b) 4096 (\<lambda>i. disks s 0 (unat b * 4096 + i)) (umem s)"
    "disks s' = disks s" "uperm s' = (uperm s)(65536 + unat b := PTE_D OR PTE_V)" "disk_ok s'"
    "fsst.more s' = fsst.more s" "on_disk b s'"
    using load_block_ok [OF fs_okD(7) [OF ok] bn mem] by blast
  have "read_block b s = Some ((blk_addr b, True), s')"
    using s'(1) fs_okD [OF ok] block_is_free_eq [OF ok b(1)] b diskaddr_blk [OF bn] False by (simp add: read_block_def)
  moreover have m: "umem s' a = umem s a" if "upage a \<noteq> upage (blk_addr b)" for a
    using that in_block_iff [OF bn, of a] by (simp add: s'(2) mem_upd_def)
  moreover have "fs_ok n s'"
    by (rule fs_ok_keep [OF ok s'(6,5)]) (use s'(4) m b(3) upage_blk0 [OF bn] in auto)
  moreover have "va_is_mapped (blk_addr b) s'" by (simp add: va_is_mapped_def s'(4) upage_blk0 [OF bn])
  ultimately show ?thesis using False s'(3,7) by auto
qed

text \<open>C33. Block tables: for a file structure in a data block in use or in the superblock, while the kernel has a
  page left, \<^verbatim>\<open>file_block_walk\<close> gives the slot in the structure for the first ten blocks and \<^verbatim>\<open>-E_INVAL\<close> from
  block 1024 on.  In between it gives the slot of the block in the file's indirect block, which lies inside
  that block and can be read; the block is read from the disk unless it is cached.  A file without an indirect
  block gets the lowest free block when \<^verbatim>\<open>alloc\<close> is set, in the bitmap and in the structure, or \<^verbatim>\<open>-E_NO_DISK\<close>; when
  it is not set the result is \<^verbatim>\<open>-E_NOT_FOUND\<close>.  Errors change nothing.  The new indirect block is zero only when it
  was not in the cache: a block freed before keeps its bytes, which then count as block numbers.\<close>

theorem file_block_walk_bounds:
  assumes ok: "fs_ok n s" and f: "file_at n f s" and used: "meta_used n s" and mem: "\<not> oom s (nalloc s)"
    and ind: "ind = word_at (umem s) (f_indirect f)"
    and valid: "ind = 0 \<or> 2 + unat n div 32768 < unat ind \<and> ind < n \<and> \<not> is_free s (unat ind)"
  shows "if filebno < 10 then file_block_walk f filebno alloc0 s = Some (Inr (f + 136 + filebno * 4), s) \<and>
      136 + unat filebno * 4 + 4 \<le> 176
    else if 1024 \<le> filebno then file_block_walk f filebno alloc0 s = Some (Inl E_INVAL, s)
    else if ind \<noteq> 0 then \<exists>s'. file_block_walk f filebno alloc0 s = Some (Inr (blk_addr ind + filebno * 4), s') \<and>
      slot_ok ind filebno s' \<and> fs_ok n s' \<and>
      (if va_is_mapped (blk_addr ind) s then s' = s
       else on_disk ind s' \<and> disks s' = disks s \<and> (\<forall>a. upage a \<noteq> upage (blk_addr ind) \<longrightarrow> umem s' a = umem s a))
    else if \<not> alloc0 then file_block_walk f filebno alloc0 s = Some (Inl E_NOT_FOUND, s)
    else if \<exists>b. 3 \<le> b \<and> b < unat n \<and> is_free s b then
      \<exists>b s1 s'. file_block_walk f filebno alloc0 s = Some (Inr (blk_addr (of_nat b) + filebno * 4), s') \<and>
        block_given n b s s1 \<and> s' = s1\<lparr>umem := put_word (f_indirect f) (of_nat b) (umem s1)\<rparr> \<and>
        slot_ok (of_nat b) filebno s' \<and> fs_ok n s' \<and> (\<forall>c < unat n. is_free s' c \<longleftrightarrow> is_free s c \<and> c \<noteq> b)
    else file_block_walk f filebno alloc0 s = Some (Inl E_NO_DISK, s)"
proof -
  have ld: "uldw (f_indirect f) s = Some ind" using f by (simp add: file_at_def uldw_def writable_def ind)
  consider (direct) "filebno < 10" | (high) "\<not> filebno < 10" "1024 \<le> filebno"
    | (old) "\<not> filebno < 10" "filebno < 1024" "ind \<noteq> 0" | (none) "\<not> filebno < 10" "filebno < 1024" "ind = 0" "\<not> alloc0"
    | (new) "\<not> filebno < 10" "filebno < 1024" "ind = 0" alloc0
    by fastforce
  then show ?thesis
  proof cases
    case direct
    then show ?thesis by (simp add: file_block_walk_def word_less_nat_alt)
  next
    case high
    then have "\<not> filebno < 1024" by simp
    then show ?thesis using high by (simp add: file_block_walk_def)
  next
    case old
    then have v: "2 + unat n div 32768 < unat ind" "ind < n" "\<not> is_free s (unat ind)" using valid by auto
    then have iN: "unat ind < NBLK" using fs_okD(6) [OF ok] by (simp add: word_less_nat_alt)
    obtain new s' where s': "read_block ind s = Some ((blk_addr ind, new), s')" "fs_ok n s'" "va_is_mapped (blk_addr ind) s'"
      "if va_is_mapped (blk_addr ind) s then s' = s
       else on_disk ind s' \<and> disks s' = disks s \<and> (\<forall>a. upage a \<noteq> upage (blk_addr ind) \<longrightarrow> umem s' a = umem s a)"
      using read_block_load [OF ok v(2,3,1) mem] by blast
    have "file_block_walk f filebno alloc0 s = Some (Inr (blk_addr ind + filebno * 4), s')"
      using old ld s'(1) by (simp add: file_block_walk_def)
    moreover have "slot_ok ind filebno s'" by (rule slot_okI [OF iN old(2) s'(3)])
    moreover have "\<not> 1024 \<le> filebno" using old(2) by simp
    ultimately show ?thesis using old s'(2,4) by (simp only: if_True if_False simp_thms) blast
  next
    case none
    then show ?thesis using ld by (simp add: file_block_walk_def linorder_not_le)
  next
    case new
    then have le: "\<not> 1024 \<le> filebno" by simp
    show ?thesis
    proof (cases "\<exists>b. 3 \<le> b \<and> b < unat n \<and> is_free s b")
      case False
      then have "alloc_block s = Some (Inl E_NO_DISK, s)" using alloc_block_ok [OF ok used mem] by simp
      then have "file_block_walk f filebno alloc0 s = Some (Inl E_NO_DISK, s)"
        using new ld by (simp add: file_block_walk_def)
      then show ?thesis using new le False by (simp only: if_True if_False simp_thms)
    next
      case True
      then obtain b s1 where r: "alloc_block s = Some (Inr (of_nat b), s1)" "block_given n b s s1"
        using alloc_block_ok [OF ok used mem] by auto
      have g: "2 + unat n div 32768 < b" "b < unat n" "is_free s b" "\<And>c. c < unat n \<Longrightarrow> is_free s1 c \<longleftrightarrow> is_free s c \<and> c \<noteq> b" "fs_ok n s1"
        "uperm s1 = (if va_is_mapped (blk_addr (of_nat b)) s then uperm s else (uperm s)(65536 + b := PTE_V OR PTE_D))"
        using r(2) by (simp_all add: block_given_def)
      have bN: "b < NBLK" using g(2) fs_okD(6) [OF ok] by simp
      note u = of_nat_block [OF bN]
      have bn: "unat (of_nat b :: u32) < NBLK" using u bN by simp
      note up = upage_blk0 [OF bn, unfolded u]
      have fp: "upage (f_indirect f) \<noteq> 65536 + b" using f g(1,3) by (auto simp: file_at_def)
      have f1: "file_at n f s1"
        using f fp g(4,6) g(3) by (auto simp: file_at_def writable_def va_is_mapped_def)
      define s' where "s' = s1\<lparr>umem := put_word (f_indirect f) (of_nat b) (umem s1)\<rparr>"
      have st: "ustw (f_indirect f) (of_nat b) s1 = Some s'" "uldw (f_indirect f) s' = Some (of_nat b)"
        using f1 by (simp_all add: file_at_def ustw_def uldw_def s'_def writable_def va_is_mapped_def)
      have ok': "fs_ok n s'" unfolding s'_def by (rule file_store(1) [OF g(5) f1])
      have fr: "is_free s' c \<longleftrightarrow> is_free s c \<and> c \<noteq> b" if "c < unat n" for c
        using file_store(2) [OF g(5) f1 that, of "of_nat b"] g(4) [OF that] by (simp add: s'_def)
      have m: "va_is_mapped (blk_addr (of_nat b)) s'"
        using g(6) up by (auto simp: va_is_mapped_def s'_def)
      have "read_block (of_nat b) s' = Some ((blk_addr (of_nat b), False), s')"
        by (rule read_block_cached [OF ok' _ _ m]) (use u g(2) fr in \<open>simp_all add: word_less_nat_alt\<close>)
      then have "file_block_walk f filebno alloc0 s = Some (Inr (blk_addr (of_nat b) + filebno * 4), s')"
        using new ld r(1) st by (simp add: file_block_walk_def)
      moreover have "slot_ok (of_nat b) filebno s'" by (rule slot_okI [OF bn new(2) m])
      ultimately have "\<exists>b s1 s'. file_block_walk f filebno alloc0 s = Some (Inr (blk_addr (of_nat b) + filebno * 4), s') \<and>
        block_given n b s s1 \<and> s' = s1\<lparr>umem := put_word (f_indirect f) (of_nat b) (umem s1)\<rparr> \<and>
        slot_ok (of_nat b) filebno s' \<and> fs_ok n s' \<and> (\<forall>c < unat n. is_free s' c \<longleftrightarrow> is_free s c \<and> c \<noteq> b)"
        using r(2) ok' fr s'_def by blast
      then show ?thesis using new le True by (simp only: if_True if_False simp_thms)
    qed
  qed
qed

text \<open>A file structure in block 4 without an indirect block: it gets block 5.\<close>

definition fs_demo_file :: fs_state where
  "fs_demo_file = fs_demo\<lparr>uperm := (uperm fs_demo)(65540 := 0x600)\<rparr>"

lemma fs_demo_file_ok: "fs_ok 8 fs_demo_file"
proof (rule fs_ok_keep [OF fs_demo_ok])
  show "disk_ok fs_demo_file" using fs_okD(7) [OF fs_demo_ok] by (simp add: fs_demo_file_def disk_ok_def)
qed (auto simp: fs_demo_file_def)

theorem file_block_walk_bounds_witness:
  "\<exists>s'. file_block_walk 0x10004000 20 True fs_demo_file = Some (Inr 0x10005050, s') \<and>
     uldw (f_indirect 0x10004000) s' = Some 5"
proof -
  have fr: "is_free fs_demo_file c \<longleftrightarrow> c = 5 \<or> c = 6" if "c < 8" for c
  proof -
    have "is_free fs_demo_file c = bit (0x60 :: u32) c" using that fs_demo_free [of c] by (simp add: is_free_def fs_demo_file_def)
    then show ?thesis using that by (auto simp: less_Suc_eq numeral_eq_Suc)
  qed
  have f: "file_at 8 0x10004000 fs_demo_file"
  proof -
    have "upage (f_indirect 0x10004000) = 65536 + 4" by (simp add: upage_def)
    moreover have "\<not> is_free fs_demo_file 4" using fr [of 4] by simp
    ultimately show ?thesis
      by (auto simp: file_at_def writable_def va_is_mapped_def fs_demo_file_def intro!: exI [of _ 4])
  qed
  have used: "meta_used 8 fs_demo_file" using fr by (auto simp: meta_used_def)
  have mem: "\<not> oom fs_demo_file (nalloc fs_demo_file)" by (simp add: fs_demo_file_def fs_demo_def)
  have ind: "0 = word_at (umem fs_demo_file) (f_indirect 0x10004000)"
    by (simp add: fs_demo_file_def fs_demo_def word_at_def put_word_def)
  have "\<exists>b. 3 \<le> b \<and> b < unat (8 :: u32) \<and> is_free fs_demo_file b" using fr by (intro exI [of _ 5]) simp
  then obtain b s1 s' where r: "file_block_walk 0x10004000 20 True fs_demo_file = Some (Inr (blk_addr (of_nat b) + 80), s')"
    "block_given 8 b fs_demo_file s1" "s' = s1\<lparr>umem := put_word (f_indirect 0x10004000) (of_nat b) (umem s1)\<rparr>"
    using file_block_walk_bounds [OF fs_demo_file_ok f used mem ind, of 20 True] by auto
  have b: "b < 8" "is_free fs_demo_file b" "\<forall>c. 3 \<le> c \<and> c < b \<longrightarrow> \<not> is_free fs_demo_file c"
    using r(2) by (simp_all add: block_given_def)
  have "b = 5" using b fr [of b] fr [of 5] by auto
  moreover have "va_is_mapped (f_indirect 0x10004000) s'"
    using r(2) by (auto simp: r(3) block_given_def va_is_mapped_def fs_demo_file_def upage_def split: if_splits)
  ultimately show ?thesis using r(1) by (simp add: blk_addr_def uldw_def r(3))
qed

end
