(* ===== verification/Pipe.thy ===== *)
theory Pipe
  imports Prelude
begin

text \<open>
  Pipes (\<^verbatim>\<open>user/lib/pipe.c\<close>) between one reader and one writer that run concurrently.  The
  two programs are \<^verbatim>\<open>pipe_read\<close>, \<^verbatim>\<open>pipe_write\<close> and \<^verbatim>\<open>pipe_close\<close>, cut at every access to the memory
  they share: the structure \<^verbatim>\<open>struct Pipe\<close> (read and write positions, 32 bytes of buffer) and the
  reference counts of the pages (\<^verbatim>\<open>pageref\<close> of the two file descriptor pages and of the pipe
  page).  Any interleaving of the cuts is a run.  The loop of \<^verbatim>\<open>_pipe_is_closed\<close> repeats its two
  reads until no other environment ran between them, so together they are one step.

  \<open>sent\<close> and \<open>got\<close> record the bytes whose position has been advanced; they are not part of the program.
\<close>

section \<open>State\<close>

datatype rpc = RIdle | RFirst | RFirstClosed | RLoop | RCheck | RClosed | RGet | RInc | RUnmap | RShut

datatype wpc = WIdle | WLoop | WCheck | WClosed | WPut | WInc | WUnmap | WShut

record pipe_sys =
  p_rpos :: u32
  p_wpos :: u32
  p_buf :: "u8 list"
  ref_r :: nat
  ref_w :: nat
  ref_p :: nat
  r_pc :: rpc
  r_n :: nat
  r_i :: nat
  r_buf :: "u8 list"
  r_ret :: nat
  w_pc :: wpc
  w_data :: "u8 list"
  w_i :: nat
  w_ret :: nat
  sent :: "u8 list"
  got :: "u8 list"

abbreviation (input) BY2PIPE :: nat where "BY2PIPE \<equiv> 32"

text \<open>After \<^verbatim>\<open>pipe()\<close>, with the read end open in one environment and the write end in the other.\<close>

definition pipe0 :: pipe_sys where
  "pipe0 = \<lparr>p_rpos = 0, p_wpos = 0, p_buf = replicate BY2PIPE 0, ref_r = 1, ref_w = 1, ref_p = 2,
     r_pc = RIdle, r_n = 0, r_i = 0, r_buf = [], r_ret = 0, w_pc = WIdle, w_data = [], w_i = 0, w_ret = 0,
     sent = [], got = []\<rparr>"

definition pipe_is_closed_r :: "pipe_sys \<Rightarrow> bool" where
  "pipe_is_closed_r s \<longleftrightarrow> ref_r s = ref_p s"

definition pipe_is_closed_w :: "pipe_sys \<Rightarrow> bool" where
  "pipe_is_closed_w s \<longleftrightarrow> ref_w s = ref_p s"

section \<open>The reader\<close>

definition pipe_read :: "nat \<Rightarrow> pipe_sys \<Rightarrow> pipe_sys option" where
  "pipe_read n s = (if r_pc s = RIdle then Some (s\<lparr>r_pc := RFirst, r_n := n, r_i := 0, r_buf := []\<rparr>) else None)"

definition read_step :: "pipe_sys \<Rightarrow> pipe_sys option" where
  "read_step s = (case r_pc s of
     RFirst \<Rightarrow> Some (s\<lparr>r_pc := (if p_rpos s \<ge> p_wpos s then RFirstClosed else RLoop)\<rparr>)
   | RFirstClosed \<Rightarrow>
       Some (if pipe_is_closed_r s then s\<lparr>r_pc := RIdle, r_ret := 0\<rparr> else s\<lparr>r_pc := RFirst\<rparr>)
   | RLoop \<Rightarrow> Some (if r_i s < r_n s then s\<lparr>r_pc := RCheck\<rparr> else s\<lparr>r_pc := RIdle, r_ret := r_n s\<rparr>)
   | RCheck \<Rightarrow> Some (s\<lparr>r_pc := (if p_rpos s \<ge> p_wpos s then RClosed else RGet)\<rparr>)
   | RClosed \<Rightarrow>
       Some (if r_i s > 0 \<or> pipe_is_closed_r s then s\<lparr>r_pc := RIdle, r_ret := r_i s\<rparr> else s\<lparr>r_pc := RCheck\<rparr>)
   | RGet \<Rightarrow> Some (s\<lparr>r_pc := RInc, r_buf := r_buf s @ [p_buf s ! unat (p_rpos s mod 32)]\<rparr>)
   | RInc \<Rightarrow> Some (s\<lparr>r_pc := RLoop, p_rpos := p_rpos s + 1, r_i := r_i s + 1, got := got s @ [last (r_buf s)]\<rparr>)
   | RUnmap \<Rightarrow> Some (s\<lparr>r_pc := RShut, ref_p := ref_p s - 1\<rparr>)
   | _ \<Rightarrow> None)"

section \<open>The writer\<close>

definition pipe_write :: "u8 list \<Rightarrow> pipe_sys \<Rightarrow> pipe_sys option" where
  "pipe_write data s = (if w_pc s = WIdle then Some (s\<lparr>w_pc := WLoop, w_data := data, w_i := 0\<rparr>) else None)"

definition write_step :: "pipe_sys \<Rightarrow> pipe_sys option" where
  "write_step s = (case w_pc s of
     WLoop \<Rightarrow>
       Some (if w_i s < length (w_data s) then s\<lparr>w_pc := WCheck\<rparr> else s\<lparr>w_pc := WIdle, w_ret := length (w_data s)\<rparr>)
   | WCheck \<Rightarrow> Some (s\<lparr>w_pc := (if p_wpos s - p_rpos s \<ge> 32 then WClosed else WPut)\<rparr>)
   | WClosed \<Rightarrow>
       Some (if pipe_is_closed_w s then s\<lparr>w_pc := WIdle, w_ret := w_i s\<rparr> else s\<lparr>w_pc := WCheck\<rparr>)
   | WPut \<Rightarrow> Some (s\<lparr>w_pc := WInc, p_buf := (p_buf s)[unat (p_wpos s mod 32) := w_data s ! w_i s]\<rparr>)
   | WInc \<Rightarrow> Some (s\<lparr>w_pc := WLoop, p_wpos := p_wpos s + 1, w_i := w_i s + 1, sent := sent s @ [w_data s ! w_i s]\<rparr>)
   | WUnmap \<Rightarrow> Some (s\<lparr>w_pc := WShut, ref_p := ref_p s - 1\<rparr>)
   | _ \<Rightarrow> None)"

text \<open>\<^verbatim>\<open>pipe_close\<close>: the descriptor page is unmapped first, the pipe page in the next step.\<close>

definition pipe_close_r :: "pipe_sys \<Rightarrow> pipe_sys option" where
  "pipe_close_r s = (if r_pc s = RIdle then Some (s\<lparr>r_pc := RUnmap, ref_r := ref_r s - 1\<rparr>) else None)"

definition pipe_close_w :: "pipe_sys \<Rightarrow> pipe_sys option" where
  "pipe_close_w s = (if w_pc s = WIdle then Some (s\<lparr>w_pc := WUnmap, ref_w := ref_w s - 1\<rparr>) else None)"

inductive pipe_step :: "pipe_sys \<Rightarrow> pipe_sys \<Rightarrow> bool" where
  start_read: "pipe_read n s = Some s' \<Longrightarrow> pipe_step s s'"
| start_write: "pipe_write data s = Some s' \<Longrightarrow> pipe_step s s'"
| reader: "read_step s = Some s' \<Longrightarrow> pipe_step s s'"
| writer: "write_step s = Some s' \<Longrightarrow> pipe_step s s'"
| close_read: "pipe_close_r s = Some s' \<Longrightarrow> pipe_step s s'"
| close_write: "pipe_close_w s = Some s' \<Longrightarrow> pipe_step s s'"

inductive_cases pipe_stepE: "pipe_step s s'"

inductive pipe_reach :: "pipe_sys \<Rightarrow> bool" where
  init: "pipe_reach pipe0"
| step: "pipe_reach s \<Longrightarrow> pipe_step s s' \<Longrightarrow> pipe_reach s'"

section \<open>The invariant\<close>

definition pipe_data_inv :: "pipe_sys \<Rightarrow> bool" where
  "pipe_data_inv s \<longleftrightarrow> p_rpos s = of_nat (length (got s)) \<and> p_wpos s = of_nat (length (sent s)) \<and>
     length (p_buf s) = 32 \<and> length (got s) \<le> length (sent s) \<and> length (sent s) \<le> length (got s) + 32 \<and>
     take (length (got s)) (sent s) = got s \<and>
     (\<forall>k. length (got s) \<le> k \<and> k < length (sent s) \<longrightarrow> p_buf s ! (k mod 32) = sent s ! k)"

definition reader_inv :: "pipe_sys \<Rightarrow> bool" where
  "reader_inv s \<longleftrightarrow> (r_pc s \<in> {RGet, RInc} \<longrightarrow> length (got s) < length (sent s)) \<and>
     (r_pc s = RInc \<longrightarrow> r_buf s \<noteq> [] \<and> last (r_buf s) = sent s ! length (got s)) \<and>
     (r_pc s \<in> {RCheck, RClosed, RGet, RInc} \<longrightarrow> r_i s < r_n s)"

definition writer_inv :: "pipe_sys \<Rightarrow> bool" where
  "writer_inv s \<longleftrightarrow> (w_pc s \<in> {WPut, WInc} \<longrightarrow> length (sent s) < length (got s) + 32) \<and>
     (w_pc s = WInc \<longrightarrow> p_buf s ! (length (sent s) mod 32) = w_data s ! w_i s) \<and>
     (w_pc s \<in> {WCheck, WClosed, WPut, WInc} \<longrightarrow> w_i s < length (w_data s))"

definition refs_inv :: "pipe_sys \<Rightarrow> bool" where
  "refs_inv s \<longleftrightarrow> ref_r s = (if r_pc s \<in> {RUnmap, RShut} then 0 else 1) \<and>
     ref_w s = (if w_pc s \<in> {WUnmap, WShut} then 0 else 1) \<and>
     ref_p s = (if r_pc s = RShut then 0 else 1) + (if w_pc s = WShut then 0 else 1)"

lemmas pipe_inv_defs = pipe_data_inv_def reader_inv_def writer_inv_def refs_inv_def
lemmas pipe_op_defs = pipe_read_def pipe_write_def pipe_close_r_def pipe_close_w_def
  pipe_is_closed_r_def pipe_is_closed_w_def

lemma pos_mod: "n < 4294967296 \<Longrightarrow> unat ((of_nat n :: u32) mod 32) = n mod 32"
  by (simp add: unat_mod_distrib word_of_nat_unat_eq)

lemma pos_le: "m < 4294967296 \<Longrightarrow> n < 4294967296 \<Longrightarrow> (of_nat m :: u32) \<le> of_nat n \<longleftrightarrow> m \<le> n"
  by (simp add: word_le_nat_alt word_of_nat_unat_eq)

lemma pos_diff:
  assumes "m \<le> n" and "n < 4294967296"
  shows "(32 :: u32) \<le> of_nat n - of_nat m \<longleftrightarrow> 32 \<le> n - m"
proof -
  have "(of_nat n - of_nat m :: u32) = of_nat (n - m)" using assms by (simp add: of_nat_diff)
  then show ?thesis using assms by (simp add: word_le_nat_alt word_of_nat_unat_eq del: of_nat_diff)
qed

text \<open>Two unread positions never share a cell.\<close>

lemma cells_apart:
  assumes "g \<le> k" and "k < n" and "n < g + (32 :: nat)"
  shows "k mod 32 \<noteq> n mod 32"
proof
  assume "k mod 32 = n mod 32"
  then have "(n - k) mod 32 = 0" using assms by (simp add: mod_eq_dvd_iff_nat [symmetric])
  then show False using assms by simp
qed

section \<open>Preservation\<close>

definition pipe_inv :: "pipe_sys \<Rightarrow> bool" where
  "pipe_inv s \<longleftrightarrow> pipe_data_inv s \<and> reader_inv s \<and> writer_inv s \<and> refs_inv s"

lemma stepD: "f s = Some s' \<Longrightarrow> s' = the (f s)"
  by simp

lemma step_ne: "x = Some y \<Longrightarrow> x \<noteq> None"
  by simp

lemma read_step_refs:
  assumes "refs_inv s" and "read_step s = Some s'"
  shows "refs_inv s'"
  using assms(1) unfolding stepD [of read_step, OF assms(2)] refs_inv_def
  by (cases "r_pc s") (use step_ne [OF assms(2)] in \<open>simp_all add: read_step_def\<close>)

lemma read_step_inv:
  assumes inv: "pipe_data_inv s" "reader_inv s" "writer_inv s" and b: "length (sent s) < 4294967296"
    and st: "read_step s = Some s'"
  shows "pipe_data_inv s' \<and> reader_inv s' \<and> writer_inv s'"
proof -
  let ?g = "length (got s)" and ?n = "length (sent s)"
  have p: "p_rpos s = of_nat ?g" "p_wpos s = of_nat ?n" "?g \<le> ?n" "?g < 4294967296"
    using inv(1) b by (auto simp: pipe_data_inv_def)
  have e: "p_rpos s \<ge> p_wpos s \<longleftrightarrow> ?n \<le> ?g" unfolding p(1,2) by (rule pos_le [OF b p(4)])
  have cell: "p_buf s ! (?g mod 32) = sent s ! ?g" if "?g < ?n" using inv(1) that by (simp add: pipe_data_inv_def)
  have tk: "take (Suc ?g) (sent s) = got s @ [sent s ! ?g]" if "?g < ?n"
    using inv(1) that by (metis pipe_data_inv_def take_Suc_conv_app_nth)
  note s' = stepD [of read_step, OF st]
  show ?thesis
  proof (cases "r_pc s")
    case RGet
    then have "?g < ?n" using inv(2) by (simp add: reader_inv_def)
    then show ?thesis
      using RGet inv p cell pos_mod [OF p(4)] unfolding s' by (simp add: read_step_def pipe_inv_defs)
  next
    case RInc
    then have l: "?g < ?n" "last (r_buf s) = sent s ! ?g" using inv(2) by (auto simp: reader_inv_def)
    then show ?thesis using RInc inv p(1) tk [OF l(1)] unfolding s' by (simp add: read_step_def pipe_inv_defs)
  qed (use step_ne [OF st] inv e in \<open>simp_all add: s' read_step_def pipe_inv_defs\<close>)
qed

lemma write_step_refs:
  assumes "refs_inv s" and "write_step s = Some s'"
  shows "refs_inv s'"
  using assms(1) unfolding stepD [of write_step, OF assms(2)] refs_inv_def
  by (cases "w_pc s") (use step_ne [OF assms(2)] in \<open>simp_all add: write_step_def\<close>)

lemma write_step_inv:
  assumes inv: "pipe_data_inv s" "reader_inv s" "writer_inv s" and b: "length (sent s) < 4294967296"
    and st: "write_step s = Some s'"
  shows "pipe_data_inv s' \<and> reader_inv s' \<and> writer_inv s'"
proof -
  let ?g = "length (got s)" and ?n = "length (sent s)"
  have p: "p_rpos s = of_nat ?g" "p_wpos s = of_nat ?n" "?g \<le> ?n" "length (p_buf s) = 32"
    using inv(1) by (auto simp: pipe_data_inv_def)
  have f: "p_wpos s - p_rpos s \<ge> 32 \<longleftrightarrow> 32 \<le> ?n - ?g" unfolding p(1,2) by (rule pos_diff [OF p(3) b])
  note s' = stepD [of write_step, OF st]
  show ?thesis
  proof (cases "w_pc s")
    case WPut
    then have l: "?n < ?g + 32" using inv(3) by (simp add: writer_inv_def)
    have w: "s' = s\<lparr>w_pc := WInc, p_buf := (p_buf s)[?n mod 32 := w_data s ! w_i s]\<rparr>"
      using s' WPut p(2) pos_mod [OF b] by (simp add: write_step_def)
    have "p_buf s' ! (k mod 32) = sent s' ! k" if "?g \<le> k" "k < ?n" for k
      using inv(1) cells_apart [OF that l] that by (simp add: w pipe_data_inv_def)
    then show ?thesis using inv p(4) l WPut unfolding w by (simp add: pipe_inv_defs)
  next
    case WInc
    then have l: "?n < ?g + 32" "p_buf s ! (?n mod 32) = w_data s ! w_i s" using inv(3) by (auto simp: writer_inv_def)
    have w: "s' = s\<lparr>w_pc := WLoop, p_wpos := p_wpos s + 1, w_i := w_i s + 1, sent := sent s @ [w_data s ! w_i s]\<rparr>"
      using s' WInc by (simp add: write_step_def)
    have "\<forall>k. ?g \<le> k \<and> k < Suc ?n \<longrightarrow> p_buf s' ! (k mod 32) = sent s' ! k"
      using inv(1) l(2) by (auto simp: w pipe_data_inv_def nth_append less_Suc_eq)
    then show ?thesis using inv p(2,3) l(1) WInc unfolding w by (simp add: pipe_inv_defs nth_append)
  qed (use step_ne [OF st] inv f p(3) in \<open>auto simp add: s' write_step_def pipe_inv_defs\<close>)
qed

lemma sent_mono: "pipe_step s s' \<Longrightarrow> length (sent s) \<le> length (sent s')"
proof (cases rule: pipe_step.cases)
  assume "pipe_step s s'"
  {
    assume "read_step s = Some s'"
    then show ?thesis by (cases "r_pc s") (auto simp: read_step_def)
  next
    assume "write_step s = Some s'"
    then show ?thesis by (cases "w_pc s") (auto simp: write_step_def)
  }
qed (auto simp: pipe_op_defs split: if_splits)

lemma start_inv:
  assumes "pipe_inv s" and "pipe_read n s = Some s' \<or> pipe_write data s = Some s' \<or> pipe_close_r s = Some s' \<or> pipe_close_w s = Some s'"
  shows "pipe_inv s'"
proof -
  consider "r_pc s = RIdle" "s' = s\<lparr>r_pc := RFirst, r_n := n, r_i := 0, r_buf := []\<rparr>"
    | "w_pc s = WIdle" "s' = s\<lparr>w_pc := WLoop, w_data := data, w_i := 0\<rparr>"
    | "r_pc s = RIdle" "s' = s\<lparr>r_pc := RUnmap, ref_r := ref_r s - 1\<rparr>"
    | "w_pc s = WIdle" "s' = s\<lparr>w_pc := WUnmap, ref_w := ref_w s - 1\<rparr>"
    using assms(2) by (auto simp: pipe_op_defs split: if_splits)
  then show ?thesis
    by cases (use assms(1) in \<open>simp_all add: pipe_inv_def pipe_inv_defs\<close>)
qed

lemma pipe_step_inv:
  assumes "pipe_inv s" and "pipe_step s s'" and "length (sent s) < 4294967296"
  shows "pipe_inv s'"
  using assms(2)
proof (cases rule: pipe_step.cases)
  case reader
  then show ?thesis using read_step_inv [of s s'] read_step_refs [of s s'] assms(1,3) by (simp add: pipe_inv_def)
next
  case writer
  then show ?thesis using write_step_inv [of s s'] write_step_refs [of s s'] assms(1,3) by (simp add: pipe_inv_def)
qed (use start_inv [OF assms(1)] in blast)+

lemma pipe_reach_inv: "pipe_reach s \<Longrightarrow> length (sent s) < 4294967296 \<Longrightarrow> pipe_inv s"
proof (induction rule: pipe_reach.induct)
  case init
  then show ?case by (simp add: pipe_inv_def pipe_inv_defs pipe0_def)
next
  case (step s s')
  then show ?case using sent_mono [OF step.hyps(2)] pipe_step_inv [OF _ step.hyps(2)] by simp
qed

text \<open>C34. Pipes are first in, first out: in every interleaving of a reader and a writer, as long as less
  than \<open>2 ^ 32\<close> bytes have been written, the bytes read are a prefix of the bytes written, in order
  and without loss, at most 32 bytes are under way, and the positions never leave the buffer.\<close>

theorem pipe_fifo:
  assumes "pipe_reach s" and "length (sent s) < 4294967296"
  shows "got s = take (length (got s)) (sent s) \<and> length (got s) \<le> length (sent s) \<and>
    length (sent s) \<le> length (got s) + BY2PIPE \<and> unat (p_rpos s) = length (got s) \<and> unat (p_wpos s) = length (sent s) \<and>
    map (\<lambda>k. p_buf s ! (k mod BY2PIPE)) [length (got s)..<length (sent s)] = drop (length (got s)) (sent s)"
proof -
  have d: "pipe_data_inv s" using pipe_reach_inv [OF assms] by (simp add: pipe_inv_def)
  then have "map (\<lambda>k. p_buf s ! (k mod 32)) [length (got s)..<length (sent s)] = drop (length (got s)) (sent s)"
    by (intro nth_equalityI) (auto simp: pipe_data_inv_def)
  then show ?thesis using d assms(2) by (simp add: pipe_data_inv_def word_of_nat_unat_eq)
qed

section \<open>Runs\<close>

datatype pipe_act = Read nat | Write "u8 list" | Reader_Step | Writer_Step | Close_Read | Close_Write

fun pipe_do :: "pipe_act \<Rightarrow> pipe_sys \<Rightarrow> pipe_sys option" where
  "pipe_do (Read n) s = pipe_read n s"
| "pipe_do (Write data) s = pipe_write data s"
| "pipe_do Reader_Step s = read_step s"
| "pipe_do Writer_Step s = write_step s"
| "pipe_do Close_Read s = pipe_close_r s"
| "pipe_do Close_Write s = pipe_close_w s"

lemma pipe_do_step: "pipe_do a s = Some s' \<Longrightarrow> pipe_step s s'"
  by (cases a) (auto intro: pipe_step.intros)

lemma pipe_run_reach: "fold_opt pipe_do as s = Some s' \<Longrightarrow> pipe_reach s \<Longrightarrow> pipe_reach s'"
proof (induction "as" arbitrary: s)
  case (Cons a "as")
  from Cons.prems(1) obtain s1 where "pipe_do a s = Some s1" "fold_opt pipe_do as s1 = Some s'"
    by (auto elim!: bind_eq_SomeD)
  then show ?case using Cons.IH pipe_reach.step [OF Cons.prems(2) pipe_do_step] by blast
qed simp

text \<open>One byte goes through the pipe.\<close>

definition byte_run :: "pipe_act list" where
  "byte_run = [Write [7], Writer_Step, Writer_Step, Writer_Step, Writer_Step, Writer_Step, Read 1,
     Reader_Step, Reader_Step, Reader_Step, Reader_Step, Reader_Step, Reader_Step]"

definition run_result :: "pipe_act list \<Rightarrow> (u8 list \<times> u8 list \<times> rpc \<times> nat \<times> nat \<times> wpc) option" where
  "run_result as = map_option (\<lambda>s. (sent s, got s, r_pc s, r_n s, r_ret s, w_pc s)) (fold_opt pipe_do as pipe0)"

lemma byte_run_result: "run_result byte_run = Some ([7], [7], RIdle, 1, 1, WIdle)"
  by code_simp

lemma run_result_reach:
  assumes "run_result as = Some (se, go, rp, n, ret, wp)"
  shows "\<exists>s. pipe_reach s \<and> sent s = se \<and> got s = go \<and> r_pc s = rp \<and> r_n s = n \<and> r_ret s = ret \<and> w_pc s = wp"
  using assms pipe_run_reach [OF _ init] by (auto simp: run_result_def)

theorem pipe_fifo_witness:
  "\<exists>s. pipe_reach s \<and> got s = [7] \<and> unat (p_rpos s) = 1 \<and> unat (p_wpos s) = 1"
proof -
  obtain s where "pipe_reach s" "sent s = [7]" "got s = [7]" using run_result_reach [OF byte_run_result] by blast
  then show ?thesis using pipe_fifo [of s] by auto
qed

text \<open>C35. End of file: a reader that finds the pipe closed is right - the write end has been closed
  completely; and the check never misses it: as long as the reader has its end open, the pipe counts
  as closed exactly when the writer has unmapped both its pages.  The same holds for the writer.\<close>

theorem pipe_closed_correct:
  assumes "pipe_reach s" and "length (sent s) < 4294967296"
  shows "(r_pc s \<notin> {RUnmap, RShut} \<longrightarrow> (pipe_is_closed_r s \<longleftrightarrow> w_pc s = WShut)) \<and>
    (w_pc s \<notin> {WUnmap, WShut} \<longrightarrow> (pipe_is_closed_w s \<longleftrightarrow> r_pc s = RShut))"
  using pipe_reach_inv [OF assms] by (auto simp: pipe_inv_def refs_inv_def pipe_op_defs)

theorem pipe_closed_correct_witness: "\<not> pipe_is_closed_r pipe0"
  using pipe_closed_correct [OF init] by (simp add: pipe0_def)

text \<open>C40. Lost data: the empty test and the closed test of \<^verbatim>\<open>pipe_read\<close> are separate.  When the writer
  writes a byte and closes its end between the two, the reader returns 0, as at the end of the data,
  although a byte it has not read is in the pipe.\<close>

theorem pipe_lost_data:
  "\<exists>s. pipe_reach s \<and> r_pc s = RIdle \<and> r_n s = 1 \<and> r_ret s = 0 \<and> got s = [] \<and> sent s = [7] \<and> w_pc s = WShut"
proof -
  have "run_result [Read 1, Reader_Step, Write [7], Writer_Step, Writer_Step, Writer_Step, Writer_Step, Writer_Step,
      Close_Write, Writer_Step, Reader_Step] = Some ([7], [], RIdle, 1, 0, WShut)" by code_simp
  from run_result_reach [OF this] show ?thesis by blast
qed

end
