(* ===== verification/Print.thy ===== *)
theory Print
  imports Prelude
begin

text \<open>
  The formatter \<^verbatim>\<open>lib/print.c\<close> that the kernel and the user programs share.  The output callback and its
  data are \<open>out\<close> and a value of an arbitrary type; a C string is the list of its bytes before the
  terminating zero; the variable arguments are a list.  \<^const>\<open>None\<close> stands for undefined behaviour:
  a missing argument or one of another kind, a width that overflows, a buffer that is too small.
  The shift of a 32-bit value by 63 places has no meaning in C; what the compiler makes of it is the
  parameter \<open>sh63\<close>.
\<close>

section \<open>Numbers\<close>

definition digit :: "bool \<Rightarrow> nat \<Rightarrow> u8" where
  "digit upcase tmp =
     (if tmp \<le> 9 then 0x30 + of_nat tmp else if upcase then 0x41 + of_nat tmp - 10 else 0x61 + of_nat tmp - 10)"

text \<open>The loop that stores the digits, the last one first.\<close>

function digit_loop :: "nat \<Rightarrow> bool \<Rightarrow> nat \<Rightarrow> u8 list \<Rightarrow> u8 list" where
  "digit_loop base upcase u buf =
     (let buf' = buf @ [digit upcase (u mod base)]
      in if base < 2 \<or> u div base = 0 then buf' else digit_loop base upcase (u div base) buf')"
  by pat_completeness auto

termination digit_loop
  by (relation "measure (\<lambda>(_, _, u, _). u)") (auto simp: div_less_dividend intro!: div_less_dividend gr0I)

declare digit_loop.simps [simp del]

text \<open>The loop that reverses the bytes from \<open>b\<close> to \<open>e\<close>.\<close>

function swap_loop :: "nat \<Rightarrow> nat \<Rightarrow> 'a list \<Rightarrow> 'a list" where
  "swap_loop b e buf =
     (if e > b then swap_loop (b + 1) (e - 1) (buf[b := buf ! e, e := buf ! b]) else buf)"
  by pat_completeness auto

termination swap_loop
  by (relation "measure (\<lambda>(_, e, _). e)") auto

declare swap_loop.simps [simp del]

definition print_num :: "(u8 list \<Rightarrow> 'd \<Rightarrow> 'd) \<Rightarrow> u32 \<Rightarrow> nat \<Rightarrow> bool \<Rightarrow> int \<Rightarrow> bool \<Rightarrow> u8 \<Rightarrow> bool \<Rightarrow> 'd \<Rightarrow> 'd option" where
  "print_num out u base neg_flag length0 ladjust padc0 upcase data =
     (let ds = digit_loop base upcase (unat u) [];
          buf0 = ds @ (if neg_flag then [0x2d] else []);
          actual = length buf0
      in if length0 + 70 < int actual then None
         else
           (let len = nat (max length0 (int actual));
                padc = (if ladjust then 0x20 else padc0);
                buf1 = (if neg_flag \<and> \<not> ladjust \<and> padc = 0x30
                        then take (actual - 1) buf0 @ replicate (len - actual) padc @ [0x2d]
                        else buf0 @ replicate (len - actual) padc);
                fin = (if ladjust then actual - 1 else len - 1)
            in Some (out (swap_loop 0 fin buf1) data)))"

section \<open>Characters and strings\<close>

definition out_times :: "(u8 list \<Rightarrow> 'd \<Rightarrow> 'd) \<Rightarrow> u8 list \<Rightarrow> nat \<Rightarrow> 'd \<Rightarrow> 'd" where
  "out_times out s n = (out s) ^^ n"

definition print_char :: "(u8 list \<Rightarrow> 'd \<Rightarrow> 'd) \<Rightarrow> u8 \<Rightarrow> int \<Rightarrow> bool \<Rightarrow> 'd \<Rightarrow> 'd" where
  "print_char out c length0 ladjust data =
     (let len = (if length0 < 1 then 1 else length0)
      in if ladjust then out_times out [0x20] (nat (len - 1)) (out [c] data)
         else out [c] (out_times out [0x20] (nat (len - 1)) data))"

definition print_str :: "(u8 list \<Rightarrow> 'd \<Rightarrow> 'd) \<Rightarrow> u8 list \<Rightarrow> int \<Rightarrow> bool \<Rightarrow> 'd \<Rightarrow> 'd" where
  "print_str out s length0 ladjust data =
     (let len = int (length s);
          width = (if length0 < len then len else length0)
      in if ladjust then out_times out [0x20] (nat (width - len)) (out s data)
         else out s (out_times out [0x20] (nat (width - len)) data))"

section \<open>Formats\<close>

datatype arg = Int_Arg u32 | Str_Arg "u8 list"

fun int_arg :: "arg list \<Rightarrow> (u32 \<times> arg list) option" where
  "int_arg (Int_Arg v # ap) = Some (v, ap)"
| "int_arg _ = None"

fun find_flag :: "u8 list \<Rightarrow> u8 \<Rightarrow> bool \<Rightarrow> u8 \<times> bool \<times> u8 list" where
  "find_flag (c # f) padc ladjust =
     (if c = 0x2d then find_flag f 0x20 True
      else if c = 0x30 then find_flag f 0x30 ladjust
      else (padc, ladjust, c # f))"
| "find_flag [] padc ladjust = (padc, ladjust, [])"

fun get_width :: "u8 list \<Rightarrow> int \<Rightarrow> (int \<times> u8 list) option" where
  "get_width (c # f) width =
     (if 0x30 \<le> c \<and> c \<le> 0x39
      then (let w = 10 * width + uint c in if w > 2147483647 then None else get_width f (w - 48))
      else Some (width, c # f))"
| "get_width [] width = Some (width, [])"

text \<open>The width from the arguments, and the length modifier.\<close>

definition star_width :: "u8 list \<Rightarrow> int \<Rightarrow> arg list \<Rightarrow> (int \<times> u8 list \<times> arg list) option" where
  "star_width f width ap =
     (case f of
        c # f' \<Rightarrow> if c = 0x2a then do { (v, ap') \<leftarrow> int_arg ap; Some (sint v, f', ap') } else Some (width, f, ap)
      | [] \<Rightarrow> Some (width, f, ap))"

definition long_mod :: "u8 list \<Rightarrow> bool \<times> u8 list" where
  "long_mod f = (case f of c # f' \<Rightarrow> if c = 0x6c then (True, f') else (False, f) | [] \<Rightarrow> (False, f))"

text \<open>The second \<^verbatim>\<open>switch\<close>: one conversion character.\<close>

definition convert :: "(u32 \<Rightarrow> bool) \<Rightarrow> (u8 list \<Rightarrow> 'd \<Rightarrow> 'd) \<Rightarrow> u8 \<Rightarrow> bool \<Rightarrow> int \<Rightarrow> bool \<Rightarrow> u8 \<Rightarrow> arg list \<Rightarrow> 'd \<Rightarrow>
    (arg list \<times> 'd) option" where
  "convert sh63 out c long_flag width ladjust padc ap data =
     (let num = (\<lambda>base upcase. do {
            (v, ap') \<leftarrow> int_arg ap;
            data' \<leftarrow> print_num out v base False width ladjust padc upcase data;
            Some (ap', data') })
      in if c = 0x62 then num 2 False
         else if c = 0x64 \<or> c = 0x44 then do {
           (v, ap') \<leftarrow> int_arg ap;
           let neg = (if long_flag then sh63 v else sint v < 0);
           data' \<leftarrow> print_num out (if neg then NOT v + 1 else v) 10 neg width ladjust padc False data;
           Some (ap', data') }
         else if c = 0x6f \<or> c = 0x4f then num 8 False
         else if c = 0x75 \<or> c = 0x55 then num 10 False
         else if c = 0x78 then num 16 False
         else if c = 0x58 then num 16 True
         else if c = 0x63 then do {
           (v, ap') \<leftarrow> int_arg ap;
           Some (ap', print_char out (ucast v) width ladjust data) }
         else if c = 0x73 then
           (case ap of Str_Arg s # ap' \<Rightarrow> Some (ap', print_str out s width ladjust data) | _ \<Rightarrow> None)
         else Some (ap, out [c] data))"

lemma find_flag_shorter: "find_flag f p l = (p', l', f') \<Longrightarrow> length f' \<le> length f"
  by (induction f p l rule: find_flag.induct) (fastforce split: if_splits)+

lemma get_width_shorter: "get_width f w = Some (w', f') \<Longrightarrow> length f' \<le> length f"
  by (induction f w rule: get_width.induct) (fastforce simp: Let_def split: if_splits)+

lemma star_width_shorter: "star_width f w ap = Some (w', f', ap') \<Longrightarrow> length f' \<le> length f"
  by (auto simp: star_width_def split: list.splits if_splits elim!: bind_eq_SomeD)

lemma long_mod_shorter: "long_mod f = (l, f') \<Longrightarrow> length f' \<le> length f"
  by (auto simp: long_mod_def split: list.splits if_splits)

text \<open>What stands between a percent sign and its conversion character.\<close>

definition directive :: "u8 list \<Rightarrow> arg list \<Rightarrow> (u8 \<times> bool \<times> int \<times> bool \<times> u8 list \<times> arg list) option" where
  "directive f ap =
     (case find_flag f 0x20 False of (padc, ladjust, f1) \<Rightarrow> do {
        (w, f2) \<leftarrow> get_width f1 0;
        (width, f3, ap') \<leftarrow> star_width f2 w ap;
        (case long_mod f3 of (long_flag, f4) \<Rightarrow> Some (padc, ladjust, width, long_flag, f4, ap')) })"

lemma directive_shorter:
  assumes "directive f ap = Some (p, l, w, lg, f', ap')"
  shows "length f' \<le> length f"
proof -
  obtain padc ladjust f1 where 1: "find_flag f 0x20 False = (padc, ladjust, f1)" by (metis prod_cases3)
  obtain w1 f2 where 2: "get_width f1 0 = Some (w1, f2)"
    using assms 1 by (auto simp: directive_def elim!: bind_eq_SomeD)
  obtain w2 f3 ap2 where 3: "star_width f2 w1 ap = Some (w2, f3, ap2)"
    using assms 1 2 by (auto simp: directive_def elim!: bind_eq_SomeD)
  obtain lg' f4 where 4: "long_mod f3 = (lg', f4)" by fastforce
  have "f' = f4" using assms 1 2 3 4 by (simp add: directive_def)
  then show ?thesis
    using find_flag_shorter [OF 1] get_width_shorter [OF 2] star_width_shorter [OF 3] long_mod_shorter [OF 4] by simp
qed

function vprintfmt :: "(u32 \<Rightarrow> bool) \<Rightarrow> (u8 list \<Rightarrow> 'd \<Rightarrow> 'd) \<Rightarrow> u8 list \<Rightarrow> arg list \<Rightarrow> 'd \<Rightarrow> 'd option" where
  "vprintfmt sh63 out fmt ap data =
     (case fmt of
        [] \<Rightarrow> Some data
      | c # f \<Rightarrow>
          if c \<noteq> 0x25 then vprintfmt sh63 out f ap (out [c] data)
          else (case directive f ap of
            None \<Rightarrow> None
          | Some (padc, ladjust, width, long_flag, f', ap') \<Rightarrow>
              (case f' of
                 [] \<Rightarrow> Some data
               | c' # f'' \<Rightarrow>
                   (case convert sh63 out c' long_flag width ladjust padc ap' data of
                      None \<Rightarrow> None
                    | Some (ap'', data') \<Rightarrow> vprintfmt sh63 out f'' ap'' data'))))"
  by pat_completeness auto

termination vprintfmt
  by (relation "measure (\<lambda>(_, _, fmt, _). length fmt)") (auto dest!: directive_shorter)

declare vprintfmt.simps [simp del]

end
