(* ===== verification/Print_Props.thy ===== *)
theory Print_Props
  imports Print
begin

text \<open>
  Properties of the formatter: the digits and paddings of \<^verbatim>\<open>print_num\<close> against a description of the
  text, the way back from the text to the number, and the decimal conversion of \<^verbatim>\<open>vprintfmt\<close>.
\<close>

section \<open>Digits\<close>

function digits_of :: "nat \<Rightarrow> nat \<Rightarrow> nat list" where
  "digits_of base u = (if base < 2 \<or> u < base then [u mod base] else digits_of base (u div base) @ [u mod base])"
  by pat_completeness auto

termination digits_of
  by (relation "measure snd") auto

declare digits_of.simps [simp del]

lemma digit_loop_eq:
  assumes "2 \<le> base"
  shows "digit_loop base up u buf = buf @ rev (map (digit up) (digits_of base u))"
proof (induction u arbitrary: buf rule: less_induct)
  case (less u)
  show ?case
  proof (cases "u < base")
    case True
    then have "u div base = 0" by simp
    then show ?thesis using True by (subst digit_loop.simps, subst digits_of.simps) (simp add: Let_def)
  next
    case False
    then have "u div base \<noteq> 0" "u div base < u" using assms by (auto simp: div_eq_0_iff)
    then show ?thesis
      using False assms less.IH [of "u div base"]
      by (subst digit_loop.simps, subst digits_of.simps) (simp add: Let_def)
  qed
qed

lemma digits_value:
  assumes "2 \<le> base"
  shows "foldl (\<lambda>a d. a * base + d) 0 (digits_of base u) = u" and "set (digits_of base u) \<subseteq> {..<base}"
proof (induction u rule: less_induct)
  case (less u)
  have d: "u div base < u" if "\<not> u < base" using assms that by simp
  {
    case 1
    show ?case using less(1) [OF d] assms by (subst digits_of.simps) auto
  next
    case 2
    show ?case using less(2) [OF d] assms by (subst digits_of.simps) auto
  }
qed

lemma digits_length:
  assumes "2 \<le> base"
  shows "u < 2 ^ Suc k \<Longrightarrow> length (digits_of base u) \<le> Suc k"
proof (induction k arbitrary: u)
  case 0
  then show ?case using assms by (subst digits_of.simps) simp
next
  case (Suc k)
  have "u div base \<le> u div 2" using assms by (simp add: div_le_mono2)
  also have "\<dots> < 2 ^ Suc k" using Suc.prems by (simp add: less_mult_imp_div_less mult.commute)
  finally have "length (digits_of base (u div base)) \<le> Suc k" by (rule Suc.IH)
  then show ?case by (subst digits_of.simps) simp
qed

section \<open>Reversal\<close>

lemma swap_loop_nth:
  "e < length buf \<Longrightarrow> length (swap_loop b e buf) = length buf \<and>
   (\<forall>i < length buf. swap_loop b e buf ! i = (if b \<le> i \<and> i \<le> e then buf ! (b + e - i) else buf ! i))"
proof (induction b e buf rule: swap_loop.induct)
  case (1 b e buf)
  show ?case
  proof (cases "e > b")
    case True
    let ?buf = "buf[b := buf ! e, e := buf ! b]"
    note IH = "1.IH" [OF True]
    have r: "swap_loop b e buf = swap_loop (b + 1) (e - 1) ?buf" using True by (subst swap_loop.simps) simp
    have "swap_loop b e buf ! i = (if b \<le> i \<and> i \<le> e then buf ! (b + e - i) else buf ! i)" if i: "i < length buf" for i
    proof -
      have "swap_loop b e buf ! i = (if b + 1 \<le> i \<and> i \<le> e - 1 then ?buf ! (b + 1 + (e - 1) - i) else ?buf ! i)"
        unfolding r using IH i "1.prems" by simp
      moreover have "b + 1 + (e - 1) - i = b + e - i" using True by simp
      ultimately show ?thesis using True i "1.prems" by (auto simp: nth_list_update)
    qed
    then show ?thesis using IH r "1.prems" by simp
  next
    case False
    then have "swap_loop b e buf = buf" by (subst swap_loop.simps) simp
    moreover have "b + e - i = i" if "b \<le> i" "i \<le> e" for i using False that by simp
    ultimately show ?thesis by auto
  qed
qed

lemma swap_loop_rev:
  assumes "e < length buf"
  shows "swap_loop 0 e buf = rev (take (Suc e) buf) @ drop (Suc e) buf"
proof (rule nth_equalityI)
  note n = swap_loop_nth [OF assms, of 0]
  show "length (swap_loop 0 e buf) = length (rev (take (Suc e) buf) @ drop (Suc e) buf)" using n assms by simp
  fix i assume "i < length (swap_loop 0 e buf)"
  then have "swap_loop 0 e buf ! i = (if i \<le> e then buf ! (e - i) else buf ! i)" using n by simp
  moreover have "length (take (Suc e) buf) = Suc e" using assms by simp
  ultimately show "swap_loop 0 e buf ! i = (rev (take (Suc e) buf) @ drop (Suc e) buf) ! i"
    using assms by (auto simp: nth_append rev_nth simp del: length_take)
qed

section \<open>The text of a number\<close>

definition num_text :: "nat \<Rightarrow> nat \<Rightarrow> bool \<Rightarrow> int \<Rightarrow> bool \<Rightarrow> u8 \<Rightarrow> bool \<Rightarrow> u8 list" where
  "num_text u base neg width ladjust padc upcase =
     (let ds = map (digit upcase) (digits_of base u);
          sign = (if neg then [0x2d] else []);
          n = nat width - length (sign @ ds)
      in if ladjust then sign @ ds @ replicate n 0x20
         else if padc = 0x30 then sign @ replicate n 0x30 @ ds
         else replicate n padc @ sign @ ds)"

lemma print_num_text:
  assumes "2 \<le> base" and "-37 \<le> width"
  shows "print_num out u base neg width ladjust padc upcase data =
    Some (out (num_text (unat u) base neg width ladjust padc upcase) data)"
proof -
  let ?ds = "map (digit upcase) (digits_of base (unat u))" and ?sg = "if neg then [0x2d :: u8] else []"
  have "length (digits_of base (unat u)) \<le> Suc 31"
    by (rule digits_length [OF assms(1)]) (use unat_lt_32 [of u] in simp)
  then have l: "length ?ds \<le> 32" by simp
  have ne: "?ds \<noteq> []" by (subst digits_of.simps) simp
  have d: "digit_loop base upcase (unat u) [] = rev ?ds" using digit_loop_eq [OF assms(1)] by simp
  define n where "n = nat width - length (?sg @ ?ds)"
  define a where "a = length (?sg @ ?ds)"
  have a: "a \<le> 33" "0 < a" using l ne by (auto simp: a_def)
  have "n = nat width - a" by (simp add: a_def n_def)
  then have len: "nat (max width (int a)) = a + n" by (simp add: max_def)
  have la: "length (rev ?ds @ ?sg) = a" by (simp add: a_def)
  have v: "\<not> width + 70 < int a" using a(1) assms(2) by simp
  have sw: "swap_loop 0 (if ladjust then a - 1 else a + n - 1) b =
      (if ladjust then rev (take a b) @ drop a b else rev b)" if "length b = a + n" for b :: "u8 list"
    using swap_loop_rev [of "a - 1" b] swap_loop_rev [of "a + n - 1" b] that a(2) by simp
  let ?pd = "if ladjust then 0x20 else padc"
  let ?b1 = "if neg \<and> \<not> ladjust \<and> ?pd = 0x30 then take (a - 1) (rev ?ds @ ?sg) @ replicate n ?pd @ [0x2d]
     else rev ?ds @ ?sg @ replicate n ?pd"
  have "print_num out u base neg width ladjust padc upcase data =
      Some (out (swap_loop 0 (if ladjust then a - 1 else a + n - 1) ?b1) data)"
    using v unfolding print_num_def d Let_def la len by simp
  moreover have "length ?b1 = a + n" by (auto simp: a_def)
  moreover have "(if ladjust then rev (take a ?b1) @ drop a ?b1 else rev ?b1) =
      num_text (unat u) base neg width ladjust padc upcase"
    unfolding num_text_def Let_def n_def [symmetric] by (auto simp: a_def)
  ultimately show ?thesis using sw by simp
qed

text \<open>The way back: the value of the characters of a text, in its base.\<close>

definition digit_value :: "u8 \<Rightarrow> nat" where
  "digit_value c = (if c \<le> 0x39 then unat (c - 0x30) else if c \<le> 0x5a then unat (c - 0x41) + 10 else unat (c - 0x61) + 10)"

lemma digit_value_digit:
  assumes "d < 16"
  shows "digit_value (digit up d) = d"
proof -
  have "\<forall>d \<in> set [0..<16]. \<forall>up \<in> {False, True}. digit_value (digit up d) = d" by code_simp
  then show ?thesis using assms by (cases up) auto
qed

text \<open>C37. Printing numbers: for every value, base from 2 to 16, sign, width from -37 on, adjustment and
  padding, \<^verbatim>\<open>print_num\<close> makes one output of the expected text - sign and digits, filled with
  blanks behind them when left adjusted, with zeros between sign and digits or with the padding
  in front otherwise - without leaving its buffer, and the digits read back give the value.\<close>

theorem print_num_correct:
  assumes "2 \<le> base" "base \<le> 16" and "-37 \<le> width"
  shows "print_num out u base neg width ladjust padc upcase data =
      Some (out (num_text (unat u) base neg width ladjust padc upcase) data) \<and>
    foldl (\<lambda>a c. a * base + digit_value c) 0 (map (digit upcase) (digits_of base (unat u))) = unat u"
proof
  show "print_num out u base neg width ladjust padc upcase data =
      Some (out (num_text (unat u) base neg width ladjust padc upcase) data)"
    by (rule print_num_text [OF assms(1,3)])
  have "set (digits_of base (unat u)) \<subseteq> {..<16}" using digits_value(2) [OF assms(1), of "unat u"] assms(2) by auto
  then have "foldl (\<lambda>a c. a * base + digit_value c) 0 (map (digit upcase) (digits_of base (unat u))) =
      foldl (\<lambda>a d. a * base + d) 0 (digits_of base (unat u))"
    unfolding foldl_map using digit_value_digit by (intro foldl_cong) auto
  then show "foldl (\<lambda>a c. a * base + digit_value c) 0 (map (digit upcase) (digits_of base (unat u))) = unat u"
    using digits_value(1) [OF assms(1)] by simp
qed

theorem print_num_correct_witness:
  "print_num (\<lambda>s d. d @ s) 42 10 True 6 False 0x30 False [] = Some [0x2d, 0x30, 0x30, 0x30, 0x34, 0x32]"
proof -
  have "num_text 42 10 True 6 False 0x30 False = [0x2d, 0x30, 0x30, 0x30, 0x34, 0x32]" by code_simp
  then show ?thesis using print_num_correct [of 10 6 "\<lambda>s d. d @ s" 42 True False "0x30" False "[]"] by simp
qed

section \<open>Decimal conversion\<close>

definition dec_text :: "int \<Rightarrow> u8 list" where
  "dec_text z = (if z < 0 then [0x2d] else []) @ map (digit False) (digits_of 10 (nat \<bar>z\<bar>))"

lemma vprintfmt_text:
  "0x25 \<notin> set p \<Longrightarrow> vprintfmt sh (\<lambda>s d. d @ s) (p @ f) ap d = vprintfmt sh (\<lambda>s d. d @ s) f ap (d @ p)"
proof (induction p arbitrary: d)
  case (Cons c p)
  then show ?case by (subst vprintfmt.simps) auto
qed simp

lemma vprintfmt_end: "0x25 \<notin> set q \<Longrightarrow> vprintfmt sh (\<lambda>s d. d @ s) q ap d = Some (d @ q)"
  using vprintfmt_text [of q sh "[]" ap d] by (simp add: vprintfmt.simps [of _ _ "[]"])

lemma unat_abs:
  fixes v :: u32
  shows "unat (if sint v < 0 then NOT v + 1 else v) = nat \<bar>sint v\<bar>"
proof -
  have r: "- 2147483648 \<le> sint v" "sint v < 2147483648"
    using sint_greater_eq [of v] sint_less [of v] by simp_all
  have w: "word_of_int (sint v) = v" by simp
  have u: "uint (word_of_int z :: u32) = z" if "0 \<le> z" "z \<le> 2147483648" for z
    using that by (simp add: unsigned_of_int take_bit_int_eq_self)
  show ?thesis
  proof (cases "sint v < 0")
    case True
    have "NOT v + 1 = word_of_int (- sint v)" using w by (simp add: minus_eq_not_plus_1 [symmetric])
    then show ?thesis using True u [of "- sint v"] r by (simp add: unat_eq_nat_uint)
  next
    case False
    then show ?thesis using u [of "sint v"] r w by (simp add: unat_eq_nat_uint)
  qed
qed

text \<open>Decimal output: a format with one plain decimal conversion prints the text before it, the signed
  value with a minus sign exactly when it is negative (the smallest integer included), and the
  text behind it.\<close>

theorem printf_decimal:
  assumes "0x25 \<notin> set p" and "0x25 \<notin> set q"
  shows "vprintfmt sh63 (\<lambda>s d. d @ s) (p @ [0x25, 0x64] @ q) [Int_Arg v] d = Some (d @ p @ dec_text (sint v) @ q)"
proof -
  have dir: "directive (0x64 # q) [Int_Arg v] = Some (0x20, False, 0, False, 0x64 # q, [Int_Arg v])"
    by (simp add: directive_def star_width_def long_mod_def)
  have pn: "print_num (\<lambda>s d. d @ s) (if sint v < 0 then NOT v + 1 else v) 10 (sint v < 0) 0 False 0x20 False e =
      Some (e @ dec_text (sint v))" for e
    unfolding print_num_text [of 10 0, simplified] unat_abs by (simp add: num_text_def dec_text_def Let_def)
  have cv: "convert sh63 (\<lambda>s d. d @ s) 0x64 False 0 False 0x20 [Int_Arg v] e = Some ([], e @ dec_text (sint v))" for e
    unfolding convert_def Let_def using pn [of e] by simp
  have "vprintfmt sh63 (\<lambda>s d. d @ s) (p @ [0x25, 0x64] @ q) [Int_Arg v] d =
      vprintfmt sh63 (\<lambda>s d. d @ s) (0x25 # 0x64 # q) [Int_Arg v] (d @ p)"
    using vprintfmt_text [OF assms(1)] by simp
  also have "\<dots> = vprintfmt sh63 (\<lambda>s d. d @ s) q [] ((d @ p) @ dec_text (sint v))"
    by (subst vprintfmt.simps) (simp add: dir cv)
  finally show ?thesis using vprintfmt_end [OF assms(2)] by simp
qed

theorem printf_decimal_witness:
  "vprintfmt (\<lambda>_. False) (\<lambda>s d. d @ s) [0x6e, 0x3d, 0x25, 0x64, 0x0a] [Int_Arg (- 7)] [] = Some [0x6e, 0x3d, 0x2d, 0x37, 0x0a]"
proof -
  have "dec_text (- 7) = [0x2d, 0x37]" by code_simp
  then show ?thesis using printf_decimal [of "[0x6e, 0x3d]" "[0x0a]" "\<lambda>_. False" "- 7" "[]"] by simp
qed

end
