(* ===== verification/Cstring.thy ===== *)
theory Cstring
  imports Bytes "HOL-Library.List_Lexorder"
begin

text \<open>
  The memory and string functions of \<^verbatim>\<open>lib/string.c\<close> over a byte-addressed memory.  Pointers are
  32 bits wide and wrap; a loop that runs around the address space does not end, so the loops are
  partial where that can happen.  \<^verbatim>\<open>char\<close> is signed.
\<close>

section \<open>Copying and filling\<close>

text \<open>The three loops of \<^verbatim>\<open>memcpy\<close> and \<^verbatim>\<open>memset\<close>, over a body that works on one byte or word at \<open>dst\<close>: up to
  the next multiple of four, by words, and for the rest.  An access to a word at an address that is not a
  multiple of four raises an exception, which is \<^const>\<open>None\<close>.\<close>

function byte_loop :: "(u32 \<Rightarrow> 's \<Rightarrow> 's) \<Rightarrow> u32 \<Rightarrow> u32 \<Rightarrow> 's \<Rightarrow> 's" where
  "byte_loop f dst lim st = (if dst < lim then byte_loop f (dst + 1) lim (f dst st) else st)"
  by pat_completeness auto

lemma succ_less: "dst < (lim :: u32) \<Longrightarrow> unat (dst + 1) = unat dst + 1"
proof -
  assume "dst < lim"
  then have "Suc (unat dst) < 4294967296" using unat_lt_32 [of lim] unfolding word_less_nat_alt by linarith
  then show ?thesis by (simp add: unat_word_ariths)
qed

termination byte_loop
  by (relation "measure (\<lambda>(_, dst, lim, _). unat lim - unat dst)")
    (auto simp: succ_less word_less_nat_alt [symmetric] intro: diff_less_mono2 dest: unat_mono)

function align_loop :: "(u32 \<Rightarrow> 's \<Rightarrow> 's) \<Rightarrow> u32 \<Rightarrow> u32 \<Rightarrow> 's \<Rightarrow> u32 \<times> 's" where
  "align_loop f dst lim st =
     (if dst AND 3 \<noteq> 0 \<and> dst < lim then align_loop f (dst + 1) lim (f dst st) else (dst, st))"
  by pat_completeness auto

termination align_loop
  by (relation "measure (\<lambda>(_, dst, lim, _). unat lim - unat dst)")
    (auto simp: succ_less intro: diff_less_mono2 dest: unat_mono)

partial_function (option) word_loop :: "(u32 \<Rightarrow> 's \<Rightarrow> 's option) \<Rightarrow> u32 \<Rightarrow> u32 \<Rightarrow> 's \<Rightarrow> (u32 \<times> 's) option" where
  "word_loop f dst lim st =
     (if dst + 4 \<le> lim then Option.bind (f dst st) (word_loop f (dst + 4) lim) else Some (dst, st))"

declare byte_loop.simps [simp del] align_loop.simps [simp del]

definition copy_byte :: "u32 \<Rightarrow> u32 \<times> (u32 \<Rightarrow> u8) \<Rightarrow> u32 \<times> (u32 \<Rightarrow> u8)" where
  "copy_byte dst st = (case st of (src, m) \<Rightarrow> (src + 1, m(dst := m src)))"

definition load_word :: "(u32 \<Rightarrow> u8) \<Rightarrow> u32 \<Rightarrow> u32 option" where
  "load_word m a = (if a AND 3 = 0 then Some (word_at m a) else None)"

definition store_word :: "u32 \<Rightarrow> u32 \<Rightarrow> (u32 \<Rightarrow> u8) \<Rightarrow> (u32 \<Rightarrow> u8) option" where
  "store_word a w m = (if a AND 3 = 0 then Some (put_word a w m) else None)"

definition copy_word :: "u32 \<Rightarrow> u32 \<times> (u32 \<Rightarrow> u8) \<Rightarrow> (u32 \<times> (u32 \<Rightarrow> u8)) option" where
  "copy_word dst st = (case st of (src, m) \<Rightarrow> do {
     w \<leftarrow> load_word m src;
     m' \<leftarrow> store_word dst w m;
     Some (src + 4, m') })"

definition memcpy :: "u32 \<Rightarrow> u32 \<Rightarrow> u32 \<Rightarrow> (u32 \<Rightarrow> u8) \<Rightarrow> (u32 \<times> (u32 \<Rightarrow> u8)) option" where
  "memcpy dst src n m =
     (let lim = dst + n
      in if src AND 3 \<noteq> dst AND 3 then Some (dst, snd (byte_loop copy_byte dst lim (src, m)))
         else (case align_loop copy_byte dst lim (src, m) of (dst1, st1) \<Rightarrow> do {
           (dst2, st2) \<leftarrow> word_loop copy_word dst1 lim st1;
           Some (dst, snd (byte_loop copy_byte dst2 lim st2)) }))"

definition memset :: "u32 \<Rightarrow> u32 \<Rightarrow> u32 \<Rightarrow> (u32 \<Rightarrow> u8) \<Rightarrow> (u32 \<times> (u32 \<Rightarrow> u8)) option" where
  "memset dst c n m =
     (let lim = dst + n; b = (ucast (c AND 0xff) :: u8);
          w = (ucast b OR push_bit 8 (ucast b) OR push_bit 16 (ucast b) OR push_bit 24 (ucast b) :: u32);
          fill = (\<lambda>d (m :: u32 \<Rightarrow> u8). m(d := b))
      in (case align_loop fill dst lim m of (dst1, m1) \<Rightarrow> do {
           (dst2, m2) \<leftarrow> word_loop (\<lambda>d. store_word d w) dst1 lim m1;
           Some (dst, byte_loop fill dst2 lim m2) }))"

section \<open>Strings\<close>

partial_function (option) strlen_loop :: "(u32 \<Rightarrow> u8) \<Rightarrow> u32 \<Rightarrow> u32 \<Rightarrow> u32 option" where
  "strlen_loop m s n = (if m s = 0 then Some n else strlen_loop m (s + 1) (n + 1))"

definition strlen :: "u32 \<Rightarrow> (u32 \<Rightarrow> u8) \<Rightarrow> u32 option" where
  "strlen s m = strlen_loop m s 0"

partial_function (option) strcpy_loop :: "u32 \<Rightarrow> u32 \<Rightarrow> (u32 \<Rightarrow> u8) \<Rightarrow> (u32 \<Rightarrow> u8) option" where
  "strcpy_loop dst src m =
     (let m' = m(dst := m src) in if m src = 0 then Some m' else strcpy_loop (dst + 1) (src + 1) m')"

definition strcpy :: "u32 \<Rightarrow> u32 \<Rightarrow> (u32 \<Rightarrow> u8) \<Rightarrow> (u32 \<times> (u32 \<Rightarrow> u8)) option" where
  "strcpy dst src m = do { m' \<leftarrow> strcpy_loop dst src m; Some (dst, m') }"

partial_function (option) strchr :: "(u32 \<Rightarrow> u8) \<Rightarrow> u32 \<Rightarrow> u32 \<Rightarrow> u32 option" where
  "strchr m s c = (if m s = 0 then Some 0 else if scast (m s) = c then Some s else strchr m (s + 1) c)"

partial_function (option) strcmp :: "(u32 \<Rightarrow> u8) \<Rightarrow> u32 \<Rightarrow> u32 \<Rightarrow> int option" where
  "strcmp m p q =
     (if m p \<noteq> 0 \<and> m p = m q then strcmp m (p + 1) (q + 1)
      else if (scast (m p) :: u32) < scast (m q) then Some (- 1)
      else if (scast (m p) :: u32) > scast (m q) then Some 1
      else Some 0)"

section \<open>The loops together\<close>

lemma unat_plus:
  fixes dst :: u32
  assumes "unat dst + n < 4294967296"
  shows "unat (dst + of_nat n) = unat dst + n"
  using assms by (simp add: unat_word_ariths unsigned_of_nat take_bit_nat_eq_self)

text \<open>When the bodies take the state of \<open>k\<close> bytes to that of \<open>k + 1\<close> and \<open>k + 4\<close>, the loops end in the state of
  all \<open>n\<close> bytes.\<close>

lemma byte_loop_ok:
  assumes lim: "unat dst + n < 4294967296" and fb: "\<And>k. k < n \<Longrightarrow> f (dst + of_nat k) (S k) = S (Suc k)"
    and "k \<le> n"
  shows "byte_loop f (dst + of_nat k) (dst + of_nat n) (S k) = S n"
  using assms(3)
proof (induction "n - k" arbitrary: k)
  case 0
  then show ?case by (subst byte_loop.simps) simp
next
  case (Suc x)
  then have k: "k < n" "x = n - Suc k" by simp_all
  have "dst + of_nat k < dst + of_nat n" using k lim unat_plus [of dst k] unat_plus [of dst n] by (simp add: word_less_nat_alt)
  moreover have e: "dst + of_nat k + 1 = dst + of_nat (Suc k)" by simp
  ultimately show ?case
    using Suc.hyps(1) [OF k(2)] k(1) fb [OF k(1)] by (subst byte_loop.simps) (simp add: e del: of_nat_Suc)
qed

lemma align_loop_ok:
  assumes lim: "unat dst + n < 4294967296" and fb: "\<And>k. k < n \<Longrightarrow> f (dst + of_nat k) (S k) = S (Suc k)"
    and "k \<le> n"
  shows "\<exists>j. j \<le> n \<and> align_loop f (dst + of_nat k) (dst + of_nat n) (S k) = (dst + of_nat j, S j) \<and>
    (j < n \<longrightarrow> (dst + of_nat j) AND 3 = 0)"
  using assms(3)
proof (induction "n - k" arbitrary: k)
  case 0
  then show ?case by (subst align_loop.simps) auto
next
  case (Suc x)
  then have k: "k < n" "x = n - Suc k" by simp_all
  have e: "dst + of_nat k + 1 = dst + of_nat (Suc k)" by simp
  show ?case
    using Suc.hyps(1) [OF k(2)] k(1) fb [OF k(1)]
    unat_plus [of dst k] unat_plus [of dst n] lim
    by (subst align_loop.simps) (auto simp: e word_less_nat_alt simp del: of_nat_Suc intro: exI [of _ k])
qed

lemma unat_and_3: "unat ((a :: u32) AND 3) = unat a mod 4"
proof -
  have "a AND 3 = take_bit 2 a" by (simp add: take_bit_eq_mask mask_eq_exp_minus_1)
  then show ?thesis by (simp add: take_bit_eq_mod unat_mod)
qed

lemma and_3_cong: "(a :: u32) AND 3 = b AND 3 \<Longrightarrow> (a + c) AND 3 = (b + c) AND 3"
proof -
  assume "a AND 3 = b AND 3"
  then have "unat a mod 4 = unat b mod 4" by (metis unat_and_3)
  then have "(unat a + unat c) mod 4 = (unat b + unat c) mod 4" by (rule mod_add_cong) simp
  then show ?thesis by (simp add: word_unat_eq_iff unat_and_3 unat_word_ariths mod_mod_cancel)
qed

lemma and_3_plus_4: "((d :: u32) + 4) AND 3 = d AND 3"
  by (simp add: word_unat_eq_iff unat_and_3 unat_word_ariths mod_mod_cancel)

lemma word_loop_ok:
  assumes lim: "unat dst + n + 4 < 4294967296" and fw: "\<And>k. k + 4 \<le> n \<Longrightarrow> (dst + of_nat k) AND 3 = 0 \<Longrightarrow> f (dst + of_nat k) (S k) = Some (S (k + 4))"
    and "k \<le> n" and "k < n \<longrightarrow> (dst + of_nat k) AND 3 = 0"
  shows "\<exists>j. j \<le> n \<and> word_loop f (dst + of_nat k) (dst + of_nat n) (S k) = Some (dst + of_nat j, S j)"
  using assms(3,4)
proof (induction "n - k" arbitrary: k rule: less_induct)
  case less
  have e: "dst + of_nat k + 4 = dst + of_nat (k + 4)" by simp
  have c: "dst + of_nat k + 4 \<le> dst + of_nat n \<longleftrightarrow> k + 4 \<le> n"
    unfolding e word_le_nat_alt using less.prems lim unat_plus [of dst "k + 4"] unat_plus [of dst n] by simp
  show ?case
  proof (cases "k + 4 \<le> n")
    case True
    then have a: "(dst + of_nat k) AND 3 = 0" using less.prems(2) by simp
    then have "(dst + of_nat (k + 4)) AND 3 = 0" using and_3_plus_4 [of "dst + of_nat k"] by (simp only: e)
    then show ?thesis
      using less.hyps [of "k + 4"] fw [OF True a] c True unfolding e
      by (subst word_loop.simps) (simp add: e del: of_nat_add)
  next
    case False
    then show ?thesis using c less.prems by (subst word_loop.simps) auto
  qed
qed

lemma three_loops:
  assumes lim: "unat dst + n + 4 < 4294967296" and fb: "\<And>k. k < n \<Longrightarrow> f (dst + of_nat k) (S k) = S (Suc k)"
    and fw: "\<And>k. k + 4 \<le> n \<Longrightarrow> (dst + of_nat k) AND 3 = 0 \<Longrightarrow> g (dst + of_nat k) (S k) = Some (S (k + 4))"
  shows "(case align_loop f dst (dst + of_nat n) (S 0) of (d1, s1) \<Rightarrow> do {
      (d2, s2) \<leftarrow> word_loop g d1 (dst + of_nat n) s1; Some (h (byte_loop f d2 (dst + of_nat n) s2)) }) = Some (h (S n))"
proof -
  have l: "unat dst + n < 4294967296" using lim by simp
  obtain j where j: "j \<le> n" "align_loop f dst (dst + of_nat n) (S 0) = (dst + of_nat j, S j)"
    "j < n \<longrightarrow> (dst + of_nat j) AND 3 = 0"
    using align_loop_ok [where f = f and S = S, OF l fb, of 0] by auto
  obtain i where i: "i \<le> n" "word_loop g (dst + of_nat j) (dst + of_nat n) (S j) = Some (dst + of_nat i, S i)"
    using word_loop_ok [where f = g and S = S, OF lim fw j(1,3)] by auto
  show ?thesis using j(2) i(2) byte_loop_ok [where f = f and S = S, OF l fb i(1)] by simp
qed

section \<open>Memory functions\<close>

lemma mem_upd_4:
  assumes "k + 4 < 4294967296"
  shows "(mem_upd dst k g m)(dst + of_nat k := g k, dst + of_nat k + 1 := g (k + 1), dst + of_nat k + 2 := g (k + 2),
    dst + of_nat k + 3 := g (k + 3)) = mem_upd dst (k + 4) g m"
proof -
  have e: "dst + of_nat k + 1 = dst + of_nat (Suc k)" "dst + of_nat k + 2 = dst + of_nat (Suc (Suc k))"
    "dst + of_nat k + 3 = dst + of_nat (Suc (Suc (Suc k)))" by simp_all
  have n: "k + 1 = Suc k" "k + 2 = Suc (Suc k)" "k + 3 = Suc (Suc (Suc k))" "k + 4 = Suc (Suc (Suc (Suc k)))" by simp_all
  show ?thesis unfolding e n using assms by (simp only: mem_upd_Suc)
qed

lemma put_word_bytes:
  "put_word a (word_at m b) m' = m'(a := m b, a + 1 := m (b + 1), a + 2 := m (b + 2), a + 3 := m (b + 3))"
proof -
  have "ucast (word_at m b) = m b" "ucast (drop_bit 8 (word_at m b)) = m (b + 1)"
    "ucast (drop_bit 16 (word_at m b)) = m (b + 2)" "ucast (drop_bit 24 (word_at m b)) = m (b + 3)"
    by (rule bit_word_eqI; auto simp: word_at_def bit_simps dest: bit_imp_le_length)+
  then show ?thesis by (simp add: put_word_def)
qed

lemma outside:
  fixes dst src :: u32
  assumes "unat dst + n + 4 < 4294967296" and "unat src + n + 4 < 4294967296"
    and "unat dst + n \<le> unat src \<or> unat src + n \<le> unat dst" and "k \<le> n" and "i < n"
  shows "mem_upd dst k g m (src + of_nat i) = m (src + of_nat i)"
proof -
  have u: "unat (src + of_nat i) = unat src + i" using assms by (intro unat_plus) simp
  have "\<not> unat (src + of_nat i - dst) < k"
  proof (cases "unat dst + n \<le> unat src")
    case True
    then show ?thesis using u assms by (simp add: unat_sub word_le_nat_alt)
  next
    case False
    then have "unat (src + of_nat i - dst) = unat src + i + 4294967296 - unat dst"
      using u assms by (simp add: unat_sub_if_size word_size)
    then show ?thesis using assms by simp
  qed
  then show ?thesis by (simp add: mem_upd_def)
qed

lemma memcpy_ok:
  assumes d: "unat dst + n + 4 < 4294967296" and s: "unat src + n + 4 < 4294967296"
    and ap: "unat dst + n \<le> unat src \<or> unat src + n \<le> unat dst"
  shows "memcpy dst src (of_nat n) m = Some (dst, mem_upd dst n (\<lambda>i. m (src + of_nat i)) m)"
proof -
  define g where "g = (\<lambda>i. m (src + of_nat i))"
  define S where "S k = (src + of_nat k, mem_upd dst k g m)" for k
  note out = outside [OF d s ap]
  have fb: "copy_byte (dst + of_nat k) (S k) = S (Suc k)" if "k < n" for k
    using that d out [of k k g m] mem_upd_Suc [of k dst g m] by (simp add: copy_byte_def S_def g_def add.commute)
  have fw: "copy_word (dst + of_nat k) (S k) = Some (S (k + 4))"
    if al: "src AND 3 = dst AND 3" and k: "k + 4 \<le> n" and a: "(dst + of_nat k) AND 3 = 0" for k
  proof -
    have e: "mem_upd dst k g m (src + of_nat (k + j)) = g (k + j)" if "j < 4" for j
      using out [of k "k + j" g m] k that by (simp add: g_def)
    have "mem_upd dst k g m (src + of_nat k) = g k" "mem_upd dst k g m (src + of_nat k + 1) = g (k + 1)"
      "mem_upd dst k g m (src + of_nat k + 2) = g (k + 2)" "mem_upd dst k g m (src + of_nat k + 3) = g (k + 3)"
      using e [of 0] e [of 1] e [of 2] e [of 3] by (simp_all add: algebra_simps)
    moreover have "(src + of_nat k) AND 3 = 0" using and_3_cong [OF al, of "of_nat k"] a by simp
    ultimately show ?thesis
      using mem_upd_4 [of k dst g m] k d a
      by (simp add: copy_word_def load_word_def store_word_def S_def put_word_bytes add.commute add.left_commute)
  qed
  have z: "(src, m) = S 0" by (simp add: S_def)
  have l: "unat dst + n < 4294967296" using d by simp
  show ?thesis
  proof (cases "src AND 3 = dst AND 3")
    case True
    then have nn: "\<not> src AND 3 \<noteq> dst AND 3" by simp
    show ?thesis
      unfolding memcpy_def Let_def z if_not_P [OF nn]
      by (rule trans [OF three_loops [where S = S and h = "\<lambda>st. (dst, snd st)", OF d fb fw [OF True]]]) (simp_all add: S_def g_def)
  next
    case False
    then show ?thesis
      using byte_loop_ok [where S = S, OF l fb, of 0] unfolding memcpy_def Let_def z by (simp add: S_def g_def)
  qed
qed

lemma memset_ok:
  assumes d: "unat dst + n + 4 < 4294967296"
  shows "memset dst c (of_nat n) m = Some (dst, mem_upd dst n (\<lambda>_. ucast c) m)"
proof -
  define b where "b = (ucast (c AND 0xff) :: u8)"
  define w where "w = (ucast b OR push_bit 8 (ucast b) OR push_bit 16 (ucast b) OR push_bit 24 (ucast b) :: u32)"
  define S where "S k = mem_upd dst k (\<lambda>_. b) m" for k
  have k: "c AND 0xff = take_bit 8 c" by (simp add: take_bit_eq_mask mask_eq_exp_minus_1)
  have bc: "b = ucast c" unfolding b_def k by (rule bit_word_eqI) (auto simp: bit_simps)
  have fb: "(S k)(dst + of_nat k := b) = S (Suc k)" if "k < n" for k
    using that d mem_upd_Suc [of k dst "\<lambda>_. b" m] by (simp add: S_def)
  have ww: "w = word_at (\<lambda>_. b) x" for x by (simp add: w_def word_at_def)
  have fw: "store_word (dst + of_nat k) w (S k) = Some (S (k + 4))" if "k + 4 \<le> n" "(dst + of_nat k) AND 3 = 0" for k
    using mem_upd_4 [of k dst "\<lambda>_. b" m] that d unfolding store_word_def ww [of 0] put_word_bytes S_def by simp
  have z: "S 0 = m" by (simp add: S_def)
  have "memset dst c (of_nat n) m = Some (dst, S n)"
    using three_loops [where S = S and f = "\<lambda>d m. m(d := b)" and g = "\<lambda>d. store_word d w" and h = "\<lambda>m. (dst, m)", OF d fb fw]
    unfolding memset_def Let_def b_def [symmetric] w_def [symmetric] z .
  then show ?thesis by (simp add: S_def bc)
qed

text \<open>C36. \<^verbatim>\<open>memcpy\<close> and \<^verbatim>\<open>memset\<close> with their word-wise inner loops are byte-wise copying and filling: for every
  alignment and length no word is accessed at an address that is not a multiple of four, and on ranges that do not overlap and do not reach the end of the address
  space, they end, return the destination, and change exactly the bytes of the destination.\<close>

theorem memcpy_memset_correct:
  assumes "unat dst + n + 4 < 4294967296" and "unat src + n + 4 < 4294967296"
    and "unat dst + n \<le> unat src \<or> unat src + n \<le> unat dst"
  shows "memcpy dst src (of_nat n) m = Some (dst, mem_upd dst n (\<lambda>i. m (src + of_nat i)) m) \<and>
    memset dst c (of_nat n) m = Some (dst, mem_upd dst n (\<lambda>_. ucast c) m)"
  using memcpy_ok [OF assms] memset_ok [OF assms(1)] by blast

theorem memcpy_memset_correct_witness:
  "\<exists>m'. memcpy 0x1001 0x2001 7 (\<lambda>a. ucast a) = Some (0x1001, m') \<and> m' 0x1003 = 3 \<and> m' 0x1008 = 8"
  using memcpy_memset_correct [of "0x1001" 7 "0x2001" "\<lambda>a. ucast a" 0] by (simp add: mem_upd_def)

section \<open>String functions\<close>

lemma all_less_Suc_split: "(\<forall>i < Suc n. P i) \<longleftrightarrow> P 0 \<and> (\<forall>i < n. P (Suc i))"
  by (metis less_Suc_eq_0_disj)

definition cstr :: "(u32 \<Rightarrow> u8) \<Rightarrow> u32 \<Rightarrow> u8 list \<Rightarrow> bool" where
  "cstr m a xs \<longleftrightarrow> 0 \<notin> set xs \<and> (\<forall>i < length xs. m (a + of_nat i) = xs ! i) \<and> m (a + of_nat (length xs)) = 0"

lemma cstr_Nil: "cstr m a [] \<longleftrightarrow> m a = 0"
  by (simp add: cstr_def)

lemma cstr_Cons: "cstr m a (x # xs) \<longleftrightarrow> x \<noteq> 0 \<and> m a = x \<and> cstr m (a + 1) xs"
proof -
  have "(\<forall>i < length (x # xs). m (a + of_nat i) = (x # xs) ! i) \<longleftrightarrow>
      m a = x \<and> (\<forall>i < length xs. m (a + 1 + of_nat i) = xs ! i)"
    unfolding all_less_Suc_split length_Cons by (simp add: add.assoc)
  moreover have "a + of_nat (length (x # xs)) = a + 1 + of_nat (length xs)" by simp
  ultimately show ?thesis unfolding cstr_def by (auto simp: add.assoc)
qed

lemma strlen_loop_ok: "cstr m a xs \<Longrightarrow> strlen_loop m a n = Some (n + of_nat (length xs))"
proof (induction xs arbitrary: a n)
  case Nil
  then show ?case by (subst strlen_loop.simps) (simp add: cstr_Nil)
next
  case (Cons x xs)
  then show ?case by (subst strlen_loop.simps) (simp add: cstr_Cons add.assoc)
qed

text \<open>Sign extension keeps the order of the bytes as unsigned numbers.\<close>

lemma scast_less: "(scast (a :: u8) :: u32) < scast b \<longleftrightarrow> a < b"
proof -
  have u: "uint (scast c :: u32) = (if uint c < 128 then uint c else uint c + 4294967040)" for c :: u8
  proof -
    have r: "0 \<le> uint c" "uint c < 256" using unsigned_less [of c, where ?'a = int] by simp_all
    have "uint (word_of_int (sint c) :: u8) = sint c mod 256" unfolding uint_word_of_int by simp
    then have m: "uint c = sint c mod 256" by simp
    have "- 128 \<le> sint c" "sint c < 128" using sint_greater_eq [of c] sint_less [of c] by simp_all
    then have s: "sint c = (if uint c < 128 then uint c else uint c - 256)" using m by presburger
    have "scast c = (word_of_int (sint c) :: u32)" by simp
    then have "uint (scast c :: u32) = sint c mod 4294967296" by (simp only: uint_word_of_int) simp
    moreover have "(uint c - 256) mod 4294967296 = uint c + 4294967040"
      using r mod_add_self2 [of "uint c - 256" 4294967296] by simp
    ultimately show ?thesis using s r by (auto simp: mod_pos_pos_trivial)
  qed
  have r: "0 \<le> uint c" "uint c < 256" for c :: u8 using unsigned_less [of c, where ?'a = int] by simp_all
  show ?thesis unfolding word_less_def u using r [of a] r [of b] by auto
qed

lemma scast_pos: "0 < (scast (a :: u8) :: u32) \<longleftrightarrow> 0 < a"
  using scast_less [of 0 a] by simp

lemma strcmp_ok:
  "cstr m p xs \<Longrightarrow> cstr m q ys \<Longrightarrow> strcmp m p q = Some (if xs < ys then - 1 else if ys < xs then 1 else 0)"
proof (induction xs arbitrary: p q ys)
  case Nil
  then show ?case by (cases ys; subst strcmp.simps) (auto simp: cstr_Nil cstr_Cons scast_less scast_pos word_neq_0_conv)
next
  case (Cons x xs)
  show ?case
  proof (cases ys)
    case Nil
    then show ?thesis using Cons.prems by (subst strcmp.simps) (auto simp: cstr_Nil cstr_Cons scast_less scast_pos word_neq_0_conv)
  next
    case (Cons y ys')
    then show ?thesis
      using Cons.prems Cons.IH [of "p + 1" "q + 1" ys'] \<open>ys = y # ys'\<close>
      by (subst strcmp.simps) (auto simp: cstr_Cons scast_less)
  qed
qed

text \<open>Comparing strings: on two strings in memory \<^verbatim>\<open>strcmp\<close> ends and gives -1, 0 or 1 by the
  lexicographic order of their bytes as unsigned numbers, although \<^verbatim>\<open>char\<close> is signed; in particular 0
  exactly for equal strings.  \<^verbatim>\<open>strlen\<close> gives the length.\<close>

theorem strcmp_correct:
  assumes "cstr m p xs" and "cstr m q ys"
  shows "strcmp m p q = Some (if xs < ys then - 1 else if ys < xs then 1 else 0) \<and>
    (strcmp m p q = Some 0 \<longleftrightarrow> xs = ys) \<and> strlen p m = Some (of_nat (length xs))"
  using strcmp_ok [OF assms] strlen_loop_ok [OF assms(1), of 0] by (auto simp: strlen_def)

theorem strcmp_correct_witness:
  "strcmp ((\<lambda>_. 0)(0x100 := 0x61, 0x200 := 0xe4)) 0x100 0x200 = Some (- 1)"
proof -
  let ?m = "(\<lambda>_. 0)(0x100 := 0x61, 0x200 := 0xe4) :: u32 \<Rightarrow> u8"
  have "cstr ?m 0x100 [0x61]" "cstr ?m 0x200 [0xe4]" by (simp_all add: cstr_def)
  then show ?thesis using strcmp_correct [of ?m "0x100" "[0x61]" "0x200" "[0xe4]"] by simp
qed

end
