(* ===== verification/Spec2Isabelle.thy ===== *)
theory Spec2Isabelle
  imports Boot Format_Mount Fork_Props Fd_Props Serv_Props Dev_Props Fat_File Fat_Names Fat_Table Fs_Path Pipe Print_Props Cstring
begin

text \<open>
  Verification of MOS, a teaching operating system for MIPS R3000 with a FAT32 file server.

  \<^bold>\<open>The program.\<close>  The kernel (\<^verbatim>\<open>kern/\<close>, with \<^verbatim>\<open>include/\<close>) manages physical pages and two-level page
  tables (\<^verbatim>\<open>pmap.c\<close>), environments with their address spaces (\<^verbatim>\<open>env.c\<close>), a round-robin scheduler
  with priorities as time slices (\<^verbatim>\<open>sched.c\<close>), the software-filled TLB (\<^verbatim>\<open>tlbex.c\<close>), and some twenty
  system calls (\<^verbatim>\<open>syscall_all.c\<close>).  The linked lists are the macros of \<^verbatim>\<open>queue.h\<close>.  A file system
  server (\<^verbatim>\<open>fs/\<close>) keeps a cache of disk blocks in its address space and reaches the disk through
  device system calls (\<^verbatim>\<open>ide.c\<close>); it serves a native file system (\<^verbatim>\<open>fs.c\<close>) and FAT32 (\<^verbatim>\<open>fatfs.c\<close>, with
  time stamps from \<^verbatim>\<open>time.c\<close>) to the requests of its clients (\<^verbatim>\<open>serv.c\<close>).  Programs use a library
  (\<^verbatim>\<open>user/lib/\<close>): descriptors with the devices file, console and pipe, and a copy-on-write fork; kernel and
  programs share \<^verbatim>\<open>lib/\<close> (strings, printing, ELF loading).  On the host, \<^verbatim>\<open>tools/fsformat.c\<close> builds the disk image.

  \<^bold>\<open>Conventions.\<close>  Machine integers are words of their width and wrap.  A function that can stop the
  machine or the process (panic, failed assertion, wild access) returns an option, \<^const>\<open>None\<close> for not
  returning; an error code is the left part of a sum.  Code outside the repository is a parameter:
  what the disk does when an operation is started, whether the kernel has a page for the n-th
  request of the server or a process, who else holds a page of the server, what the file server answers to a
  client, the bytes the console delivers, the addresses the linker chooses, the clock, the files of the host and
  its byte order, what the compiler makes of a shift by 63 places.

  \<^bold>\<open>Theories and sources.\<close>
  \<^item> \<open>Prelude\<close>: types, error codes (\<^verbatim>\<open>error.h\<close>), loops over lists with failure, word lemmas.
    \<open>Bytes\<close>: little-endian words and ranges in memory and images.
  \<^item> \<open>Queue\<close> (\<^verbatim>\<open>queue.h\<close>): the list and tail-queue macros as assignments to link fields.  The locales
    \<open>linked_queue\<close> and \<open>run_queue\<close> state what the kernel uses of them and are interpreted on both.
  \<^item> \<open>Mmu\<close> (\<^verbatim>\<open>mmu.h\<close>, \<^verbatim>\<open>pmap.h\<close>), \<open>Pmap\<close> (\<^verbatim>\<open>pmap.c\<close>): physical memory as pages of 1024 words, page
    tables in it.  \<open>Vm_Inv\<close> has the invariant (tables, reference counts and free list agree), \<open>Vm_Ops\<close>
    and \<open>Vm_Space\<close> the effect of inserting, removing and freeing on the mappings.
  \<^item> \<open>Elf\<close> (\<^verbatim>\<open>elfloader.c\<close>), \<open>Env\<close> (\<^verbatim>\<open>env.c\<close>), \<open>Env_Inv\<close> (the kernel invariant), \<open>Sched\<close> (\<^verbatim>\<open>sched.c\<close>),
    \<open>Tlbex\<close> (\<^verbatim>\<open>tlbex.c\<close>, \<^verbatim>\<open>tlb_asm.S\<close>), \<open>Syscall\<close> (\<^verbatim>\<open>syscall_all.c\<close>, \<^verbatim>\<open>console.c\<close>).
  \<^item> \<open>Kernel_Props\<close>, \<open>Syscall_Props\<close>, \<open>Dev_Props\<close>: the kernel theorems.  \<open>Load\<close>: what the loader leaves in
    the memory of a new environment; \<open>Boot\<close> (\<^verbatim>\<open>init.c\<close>): the start of the kernel.
  \<^item> \<open>Time\<close> (\<^verbatim>\<open>time.c\<close>), \<open>Fs_Mem\<close> (the server's memory, its memory calls, \<^verbatim>\<open>ide.c\<close>), \<open>Fs\<close> (\<^verbatim>\<open>fs.c\<close>),
    \<open>Fat\<close>, \<open>Fat_Dir\<close>, \<open>Fat_File\<close> (\<^verbatim>\<open>fatfs.c\<close>).
  \<^item> \<open>Fs_Io\<close>: the driver on a disk that behaves; \<open>Alloc\<close>: the contract of an allocator as the locale
    \<open>unit_allocator\<close>, interpreted on the bitmap in \<open>Fs_Props\<close> and on the table in \<open>Fat_Table\<close>.
    \<open>Fs_Path\<close> and \<open>Fat_Names\<close> treat paths and names.
    \<open>Mount\<close> treats the start of the server on a disk.
  \<^item> \<open>Serv\<close> (\<^verbatim>\<open>serv.c\<close>, \<^verbatim>\<open>ipc.c\<close>, \<^verbatim>\<open>pageref.c\<close>): the tables of open files, one function per request, the loop; the
    clients' mappings of the descriptor pages are part of the state.  \<open>Serv_Props\<close> has its theorems.
  \<^item> \<open>Fork\<close> (\<^verbatim>\<open>fork.c\<close>) runs on the kernel model; \<open>Fork_Props\<close> shows what parent and child see.
  \<^item> \<open>Umem\<close>: a process with its page table and frames; \<open>Fsipc\<close> (\<^verbatim>\<open>fsipc.c\<close>, descriptors of \<^verbatim>\<open>fd.c\<close>), \<open>Ufile\<close>
    (\<^verbatim>\<open>file.c\<close>), \<open>Fd\<close> (\<^verbatim>\<open>console.c\<close>, \<^verbatim>\<open>pipe.c\<close>, the rest of \<^verbatim>\<open>fd.c\<close>) on it.  \<open>Umem_Props\<close> and \<open>Fd_Props\<close> have the
    lemmas; the locale \<open>reader\<close> states what \<^verbatim>\<open>readn\<close> needs of \<^verbatim>\<open>read\<close> and is interpreted on files.
  \<^item> \<open>Format\<close> (\<^verbatim>\<open>fsformat.c\<close>): blocks and links as bytes of the image.  \<open>Format_Props\<close> has the invariant of
    the blocks in use, \<open>Format_Image\<close> what each file and directory leaves in the image, \<open>Format_Reverse\<close> the reversal of words
    for a target of the other byte order, \<open>Format_Mount\<close> joins them with
    \<open>Mount\<close>: the server starts on the image.
  \<^item> \<open>Cstring\<close> (\<^verbatim>\<open>string.c\<close>), \<open>Print\<close> and \<open>Print_Props\<close> (\<^verbatim>\<open>print.c\<close>), \<open>Pipe\<close> (\<^verbatim>\<open>pipe.c\<close>: two processes that
    take turns between any two accesses).

  \<^bold>\<open>What is shown.\<close>  Page tables: every operation changes exactly the mapping it names, keeps reference
  counts and free list, and leaves no stale TLB entry.  Environments: allocation and release keep the
  kernel invariant and the other address spaces; a program loaded finds in memory exactly what its segments say, and the
  boot ends in the invariant with both first programs so.  Scheduler: it refines an abstract round robin, and
  every runnable environment runs within one round of time slices.  System calls: memory, IPC, fork and device calls on every branch,
  refusals without effect.  File systems: allocators hand out each block once and keep their
  bookkeeping, eviction and synchronisation keep the data, paths are resolved by components, names
  round trip.  Server: a file id stays valid while a client holds it, and requests that cannot be
  served are answered without effect.  The image holds what the host has, in either byte order, and the server starts on it.  Library: descriptors are found, shared and closed, bytes written are
  read back, fork shares pages without letting writes through; copying, comparing and printing meet simple descriptions; a pipe is a FIFO
  in every interleaving.  Some theorems record faults of the code: a blocked receiver woken by a failing
  send, segments whose content the loader overwrites, a page lost by a failing allocation, blocks reused as
  tables of block numbers with their old bytes, an unchecked wrap-around in the device calls, page tables writable for the process, the
  last cluster that cannot be allocated, data lost at the end of a pipe.

  \<^bold>\<open>Bounds.\<close>  Loops over counters are recursions over lists of numbers; loops whose end depends on data
  (chains of clusters, strings, the sector loop) are partial functions into options, and the
  theorems about them show that they return.  The kernel theorems hold for the memory sizes the
  kernel supports (at most 512 MiB, the window \<^verbatim>\<open>KSEG0\<close>); the block cache holds 262144 blocks; the FAT theorems hold for one to
  eight sectors per cluster; pipes for less than \<open>2 ^ 32\<close> bytes, where the positions wrap; an image has 1024 blocks,
  and the formatter's theorems are about runs in which they are enough.

  \<^bold>\<open>Not modelled.\<close>  Assembly that saves registers and starts the machine with the exception vector, which is
  below the level of these states; the system call wrappers (\<^verbatim>\<open>syscall_lib.c\<close>), which are one trap each; \<^verbatim>\<open>spawn.c\<close>, \<^verbatim>\<open>wait.c\<close>,
  \<^verbatim>\<open>libos.c\<close>; application programs; the output functions that hand characters from \<open>Print\<close> to the
  console; the host tools \<^verbatim>\<open>bintoc\<close> and \<^verbatim>\<open>readelf\<close>; self tests.
\<close>

end
